(* ===== verification/Prelude.thy ===== *)
theory Prelude
  imports
    Main
    "HOL-Library.Word"
    "HOL-Library.Sublist"
    "HOL-Library.Char_ord"
    "HOL-Library.List_Lexorder"
begin

text \<open>
  Shared vocabulary of the development: the widths of the machine integers the source uses, Rust's
  \<open>Result\<close> as a sum type, byte strings with the library's lexicographic order, the
  big-endian integer codecs of the standard library, the ASCII classes and UTF-8 validity that
  \<open>str\<close> and \<open>u8\<close> provide, and the reading cursor that both binary codecs of
  \<open>runku-value\<close> declare. The locales at the end state what the framing codecs promise
  (a prefix decodes in one way only, and the byte order agrees with the order of the values);
  the components interpret them on their own encoders.
\<close>

named_theorems result_simps \<open>inversion of the monadic combinators of results\<close>

section \<open>Machine integers and results\<close>

type_synonym u8 = "8 word"
type_synonym u16 = "16 word"
type_synonym u32 = "32 word"
type_synonym u64 = "64 word"
type_synonym i64 = "64 word"

type_synonym bytes = "u8 list"

abbreviation usize_bound :: nat where
  "usize_bound \<equiv> 2 ^ 64"

text \<open>Rust's \<open>?\<close> operator: an error returns at once.\<close>

definition bindR :: "'e + 'a \<Rightarrow> ('a \<Rightarrow> 'e + 'b) \<Rightarrow> 'e + 'b" where
  "bindR r f = (case r of Inl e \<Rightarrow> Inl e | Inr x \<Rightarrow> f x)"

text \<open>\<open>Result::map_err\<close> and \<open>Option::ok_or\<close>.\<close>

definition map_errR :: "('e \<Rightarrow> 'f) \<Rightarrow> 'e + 'a \<Rightarrow> 'f + 'a" where
  "map_errR h r = (case r of Inl e \<Rightarrow> Inl (h e) | Inr x \<Rightarrow> Inr x)"

definition mapR :: "('a \<Rightarrow> 'b) \<Rightarrow> 'e + 'a \<Rightarrow> 'e + 'b" where
  "mapR h r = (case r of Inl e \<Rightarrow> Inl e | Inr x \<Rightarrow> Inr (h x))"

definition ok_or :: "'e \<Rightarrow> 'a option \<Rightarrow> 'e + 'a" where
  "ok_or e x = (case x of None \<Rightarrow> Inl e | Some y \<Rightarrow> Inr y)"

text \<open>An early return guarded by a condition: \<open>if bad { return Err(e) }\<close>.\<close>

definition failR :: "bool \<Rightarrow> 'e \<Rightarrow> 'e + unit" where
  "failR bad e = (if bad then Inl e else Inr ())"

text \<open>
  A \<open>for\<close> loop whose body may return early: the loop state is threaded through the items, and the
  first error ends the loop. \<open>traverseR\<close> is \<open>map\<close> followed by \<open>collect::<Result<Vec<_>, _>>()\<close>.
\<close>

fun foldR :: "('s \<Rightarrow> 'a \<Rightarrow> 'e + 's) \<Rightarrow> 's \<Rightarrow> 'a list \<Rightarrow> 'e + 's" where
  "foldR f s [] = Inr s"
| "foldR f s (x # xs) = bindR (f s x) (\<lambda>s'. foldR f s' xs)"

fun traverseR :: "('a \<Rightarrow> 'e + 'b) \<Rightarrow> 'a list \<Rightarrow> 'e + 'b list" where
  "traverseR f [] = Inr []"
| "traverseR f (x # xs) = bindR (f x) (\<lambda>y. bindR (traverseR f xs) (\<lambda>ys. Inr (y # ys)))"

lemma bindR_simps [simp]:
  "bindR (Inl e) f = Inl e"
  "bindR (Inr x) f = f x"
  by (simp_all add: bindR_def)

lemma bindR_Inr [simp, result_simps]:
  "bindR r f = Inr y \<longleftrightarrow> (\<exists>x. r = Inr x \<and> f x = Inr y)"
  by (cases r) auto

lemma bindR_Inl [result_simps]:
  "bindR r f = Inl e \<longleftrightarrow> r = Inl e \<or> (\<exists>x. r = Inr x \<and> f x = Inl e)"
  by (cases r) auto

lemma map_errR_simps [simp]:
  "map_errR h (Inl e) = Inl (h e)"
  "map_errR h (Inr x) = Inr x"
  by (simp_all add: map_errR_def)

lemma map_errR_Inr [simp, result_simps]: "map_errR h r = Inr x \<longleftrightarrow> r = Inr x"
  by (cases r) auto

lemma map_errR_Inl [result_simps]: "map_errR h r = Inl e \<longleftrightarrow> (\<exists>d. r = Inl d \<and> e = h d)"
  by (cases r) auto

lemma mapR_simps [simp]:
  "mapR h (Inl e) = Inl e"
  "mapR h (Inr x) = Inr (h x)"
  by (simp_all add: mapR_def)

lemma mapR_Inr [simp, result_simps]: "mapR h r = Inr y \<longleftrightarrow> (\<exists>x. r = Inr x \<and> y = h x)"
  by (cases r) auto

lemma mapR_Inl [result_simps]: "mapR h r = Inl e \<longleftrightarrow> r = Inl e"
  by (cases r) auto

lemma ok_or_simps [simp]:
  "ok_or e None = Inl e"
  "ok_or e (Some x) = Inr x"
  by (simp_all add: ok_or_def)

lemma ok_or_Inr [simp, result_simps]: "ok_or e r = Inr x \<longleftrightarrow> r = Some x"
  by (cases r) auto

lemma ok_or_Inl [result_simps]: "ok_or e r = Inl d \<longleftrightarrow> r = None \<and> d = e"
  by (cases r) auto

lemma failR_Inr [simp, result_simps]: "failR bad e = Inr u \<longleftrightarrow> \<not> bad"
  by (simp add: failR_def)

lemma failR_Inl [result_simps]: "failR bad e = Inl d \<longleftrightarrow> bad \<and> d = e"
  by (auto simp: failR_def)

lemma foldR_append: "foldR f s (xs @ ys) = bindR (foldR f s xs) (\<lambda>s'. foldR f s' ys)"
  by (induction xs arbitrary: s) (auto simp: bindR_def split: sum.splits)

lemma traverseR_map: "(\<And>x. x \<in> set xs \<Longrightarrow> f (g x) = Inr (h x)) \<Longrightarrow> traverseR f (map g xs) = Inr (map h xs)"
  by (induction xs) auto

lemma traverseR_Inr: "traverseR f xs = Inr ys \<longleftrightarrow> list_all2 (\<lambda>x y. f x = Inr y) xs ys"
  by (induction xs arbitrary: ys) (auto simp: list_all2_Cons1)

lemma failR_simps [simp]:
  "failR True e = Inl e"
  "failR False e = Inr ()"
  by (simp_all add: failR_def)

text \<open>\<open>usize::checked_add\<close> on a 64-bit target.\<close>

definition checked_add_usize :: "nat \<Rightarrow> nat \<Rightarrow> nat option" where
  "checked_add_usize a b = (if a + b < usize_bound then Some (a + b) else None)"

text \<open>\<open>u64::checked_add\<close>.\<close>

definition checked_add_u64 :: "u64 \<Rightarrow> u64 \<Rightarrow> u64 option" where
  "checked_add_u64 a b = (if unat a + unat b < 2 ^ 64 then Some (a + b) else None)"

lemma checked_add_u64_Some:
  "checked_add_u64 a b = Some c \<Longrightarrow> unat c = unat a + unat b"
  by (auto simp: checked_add_u64_def unat_word_ariths split: if_splits)

lemma checked_add_usize_Some [simp]:
  "checked_add_usize a b = Some c \<longleftrightarrow> c = a + b \<and> a + b < usize_bound"
  by (auto simp: checked_add_usize_def)

section \<open>Lexicographic order of byte strings\<close>

lemma less_append_same [simp]: "(p @ xs < p @ ys) = (xs < (ys :: 'a :: linorder list))"
  by (induction p) auto

lemma less_append_suffix:
  fixes xs ys :: "'a :: linorder list"
  assumes "length xs = length ys" and "xs < ys"
  shows "xs @ r < ys @ s"
  using assms by (induction xs ys rule: list_induct2) auto

lemma prefix_le_list: "prefix p xs \<Longrightarrow> p \<le> (xs :: 'a :: linorder list)"
proof (induction p arbitrary: xs)
  case Nil
  then show ?case by simp
next
  case (Cons a p)
  then show ?case by (cases xs) auto
qed

section \<open>Big-endian integers\<close>

text \<open>
  \<open>to_be_bytes\<close> and \<open>from_be_bytes\<close> for an unsigned integer of \<open>n\<close> bytes, given by its
  value.
\<close>

fun be_nat :: "nat \<Rightarrow> nat \<Rightarrow> bytes" where
  "be_nat 0 x = []"
| "be_nat (Suc n) x = be_nat n (x div 256) @ [of_nat x]"

lemma be_nat_numeral:
  "be_nat (numeral k) x = be_nat (pred_numeral k) (x div 256) @ [of_nat x]"
  by (simp only: numeral_eq_Suc [of k] be_nat.simps)

definition of_be :: "bytes \<Rightarrow> nat" where
  "of_be bs = foldl (\<lambda>a b. a * 256 + unat b) 0 bs"

lemma length_be_nat [simp]: "length (be_nat n x) = n"
  by (induction n arbitrary: x) auto

lemma of_be_Nil [simp]: "of_be [] = 0"
  by (simp add: of_be_def)

lemma of_be_snoc [simp]: "of_be (bs @ [b]) = of_be bs * 256 + unat b"
  by (simp add: of_be_def)

lemma unat_of_nat_u8: "unat (of_nat x :: u8) = x mod 256"
  by (simp add: unat_of_nat)

lemma of_be_be_nat: "of_be (be_nat n x) = x mod 256 ^ n"
proof (induction n arbitrary: x)
  case 0
  then show ?case by simp
next
  case (Suc n)
  have "x mod 256 ^ Suc n = 256 * (x div 256 mod 256 ^ n) + x mod 256"
    by (simp add: mod_mult2_eq)
  then show ?case by (simp add: Suc unat_of_nat_u8)
qed

lemma of_be_be_nat_less [simp]: "x < 256 ^ n \<Longrightarrow> of_be (be_nat n x) = x"
  by (simp add: of_be_be_nat)

lemma of_be_bound: "of_be bs < 256 ^ length bs"
proof (induction bs rule: rev_induct)
  case Nil
  then show ?case by simp
next
  case (snoc b bs)
  have "unat b < 256" using unsigned_less [of b, where ?'a = nat] by simp
  with snoc show ?case by simp
qed

lemma be_nat_of_be [simp]: "length bs = n \<Longrightarrow> be_nat n (of_be bs) = bs"
proof (induction bs arbitrary: n rule: rev_induct)
  case Nil
  then show ?case by simp
next
  case (snoc b bs)
  have b: "unat b < 256" using unsigned_less [of b, where ?'a = nat] by simp
  from snoc.prems obtain m where n: "n = Suc m" and len: "length bs = m" by auto
  have "(of_be bs * 256 + unat b) div 256 = of_be bs" using b by simp
  moreover have "of_nat (of_be bs * 256 + unat b) = b"
    using b by (simp only: word_unat_eq_iff unat_of_nat_u8) simp
  ultimately show ?case using snoc.IH [OF len] by (simp add: n)
qed

lemma be_nat_inject:
  assumes "x < 256 ^ n" and "y < 256 ^ n" and "be_nat n x = be_nat n y"
  shows "x = y"
  using assms of_be_be_nat_less by metis

lemma be_nat_less:
  assumes "x < y" and "y < 256 ^ n"
  shows "be_nat n x < be_nat n y"
  using assms
proof (induction n arbitrary: x y)
  case 0
  then show ?case by simp
next
  case (Suc n)
  have y: "y div 256 < 256 ^ n" using Suc.prems(2) by (simp add: div_less_iff_less_mult)
  consider "x div 256 < y div 256" | "x div 256 = y div 256" "x mod 256 < y mod 256"
    using Suc.prems(1) by (metis div_le_mono div_mult_mod_eq less_or_eq_imp_le nat_add_left_cancel_less order_le_less)
  then show ?case
  proof cases
    case 1
    from Suc.IH [OF this y] show ?thesis by (simp add: less_append_suffix)
  next
    case 2
    then have "(of_nat x :: u8) < of_nat y"
      by (simp add: word_less_nat_alt unat_of_nat_u8)
    with 2 show ?thesis by simp
  qed
qed

lemma be_nat_less_iff:
  assumes "x < 256 ^ n" and "y < 256 ^ n"
  shows "be_nat n x < be_nat n y \<longleftrightarrow> x < y"
  using assms be_nat_less by (metis less_asym' linorder_neqE_nat)

definition be_u64 :: "u64 \<Rightarrow> bytes" where
  "be_u64 w = be_nat 8 (unat w)"

definition from_be_u64 :: "bytes \<Rightarrow> u64" where
  "from_be_u64 bs = of_nat (of_be bs)"

lemma length_be_u64 [simp]: "length (be_u64 w) = 8"
  by (simp add: be_u64_def)

lemma unat_u64_bound: "unat (w :: u64) < 256 ^ 8"
  using unsigned_less [of w, where ?'a = nat] by simp

lemma from_be_u64_be [simp]: "from_be_u64 (be_u64 w) = w"
  unfolding from_be_u64_def be_u64_def by (subst of_be_be_nat_less [OF unat_u64_bound]) simp

lemma be_u64_from_be [simp]:
  assumes "length bs = 8" shows "be_u64 (from_be_u64 bs) = bs"
proof -
  have "of_be bs < 2 ^ 64" using of_be_bound [of bs] assms by simp
  then have "unat (of_nat (of_be bs) :: u64) = of_be bs" by (simp add: unat_of_nat)
  then show ?thesis using assms by (simp add: be_u64_def from_be_u64_def)
qed

lemma be_u64_inject [simp]: "be_u64 v = be_u64 w \<longleftrightarrow> v = w"
  using from_be_u64_be by metis

lemma be_u64_less [simp]: "be_u64 v < be_u64 w \<longleftrightarrow> v < w"
  unfolding be_u64_def by (simp only: be_nat_less_iff [OF unat_u64_bound unat_u64_bound] word_less_nat_alt)


text \<open>The two length fields of the formats: \<open>u16\<close> and \<open>u32\<close>.\<close>

definition u16_max :: nat where
  "u16_max = 65535"

definition u32_max :: nat where
  "u32_max = 4294967295"

lemma u16_max_bound: "n \<le> u16_max \<longleftrightarrow> n < 256 ^ 2"
  by (simp add: u16_max_def) arith

lemma u32_max_bound: "n \<le> u32_max \<longleftrightarrow> n < 256 ^ 4"
  by (simp add: u32_max_def) arith

section \<open>ASCII classes, strings and UTF-8\<close>

text \<open>
  A Rust string is its sequence of UTF-8 bytes; it is modelled as a \<open>string\<close> whose characters are
  these bytes, so literals read as in the source and \<open>len\<close> counts bytes.
\<close>

definition as_bytes :: "string \<Rightarrow> bytes" where
  "as_bytes s = map of_char s"

definition of_bytes :: "bytes \<Rightarrow> string" where
  "of_bytes bs = map (\<lambda>b. char_of (unat b)) bs"

lemma unat_of_char [simp]: "unat (of_char c :: u8) = of_char c"
proof -
  have "(of_char c :: u8) = of_nat (of_char c)" by (simp add: of_nat_of_char)
  then show ?thesis by (simp only: unat_of_nat_u8) simp
qed

lemma of_char_u8 [simp]: "of_char (char_of (unat b)) = (b :: u8)"
proof -
  have b: "unat b < 256" using unsigned_less [of b, where ?'a = nat] by simp
  have "unat (of_char (char_of (unat b)) :: u8) = unat b" using b by simp
  then show ?thesis by (simp only: word_unat_eq_iff)
qed

lemma of_bytes_as_bytes [simp]: "of_bytes (as_bytes s) = s"
  by (simp add: of_bytes_def as_bytes_def comp_def)

lemma as_bytes_of_bytes [simp]: "as_bytes (of_bytes bs) = bs"
  by (simp add: of_bytes_def as_bytes_def comp_def)

lemma length_as_bytes [simp]: "length (as_bytes s) = length s"
  by (simp add: as_bytes_def)

lemma length_of_bytes [simp]: "length (of_bytes s) = length s"
  by (simp add: of_bytes_def)

lemma as_bytes_inject [simp]: "as_bytes s = as_bytes t \<longleftrightarrow> s = t"
  by (metis of_bytes_as_bytes)

lemma as_bytes_append [simp]: "as_bytes (s @ t) = as_bytes s @ as_bytes t"
  by (simp add: as_bytes_def)

lemma as_bytes_simps [simp]:
  "as_bytes [] = []"
  "as_bytes (c # s) = of_char c # as_bytes s"
  by (simp_all add: as_bytes_def)

lemma of_char_u8_less [simp]: "(of_char c :: u8) < of_char d \<longleftrightarrow> c < d"
  by (simp only: word_less_nat_alt unat_of_char less_char_def)

lemma of_char_u8_eq [simp]: "(of_char c :: u8) = of_char d \<longleftrightarrow> c = d"
  by (metis unat_of_char of_char_eq_iff)

lemma as_bytes_less [simp]: "as_bytes s < as_bytes t \<longleftrightarrow> s < t"
proof (induction s arbitrary: t)
  case Nil
  then show ?case by (cases t) simp_all
next
  case (Cons c s)
  show ?case
    by (cases t) (simp_all add: Cons.IH del: less_char_simp)
qed

definition is_ascii_lowercase :: "char \<Rightarrow> bool" where
  "is_ascii_lowercase c \<longleftrightarrow> (97 :: nat) \<le> of_char c \<and> of_char c \<le> (122 :: nat)"

definition is_ascii_uppercase :: "char \<Rightarrow> bool" where
  "is_ascii_uppercase c \<longleftrightarrow> (65 :: nat) \<le> of_char c \<and> of_char c \<le> (90 :: nat)"

definition is_ascii_digit :: "char \<Rightarrow> bool" where
  "is_ascii_digit c \<longleftrightarrow> (48 :: nat) \<le> of_char c \<and> of_char c \<le> (57 :: nat)"

definition is_ascii_alphabetic :: "char \<Rightarrow> bool" where
  "is_ascii_alphabetic c \<longleftrightarrow> is_ascii_lowercase c \<or> is_ascii_uppercase c"

definition is_ascii_alphanumeric :: "char \<Rightarrow> bool" where
  "is_ascii_alphanumeric c \<longleftrightarrow> is_ascii_alphabetic c \<or> is_ascii_digit c"

definition is_ascii :: "char \<Rightarrow> bool" where
  "is_ascii c \<longleftrightarrow> of_char c < (128 :: nat)"

lemmas ascii_defs = is_ascii_lowercase_def is_ascii_uppercase_def is_ascii_digit_def
  is_ascii_alphabetic_def is_ascii_alphanumeric_def is_ascii_def

text \<open>
  \<open>str::from_utf8\<close>: the well-formed byte sequences of the Unicode standard (table 3-7), which
  exclude overlong forms, surrogates and code points beyond U+10FFFF.
\<close>

definition utf8_cont :: "u8 \<Rightarrow> bool" where
  "utf8_cont b \<longleftrightarrow> 0x80 \<le> b \<and> b \<le> 0xBF"

fun utf8_valid :: "bytes \<Rightarrow> bool" where
  "utf8_valid [] = True"
| "utf8_valid (b # bs) =
     (if b < 0x80 then utf8_valid bs
      else if 0xC2 \<le> b \<and> b \<le> 0xDF then
        (case bs of c # r \<Rightarrow> utf8_cont c \<and> utf8_valid r | _ \<Rightarrow> False)
      else if 0xE0 \<le> b \<and> b \<le> 0xEF then
        (case bs of c # d # r \<Rightarrow>
           utf8_cont c \<and> (b = 0xE0 \<longrightarrow> 0xA0 \<le> c) \<and> (b = 0xED \<longrightarrow> c \<le> 0x9F)
           \<and> utf8_cont d \<and> utf8_valid r
         | _ \<Rightarrow> False)
      else if 0xF0 \<le> b \<and> b \<le> 0xF4 then
        (case bs of c # d # e # r \<Rightarrow>
           utf8_cont c \<and> (b = 0xF0 \<longrightarrow> 0x90 \<le> c) \<and> (b = 0xF4 \<longrightarrow> c \<le> 0x8F)
           \<and> utf8_cont d \<and> utf8_cont e \<and> utf8_valid r
         | _ \<Rightarrow> False)
      else False)"

definition from_utf8 :: "bytes \<Rightarrow> string option" where
  "from_utf8 bs = (if utf8_valid bs then Some (of_bytes bs) else None)"

text \<open>The invariant of the type \<open>String\<close>.\<close>

definition rust_string :: "string \<Rightarrow> bool" where
  "rust_string s \<longleftrightarrow> utf8_valid (as_bytes s)"

lemma from_utf8_as_bytes [simp]: "rust_string s \<Longrightarrow> from_utf8 (as_bytes s) = Some s"
  by (simp add: from_utf8_def rust_string_def)

lemma from_utf8_Some [simp]: "from_utf8 bs = Some s \<longleftrightarrow> rust_string s \<and> bs = as_bytes s"
  by (auto simp: from_utf8_def rust_string_def)

lemma ascii_rust_string: "list_all is_ascii s \<Longrightarrow> rust_string s"
proof (induction s)
  case Nil
  then show ?case by (simp add: rust_string_def)
next
  case (Cons c s)
  then have "(of_char c :: u8) < 0x80"
    by (simp add: word_less_nat_alt is_ascii_def)
  with Cons show ?case by (simp add: rust_string_def)
qed

end
