(* ===== verification/Core.thy ===== *)
theory Core
  imports Prelude
begin

text \<open>
  The foundational types of \<open>runku-core\<close>: prefixed resource identifiers, the names of Channels,
  Workspaces and Functions, the selectors of code (\<open>CodeTarget\<close>, \<open>PinnedCode\<close>) with their text
  form, and the Environment policy that decides which selectors an Environment accepts. The
  \<open>ulid\<close> crate is a parameter (\<open>ulid_crate\<close>); what is relied on of it is \<open>ulid_laws\<close>.
\<close>

section \<open>String primitives\<close>

text \<open>\<open>str::strip_prefix\<close>, \<open>str::split_once\<close> and \<open>str::contains\<close>.\<close>

definition strip_prefix :: "string \<Rightarrow> string \<Rightarrow> string option" where
  "strip_prefix p s = (if prefix p s then Some (drop (length p) s) else None)"

fun split_once :: "char \<Rightarrow> string \<Rightarrow> (string \<times> string) option" where
  "split_once d [] = None"
| "split_once d (c # s) =
     (if c = d then Some ([], s)
      else map_option (\<lambda>(a, b). (c # a, b)) (split_once d s))"

fun str_contains :: "string \<Rightarrow> string \<Rightarrow> bool" where
  "str_contains p [] = (p = [])"
| "str_contains p (c # s) = (prefix p (c # s) \<or> str_contains p s)"

lemma strip_prefix_Some [simp]: "strip_prefix p s = Some r \<longleftrightarrow> s = p @ r"
  by (auto simp: strip_prefix_def prefix_def)

lemma strip_prefix_append [simp]: "strip_prefix p (p @ r) = Some r"
  by simp

lemma split_once_Some:
  "split_once d s = Some (a, b) \<longleftrightarrow> s = a @ d # b \<and> d \<notin> set a"
proof (induction s arbitrary: a)
  case Nil
  then show ?case by simp
next
  case (Cons c s)
  show ?case
  proof (cases "c = d")
    case True
    then show ?thesis by (cases a) auto
  next
    case False
    then show ?thesis by (cases a) (auto simp: Cons.IH)
  qed
qed

lemma split_once_append [simp]: "d \<notin> set a \<Longrightarrow> split_once d (a @ d # b) = Some (a, b)"
  by (simp add: split_once_Some)

section \<open>Resource identifiers\<close>

type_synonym ulid = "128 word"

type_synonym ProjectId = ulid
type_synonym EnvironmentId = ulid
type_synonym ReleaseId = ulid
type_synonym DevRevisionId = ulid
type_synonym WorkspaceId = ulid
type_synonym TableId = ulid
type_synonym DocumentId = ulid
type_synonym IndexId = ulid
type_synonym OutboxEventId = ulid
type_synonym ScheduledInvocationId = ulid
type_synonym OperationId = ulid
type_synonym WorkerId = ulid

record ulid_crate =
  ulid_to_string :: "ulid \<Rightarrow> string"
  ulid_from_string :: "string \<Rightarrow> ulid option"

text \<open>
  Documented behaviour of the crate: a ULID prints as 26 characters of Crockford's base 32 (digits
  and upper-case letters), and parsing reads that text back.
\<close>

definition ulid_laws :: "ulid_crate \<Rightarrow> bool" where
  "ulid_laws U \<longleftrightarrow>
     (\<forall>u. ulid_from_string U (ulid_to_string U u) = Some u
        \<and> length (ulid_to_string U u) = 26
        \<and> list_all (\<lambda>c. is_ascii_digit c \<or> is_ascii_uppercase c) (ulid_to_string U u))"

datatype ParseResourceIdError = UnexpectedPrefix string | InvalidUlid

fun resource_id_error_code :: "ParseResourceIdError \<Rightarrow> string" where
  "resource_id_error_code (UnexpectedPrefix _) = ''RESOURCE_ID_PREFIX_INVALID''"
| "resource_id_error_code InvalidUlid = ''RESOURCE_ID_PAYLOAD_INVALID''"

text \<open>
  The macro \<open>resource_id!\<close> declares one type per kind; its \<open>PREFIX\<close> is the first argument here.
\<close>

definition resource_id_to_string :: "ulid_crate \<Rightarrow> string \<Rightarrow> ulid \<Rightarrow> string" where
  "resource_id_to_string U p u = p @ ulid_to_string U u"

definition resource_id_from_str ::
    "ulid_crate \<Rightarrow> string \<Rightarrow> string \<Rightarrow> ParseResourceIdError + ulid" where
  "resource_id_from_str U p value =
     bindR (ok_or (UnexpectedPrefix p) (strip_prefix p value)) (\<lambda>payload.
     bindR (ok_or InvalidUlid (ulid_from_string U payload)) (\<lambda>u.
       if ulid_to_string U u \<noteq> payload then Inl InvalidUlid else Inr u))"

text \<open>The kinds the macro is applied to, in source order.\<close>

definition resource_prefixes :: "string list" where
  "resource_prefixes =
     [''prj_'', ''env_'', ''rel_'', ''bld_'', ''fnc_'', ''drv_'', ''wsp_'', ''app_'', ''crd_'',
      ''dvk_'', ''opr_'', ''ops_'', ''opi_'', ''req_'', ''inv_'', ''tbl_'', ''doc_'', ''idx_'',
      ''evt_'', ''log_'', ''sch_'', ''sub_'', ''opn_'', ''wrk_'']"

lemma resource_id_from_str_Inr:
  "resource_id_from_str U p s = Inr u \<longleftrightarrow>
     s = resource_id_to_string U p u \<and> ulid_from_string U (ulid_to_string U u) = Some u"
  by (auto simp: resource_id_from_str_def resource_id_to_string_def split: if_splits)

lemma resource_id_roundtrip:
  "ulid_laws U \<Longrightarrow> resource_id_from_str U p (resource_id_to_string U p u) = Inr u"
  by (simp add: resource_id_from_str_Inr ulid_laws_def)

lemma resource_prefixes_distinct: "distinct resource_prefixes"
  by code_simp

lemma resource_prefixes_length: "p \<in> set resource_prefixes \<Longrightarrow> length p = 4"
  by (auto simp: resource_prefixes_def)

section \<open>Names\<close>

datatype NameError = NameEmpty | NameTooLong | NameInvalidCharacter | NameEmptySegment

definition flat_name_char :: "char \<Rightarrow> bool" where
  "flat_name_char c \<longleftrightarrow> is_ascii_lowercase c \<or> is_ascii_digit c \<or> c = CHR ''-''"

definition validate_flat_name :: "string \<Rightarrow> nat \<Rightarrow> NameError + unit" where
  "validate_flat_name value max_bytes =
     (if value = [] then Inl NameEmpty
      else if length value > max_bytes then Inl NameTooLong
      else if \<not> list_all flat_name_char value then Inl NameInvalidCharacter
      else Inr ())"

definition validate_hierarchical_name :: "string \<Rightarrow> nat \<Rightarrow> NameError + unit" where
  "validate_hierarchical_name value max_bytes =
     (if value = [] then Inl NameEmpty
      else if length value > max_bytes then Inl NameTooLong
      else if prefix ''/'' value \<or> suffix ''/'' value \<or> str_contains ''//'' value
        then Inl NameEmptySegment
      else if \<not> list_all (\<lambda>c. is_ascii_lowercase c \<or> is_ascii_digit c \<or> c = CHR ''-''
                              \<or> c = CHR ''/'') value
        then Inl NameInvalidCharacter
      else Inr ())"

definition MAX_WORKSPACE_REF_BYTES :: nat where
  "MAX_WORKSPACE_REF_BYTES = 100"

definition MAX_CHANNEL_NAME_BYTES :: nat where
  "MAX_CHANNEL_NAME_BYTES = 63"

datatype ParseWorkspaceRefError =
  WorkspaceEmpty | WorkspaceTooLong | WorkspaceInvalidCharacter | WorkspaceEmptySegment

fun workspace_from_name_error :: "NameError \<Rightarrow> ParseWorkspaceRefError" where
  "workspace_from_name_error NameEmpty = WorkspaceEmpty"
| "workspace_from_name_error NameTooLong = WorkspaceTooLong"
| "workspace_from_name_error NameInvalidCharacter = WorkspaceInvalidCharacter"
| "workspace_from_name_error NameEmptySegment = WorkspaceEmptySegment"

fun workspace_ref_error_code :: "ParseWorkspaceRefError \<Rightarrow> string" where
  "workspace_ref_error_code WorkspaceEmpty = ''WORKSPACE_REF_EMPTY''"
| "workspace_ref_error_code WorkspaceTooLong = ''WORKSPACE_REF_TOO_LONG''"
| "workspace_ref_error_code WorkspaceInvalidCharacter = ''WORKSPACE_REF_CHARACTER_INVALID''"
| "workspace_ref_error_code WorkspaceEmptySegment = ''WORKSPACE_REF_SEGMENT_EMPTY''"

type_synonym WorkspaceRef = string
type_synonym ChannelName = string
type_synonym FunctionName = string

definition workspace_ref_from_str :: "string \<Rightarrow> ParseWorkspaceRefError + WorkspaceRef" where
  "workspace_ref_from_str value =
     bindR (map_errR workspace_from_name_error
              (validate_hierarchical_name value MAX_WORKSPACE_REF_BYTES)) (\<lambda>_. Inr value)"

datatype ParseChannelNameError = ChannelEmpty | ChannelTooLong | ChannelInvalidCharacter

fun channel_from_name_error :: "NameError \<Rightarrow> ParseChannelNameError" where
  "channel_from_name_error NameEmpty = ChannelEmpty"
| "channel_from_name_error NameTooLong = ChannelTooLong"
| "channel_from_name_error NameInvalidCharacter = ChannelInvalidCharacter"
| "channel_from_name_error NameEmptySegment = ChannelInvalidCharacter"

fun channel_name_error_code :: "ParseChannelNameError \<Rightarrow> string" where
  "channel_name_error_code ChannelEmpty = ''CHANNEL_NAME_EMPTY''"
| "channel_name_error_code ChannelTooLong = ''CHANNEL_NAME_TOO_LONG''"
| "channel_name_error_code ChannelInvalidCharacter = ''CHANNEL_NAME_CHARACTER_INVALID''"

definition channel_name_from_str :: "string \<Rightarrow> ParseChannelNameError + ChannelName" where
  "channel_name_from_str value =
     bindR (map_errR channel_from_name_error
              (validate_flat_name value MAX_CHANNEL_NAME_BYTES)) (\<lambda>_. Inr value)"

datatype ParseFunctionNameError =
  FunctionNameEmpty | FunctionNameTooLong | FunctionNameInvalidCharacter

fun function_name_error_code :: "ParseFunctionNameError \<Rightarrow> string" where
  "function_name_error_code FunctionNameEmpty = ''FUNCTION_NAME_EMPTY''"
| "function_name_error_code FunctionNameTooLong = ''FUNCTION_NAME_TOO_LONG''"
| "function_name_error_code FunctionNameInvalidCharacter = ''FUNCTION_NAME_INVALID''"

definition FUNCTION_NAME_MAX_BYTES :: nat where
  "FUNCTION_NAME_MAX_BYTES = 128"

definition function_name_tail_char :: "char \<Rightarrow> bool" where
  "function_name_tail_char c \<longleftrightarrow> is_ascii_alphanumeric c
     \<or> c = CHR ''_'' \<or> c = CHR ''-'' \<or> c = CHR ''.'' \<or> c = CHR ''/''"

definition function_name_from_str :: "string \<Rightarrow> ParseFunctionNameError + FunctionName" where
  "function_name_from_str value =
     (case value of
        [] \<Rightarrow> Inl FunctionNameEmpty
      | first # rest \<Rightarrow>
          if length value > FUNCTION_NAME_MAX_BYTES then Inl FunctionNameTooLong
          else if \<not> is_ascii_alphabetic first \<or> \<not> list_all function_name_tail_char rest
            then Inl FunctionNameInvalidCharacter
          else Inr value)"


section \<open>Code selectors\<close>

datatype CodeTarget =
  EnvironmentDefault
| TargetRelease ReleaseId
| TargetChannel ChannelName
| TargetWorkspace WorkspaceRef

datatype PinnedCode = PinnedRelease ReleaseId | PinnedDevRevision DevRevisionId

datatype ParsePinnedCodeError =
  PinnedUnknownKind
| PinnedInvalidRelease ParseResourceIdError
| PinnedInvalidDevRevision ParseResourceIdError

fun pinned_code_error_code :: "ParsePinnedCodeError \<Rightarrow> string" where
  "pinned_code_error_code PinnedUnknownKind = ''PINNED_CODE_KIND_UNSUPPORTED''"
| "pinned_code_error_code (PinnedInvalidRelease _) = ''PINNED_CODE_RELEASE_INVALID''"
| "pinned_code_error_code (PinnedInvalidDevRevision _) = ''PINNED_CODE_DEV_REVISION_INVALID''"

fun pinned_code_to_string :: "ulid_crate \<Rightarrow> PinnedCode \<Rightarrow> string" where
  "pinned_code_to_string U (PinnedRelease v) = ''release:'' @ resource_id_to_string U ''rel_'' v"
| "pinned_code_to_string U (PinnedDevRevision v) =
     ''dev_revision:'' @ resource_id_to_string U ''drv_'' v"

definition pinned_code_from_str :: "ulid_crate \<Rightarrow> string \<Rightarrow> ParsePinnedCodeError + PinnedCode" where
  "pinned_code_from_str U value =
     (case strip_prefix ''release:'' value of
        Some payload \<Rightarrow> map_errR PinnedInvalidRelease
                     (mapR PinnedRelease (resource_id_from_str U ''rel_'' payload))
      | None \<Rightarrow>
          (case strip_prefix ''dev_revision:'' value of
             Some payload \<Rightarrow> map_errR PinnedInvalidDevRevision
                          (mapR PinnedDevRevision (resource_id_from_str U ''drv_'' payload))
           | None \<Rightarrow> Inl PinnedUnknownKind))"

lemma pinned_code_from_str_Inr:
  assumes "ulid_laws U"
  shows "pinned_code_from_str U s = Inr p \<longleftrightarrow> s = pinned_code_to_string U p"
proof
  assume "pinned_code_from_str U s = Inr p"
  then show "s = pinned_code_to_string U p"
    by (auto simp: pinned_code_from_str_def resource_id_from_str_Inr split: option.splits)
next
  assume s: "s = pinned_code_to_string U p"
  have "strip_prefix ''release:'' (''dev_revision:'' @ r) = None" for r
    by (simp add: strip_prefix_def)
  moreover have "strip_prefix ''release:'' (''release:'' @ r) = Some r" for r
    by (rule strip_prefix_append)
  moreover have "strip_prefix ''dev_revision:'' (''dev_revision:'' @ r) = Some r" for r
    by (rule strip_prefix_append)
  ultimately show "pinned_code_from_str U s = Inr p"
    using assms s
    by (cases p) (simp_all only: pinned_code_to_string.simps pinned_code_from_str_def option.case
        resource_id_roundtrip [OF assms] mapR_simps map_errR_simps)
qed

fun is_moving :: "CodeTarget \<Rightarrow> bool" where
  "is_moving EnvironmentDefault = True"
| "is_moving (TargetChannel _) = True"
| "is_moving (TargetWorkspace _) = True"
| "is_moving (TargetRelease _) = False"

fun is_workspace :: "CodeTarget \<Rightarrow> bool" where
  "is_workspace (TargetWorkspace _) = True"
| "is_workspace _ = False"

fun code_target_to_string :: "ulid_crate \<Rightarrow> CodeTarget \<Rightarrow> string" where
  "code_target_to_string U EnvironmentDefault = ''environment:default''"
| "code_target_to_string U (TargetRelease r) = ''release:'' @ resource_id_to_string U ''rel_'' r"
| "code_target_to_string U (TargetChannel c) = ''channel:'' @ c"
| "code_target_to_string U (TargetWorkspace w) = ''workspace:'' @ w"

datatype ParseCodeTargetError =
  MissingKindSeparator
| TargetUnknownKind
| InvalidEnvironment
| InvalidRelease ParseResourceIdError
| InvalidChannel ParseChannelNameError
| InvalidWorkspace ParseWorkspaceRefError

fun code_target_error_code :: "ParseCodeTargetError \<Rightarrow> string" where
  "code_target_error_code MissingKindSeparator = ''CODE_TARGET_FORMAT_INVALID''"
| "code_target_error_code TargetUnknownKind = ''CODE_TARGET_KIND_UNSUPPORTED''"
| "code_target_error_code InvalidEnvironment = ''CODE_TARGET_ENVIRONMENT_INVALID''"
| "code_target_error_code (InvalidRelease _) = ''CODE_TARGET_RELEASE_INVALID''"
| "code_target_error_code (InvalidChannel _) = ''CODE_TARGET_CHANNEL_INVALID''"
| "code_target_error_code (InvalidWorkspace _) = ''CODE_TARGET_WORKSPACE_INVALID''"

definition code_target_from_str :: "ulid_crate \<Rightarrow> string \<Rightarrow> ParseCodeTargetError + CodeTarget" where
  "code_target_from_str U value =
     bindR (ok_or MissingKindSeparator (split_once (CHR '':'') value)) (\<lambda>(kind, reference).
       if kind = ''environment'' \<and> reference = ''default'' then Inr EnvironmentDefault
       else if kind = ''environment'' then Inl InvalidEnvironment
       else if kind = ''release'' then
         map_errR InvalidRelease (mapR TargetRelease (resource_id_from_str U ''rel_'' reference))
       else if kind = ''channel'' then
         map_errR InvalidChannel (mapR TargetChannel (channel_name_from_str reference))
       else if kind = ''workspace'' then
         map_errR InvalidWorkspace (mapR TargetWorkspace (workspace_ref_from_str reference))
       else Inl TargetUnknownKind)"

section \<open>Environment policy\<close>

datatype EnvironmentPurpose = Development | Preview | Staging | ProductionPurpose

datatype EnvironmentProtection = Open | Protected | ProductionProtection

datatype EnvironmentLocation = Local | Managed | SelfHosted

record EnvironmentDescriptor =
  descriptor_id :: EnvironmentId
  purpose :: EnvironmentPurpose
  protection :: EnvironmentProtection
  location :: EnvironmentLocation
  workspace_targets_enabled :: bool

datatype EnvironmentPolicyError = ProductionWorkspaceConfiguration

datatype TargetPolicyError = WorkspaceNotAllowed | DevelopmentSyncNotAllowed

fun target_policy_error_code :: "TargetPolicyError \<Rightarrow> string" where
  "target_policy_error_code WorkspaceNotAllowed = ''WORKSPACE_TARGET_NOT_ALLOWED''"
| "target_policy_error_code DevelopmentSyncNotAllowed = ''DEVELOPMENT_SYNC_NOT_ALLOWED''"

definition descriptor_new ::
    "EnvironmentId \<Rightarrow> EnvironmentPurpose \<Rightarrow> EnvironmentProtection \<Rightarrow> EnvironmentLocation \<Rightarrow> bool
     \<Rightarrow> EnvironmentPolicyError + EnvironmentDescriptor" where
  "descriptor_new i pu pr lo enabled =
     (if enabled \<and> (pu = ProductionPurpose \<or> pr = ProductionProtection)
      then Inl ProductionWorkspaceConfiguration
      else Inr \<lparr>descriptor_id = i, purpose = pu, protection = pr, location = lo,
                workspace_targets_enabled = enabled\<rparr>)"

definition local_development :: "EnvironmentId \<Rightarrow> EnvironmentDescriptor" where
  "local_development i =
     \<lparr>descriptor_id = i, purpose = Development, protection = Open, location = Local,
      workspace_targets_enabled = True\<rparr>"

definition production_descriptor ::
    "EnvironmentId \<Rightarrow> EnvironmentLocation \<Rightarrow> EnvironmentDescriptor" where
  "production_descriptor i lo =
     \<lparr>descriptor_id = i, purpose = ProductionPurpose, protection = ProductionProtection,
      location = lo, workspace_targets_enabled = False\<rparr>"

definition validate_target :: "EnvironmentDescriptor \<Rightarrow> CodeTarget \<Rightarrow> TargetPolicyError + unit" where
  "validate_target d target =
     failR (is_workspace target \<and> \<not> workspace_targets_enabled d) WorkspaceNotAllowed"

definition validate_development_sync :: "EnvironmentDescriptor \<Rightarrow> TargetPolicyError + unit" where
  "validate_development_sync d =
     failR (\<not> workspace_targets_enabled d \<or> purpose d = ProductionPurpose
            \<or> protection d = ProductionProtection) DevelopmentSyncNotAllowed"

text \<open>The three constructors of a descriptor. The derived \<open>Deserialize\<close> is not among them: it fills the fields without a check.\<close>

inductive constructed_descriptor :: "EnvironmentDescriptor \<Rightarrow> bool" where
  "descriptor_new i pu pr lo e = Inr d \<Longrightarrow> constructed_descriptor d"
| "constructed_descriptor (local_development i)"
| "constructed_descriptor (production_descriptor i lo)"

section \<open>What the grammar of names accepts\<close>

text \<open>The segments of a hierarchical name: the parts between slashes.\<close>

fun segments :: "string \<Rightarrow> string list" where
  "segments [] = [[]]"
| "segments (c # s) =
     (if c = CHR ''/'' then [] # segments s
      else (c # hd (segments s)) # tl (segments s))"

lemma segments_nonempty [simp]: "segments s \<noteq> []"
  by (induction s) auto

lemma hd_segments: "hd (segments s) = [] \<longleftrightarrow> s = [] \<or> prefix ''/'' s"
  by (cases s) auto

lemma suffix_Cons_slash: "suffix ''/'' (c # s) \<longleftrightarrow> (s = [] \<and> c = CHR ''/'') \<or> suffix ''/'' s"
  by (auto simp: suffix_Cons)

lemma tl_segments:
  "[] \<notin> set (tl (segments s)) \<longleftrightarrow> \<not> suffix ''/'' s \<and> \<not> str_contains ''//'' s"
proof (induction s)
  case Nil
  then show ?case by simp
next
  case (Cons c s)
  have split: "[] \<notin> set (segments s) \<longleftrightarrow>
    s \<noteq> [] \<and> \<not> prefix ''/'' s \<and> \<not> suffix ''/'' s \<and> \<not> str_contains ''//'' s"
    using Cons.IH hd_segments [of s] by (cases "segments s") auto
  show ?case
  proof (cases "c = CHR ''/''")
    case True
    then show ?thesis using split by (auto simp: suffix_Cons_slash)
  next
    case False
    then show ?thesis using Cons.IH by (auto simp: suffix_Cons_slash)
  qed
qed

lemma segments_nonempty_iff:
  "[] \<notin> set (segments s) \<longleftrightarrow>
     s \<noteq> [] \<and> \<not> prefix ''/'' s \<and> \<not> suffix ''/'' s \<and> \<not> str_contains ''//'' s"
  using tl_segments [of s] hd_segments [of s] by (cases "segments s") auto

lemma slash_not_flat [simp]: "\<not> flat_name_char (CHR ''/'')"
  by (simp add: flat_name_char_def ascii_defs)

lemma list_all_segments:
  "(\<forall>g \<in> set (segments s). list_all P g) \<longleftrightarrow> list_all (\<lambda>c. P c \<or> c = CHR ''/'') s"
  if "\<not> P (CHR ''/'')"
proof (induction s)
  case Nil
  then show ?case by simp
next
  case (Cons c s)
  then show ?case using that by (cases "segments s") auto
qed

end
