(* ===== verification/Ulid_Instance.thy ===== *)
theory Ulid_Instance
  imports Core
begin

text \<open>
  A concrete ULID codec in Crockford's base 32. It shows that the documented laws \<open>ulid_laws\<close> of
  the \<open>ulid\<close> crate can be met; the witnesses of the properties that assume them run on it.
\<close>

definition crockford_alphabet :: string where
  "crockford_alphabet = ''0123456789ABCDEFGHJKMNPQRSTVWXYZ''"

fun base32_digits :: "nat \<Rightarrow> nat \<Rightarrow> nat list" where
  "base32_digits 0 x = []"
| "base32_digits (Suc n) x = base32_digits n (x div 32) @ [x mod 32]"

definition base32_value :: "nat list \<Rightarrow> nat" where
  "base32_value ds = foldl (\<lambda>a d. a * 32 + d) 0 ds"

fun index_of :: "char \<Rightarrow> string \<Rightarrow> nat option" where
  "index_of c [] = None"
| "index_of c (d # ds) = (if c = d then Some 0 else map_option Suc (index_of c ds))"

definition crockford_show :: "ulid \<Rightarrow> string" where
  "crockford_show u = map (\<lambda>d. crockford_alphabet ! d) (base32_digits 26 (unat u))"

definition crockford_parse :: "string \<Rightarrow> ulid option" where
  "crockford_parse s =
     (if length s = 26 \<and> list_all (\<lambda>c. index_of c crockford_alphabet \<noteq> None) s
      then (let v = base32_value (map (\<lambda>c. the (index_of c crockford_alphabet)) s)
            in if v < 2 ^ 128 then Some (of_nat v) else None)
      else None)"

definition crockford_ulid :: ulid_crate where
  "crockford_ulid = \<lparr>ulid_to_string = crockford_show, ulid_from_string = crockford_parse\<rparr>"

lemma length_base32_digits [simp]: "length (base32_digits n x) = n"
  by (induction n arbitrary: x) auto

lemma base32_digits_bound: "d \<in> set (base32_digits n x) \<Longrightarrow> d < 32"
  by (induction n arbitrary: x) auto

lemma base32_value_snoc [simp]: "base32_value (ds @ [d]) = base32_value ds * 32 + d"
  by (simp add: base32_value_def)

lemma base32_value_digits: "base32_value (base32_digits n x) = x mod 32 ^ n"
proof (induction n arbitrary: x)
  case 0
  then show ?case by (simp add: base32_value_def)
next
  case (Suc n)
  have "x mod 32 ^ Suc n = 32 * (x div 32 mod 32 ^ n) + x mod 32"
    by (simp add: mod_mult2_eq)
  then show ?case by (simp add: Suc)
qed

lemma crockford_index: "list_all (\<lambda>d. index_of (crockford_alphabet ! d) crockford_alphabet = Some d) [0..<32]"
  by code_simp

lemma crockford_class:
  "list_all (\<lambda>d. is_ascii_digit (crockford_alphabet ! d) \<or> is_ascii_uppercase (crockford_alphabet ! d)) [0..<32]"
  by code_simp

lemma crockford_digit:
  assumes "d < 32"
  shows "index_of (crockford_alphabet ! d) crockford_alphabet = Some d"
    and "is_ascii_digit (crockford_alphabet ! d) \<or> is_ascii_uppercase (crockford_alphabet ! d)"
  using assms crockford_index crockford_class by (auto simp: list_all_iff)

lemma crockford_parse_show: "crockford_parse (crockford_show u) = Some u"
proof -
  let ?ds = "base32_digits 26 (unat u)"
  have u: "unat u < 2 ^ 128" using unsigned_less [of u, where ?'a = nat] by simp
  have digits: "map (\<lambda>c. the (index_of c crockford_alphabet)) (crockford_show u) = ?ds"
    using base32_digits_bound
    by (auto simp: crockford_show_def comp_def crockford_digit intro!: map_idI)
  have known: "list_all (\<lambda>c. index_of c crockford_alphabet \<noteq> None) (crockford_show u)"
    using base32_digits_bound by (fastforce simp: crockford_show_def list_all_iff crockford_digit)
  have "base32_value ?ds = unat u" using u by (simp add: base32_value_digits)
  moreover have "length (crockford_show u) = 26" by (simp add: crockford_show_def)
  ultimately show ?thesis
    using u known by (simp add: crockford_parse_def digits Let_def)
qed

theorem crockford_laws: "ulid_laws crockford_ulid"
proof -
  have "list_all (\<lambda>c. is_ascii_digit c \<or> is_ascii_uppercase c) (crockford_show u)" for u
    unfolding crockford_show_def list_all_iff set_map
    using base32_digits_bound crockford_digit(2) by blast
  moreover have "length (crockford_show u) = 26" for u by (simp add: crockford_show_def)
  ultimately show ?thesis
    by (simp add: ulid_laws_def crockford_ulid_def crockford_parse_show)
qed

end
