(* ===== verification/Core_Properties.thy ===== *)
theory Core_Properties
  imports Ulid_Instance
begin

text \<open>
  The properties of \<open>runku-core\<close>: text forms of identifiers and code selectors are canonical (one
  text per value, in both directions), the grammar of Workspace references, and the agreement of
  the two Environment policies.
\<close>

section \<open>Identifiers\<close>

text \<open>
  C31 (resource kinds never mix): a text that parses as an identifier of one resource kind is
  rejected by the parser of every other kind, with the prefix error of that other kind.
\<close>

theorem resource_kinds_disjoint:
  assumes "p \<in> set resource_prefixes" and "q \<in> set resource_prefixes" and "p \<noteq> q"
    and "resource_id_from_str U p s = Inr u"
  shows "resource_id_from_str U q s = Inl (UnexpectedPrefix q)"
proof -
  from assms(4) have s: "s = p @ ulid_to_string U u"
    by (simp add: resource_id_from_str_Inr resource_id_to_string_def)
  from assms(1,2) have "length p = length q"
    by (simp add: resource_prefixes_length)
  then have "\<not> prefix q s"
    using assms(3) s by (auto simp: prefix_def)
  then show ?thesis by (simp add: resource_id_from_str_def strip_prefix_def)
qed

theorem resource_kinds_disjoint_witness:
  "resource_id_from_str crockford_ulid ''env_'' (resource_id_to_string crockford_ulid ''rel_'' 7)
     = Inl (UnexpectedPrefix ''env_'')"
proof (rule resource_kinds_disjoint)
  show "resource_id_from_str crockford_ulid ''rel_'' (resource_id_to_string crockford_ulid ''rel_'' 7) = Inr 7"
    by (rule resource_id_roundtrip [OF crockford_laws])
qed (simp_all add: resource_prefixes_def)

section \<open>Names\<close>

text \<open>
  C32 (Workspace grammar): a Workspace reference is accepted, unchanged, exactly when it has at most
  100 bytes and each part between slashes is non-empty and consists of lower-case ASCII letters,
  digits and hyphens.
\<close>

theorem workspace_ref_grammar:
  "workspace_ref_from_str s = Inr w \<longleftrightarrow>
     w = s \<and> length s \<le> 100 \<and> (\<forall>g \<in> set (segments s). g \<noteq> [] \<and> list_all flat_name_char g)"
proof -
  have "list_all (\<lambda>c. is_ascii_lowercase c \<or> is_ascii_digit c \<or> c = CHR ''-'' \<or> c = CHR ''/'') s
      \<longleftrightarrow> (\<forall>g \<in> set (segments s). list_all flat_name_char g)"
    by (subst list_all_segments [where P = flat_name_char, OF slash_not_flat]) (simp add: flat_name_char_def)
  moreover have "(\<forall>g \<in> set (segments s). g \<noteq> []) \<longleftrightarrow> [] \<notin> set (segments s)" by auto
  ultimately show ?thesis
    using segments_nonempty_iff [of s]
    by (auto simp: workspace_ref_from_str_def validate_hierarchical_name_def
        MAX_WORKSPACE_REF_BYTES_def ball_conj_distrib split: if_splits)
qed

theorem workspace_ref_grammar_witness:
  "workspace_ref_from_str ''dev/ana'' = Inr ''dev/ana''"
proof -
  have "\<forall>g \<in> set (segments ''dev/ana''). g \<noteq> [] \<and> list_all flat_name_char g"
    by (simp add: flat_name_char_def ascii_defs)
  then show ?thesis by (simp add: workspace_ref_grammar [of "''dev/ana''" "''dev/ana''"])
qed

section \<open>Code selectors\<close>

text \<open>The targets the parser can produce: their names are in canonical form.\<close>

fun target_ok :: "CodeTarget \<Rightarrow> bool" where
  "target_ok EnvironmentDefault = True"
| "target_ok (TargetRelease _) = True"
| "target_ok (TargetChannel c) = (channel_name_from_str c = Inr c)"
| "target_ok (TargetWorkspace w) = (workspace_ref_from_str w = Inr w)"

lemma channel_name_Inr:
  "channel_name_from_str s = Inr c \<longleftrightarrow> c = s \<and> validate_flat_name s MAX_CHANNEL_NAME_BYTES = Inr ()"
  by (auto simp: channel_name_from_str_def)

lemma workspace_ref_Inr:
  "workspace_ref_from_str s = Inr c \<longleftrightarrow>
     c = s \<and> validate_hierarchical_name s MAX_WORKSPACE_REF_BYTES = Inr ()"
  by (auto simp: workspace_ref_from_str_def)

lemma code_target_print_parse:
  assumes "ulid_laws U" and "target_ok t"
  shows "code_target_from_str U (code_target_to_string U t) = Inr t"
proof -
  have "split_once (CHR '':'') (''environment:default'') = Some (''environment'', ''default'')"
    by simp
  moreover have "split_once (CHR '':'') (''release:'' @ r) = Some (''release'', r)" for r by simp
  moreover have "split_once (CHR '':'') (''channel:'' @ r) = Some (''channel'', r)" for r by simp
  moreover have "split_once (CHR '':'') (''workspace:'' @ r) = Some (''workspace'', r)" for r by simp
  ultimately show ?thesis
    using assms by (cases t) (simp_all add: code_target_from_str_def resource_id_roundtrip)
qed

lemma code_target_parse_print:
  assumes "code_target_from_str U s = Inr t"
  shows "target_ok t \<and> s = code_target_to_string U t"
  using assms
  by (auto simp: code_target_from_str_def split_once_Some resource_id_from_str_Inr
      channel_name_Inr workspace_ref_Inr split: if_splits)

text \<open>
  C33 (canonical code targets): parsing and printing a Code Target are inverse to each other; a text
  is accepted exactly when it is the printed form of a target with canonical names.
\<close>

theorem code_target_roundtrip:
  assumes "ulid_laws U"
  shows "code_target_from_str U s = Inr t \<longleftrightarrow> target_ok t \<and> s = code_target_to_string U t"
  using code_target_print_parse [OF assms] code_target_parse_print by blast

theorem code_target_roundtrip_witness:
  "code_target_from_str crockford_ulid ''channel:stable'' = Inr (TargetChannel ''stable'')"
proof -
  have "target_ok (TargetChannel ''stable'')"
    by (simp add: channel_name_from_str_def validate_flat_name_def MAX_CHANNEL_NAME_BYTES_def
        flat_name_char_def ascii_defs)
  then show ?thesis
    using code_target_roundtrip [OF crockford_laws, of "''channel:stable''" "TargetChannel ''stable''"]
    by simp
qed

text \<open>
  C34 (pinned code keeps its kind): the text of a pinned Release or Development Revision parses back
  to exactly that value, and nothing else parses.
\<close>

theorem pinned_code_roundtrip:
  assumes "ulid_laws U"
  shows "pinned_code_from_str U s = Inr p \<longleftrightarrow> s = pinned_code_to_string U p"
  using assms by (rule pinned_code_from_str_Inr)

theorem pinned_code_roundtrip_witness:
  "pinned_code_from_str crockford_ulid (pinned_code_to_string crockford_ulid (PinnedDevRevision 41))
     = Inr (PinnedDevRevision 41)"
  by (simp only: pinned_code_roundtrip [OF crockford_laws])

section \<open>Environment policy\<close>

lemma constructed_descriptor_policy:
  "constructed_descriptor d \<Longrightarrow> workspace_targets_enabled d \<Longrightarrow>
     purpose d \<noteq> ProductionPurpose \<and> protection d \<noteq> ProductionProtection"
  by (induction rule: constructed_descriptor.induct)
    (auto simp: descriptor_new_def local_development_def production_descriptor_def split: if_splits)

text \<open>
  C35 (production is closed to development): on every descriptor the constructors can build, a
  Workspace target is accepted exactly when development synchronisation is, and an Environment that
  is production by purpose or by protection accepts neither; Release, Channel and default targets
  are always accepted. A descriptor that is deserialised has not passed a constructor and is not covered.
\<close>

theorem environment_policy_agreement:
  assumes "constructed_descriptor d"
  shows "(validate_target d (TargetWorkspace w) = Inr () \<longleftrightarrow> validate_development_sync d = Inr ())
    \<and> (purpose d = ProductionPurpose \<or> protection d = ProductionProtection \<longrightarrow>
         validate_target d (TargetWorkspace w) = Inl WorkspaceNotAllowed
         \<and> validate_development_sync d = Inl DevelopmentSyncNotAllowed)
    \<and> (\<not> is_workspace t \<longrightarrow> validate_target d t = Inr ())"
  using constructed_descriptor_policy [OF assms]
  by (auto simp: validate_target_def validate_development_sync_def failR_def)

theorem environment_policy_agreement_witness:
  "validate_target (production_descriptor 1 Managed) (TargetWorkspace ''debug'')
     = Inl WorkspaceNotAllowed"
  using environment_policy_agreement [OF constructed_descriptor.intros(3) [of 1 Managed],
      where w = "''debug''"]
  by (simp add: production_descriptor_def)

end
