(* ===== verification/Byte_Codec.thy ===== *)
theory Byte_Codec
  imports Prelude
begin

text \<open>
  The reading cursor that both binary codecs of \<open>runku-value\<close> declare (\<open>struct Cursor\<close> of
  \<open>index.rs\<close> and of \<open>stored.rs\<close>, which differ in the error they report for truncated input),
  and the two contracts that the framing encoders of the development satisfy: an encoding is
  self-delimiting, and the order of the encodings is the order of the values.
\<close>

section \<open>The cursor\<close>

record cursor =
  input :: bytes
  offset :: nat

definition cursor_new :: "bytes \<Rightarrow> cursor" where
  "cursor_new bs = \<lparr>input = bs, offset = 0\<rparr>"

text \<open>
  The slice \<open>input.get(offset..end)\<close> exists when \<open>offset \<le> end \<le> len\<close>; the sum is checked.
\<close>

definition cursor_take :: "'e \<Rightarrow> nat \<Rightarrow> cursor \<Rightarrow> 'e + bytes \<times> cursor" where
  "cursor_take truncated n c =
     bindR (ok_or truncated (checked_add_usize (offset c) n)) (\<lambda>e.
       if e \<le> length (input c)
       then Inr (take n (drop (offset c) (input c)), c\<lparr>offset := e\<rparr>)
       else Inl truncated)"

definition cursor_byte :: "'e \<Rightarrow> cursor \<Rightarrow> 'e + u8 \<times> cursor" where
  "cursor_byte truncated c =
     bindR (cursor_take truncated 1 c) (\<lambda>(bs, c'). Inr (bs ! 0, c'))"

definition cursor_remaining :: "cursor \<Rightarrow> nat" where
  "cursor_remaining c = length (input c) - offset c"

definition cursor_is_empty :: "cursor \<Rightarrow> bool" where
  "cursor_is_empty c \<longleftrightarrow> offset c = length (input c)"

text \<open>
  The unread part of the input, and the cursor after \<open>n\<close> more bytes. Slices of a 64-bit target
  are shorter than the range of \<open>usize\<close>, so the checked sum of \<open>take\<close> can only fail where the
  slice is too short as well.
\<close>

definition unread :: "cursor \<Rightarrow> bytes" where
  "unread c = drop (offset c) (input c)"

definition advance :: "nat \<Rightarrow> cursor \<Rightarrow> cursor" where
  "advance n c = c\<lparr>offset := offset c + n\<rparr>"

definition cursor_ok :: "cursor \<Rightarrow> bool" where
  "cursor_ok c \<longleftrightarrow> offset c \<le> length (input c) \<and> length (input c) < usize_bound"

lemma cursor_ok_new [simp]: "length bs < usize_bound \<Longrightarrow> cursor_ok (cursor_new bs)"
  by (simp add: cursor_ok_def cursor_new_def)

lemma unread_new [simp]: "unread (cursor_new bs) = bs"
  by (simp add: unread_def cursor_new_def)

lemma input_advance [simp]: "input (advance n c) = input c"
  by (simp add: advance_def)

lemma advance_0 [simp]: "advance 0 c = c"
  by (simp add: advance_def)

lemma advance_advance [simp]: "advance m (advance n c) = advance (n + m) c"
  by (simp add: advance_def add.assoc)

lemma unread_advance [simp]: "unread (advance n c) = drop n (unread c)"
  by (simp add: unread_def advance_def add.commute)

lemma cursor_ok_advance [simp]:
  "cursor_ok c \<Longrightarrow> n \<le> length (unread c) \<Longrightarrow> cursor_ok (advance n c)"
  by (auto simp: cursor_ok_def advance_def unread_def)

lemma cursor_remaining_unread: "cursor_remaining c = length (unread c)"
  by (simp add: cursor_remaining_def unread_def)

lemma cursor_is_empty_unread: "cursor_ok c \<Longrightarrow> cursor_is_empty c \<longleftrightarrow> unread c = []"
  by (auto simp: cursor_is_empty_def unread_def cursor_ok_def)

lemma cursor_take_eq:
  assumes "cursor_ok c"
  shows "cursor_take e n c =
    (if n \<le> length (unread c) then Inr (take n (unread c), advance n c) else Inl e)"
  using assms
  by (auto simp: cursor_take_def cursor_ok_def unread_def advance_def ok_or_def checked_add_usize_def)

lemma cursor_byte_eq:
  assumes "cursor_ok c"
  shows "cursor_byte e c =
    (case unread c of [] \<Rightarrow> Inl e | b # _ \<Rightarrow> Inr (b, advance 1 c))"
  using assms by (cases "unread c") (auto simp: cursor_byte_def cursor_take_eq)

lemma cursor_take_append [simp]:
  assumes "cursor_ok c" and "unread c = xs @ ys" and "n = length xs"
  shows "cursor_take e n c = Inr (xs, advance n c)"
  using assms by (simp add: cursor_take_eq)

lemma cursor_byte_Cons [simp]:
  assumes "cursor_ok c" and "unread c = b # ys"
  shows "cursor_byte e c = Inr (b, advance 1 c)"
  using assms by (simp add: cursor_byte_eq)

lemma cursor_take_Inr:
  assumes "cursor_ok c" and "cursor_take e n c = Inr (xs, d)"
  shows "cursor_ok d \<and> unread c = xs @ unread d \<and> length xs = n"
  using assms by (auto simp: cursor_take_eq split: if_splits)

lemma cursor_byte_Inr:
  assumes "cursor_ok c" and "cursor_byte e c = Inr (b, d)"
  shows "cursor_ok d \<and> unread c = b # unread d"
  using assms by (auto simp: cursor_byte_eq split: list.splits)

section \<open>Self-delimiting encodings\<close>

locale self_delimiting =
  fixes enc :: "'a \<Rightarrow> bytes"
    and dom_of :: "'a \<Rightarrow> bool"
  assumes split_unique:
    "dom_of x \<Longrightarrow> dom_of y \<Longrightarrow> enc x @ r = enc y @ s \<Longrightarrow> x = y \<and> r = s"
begin

text \<open>Two sequences of equal length are told apart by their concatenated encodings.\<close>

lemma concat_unique:
  assumes "length xs = length ys" and "list_all dom_of xs" and "list_all dom_of ys"
    and "concat (map enc xs) @ r = concat (map enc ys) @ s"
  shows "xs = ys \<and> r = s"
  using assms
proof (induction xs ys rule: list_induct2)
  case Nil
  then show ?case by simp
next
  case (Cons x xs y ys)
  from Cons.prems have "enc x @ (concat (map enc xs) @ r) = enc y @ (concat (map enc ys) @ s)"
    by simp
  with Cons.prems have "x = y \<and> concat (map enc xs) @ r = concat (map enc ys) @ s"
    by (intro split_unique) simp_all
  with Cons show ?case by simp
qed

text \<open>The encoder is injective, and no encoding is a proper prefix of another.\<close>

lemma enc_inject: "dom_of x \<Longrightarrow> dom_of y \<Longrightarrow> enc x = enc y \<Longrightarrow> x = y"
  using split_unique [of x y "[]" "[]"] by simp

lemma enc_prefix_free: "dom_of x \<Longrightarrow> dom_of y \<Longrightarrow> prefix (enc x) (enc y) \<Longrightarrow> x = y"
  using split_unique [of x y] by (metis append_Nil2 prefixE)

end

text \<open>
  How encodings compose: one after the other, behind an injective projection, behind a tag byte,
  behind a count, and behind a length.
\<close>

definition pair_enc :: "('a \<Rightarrow> bytes) \<Rightarrow> ('b \<Rightarrow> bytes) \<Rightarrow> 'a \<times> 'b \<Rightarrow> bytes" where
  "pair_enc e1 e2 p = e1 (fst p) @ e2 (snd p)"

definition pair_ok :: "('a \<Rightarrow> bool) \<Rightarrow> ('b \<Rightarrow> bool) \<Rightarrow> 'a \<times> 'b \<Rightarrow> bool" where
  "pair_ok P Q p \<longleftrightarrow> P (fst p) \<and> Q (snd p)"

definition option_enc :: "('a \<Rightarrow> bytes) \<Rightarrow> 'a option \<Rightarrow> bytes" where
  "option_enc e x = (case x of None \<Rightarrow> [0] | Some y \<Rightarrow> 1 # e y)"

definition option_ok :: "('a \<Rightarrow> bool) \<Rightarrow> 'a option \<Rightarrow> bool" where
  "option_ok P x \<longleftrightarrow> (case x of None \<Rightarrow> True | Some y \<Rightarrow> P y)"

definition sum_enc :: "('a \<Rightarrow> bytes) \<Rightarrow> ('b \<Rightarrow> bytes) \<Rightarrow> 'a + 'b \<Rightarrow> bytes" where
  "sum_enc e1 e2 x = (case x of Inl y \<Rightarrow> 0 # e1 y | Inr y \<Rightarrow> 1 # e2 y)"

definition sum_ok :: "('a \<Rightarrow> bool) \<Rightarrow> ('b \<Rightarrow> bool) \<Rightarrow> 'a + 'b \<Rightarrow> bool" where
  "sum_ok P Q x \<longleftrightarrow> (case x of Inl y \<Rightarrow> P y | Inr y \<Rightarrow> Q y)"

lemmas enc_defs = pair_enc_def pair_ok_def option_enc_def option_ok_def sum_enc_def sum_ok_def

lemma self_delimiting_pair:
  assumes "self_delimiting e1 P1" and "self_delimiting e2 P2"
  shows "self_delimiting (pair_enc e1 e2) (pair_ok P1 P2)"
proof
  fix x y r s
  assume x: "pair_ok P1 P2 x" and y: "pair_ok P1 P2 y"
    and eq: "pair_enc e1 e2 x @ r = pair_enc e1 e2 y @ s"
  then have "fst x = fst y \<and> e2 (snd x) @ r = e2 (snd y) @ s"
    by (intro self_delimiting.split_unique [OF assms(1)]) (simp_all add: enc_defs)
  moreover from this have "snd x = snd y \<and> r = s"
    using x y by (intro self_delimiting.split_unique [OF assms(2)]) (simp_all add: enc_defs)
  ultimately show "x = y \<and> r = s" by (simp add: prod_eq_iff)
qed

lemma self_delimiting_comap:
  assumes "self_delimiting e P" and "\<And>x. enc x = e (f x)" and "\<And>x. Q x \<Longrightarrow> P (f x)"
    and "\<And>x y. Q x \<Longrightarrow> Q y \<Longrightarrow> f x = f y \<Longrightarrow> x = y"
  shows "self_delimiting enc Q"
proof
  fix x y r s
  assume "Q x" "Q y" "enc x @ r = enc y @ s"
  then show "x = y \<and> r = s"
    using self_delimiting.split_unique [OF assms(1), of "f x" "f y" r s] assms(2-4) by auto
qed

lemma self_delimiting_option:
  assumes "self_delimiting e P"
  shows "self_delimiting (option_enc e) (option_ok P)"
proof
  fix x y r s
  assume "option_ok P x" "option_ok P y" "option_enc e x @ r = option_enc e y @ s"
  then show "x = y \<and> r = s"
    unfolding enc_defs
    by (cases x; cases y) (simp_all, drule (2) self_delimiting.split_unique [OF assms], simp)
qed

lemma self_delimiting_sum:
  assumes "self_delimiting e1 P1" and "self_delimiting e2 P2"
  shows "self_delimiting (sum_enc e1 e2) (sum_ok P1 P2)"
proof
  fix x y r s
  assume "sum_ok P1 P2 x" "sum_ok P1 P2 y" "sum_enc e1 e2 x @ r = sum_enc e1 e2 y @ s"
  then show "x = y \<and> r = s"
    unfolding enc_defs
    by (cases x; cases y)
      (simp_all, drule (2) self_delimiting.split_unique [OF assms(1)], simp,
        drule (2) self_delimiting.split_unique [OF assms(2)], simp)
qed

definition frame :: "bytes \<Rightarrow> bytes" where
  "frame bs = be_nat 4 (length bs) @ bs"

definition counted :: "('a \<Rightarrow> bytes) \<Rightarrow> 'a list \<Rightarrow> bytes" where
  "counted e xs = be_nat 4 (length xs) @ concat (map e xs)"

lemma be_nat_4_split:
  assumes "m \<le> u32_max" and "n \<le> u32_max" and "be_nat 4 m @ r = be_nat 4 n @ s"
  shows "m = n \<and> r = s"
proof -
  have "length (be_nat 4 m) = length (be_nat 4 n)" by (simp only: length_be_nat)
  with assms(3) have "be_nat 4 m = be_nat 4 n \<and> r = s" by (simp only: append_eq_append_conv simp_thms)
  with assms(1,2) show ?thesis using be_nat_inject [of m 4 n] unfolding u32_max_bound by blast
qed

lemma self_delimiting_frame: "self_delimiting frame (\<lambda>bs. length bs \<le> u32_max)"
proof
  fix x y r s :: bytes
  assume len: "length x \<le> u32_max" "length y \<le> u32_max" and "frame x @ r = frame y @ s"
  then have "length x = length y \<and> x @ r = y @ s"
    unfolding frame_def append_assoc by (intro be_nat_4_split)
  then show "x = y \<and> r = s" by (metis append_eq_append_conv)
qed

lemma self_delimiting_counted:
  assumes "self_delimiting e P"
  shows "self_delimiting (counted e) (\<lambda>xs. length xs \<le> u32_max \<and> list_all P xs)"
proof
  fix x y r s
  assume x: "length x \<le> u32_max \<and> list_all P x" and y: "length y \<le> u32_max \<and> list_all P y"
    and eq: "counted e x @ r = counted e y @ s"
  then have "length x = length y \<and> concat (map e x) @ r = concat (map e y) @ s"
    unfolding counted_def append_assoc by (intro be_nat_4_split) blast+
  then show "x = y \<and> r = s" using self_delimiting.concat_unique [OF assms] x y by blast
qed

section \<open>Order-preserving encodings\<close>

text \<open>The lexicographic order of tuples: a proper prefix is smaller.\<close>

fun lex_lt :: "('a \<Rightarrow> 'a \<Rightarrow> bool) \<Rightarrow> 'a list \<Rightarrow> 'a list \<Rightarrow> bool" where
  "lex_lt lt [] [] = False"
| "lex_lt lt [] (y # ys) = True"
| "lex_lt lt (x # xs) [] = False"
| "lex_lt lt (x # xs) (y # ys) = (lt x y \<or> x = y \<and> lex_lt lt xs ys)"

text \<open>
  The stronger contract of an index codec: the values are totally ordered by \<open>lt\<close>, and smaller
  values have smaller encodings whatever follows them. The lexicographic order of tuples is then
  the byte order of their concatenated encodings.
\<close>

locale order_preserving =
  fixes enc :: "'a \<Rightarrow> bytes"
    and dom_of :: "'a \<Rightarrow> bool"
    and lt :: "'a \<Rightarrow> 'a \<Rightarrow> bool"
  assumes lt_total: "dom_of x \<Longrightarrow> dom_of y \<Longrightarrow> x \<noteq> y \<Longrightarrow> lt x y \<or> lt y x"
    and lt_less: "dom_of x \<Longrightarrow> dom_of y \<Longrightarrow> lt x y \<Longrightarrow> enc x @ r < enc y @ s"
    and enc_nonempty: "dom_of x \<Longrightarrow> enc x \<noteq> []"
begin

lemma lt_irrefl: "dom_of x \<Longrightarrow> \<not> lt x x"
  using lt_less [of x x "[]" "[]"] by blast

lemma lt_asym: "dom_of x \<Longrightarrow> dom_of y \<Longrightarrow> lt x y \<Longrightarrow> \<not> lt y x"
  using lt_less [of x y "[]" "[]"] lt_less [of y x "[]" "[]"] by auto

lemma lt_trans:
  assumes "dom_of x" and "dom_of y" and "dom_of z" and "lt x y" and "lt y z"
  shows "lt x z"
proof -
  from assms have "enc x < enc z"
    using lt_less [of x y "[]" "[]"] lt_less [of y z "[]" "[]"] by auto
  with assms show ?thesis
    using lt_total [of x z] lt_less [of z x "[]" "[]"] by (cases "x = z") auto
qed

lemma less_iff:
  assumes "dom_of x" and "dom_of y"
  shows "enc x < enc y \<longleftrightarrow> lt x y"
  using lt_total [OF assms] lt_less [OF assms, of "[]" "[]"]
    lt_less [OF assms(2,1), of "[]" "[]"] by (cases "x = y") auto

lemma tuple_less_iff:
  assumes "list_all dom_of xs" and "list_all dom_of ys"
  shows "concat (map enc xs) < concat (map enc ys) \<longleftrightarrow> lex_lt lt xs ys"
  using assms
proof (induction xs arbitrary: ys)
  case Nil
  then show ?case using enc_nonempty by (cases ys; cases "enc (hd ys)") fastforce+
next
  case (Cons x xs)
  show ?case
  proof (cases ys)
    case Nil
    then show ?thesis by simp
  next
    case ys: (Cons y ys')
    with Cons.prems have d: "dom_of x" "dom_of y" by auto
    from Cons ys have IH: "(concat (map enc xs) < concat (map enc ys')) = lex_lt lt xs ys'"
      by simp
    consider "x = y" | "x \<noteq> y" "lt x y" | "x \<noteq> y" "lt y x"
      using lt_total [OF d] by blast
    then show ?thesis
    proof cases
      case 1
      then show ?thesis using IH ys d lt_irrefl by simp
    next
      case 2
      then show ?thesis using lt_less [OF d] ys by simp
    next
      case 3
      then have "concat (map enc ys) < concat (map enc (x # xs))"
        using lt_less [OF d(2,1)] ys by simp
      then show ?thesis using 3 lt_asym [OF d(2,1)] ys by auto
    qed
  qed
qed

lemma tuple_prefix_iff:
  assumes "list_all dom_of xs" and "list_all dom_of ys"
  shows "prefix (concat (map enc xs)) (concat (map enc ys)) \<longleftrightarrow> prefix xs ys"
  using assms
proof (induction xs arbitrary: ys)
  case Nil
  then show ?case by simp
next
  case (Cons x xs)
  show ?case
  proof (cases ys)
    case Nil
    then show ?thesis using Cons.prems enc_nonempty by simp
  next
    case ys: (Cons y ys')
    with Cons.prems have d: "dom_of x" "dom_of y" by auto
    have "x = y" if "enc x @ r = enc y @ s" for r s
      using lt_total [OF d] lt_less [OF d, of r s] lt_less [OF d(2,1), of s r] that by auto
    then have "x = y" if "prefix (concat (map enc (x # xs))) (concat (map enc ys))"
      using that ys by (auto simp: prefix_def dest: sym)
    then show ?thesis using Cons ys by auto
  qed
qed

end

text \<open>An order-preserving encoding is self-delimiting: distinct values differ before either ends.\<close>

sublocale order_preserving \<subseteq> self_delimiting enc dom_of
proof
  fix x y r s
  assume d: "dom_of x" "dom_of y" and eq: "enc x @ r = enc y @ s"
  have "x = y"
  proof (rule ccontr)
    assume "x \<noteq> y"
    then show False using lt_total [OF d] lt_less [OF d, of r s] lt_less [OF d(2,1), of s r] eq by auto
  qed
  with eq show "x = y \<and> r = s" by simp
qed

text \<open>Fixed-width big-endian integers keep the unsigned order.\<close>

interpretation be_u64: order_preserving be_u64 "\<lambda>_. True" "(<)"
proof
  fix x y :: u64 and r s
  assume "x < y"
  then show "be_u64 x @ r < be_u64 y @ s" by (simp add: less_append_suffix)
next
  fix x :: u64
  show "be_u64 x \<noteq> []" by (metis length_be_u64 list.size(3) zero_neq_numeral)
qed auto

end
