(* ===== verification/Value_Model.thy ===== *)
theory Value_Model
  imports Core Byte_Codec
begin

text \<open>
  The in-memory value model of \<open>runku-value/src/value.rs\<close>: canonical finite floats (kept as their
  IEEE-754 bits), timestamps, typed identifiers with their text form, and \<open>CanonicalValue\<close>. An
  object is a \<open>BTreeMap\<close>: an association list in strictly increasing key order. \<open>value_ok\<close> states
  what the Rust types guarantee of every value (UTF-8 strings, sorted keys, canonical floats and
  identifiers built by their constructors).
\<close>

unbundle bit_operations_syntax

section \<open>Finite floats\<close>

definition sign_bit :: u64 where
  "sign_bit = push_bit 63 1"

definition f64_is_finite :: "u64 \<Rightarrow> bool" where
  "f64_is_finite bits \<longleftrightarrow> drop_bit 52 bits AND 0x7FF \<noteq> 0x7FF"

text \<open>\<open>value == 0.0\<close> holds for both zeros.\<close>

definition f64_is_zero :: "u64 \<Rightarrow> bool" where
  "f64_is_zero bits \<longleftrightarrow> bits = 0 \<or> bits = sign_bit"

datatype NonFiniteFloatError = NonFiniteFloat

type_synonym FiniteF64 = u64

definition finite_f64_new :: "u64 \<Rightarrow> NonFiniteFloatError + FiniteF64" where
  "finite_f64_new value =
     (if \<not> f64_is_finite value then Inl NonFiniteFloat
      else Inr (if f64_is_zero value then 0 else value))"

text \<open>
  \<open>f64::total_cmp\<close>: negative numbers have their magnitude bits flipped, then the bits compare as
  signed integers.
\<close>

definition total_cmp_key :: "u64 \<Rightarrow> int" where
  "total_cmp_key bits = sint (if bit bits 63 then bits XOR 0x7FFFFFFFFFFFFFFF else bits)"

definition finite_f64_less :: "FiniteF64 \<Rightarrow> FiniteF64 \<Rightarrow> bool" where
  "finite_f64_less a b \<longleftrightarrow> total_cmp_key a < total_cmp_key b"

text \<open>The bits the constructor can produce.\<close>

definition finite_f64_ok :: "FiniteF64 \<Rightarrow> bool" where
  "finite_f64_ok bits \<longleftrightarrow> f64_is_finite bits \<and> bits \<noteq> sign_bit"

lemma sign_bit_finite: "f64_is_finite sign_bit"
  by (simp add: f64_is_finite_def sign_bit_def)

lemma zero_finite [simp]: "f64_is_finite 0"
  by (simp add: f64_is_finite_def)

lemma sign_bit_nonzero [simp]: "sign_bit \<noteq> 0"
  by (simp add: sign_bit_def)

lemma finite_f64_new_Inr:
  "finite_f64_new bits = Inr v \<Longrightarrow> finite_f64_ok v"
  by (auto simp: finite_f64_new_def finite_f64_ok_def f64_is_zero_def split: if_splits)

lemma finite_f64_new_id [simp]: "finite_f64_new bits = Inr bits \<longleftrightarrow> finite_f64_ok bits"
  by (auto simp: finite_f64_new_def finite_f64_ok_def f64_is_zero_def split: if_splits)

section \<open>Typed identifiers\<close>

record TypedId =
  kind :: string
  typed_ulid :: ulid

definition MAX_ID_KIND_BYTES :: nat where
  "MAX_ID_KIND_BYTES = 16"

definition MAX_TYPED_ID_BYTES :: nat where
  "MAX_TYPED_ID_BYTES = MAX_ID_KIND_BYTES + 1 + 26"

datatype ParseTypedIdError =
  TypedIdMissingSeparator | TypedIdEmptyKind | TypedIdTooLong | TypedIdInvalidKind
| TypedIdInvalidUlid

fun typed_id_error_code :: "ParseTypedIdError \<Rightarrow> string" where
  "typed_id_error_code TypedIdMissingSeparator = ''TYPED_ID_FORMAT_INVALID''"
| "typed_id_error_code TypedIdEmptyKind = ''TYPED_ID_KIND_EMPTY''"
| "typed_id_error_code TypedIdTooLong = ''TYPED_ID_TOO_LONG''"
| "typed_id_error_code TypedIdInvalidKind = ''TYPED_ID_KIND_INVALID''"
| "typed_id_error_code TypedIdInvalidUlid = ''TYPED_ID_ULID_INVALID''"

definition kind_char :: "char \<Rightarrow> bool" where
  "kind_char c \<longleftrightarrow> is_ascii_lowercase c \<or> is_ascii_digit c"

definition validate_kind :: "string \<Rightarrow> ParseTypedIdError + unit" where
  "validate_kind k =
     (if k = [] then Inl TypedIdEmptyKind
      else if length k > MAX_ID_KIND_BYTES then Inl TypedIdTooLong
      else if \<not> list_all kind_char k then Inl TypedIdInvalidKind
      else Inr ())"

definition typed_id_new :: "string \<Rightarrow> ulid \<Rightarrow> ParseTypedIdError + TypedId" where
  "typed_id_new k u = bindR (validate_kind k) (\<lambda>_. Inr \<lparr>kind = k, typed_ulid = u\<rparr>)"

definition typed_id_to_string :: "ulid_crate \<Rightarrow> TypedId \<Rightarrow> string" where
  "typed_id_to_string U t = kind t @ ''_'' @ ulid_to_string U (typed_ulid t)"

definition typed_id_from_str :: "ulid_crate \<Rightarrow> string \<Rightarrow> ParseTypedIdError + TypedId" where
  "typed_id_from_str U value =
     bindR (failR (length value > MAX_TYPED_ID_BYTES) TypedIdTooLong) (\<lambda>_.
     bindR (ok_or TypedIdMissingSeparator (split_once (CHR ''_'') value)) (\<lambda>(k, payload).
     bindR (validate_kind k) (\<lambda>_.
     bindR (ok_or TypedIdInvalidUlid (ulid_from_string U payload)) (\<lambda>u.
       if ulid_to_string U u \<noteq> payload then Inl TypedIdInvalidUlid
       else Inr \<lparr>kind = k, typed_ulid = u\<rparr>))))"

text \<open>The typed identifiers that \<open>new\<close> and \<open>from_str\<close> build.\<close>

definition typed_id_ok :: "TypedId \<Rightarrow> bool" where
  "typed_id_ok t \<longleftrightarrow> validate_kind (kind t) = Inr ()"

lemma validate_kind_ok [simp]:
  "validate_kind k = Inr () \<longleftrightarrow> k \<noteq> [] \<and> length k \<le> 16 \<and> list_all kind_char k"
  by (auto simp: validate_kind_def MAX_ID_KIND_BYTES_def)

lemma underscore_not_kind: "list_all kind_char k \<Longrightarrow> CHR ''_'' \<notin> set k"
  by (auto simp: list_all_iff kind_char_def ascii_defs)

lemma typed_id_parse_print:
  "typed_id_from_str U s = Inr t \<Longrightarrow> typed_id_ok t \<and> s = typed_id_to_string U t"
  by (auto simp: typed_id_from_str_def typed_id_ok_def typed_id_to_string_def split_once_Some
      split: if_splits)

lemma typed_id_length:
  assumes "ulid_laws U" and "typed_id_ok t"
  shows "length (typed_id_to_string U t) \<le> MAX_TYPED_ID_BYTES"
  using assms
  by (simp add: typed_id_to_string_def typed_id_ok_def ulid_laws_def MAX_TYPED_ID_BYTES_def
      MAX_ID_KIND_BYTES_def)

lemma typed_id_print_parse:
  assumes "ulid_laws U" and "typed_id_ok t"
  shows "typed_id_from_str U (typed_id_to_string U t) = Inr t"
proof -
  have "split_once (CHR ''_'') (typed_id_to_string U t) = Some (kind t, ulid_to_string U (typed_ulid t))"
    using assms by (simp add: typed_id_to_string_def typed_id_ok_def underscore_not_kind)
  then show ?thesis
    using assms typed_id_length [OF assms]
    by (simp add: typed_id_from_str_def typed_id_ok_def ulid_laws_def)
qed

lemma typed_id_ascii:
  assumes "ulid_laws U" and "typed_id_ok t"
  shows "rust_string (typed_id_to_string U t)"
proof (rule ascii_rust_string)
  have "list_all is_ascii (kind t)"
    using assms(2) by (auto simp: typed_id_ok_def list_all_iff kind_char_def ascii_defs)
  moreover have "list_all is_ascii (ulid_to_string U (typed_ulid t))"
    using assms(1) by (fastforce simp: ulid_laws_def list_all_iff ascii_defs)
  ultimately show "list_all is_ascii (typed_id_to_string U t)"
    by (simp add: typed_id_to_string_def is_ascii_def)
qed

lemma typed_id_to_string_inject:
  assumes "ulid_laws U" and "typed_id_ok s" and "typed_id_ok t"
    and "typed_id_to_string U s = typed_id_to_string U t"
  shows "s = t"
  using trans [OF sym [OF typed_id_print_parse [OF assms(1,2)]]
      typed_id_print_parse [OF assms(1,3), folded assms(4)]] by blast

section \<open>Canonical values\<close>

datatype CanonicalValue =
  Null
| Boolean bool
| Int64 i64
| Float64 FiniteF64
| String string
| Bytes bytes
| Timestamp i64
| TypedIdValue TypedId
| Array "CanonicalValue list"
| Object "(string \<times> CanonicalValue) list"

text \<open>Strictly increasing keys: the iteration order of a \<open>BTreeMap\<close>.\<close>

definition btree_keys :: "('k :: linorder \<times> 'v) list \<Rightarrow> bool" where
  "btree_keys m \<longleftrightarrow> sorted_wrt (<) (map fst m)"

text \<open>\<open>BTreeMap::insert\<close>.\<close>

fun btree_insert :: "'k :: linorder \<Rightarrow> 'v \<Rightarrow> ('k \<times> 'v) list \<Rightarrow> ('k \<times> 'v) list" where
  "btree_insert k v [] = [(k, v)]"
| "btree_insert k v ((l, w) # m) =
     (if k < l then (k, v) # (l, w) # m
      else if k = l then (k, v) # m
      else (l, w) # btree_insert k v m)"

fun value_ok :: "CanonicalValue \<Rightarrow> bool" where
  "value_ok Null = True"
| "value_ok (Boolean _) = True"
| "value_ok (Int64 _) = True"
| "value_ok (Float64 f) = finite_f64_ok f"
| "value_ok (String s) = rust_string s"
| "value_ok (Bytes _) = True"
| "value_ok (Timestamp _) = True"
| "value_ok (TypedIdValue t) = typed_id_ok t"
| "value_ok (Array vs) = (\<forall>v \<in> set vs. value_ok v)"
| "value_ok (Object m) =
     (btree_keys m \<and> (\<forall>(k, v) \<in> set m. rust_string k \<and> value_ok v))"

lemma btree_keys_Cons [simp]:
  "btree_keys ((k, v) # m) \<longleftrightarrow> (\<forall>l \<in> fst ` set m. k < l) \<and> btree_keys m"
  by (auto simp: btree_keys_def)

lemma btree_keys_Nil [simp]: "btree_keys []"
  by (simp add: btree_keys_def)

lemma btree_keys_append:
  "btree_keys (m @ n) \<longleftrightarrow>
     btree_keys m \<and> btree_keys n \<and> (\<forall>k \<in> fst ` set m. \<forall>l \<in> fst ` set n. k < l)"
  by (auto simp: btree_keys_def sorted_wrt_append)

lemma set_btree_insert: "set (btree_insert k v m) \<subseteq> insert (k, v) (set m)"
  by (induction k v m rule: btree_insert.induct) auto

lemma btree_insert_keys [simp]: "fst ` set (btree_insert k v m) = insert k (fst ` set m)"
  by (induction k v m rule: btree_insert.induct) (auto simp: image_iff)

lemma btree_insert_sorted [simp]: "btree_keys m \<Longrightarrow> btree_keys (btree_insert k v m)"
  by (induction k v m rule: btree_insert.induct) (auto intro: less_trans)

text \<open>Inserting above every key appends.\<close>

lemma btree_insert_last: "(\<forall>l \<in> fst ` set m. l < k) \<Longrightarrow> btree_insert k v m = m @ [(k, v)]"
  by (induction k v m rule: btree_insert.induct) auto

lemma map_of_btree_insert:
  "btree_keys m \<Longrightarrow> map_of (btree_insert k v m) = (map_of m)(k \<mapsto> v)"
  by (induction k v m rule: btree_insert.induct) (auto simp: fun_eq_iff)

end
