(* ===== verification/Stored_Value.thy ===== *)
theory Stored_Value
  imports Value_Model
begin

text \<open>
  The Stored Value v1 codec of \<open>runku-value/src/stored.rs\<close>: \<open>encode_stored_value\<close> measures the
  value first (\<open>encoded_body_len\<close>, with every limit of the format) and then writes it
  (\<open>encode_body\<close>); \<open>decode_stored_value\<close> reads exactly one value and rejects every text that is
  not the canonical encoding. The lemmas compare both with \<open>stored_bytes\<close>, the encoding as a
  plain function of the value.
\<close>

section \<open>Format constants and errors\<close>

definition STORED_MAGIC :: bytes where
  "STORED_MAGIC = [0x52, 0x56]"

definition STORED_VALUE_FORMAT_VERSION :: u8 where
  "STORED_VALUE_FORMAT_VERSION = 1"

definition STORED_VALUE_MAX_BYTES :: nat where
  "STORED_VALUE_MAX_BYTES = 1024 * 1024"

definition MAX_DEPTH :: nat where
  "MAX_DEPTH = 64"

definition MAX_CONTAINER_ITEMS :: nat where
  "MAX_CONTAINER_ITEMS = 10000"

definition MAX_OBJECT_KEY_BYTES :: nat where
  "MAX_OBJECT_KEY_BYTES = 256"

definition STAG_NULL :: u8 where "STAG_NULL = 0x00"
definition STAG_FALSE :: u8 where "STAG_FALSE = 0x01"
definition STAG_TRUE :: u8 where "STAG_TRUE = 0x02"
definition STAG_INT64 :: u8 where "STAG_INT64 = 0x10"
definition STAG_FLOAT64 :: u8 where "STAG_FLOAT64 = 0x11"
definition STAG_STRING :: u8 where "STAG_STRING = 0x20"
definition STAG_BYTES :: u8 where "STAG_BYTES = 0x21"
definition STAG_TIMESTAMP :: u8 where "STAG_TIMESTAMP = 0x22"
definition STAG_TYPED_ID :: u8 where "STAG_TYPED_ID = 0x23"
definition STAG_ARRAY :: u8 where "STAG_ARRAY = 0x30"
definition STAG_OBJECT :: u8 where "STAG_OBJECT = 0x31"

lemmas stored_tags = STAG_NULL_def STAG_FALSE_def STAG_TRUE_def STAG_INT64_def STAG_FLOAT64_def
  STAG_STRING_def STAG_BYTES_def STAG_TIMESTAMP_def STAG_TYPED_ID_def STAG_ARRAY_def
  STAG_OBJECT_def

lemmas stored_limits = STORED_VALUE_MAX_BYTES_def MAX_DEPTH_def MAX_CONTAINER_ITEMS_def
  MAX_OBJECT_KEY_BYTES_def u16_max_def u32_max_def

datatype StoredValueError =
  StoredInvalidMagic | StoredUnsupportedVersion | StoredUnknownTag | StoredTruncated
| StoredTrailingBytes | StoredInvalidUtf8 | StoredValueTooLarge | StoredDepthExceeded
| StoredContainerTooLarge | StoredObjectKeyTooLong | StoredObjectKeysNotSorted
| StoredFloatNonFinite | StoredNonCanonicalFloat | StoredTypedIdInvalid

fun stored_value_error_code :: "StoredValueError \<Rightarrow> string" where
  "stored_value_error_code StoredInvalidMagic = ''STORED_VALUE_MAGIC_INVALID''"
| "stored_value_error_code StoredUnsupportedVersion = ''STORED_VALUE_VERSION_UNSUPPORTED''"
| "stored_value_error_code StoredUnknownTag = ''STORED_VALUE_TAG_UNSUPPORTED''"
| "stored_value_error_code StoredTruncated = ''STORED_VALUE_TRUNCATED''"
| "stored_value_error_code StoredTrailingBytes = ''STORED_VALUE_TRAILING_BYTES''"
| "stored_value_error_code StoredInvalidUtf8 = ''STORED_VALUE_UTF8_INVALID''"
| "stored_value_error_code StoredValueTooLarge = ''STORED_VALUE_TOO_LARGE''"
| "stored_value_error_code StoredDepthExceeded = ''STORED_VALUE_DEPTH_EXCEEDED''"
| "stored_value_error_code StoredContainerTooLarge = ''STORED_VALUE_CONTAINER_TOO_LARGE''"
| "stored_value_error_code StoredObjectKeyTooLong = ''STORED_VALUE_OBJECT_KEY_TOO_LONG''"
| "stored_value_error_code StoredObjectKeysNotSorted = ''STORED_VALUE_OBJECT_ORDER_INVALID''"
| "stored_value_error_code StoredFloatNonFinite = ''STORED_VALUE_FLOAT_NON_FINITE''"
| "stored_value_error_code StoredNonCanonicalFloat = ''STORED_VALUE_FLOAT_NON_CANONICAL''"
| "stored_value_error_code StoredTypedIdInvalid = ''STORED_VALUE_TYPED_ID_INVALID''"

section \<open>Encoding\<close>

definition checked_sum :: "nat \<Rightarrow> nat \<Rightarrow> StoredValueError + nat" where
  "checked_sum left right =
     (case checked_add_usize left right of
        Some n \<Rightarrow> if n \<le> STORED_VALUE_MAX_BYTES then Inr n else Inl StoredValueTooLarge
      | None \<Rightarrow> Inl StoredValueTooLarge)"

definition ensure_variable_length :: "nat \<Rightarrow> StoredValueError + unit" where
  "ensure_variable_length n =
     failR (n > STORED_VALUE_MAX_BYTES \<or> n > u32_max) StoredValueTooLarge"

definition ensure_container_count :: "nat \<Rightarrow> StoredValueError + unit" where
  "ensure_container_count n = failR (n > MAX_CONTAINER_ITEMS) StoredContainerTooLarge"

fun encoded_body_len :: "ulid_crate \<Rightarrow> CanonicalValue \<Rightarrow> nat \<Rightarrow> StoredValueError + nat"
and encoded_items_len ::
    "ulid_crate \<Rightarrow> CanonicalValue list \<Rightarrow> nat \<Rightarrow> nat \<Rightarrow> StoredValueError + nat"
and encoded_fields_len ::
    "ulid_crate \<Rightarrow> (string \<times> CanonicalValue) list \<Rightarrow> nat \<Rightarrow> nat \<Rightarrow> StoredValueError + nat" where
  "encoded_body_len U value depth =
     bindR (failR (depth > MAX_DEPTH) StoredDepthExceeded) (\<lambda>_.
     bindR (case value of
         Null \<Rightarrow> Inr 1
       | Boolean _ \<Rightarrow> Inr 1
       | Int64 _ \<Rightarrow> Inr 9
       | Float64 _ \<Rightarrow> Inr 9
       | Timestamp _ \<Rightarrow> Inr 9
       | String s \<Rightarrow> bindR (ensure_variable_length (length s)) (\<lambda>_. checked_sum 5 (length s))
       | Bytes bs \<Rightarrow> bindR (ensure_variable_length (length bs)) (\<lambda>_. checked_sum 5 (length bs))
       | TypedIdValue t \<Rightarrow>
           (let n = length (typed_id_to_string U t) in
            if n > MAX_TYPED_ID_BYTES then Inl StoredTypedIdInvalid else checked_sum 3 n)
       | Array vs \<Rightarrow> bindR (ensure_container_count (length vs)) (\<lambda>_.
           encoded_items_len U vs (depth + 1) 5)
       | Object m \<Rightarrow> bindR (ensure_container_count (length m)) (\<lambda>_.
           encoded_fields_len U m (depth + 1) 5)) (\<lambda>n.
     if n > STORED_VALUE_MAX_BYTES then Inl StoredValueTooLarge else Inr n))"
| "encoded_items_len U [] depth n = Inr n"
| "encoded_items_len U (v # vs) depth n =
     bindR (encoded_body_len U v depth) (\<lambda>k.
     bindR (checked_sum n k) (\<lambda>n'. encoded_items_len U vs depth n'))"
| "encoded_fields_len U [] depth n = Inr n"
| "encoded_fields_len U ((key, v) # m) depth n =
     (if length key > MAX_OBJECT_KEY_BYTES \<or> length key > u16_max then Inl StoredObjectKeyTooLong
      else bindR (checked_sum n 2) (\<lambda>n1.
           bindR (checked_sum n1 (length key)) (\<lambda>n2.
           bindR (encoded_body_len U v depth) (\<lambda>k.
           bindR (checked_sum n2 k) (\<lambda>n3. encoded_fields_len U m depth n3)))))"

definition push_u16 :: "bytes \<Rightarrow> nat \<Rightarrow> StoredValueError + bytes" where
  "push_u16 output n = (if n \<le> u16_max then Inr (output @ be_nat 2 n) else Inl StoredValueTooLarge)"

definition push_u32 :: "bytes \<Rightarrow> nat \<Rightarrow> StoredValueError + bytes" where
  "push_u32 output n = (if n \<le> u32_max then Inr (output @ be_nat 4 n) else Inl StoredValueTooLarge)"

fun encode_body :: "ulid_crate \<Rightarrow> CanonicalValue \<Rightarrow> bytes \<Rightarrow> StoredValueError + bytes"
and encode_items :: "ulid_crate \<Rightarrow> CanonicalValue list \<Rightarrow> bytes \<Rightarrow> StoredValueError + bytes"
and encode_fields ::
    "ulid_crate \<Rightarrow> (string \<times> CanonicalValue) list \<Rightarrow> bytes \<Rightarrow> StoredValueError + bytes" where
  "encode_body U Null output = Inr (output @ [STAG_NULL])"
| "encode_body U (Boolean b) output = Inr (output @ [if b then STAG_TRUE else STAG_FALSE])"
| "encode_body U (Int64 w) output = Inr (output @ [STAG_INT64] @ be_u64 w)"
| "encode_body U (Float64 f) output = Inr (output @ [STAG_FLOAT64] @ be_u64 f)"
| "encode_body U (String s) output =
     bindR (push_u32 (output @ [STAG_STRING]) (length s)) (\<lambda>out. Inr (out @ as_bytes s))"
| "encode_body U (Bytes bs) output =
     bindR (push_u32 (output @ [STAG_BYTES]) (length bs)) (\<lambda>out. Inr (out @ bs))"
| "encode_body U (Timestamp w) output = Inr (output @ [STAG_TIMESTAMP] @ be_u64 w)"
| "encode_body U (TypedIdValue t) output =
     (let wire = typed_id_to_string U t in
      bindR (push_u16 (output @ [STAG_TYPED_ID]) (length wire)) (\<lambda>out.
        Inr (out @ as_bytes wire)))"
| "encode_body U (Array vs) output =
     bindR (push_u32 (output @ [STAG_ARRAY]) (length vs)) (\<lambda>out. encode_items U vs out)"
| "encode_body U (Object m) output =
     bindR (push_u32 (output @ [STAG_OBJECT]) (length m)) (\<lambda>out. encode_fields U m out)"
| "encode_items U [] output = Inr output"
| "encode_items U (v # vs) output = bindR (encode_body U v output) (\<lambda>out. encode_items U vs out)"
| "encode_fields U [] output = Inr output"
| "encode_fields U ((key, v) # m) output =
     bindR (push_u16 output (length key)) (\<lambda>out.
     bindR (encode_body U v (out @ as_bytes key)) (\<lambda>out'. encode_fields U m out'))"

definition encode_stored_value :: "ulid_crate \<Rightarrow> CanonicalValue \<Rightarrow> StoredValueError + bytes" where
  "encode_stored_value U value =
     bindR (encoded_body_len U value 0) (\<lambda>body_len.
     bindR (ok_or StoredValueTooLarge
              (Option.bind (checked_add_usize (length STORED_MAGIC) 1)
                 (\<lambda>n. checked_add_usize n body_len))) (\<lambda>total_len.
     if total_len > STORED_VALUE_MAX_BYTES then Inl StoredValueTooLarge
     else encode_body U value (STORED_MAGIC @ [STORED_VALUE_FORMAT_VERSION])))"

section \<open>Decoding\<close>

definition stored_take :: "nat \<Rightarrow> cursor \<Rightarrow> StoredValueError + bytes \<times> cursor" where
  "stored_take n c = cursor_take StoredTruncated n c"

definition stored_byte :: "cursor \<Rightarrow> StoredValueError + u8 \<times> cursor" where
  "stored_byte c = cursor_byte StoredTruncated c"

definition u16_length :: "cursor \<Rightarrow> StoredValueError + nat \<times> cursor" where
  "u16_length c = bindR (stored_take 2 c) (\<lambda>(bs, c'). Inr (of_be bs, c'))"

definition u32_length :: "cursor \<Rightarrow> StoredValueError + nat \<times> cursor" where
  "u32_length c = bindR (stored_take 4 c) (\<lambda>(bs, c'). Inr (of_be bs, c'))"

definition stored_u64 :: "cursor \<Rightarrow> StoredValueError + u64 \<times> cursor" where
  "stored_u64 c = bindR (stored_take 8 c) (\<lambda>(bs, c'). Inr (from_be_u64 bs, c'))"

definition decode_stored_float :: "cursor \<Rightarrow> StoredValueError + CanonicalValue \<times> cursor" where
  "decode_stored_float c =
     bindR (stored_u64 c) (\<lambda>(bits, c').
     bindR (map_errR (\<lambda>_. StoredFloatNonFinite) (finite_f64_new bits)) (\<lambda>v.
       if v \<noteq> bits then Inl StoredNonCanonicalFloat else Inr (Float64 v, c')))"

definition decode_stored_string :: "cursor \<Rightarrow> StoredValueError + CanonicalValue \<times> cursor" where
  "decode_stored_string c =
     bindR (u32_length c) (\<lambda>(n, c1).
     bindR (ensure_variable_length n) (\<lambda>_.
     bindR (stored_take n c1) (\<lambda>(bs, c2).
     bindR (ok_or StoredInvalidUtf8 (from_utf8 bs)) (\<lambda>s. Inr (String s, c2)))))"

definition decode_stored_bytes :: "cursor \<Rightarrow> StoredValueError + CanonicalValue \<times> cursor" where
  "decode_stored_bytes c =
     bindR (u32_length c) (\<lambda>(n, c1).
     bindR (ensure_variable_length n) (\<lambda>_.
     bindR (stored_take n c1) (\<lambda>(bs, c2). Inr (Bytes bs, c2))))"

definition decode_stored_typed_id ::
    "ulid_crate \<Rightarrow> cursor \<Rightarrow> StoredValueError + CanonicalValue \<times> cursor" where
  "decode_stored_typed_id U c =
     bindR (u16_length c) (\<lambda>(n, c1).
     if n > MAX_TYPED_ID_BYTES then Inl StoredTypedIdInvalid else
     bindR (stored_take n c1) (\<lambda>(bs, c2).
     bindR (ok_or StoredTypedIdInvalid (from_utf8 bs)) (\<lambda>wire.
     bindR (map_errR (\<lambda>_. StoredTypedIdInvalid) (typed_id_from_str U wire)) (\<lambda>t.
       Inr (TypedIdValue t, c2)))))"

definition decode_object_key ::
    "string option \<Rightarrow> cursor \<Rightarrow> StoredValueError + string \<times> cursor" where
  "decode_object_key previous c =
     bindR (u16_length c) (\<lambda>(n, c1).
     if n > MAX_OBJECT_KEY_BYTES then Inl StoredObjectKeyTooLong else
     bindR (stored_take n c1) (\<lambda>(bs, c2).
     bindR (ok_or StoredInvalidUtf8 (from_utf8 bs)) (\<lambda>key.
       if (case previous of None \<Rightarrow> False | Some prev \<Rightarrow> prev \<ge> key)
       then Inl StoredObjectKeysNotSorted else Inr (key, c2))))"

function (sequential) decode_body ::
    "ulid_crate \<Rightarrow> cursor \<Rightarrow> nat \<Rightarrow> StoredValueError + CanonicalValue \<times> cursor"
and decode_items ::
    "ulid_crate \<Rightarrow> nat \<Rightarrow> cursor \<Rightarrow> nat \<Rightarrow> StoredValueError + CanonicalValue list \<times> cursor"
and decode_fields ::
    "ulid_crate \<Rightarrow> nat \<Rightarrow> string option \<Rightarrow> (string \<times> CanonicalValue) list \<Rightarrow> cursor \<Rightarrow> nat
     \<Rightarrow> StoredValueError + (string \<times> CanonicalValue) list \<times> cursor" where
  "decode_body U c depth =
     (if depth > MAX_DEPTH then Inl StoredDepthExceeded else
      bindR (stored_byte c) (\<lambda>(tag, c1).
        if tag = STAG_NULL then Inr (Null, c1)
        else if tag = STAG_FALSE then Inr (Boolean False, c1)
        else if tag = STAG_TRUE then Inr (Boolean True, c1)
        else if tag = STAG_INT64 then mapR (\<lambda>(w, c2). (Int64 w, c2)) (stored_u64 c1)
        else if tag = STAG_FLOAT64 then decode_stored_float c1
        else if tag = STAG_STRING then decode_stored_string c1
        else if tag = STAG_BYTES then decode_stored_bytes c1
        else if tag = STAG_TIMESTAMP then mapR (\<lambda>(w, c2). (Timestamp w, c2)) (stored_u64 c1)
        else if tag = STAG_TYPED_ID then decode_stored_typed_id U c1
        else if tag = STAG_ARRAY then
          bindR (u32_length c1) (\<lambda>(count, c2).
          bindR (ensure_container_count count) (\<lambda>_.
            if count > cursor_remaining c2 then Inl StoredTruncated
            else mapR (\<lambda>(vs, c3). (Array vs, c3)) (decode_items U count c2 (depth + 1))))
        else if tag = STAG_OBJECT then
          bindR (u32_length c1) (\<lambda>(count, c2).
          bindR (ensure_container_count count) (\<lambda>_.
            if count > cursor_remaining c2 div 3 then Inl StoredTruncated
            else mapR (\<lambda>(m, c3). (Object m, c3)) (decode_fields U count None [] c2 (depth + 1))))
        else Inl StoredUnknownTag))"
| "decode_items U 0 c depth = Inr ([], c)"
| "decode_items U (Suc n) c depth =
     bindR (decode_body U c depth) (\<lambda>(v, c1).
     mapR (\<lambda>(vs, c2). (v # vs, c2)) (decode_items U n c1 depth))"
| "decode_fields U 0 previous flds c depth = Inr (flds, c)"
| "decode_fields U (Suc n) previous flds c depth =
     bindR (decode_object_key previous c) (\<lambda>(key, c1).
     bindR (decode_body U c1 depth) (\<lambda>(v, c2).
       decode_fields U n (Some key) (btree_insert key v flds) c2 depth))"
  by pat_completeness auto
termination
  by (relation "measures [
      \<lambda>x. case x of Inl (_, _, d) \<Rightarrow> 66 - d | Inr (Inl (_, _, _, d)) \<Rightarrow> 66 - d
           | Inr (Inr (_, _, _, _, _, d)) \<Rightarrow> 66 - d,
      \<lambda>x. case x of Inl _ \<Rightarrow> 0 | Inr _ \<Rightarrow> 1,
      \<lambda>x. case x of Inl _ \<Rightarrow> 0 | Inr (Inl (_, n, _, _)) \<Rightarrow> n | Inr (Inr (_, n, _, _, _, _)) \<Rightarrow> n]")
    (auto simp: MAX_DEPTH_def)

declare decode_body.simps [simp del]

definition decode_stored_value :: "ulid_crate \<Rightarrow> bytes \<Rightarrow> StoredValueError + CanonicalValue" where
  "decode_stored_value U inp =
     bindR (failR (length inp > STORED_VALUE_MAX_BYTES) StoredValueTooLarge) (\<lambda>_.
     bindR (stored_take 2 (cursor_new inp)) (\<lambda>(magic, c1).
     if magic \<noteq> STORED_MAGIC then Inl StoredInvalidMagic else
     bindR (stored_byte c1) (\<lambda>(version, c2).
     if version \<noteq> STORED_VALUE_FORMAT_VERSION then Inl StoredUnsupportedVersion else
     bindR (decode_body U c2 0) (\<lambda>(value, c3).
     if \<not> cursor_is_empty c3 then Inl StoredTrailingBytes else Inr value))))"

section \<open>The encoding as a function\<close>

fun stored_bytes :: "ulid_crate \<Rightarrow> CanonicalValue \<Rightarrow> bytes" where
  "stored_bytes U Null = [STAG_NULL]"
| "stored_bytes U (Boolean b) = [if b then STAG_TRUE else STAG_FALSE]"
| "stored_bytes U (Int64 w) = STAG_INT64 # be_u64 w"
| "stored_bytes U (Float64 f) = STAG_FLOAT64 # be_u64 f"
| "stored_bytes U (String s) = STAG_STRING # be_nat 4 (length s) @ as_bytes s"
| "stored_bytes U (Bytes bs) = STAG_BYTES # be_nat 4 (length bs) @ bs"
| "stored_bytes U (Timestamp w) = STAG_TIMESTAMP # be_u64 w"
| "stored_bytes U (TypedIdValue t) =
     STAG_TYPED_ID # be_nat 2 (length (typed_id_to_string U t)) @ as_bytes (typed_id_to_string U t)"
| "stored_bytes U (Array vs) =
     STAG_ARRAY # be_nat 4 (length vs) @ concat (map (stored_bytes U) vs)"
| "stored_bytes U (Object m) =
     STAG_OBJECT # be_nat 4 (length m) @
       concat (map (\<lambda>(k, v). be_nat 2 (length k) @ as_bytes k @ stored_bytes U v) m)"

abbreviation field_bytes :: "ulid_crate \<Rightarrow> string \<times> CanonicalValue \<Rightarrow> bytes" where
  "field_bytes U \<equiv> (\<lambda>(k, v). be_nat 2 (length k) @ as_bytes k @ stored_bytes U v)"

text \<open>The limits other than the total size: nesting depth, container counts, key lengths.\<close>

fun shape_ok :: "ulid_crate \<Rightarrow> nat \<Rightarrow> CanonicalValue \<Rightarrow> bool" where
  "shape_ok U d (TypedIdValue t) =
     (d \<le> MAX_DEPTH \<and> length (typed_id_to_string U t) \<le> MAX_TYPED_ID_BYTES)"
| "shape_ok U d (Array vs) =
     (d \<le> MAX_DEPTH \<and> length vs \<le> MAX_CONTAINER_ITEMS \<and> (\<forall>v \<in> set vs. shape_ok U (d + 1) v))"
| "shape_ok U d (Object m) =
     (d \<le> MAX_DEPTH \<and> length m \<le> MAX_CONTAINER_ITEMS
      \<and> (\<forall>(k, v) \<in> set m. length k \<le> MAX_OBJECT_KEY_BYTES \<and> shape_ok U (d + 1) v))"
| "shape_ok U d _ = (d \<le> MAX_DEPTH)"

lemma stored_bytes_nonempty [simp]: "stored_bytes U v \<noteq> []"
  by (cases v) auto

lemma stored_bytes_pos [simp]: "0 < length (stored_bytes U v)"
  by simp

lemma checked_sum_Inr [simp]:
  "checked_sum a b = Inr n \<longleftrightarrow> n = a + b \<and> a + b \<le> STORED_VALUE_MAX_BYTES"
  by (auto simp: checked_sum_def checked_add_usize_def STORED_VALUE_MAX_BYTES_def)

lemma ensure_variable_length_Inr [simp]:
  "ensure_variable_length n = Inr u \<longleftrightarrow> n \<le> STORED_VALUE_MAX_BYTES"
  by (auto simp: ensure_variable_length_def STORED_VALUE_MAX_BYTES_def u32_max_def)

lemma ensure_container_count_Inr [simp]:
  "ensure_container_count n = Inr u \<longleftrightarrow> n \<le> MAX_CONTAINER_ITEMS"
  by (auto simp: ensure_container_count_def)

section \<open>The encoder measures and writes that encoding\<close>

declare encoded_body_len.simps [simp del]

lemma encoded_len_iff:
  "encoded_body_len U v d = Inr n \<longleftrightarrow>
     shape_ok U d v \<and> length (stored_bytes U v) \<le> STORED_VALUE_MAX_BYTES
     \<and> n = length (stored_bytes U v)"
  "(acc \<le> STORED_VALUE_MAX_BYTES \<Longrightarrow> encoded_items_len U vs d acc = Inr n \<longleftrightarrow>
     (\<forall>v \<in> set vs. shape_ok U d v)
     \<and> acc + length (concat (map (stored_bytes U) vs)) \<le> STORED_VALUE_MAX_BYTES
     \<and> n = acc + length (concat (map (stored_bytes U) vs)))"
  "(acc \<le> STORED_VALUE_MAX_BYTES \<Longrightarrow> encoded_fields_len U m d acc = Inr n \<longleftrightarrow>
     (\<forall>(k, v) \<in> set m. length k \<le> MAX_OBJECT_KEY_BYTES \<and> shape_ok U d v)
     \<and> acc + length (concat (map (field_bytes U) m)) \<le> STORED_VALUE_MAX_BYTES
     \<and> n = acc + length (concat (map (field_bytes U) m)))"
proof (induction U v d and U vs d acc and U m d acc arbitrary: n and n and n rule: encoded_body_len_encoded_items_len_encoded_fields_len.induct)
  case (1 U val depth)
  have five: "5 \<le> STORED_VALUE_MAX_BYTES" by (simp add: stored_limits)
  show ?case
  proof (cases val)
    case (Array vs)
    then show ?thesis using 1(1) [OF Array] five
      by (auto simp: encoded_body_len.simps)
  next
    case (Object m)
    then show ?thesis using 1(2) [OF Object] five
      by (auto simp: encoded_body_len.simps)
  qed (auto simp: encoded_body_len.simps stored_limits Let_def MAX_TYPED_ID_BYTES_def MAX_ID_KIND_BYTES_def)
next
  case (2 U depth n)
  then show ?case by auto
next
  case (3 U v vs depth n)
  then show ?case by auto
next
  case (4 U depth n)
  then show ?case by auto
next
  case (5 U key v m depth n)
  then show ?case by (auto simp: stored_limits)
qed

lemma push_lengths:
  "n \<le> STORED_VALUE_MAX_BYTES \<Longrightarrow> push_u32 out n = Inr (out @ be_nat 4 n)"
  "n \<le> MAX_OBJECT_KEY_BYTES \<Longrightarrow> push_u16 out n = Inr (out @ be_nat 2 n)"
  "n \<le> MAX_TYPED_ID_BYTES \<Longrightarrow> push_u16 out n = Inr (out @ be_nat 2 n)"
  by (simp_all add: push_u32_def push_u16_def stored_limits MAX_TYPED_ID_BYTES_def
      MAX_ID_KIND_BYTES_def)

lemma container_count_fits:
  "n \<le> MAX_CONTAINER_ITEMS \<Longrightarrow> n \<le> STORED_VALUE_MAX_BYTES"
  by (simp add: stored_limits)

lemma encode_body_eq:
  "shape_ok U d v \<Longrightarrow> length (stored_bytes U v) \<le> STORED_VALUE_MAX_BYTES \<Longrightarrow>
     encode_body U v out = Inr (out @ stored_bytes U v)"
  "(\<forall>v \<in> set vs. shape_ok U d v) \<Longrightarrow>
     length (concat (map (stored_bytes U) vs)) \<le> STORED_VALUE_MAX_BYTES \<Longrightarrow>
     encode_items U vs out = Inr (out @ concat (map (stored_bytes U) vs))"
  "(\<forall>(k, v) \<in> set m. length k \<le> MAX_OBJECT_KEY_BYTES \<and> shape_ok U d v) \<Longrightarrow>
     length (concat (map (field_bytes U) m)) \<le> STORED_VALUE_MAX_BYTES \<Longrightarrow>
     encode_fields U m out = Inr (out @ concat (map (field_bytes U) m))"
proof (induction U v out and U vs out and U m out arbitrary: d and d and d
    rule: encode_body_encode_items_encode_fields.induct)
  case (9 U vs out)
  then have "push_u32 (out @ [STAG_ARRAY]) (length vs) = Inr ((out @ [STAG_ARRAY]) @ be_nat 4 (length vs))"
    by (simp add: push_lengths container_count_fits)
  moreover have "length (concat (map (stored_bytes U) vs)) \<le> STORED_VALUE_MAX_BYTES"
    using 9(3) by simp
  ultimately show ?case using 9(1) [where d = "d + 1"] 9(2) by simp
next
  case (10 U m out)
  then have "push_u32 (out @ [STAG_OBJECT]) (length m) = Inr ((out @ [STAG_OBJECT]) @ be_nat 4 (length m))"
    by (simp add: push_lengths container_count_fits)
  moreover have "length (concat (map (field_bytes U) m)) \<le> STORED_VALUE_MAX_BYTES"
    using 10(3) by simp
  ultimately show ?case using 10(1) [where d = "d + 1"] 10(2) by simp
next
  case (12 U v vs out)
  have "encode_body U v out = Inr (out @ stored_bytes U v)"
    using 12(1) [where d = d] 12(3,4) by simp
  then show ?case using 12(2) [where d = d] 12(3,4) by simp
next
  case (14 U key v m out)
  have "push_u16 out (length key) = Inr (out @ be_nat 2 (length key))"
    using 14(3) by (simp add: push_lengths)
  moreover from this have "encode_body U v ((out @ be_nat 2 (length key)) @ as_bytes key)
      = Inr (((out @ be_nat 2 (length key)) @ as_bytes key) @ stored_bytes U v)"
    using 14(1) [of d "out @ be_nat 2 (length key)"] 14(3,4) by simp
  ultimately show ?case using 14(2) [where d = d] 14(3,4) by simp
qed (simp_all add: push_lengths Let_def)

text \<open>
  The encoder succeeds exactly within the limits of the format, and its output is the header
  followed by the plain encoding.
\<close>

lemma encode_stored_value_Inr:
  "encode_stored_value U v = Inr bs \<longleftrightarrow>
     shape_ok U 0 v \<and> 3 + length (stored_bytes U v) \<le> STORED_VALUE_MAX_BYTES
     \<and> bs = STORED_MAGIC @ [STORED_VALUE_FORMAT_VERSION] @ stored_bytes U v"
proof -
  have "(Option.bind (checked_add_usize (length STORED_MAGIC) 1) (\<lambda>k. checked_add_usize k n)
      = Some total) \<longleftrightarrow> total = 3 + n \<and> 3 + n < usize_bound" for n total
    by (auto simp: checked_add_usize_def STORED_MAGIC_def)
  moreover have "3 + n < usize_bound" if "3 + n \<le> STORED_VALUE_MAX_BYTES" for n
    using that by (simp add: stored_limits)
  ultimately show ?thesis
    by (auto simp: encode_stored_value_def encoded_len_iff encode_body_eq)
qed

section \<open>Decoding the encoding\<close>

lemma stored_byte_Cons [simp]:
  "cursor_ok c \<Longrightarrow> unread c = b # r \<Longrightarrow> stored_byte c = Inr (b, advance 1 c)"
  by (simp add: stored_byte_def)

lemma stored_take_append [simp]:
  "cursor_ok c \<Longrightarrow> unread c = xs @ r \<Longrightarrow> n = length xs \<Longrightarrow> stored_take n c = Inr (xs, advance n c)"
  by (simp add: stored_take_def)

lemma stored_u64_be [simp]:
  "cursor_ok c \<Longrightarrow> unread c = be_u64 w @ r \<Longrightarrow> stored_u64 c = Inr (w, advance 8 c)"
  by (simp add: stored_u64_def)

lemma u16_length_be [simp]:
  "cursor_ok c \<Longrightarrow> unread c = be_nat 2 n @ r \<Longrightarrow> n < 65536 \<Longrightarrow> u16_length c = Inr (n, advance 2 c)"
  by (simp add: u16_length_def)

lemma u32_length_be [simp]:
  "cursor_ok c \<Longrightarrow> unread c = be_nat 4 n @ r \<Longrightarrow> n < 4294967296 \<Longrightarrow>
     u32_length c = Inr (n, advance 4 c)"
  by (simp add: u32_length_def)

lemma stored_byte_Inr:
  "cursor_ok c \<Longrightarrow> stored_byte c = Inr (b, d) \<Longrightarrow>
     cursor_ok d \<and> unread c = b # unread d"
  unfolding stored_byte_def by (rule cursor_byte_Inr)

lemma stored_take_Inr:
  "cursor_ok c \<Longrightarrow> stored_take n c = Inr (xs, d) \<Longrightarrow>
     cursor_ok d \<and> unread c = xs @ unread d \<and> length xs = n"
  unfolding stored_take_def by (rule cursor_take_Inr)

lemma stored_u64_Inr:
  "cursor_ok c \<Longrightarrow> stored_u64 c = Inr (w, d) \<Longrightarrow> cursor_ok d \<and> unread c = be_u64 w @ unread d"
proof -
  assume ok: "cursor_ok c" and r: "stored_u64 c = Inr (w, d)"
  then obtain bs where t: "stored_take 8 c = Inr (bs, d)" and v: "w = from_be_u64 bs"
    by (auto simp: stored_u64_def)
  from stored_take_Inr [OF ok t] v show ?thesis by simp
qed

lemma u16_length_Inr:
  "cursor_ok c \<Longrightarrow> u16_length c = Inr (n, d) \<Longrightarrow> cursor_ok d \<and> unread c = be_nat 2 n @ unread d"
proof -
  assume ok: "cursor_ok c" and r: "u16_length c = Inr (n, d)"
  then obtain bs where t: "stored_take 2 c = Inr (bs, d)" and v: "n = of_be bs"
    by (auto simp: u16_length_def)
  from stored_take_Inr [OF ok t] v show ?thesis by simp
qed

lemma u32_length_Inr:
  "cursor_ok c \<Longrightarrow> u32_length c = Inr (n, d) \<Longrightarrow> cursor_ok d \<and> unread c = be_nat 4 n @ unread d"
proof -
  assume ok: "cursor_ok c" and r: "u32_length c = Inr (n, d)"
  then obtain bs where t: "stored_take 4 c = Inr (bs, d)" and v: "n = of_be bs"
    by (auto simp: u32_length_def)
  from stored_take_Inr [OF ok t] v show ?thesis by simp
qed

lemma decode_object_key_field:
  assumes "cursor_ok c" and "unread c = be_nat 2 (length k) @ as_bytes k @ r"
    and "rust_string k" and "length k \<le> MAX_OBJECT_KEY_BYTES"
    and "\<And>p. previous = Some p \<Longrightarrow> p < k"
  shows "decode_object_key previous c = Inr (k, advance (2 + length k) c)"
proof -
  have n: "length k < 65536" using assms(4) by (simp add: stored_limits)
  have "u16_length c = Inr (length k, advance 2 c)" using assms(1,2) n by simp
  moreover have "stored_take (length k) (advance 2 c) = Inr (as_bytes k, advance (2 + length k) c)"
    using assms(1,2) by simp
  moreover have "\<not> (case previous of None \<Rightarrow> False | Some p \<Rightarrow> k \<le> p)"
    using assms(5) by (auto split: option.splits)
  ultimately show ?thesis using assms(3,4) by (simp add: decode_object_key_def)
qed

lemma decode_stored_typed_id_field:
  assumes "cursor_ok c"
    and "unread c = be_nat 2 (length (typed_id_to_string U i)) @ as_bytes (typed_id_to_string U i) @ r"
    and "ulid_laws U" and "typed_id_ok i" and "length (typed_id_to_string U i) \<le> MAX_TYPED_ID_BYTES"
  shows "decode_stored_typed_id U c
    = Inr (TypedIdValue i, advance (2 + length (typed_id_to_string U i)) c)"
proof -
  let ?w = "typed_id_to_string U i"
  have n: "length ?w < 65536"
    using assms(5) by (simp add: MAX_TYPED_ID_BYTES_def MAX_ID_KIND_BYTES_def)
  have "u16_length c = Inr (length ?w, advance 2 c)" using assms(1,2) n by simp
  moreover have "stored_take (length ?w) (advance 2 c) = Inr (as_bytes ?w, advance (2 + length ?w) c)"
    using assms(1,2) by simp
  ultimately show ?thesis using assms(3-5)
    by (simp add: decode_stored_typed_id_def typed_id_ascii typed_id_print_parse)
qed

definition decodes :: "ulid_crate \<Rightarrow> CanonicalValue \<Rightarrow> bool" where
  "decodes U v \<longleftrightarrow> (\<forall>c r d. cursor_ok c \<longrightarrow> unread c = stored_bytes U v @ r \<longrightarrow> value_ok v \<longrightarrow>
     shape_ok U d v \<longrightarrow> length (stored_bytes U v) \<le> STORED_VALUE_MAX_BYTES \<longrightarrow>
     decode_body U c d = Inr (v, advance (length (stored_bytes U v)) c))"

lemma decodesD:
  assumes "decodes U v" and "cursor_ok c" and "unread c = stored_bytes U v @ r" and "value_ok v"
    and "shape_ok U d v" and "length (stored_bytes U v) \<le> STORED_VALUE_MAX_BYTES"
  shows "decode_body U c d = Inr (v, advance (length (stored_bytes U v)) c)"
  using assms by (auto simp: decodes_def)

lemma decode_items_stored:
  assumes "\<And>v. v \<in> set vs \<Longrightarrow> decodes U v \<and> value_ok v \<and> shape_ok U d v"
    and "cursor_ok c" and "unread c = concat (map (stored_bytes U) vs) @ r"
    and "length (concat (map (stored_bytes U) vs)) \<le> STORED_VALUE_MAX_BYTES"
  shows "decode_items U (length vs) c d
    = Inr (vs, advance (length (concat (map (stored_bytes U) vs))) c)"
  using assms
proof (induction vs arbitrary: c)
  case Nil
  then show ?case by simp
next
  case (Cons v vs)
  let ?n = "length (stored_bytes U v)"
  have "decode_body U c d = Inr (v, advance ?n c)"
    using Cons.prems(1) [of v] Cons.prems(2-4)
    by (intro decodesD [where r = "concat (map (stored_bytes U) vs) @ r"]) simp_all
  moreover have "decode_items U (length vs) (advance ?n c) d =
      Inr (vs, advance (length (concat (map (stored_bytes U) vs))) (advance ?n c))"
    using Cons.prems by (intro Cons.IH) simp_all
  ultimately show ?case by simp
qed

lemma decode_fields_stored:
  assumes "\<And>k v. (k, v) \<in> set m \<Longrightarrow> decodes U v \<and> value_ok v \<and> shape_ok U d v \<and> rust_string k
      \<and> length k \<le> MAX_OBJECT_KEY_BYTES"
    and "cursor_ok c" and "unread c = concat (map (field_bytes U) m) @ r"
    and "length (concat (map (field_bytes U) m)) \<le> STORED_VALUE_MAX_BYTES"
    and "btree_keys (flds @ m)"
    and "previous = (if flds = [] then None else Some (fst (last flds)))"
  shows "decode_fields U (length m) previous flds c d
    = Inr (flds @ m, advance (length (concat (map (field_bytes U) m))) c)"
  using assms
proof (induction m arbitrary: c flds previous)
  case Nil
  then show ?case by simp
next
  case (Cons kv m)
  obtain k v where kv: "kv = (k, v)" by (cases kv)
  let ?n = "length (stored_bytes U v)"
  let ?rest = "concat (map (field_bytes U) m)"
  let ?c = "advance (2 + length k) c"
  from Cons.prems(1) [of k v] kv have v: "decodes U v" "value_ok v" "shape_ok U d v"
    "rust_string k" "length k \<le> MAX_OBJECT_KEY_BYTES" by simp_all
  have u: "unread c = be_nat 2 (length k) @ as_bytes k @ stored_bytes U v @ ?rest @ r"
    using Cons.prems(3) kv by simp
  have sorted: "btree_keys ((flds @ [(k, v)]) @ m)" using Cons.prems(5) kv by simp
  have below: "\<forall>l \<in> fst ` set flds. l < k" using Cons.prems(5) kv by (auto simp: btree_keys_append)
  have ok: "cursor_ok ?c" "cursor_ok (advance ?n ?c)" using Cons.prems(2) u by simp_all
  have "decode_object_key previous c = Inr (k, ?c)"
  proof (rule decode_object_key_field [OF Cons.prems(2) u v(4,5)])
    fix p assume "previous = Some p"
    then have "flds \<noteq> []" and "p = fst (last flds)" using Cons.prems(6) by (auto split: if_splits)
    then show "p < k" using below by simp
  qed
  moreover have "decode_body U ?c d = Inr (v, advance ?n ?c)"
    using Cons.prems(4) kv u by (intro decodesD [OF v(1) ok(1) _ v(2,3), where r = "?rest @ r"]) simp_all
  moreover have "decode_fields U (length m) (Some k) (flds @ [(k, v)]) (advance ?n ?c) d
      = Inr ((flds @ [(k, v)]) @ m, advance (length ?rest) (advance ?n ?c))"
  proof (rule Cons.IH)
    show "unread (advance ?n ?c) = ?rest @ r" using u by simp
    show "length ?rest \<le> STORED_VALUE_MAX_BYTES" using Cons.prems(4) kv by simp
  qed (use Cons.prems(1) ok sorted in auto)
  ultimately show ?case using kv by (simp add: btree_insert_last [OF below] add.assoc)
qed

lemma decode_tag:
  assumes "cursor_ok c" and "unread c = tag # r" and "d \<le> MAX_DEPTH"
  shows "stored_byte c = Inr (tag, advance 1 c)" and "\<not> MAX_DEPTH < d"
    and "cursor_ok (advance 1 c)" and "unread (advance 1 c) = r"
  using assms by simp_all

lemma size_u32: "n \<le> STORED_VALUE_MAX_BYTES \<Longrightarrow> n < 4294967296"
  by (simp add: stored_limits)

lemma concat_length_ge:
  "(\<And>x. x \<in> set xs \<Longrightarrow> k \<le> length (f x)) \<Longrightarrow> k * length xs \<le> length (concat (map f xs))"
  by (induction xs) (auto simp: add_mono)

lemma decodes_scalar:
  assumes "ulid_laws U" and "\<And>vs. v \<noteq> Array vs" and "\<And>m. v \<noteq> Object m"
  shows "decodes U v"
  unfolding decodes_def
proof (intro allI impI)
  fix c r d
  assume ok: "cursor_ok c" and u: "unread c = stored_bytes U v @ r" and v: "value_ok v"
    and sh: "shape_ok U d v" and len: "length (stored_bytes U v) \<le> STORED_VALUE_MAX_BYTES"
  have d: "d \<le> MAX_DEPTH" using sh by (cases v) auto
  obtain tag rest where tag: "stored_bytes U v = tag # rest" by (cases "stored_bytes U v") auto
  note t = decode_tag [OF ok _ d, of tag "rest @ r"]
  have t: "stored_byte c = Inr (tag, advance 1 c)" "\<not> MAX_DEPTH < d" "cursor_ok (advance 1 c)"
    "unread (advance 1 c) = rest @ r" using t u tag by simp_all
  show "decode_body U c d = Inr (v, advance (length (stored_bytes U v)) c)"
  proof (cases v)
    case (Float64 f)
    then show ?thesis using t tag v
      by (auto simp: decode_body.simps stored_tags decode_stored_float_def
          simp del: unread_advance)
  next
    case (String s)
    then have "length s < 4294967296" using len by (simp add: stored_limits)
    moreover have "length s \<le> STORED_VALUE_MAX_BYTES" using String len by simp
    moreover have "stored_take (length s) (advance 5 c) = Inr (as_bytes s, advance (5 + length s) c)"
      using ok u String by simp
    ultimately show ?thesis using t tag v String
      by (auto simp: decode_body.simps stored_tags decode_stored_string_def)
  next
    case (Bytes bs)
    then have "length bs < 4294967296" using len by (simp add: stored_limits)
    moreover have "length bs \<le> STORED_VALUE_MAX_BYTES" using Bytes len by simp
    moreover have "stored_take (length bs) (advance 5 c) = Inr (bs, advance (5 + length bs) c)"
      using ok u Bytes by simp
    ultimately show ?thesis using t tag v Bytes
      by (auto simp: decode_body.simps stored_tags decode_stored_bytes_def)
  next
    case (TypedIdValue i)
    then have "decode_stored_typed_id U (advance 1 c)
        = Inr (v, advance (2 + length (typed_id_to_string U i)) (advance 1 c))"
      using decode_stored_typed_id_field [OF t(3), of U i r] t(4) tag v sh assms(1)
      by (simp del: unread_advance advance_advance)
    then show ?thesis using t(1,2) tag TypedIdValue
      by (auto simp: decode_body.simps stored_tags)
  qed (use t tag assms(2,3) in \<open>auto simp: decode_body.simps stored_tags split: if_splits\<close>)
qed

lemma decodes_all: "ulid_laws U \<Longrightarrow> decodes U v"
proof (induction v)
  case (Array vs)
  show ?case unfolding decodes_def
  proof (intro allI impI)
    fix c r d
    assume ok: "cursor_ok c" and u: "unread c = stored_bytes U (Array vs) @ r"
      and v: "value_ok (Array vs)" and sh: "shape_ok U d (Array vs)"
      and len: "length (stored_bytes U (Array vs)) \<le> STORED_VALUE_MAX_BYTES"
    let ?body = "concat (map (stored_bytes U) vs)"
    have t: "stored_byte c = Inr (STAG_ARRAY, advance 1 c)" "\<not> MAX_DEPTH < d"
      using ok u sh by simp_all
    have n: "length vs < 4294967296" "length vs \<le> MAX_CONTAINER_ITEMS"
      using sh by (simp_all add: stored_limits)
    have l: "u32_length (advance 1 c) = Inr (length vs, advance 4 (advance 1 c))"
      by (rule u32_length_be [OF _ _ n(1)]) (use ok u in simp_all)
    have "length vs \<le> length ?body"
      using concat_length_ge [of vs 1 "stored_bytes U"] by (simp add: Suc_leI)
    moreover have rest: "unread (advance 4 (advance 1 c)) = ?body @ r" using u by simp
    ultimately have "\<not> length vs > cursor_remaining (advance 4 (advance 1 c))"
      by (simp add: cursor_remaining_unread del: unread_advance advance_advance)
    moreover have "decode_items U (length vs) (advance 4 (advance 1 c)) (d + 1)
        = Inr (vs, advance (length ?body) (advance 4 (advance 1 c)))"
    proof (rule decode_items_stored [OF _ _ rest])
      show "cursor_ok (advance 4 (advance 1 c))" using ok u by simp
      show "length ?body \<le> STORED_VALUE_MAX_BYTES" using len by simp
    qed (use Array v sh in auto)
    ultimately show "decode_body U c d = Inr (Array vs, advance (length (stored_bytes U (Array vs))) c)"
      using t l n(2) by (simp add: decode_body.simps stored_tags)
  qed
next
  case (Object m)
  show ?case unfolding decodes_def
  proof (intro allI impI)
    fix c r d
    assume ok: "cursor_ok c" and u: "unread c = stored_bytes U (Object m) @ r"
      and v: "value_ok (Object m)" and sh: "shape_ok U d (Object m)"
      and len: "length (stored_bytes U (Object m)) \<le> STORED_VALUE_MAX_BYTES"
    let ?body = "concat (map (field_bytes U) m)"
    have t: "stored_byte c = Inr (STAG_OBJECT, advance 1 c)" "\<not> MAX_DEPTH < d"
      using ok u sh by simp_all
    have n: "length m < 4294967296" "length m \<le> MAX_CONTAINER_ITEMS"
      using sh by (simp_all add: stored_limits)
    have l: "u32_length (advance 1 c) = Inr (length m, advance 4 (advance 1 c))"
      by (rule u32_length_be [OF _ _ n(1)]) (use ok u in simp_all)
    have "3 * length m \<le> length ?body"
      by (rule concat_length_ge) (auto simp: Suc_le_eq trans_less_add2)
    moreover have rest: "unread (advance 4 (advance 1 c)) = ?body @ r" using u by simp
    ultimately have "\<not> length m > cursor_remaining (advance 4 (advance 1 c)) div 3"
      by (simp add: cursor_remaining_unread del: unread_advance advance_advance)
    moreover have "decode_fields U (length m) None [] (advance 4 (advance 1 c)) (d + 1)
        = Inr ([] @ m, advance (length ?body) (advance 4 (advance 1 c)))"
    proof (rule decode_fields_stored [OF _ _ rest])
      show "cursor_ok (advance 4 (advance 1 c))" using ok u by simp
      show "length ?body \<le> STORED_VALUE_MAX_BYTES" using len by simp
    qed (use Object v sh in \<open>auto dest: bspec\<close>)
    ultimately show "decode_body U c d = Inr (Object m, advance (length (stored_bytes U (Object m))) c)"
      using t l n(2) by (simp add: decode_body.simps stored_tags)
  qed
qed (auto intro: decodes_scalar)

section \<open>Only canonical encodings decode\<close>

definition read_ok :: "ulid_crate \<Rightarrow> nat \<Rightarrow> cursor \<Rightarrow> CanonicalValue \<Rightarrow> bytes \<Rightarrow> cursor \<Rightarrow> bool" where
  "read_ok U d c v bs c' \<longleftrightarrow>
     cursor_ok c' \<and> unread c = bs @ unread c' \<and> value_ok v \<and> shape_ok U d v"

lemma decode_stored_float_sound:
  assumes "decode_stored_float c = Inr (v, c')" and "cursor_ok c"
  shows "\<exists>f. v = Float64 f \<and> finite_f64_ok f \<and> cursor_ok c' \<and> unread c = be_u64 f @ unread c'"
proof -
  from assms(1) obtain bits where "stored_u64 c = Inr (bits, c')" "finite_f64_new bits = Inr bits"
    "v = Float64 bits"
    by (auto simp: decode_stored_float_def simp del: finite_f64_new_id split: if_splits)
  then show ?thesis using stored_u64_Inr [OF assms(2)] by simp
qed

lemma decode_stored_string_sound:
  assumes "decode_stored_string c = Inr (v, c')" and "cursor_ok c"
  shows "\<exists>s. v = String s \<and> rust_string s \<and> cursor_ok c'
    \<and> unread c = be_nat 4 (length s) @ as_bytes s @ unread c'"
proof -
  from assms(1) obtain n c1 s where l: "u32_length c = Inr (n, c1)"
    and t: "stored_take n c1 = Inr (as_bytes s, c')" and s: "rust_string s" and v: "v = String s"
    by (auto simp: decode_stored_string_def)
  from u32_length_Inr [OF assms(2) l] have ok: "cursor_ok c1" and u: "unread c = be_nat 4 n @ unread c1"
    by simp_all
  from stored_take_Inr [OF ok t] show ?thesis using u s v by auto
qed

lemma decode_stored_bytes_sound:
  assumes "decode_stored_bytes c = Inr (v, c')" and "cursor_ok c"
  shows "\<exists>bs. v = Bytes bs \<and> cursor_ok c' \<and> unread c = be_nat 4 (length bs) @ bs @ unread c'"
proof -
  from assms(1) obtain n c1 bs where l: "u32_length c = Inr (n, c1)"
    and t: "stored_take n c1 = Inr (bs, c')" and v: "v = Bytes bs"
    by (auto simp: decode_stored_bytes_def)
  from u32_length_Inr [OF assms(2) l] have ok: "cursor_ok c1" and u: "unread c = be_nat 4 n @ unread c1"
    by simp_all
  from stored_take_Inr [OF ok t] show ?thesis using u v by auto
qed

lemma decode_stored_typed_id_sound:
  assumes "decode_stored_typed_id U c = Inr (v, c')" and "cursor_ok c"
  shows "\<exists>i. v = TypedIdValue i \<and> typed_id_ok i \<and> cursor_ok c'
    \<and> length (typed_id_to_string U i) \<le> MAX_TYPED_ID_BYTES
    \<and> unread c = be_nat 2 (length (typed_id_to_string U i)) @ as_bytes (typed_id_to_string U i) @ unread c'"
proof -
  from assms(1) obtain n c1 w i where l: "u16_length c = Inr (n, c1)" and n: "n \<le> MAX_TYPED_ID_BYTES"
    and t: "stored_take n c1 = Inr (as_bytes w, c')" and p: "typed_id_from_str U w = Inr i"
    and v: "v = TypedIdValue i"
    by (auto simp: decode_stored_typed_id_def split: if_splits)
  from u16_length_Inr [OF assms(2) l] have ok: "cursor_ok c1" and u: "unread c = be_nat 2 n @ unread c1"
    by simp_all
  from stored_take_Inr [OF ok t] typed_id_parse_print [OF p] show ?thesis using u v n by auto
qed

lemma decode_object_key_sound:
  assumes "decode_object_key previous c = Inr (k, c')" and "cursor_ok c"
  shows "cursor_ok c' \<and> rust_string k \<and> length k \<le> MAX_OBJECT_KEY_BYTES
    \<and> unread c = be_nat 2 (length k) @ as_bytes k @ unread c' \<and> (\<forall>p. previous = Some p \<longrightarrow> p < k)"
proof -
  from assms(1) obtain n c1 where l: "u16_length c = Inr (n, c1)" and n: "n \<le> MAX_OBJECT_KEY_BYTES"
    and t: "stored_take n c1 = Inr (as_bytes k, c')" and s: "rust_string k"
    and p: "\<forall>p. previous = Some p \<longrightarrow> p < k"
    by (auto simp: decode_object_key_def not_le split: if_splits option.splits)
  from u16_length_Inr [OF assms(2) l] have ok: "cursor_ok c1" and u: "unread c = be_nat 2 n @ unread c1"
    by simp_all
  from stored_take_Inr [OF ok t] show ?thesis using u n s p by auto
qed

lemma decode_items_sound:
  assumes body: "\<And>c v c'. decode_body U c d = Inr (v, c') \<Longrightarrow> cursor_ok c \<Longrightarrow>
      read_ok U d c v (stored_bytes U v) c'"
    and "decode_items U n c d = Inr (vs, c')" and "cursor_ok c"
  shows "cursor_ok c' \<and> length vs = n \<and> unread c = concat (map (stored_bytes U) vs) @ unread c'
    \<and> (\<forall>v \<in> set vs. value_ok v \<and> shape_ok U d v)"
  using assms(2,3)
proof (induction n arbitrary: c vs)
  case 0
  then show ?case by simp
next
  case (Suc n)
  then obtain v c1 ws where b: "decode_body U c d = Inr (v, c1)"
    and i: "decode_items U n c1 d = Inr (ws, c')" and vs: "vs = v # ws"
    by auto
  from body [OF b Suc.prems(2)] have r: "cursor_ok c1" "unread c = stored_bytes U v @ unread c1"
    "value_ok v" "shape_ok U d v"
    by (simp_all add: read_ok_def)
  from Suc.IH [OF i r(1)] show ?case using r vs by auto
qed

lemma decode_fields_sound:
  assumes body: "\<And>c v c'. decode_body U c d = Inr (v, c') \<Longrightarrow> cursor_ok c \<Longrightarrow>
      read_ok U d c v (stored_bytes U v) c'"
    and "decode_fields U n previous flds c d = Inr (m, c')" and "cursor_ok c" and "btree_keys flds"
    and "previous = (if flds = [] then None else Some (fst (last flds)))"
  shows "\<exists>m'. m = flds @ m' \<and> btree_keys m \<and> cursor_ok c' \<and> length m' = n
    \<and> unread c = concat (map (field_bytes U) m') @ unread c'
    \<and> (\<forall>(k, v) \<in> set m'. rust_string k \<and> length k \<le> MAX_OBJECT_KEY_BYTES
          \<and> value_ok v \<and> shape_ok U d v)"
  using assms(2-5)
proof (induction n arbitrary: c flds previous)
  case 0
  then show ?case by simp
next
  case (Suc n)
  then obtain k v c1 c2 where k: "decode_object_key previous c = Inr (k, c1)"
    and b: "decode_body U c1 d = Inr (v, c2)"
    and f: "decode_fields U n (Some k) (btree_insert k v flds) c2 d = Inr (m, c')"
    by auto
  from decode_object_key_sound [OF k Suc.prems(2)] have key: "cursor_ok c1" "rust_string k"
    "length k \<le> MAX_OBJECT_KEY_BYTES" "unread c = be_nat 2 (length k) @ as_bytes k @ unread c1"
    "\<forall>p. previous = Some p \<longrightarrow> p < k" by simp_all
  from body [OF b key(1)] have r: "cursor_ok c2" "unread c1 = stored_bytes U v @ unread c2"
    "value_ok v" "shape_ok U d v"
    by (simp_all add: read_ok_def)
  have below: "\<forall>l \<in> fst ` set flds. l < k"
  proof (cases flds rule: rev_cases)
    case (snoc ys kv)
    then have "fst kv < k" using key(5) Suc.prems(4) by simp
    then show ?thesis using Suc.prems(3) snoc by (cases kv) (auto simp: btree_keys_append)
  qed simp
  then have ins: "btree_insert k v flds = flds @ [(k, v)]" by (rule btree_insert_last)
  have "btree_keys (flds @ [(k, v)])" using Suc.prems(3) below by (auto simp: btree_keys_append)
  then obtain m' where m': "m = (flds @ [(k, v)]) @ m'" "btree_keys m" "cursor_ok c'" "length m' = n"
    "unread c2 = concat (map (field_bytes U) m') @ unread c'"
    "\<forall>(k, v) \<in> set m'. rust_string k \<and> length k \<le> MAX_OBJECT_KEY_BYTES \<and> value_ok v \<and> shape_ok U d v"
    using Suc.IH [OF f [unfolded ins] r(1)] by auto
  then show ?case using key r by (intro exI [of _ "(k, v) # m'"]) auto
qed

lemma decode_body_sound:
  "decode_body U c d = Inr (v, c') \<Longrightarrow> cursor_ok c \<Longrightarrow> read_ok U d c v (stored_bytes U v) c'"
proof (induction "65 - d" arbitrary: d c v c' rule: less_induct)
  case less
  from less.prems(1) have d: "d \<le> MAX_DEPTH"
    by (auto simp: decode_body.simps [of U c d] split: if_splits)
  then have IH: "decode_body U c (d + 1) = Inr (v, c') \<Longrightarrow> cursor_ok c \<Longrightarrow>
      read_ok U (d + 1) c v (stored_bytes U v) c'" for c v c'
    by (intro less.hyps) (simp_all add: MAX_DEPTH_def)
  from less.prems(1) d obtain tag c1 where t: "stored_byte c = Inr (tag, c1)"
    by (auto simp: decode_body.simps [of U c d])
  from stored_byte_Inr [OF less.prems(2) t] have c1: "cursor_ok c1" "unread c = tag # unread c1"
    by simp_all
  note step = less.prems(1) [unfolded decode_body.simps [of U c d]]
  consider "v = Null" "tag = STAG_NULL" "c' = c1"
    | "v = Boolean False" "tag = STAG_FALSE" "c' = c1" | "v = Boolean True" "tag = STAG_TRUE" "c' = c1"
    | w where "v = Int64 w" "tag = STAG_INT64" "stored_u64 c1 = Inr (w, c')"
    | "tag = STAG_FLOAT64" "decode_stored_float c1 = Inr (v, c')"
    | "tag = STAG_STRING" "decode_stored_string c1 = Inr (v, c')"
    | "tag = STAG_BYTES" "decode_stored_bytes c1 = Inr (v, c')"
    | w where "v = Timestamp w" "tag = STAG_TIMESTAMP" "stored_u64 c1 = Inr (w, c')"
    | "tag = STAG_TYPED_ID" "decode_stored_typed_id U c1 = Inr (v, c')"
    | n c2 vs where "v = Array vs" "tag = STAG_ARRAY" "u32_length c1 = Inr (n, c2)"
        "n \<le> MAX_CONTAINER_ITEMS" "decode_items U n c2 (d + 1) = Inr (vs, c')"
    | n c2 m where "v = Object m" "tag = STAG_OBJECT" "u32_length c1 = Inr (n, c2)"
        "n \<le> MAX_CONTAINER_ITEMS" "decode_fields U n None [] c2 (d + 1) = Inr (m, c')"
    using step d t by (auto split: if_splits)
  then show ?case
  proof cases
    case (10 n c2 vs)
    from u32_length_Inr [OF c1(1) 10(3)] have c2: "cursor_ok c2" "unread c1 = be_nat 4 n @ unread c2"
      by simp_all
    from decode_items_sound [OF IH 10(5) c2(1)] show ?thesis
      using 10 c1 c2 d by (auto simp: read_ok_def)
  next
    case (11 n c2 m)
    from u32_length_Inr [OF c1(1) 11(3)] have c2: "cursor_ok c2" "unread c1 = be_nat 4 n @ unread c2"
      by simp_all
    from decode_fields_sound [OF IH 11(5) c2(1)] show ?thesis
      using 11 c1 c2 d by (auto simp: read_ok_def)
  next
    case 5
    with decode_stored_float_sound [OF 5(2) c1(1)] c1 d show ?thesis by (auto simp: read_ok_def)
  next
    case 6
    with decode_stored_string_sound [OF 6(2) c1(1)] c1 d show ?thesis by (auto simp: read_ok_def)
  next
    case 7
    with decode_stored_bytes_sound [OF 7(2) c1(1)] c1 d show ?thesis by (auto simp: read_ok_def)
  next
    case 9
    with decode_stored_typed_id_sound [OF 9(2) c1(1)] c1 d show ?thesis by (auto simp: read_ok_def)
  next
    case (4 w)
    with stored_u64_Inr [OF c1(1) 4(3)] c1 d show ?thesis by (auto simp: read_ok_def)
  next
    case (8 w)
    with stored_u64_Inr [OF c1(1) 8(3)] c1 d show ?thesis by (auto simp: read_ok_def)
  qed (use c1 d in \<open>simp_all add: read_ok_def\<close>)
qed

section \<open>The decoder accepts exactly the canonical encodings\<close>

lemma stored_header_read:
  assumes "length (STORED_MAGIC @ STORED_VALUE_FORMAT_VERSION # bs) \<le> STORED_VALUE_MAX_BYTES"
  shows "decode_stored_value U (STORED_MAGIC @ STORED_VALUE_FORMAT_VERSION # bs) =
    bindR (decode_body U (advance 3 (cursor_new (STORED_MAGIC @ STORED_VALUE_FORMAT_VERSION # bs))) 0)
      (\<lambda>(v, c3). if \<not> cursor_is_empty c3 then Inl StoredTrailingBytes else Inr v)"
proof -
  let ?c = "cursor_new (STORED_MAGIC @ STORED_VALUE_FORMAT_VERSION # bs)"
  have ok: "cursor_ok ?c" using assms by (intro cursor_ok_new) (simp add: stored_limits)
  then have "stored_take 2 ?c = Inr (STORED_MAGIC, advance 2 ?c)"
    unfolding stored_take_def
    by (intro cursor_take_append [where ys = "STORED_VALUE_FORMAT_VERSION # bs"])
      (simp_all add: STORED_MAGIC_def)
  moreover have "stored_byte (advance 2 ?c) = Inr (STORED_VALUE_FORMAT_VERSION, advance 1 (advance 2 ?c))"
    unfolding stored_byte_def
    using ok by (intro cursor_byte_Cons [where ys = bs]) (simp_all add: STORED_MAGIC_def)
  ultimately show ?thesis
    using assms by (simp add: decode_stored_value_def)
qed

lemma stored_header_sound:
  assumes "decode_stored_value U inp = Inr v"
  shows "\<exists>bs. inp = STORED_MAGIC @ STORED_VALUE_FORMAT_VERSION # bs \<and> length inp \<le> STORED_VALUE_MAX_BYTES"
proof -
  from assms have size: "length inp \<le> STORED_VALUE_MAX_BYTES"
    by (simp add: decode_stored_value_def)
  then have ok: "cursor_ok (cursor_new inp)" by (intro cursor_ok_new) (simp add: stored_limits)
  from assms obtain c1 c2
    where c1: "cursor_take StoredTruncated 2 (cursor_new inp) = Inr (STORED_MAGIC, c1)"
      and c2: "cursor_byte StoredTruncated c1 = Inr (STORED_VALUE_FORMAT_VERSION, c2)"
    by (auto simp: decode_stored_value_def stored_take_def stored_byte_def split: if_splits)
  from cursor_take_Inr [OF ok c1] have "cursor_ok c1" "inp = STORED_MAGIC @ unread c1" by simp_all
  with cursor_byte_Inr [OF _ c2] have "inp = STORED_MAGIC @ STORED_VALUE_FORMAT_VERSION # unread c2"
    by simp
  with size show ?thesis by blast
qed

lemma decode_stored_value_iff:
  assumes "ulid_laws U"
  shows "decode_stored_value U inp = Inr v \<longleftrightarrow> value_ok v \<and> encode_stored_value U v = Inr inp"
proof
  assume dec: "decode_stored_value U inp = Inr v"
  then obtain bs where inp: "inp = STORED_MAGIC @ STORED_VALUE_FORMAT_VERSION # bs"
    and size: "length inp \<le> STORED_VALUE_MAX_BYTES" using stored_header_sound by blast
  let ?c = "advance 3 (cursor_new inp)"
  have ok: "cursor_ok ?c"
    using size inp by (intro cursor_ok_advance cursor_ok_new) (simp_all add: stored_limits STORED_MAGIC_def)
  have "bindR (decode_body U ?c 0)
      (\<lambda>(v, c3). if \<not> cursor_is_empty c3 then Inl StoredTrailingBytes else Inr v) = Inr v"
    using stored_header_read [of bs U] dec inp size by argo
  then obtain c3 where body: "decode_body U ?c 0 = Inr (v, c3)" and e: "cursor_is_empty c3"
    by (auto split: if_splits)
  from decode_body_sound [OF body ok] e inp
  have "bs = stored_bytes U v" "value_ok v" "shape_ok U 0 v"
    by (auto simp: read_ok_def cursor_is_empty_unread STORED_MAGIC_def)
  with inp size show "value_ok v \<and> encode_stored_value U v = Inr inp"
    by (simp add: encode_stored_value_Inr STORED_MAGIC_def)
next
  assume enc: "value_ok v \<and> encode_stored_value U v = Inr inp"
  then have inp: "inp = STORED_MAGIC @ STORED_VALUE_FORMAT_VERSION # stored_bytes U v"
    and size: "3 + length (stored_bytes U v) \<le> STORED_VALUE_MAX_BYTES"
    and v: "shape_ok U 0 v" "value_ok v" by (simp_all add: encode_stored_value_Inr)
  let ?c = "advance 3 (cursor_new inp)"
  have ok: "cursor_ok ?c"
    using size inp by (intro cursor_ok_advance cursor_ok_new) (simp_all add: stored_limits STORED_MAGIC_def)
  have u: "unread ?c = stored_bytes U v @ []" by (simp add: inp STORED_MAGIC_def)
  have "decode_body U ?c 0 = Inr (v, advance (length (stored_bytes U v)) ?c)"
    using size by (intro decodesD [OF decodes_all [OF assms] ok u v(2,1)]) simp
  moreover have "cursor_is_empty (advance (length (stored_bytes U v)) ?c)"
    by (simp add: cursor_is_empty_def advance_def cursor_new_def inp STORED_MAGIC_def)
  ultimately show "decode_stored_value U inp = Inr v"
    using stored_header_read [of "stored_bytes U v" U] size inp by (simp add: STORED_MAGIC_def)
qed

end
