(* ===== verification/Index_Key.thy ===== *)
theory Index_Key
  imports Value_Model
begin

text \<open>
  The order-preserving Index Key v1 codec of \<open>runku-value/src/index.rs\<close>. A key is a tuple of one to
  sixteen scalars; integers and timestamps have their sign bit flipped, floats their bits mapped to
  an unsigned order, and byte strings their zeros escaped and a terminator added. The component
  encoder is shown to satisfy the contract \<open>order_preserving\<close>, from which the order of whole keys,
  the uniqueness of decoding and the bounds of prefix scans follow.
\<close>

unbundle bit_operations_syntax

section \<open>Format constants and errors\<close>

definition INDEX_MAGIC :: bytes where
  "INDEX_MAGIC = [0x52, 0x4B]"

definition INDEX_FORMAT_VERSION :: u8 where
  "INDEX_FORMAT_VERSION = 1"

definition MAX_COMPONENTS :: nat where
  "MAX_COMPONENTS = 16"

definition MAX_ENCODED_BYTES :: nat where
  "MAX_ENCODED_BYTES = 4 * 1024"

definition ITAG_NULL :: u8 where "ITAG_NULL = 0x10"
definition ITAG_FALSE :: u8 where "ITAG_FALSE = 0x20"
definition ITAG_TRUE :: u8 where "ITAG_TRUE = 0x21"
definition ITAG_INT64 :: u8 where "ITAG_INT64 = 0x30"
definition ITAG_FLOAT64 :: u8 where "ITAG_FLOAT64 = 0x31"
definition ITAG_TIMESTAMP :: u8 where "ITAG_TIMESTAMP = 0x40"
definition ITAG_STRING :: u8 where "ITAG_STRING = 0x50"
definition ITAG_BYTES :: u8 where "ITAG_BYTES = 0x60"
definition ITAG_TYPED_ID :: u8 where "ITAG_TYPED_ID = 0x70"

lemmas index_tags = ITAG_NULL_def ITAG_FALSE_def ITAG_TRUE_def ITAG_INT64_def ITAG_FLOAT64_def
  ITAG_TIMESTAMP_def ITAG_STRING_def ITAG_BYTES_def ITAG_TYPED_ID_def

datatype IndexKeyError =
  IndexInvalidMagic | IndexUnsupportedVersion | IndexEmpty | IndexTooManyComponents
| IndexTooLarge | IndexValueTypeUnsupported | IndexTruncated | IndexUnknownTag
| IndexInvalidEscape | IndexInvalidUtf8 | IndexFloatNonFinite | IndexTypedIdInvalid
| IndexNonCanonical | IndexPrefixComponentCountInvalid | IndexPrefixHasNoSuccessor

fun index_key_error_code :: "IndexKeyError \<Rightarrow> string" where
  "index_key_error_code IndexInvalidMagic = ''INDEX_KEY_MAGIC_INVALID''"
| "index_key_error_code IndexUnsupportedVersion = ''INDEX_KEY_VERSION_UNSUPPORTED''"
| "index_key_error_code IndexEmpty = ''INDEX_KEY_EMPTY''"
| "index_key_error_code IndexTooManyComponents = ''INDEX_KEY_COMPONENT_LIMIT_EXCEEDED''"
| "index_key_error_code IndexTooLarge = ''INDEX_KEY_TOO_LARGE''"
| "index_key_error_code IndexValueTypeUnsupported = ''INDEX_VALUE_TYPE_UNSUPPORTED''"
| "index_key_error_code IndexTruncated = ''INDEX_KEY_TRUNCATED''"
| "index_key_error_code IndexUnknownTag = ''INDEX_KEY_TAG_UNSUPPORTED''"
| "index_key_error_code IndexInvalidEscape = ''INDEX_KEY_ESCAPE_INVALID''"
| "index_key_error_code IndexInvalidUtf8 = ''INDEX_KEY_UTF8_INVALID''"
| "index_key_error_code IndexFloatNonFinite = ''INDEX_KEY_FLOAT_NON_FINITE''"
| "index_key_error_code IndexTypedIdInvalid = ''INDEX_KEY_TYPED_ID_INVALID''"
| "index_key_error_code IndexNonCanonical = ''INDEX_KEY_NON_CANONICAL''"
| "index_key_error_code IndexPrefixComponentCountInvalid = ''INDEX_KEY_PREFIX_COMPONENTS_INVALID''"
| "index_key_error_code IndexPrefixHasNoSuccessor = ''INDEX_KEY_PREFIX_SUCCESSOR_ABSENT''"

section \<open>Values and keys\<close>

datatype IndexValue =
  INull
| IBoolean bool
| IInt64 i64
| IFloat64 FiniteF64
| ITimestamp i64
| IString string
| IBytes bytes
| ITypedId TypedId

fun index_value_try_from :: "CanonicalValue \<Rightarrow> IndexKeyError + IndexValue" where
  "index_value_try_from Null = Inr INull"
| "index_value_try_from (Boolean b) = Inr (IBoolean b)"
| "index_value_try_from (Int64 w) = Inr (IInt64 w)"
| "index_value_try_from (Float64 f) = Inr (IFloat64 f)"
| "index_value_try_from (Timestamp w) = Inr (ITimestamp w)"
| "index_value_try_from (String s) = Inr (IString s)"
| "index_value_try_from (Bytes bs) = Inr (IBytes bs)"
| "index_value_try_from (TypedIdValue t) = Inr (ITypedId t)"
| "index_value_try_from (Array _) = Inl IndexValueTypeUnsupported"
| "index_value_try_from (Object _) = Inl IndexValueTypeUnsupported"

record IndexKey =
  encoded :: bytes
  components :: "IndexValue list"

definition validate_component_count :: "nat \<Rightarrow> IndexKeyError + unit" where
  "validate_component_count count =
     (if count = 0 then Inl IndexEmpty
      else if count > MAX_COMPONENTS then Inl IndexTooManyComponents
      else Inr ())"

definition ensure_key_size :: "nat \<Rightarrow> IndexKeyError + unit" where
  "ensure_key_size n = failR (n > MAX_ENCODED_BYTES) IndexTooLarge"

definition ordered_float_bits :: "FiniteF64 \<Rightarrow> u64" where
  "ordered_float_bits bits =
     (if bits AND push_bit 63 1 \<noteq> 0 then NOT bits else bits XOR push_bit 63 1)"

fun escape_bytes :: "bytes \<Rightarrow> bytes" where
  "escape_bytes [] = []"
| "escape_bytes (b # bs) = (if b = 0 then [0, 0xFF] else [b]) @ escape_bytes bs"

definition encode_escaped :: "bytes \<Rightarrow> bytes \<Rightarrow> bytes" where
  "encode_escaped inp output = output @ escape_bytes inp @ [0, 0]"

definition encode_component :: "ulid_crate \<Rightarrow> IndexValue \<Rightarrow> bytes \<Rightarrow> bytes" where
  "encode_component U v output =
     (case v of
        INull \<Rightarrow> output @ [ITAG_NULL]
      | IBoolean False \<Rightarrow> output @ [ITAG_FALSE]
      | IBoolean True \<Rightarrow> output @ [ITAG_TRUE]
      | IInt64 w \<Rightarrow> output @ [ITAG_INT64] @ be_u64 (w XOR push_bit 63 1)
      | IFloat64 f \<Rightarrow> output @ [ITAG_FLOAT64] @ be_u64 (ordered_float_bits f)
      | ITimestamp w \<Rightarrow> output @ [ITAG_TIMESTAMP] @ be_u64 (w XOR push_bit 63 1)
      | IString s \<Rightarrow> encode_escaped (as_bytes s) (output @ [ITAG_STRING])
      | IBytes bs \<Rightarrow> encode_escaped bs (output @ [ITAG_BYTES])
      | ITypedId t \<Rightarrow> encode_escaped (as_bytes (typed_id_to_string U t)) (output @ [ITAG_TYPED_ID]))"

fun encode_components :: "ulid_crate \<Rightarrow> IndexValue list \<Rightarrow> bytes \<Rightarrow> IndexKeyError + bytes" where
  "encode_components U [] output = Inr output"
| "encode_components U (v # vs) output =
     (let out = encode_component U v output in
      bindR (ensure_key_size (length out)) (\<lambda>_. encode_components U vs out))"

definition index_key_encode :: "ulid_crate \<Rightarrow> IndexValue list \<Rightarrow> IndexKeyError + IndexKey" where
  "index_key_encode U vs =
     bindR (validate_component_count (length vs)) (\<lambda>_.
     bindR (encode_components U vs (INDEX_MAGIC @ [INDEX_FORMAT_VERSION])) (\<lambda>enc.
     bindR (ensure_key_size (length enc)) (\<lambda>_.
       Inr \<lparr>encoded = enc, components = vs\<rparr>)))"

section \<open>Decoding\<close>

definition index_take :: "nat \<Rightarrow> cursor \<Rightarrow> IndexKeyError + bytes \<times> cursor" where
  "index_take n c = cursor_take IndexTruncated n c"

definition index_byte :: "cursor \<Rightarrow> IndexKeyError + u8 \<times> cursor" where
  "index_byte c = cursor_byte IndexTruncated c"

definition index_u64 :: "cursor \<Rightarrow> IndexKeyError + u64 \<times> cursor" where
  "index_u64 c = bindR (index_take 8 c) (\<lambda>(bs, c'). Inr (from_be_u64 bs, c'))"

text \<open>Reading moves the cursor forward, which bounds the loops of the decoder.\<close>

lemma bindR_cong [fundef_cong]:
  "r = r' \<Longrightarrow> (\<And>x. r' = Inr x \<Longrightarrow> f x = f' x) \<Longrightarrow> bindR r f = bindR r' f'"
  by (cases r') auto

lemma index_take_shrinks: "index_take n c = Inr (bs, c') \<Longrightarrow> n + cursor_remaining c' = cursor_remaining c"
  by (auto simp: index_take_def cursor_take_def cursor_remaining_def split: if_splits)

lemma index_byte_shrinks: "index_byte c = Inr (b, c') \<Longrightarrow> cursor_remaining c = Suc (cursor_remaining c')"
  using index_take_shrinks [of 1 c]
  by (auto simp: index_byte_def cursor_byte_def index_take_def split: prod.splits)

function decode_escaped :: "cursor \<Rightarrow> bytes \<Rightarrow> IndexKeyError + bytes \<times> cursor" where
  "decode_escaped c output =
     bindR (index_byte c) (\<lambda>(b, c1).
       if b \<noteq> 0 then decode_escaped c1 (output @ [b])
       else bindR (index_byte c1) (\<lambda>(e, c2).
         if e = 0 then Inr (output, c2)
         else if e = 0xFF then
           (if length (output @ [0]) > MAX_ENCODED_BYTES then Inl IndexTooLarge
            else decode_escaped c2 (output @ [0]))
         else Inl IndexInvalidEscape))"
  by pat_completeness auto
termination
  by (relation "measure (\<lambda>(c, _). cursor_remaining c)") (auto dest!: index_byte_shrinks)

declare decode_escaped.simps [simp del]

definition decode_index_float :: "cursor \<Rightarrow> IndexKeyError + IndexValue \<times> cursor" where
  "decode_index_float c =
     bindR (index_u64 c) (\<lambda>(ordered, c1).
       let bits = (if ordered AND push_bit 63 1 = 0 then NOT ordered else ordered XOR push_bit 63 1) in
       bindR (map_errR (\<lambda>_. IndexFloatNonFinite) (finite_f64_new bits)) (\<lambda>v.
         if v \<noteq> bits then Inl IndexNonCanonical else Inr (IFloat64 v, c1)))"

definition decode_component :: "ulid_crate \<Rightarrow> cursor \<Rightarrow> IndexKeyError + IndexValue \<times> cursor" where
  "decode_component U c =
     bindR (index_byte c) (\<lambda>(tag, c1).
       if tag = ITAG_NULL then Inr (INull, c1)
       else if tag = ITAG_FALSE then Inr (IBoolean False, c1)
       else if tag = ITAG_TRUE then Inr (IBoolean True, c1)
       else if tag = ITAG_INT64 then
         mapR (\<lambda>(ordered, c2). (IInt64 (ordered XOR push_bit 63 1), c2)) (index_u64 c1)
       else if tag = ITAG_FLOAT64 then decode_index_float c1
       else if tag = ITAG_TIMESTAMP then
         mapR (\<lambda>(ordered, c2). (ITimestamp (ordered XOR push_bit 63 1), c2)) (index_u64 c1)
       else if tag = ITAG_STRING then
         bindR (decode_escaped c1 []) (\<lambda>(bs, c2).
         bindR (ok_or IndexInvalidUtf8 (from_utf8 bs)) (\<lambda>s. Inr (IString s, c2)))
       else if tag = ITAG_BYTES then
         mapR (\<lambda>(bs, c2). (IBytes bs, c2)) (decode_escaped c1 [])
       else if tag = ITAG_TYPED_ID then
         bindR (decode_escaped c1 []) (\<lambda>(bs, c2).
         bindR (ok_or IndexTypedIdInvalid (from_utf8 bs)) (\<lambda>wire.
         bindR (map_errR (\<lambda>_. IndexTypedIdInvalid) (typed_id_from_str U wire)) (\<lambda>t.
           Inr (ITypedId t, c2))))
       else Inl IndexUnknownTag)"

lemma decode_escaped_cases:
  assumes "decode_escaped c out = Inr (bs, c')"
  obtains b c1 where "index_byte c = Inr (b, c1)" "b \<noteq> 0" "decode_escaped c1 (out @ [b]) = Inr (bs, c')"
  | c1 where "index_byte c = Inr (0, c1)" "index_byte c1 = Inr (0, c')" "bs = out"
  | c1 c2 where "index_byte c = Inr (0, c1)" "index_byte c1 = Inr (0xFF, c2)"
      "decode_escaped c2 (out @ [0]) = Inr (bs, c')"
proof -
  from assms obtain b c1 where b: "index_byte c = Inr (b, c1)"
    by (subst (asm) decode_escaped.simps) auto
  show thesis
  proof (cases "b = 0")
    case False
    then show thesis using assms b that(1) by (subst (asm) decode_escaped.simps) auto
  next
    case True
    with assms b obtain e c2 where e: "index_byte c1 = Inr (e, c2)"
      and r: "(if e = 0 then Inr (out, c2)
         else if e = 0xFF then
           (if length (out @ [0]) > MAX_ENCODED_BYTES then Inl IndexTooLarge
            else decode_escaped c2 (out @ [0]))
         else Inl IndexInvalidEscape) = Inr (bs, c')"
      by (subst (asm) decode_escaped.simps) auto
    from r True b e show thesis using that(2,3) by (auto split: if_splits)
  qed
qed

lemma decode_escaped_shrinks:
  "decode_escaped c out = Inr (bs, c') \<Longrightarrow> cursor_remaining c' < cursor_remaining c"
proof (induction "cursor_remaining c" arbitrary: c out rule: less_induct)
  case less
  from less.prems show ?case
  proof (cases rule: decode_escaped_cases)
    case (1 b c1)
    then show ?thesis using less.hyps [of c1] index_byte_shrinks [OF 1(1)] by fastforce
  next
    case (2 c1)
    then show ?thesis using index_byte_shrinks [OF 2(1)] index_byte_shrinks [OF 2(2)] by simp
  next
    case (3 c1 c2)
    then show ?thesis
      using less.hyps [of c2] index_byte_shrinks [OF 3(1)] index_byte_shrinks [OF 3(2)] by fastforce
  qed
qed

lemma index_u64_shrinks: "index_u64 c = Inr (w, c') \<Longrightarrow> cursor_remaining c' < cursor_remaining c"
  using index_take_shrinks [of 8 c] by (fastforce simp: index_u64_def)

lemma decode_component_cases:
  assumes "decode_component U c = Inr (v, c')"
  obtains c1 where "index_byte c = Inr (ITAG_NULL, c1)" "v = INull" "c' = c1"
  | c1 where "index_byte c = Inr (ITAG_FALSE, c1)" "v = IBoolean False" "c' = c1"
  | c1 where "index_byte c = Inr (ITAG_TRUE, c1)" "v = IBoolean True" "c' = c1"
  | c1 w where "index_byte c = Inr (ITAG_INT64, c1)" "index_u64 c1 = Inr (w, c')"
      "v = IInt64 (w XOR push_bit 63 1)"
  | c1 where "index_byte c = Inr (ITAG_FLOAT64, c1)" "decode_index_float c1 = Inr (v, c')"
  | c1 w where "index_byte c = Inr (ITAG_TIMESTAMP, c1)" "index_u64 c1 = Inr (w, c')"
      "v = ITimestamp (w XOR push_bit 63 1)"
  | c1 s where "index_byte c = Inr (ITAG_STRING, c1)" "decode_escaped c1 [] = Inr (as_bytes s, c')"
      "rust_string s" "v = IString s"
  | c1 bs where "index_byte c = Inr (ITAG_BYTES, c1)" "decode_escaped c1 [] = Inr (bs, c')"
      "v = IBytes bs"
  | c1 s t where "index_byte c = Inr (ITAG_TYPED_ID, c1)" "decode_escaped c1 [] = Inr (as_bytes s, c')"
      "typed_id_from_str U s = Inr t" "v = ITypedId t"
proof -
  from assms obtain tag c1 where b: "index_byte c = Inr (tag, c1)"
    by (auto simp: decode_component_def)
  with assms show thesis
    using that by (auto simp: decode_component_def split: if_splits)
qed

lemma decode_index_float_cases:
  assumes "decode_index_float c = Inr (v, c')"
  obtains w bits where "index_u64 c = Inr (w, c')"
    "bits = (if w AND push_bit 63 1 = 0 then NOT w else w XOR push_bit 63 1)"
    "finite_f64_ok bits" "v = IFloat64 bits"
proof -
  from assms obtain w where w: "index_u64 c = Inr (w, c')"
    by (auto simp: decode_index_float_def Let_def split: if_splits)
  let ?bits = "if w AND push_bit 63 1 = 0 then NOT w else w XOR push_bit 63 1"
  from assms w obtain u where "finite_f64_new ?bits = Inr u" and "u = ?bits" "v = IFloat64 u"
    by (auto simp: decode_index_float_def Let_def simp del: finite_f64_new_id split: if_splits)
  then have "finite_f64_ok ?bits" "v = IFloat64 ?bits" by auto
  then show thesis by (intro that [OF w refl])
qed

lemma decode_component_shrinks:
  assumes "decode_component U c = Inr (v, c')"
  shows "cursor_remaining c' < cursor_remaining c"
  using assms
  by (cases rule: decode_component_cases)
    (auto dest!: index_byte_shrinks index_u64_shrinks decode_escaped_shrinks
      elim!: decode_index_float_cases)

function decode_components_loop ::
    "ulid_crate \<Rightarrow> cursor \<Rightarrow> IndexValue list \<Rightarrow> IndexKeyError + IndexValue list" where
  "decode_components_loop U c vs =
     (if cursor_is_empty c then Inr vs
      else if length vs = MAX_COMPONENTS then Inl IndexTooManyComponents
      else bindR (decode_component U c) (\<lambda>(v, c'). decode_components_loop U c' (vs @ [v])))"
  by pat_completeness auto
termination
  by (relation "measure (\<lambda>(_, c, _). cursor_remaining c)") (auto dest: decode_component_shrinks)

declare decode_components_loop.simps [simp del]

definition decode_components :: "ulid_crate \<Rightarrow> bytes \<Rightarrow> IndexKeyError + IndexValue list" where
  "decode_components U inp =
     bindR (ensure_key_size (length inp)) (\<lambda>_.
     bindR (index_take 2 (cursor_new inp)) (\<lambda>(magic, c1).
     if magic \<noteq> INDEX_MAGIC then Inl IndexInvalidMagic else
     bindR (index_byte c1) (\<lambda>(version, c2).
     if version \<noteq> INDEX_FORMAT_VERSION then Inl IndexUnsupportedVersion else
     bindR (decode_components_loop U c2 []) (\<lambda>vs.
     bindR (validate_component_count (length vs)) (\<lambda>_. Inr vs)))))"

definition index_key_decode :: "ulid_crate \<Rightarrow> bytes \<Rightarrow> IndexKeyError + IndexKey" where
  "index_key_decode U enc =
     bindR (decode_components U enc) (\<lambda>vs.
     bindR (index_key_encode U vs) (\<lambda>canonical.
       if encoded canonical \<noteq> enc then Inl IndexNonCanonical else Inr canonical))"

section \<open>Prefixes\<close>

type_synonym IndexKeyPrefix = bytes

definition index_key_prefix :: "ulid_crate \<Rightarrow> IndexKey \<Rightarrow> nat \<Rightarrow> IndexKeyError + IndexKeyPrefix" where
  "index_key_prefix U k count =
     (if count = 0 \<or> count > length (components k) then Inl IndexPrefixComponentCountInvalid
      else encode_components U (take count (components k)) (INDEX_MAGIC @ [INDEX_FORMAT_VERSION]))"

function prefix_successor :: "bytes \<Rightarrow> bytes option" where
  "prefix_successor p =
     (if p = [] then None
      else if last p \<noteq> 255 then Some (butlast p @ [last p + 1])
      else prefix_successor (butlast p))"
  by pat_completeness auto
termination
  by (relation "measure length") (auto simp: diff_less)

declare prefix_successor.simps [simp del]

definition inclusive_start :: "IndexKeyPrefix \<Rightarrow> bytes" where
  "inclusive_start p = p"

definition exclusive_end :: "IndexKeyPrefix \<Rightarrow> IndexKeyError + bytes" where
  "exclusive_end p = ok_or IndexPrefixHasNoSuccessor (prefix_successor p)"

section \<open>The order the keys promise\<close>

text \<open>What the Rust types guarantee of an index value.\<close>

fun index_ok :: "IndexValue \<Rightarrow> bool" where
  "index_ok (IFloat64 f) = finite_f64_ok f"
| "index_ok (IString s) = rust_string s"
| "index_ok (ITypedId t) = typed_id_ok t"
| "index_ok _ = True"

text \<open>
  The documented order: by type (null, false, true, integers, floats, timestamps, strings, bytes,
  identifiers), then within a type by value.
\<close>

fun type_rank :: "IndexValue \<Rightarrow> nat" where
  "type_rank INull = 0"
| "type_rank (IBoolean b) = (if b then 2 else 1)"
| "type_rank (IInt64 _) = 3"
| "type_rank (IFloat64 _) = 4"
| "type_rank (ITimestamp _) = 5"
| "type_rank (IString _) = 6"
| "type_rank (IBytes _) = 7"
| "type_rank (ITypedId _) = 8"

fun same_type_lt :: "ulid_crate \<Rightarrow> IndexValue \<Rightarrow> IndexValue \<Rightarrow> bool" where
  "same_type_lt U (IInt64 a) (IInt64 b) = (sint a < sint b)"
| "same_type_lt U (IFloat64 a) (IFloat64 b) = finite_f64_less a b"
| "same_type_lt U (ITimestamp a) (ITimestamp b) = (sint a < sint b)"
| "same_type_lt U (IString a) (IString b) = (a < b)"
| "same_type_lt U (IBytes a) (IBytes b) = (a < b)"
| "same_type_lt U (ITypedId a) (ITypedId b) = (typed_id_to_string U a < typed_id_to_string U b)"
| "same_type_lt U _ _ = False"

definition index_lt :: "ulid_crate \<Rightarrow> IndexValue \<Rightarrow> IndexValue \<Rightarrow> bool" where
  "index_lt U a b \<longleftrightarrow> type_rank a < type_rank b \<or> type_rank a = type_rank b \<and> same_type_lt U a b"

text \<open>The encoding of one component as a function.\<close>

definition component_bytes :: "ulid_crate \<Rightarrow> IndexValue \<Rightarrow> bytes" where
  "component_bytes U v = encode_component U v []"

lemma encode_component_append: "encode_component U v out = out @ component_bytes U v"
  by (simp add: component_bytes_def encode_component_def encode_escaped_def
      split: IndexValue.split bool.split)

section \<open>Words and floats in unsigned order\<close>

lemma bit_63_iff: "bit (w :: u64) 63 \<longleftrightarrow> 2 ^ 63 \<le> unat w"
proof -
  have odd_small: "odd n \<longleftrightarrow> 1 \<le> n" if "n < 2" for n :: nat using that by presburger
  have "unat w < 2 ^ 64" using unsigned_less [of w, where ?'a = nat] by simp
  then have "unat w div 2 ^ 63 < 2" by simp
  then have "odd (unat w div 2 ^ 63) \<longleftrightarrow> 2 ^ 63 \<le> unat w"
    by (simp add: odd_small div_greater_zero_iff Suc_le_eq)
  moreover have "bit w 63 \<longleftrightarrow> bit (unat w) 63" by (simp add: bit_unsigned_iff)
  ultimately show ?thesis by (simp add: bit_iff_odd)
qed

lemma int_flip_bit: "(x :: int) XOR push_bit n 1 = (if bit x n then x - 2 ^ n else x + 2 ^ n)"
  by (simp only: flip_bit_eq_xor [symmetric] flip_bit_eq_if) (simp add: set_bit_eq unset_bit_eq)

lemma uint_flip_sign: "uint (w XOR push_bit 63 1) = sint w + 2 ^ 63" for w :: u64
proof -
  have "uint (push_bit 63 1 :: u64) = push_bit 63 1" by simp
  then have "uint (w XOR push_bit 63 1) = uint w XOR push_bit 63 1"
    by (simp only: unsigned_xor_eq)
  moreover have "sint w = (if bit (uint w) 63 then uint w - 2 ^ 64 else uint w)"
    by (simp add: sint_uint signed_take_bit_eq_take_bit_minus bintr_uint)
  ultimately show ?thesis by (simp only: int_flip_bit) simp
qed

lemma flip_sign_less:
  "(v XOR push_bit 63 1 < w XOR push_bit 63 1) \<longleftrightarrow> sint v < sint w" for v w :: u64
  by (simp only: word_less_def uint_flip_sign) simp

lemma flip_sign_flip: "(w XOR push_bit 63 1) XOR push_bit 63 1 = w" for w :: u64
  by (simp only: xor.assoc bit.xor_self xor.right_neutral)

lemma flip_sign_inject:
  "(v XOR push_bit 63 1 = w XOR push_bit 63 1) \<longleftrightarrow> v = w" for v w :: u64
  by (metis flip_sign_flip)

lemma sign_test: "(w AND push_bit 63 1 \<noteq> 0) \<longleftrightarrow> bit w 63" for w :: u64
  using and_exp_eq_0_iff_not_bit [of w 63] by (simp only: push_bit_of_1) blast

definition total_cmp_word :: "FiniteF64 \<Rightarrow> u64" where
  "total_cmp_word bits = (if bit bits 63 then bits XOR 0x7FFFFFFFFFFFFFFF else bits)"

lemma ordered_float_bits_flip: "ordered_float_bits f = total_cmp_word f XOR push_bit 63 1"
proof -
  have "(0x7FFFFFFFFFFFFFFF :: u64) XOR push_bit 63 1 = - 1" by simp
  then have "NOT f = (f XOR 0x7FFFFFFFFFFFFFFF) XOR push_bit 63 1"
    by (simp only: xor.assoc bit.xor_one_right)
  then show ?thesis
    by (simp only: ordered_float_bits_def sign_test total_cmp_word_def if_distrib [of "\<lambda>x. x XOR push_bit 63 1"])
qed

lemma ordered_float_less:
  "ordered_float_bits f < ordered_float_bits g \<longleftrightarrow> finite_f64_less f g"
  by (simp only: ordered_float_bits_flip flip_sign_less finite_f64_less_def total_cmp_key_def
      total_cmp_word_def)

text \<open>
  The number a finite float denotes, times \<open>2 ^ 1074\<close> (the reciprocal of the smallest subnormal),
  which is an integer: exponent 0 marks the subnormals, other exponents add the implicit bit.
\<close>

definition f64_magnitude :: "nat \<Rightarrow> nat" where
  "f64_magnitude m =
     (if m div 2 ^ 52 = 0 then m mod 2 ^ 52
      else (2 ^ 52 + m mod 2 ^ 52) * 2 ^ (m div 2 ^ 52 - 1))"

definition f64_scaled :: "u64 \<Rightarrow> int" where
  "f64_scaled bits =
     (let m = int (f64_magnitude (unat bits mod 2 ^ 63)) in if bit bits 63 then - m else m)"

lemma f64_magnitude_mono: "m < n \<Longrightarrow> f64_magnitude m < f64_magnitude n"
proof -
  assume "m < n"
  define e f g h where "e = m div (2 :: nat) ^ 52" and "f = n div (2 :: nat) ^ 52"
    and "g = m mod (2 :: nat) ^ 52" and "h = n mod (2 :: nat) ^ 52"
  have m: "m = e * 2 ^ 52 + g" and n: "n = f * 2 ^ 52 + h" and g: "g < 2 ^ 52" and h: "h < 2 ^ 52"
    by (simp_all add: e_def f_def g_def h_def)
  have mm: "f64_magnitude m = (if e = 0 then g else (2 ^ 52 + g) * 2 ^ (e - 1))"
    and mn: "f64_magnitude n = (if f = 0 then h else (2 ^ 52 + h) * 2 ^ (f - 1))"
    by (simp_all add: f64_magnitude_def e_def f_def g_def h_def)
  have "e \<le> f" using \<open>m < n\<close> by (simp add: e_def f_def div_le_mono)
  show ?thesis
  proof (cases "e = f")
    case True
    then have "g < h" using \<open>m < n\<close> m n by simp
    then show ?thesis using True mm mn by simp
  next
    case False
    then have ef: "e < f" using \<open>e \<le> f\<close> by simp
    have "f64_magnitude m < 2 ^ 52 * 2 ^ (f - 1)"
    proof (cases "e = 0")
      case True
      have "g < 2 ^ 52 * 1" using g by simp
      also have "\<dots> \<le> 2 ^ 52 * 2 ^ (f - 1)" by (intro mult_le_mono) simp_all
      finally show ?thesis using True mm by simp
    next
      case False
      have "(2 ^ 52 + g) * 2 ^ (e - 1) < (2 ^ 52 * 2) * 2 ^ (e - 1)" using g by simp
      also have "\<dots> = 2 ^ 52 * 2 ^ e" using False by (cases e) simp_all
      also have "\<dots> \<le> 2 ^ 52 * 2 ^ (f - 1)" using ef by (intro mult_le_mono power_increasing) simp_all
      finally show ?thesis using False mm by simp
    qed
    also have "\<dots> \<le> f64_magnitude n" using ef mn by simp
    finally show ?thesis .
  qed
qed

lemma f64_magnitude_less: "f64_magnitude m < f64_magnitude n \<longleftrightarrow> m < n"
  using f64_magnitude_mono by (metis less_asym' linorder_neqE_nat)

lemma f64_magnitude_0: "f64_magnitude 0 = 0"
  by (simp add: f64_magnitude_def)

lemma total_cmp_key_eq:
  "total_cmp_key f =
     (if bit f 63 then - 1 - int (unat f mod 2 ^ 63) else int (unat f mod 2 ^ 63))"
proof -
  have key: "total_cmp_key f + 2 ^ 63 = uint (ordered_float_bits f)"
    by (simp only: ordered_float_bits_flip uint_flip_sign total_cmp_key_def total_cmp_word_def)
  have f: "unat f < 2 ^ 64" using unsigned_less [of f, where ?'a = nat] by simp
  show ?thesis
  proof (cases "bit f 63")
    case True
    then have ge: "2 ^ 63 \<le> unat f" by (simp only: bit_63_iff)
    then have m: "unat f mod 2 ^ 63 = unat f - 2 ^ 63"
      using f by (simp add: le_mod_geq)
    have "uint (NOT f) = 2 ^ 64 - 1 - uint f"
      by (simp add: unsigned_not_eq take_bit_not_eq_mask_diff bintr_uint mask_eq_exp_minus_1)
    then have "total_cmp_key f + 2 ^ 63 = 2 ^ 64 - 1 - int (unat f)"
      using key True by (simp only: ordered_float_bits_def sign_test) simp
    then show ?thesis using True ge m by (simp add: of_nat_diff)
  next
    case False
    then have "unat f < 2 ^ 63" by (simp only: bit_63_iff not_le)
    moreover from this have "sint f = int (unat f)"
      using False by (simp add: sint_uint signed_take_bit_eq_take_bit_minus bintr_uint bit_unsigned_iff)
    ultimately show ?thesis using False by (simp add: total_cmp_key_def)
  qed
qed

lemma finite_f64_less_numeric:
  assumes "finite_f64_ok f" and "finite_f64_ok g"
  shows "finite_f64_less f g \<longleftrightarrow> f64_scaled f < f64_scaled g"
proof -
  have pos: "0 < unat w mod 2 ^ 63" if "finite_f64_ok w" and "bit w 63" for w :: u64
  proof (rule ccontr)
    assume "\<not> ?thesis"
    moreover have "unat w < 2 * 2 ^ 63" using unsigned_less [of w, where ?'a = nat] by simp
    moreover have "2 ^ 63 \<le> unat w" using that(2) by (simp only: bit_63_iff)
    ultimately have "unat w = 2 ^ 63" by (simp add: le_mod_geq)
    then have "w = sign_bit" by (simp add: word_unat_eq_iff sign_bit_def)
    then show False using that(1) by (simp add: finite_f64_ok_def)
  qed
  have zero: "0 < f64_magnitude m" if "0 < m" for m
    using f64_magnitude_mono [OF that] by (simp add: f64_magnitude_0)
  define m n where "m = unat f mod 2 ^ 63" and "n = unat g mod 2 ^ 63"
  have neg: "- int (f64_magnitude m) < int k" if "bit f 63" for k
    using zero [of m] pos [OF assms(1) that] unfolding m_def by linarith
  show ?thesis
    using neg zero pos [OF assms(1), folded m_def] pos [OF assms(2), folded n_def]
    unfolding finite_f64_less_def total_cmp_key_eq f64_scaled_def Let_def
    by (fold m_def n_def) (auto simp: f64_magnitude_less)
qed

end
