(* ===== verification/Index_Order.thy ===== *)
theory Index_Order
  imports Index_Key Ulid_Instance
begin

text \<open>
  The Index Key v1 codec keeps the order of values. Escaped byte strings and single components
  satisfy the contract \<open>order_preserving\<close>; whole keys are then ordered as their tuples, decoding
  inverts encoding, and the bounds of a prefix scan select exactly the keys that share the prefix.
\<close>

unbundle bit_operations_syntax

section \<open>Escaped byte strings\<close>

lemma escape_bytes_less:
  "x < y \<Longrightarrow> escape_bytes x @ 0 # 0 # r < escape_bytes y @ 0 # 0 # s"
proof (induction x arbitrary: y)
  case Nil
  then obtain c ys where "y = c # ys" by (cases y) auto
  then show ?case by (simp add: word_neq_0_conv)
next
  case (Cons a xs)
  then obtain c ys where y: "y = c # ys" by (cases y) auto
  with Cons.prems consider "a < c" | "a = c" "xs < ys" by auto
  then show ?case
  proof cases
    case 1
    then show ?thesis using y by (auto simp: word_neq_0_conv)
  next
    case 2
    then show ?thesis using y Cons.IH by simp
  qed
qed

interpretation escaped: order_preserving "\<lambda>bs. escape_bytes bs @ [0, 0]" "\<lambda>_. True" "(<)"
proof
  fix x y :: bytes and r s
  assume "x < y"
  then show "(escape_bytes x @ [0, 0]) @ r < (escape_bytes y @ [0, 0]) @ s"
    by (simp add: escape_bytes_less)
qed auto

section \<open>Components\<close>

fun component_tag :: "IndexValue \<Rightarrow> u8" where
  "component_tag INull = ITAG_NULL"
| "component_tag (IBoolean b) = (if b then ITAG_TRUE else ITAG_FALSE)"
| "component_tag (IInt64 _) = ITAG_INT64"
| "component_tag (IFloat64 _) = ITAG_FLOAT64"
| "component_tag (ITimestamp _) = ITAG_TIMESTAMP"
| "component_tag (IString _) = ITAG_STRING"
| "component_tag (IBytes _) = ITAG_BYTES"
| "component_tag (ITypedId _) = ITAG_TYPED_ID"

fun component_body :: "ulid_crate \<Rightarrow> IndexValue \<Rightarrow> bytes" where
  "component_body U (IInt64 w) = be_u64 (w XOR push_bit 63 1)"
| "component_body U (IFloat64 f) = be_u64 (ordered_float_bits f)"
| "component_body U (ITimestamp w) = be_u64 (w XOR push_bit 63 1)"
| "component_body U (IString s) = escape_bytes (as_bytes s) @ [0, 0]"
| "component_body U (IBytes bs) = escape_bytes bs @ [0, 0]"
| "component_body U (ITypedId t) = escape_bytes (as_bytes (typed_id_to_string U t)) @ [0, 0]"
| "component_body U _ = []"

lemma component_bytes_eq: "component_bytes U v = component_tag v # component_body U v"
  by (simp add: component_bytes_def encode_component_def encode_escaped_def
      split: IndexValue.split bool.split)

lemma component_tag_less: "component_tag a < component_tag b \<longleftrightarrow> type_rank a < type_rank b"
  by (cases a; cases b) (simp_all add: index_tags)

lemma component_tag_eq: "component_tag a = component_tag b \<longleftrightarrow> type_rank a = type_rank b"
  using component_tag_less [of a b] component_tag_less [of b a] by (metis linorder_neq_iff)

lemma component_body_less:
  assumes "same_type_lt U a b"
  shows "component_body U a @ r < component_body U b @ s"
  using assms
  by (cases rule: same_type_lt.elims(2))
    (simp_all add: be_u64.lt_less flip_sign_less ordered_float_less escape_bytes_less
      del: push_bit_of_1 push_bit_numeral_minus_1)

lemma unorder_order:
  "w = ordered_float_bits f \<longleftrightarrow> f = (if w AND push_bit 63 1 = 0 then NOT w else w XOR push_bit 63 1)"
proof -
  have flip: "bit (v XOR push_bit 63 1) 63 \<longleftrightarrow> \<not> bit v 63" for v :: u64
    by (simp add: bit_xor_iff bit_push_bit_iff)
  have test: "v AND push_bit 63 1 = 0 \<longleftrightarrow> \<not> bit v 63" for v :: u64
    using sign_test by blast
  have inv: "bit (NOT v) 63 \<longleftrightarrow> \<not> bit v 63" for v :: u64 by (simp add: bit_not_iff)
  show ?thesis
    unfolding ordered_float_bits_def test using flip inv flip_sign_flip by (metis bit.double_compl)
qed

lemma ordered_float_bits_inject: "ordered_float_bits f = ordered_float_bits g \<longleftrightarrow> f = g"
  using unorder_order by metis

lemma finite_f64_less_total: "f \<noteq> g \<Longrightarrow> finite_f64_less f g \<or> finite_f64_less g f"
  using ordered_float_bits_inject [of f g]
  by (auto simp: ordered_float_less [symmetric] linorder_neq_iff)

lemma sint_total: "a \<noteq> b \<Longrightarrow> sint a < sint b \<or> sint b < sint a" for a b :: u64
  by (metis linorder_neq_iff signed_word_eqI)

lemma index_lt_total:
  assumes "ulid_laws U" and "index_ok a" and "index_ok b" and "a \<noteq> b"
  shows "index_lt U a b \<or> index_lt U b a"
proof (cases "type_rank a = type_rank b")
  case False
  then show ?thesis by (auto simp: index_lt_def)
next
  case True
  have ids: "typed_id_to_string U x \<noteq> typed_id_to_string U y"
    if "a = ITypedId x" "b = ITypedId y" for x y
    using typed_id_to_string_inject [OF assms(1)] assms(2-4) that by auto
  have "same_type_lt U a b \<or> same_type_lt U b a"
    using True assms(4) ids
    by (cases a; cases b) (auto simp: sint_total finite_f64_less_total linorder_neq_iff split: if_splits)
  with True show ?thesis by (auto simp: index_lt_def)
qed

lemma component_order_preserving:
  assumes "ulid_laws U"
  shows "order_preserving (component_bytes U) index_ok (index_lt U)"
proof
  fix x y
  assume "index_ok x" "index_ok y" "x \<noteq> y"
  then show "index_lt U x y \<or> index_lt U y x" using index_lt_total [OF assms] by blast
next
  fix x y r s
  assume "index_lt U x y"
  then show "component_bytes U x @ r < component_bytes U y @ s"
    by (auto simp: index_lt_def component_bytes_eq component_tag_less component_tag_eq component_body_less)
qed (simp add: component_bytes_eq)

section \<open>Encoding a tuple\<close>

definition index_header :: bytes where
  "index_header = INDEX_MAGIC @ [INDEX_FORMAT_VERSION]"

abbreviation tuple_bytes :: "ulid_crate \<Rightarrow> IndexValue list \<Rightarrow> bytes" where
  "tuple_bytes U vs \<equiv> concat (map (component_bytes U) vs)"

lemma encode_components_eq:
  "encode_components U vs out =
     (if vs = [] \<or> length (out @ tuple_bytes U vs) \<le> MAX_ENCODED_BYTES
      then Inr (out @ tuple_bytes U vs) else Inl IndexTooLarge)"
  by (induction vs arbitrary: out)
    (auto simp: Let_def encode_component_append ensure_key_size_def failR_def)

lemma index_key_encode_Inr:
  "index_key_encode U vs = Inr k \<longleftrightarrow>
     vs \<noteq> [] \<and> length vs \<le> MAX_COMPONENTS \<and>
     length (index_header @ tuple_bytes U vs) \<le> MAX_ENCODED_BYTES \<and>
     k = \<lparr>encoded = index_header @ tuple_bytes U vs, components = vs\<rparr>"
  by (auto simp: index_key_encode_def validate_component_count_def encode_components_eq
      index_header_def ensure_key_size_def split: if_splits)

section \<open>Decoding inverts encoding\<close>

text \<open>Reading \<open>bs\<close> from the cursor \<open>c\<close> leads to the cursor \<open>c'\<close>.\<close>

definition reads :: "cursor \<Rightarrow> bytes \<Rightarrow> cursor \<Rightarrow> bool" where
  "reads c bs c' \<longleftrightarrow> cursor_ok c \<and> cursor_ok c' \<and> unread c = bs @ unread c'"

lemma reads_Nil [simp]: "reads c [] c \<longleftrightarrow> cursor_ok c"
  by (auto simp: reads_def)

lemma reads_append: "reads c xs d \<Longrightarrow> reads d ys e \<Longrightarrow> reads c (xs @ ys) e"
  by (simp add: reads_def)

lemma reads_Cons: "reads c [x] d \<Longrightarrow> reads d ys e \<Longrightarrow> reads c (x # ys) e"
  by (simp add: reads_def)

lemma index_byte_reads: "cursor_ok c \<Longrightarrow> index_byte c = Inr (b, c') \<Longrightarrow> reads c [b] c'"
  using cursor_byte_Inr [of c IndexTruncated b c'] by (simp add: index_byte_def reads_def)

lemma index_u64_reads: "cursor_ok c \<Longrightarrow> index_u64 c = Inr (w, c') \<Longrightarrow> reads c (be_u64 w) c'"
proof -
  assume c: "cursor_ok c" and "index_u64 c = Inr (w, c')"
  then obtain bs where bs: "cursor_take IndexTruncated 8 c = Inr (bs, c')" and w: "w = from_be_u64 bs"
    by (auto simp: index_u64_def index_take_def)
  from cursor_take_Inr [OF c bs] have "be_u64 w = bs" by (simp add: w)
  then show ?thesis using cursor_take_Inr [OF c bs] c by (simp only: reads_def)
qed

lemma index_byte_Cons:
  assumes "cursor_ok c" and "unread c = b # xs"
  shows "\<exists>c'. index_byte c = Inr (b, c') \<and> cursor_ok c' \<and> unread c' = xs"
  using assms by (intro exI [of _ "advance 1 c"]) (simp add: index_byte_def)

lemma index_u64_append:
  assumes "cursor_ok c" and "unread c = be_u64 w @ xs"
  shows "\<exists>c'. index_u64 c = Inr (w, c') \<and> cursor_ok c' \<and> unread c' = xs"
proof -
  have "cursor_take IndexTruncated 8 c = Inr (be_u64 w, advance 8 c)"
    using assms by simp
  then show ?thesis
    using assms by (intro exI [of _ "advance 8 c"]) (simp add: index_u64_def index_take_def)
qed

lemma decode_escaped_escape:
  assumes "cursor_ok c" and "unread c = escape_bytes bs @ 0 # 0 # r"
    and "length out + length bs \<le> MAX_ENCODED_BYTES"
  shows "\<exists>c'. decode_escaped c out = Inr (out @ bs, c') \<and> cursor_ok c' \<and> unread c' = r"
  using assms
proof (induction bs arbitrary: c out)
  case Nil
  then obtain c1 where c1: "index_byte c = Inr (0, c1)" "cursor_ok c1" "unread c1 = 0 # r"
    using index_byte_Cons [of c 0 "0 # r"] by auto
  then obtain c2 where "index_byte c1 = Inr (0, c2)" "cursor_ok c2" "unread c2 = r"
    using index_byte_Cons by blast
  with c1 show ?case by (subst decode_escaped.simps) simp
next
  case (Cons b bs)
  let ?rest = "escape_bytes bs @ 0 # 0 # r"
  show ?case
  proof (cases "b = 0")
    case True
    with Cons.prems obtain c1 where c1: "index_byte c = Inr (0, c1)" "cursor_ok c1" "unread c1 = 0xFF # ?rest"
      using index_byte_Cons [of c 0 "0xFF # ?rest"] by auto
    then obtain c2 where c2: "index_byte c1 = Inr (0xFF, c2)" "cursor_ok c2" "unread c2 = ?rest"
      using index_byte_Cons by blast
    have "decode_escaped c out = decode_escaped c2 (out @ [0])"
      using c1 c2 Cons.prems(3) by (subst decode_escaped.simps) simp
    then show ?thesis using Cons.IH [OF c2(2,3), of "out @ [0]"] Cons.prems(3) True by simp
  next
    case False
    with Cons.prems obtain c1 where c1: "index_byte c = Inr (b, c1)" "cursor_ok c1" "unread c1 = ?rest"
      using index_byte_Cons [of c b ?rest] by auto
    have "decode_escaped c out = decode_escaped c1 (out @ [b])"
      using c1 False by (subst decode_escaped.simps) simp
    then show ?thesis using Cons.IH [OF c1(2,3), of "out @ [b]"] Cons.prems(3) by simp
  qed
qed

lemma decode_escaped_reads:
  assumes "cursor_ok c" and "decode_escaped c out = Inr (bs, c')"
  shows "\<exists>xs. bs = out @ xs \<and> reads c (escape_bytes xs @ [0, 0]) c'"
  using assms
proof (induction "cursor_remaining c" arbitrary: c out rule: less_induct)
  case less
  from less.prems(2) show ?case
  proof (cases rule: decode_escaped_cases)
    case (1 b c1)
    note r = index_byte_reads [OF less.prems(1) 1(1)]
    then obtain xs where xs: "bs = (out @ [b]) @ xs" "reads c1 (escape_bytes xs @ [0, 0]) c'"
      using less.hyps [of c1 "out @ [b]"] 1 index_byte_shrinks [OF 1(1)] by (auto simp: reads_def)
    with r 1(2) show ?thesis by (intro exI [of _ "b # xs"]) (simp add: reads_Cons)
  next
    case (2 c1)
    note r = index_byte_reads [OF less.prems(1) 2(1)]
    then have "reads c1 [0] c'" using index_byte_reads [OF _ 2(2)] by (simp add: reads_def)
    with r 2(3) show ?thesis by (intro exI [of _ "[]"]) (simp add: reads_Cons)
  next
    case (3 c1 c2)
    note r = index_byte_reads [OF less.prems(1) 3(1)]
    then have r': "reads c1 [0xFF] c2" using index_byte_reads [OF _ 3(2)] by (simp add: reads_def)
    then obtain xs where xs: "bs = (out @ [0]) @ xs" "reads c2 (escape_bytes xs @ [0, 0]) c'"
      using less.hyps [of c2 "out @ [0]"] 3 index_byte_shrinks [OF 3(1)] index_byte_shrinks [OF 3(2)]
      by (auto simp: reads_def)
    with r r' show ?thesis by (intro exI [of _ "0 # xs"]) (simp add: reads_Cons)
  qed
qed

lemma decode_escaped_reads_Nil:
  assumes "cursor_ok c" and "decode_escaped c [] = Inr (bs, c')"
  shows "reads c (escape_bytes bs @ [0, 0]) c'"
  using decode_escaped_reads [OF assms] by auto

lemma decode_index_float_order:
  assumes "cursor_ok c" and "unread c = be_u64 (ordered_float_bits f) @ r" and "finite_f64_ok f"
  shows "\<exists>c'. decode_index_float c = Inr (IFloat64 f, c') \<and> cursor_ok c' \<and> unread c' = r"
proof -
  let ?w = "ordered_float_bits f"
  obtain c' where c': "index_u64 c = Inr (?w, c')" "cursor_ok c'" "unread c' = r"
    using index_u64_append [OF assms(1,2)] by blast
  have "(if ?w AND push_bit 63 1 = 0 then NOT ?w else ?w XOR push_bit 63 1) = f"
    using unorder_order [of ?w f] by simp
  moreover have "finite_f64_new f = Inr f" using assms(3) by simp
  ultimately show ?thesis
    using c' by (auto simp: decode_index_float_def Let_def simp del: bindR_Inr finite_f64_new_id)
qed

lemma length_escape_bytes: "length bs \<le> length (escape_bytes bs)"
  by (induction bs) auto

lemma decode_component_encode:
  assumes "ulid_laws U" and "index_ok v" and "cursor_ok c" and "unread c = component_bytes U v @ r"
    and "length (component_bytes U v) \<le> MAX_ENCODED_BYTES"
  shows "\<exists>c'. decode_component U c = Inr (v, c') \<and> cursor_ok c' \<and> unread c' = r"
proof -
  obtain c1 where c1: "index_byte c = Inr (component_tag v, c1)" "cursor_ok c1"
      "unread c1 = component_body U v @ r"
    using index_byte_Cons [OF assms(3), of "component_tag v"] assms(4) by (auto simp: component_bytes_eq)
  have u64: "\<exists>c'. index_u64 c1 = Inr (w, c') \<and> cursor_ok c' \<and> unread c' = r"
    if "component_body U v = be_u64 w" for w
    using index_u64_append [OF c1(2)] c1(3) that by simp
  have esc: "\<exists>c'. decode_escaped c1 [] = Inr (bs, c') \<and> cursor_ok c' \<and> unread c' = r"
    if "component_body U v = escape_bytes bs @ [0, 0]" for bs
    using decode_escaped_escape [OF c1(2), of bs r "[]"] c1(3) that assms(5) length_escape_bytes [of bs]
    by (simp add: component_bytes_eq)
  show ?thesis
  proof (cases v)
    case (IInt64 w)
    with u64 c1(1) show ?thesis
      by (fastforce simp: decode_component_def index_tags flip_sign_flip
          simp del: push_bit_of_1 push_bit_numeral_minus_1 bindR_Inr mapR_Inr)
  next
    case (ITimestamp w)
    with u64 c1(1) show ?thesis
      by (fastforce simp: decode_component_def index_tags flip_sign_flip
          simp del: push_bit_of_1 push_bit_numeral_minus_1 bindR_Inr mapR_Inr)
  next
    case (IFloat64 f)
    with decode_index_float_order [OF c1(2)] c1 assms(2) show ?thesis
      by (auto simp: decode_component_def index_tags simp del: bindR_Inr)
  next
    case (IString s)
    with esc c1(1) assms(2) show ?thesis by (fastforce simp: decode_component_def index_tags)
  next
    case (IBytes bs)
    with esc c1(1) show ?thesis by (fastforce simp: decode_component_def index_tags)
  next
    case (ITypedId t)
    with assms(1,2) have "rust_string (typed_id_to_string U t)"
      "typed_id_from_str U (typed_id_to_string U t) = Inr t"
      by (simp_all add: ascii_rust_string typed_id_ascii typed_id_print_parse)
    with ITypedId esc c1(1) show ?thesis by (fastforce simp: decode_component_def index_tags)
  qed (use c1 in \<open>auto simp: decode_component_def index_tags\<close>)
qed

lemma decode_component_reads:
  assumes "ulid_laws U" and "cursor_ok c" and "decode_component U c = Inr (v, c')"
  shows "index_ok v \<and> reads c (component_bytes U v) c'"
proof -
  note tag = index_byte_reads [OF assms(2)]
  have next_ok: "cursor_ok c1" if "index_byte c = Inr (t, c1)" for t c1
    using tag [OF that] by (simp add: reads_def)
  from assms(3) show ?thesis
  proof (cases rule: decode_component_cases)
    case (4 c1 w)
    with tag index_u64_reads [OF next_ok] show ?thesis
      by (simp add: component_bytes_eq flip_sign_flip reads_Cons del: push_bit_of_1 push_bit_numeral_minus_1)
  next
    case (5 c1)
    from 5(2) obtain w f where w: "index_u64 c1 = Inr (w, c')"
      and f: "f = (if w AND push_bit 63 1 = 0 then NOT w else w XOR push_bit 63 1)"
        "finite_f64_ok f" "v = IFloat64 f"
      by (cases rule: decode_index_float_cases)
    from f(1) have "w = ordered_float_bits f" by (simp only: unorder_order)
    with tag [OF 5(1)] index_u64_reads [OF next_ok w] 5(1) f(2,3) show ?thesis
      by (simp add: component_bytes_eq reads_Cons)
  next
    case (6 c1 w)
    with tag index_u64_reads [OF next_ok] show ?thesis
      by (simp add: component_bytes_eq flip_sign_flip reads_Cons del: push_bit_of_1 push_bit_numeral_minus_1)
  next
    case (7 c1 s)
    with tag decode_escaped_reads_Nil [OF next_ok] show ?thesis by (simp add: component_bytes_eq reads_Cons)
  next
    case (8 c1 bs)
    with tag decode_escaped_reads_Nil [OF next_ok] show ?thesis by (simp add: component_bytes_eq reads_Cons)
  next
    case (9 c1 s t)
    then have "typed_id_ok t \<and> typed_id_to_string U t = s" using typed_id_parse_print by blast
    moreover note reads_Cons [OF tag [OF 9(1)] decode_escaped_reads_Nil [OF next_ok [OF 9(1)] 9(2)]]
    ultimately show ?thesis using 9(4) by (simp add: component_bytes_eq)
  qed (use tag in \<open>simp_all add: component_bytes_eq\<close>)
qed

lemma decode_components_loop_encode:
  assumes "ulid_laws U" and "list_all index_ok vs" and "cursor_ok c" and "unread c = tuple_bytes U vs"
    and "length (tuple_bytes U vs) \<le> MAX_ENCODED_BYTES" and "length acc + length vs \<le> MAX_COMPONENTS"
  shows "decode_components_loop U c acc = Inr (acc @ vs)"
  using assms(2-)
proof (induction vs arbitrary: c acc)
  case Nil
  then show ?case by (subst decode_components_loop.simps) (simp add: cursor_is_empty_unread)
next
  case (Cons v vs)
  then obtain c' where c': "decode_component U c = Inr (v, c')" "cursor_ok c'" "unread c' = tuple_bytes U vs"
    using decode_component_encode [OF assms(1), of v c "tuple_bytes U vs"] by auto
  have "\<not> cursor_is_empty c" using Cons.prems by (simp add: cursor_is_empty_unread component_bytes_eq)
  with c' Cons show ?case by (subst decode_components_loop.simps) simp
qed

lemma decode_components_loop_reads:
  assumes "ulid_laws U" and "cursor_ok c" and "decode_components_loop U c acc = Inr ws"
  shows "\<exists>vs. ws = acc @ vs \<and> list_all index_ok vs \<and> unread c = tuple_bytes U vs"
  using assms(2-)
proof (induction "cursor_remaining c" arbitrary: c acc rule: less_induct)
  case less
  note unfolded = less.prems(2) [unfolded decode_components_loop.simps [of U c acc]]
  show ?case
  proof (cases "cursor_is_empty c")
    case True
    with less.prems(1) unfolded show ?thesis by (simp add: cursor_is_empty_unread)
  next
    case False
    with unfolded obtain v c' where v: "decode_component U c = Inr (v, c')"
      and loop: "decode_components_loop U c' (acc @ [v]) = Inr ws"
      by (auto split: if_splits)
    note r = decode_component_reads [OF assms(1) less.prems(1) v]
    then obtain vs where "ws = (acc @ [v]) @ vs" "list_all index_ok vs" "unread c' = tuple_bytes U vs"
      using less.hyps [OF decode_component_shrinks [OF v] _ loop] by (auto simp: reads_def)
    with r show ?thesis by (intro exI [of _ "v # vs"]) (simp add: reads_def)
  qed
qed

lemma length_index_header [simp]: "length index_header = 3"
  by (simp add: index_header_def INDEX_MAGIC_def)

lemma header_read:
  assumes "length (index_header @ bs) \<le> MAX_ENCODED_BYTES"
  shows "decode_components U (index_header @ bs) =
    bindR (decode_components_loop U (advance 3 (cursor_new (index_header @ bs))) []) (\<lambda>vs.
    bindR (validate_component_count (length vs)) (\<lambda>_. Inr vs))"
proof -
  let ?c = "cursor_new (index_header @ bs)"
  have ok: "cursor_ok ?c" using assms by (intro cursor_ok_new) (simp add: MAX_ENCODED_BYTES_def)
  then have "cursor_take IndexTruncated 2 ?c = Inr (INDEX_MAGIC, advance 2 ?c)"
    by (intro cursor_take_append [where ys = "INDEX_FORMAT_VERSION # bs"])
      (simp_all add: index_header_def INDEX_MAGIC_def)
  moreover have "index_byte (advance 2 ?c) = Inr (INDEX_FORMAT_VERSION, advance 1 (advance 2 ?c))"
    unfolding index_byte_def
    using ok by (intro cursor_byte_Cons [where ys = bs]) (simp_all add: index_header_def INDEX_MAGIC_def)
  ultimately show ?thesis
    using assms by (simp add: decode_components_def index_take_def ensure_key_size_def)
qed

lemma header_sound:
  assumes "decode_components U enc = Inr vs"
  obtains bs where "enc = index_header @ bs" "length enc \<le> MAX_ENCODED_BYTES"
    "decode_components_loop U (advance 3 (cursor_new enc)) [] = Inr vs"
    "vs \<noteq> []" "length vs \<le> MAX_COMPONENTS"
proof -
  from assms have size: "length enc \<le> MAX_ENCODED_BYTES"
    by (simp add: decode_components_def ensure_key_size_def)
  then have ok: "cursor_ok (cursor_new enc)" by (intro cursor_ok_new) (simp add: MAX_ENCODED_BYTES_def)
  from assms obtain c1 c2 where c1: "cursor_take IndexTruncated 2 (cursor_new enc) = Inr (INDEX_MAGIC, c1)"
    and c2: "cursor_byte IndexTruncated c1 = Inr (INDEX_FORMAT_VERSION, c2)"
    by (auto simp: decode_components_def index_take_def index_byte_def split: if_splits)
  from cursor_take_Inr [OF ok c1] have "cursor_ok c1" "enc = INDEX_MAGIC @ unread c1" by simp_all
  with cursor_byte_Inr [OF _ c2] have enc: "enc = index_header @ unread c2"
    by (simp add: index_header_def)
  then have "decode_components U enc = bindR (decode_components_loop U (advance 3 (cursor_new enc)) []) (\<lambda>vs.
      bindR (validate_component_count (length vs)) (\<lambda>_. Inr vs))"
    using header_read [of "unread c2" U] size by metis
  with assms have "decode_components_loop U (advance 3 (cursor_new enc)) [] = Inr vs"
    "vs \<noteq> []" "length vs \<le> MAX_COMPONENTS"
    by (auto simp: validate_component_count_def split: if_splits)
  with enc size show thesis by (intro that)
qed

text \<open>The decoder accepts a byte string exactly when it is the encoding of a tuple of valid values.\<close>

lemma decode_components_iff:
  assumes "ulid_laws U"
  shows "decode_components U enc = Inr vs \<longleftrightarrow>
    list_all index_ok vs \<and> index_key_encode U vs = Inr \<lparr>encoded = enc, components = vs\<rparr>"
proof
  assume "decode_components U enc = Inr vs"
  then obtain bs where enc: "enc = index_header @ bs" and size: "length enc \<le> MAX_ENCODED_BYTES"
    and loop: "decode_components_loop U (advance 3 (cursor_new enc)) [] = Inr vs"
    and vs: "vs \<noteq> []" "length vs \<le> MAX_COMPONENTS"
    by (rule header_sound)
  have "cursor_ok (cursor_new enc)" using size by (intro cursor_ok_new) (simp add: MAX_ENCODED_BYTES_def)
  then have "cursor_ok (advance 3 (cursor_new enc))" using enc by simp
  from decode_components_loop_reads [OF assms this loop] enc
  have "list_all index_ok vs" "bs = tuple_bytes U vs" by simp_all
  with enc size vs show "list_all index_ok vs \<and> index_key_encode U vs = Inr \<lparr>encoded = enc, components = vs\<rparr>"
    by (simp add: index_key_encode_Inr)
next
  assume a: "list_all index_ok vs \<and> index_key_encode U vs = Inr \<lparr>encoded = enc, components = vs\<rparr>"
  then have vs: "vs \<noteq> []" "length vs \<le> MAX_COMPONENTS" and enc: "enc = index_header @ tuple_bytes U vs"
    and size: "length enc \<le> MAX_ENCODED_BYTES" by (simp_all add: index_key_encode_Inr)
  have "cursor_ok (advance 3 (cursor_new enc))"
    using size enc by (intro cursor_ok_advance cursor_ok_new) (simp_all add: MAX_ENCODED_BYTES_def)
  then have "decode_components_loop U (advance 3 (cursor_new enc)) [] = Inr ([] @ vs)"
    using a vs enc size by (intro decode_components_loop_encode [OF assms]) simp_all
  then show "decode_components U enc = Inr vs"
    using header_read [of "tuple_bytes U vs" U] enc size vs by (simp add: validate_component_count_def)
qed

lemma index_key_decode_iff:
  assumes "ulid_laws U"
  shows "index_key_decode U enc = Inr k \<longleftrightarrow>
    encoded k = enc \<and> list_all index_ok (components k) \<and> index_key_encode U (components k) = Inr k"
  using decode_components_iff [OF assms]
  by (cases k) (auto simp: index_key_decode_def index_key_encode_Inr)

section \<open>Prefix bounds\<close>

lemma between_prefix: "p @ a \<le> xs \<Longrightarrow> xs < p @ b \<Longrightarrow> prefix p (xs :: 'a :: linorder list)"
proof (induction p arbitrary: xs)
  case (Cons x p)
  then obtain ys where "xs = x # ys" by (cases xs) (auto simp: list_le_def)
  with Cons show ?case by auto
qed simp

lemma u8_less_Suc: "b \<noteq> 255 \<Longrightarrow> b < b + 1" for b :: u8
proof -
  assume "b \<noteq> 255"
  then have "unat b \<noteq> 255" by (simp add: word_unat_eq_iff)
  then have "unat b < 255" using unsigned_less [of b, where ?'a = nat] by simp
  then show ?thesis by (simp add: word_less_nat_alt unat_word_ariths)
qed

lemma u8_between: "b \<le> y \<Longrightarrow> y < b + 1 \<Longrightarrow> y = b" for b y :: u8
  by (metis inc_le leD order_le_less)

lemma prefix_successor_snoc [simp]:
  "prefix_successor [] = None"
  "prefix_successor (p @ [b]) = (if b \<noteq> 255 then Some (p @ [b + 1]) else prefix_successor p)"
  by (subst prefix_successor.simps; simp)+

lemma prefix_iff_range:
  "prefix_successor p = Some q \<Longrightarrow> prefix p xs \<longleftrightarrow> p \<le> xs \<and> xs < q"
proof (induction p arbitrary: q rule: rev_induct)
  case (snoc b p)
  have fwd: "p @ [b] \<le> xs" if "prefix (p @ [b]) xs" using that by (rule prefix_le_list)
  show ?case
  proof (cases "b = 255")
    case True
    with snoc have IH: "prefix p xs \<longleftrightarrow> p \<le> xs \<and> xs < q" by simp
    have "prefix (p @ [b]) xs" if le: "p @ [b] \<le> xs" and lt: "xs < q"
    proof -
      have "p \<le> xs" using le prefix_le_list [of p "p @ [b]"] by simp
      with lt IH obtain ys where ys: "xs = p @ ys" by (auto elim: prefixE)
      with le have "\<not> ys < [b]" by (simp add: not_less [symmetric])
      then obtain y zs where "ys = y # zs" "\<not> y < b" by (cases ys) auto
      moreover have "y \<le> 255" using unsigned_less [of y, where ?'a = nat] by (simp add: word_le_nat_alt)
      ultimately show ?thesis using ys True by simp
    qed
    with fwd IH show ?thesis by (auto dest: append_prefixD)
  next
    case False
    with snoc.prems have q: "q = p @ [b + 1]" by simp
    have "prefix (p @ [b]) xs" if le: "p @ [b] \<le> xs" and lt: "xs < q"
    proof -
      from between_prefix [OF le lt [unfolded q]] obtain ys where ys: "xs = p @ ys" by (rule prefixE)
      with le have "\<not> ys < [b]" by (simp add: not_less [symmetric])
      then obtain y zs where yz: "ys = y # zs" "b \<le> y" by (cases ys) auto
      with lt ys q have "y < b + 1" by simp
      with yz ys show ?thesis using u8_between by auto
    qed
    moreover have "xs < q" if "prefix (p @ [b]) xs"
      using that q u8_less_Suc [OF False] by (auto simp: prefix_def)
    ultimately show ?thesis using fwd by blast
  qed
qed simp

lemma prefix_successor_exists: "b \<in> set p \<Longrightarrow> b \<noteq> 255 \<Longrightarrow> \<exists>q. prefix_successor p = Some q"
  by (induction p rule: rev_induct) auto

lemma index_prefix_end: "\<exists>q. exclusive_end (index_header @ bs) = Inr q"
  using prefix_successor_exists [of "0x52" "index_header @ bs"]
  by (auto simp: exclusive_end_def index_header_def INDEX_MAGIC_def)

section \<open>Whole keys\<close>

text \<open>The promises a client of the keys uses, for every identifier library that keeps its laws.\<close>

definition index_key_ok :: "ulid_crate \<Rightarrow> IndexKey \<Rightarrow> bool" where
  "index_key_ok U k \<longleftrightarrow> list_all index_ok (components k) \<and> index_key_encode U (components k) = Inr k"

locale ulid_codec =
  fixes U :: ulid_crate
  assumes laws: "ulid_laws U"

sublocale ulid_codec \<subseteq> component: order_preserving "component_bytes U" index_ok "index_lt U"
  using laws by (rule component_order_preserving)

context ulid_codec
begin

lemma key_encoded: "index_key_ok U k \<Longrightarrow> encoded k = index_header @ tuple_bytes U (components k)"
  by (cases k) (simp add: index_key_ok_def index_key_encode_Inr)

lemma key_less_iff:
  assumes "index_key_ok U k" and "index_key_ok U l"
  shows "encoded k < encoded l \<longleftrightarrow> lex_lt (index_lt U) (components k) (components l)"
  using assms component.tuple_less_iff by (simp add: key_encoded) (simp add: index_key_ok_def)

lemma key_prefix_iff:
  assumes "list_all index_ok vs" and "index_key_ok U l"
  shows "prefix (index_header @ tuple_bytes U vs) (encoded l) \<longleftrightarrow> prefix vs (components l)"
  using assms component.tuple_prefix_iff by (simp add: key_encoded) (simp add: index_key_ok_def)

lemma key_prefix_scan:
  assumes "index_key_ok U k" and "0 < n" and "n \<le> length (components k)"
  shows "\<exists>p e. index_key_prefix U k n = Inr p \<and> exclusive_end p = Inr e \<and>
    (\<forall>l. index_key_ok U l \<longrightarrow>
       (inclusive_start p \<le> encoded l \<and> encoded l < e \<longleftrightarrow>
        prefix (take n (components k)) (components l)))"
proof -
  let ?vs = "take n (components k)"
  let ?p = "index_header @ tuple_bytes U ?vs"
  have "tuple_bytes U (components k) = tuple_bytes U ?vs @ tuple_bytes U (drop n (components k))"
    by (simp flip: concat_append map_append)
  then have "length (tuple_bytes U ?vs) \<le> length (tuple_bytes U (components k))" by simp
  moreover have "length (index_header @ tuple_bytes U (components k)) \<le> MAX_ENCODED_BYTES"
    using assms(1) by (cases k) (simp add: index_key_ok_def index_key_encode_Inr)
  ultimately have p: "index_key_prefix U k n = Inr ?p"
    using assms(2,3)
    by (simp add: index_key_prefix_def encode_components_eq flip: index_header_def)
  obtain e where e: "exclusive_end ?p = Inr e" using index_prefix_end by blast
  have "list_all index_ok ?vs" using assms(1) by (auto simp: index_key_ok_def list_all_iff dest: in_set_takeD)
  then have "inclusive_start ?p \<le> encoded l \<and> encoded l < e \<longleftrightarrow> prefix ?vs (components l)"
    if "index_key_ok U l" for l
    using key_prefix_iff [OF _ that] prefix_iff_range [of ?p e "encoded l"] e
    by (simp add: exclusive_end_def inclusive_start_def)
  with p e show ?thesis by blast
qed

end

interpretation crockford: ulid_codec crockford_ulid
  by unfold_locales (rule crockford_laws)

end
