(* ===== verification/Value_Properties.thy ===== *)
theory Value_Properties
  imports Stored_Value Index_Order
begin

text \<open>
  The properties of \<open>runku-value\<close>: Stored Value and Index Key bytes are canonical in both
  directions, the encoder's limits are exactly the documented ones, and the byte order of Index
  Keys is the order of the tuples they encode, on which ranges and prefix scans rest.
\<close>

section \<open>Stored values\<close>

text \<open>
  C36 (Stored Value round trip): decoding a byte string yields a value exactly when the byte string
  is the encoding of that value, so the decoder inverts the encoder and accepts no other spelling
  (no unsorted or duplicate key, no negative zero, no trailing byte, no alternative identifier).
\<close>

theorem stored_value_roundtrip:
  assumes "ulid_laws U"
  shows "decode_stored_value U bs = Inr v \<longleftrightarrow> value_ok v \<and> encode_stored_value U v = Inr bs"
  using assms by (rule decode_stored_value_iff)

definition sample_value :: CanonicalValue where
  "sample_value = Object [(''a'', Array [Boolean True, Null]), (''b'', String ''x'')]"

lemma sample_value_ok: "value_ok sample_value"
  by (simp add: sample_value_def rust_string_def btree_keys_def)

lemma sample_value_encodes:
  "encode_stored_value crockford_ulid sample_value =
     Inr [0x52, 0x56, 1, 0x31, 0, 0, 0, 2, 0, 1, 97, 0x30, 0, 0, 0, 2, 2, 0, 0, 1, 98, 0x20, 0, 0, 0, 1, 120]"
  by (simp add: encode_stored_value_Inr sample_value_def stored_limits stored_tags STORED_MAGIC_def
      STORED_VALUE_FORMAT_VERSION_def be_nat_numeral)

theorem stored_value_roundtrip_witness:
  "decode_stored_value crockford_ulid
     [0x52, 0x56, 1, 0x31, 0, 0, 0, 2, 0, 1, 97, 0x30, 0, 0, 0, 2, 2, 0, 0, 1, 98, 0x20, 0, 0, 0, 1, 120]
   = Inr sample_value"
  using stored_value_roundtrip [OF crockford_laws] sample_value_ok sample_value_encodes by blast

section \<open>Index keys\<close>

definition sample_tuple :: "IndexValue list" where
  "sample_tuple = [IString ''a'', IInt64 (- 1)]"

definition sample_tuple2 :: "IndexValue list" where
  "sample_tuple2 = [IString ''a'', IInt64 2]"

definition sample_key :: IndexKey where
  "sample_key =
     \<lparr>encoded = [0x52, 0x4B, 1, 0x50, 97, 0, 0, 0x30, 0x7F, 0xFF, 0xFF, 0xFF, 0xFF, 0xFF, 0xFF, 0xFF],
      components = sample_tuple\<rparr>"

definition sample_key2 :: IndexKey where
  "sample_key2 =
     \<lparr>encoded = [0x52, 0x4B, 1, 0x50, 97, 0, 0, 0x30, 0x80, 0, 0, 0, 0, 0, 0, 2],
      components = sample_tuple2\<rparr>"

lemmas sample_defs = sample_key_def sample_tuple_def sample_key2_def sample_tuple2_def

lemma sample_tuples_ok: "list_all index_ok sample_tuple" "list_all index_ok sample_tuple2"
  by (simp_all add: sample_defs rust_string_def)

lemma sample_keys_encode:
  "index_key_encode crockford_ulid sample_tuple = Inr sample_key"
  "index_key_encode crockford_ulid sample_tuple2 = Inr sample_key2"
  by (simp_all add: index_key_encode_Inr sample_defs index_header_def INDEX_MAGIC_def
      INDEX_FORMAT_VERSION_def component_bytes_eq index_tags be_u64_def be_nat_numeral
      MAX_COMPONENTS_def MAX_ENCODED_BYTES_def)

lemma sample_key_ok: "index_key_ok crockford_ulid sample_key"
  using sample_tuples_ok sample_keys_encode by (simp add: index_key_ok_def sample_key_def)

text \<open>
  C37 (Index Key round trip): a byte string decodes to a key exactly when the key is the encoding of
  its own components, all of them valid values, and carries that byte string.
\<close>

theorem index_key_roundtrip:
  assumes "ulid_laws U"
  shows "index_key_decode U bs = Inr k \<longleftrightarrow>
    encoded k = bs \<and> list_all index_ok (components k) \<and> index_key_encode U (components k) = Inr k"
  using assms by (rule index_key_decode_iff)

theorem index_key_roundtrip_witness:
  "index_key_decode crockford_ulid
     [0x52, 0x4B, 1, 0x50, 97, 0, 0, 0x30, 0x7F, 0xFF, 0xFF, 0xFF, 0xFF, 0xFF, 0xFF, 0xFF] = Inr sample_key"
  using index_key_roundtrip [OF crockford_laws, of "encoded sample_key" sample_key]
    sample_tuples_ok sample_keys_encode by (simp add: sample_key_def)

text \<open>
  C38 (Index Key order): the byte order of two keys is the lexicographic order of their components,
  with null < false < true < integers < floats < timestamps < strings < bytes < identifiers, and
  each type in its own order (signed integers, numeric floats, byte-wise strings).
\<close>

theorem index_key_order:
  assumes "ulid_laws U" and "list_all index_ok vs" and "list_all index_ok ws"
    and "index_key_encode U vs = Inr k" and "index_key_encode U ws = Inr l"
  shows "encoded k < encoded l \<longleftrightarrow> lex_lt (index_lt U) vs ws"
proof -
  have "vs = components k" "ws = components l" using assms(4,5) by (simp_all add: index_key_encode_Inr)
  then have "index_key_ok U k" "index_key_ok U l" using assms(2-5) by (simp_all add: index_key_ok_def)
  then show ?thesis
    using ulid_codec.key_less_iff [OF ulid_codec.intro [OF assms(1)]]
      \<open>vs = components k\<close> \<open>ws = components l\<close> by simp
qed

theorem index_key_order_witness:
  "encoded sample_key < encoded sample_key2 \<and>
   lex_lt (index_lt crockford_ulid) sample_tuple sample_tuple2"
proof -
  have "encoded sample_key < encoded sample_key2" by (simp add: sample_defs)
  then show ?thesis
    using index_key_order [OF crockford_laws sample_tuples_ok sample_keys_encode] by blast
qed

lemma index_lt_irrefl: "\<not> index_lt U v v"
  by (cases v) (simp_all add: index_lt_def finite_f64_less_def)

lemma lex_lt_append: "(\<And>x. \<not> lt x x) \<Longrightarrow> lex_lt lt (xs @ ys) (xs @ zs) \<longleftrightarrow> lex_lt lt ys zs"
  by (induction xs) auto

text \<open>
  C39 (numeric float order): of two keys that agree but for a final float column the encoded bytes are
  ordered as the numbers the two floats denote, and are the same bytes only for the same float. The
  floats are the ones the codec admits (finite, no negative zero).
\<close>

theorem index_float_numeric:
  assumes "ulid_laws U" and "list_all index_ok vs" and "finite_f64_ok f" and "finite_f64_ok g"
    and "index_key_encode U (vs @ [IFloat64 f]) = Inr k" and "index_key_encode U (vs @ [IFloat64 g]) = Inr l"
  shows "(encoded k < encoded l \<longleftrightarrow> f64_scaled f < f64_scaled g) \<and> (encoded k = encoded l \<longleftrightarrow> f = g)"
proof -
  have c: "components k = vs @ [IFloat64 f]" "components l = vs @ [IFloat64 g]"
    using assms(5,6) by (simp_all add: index_key_encode_Inr)
  have ok: "index_key_ok U k" "index_key_ok U l" using assms(2-6) unfolding index_key_ok_def c by simp_all
  have "encoded k < encoded l \<longleftrightarrow> lex_lt (index_lt U) (components k) (components l)"
    by (rule ulid_codec.key_less_iff [OF ulid_codec.intro [OF assms(1)] ok])
  also have "\<dots> \<longleftrightarrow> lex_lt (index_lt U) [IFloat64 f] [IFloat64 g]"
    unfolding c by (rule lex_lt_append) (rule index_lt_irrefl)
  also have "\<dots> \<longleftrightarrow> f64_scaled f < f64_scaled g"
    using finite_f64_less_numeric [OF assms(3,4)] by (simp add: index_lt_def)
  finally have less: "encoded k < encoded l \<longleftrightarrow> f64_scaled f < f64_scaled g" .
  have "f = g" if "encoded k = encoded l"
  proof -
    have "index_key_decode U (encoded k) = Inr k" "index_key_decode U (encoded l) = Inr l"
      using ok unfolding index_key_decode_iff [OF assms(1)] index_key_ok_def by blast+
    then have "components k = components l" unfolding that by (metis Inr_inject)
    then show ?thesis unfolding c by simp
  qed
  moreover have "encoded k = encoded l" if "f = g" using assms(5,6) unfolding that by (metis Inr_inject)
  ultimately show ?thesis using less by blast
qed

theorem index_float_numeric_witness:
  "\<exists>k l. index_key_encode crockford_ulid [INull, IFloat64 0x8000000000000003] = Inr k \<and>
     index_key_encode crockford_ulid [INull, IFloat64 0x0000000000000002] = Inr l \<and> encoded k < encoded l"
proof -
  let ?f = "0x8000000000000003 :: u64" and ?g = "0x0000000000000002 :: u64"
  have ok: "finite_f64_ok ?f" "finite_f64_ok ?g" by (simp_all add: finite_f64_ok_def f64_is_finite_def sign_bit_def)
  have "\<exists>k. index_key_encode crockford_ulid ([INull] @ [IFloat64 ?f]) = Inr k"
    "\<exists>k. index_key_encode crockford_ulid ([INull] @ [IFloat64 ?g]) = Inr k"
    unfolding index_key_encode_Inr
    by (simp_all add: index_header_def INDEX_MAGIC_def INDEX_FORMAT_VERSION_def component_bytes_eq
        be_u64_def MAX_COMPONENTS_def MAX_ENCODED_BYTES_def)
  then obtain k l where e: "index_key_encode crockford_ulid ([INull] @ [IFloat64 ?f]) = Inr k"
    "index_key_encode crockford_ulid ([INull] @ [IFloat64 ?g]) = Inr l" by blast
  have "f64_scaled ?f < f64_scaled ?g" by (simp add: f64_scaled_def f64_magnitude_def)
  then show ?thesis using index_float_numeric [OF crockford_laws _ ok e] e by simp
qed

text \<open>
  C40 (prefix scans): the first \<open>n\<close> components of a key have a prefix with a finite exclusive end,
  and a key lies between the two bounds exactly when it starts with those components.
\<close>

theorem index_prefix_scan:
  assumes "ulid_laws U" and "index_key_ok U k" and "0 < n" and "n \<le> length (components k)"
  shows "\<exists>p e. index_key_prefix U k n = Inr p \<and> exclusive_end p = Inr e \<and>
    (\<forall>l. index_key_ok U l \<longrightarrow>
       (inclusive_start p \<le> encoded l \<and> encoded l < e \<longleftrightarrow>
        prefix (take n (components k)) (components l)))"
  using assms(2-) by (rule ulid_codec.key_prefix_scan [OF ulid_codec.intro [OF assms(1)]])

theorem index_prefix_scan_witness:
  "\<exists>p e. index_key_prefix crockford_ulid sample_key 1 = Inr p \<and> exclusive_end p = Inr e"
  using index_prefix_scan [OF crockford_laws sample_key_ok, of 1] by (auto simp: sample_defs)

end
