(* ===== verification/Data_Model.thy ===== *)
theory Data_Model
  imports Index_Order
begin

text \<open>
  The logical records of the data store (\<open>runku-data/src/model.rs\<close>), its error taxonomy
  (\<open>error.rs\<close>) and the bounds of an index scan. Scans are byte ranges over encoded Index Keys.
\<close>

section \<open>Errors\<close>

datatype StoreError =
  EmptyBatch | LimitExceeded | DuplicateMutation | InvalidRange | OperationIdReused
| MutationConflict | NotFound | LeaseLost | OutboxLeaseLost | ProductionBackendUnsupported
| Busy | SerializationFailure | ResultUncertain | Corruption | MigrationFailed | Unavailable
| Internal

fun store_error_code :: "StoreError \<Rightarrow> string" where
  "store_error_code EmptyBatch = ''STORAGE_BATCH_EMPTY''"
| "store_error_code LimitExceeded = ''STORAGE_LIMIT_EXCEEDED''"
| "store_error_code DuplicateMutation = ''STORAGE_MUTATION_DUPLICATE''"
| "store_error_code InvalidRange = ''STORAGE_RANGE_INVALID''"
| "store_error_code OperationIdReused = ''OPERATION_ID_REUSED''"
| "store_error_code MutationConflict = ''MUTATION_CONFLICT''"
| "store_error_code NotFound = ''STORAGE_NOT_FOUND''"
| "store_error_code LeaseLost = ''SCHEDULE_LEASE_LOST''"
| "store_error_code OutboxLeaseLost = ''OUTBOX_LEASE_LOST''"
| "store_error_code ProductionBackendUnsupported = ''STORAGE_BACKEND_PRODUCTION_UNSUPPORTED''"
| "store_error_code Busy = ''STORAGE_BUSY''"
| "store_error_code SerializationFailure = ''STORAGE_SERIALIZATION_FAILURE''"
| "store_error_code ResultUncertain = ''STORAGE_RESULT_UNCERTAIN''"
| "store_error_code Corruption = ''STORAGE_CORRUPTION''"
| "store_error_code MigrationFailed = ''STORAGE_MIGRATION_FAILED''"
| "store_error_code Unavailable = ''STORAGE_UNAVAILABLE''"
| "store_error_code Internal = ''STORAGE_INTERNAL_ERROR''"

definition store_error_retryable :: "StoreError \<Rightarrow> bool" where
  "store_error_retryable e \<longleftrightarrow>
     e \<in> {MutationConflict, Busy, SerializationFailure, ResultUncertain, OutboxLeaseLost, Unavailable}"

section \<open>Scopes, names and records\<close>

record EnvironmentScope =
  scope_project :: ProjectId
  scope_environment :: EnvironmentId

type_synonym OutboxConsumerName = string
type_synonym TimestampMicros = i64

definition outbox_consumer_name_from_str :: "string \<Rightarrow> StoreError + OutboxConsumerName" where
  "outbox_consumer_name_from_str s =
     (case s of
        [] \<Rightarrow> Inl InvalidRange
      | first # rest \<Rightarrow>
          if length s > 64 \<or> \<not> is_ascii_alphanumeric first
            \<or> \<not> list_all (\<lambda>b. is_ascii_alphanumeric b \<or> b \<in> {CHR ''_'', CHR ''-'', CHR ''.''}) rest
          then Inl InvalidRange else Inr s)"

record OutboxCursor =
  cursor_commit_sequence :: u64
  cursor_event_id :: OutboxEventId

record OutboxEventRecord =
  oe_event_id :: OutboxEventId
  oe_commit_sequence :: u64
  oe_payload :: CanonicalValue

definition outbox_event_cursor :: "OutboxEventRecord \<Rightarrow> OutboxCursor" where
  "outbox_event_cursor e =
     \<lparr>cursor_commit_sequence = oe_commit_sequence e, cursor_event_id = oe_event_id e\<rparr>"

record ClaimedOutboxBatch =
  cob_lease_generation :: u64
  cob_acknowledged_through :: "OutboxCursor option"
  cob_events :: "OutboxEventRecord list"

record DocumentRecord =
  dr_table_id :: TableId
  dr_document_id :: DocumentId
  dr_revision :: u64
  dr_commit_sequence :: u64
  dr_created_at :: TimestampMicros
  dr_updated_at :: TimestampMicros
  dr_value :: CanonicalValue

record IndexEntry =
  ie_index_id :: IndexId
  ie_key :: IndexKey
  ie_table_id :: TableId
  ie_document_id :: DocumentId
  ie_document_revision :: u64
  ie_commit_sequence :: u64

section \<open>Ranges of an index scan\<close>

datatype KeyBound = Unbounded | Inclusive bytes | Exclusive bytes

fun key_bound_bytes :: "KeyBound \<Rightarrow> bytes option" where
  "key_bound_bytes Unbounded = None"
| "key_bound_bytes (Inclusive bs) = Some bs"
| "key_bound_bytes (Exclusive bs) = Some bs"

record IndexRange =
  range_lower :: KeyBound
  range_upper :: KeyBound

definition index_range_all :: IndexRange where
  "index_range_all = \<lparr>range_lower = Unbounded, range_upper = Unbounded\<rparr>"

definition index_range_between :: "KeyBound \<Rightarrow> KeyBound \<Rightarrow> IndexRange" where
  "index_range_between lower upper = \<lparr>range_lower = lower, range_upper = upper\<rparr>"

definition index_range_prefix :: "IndexKeyPrefix \<Rightarrow> StoreError + IndexRange" where
  "index_range_prefix p =
     bindR (map_errR (\<lambda>_. InvalidRange) (exclusive_end p)) (\<lambda>upper.
       Inr \<lparr>range_lower = Inclusive (inclusive_start p), range_upper = Exclusive upper\<rparr>)"

fun is_inclusive :: "KeyBound \<Rightarrow> bool" where
  "is_inclusive (Inclusive _) = True"
| "is_inclusive _ = False"

definition index_range_validate :: "IndexRange \<Rightarrow> u32 \<Rightarrow> StoreError + unit" where
  "index_range_validate r limit =
     (if limit = 0 \<or> limit > 1000 then Inl InvalidRange
      else case (key_bound_bytes (range_lower r), key_bound_bytes (range_upper r)) of
        (Some lower, Some upper) \<Rightarrow>
          failR (lower > upper \<or>
            (lower = upper \<and> (\<not> is_inclusive (range_lower r) \<or> \<not> is_inclusive (range_upper r)))) InvalidRange
      | _ \<Rightarrow> Inr ())"

text \<open>The byte strings a range admits, as the adapters select them.\<close>

fun above_lower :: "KeyBound \<Rightarrow> bytes \<Rightarrow> bool" where
  "above_lower Unbounded k = True"
| "above_lower (Inclusive b) k = (k \<ge> b)"
| "above_lower (Exclusive b) k = (k > b)"

fun below_upper :: "KeyBound \<Rightarrow> bytes \<Rightarrow> bool" where
  "below_upper Unbounded k = True"
| "below_upper (Inclusive b) k = (k \<le> b)"
| "below_upper (Exclusive b) k = (k < b)"

definition in_range :: "IndexRange \<Rightarrow> bytes \<Rightarrow> bool" where
  "in_range r k \<longleftrightarrow> above_lower (range_lower r) k \<and> below_upper (range_upper r) k"

lemma refused_range:
  assumes "index_range_validate r limit = Inl err"
  shows "err = InvalidRange \<and> (limit = 0 \<or> limit > 1000 \<or> (\<forall>k. \<not> in_range r k))"
proof (cases "limit = 0 \<or> limit > 1000")
  case True
  then show ?thesis using assms by (auto simp: index_range_validate_def failR_def)
next
  case False
  then obtain lo up where b: "key_bound_bytes (range_lower r) = Some lo" "key_bound_bytes (range_upper r) = Some up"
    and bad: "lo > up \<or> (lo = up \<and> (\<not> is_inclusive (range_lower r) \<or> \<not> is_inclusive (range_upper r)))"
    and err: "err = InvalidRange"
    using assms by (auto simp: index_range_validate_def failR_def split: option.splits if_splits)
  have "\<not> in_range r k" for k
    using b bad by (cases "range_lower r"; cases "range_upper r") (auto simp: in_range_def)
  with err show ?thesis by blast
qed

section \<open>Scheduled invocations and commit results\<close>

datatype ScheduleStatus = Pending | Running | Succeeded | Failed | Cancelled

record ScheduledInvocationRecord =
  si_id :: ScheduledInvocationId
  si_pinned_code :: PinnedCode
  si_function :: FunctionName
  si_args :: CanonicalValue
  si_execute_at :: TimestampMicros
  si_status :: ScheduleStatus
  si_attempts :: u32
  si_lease_generation :: u64
  si_lease_owner :: "WorkerId option"
  si_lease_until :: "TimestampMicros option"
  si_idempotency_key :: "string option"
  si_last_error_code :: "string option"
  si_commit_sequence :: u64

datatype ScheduleCompletion =
  CompletionSucceeded
| CompletionRetry TimestampMicros string
| CompletionFailed string

datatype ScheduleCancelResult = CancelCancelled | CancelAlreadyCancelled | CancelRunning | CancelTerminal

record DocumentRevisionResult =
  drr_table_id :: TableId
  drr_document_id :: DocumentId
  drr_revision :: "u64 option"

record CommitResult =
  cr_commit_sequence :: u64
  cr_documents :: "DocumentRevisionResult list"
  cr_replayed :: bool

end
