(* ===== verification/Commit_Batch.thy ===== *)
theory Commit_Batch
  imports Data_Model Stored_Value
begin

text \<open>
  Declarative commit batches (\<open>runku-data/src/batch.rs\<close>): the mutations a Function produced, the
  limits checked before a transaction opens, and the byte stream that identifies a batch in the
  operation journal. SHA-256 is a parameter of the digest.
\<close>

section \<open>Batches\<close>

definition MAX_INTENT_CONTEXT_BYTES :: nat where
  "MAX_INTENT_CONTEXT_BYTES = 1024"

record CommitLimits =
  limit_reads :: nat
  limit_documents :: nat
  limit_indexes :: nat
  limit_outbox :: nat
  limit_schedules :: nat
  limit_payload_bytes :: nat

definition COMMIT_LIMITS_V1 :: CommitLimits where
  "COMMIT_LIMITS_V1 =
     \<lparr>limit_reads = 10000, limit_documents = 1000, limit_indexes = 10000, limit_outbox = 100,
      limit_schedules = 100, limit_payload_bytes = 8 * 1024 * 1024\<rparr>"

record DocumentReadAssertion =
  ra_table_id :: TableId
  ra_document_id :: DocumentId
  ra_observed_revision :: "u64 option"

datatype ExpectedRevision = Absent | Exact u64

datatype DocumentMutation =
  Upsert TableId DocumentId ExpectedRevision CanonicalValue
| DeleteDocument TableId DocumentId u64

fun mutation_table_id :: "DocumentMutation \<Rightarrow> TableId" where
  "mutation_table_id (Upsert t _ _ _) = t"
| "mutation_table_id (DeleteDocument t _ _) = t"

fun mutation_document_id :: "DocumentMutation \<Rightarrow> DocumentId" where
  "mutation_document_id (Upsert _ d _ _) = d"
| "mutation_document_id (DeleteDocument _ d _) = d"

datatype IndexMutation =
  PutIndex IndexId IndexKey TableId DocumentId u64
| DeleteIndex IndexId IndexKey DocumentId

fun index_mutation_identity :: "IndexMutation \<Rightarrow> IndexId \<times> bytes \<times> DocumentId" where
  "index_mutation_identity (PutIndex i k _ d _) = (i, encoded k, d)"
| "index_mutation_identity (DeleteIndex i k d) = (i, encoded k, d)"

record OutboxAppend =
  oa_event_id :: OutboxEventId
  oa_payload :: CanonicalValue

record ScheduledInvocationInsert =
  sc_id :: ScheduledInvocationId
  sc_pinned_code :: PinnedCode
  sc_function :: FunctionName
  sc_args :: CanonicalValue
  sc_execute_at :: TimestampMicros
  sc_idempotency_key :: "string option"

record CommitBatch =
  cb_scope :: EnvironmentScope
  cb_operation_id :: OperationId
  cb_reads :: "DocumentReadAssertion list"
  cb_documents :: "DocumentMutation list"
  cb_indexes :: "IndexMutation list"
  cb_outbox :: "OutboxAppend list"
  cb_schedules :: "ScheduledInvocationInsert list"
  cb_intent_context :: "bytes option"

definition commit_batch_new :: "EnvironmentScope \<Rightarrow> OperationId \<Rightarrow> CommitBatch" where
  "commit_batch_new scope operation_id =
     \<lparr>cb_scope = scope, cb_operation_id = operation_id, cb_reads = [], cb_documents = [],
      cb_indexes = [], cb_outbox = [], cb_schedules = [], cb_intent_context = None\<rparr>"

definition push_read :: "DocumentReadAssertion \<Rightarrow> CommitBatch \<Rightarrow> CommitBatch" where
  "push_read a b = b\<lparr>cb_reads := cb_reads b @ [a]\<rparr>"

definition push_document :: "DocumentMutation \<Rightarrow> CommitBatch \<Rightarrow> CommitBatch" where
  "push_document m b = b\<lparr>cb_documents := cb_documents b @ [m]\<rparr>"

definition push_index :: "IndexMutation \<Rightarrow> CommitBatch \<Rightarrow> CommitBatch" where
  "push_index m b = b\<lparr>cb_indexes := cb_indexes b @ [m]\<rparr>"

definition push_outbox :: "OutboxAppend \<Rightarrow> CommitBatch \<Rightarrow> CommitBatch" where
  "push_outbox a b = b\<lparr>cb_outbox := cb_outbox b @ [a]\<rparr>"

definition push_schedule :: "ScheduledInvocationInsert \<Rightarrow> CommitBatch \<Rightarrow> CommitBatch" where
  "push_schedule s b = b\<lparr>cb_schedules := cb_schedules b @ [s]\<rparr>"

definition set_intent_context :: "bytes \<Rightarrow> CommitBatch \<Rightarrow> CommitBatch" where
  "set_intent_context c b = b\<lparr>cb_intent_context := Some c\<rparr>"

section \<open>Validation\<close>

definition encode_value :: "ulid_crate \<Rightarrow> CanonicalValue \<Rightarrow> StoreError + bytes" where
  "encode_value U v = map_errR (\<lambda>_. LimitExceeded) (encode_stored_value U v)"

definition add_payload :: "nat \<Rightarrow> nat \<Rightarrow> StoreError + nat" where
  "add_payload tot amount =
     (case checked_add_usize tot amount of
        Some v \<Rightarrow> if v \<le> limit_payload_bytes COMMIT_LIMITS_V1 then Inr v else Inl LimitExceeded
      | None \<Rightarrow> Inl LimitExceeded)"

definition add_value :: "ulid_crate \<Rightarrow> nat \<Rightarrow> CanonicalValue \<Rightarrow> StoreError + nat" where
  "add_value U tot v = bindR (encode_value U v) (\<lambda>bs. add_payload tot (length bs))"

fun add_document :: "ulid_crate \<Rightarrow> nat \<Rightarrow> DocumentMutation \<Rightarrow> StoreError + nat" where
  "add_document U tot (Upsert _ _ _ v) = add_value U tot v"
| "add_document U tot (DeleteDocument _ _ _) = Inr tot"

definition payload_bytes :: "ulid_crate \<Rightarrow> CommitBatch \<Rightarrow> StoreError + nat" where
  "payload_bytes U b =
     bindR (foldR (add_document U) 0 (cb_documents b)) (\<lambda>t1.
     bindR (foldR (\<lambda>t m. case index_mutation_identity m of (_, k, _) \<Rightarrow> add_payload t (length k)) t1 (cb_indexes b)) (\<lambda>t2.
     bindR (foldR (\<lambda>t e. add_value U t (oa_payload e)) t2 (cb_outbox b)) (\<lambda>t3.
       foldR (\<lambda>t s. add_value U t (sc_args s)) t3 (cb_schedules b))))"

text \<open>The loops over the batch keep the keys seen so far (a \<open>BTreeSet\<close>).\<close>

definition check_read ::
    "(TableId \<times> DocumentId) list \<Rightarrow> DocumentReadAssertion \<Rightarrow> StoreError + (TableId \<times> DocumentId) list" where
  "check_read seen a =
     (let k = (ra_table_id a, ra_document_id a) in
      if ra_observed_revision a = Some 0 then Inl MutationConflict
      else if k \<in> set seen then Inl DuplicateMutation
      else Inr (k # seen))"

fun mutation_revision_zero :: "DocumentMutation \<Rightarrow> bool" where
  "mutation_revision_zero (Upsert _ _ (Exact r) _) = (r = 0)"
| "mutation_revision_zero (Upsert _ _ Absent _) = False"
| "mutation_revision_zero (DeleteDocument _ _ r) = (r = 0)"

definition check_document ::
    "(TableId \<times> DocumentId) list \<Rightarrow> DocumentMutation \<Rightarrow> StoreError + (TableId \<times> DocumentId) list" where
  "check_document seen m =
     (let k = (mutation_table_id m, mutation_document_id m) in
      if k \<in> set seen then Inl DuplicateMutation
      else if mutation_revision_zero m then Inl MutationConflict
      else Inr (k # seen))"

fun put_revision_zero :: "IndexMutation \<Rightarrow> bool" where
  "put_revision_zero (PutIndex _ _ _ _ r) = (r = 0)"
| "put_revision_zero (DeleteIndex _ _ _) = False"

definition check_index ::
    "(IndexId \<times> bytes \<times> DocumentId) list \<Rightarrow> IndexMutation \<Rightarrow> StoreError + (IndexId \<times> bytes \<times> DocumentId) list" where
  "check_index seen m =
     (let k = index_mutation_identity m in
      if k \<in> set seen then Inl DuplicateMutation
      else if put_revision_zero m then Inl MutationConflict
      else Inr (k # seen))"

definition check_event :: "OutboxEventId list \<Rightarrow> OutboxAppend \<Rightarrow> StoreError + OutboxEventId list" where
  "check_event seen e =
     (if oa_event_id e \<in> set seen then Inl DuplicateMutation else Inr (oa_event_id e # seen))"

definition check_schedule ::
    "ScheduledInvocationId list \<times> string list \<Rightarrow> ScheduledInvocationInsert
     \<Rightarrow> StoreError + ScheduledInvocationId list \<times> string list" where
  "check_schedule = (\<lambda>(ids, keys) s.
     if sc_id s \<in> set ids then Inl DuplicateMutation
     else case sc_idempotency_key s of
       None \<Rightarrow> Inr (sc_id s # ids, keys)
     | Some k \<Rightarrow>
         if k = [] \<or> length k > 128 \<or> k \<in> set keys then Inl DuplicateMutation
         else Inr (sc_id s # ids, k # keys))"

definition batch_over_limits :: "CommitBatch \<Rightarrow> bool" where
  "batch_over_limits b \<longleftrightarrow>
     length (cb_reads b) > limit_reads COMMIT_LIMITS_V1 \<or>
     length (cb_documents b) > limit_documents COMMIT_LIMITS_V1 \<or>
     length (cb_indexes b) > limit_indexes COMMIT_LIMITS_V1 \<or>
     length (cb_outbox b) > limit_outbox COMMIT_LIMITS_V1 \<or>
     length (cb_schedules b) > limit_schedules COMMIT_LIMITS_V1 \<or>
     (case cb_intent_context b of None \<Rightarrow> False
      | Some c \<Rightarrow> c = [] \<or> length c > MAX_INTENT_CONTEXT_BYTES)"

definition commit_batch_validate :: "ulid_crate \<Rightarrow> CommitBatch \<Rightarrow> StoreError + unit" where
  "commit_batch_validate U b =
     (if cb_documents b = [] \<and> cb_indexes b = [] \<and> cb_outbox b = [] \<and> cb_schedules b = []
      then Inl EmptyBatch
      else if batch_over_limits b then Inl LimitExceeded
      else
        bindR (foldR check_read [] (cb_reads b)) (\<lambda>_.
        bindR (foldR check_document [] (cb_documents b)) (\<lambda>_.
        bindR (foldR check_index [] (cb_indexes b)) (\<lambda>_.
        bindR (foldR check_event [] (cb_outbox b)) (\<lambda>_.
        bindR (foldR check_schedule ([], []) (cb_schedules b)) (\<lambda>_.
        bindR (payload_bytes U b) (\<lambda>tot.
          failR (tot > limit_payload_bytes COMMIT_LIMITS_V1) LimitExceeded)))))))"

section \<open>The digest\<close>

text \<open>The \<open>hash_*\<close> helpers feed bytes to the hash; \<open>h\<close> is what has been fed so far.\<close>

definition hash_bytes :: "bytes \<Rightarrow> bytes \<Rightarrow> StoreError + bytes" where
  "hash_bytes h v =
     bindR (failR (length v > u32_max) LimitExceeded) (\<lambda>_. Inr (h @ be_nat 4 (length v) @ v))"

definition hash_text :: "bytes \<Rightarrow> string \<Rightarrow> StoreError + bytes" where
  "hash_text h s = hash_bytes h (as_bytes s)"

definition hash_count :: "bytes \<Rightarrow> nat \<Rightarrow> StoreError + bytes" where
  "hash_count h n = bindR (failR (n > u32_max) LimitExceeded) (\<lambda>_. Inr (h @ be_nat 4 n))"

fun hash_expected :: "bytes \<Rightarrow> ExpectedRevision \<Rightarrow> bytes" where
  "hash_expected h Absent = h @ [0]"
| "hash_expected h (Exact v) = h @ [1] @ be_u64 v"

abbreviation table_text :: "ulid_crate \<Rightarrow> TableId \<Rightarrow> string" where
  "table_text U \<equiv> resource_id_to_string U ''tbl_''"

abbreviation document_text :: "ulid_crate \<Rightarrow> DocumentId \<Rightarrow> string" where
  "document_text U \<equiv> resource_id_to_string U ''doc_''"

abbreviation index_text :: "ulid_crate \<Rightarrow> IndexId \<Rightarrow> string" where
  "index_text U \<equiv> resource_id_to_string U ''idx_''"

abbreviation event_text :: "ulid_crate \<Rightarrow> OutboxEventId \<Rightarrow> string" where
  "event_text U \<equiv> resource_id_to_string U ''evt_''"

abbreviation schedule_text :: "ulid_crate \<Rightarrow> ScheduledInvocationId \<Rightarrow> string" where
  "schedule_text U \<equiv> resource_id_to_string U ''sch_''"

definition hash_read :: "ulid_crate \<Rightarrow> bytes \<Rightarrow> DocumentReadAssertion \<Rightarrow> StoreError + bytes" where
  "hash_read U h a =
     bindR (hash_text h (table_text U (ra_table_id a))) (\<lambda>h1.
     bindR (hash_text h1 (document_text U (ra_document_id a))) (\<lambda>h2.
       case ra_observed_revision a of
         Some r \<Rightarrow> Inr (h2 @ [1] @ be_u64 r)
       | None \<Rightarrow> Inr (h2 @ [0])))"

fun hash_document :: "ulid_crate \<Rightarrow> bytes \<Rightarrow> DocumentMutation \<Rightarrow> StoreError + bytes" where
  "hash_document U h (Upsert t d expected v) =
     bindR (hash_text (h @ [0]) (table_text U t)) (\<lambda>h1.
     bindR (hash_text h1 (document_text U d)) (\<lambda>h2.
     bindR (encode_value U v) (\<lambda>bs. hash_bytes (hash_expected h2 expected) bs)))"
| "hash_document U h (DeleteDocument t d r) =
     bindR (hash_text (h @ [1]) (table_text U t)) (\<lambda>h1.
     bindR (hash_text h1 (document_text U d)) (\<lambda>h2. Inr (h2 @ be_u64 r)))"

fun hash_index :: "ulid_crate \<Rightarrow> bytes \<Rightarrow> IndexMutation \<Rightarrow> StoreError + bytes" where
  "hash_index U h (PutIndex i k t d r) =
     bindR (hash_text (h @ [0]) (index_text U i)) (\<lambda>h1.
     bindR (hash_bytes h1 (encoded k)) (\<lambda>h2.
     bindR (hash_text h2 (table_text U t)) (\<lambda>h3.
     bindR (hash_text h3 (document_text U d)) (\<lambda>h4. Inr (h4 @ be_u64 r)))))"
| "hash_index U h (DeleteIndex i k d) =
     bindR (hash_text (h @ [1]) (index_text U i)) (\<lambda>h1.
     bindR (hash_bytes h1 (encoded k)) (\<lambda>h2. hash_text h2 (document_text U d)))"

definition hash_event :: "ulid_crate \<Rightarrow> bytes \<Rightarrow> OutboxAppend \<Rightarrow> StoreError + bytes" where
  "hash_event U h e =
     bindR (hash_text h (event_text U (oa_event_id e))) (\<lambda>h1.
     bindR (encode_value U (oa_payload e)) (\<lambda>bs. hash_bytes h1 bs))"

definition hash_schedule :: "ulid_crate \<Rightarrow> bytes \<Rightarrow> ScheduledInvocationInsert \<Rightarrow> StoreError + bytes" where
  "hash_schedule U h s =
     bindR (hash_text h (schedule_text U (sc_id s))) (\<lambda>h1.
     bindR (hash_text h1 (pinned_code_to_string U (sc_pinned_code s))) (\<lambda>h2.
     bindR (hash_text h2 (sc_function s)) (\<lambda>h3.
     bindR (encode_value U (sc_args s)) (\<lambda>bs.
     bindR (hash_bytes h3 bs) (\<lambda>h4.
       let h5 = h4 @ be_u64 (sc_execute_at s) in
       case sc_idempotency_key s of
         Some k \<Rightarrow> hash_text (h5 @ [1]) k
       | None \<Rightarrow> Inr (h5 @ [0]))))))"

definition hash_list :: "(bytes \<Rightarrow> 'a \<Rightarrow> StoreError + bytes) \<Rightarrow> bytes \<Rightarrow> 'a list \<Rightarrow> StoreError + bytes" where
  "hash_list f h xs = bindR (hash_count h (length xs)) (\<lambda>h1. foldR f h1 xs)"

text \<open>What \<open>digest\<close> feeds to the hash after validation.\<close>

definition hash_batch :: "ulid_crate \<Rightarrow> CommitBatch \<Rightarrow> StoreError + bytes" where
  "hash_batch U b =
     bindR (hash_text (as_bytes ''RUNKU_COMMIT_BATCH_V1'')
       (resource_id_to_string U ''prj_'' (scope_project (cb_scope b)))) (\<lambda>h1.
     bindR (hash_text h1 (resource_id_to_string U ''env_'' (scope_environment (cb_scope b)))) (\<lambda>h2.
     bindR (hash_list (hash_read U) h2 (cb_reads b)) (\<lambda>h3.
     bindR (hash_list (hash_document U) h3 (cb_documents b)) (\<lambda>h4.
     bindR (hash_list (hash_index U) h4 (cb_indexes b)) (\<lambda>h5.
     bindR (hash_list (hash_event U) h5 (cb_outbox b)) (\<lambda>h6.
     bindR (hash_list (hash_schedule U) h6 (cb_schedules b)) (\<lambda>h7.
       case cb_intent_context b of
         None \<Rightarrow> Inr h7
       | Some c \<Rightarrow>
           bindR (hash_bytes h7 (as_bytes ''RUNKU_COMMIT_INTENT_CONTEXT_V1'')) (\<lambda>h8. hash_bytes h8 c))))))))"

definition commit_batch_digest ::
    "ulid_crate \<Rightarrow> (bytes \<Rightarrow> bytes) \<Rightarrow> CommitBatch \<Rightarrow> StoreError + bytes" where
  "commit_batch_digest U sha256 b =
     bindR (commit_batch_validate U b) (\<lambda>_.
     bindR (hash_batch U b) (\<lambda>preimage. Inr (sha256 preimage)))"

end
