(* ===== verification/Commit_Digest.thy ===== *)
theory Commit_Digest
  imports Commit_Batch
begin

text \<open>
  The digest of a commit batch identifies its content. The byte stream fed to SHA-256 is a
  composition of self-delimiting encodings, so two valid batches have the same stream exactly when
  they agree in everything but the operation identifier, which the stream leaves out.
\<close>

section \<open>What the Rust types guarantee\<close>

fun document_mutation_ok :: "DocumentMutation \<Rightarrow> bool" where
  "document_mutation_ok (Upsert _ _ _ v) = value_ok v"
| "document_mutation_ok (DeleteDocument _ _ _) = True"

fun index_mutation_ok :: "ulid_crate \<Rightarrow> IndexMutation \<Rightarrow> bool" where
  "index_mutation_ok U (PutIndex _ k _ _ _) = index_key_ok U k"
| "index_mutation_ok U (DeleteIndex _ k _) = index_key_ok U k"

definition outbox_append_ok :: "OutboxAppend \<Rightarrow> bool" where
  "outbox_append_ok e \<longleftrightarrow> value_ok (oa_payload e)"

definition schedule_insert_ok :: "ScheduledInvocationInsert \<Rightarrow> bool" where
  "schedule_insert_ok s \<longleftrightarrow>
     value_ok (sc_args s) \<and> function_name_from_str (sc_function s) = Inr (sc_function s)"

definition batch_typed :: "ulid_crate \<Rightarrow> CommitBatch \<Rightarrow> bool" where
  "batch_typed U b \<longleftrightarrow>
     list_all document_mutation_ok (cb_documents b) \<and> list_all (index_mutation_ok U) (cb_indexes b) \<and>
     list_all outbox_append_ok (cb_outbox b) \<and> list_all schedule_insert_ok (cb_schedules b)"

section \<open>Framed parts\<close>

definition any_ok :: "'a \<Rightarrow> bool" where
  "any_ok x \<longleftrightarrow> True"

definition id_bytes :: "ulid_crate \<Rightarrow> string \<Rightarrow> ulid \<Rightarrow> bytes" where
  "id_bytes U p u = frame (as_bytes (resource_id_to_string U p u))"

definition value_bytes :: "ulid_crate \<Rightarrow> CanonicalValue \<Rightarrow> bytes" where
  "value_bytes U v = STORED_MAGIC @ [STORED_VALUE_FORMAT_VERSION] @ stored_bytes U v"

definition value_fits :: "ulid_crate \<Rightarrow> CanonicalValue \<Rightarrow> bool" where
  "value_fits U v \<longleftrightarrow> value_ok v \<and> encode_stored_value U v = Inr (value_bytes U v)"

lemma id_length: "ulid_laws U \<Longrightarrow> p \<in> set resource_prefixes \<Longrightarrow> length (resource_id_to_string U p u) \<le> u32_max"
  using resource_prefixes_length [of p]
  by (simp add: resource_id_to_string_def ulid_laws_def u32_max_def)

lemma id_inject: "ulid_laws U \<Longrightarrow> resource_id_to_string U p u = resource_id_to_string U p w \<Longrightarrow> u = w"
  using resource_id_roundtrip [of U p] by (metis sum.inject(2))

lemma sd_id: "ulid_laws U \<Longrightarrow> p \<in> set resource_prefixes \<Longrightarrow> self_delimiting (id_bytes U p) any_ok"
  by (rule self_delimiting_comap [where e = frame and f = "\<lambda>u. as_bytes (resource_id_to_string U p u)",
        OF self_delimiting_frame])
    (simp_all add: id_bytes_def id_length id_inject)

lemma hash_text_id:
  assumes "ulid_laws U" and "p \<in> set resource_prefixes"
  shows "hash_text h (resource_id_to_string U p u) = Inr (h @ id_bytes U p u)"
  using id_length [OF assms] by (simp add: hash_text_def hash_bytes_def id_bytes_def frame_def not_less)

lemma encode_value_Inr: "encode_value U v = Inr bs \<longleftrightarrow> encode_stored_value U v = Inr bs"
  by (simp add: encode_value_def)

lemma encode_stored_value_bytes: "encode_stored_value U v = Inr bs \<Longrightarrow> bs = value_bytes U v"
  by (simp add: encode_stored_value_Inr value_bytes_def)

lemma value_fits_length: "value_fits U v \<Longrightarrow> length (value_bytes U v) \<le> u32_max"
  by (simp add: value_fits_def encode_stored_value_Inr value_bytes_def stored_limits STORED_MAGIC_def)

lemma value_fits_inject:
  assumes "ulid_laws U" and "value_fits U v" and "value_fits U w" and "value_bytes U v = value_bytes U w"
  shows "v = w"
proof -
  have "decode_stored_value U (value_bytes U v) = Inr v" "decode_stored_value U (value_bytes U w) = Inr w"
    using assms(2,3) decode_stored_value_iff [OF assms(1)] by (simp_all add: value_fits_def)
  with assms(4) show ?thesis by (metis sum.inject(2))
qed

definition value_enc :: "ulid_crate \<Rightarrow> CanonicalValue \<Rightarrow> bytes" where
  "value_enc U v = frame (value_bytes U v)"

lemma sd_value: "ulid_laws U \<Longrightarrow> self_delimiting (value_enc U) (value_fits U)"
  by (rule self_delimiting_comap [where e = frame and f = "value_bytes U", OF self_delimiting_frame])
    (auto simp: value_enc_def value_fits_length dest: value_fits_inject)

lemma hash_value:
  assumes "value_fits U v"
  shows "bindR (encode_value U v) (hash_bytes h) = Inr (h @ value_enc U v)"
proof -
  have "encode_value U v = Inr (value_bytes U v)" using assms by (simp add: encode_value_Inr value_fits_def)
  then show ?thesis using value_fits_length [OF assms] by (simp add: hash_bytes_def value_enc_def frame_def not_less)
qed

lemma key_inject:
  assumes "index_key_ok U k" and "index_key_ok U l" and "ulid_laws U" and "encoded k = encoded l"
  shows "k = l"
proof -
  have "index_key_decode U (encoded k) = Inr k" "index_key_decode U (encoded l) = Inr l"
    using assms(1,2) index_key_decode_iff [OF assms(3)] by (simp_all add: index_key_ok_def)
  with assms(4) show ?thesis by (metis sum.inject(2))
qed

lemma key_length: "index_key_ok U k \<Longrightarrow> length (encoded k) \<le> u32_max"
  by (cases k) (simp add: index_key_ok_def index_key_encode_Inr MAX_ENCODED_BYTES_def u32_max_def)

definition key_enc :: "IndexKey \<Rightarrow> bytes" where
  "key_enc k = frame (encoded k)"

definition text_enc :: "string \<Rightarrow> bytes" where
  "text_enc s = frame (as_bytes s)"

definition text_fits :: "string \<Rightarrow> bool" where
  "text_fits s \<longleftrightarrow> length s \<le> u32_max"

lemma sd_key: "ulid_laws U \<Longrightarrow> self_delimiting key_enc (index_key_ok U)"
  by (rule self_delimiting_comap [where e = frame and f = encoded, OF self_delimiting_frame])
    (auto simp: key_enc_def key_length dest: key_inject)

lemma sd_u64: "self_delimiting be_u64 any_ok"
  using be_u64.self_delimiting_axioms by (simp add: any_ok_def [abs_def])

lemma sd_text: "self_delimiting text_enc text_fits"
  by (rule self_delimiting_comap [where e = frame and f = as_bytes, OF self_delimiting_frame])
    (simp_all add: text_enc_def text_fits_def)

lemma hash_text_enc: "text_fits s \<Longrightarrow> hash_text h s = Inr (h @ text_enc s)"
  by (simp add: hash_text_def hash_bytes_def text_enc_def text_fits_def frame_def not_less)

definition pinned_enc :: "ulid_crate \<Rightarrow> PinnedCode \<Rightarrow> bytes" where
  "pinned_enc U p = text_enc (pinned_code_to_string U p)"

lemma pinned_length: "ulid_laws U \<Longrightarrow> text_fits (pinned_code_to_string U p)"
  by (cases p) (simp_all add: text_fits_def resource_id_to_string_def ulid_laws_def u32_max_def)

lemma pinned_inject:
  assumes "ulid_laws U" and "pinned_code_to_string U p = pinned_code_to_string U q"
  shows "p = q"
proof -
  have "pinned_code_from_str U (pinned_code_to_string U p) = Inr p"
    "pinned_code_from_str U (pinned_code_to_string U q) = Inr q"
    by (simp_all only: pinned_code_from_str_Inr [OF assms(1)])
  with assms(2) show ?thesis by (metis sum.inject(2))
qed

lemma sd_pinned: "ulid_laws U \<Longrightarrow> self_delimiting (pinned_enc U) any_ok"
  by (rule self_delimiting_comap [where e = text_enc and f = "pinned_code_to_string U", OF sd_text])
    (auto simp: pinned_enc_def pinned_length dest: pinned_inject)

section \<open>Items of a batch\<close>

fun expected_option :: "ExpectedRevision \<Rightarrow> u64 option" where
  "expected_option Absent = None"
| "expected_option (Exact r) = Some r"

definition read_parts :: "DocumentReadAssertion \<Rightarrow> TableId \<times> DocumentId \<times> u64 option" where
  "read_parts a = (ra_table_id a, ra_document_id a, ra_observed_revision a)"

definition read_enc :: "ulid_crate \<Rightarrow> TableId \<times> DocumentId \<times> u64 option \<Rightarrow> bytes" where
  "read_enc U = pair_enc (id_bytes U ''tbl_'') (pair_enc (id_bytes U ''doc_'') (option_enc be_u64))"

definition read_bytes :: "ulid_crate \<Rightarrow> DocumentReadAssertion \<Rightarrow> bytes" where
  "read_bytes U a = read_enc U (read_parts a)"

fun document_parts ::
    "DocumentMutation \<Rightarrow> (TableId \<times> DocumentId \<times> u64 option \<times> CanonicalValue) + (TableId \<times> DocumentId \<times> u64)" where
  "document_parts (Upsert t d e v) = Inl (t, d, expected_option e, v)"
| "document_parts (DeleteDocument t d r) = Inr (t, d, r)"

definition document_bytes :: "ulid_crate \<Rightarrow> DocumentMutation \<Rightarrow> bytes" where
  "document_bytes U m = sum_enc
     (pair_enc (id_bytes U ''tbl_'') (pair_enc (id_bytes U ''doc_'') (pair_enc (option_enc be_u64) (value_enc U))))
     (pair_enc (id_bytes U ''tbl_'') (pair_enc (id_bytes U ''doc_'') be_u64))
     (document_parts m)"

fun document_fits :: "ulid_crate \<Rightarrow> DocumentMutation \<Rightarrow> bool" where
  "document_fits U (Upsert _ _ _ v) = value_fits U v"
| "document_fits U (DeleteDocument _ _ _) = True"

fun index_parts ::
    "IndexMutation \<Rightarrow> (IndexId \<times> IndexKey \<times> TableId \<times> DocumentId \<times> u64) + (IndexId \<times> IndexKey \<times> DocumentId)" where
  "index_parts (PutIndex i k t d r) = Inl (i, k, t, d, r)"
| "index_parts (DeleteIndex i k d) = Inr (i, k, d)"

definition index_bytes :: "ulid_crate \<Rightarrow> IndexMutation \<Rightarrow> bytes" where
  "index_bytes U m = sum_enc
     (pair_enc (id_bytes U ''idx_'') (pair_enc key_enc
        (pair_enc (id_bytes U ''tbl_'') (pair_enc (id_bytes U ''doc_'') be_u64))))
     (pair_enc (id_bytes U ''idx_'') (pair_enc key_enc (id_bytes U ''doc_'')))
     (index_parts m)"

definition event_parts :: "OutboxAppend \<Rightarrow> OutboxEventId \<times> CanonicalValue" where
  "event_parts e = (oa_event_id e, oa_payload e)"

definition event_bytes :: "ulid_crate \<Rightarrow> OutboxAppend \<Rightarrow> bytes" where
  "event_bytes U e = pair_enc (id_bytes U ''evt_'') (value_enc U) (event_parts e)"

definition event_fits :: "ulid_crate \<Rightarrow> OutboxAppend \<Rightarrow> bool" where
  "event_fits U e \<longleftrightarrow> value_fits U (oa_payload e)"

definition schedule_parts ::
    "ScheduledInvocationInsert \<Rightarrow>
     ScheduledInvocationId \<times> PinnedCode \<times> FunctionName \<times> CanonicalValue \<times> TimestampMicros \<times> string option" where
  "schedule_parts s =
     (sc_id s, sc_pinned_code s, sc_function s, sc_args s, sc_execute_at s, sc_idempotency_key s)"

definition schedule_bytes :: "ulid_crate \<Rightarrow> ScheduledInvocationInsert \<Rightarrow> bytes" where
  "schedule_bytes U s =
     pair_enc (id_bytes U ''sch_'') (pair_enc (pinned_enc U) (pair_enc text_enc (pair_enc (value_enc U)
       (pair_enc be_u64 (option_enc text_enc)))))
     (schedule_parts s)"

definition schedule_fits :: "ulid_crate \<Rightarrow> ScheduledInvocationInsert \<Rightarrow> bool" where
  "schedule_fits U s \<longleftrightarrow> value_fits U (sc_args s) \<and> text_fits (sc_function s) \<and>
     option_ok text_fits (sc_idempotency_key s)"

lemma prefix_members:
  "''prj_'' \<in> set resource_prefixes" "''env_'' \<in> set resource_prefixes"
  "''tbl_'' \<in> set resource_prefixes" "''doc_'' \<in> set resource_prefixes"
  "''idx_'' \<in> set resource_prefixes" "''evt_'' \<in> set resource_prefixes"
  "''sch_'' \<in> set resource_prefixes" "''rel_'' \<in> set resource_prefixes"
  "''drv_'' \<in> set resource_prefixes" "''opn_'' \<in> set resource_prefixes"
  "''wrk_'' \<in> set resource_prefixes"
  by (simp_all add: resource_prefixes_def)

lemmas sd_intros = self_delimiting_pair self_delimiting_option self_delimiting_sum
  self_delimiting_counted sd_id prefix_members sd_value sd_key sd_u64 sd_text sd_pinned

lemma sd_read:
  assumes "ulid_laws U"
  shows "self_delimiting (read_bytes U) any_ok"
proof (rule self_delimiting_comap [where f = read_parts])
  show "self_delimiting (read_enc U) (pair_ok any_ok (pair_ok any_ok (option_ok any_ok)))"
    unfolding read_enc_def by (intro sd_intros assms)
qed (simp_all add: read_bytes_def read_parts_def enc_defs any_ok_def split: option.split)

lemma expected_option_inject: "expected_option e = expected_option f \<longleftrightarrow> e = f"
  by (cases e; cases f) auto

lemma document_parts_inject: "document_parts m = document_parts n \<Longrightarrow> m = n"
  by (cases m; cases n) (auto simp: expected_option_inject)

lemma sd_document:
  assumes "ulid_laws U"
  shows "self_delimiting (document_bytes U) (document_fits U)"
proof (rule self_delimiting_comap [where f = document_parts])
  show "self_delimiting (sum_enc
     (pair_enc (id_bytes U ''tbl_'') (pair_enc (id_bytes U ''doc_'') (pair_enc (option_enc be_u64) (value_enc U))))
     (pair_enc (id_bytes U ''tbl_'') (pair_enc (id_bytes U ''doc_'') be_u64)))
    (sum_ok (pair_ok any_ok (pair_ok any_ok (pair_ok (option_ok any_ok) (value_fits U))))
      (pair_ok any_ok (pair_ok any_ok any_ok)))"
    by (intro sd_intros assms)
  show "sum_ok (pair_ok any_ok (pair_ok any_ok (pair_ok (option_ok any_ok) (value_fits U))))
      (pair_ok any_ok (pair_ok any_ok any_ok)) (document_parts m)" if "document_fits U m" for m
    using that by (cases m) (simp_all add: enc_defs any_ok_def split: option.split)
qed (simp_all add: document_bytes_def document_parts_inject)

lemma index_parts_inject: "index_parts m = index_parts n \<Longrightarrow> m = n"
  by (cases m; cases n) auto

lemma sd_index:
  assumes "ulid_laws U"
  shows "self_delimiting (index_bytes U) (index_mutation_ok U)"
proof (rule self_delimiting_comap [where f = index_parts])
  let ?ok = "sum_ok (pair_ok any_ok (pair_ok (index_key_ok U) (pair_ok any_ok (pair_ok any_ok any_ok))))
    (pair_ok any_ok (pair_ok (index_key_ok U) any_ok))"
  show "self_delimiting (sum_enc
     (pair_enc (id_bytes U ''idx_'') (pair_enc key_enc
        (pair_enc (id_bytes U ''tbl_'') (pair_enc (id_bytes U ''doc_'') be_u64))))
     (pair_enc (id_bytes U ''idx_'') (pair_enc key_enc (id_bytes U ''doc_'')))) ?ok"
    by (intro sd_intros assms)
  show "?ok (index_parts m)" if "index_mutation_ok U m" for m
    using that by (cases m) (simp_all add: enc_defs any_ok_def)
qed (simp_all add: index_bytes_def index_parts_inject)

lemma sd_event:
  assumes "ulid_laws U"
  shows "self_delimiting (event_bytes U) (event_fits U)"
proof (rule self_delimiting_comap [where f = event_parts])
  show "self_delimiting (pair_enc (id_bytes U ''evt_'') (value_enc U)) (pair_ok any_ok (value_fits U))"
    by (intro sd_intros assms)
qed (simp_all add: event_bytes_def event_parts_def event_fits_def enc_defs any_ok_def)

lemma sd_schedule:
  assumes "ulid_laws U"
  shows "self_delimiting (schedule_bytes U) (schedule_fits U)"
proof (rule self_delimiting_comap [where f = schedule_parts])
  show "self_delimiting (pair_enc (id_bytes U ''sch_'') (pair_enc (pinned_enc U) (pair_enc text_enc
      (pair_enc (value_enc U) (pair_enc be_u64 (option_enc text_enc))))))
    (pair_ok any_ok (pair_ok any_ok (pair_ok text_fits (pair_ok (value_fits U)
      (pair_ok any_ok (option_ok text_fits))))))"
    by (intro sd_intros assms)
qed (simp_all add: schedule_bytes_def schedule_parts_def schedule_fits_def enc_defs any_ok_def)

section \<open>The stream is the composition of the parts\<close>

lemma hash_read_eq: "ulid_laws U \<Longrightarrow> hash_read U h a = Inr (h @ read_bytes U a)"
  by (simp add: hash_read_def hash_text_id prefix_members read_bytes_def read_enc_def read_parts_def enc_defs
      split: option.split)

lemma hash_expected_eq: "hash_expected h e = h @ option_enc be_u64 (expected_option e)"
  by (cases e) (simp_all add: enc_defs)

lemma hash_document_eq:
  "ulid_laws U \<Longrightarrow> document_fits U m \<Longrightarrow> hash_document U h m = Inr (h @ document_bytes U m)"
  by (cases m) (simp_all add: hash_text_id prefix_members document_bytes_def enc_defs hash_value
      hash_expected_eq)

lemma hash_key: "index_key_ok U k \<Longrightarrow> hash_bytes h (encoded k) = Inr (h @ key_enc k)"
  using key_length [of U k] by (simp add: hash_bytes_def key_enc_def frame_def not_less)

lemma hash_index_eq:
  "ulid_laws U \<Longrightarrow> index_mutation_ok U m \<Longrightarrow> hash_index U h m = Inr (h @ index_bytes U m)"
  by (cases m) (simp_all add: hash_text_id prefix_members index_bytes_def enc_defs hash_key)

lemma hash_event_eq:
  "ulid_laws U \<Longrightarrow> event_fits U e \<Longrightarrow> hash_event U h e = Inr (h @ event_bytes U e)"
  by (simp add: hash_event_def hash_text_id prefix_members event_bytes_def event_parts_def event_fits_def
      enc_defs hash_value)

lemma hash_schedule_eq:
  assumes "ulid_laws U" and "schedule_fits U s"
  shows "hash_schedule U h s = Inr (h @ schedule_bytes U s)"
proof -
  have v: "value_fits U (sc_args s)" and f: "text_fits (sc_function s)"
    and k: "option_ok text_fits (sc_idempotency_key s)" using assms(2) by (simp_all add: schedule_fits_def)
  from v have enc: "encode_value U (sc_args s) = Inr (value_bytes U (sc_args s))"
    by (simp add: encode_value_Inr value_fits_def)
  then have hv: "hash_bytes h' (value_bytes U (sc_args s)) = Inr (h' @ value_enc U (sc_args s))" for h'
    using hash_value [OF v, of h'] by simp
  show ?thesis
    using assms(1) f k enc
    by (simp add: hash_schedule_def hash_text_id prefix_members hash_text_enc pinned_length hv Let_def
        schedule_bytes_def schedule_parts_def pinned_enc_def enc_defs split: option.splits)
qed

lemma foldR_stream:
  assumes "\<And>h x. x \<in> set xs \<Longrightarrow> f h x = Inr (h @ e x)"
  shows "foldR f h xs = Inr (h @ concat (map e xs))"
  using assms by (induction xs arbitrary: h) auto

lemma hash_list_eq:
  assumes "length xs \<le> u32_max" and "\<And>h x. x \<in> set xs \<Longrightarrow> f h x = Inr (h @ e x)"
  shows "hash_list f h xs = Inr (h @ counted e xs)"
  using assms foldR_stream [of xs f e] by (simp add: hash_list_def hash_count_def counted_def not_less)

section \<open>Validation implies that every part fits\<close>

lemma foldR_steps:
  assumes "foldR f s xs = Inr t" and "x \<in> set xs"
  shows "\<exists>a b. f a x = Inr b"
  using assms by (induction xs arbitrary: s) auto

lemma add_value_fits: "add_value U t v = Inr n \<Longrightarrow> value_ok v \<Longrightarrow> value_fits U v"
  by (auto simp: add_value_def encode_value_Inr value_fits_def dest: encode_stored_value_bytes)

lemma payload_fits:
  assumes "payload_bytes U b = Inr n" and "batch_typed U b"
  shows "list_all (document_fits U) (cb_documents b)" "list_all (event_fits U) (cb_outbox b)"
    "list_all (\<lambda>s. value_fits U (sc_args s)) (cb_schedules b)"
proof -
  from assms(1) obtain t1 t2 t3 where d: "foldR (add_document U) 0 (cb_documents b) = Inr t1"
    and o: "foldR (\<lambda>t e. add_value U t (oa_payload e)) t2 (cb_outbox b) = Inr t3"
    and s: "foldR (\<lambda>t s. add_value U t (sc_args s)) t3 (cb_schedules b) = Inr n"
    by (auto simp: payload_bytes_def)
  show "list_all (document_fits U) (cb_documents b)"
    unfolding list_all_iff
  proof
    fix m assume m: "m \<in> set (cb_documents b)"
    moreover from this have "document_mutation_ok m" using assms(2) by (simp add: batch_typed_def list_all_iff)
    ultimately show "document_fits U m" using foldR_steps [OF d m]
      by (cases m rule: DocumentMutation.exhaust) (auto dest: add_value_fits)
  qed
  show "list_all (event_fits U) (cb_outbox b)"
    using foldR_steps [OF o] assms(2)
    by (simp add: list_all_iff batch_typed_def outbox_append_ok_def event_fits_def) (metis add_value_fits)
  show "list_all (\<lambda>s. value_fits U (sc_args s)) (cb_schedules b)"
    using foldR_steps [OF s] assms(2)
    by (simp add: list_all_iff batch_typed_def schedule_insert_ok_def) (metis add_value_fits)
qed

lemma function_name_fits: "function_name_from_str s = Inr s \<Longrightarrow> text_fits s"
  by (auto simp: function_name_from_str_def text_fits_def FUNCTION_NAME_MAX_BYTES_def u32_max_def
      split: list.splits if_splits)

lemma check_schedule_key:
  "check_schedule st s = Inr st' \<Longrightarrow> option_ok text_fits (sc_idempotency_key s)"
  by (auto simp: check_schedule_def enc_defs text_fits_def u32_max_def split: prod.splits if_splits option.splits)

lemma validate_parts:
  assumes "commit_batch_validate U b = Inr u"
  shows "\<not> batch_over_limits b" "\<exists>n. payload_bytes U b = Inr n"
    "\<exists>st. foldR check_schedule ([], []) (cb_schedules b) = Inr st"
  using assms by (auto simp: commit_batch_validate_def split: if_splits)

definition batch_fits :: "ulid_crate \<Rightarrow> CommitBatch \<Rightarrow> bool" where
  "batch_fits U b \<longleftrightarrow>
     length (cb_reads b) \<le> u32_max \<and>
     length (cb_documents b) \<le> u32_max \<and> list_all (document_fits U) (cb_documents b) \<and>
     length (cb_indexes b) \<le> u32_max \<and> list_all (index_mutation_ok U) (cb_indexes b) \<and>
     length (cb_outbox b) \<le> u32_max \<and> list_all (event_fits U) (cb_outbox b) \<and>
     length (cb_schedules b) \<le> u32_max \<and> list_all (schedule_fits U) (cb_schedules b) \<and>
     option_ok (\<lambda>c. length c \<le> u32_max) (cb_intent_context b)"

lemma valid_batch_fits:
  assumes "commit_batch_validate U b = Inr u" and "batch_typed U b"
  shows "batch_fits U b"
proof -
  obtain n st where n: "payload_bytes U b = Inr n"
    and st: "foldR check_schedule ([], []) (cb_schedules b) = Inr st"
    using validate_parts [OF assms(1)] by blast
  have "option_ok text_fits (sc_idempotency_key s)" if "s \<in> set (cb_schedules b)" for s
    using foldR_steps [OF st that] check_schedule_key by blast
  then have "list_all (schedule_fits U) (cb_schedules b)"
    using payload_fits(3) [OF n assms(2)] assms(2)
    by (simp add: list_all_iff schedule_fits_def batch_typed_def schedule_insert_ok_def function_name_fits)
  moreover have "length (cb_reads b) \<le> u32_max" "length (cb_documents b) \<le> u32_max"
    "length (cb_indexes b) \<le> u32_max" "length (cb_outbox b) \<le> u32_max" "length (cb_schedules b) \<le> u32_max"
    "option_ok (\<lambda>c. length c \<le> u32_max) (cb_intent_context b)"
    using validate_parts(1) [OF assms(1)]
    by (simp_all add: batch_over_limits_def COMMIT_LIMITS_V1_def MAX_INTENT_CONTEXT_BYTES_def u32_max_def
        option_ok_def split: option.splits)
  ultimately show ?thesis
    using payload_fits [OF n assms(2)] assms(2) by (simp add: batch_fits_def batch_typed_def)
qed

section \<open>The stream determines the batch\<close>

definition context_bytes :: "bytes option \<Rightarrow> bytes" where
  "context_bytes c = (case c of None \<Rightarrow> []
     | Some c \<Rightarrow> frame (as_bytes ''RUNKU_COMMIT_INTENT_CONTEXT_V1'') @ frame c)"

definition batch_parts ::
    "CommitBatch \<Rightarrow> ProjectId \<times> EnvironmentId \<times> DocumentReadAssertion list \<times> DocumentMutation list
       \<times> IndexMutation list \<times> OutboxAppend list \<times> ScheduledInvocationInsert list" where
  "batch_parts b =
     (scope_project (cb_scope b), scope_environment (cb_scope b), cb_reads b, cb_documents b,
      cb_indexes b, cb_outbox b, cb_schedules b)"

definition parts_enc :: "ulid_crate \<Rightarrow>
    ProjectId \<times> EnvironmentId \<times> DocumentReadAssertion list \<times> DocumentMutation list
       \<times> IndexMutation list \<times> OutboxAppend list \<times> ScheduledInvocationInsert list \<Rightarrow> bytes" where
  "parts_enc U = pair_enc (id_bytes U ''prj_'') (pair_enc (id_bytes U ''env_'')
     (pair_enc (counted (read_bytes U)) (pair_enc (counted (document_bytes U))
     (pair_enc (counted (index_bytes U)) (pair_enc (counted (event_bytes U)) (counted (schedule_bytes U)))))))"

definition many_ok :: "('a \<Rightarrow> bool) \<Rightarrow> 'a list \<Rightarrow> bool" where
  "many_ok P xs \<longleftrightarrow> length xs \<le> u32_max \<and> list_all P xs"

lemma sd_many: "self_delimiting e P \<Longrightarrow> self_delimiting (counted e) (many_ok P)"
  using self_delimiting_counted [of e P] by (simp add: many_ok_def [abs_def])

lemma sd_parts:
  assumes "ulid_laws U"
  shows "self_delimiting (parts_enc U) (pair_ok any_ok (pair_ok any_ok (pair_ok (many_ok any_ok)
    (pair_ok (many_ok (document_fits U)) (pair_ok (many_ok (index_mutation_ok U))
    (pair_ok (many_ok (event_fits U)) (many_ok (schedule_fits U))))))))"
  unfolding parts_enc_def
  by (intro self_delimiting_pair sd_many sd_id prefix_members sd_read sd_document sd_index sd_event
      sd_schedule assms)

definition batch_bytes :: "ulid_crate \<Rightarrow> CommitBatch \<Rightarrow> bytes" where
  "batch_bytes U b = as_bytes ''RUNKU_COMMIT_BATCH_V1'' @ parts_enc U (batch_parts b)
     @ context_bytes (cb_intent_context b)"

lemma hash_batch_eq:
  assumes "ulid_laws U" and "batch_fits U b"
  shows "hash_batch U b = Inr (batch_bytes U b)"
proof -
  note fits = assms(2) [unfolded batch_fits_def]
  have lists: "hash_list (hash_read U) h (cb_reads b) = Inr (h @ counted (read_bytes U) (cb_reads b))"
    "hash_list (hash_document U) h (cb_documents b) = Inr (h @ counted (document_bytes U) (cb_documents b))"
    "hash_list (hash_index U) h (cb_indexes b) = Inr (h @ counted (index_bytes U) (cb_indexes b))"
    "hash_list (hash_event U) h (cb_outbox b) = Inr (h @ counted (event_bytes U) (cb_outbox b))"
    "hash_list (hash_schedule U) h (cb_schedules b) = Inr (h @ counted (schedule_bytes U) (cb_schedules b))"
    for h
    using fits assms(1)
    by (auto intro!: hash_list_eq hash_read_eq hash_document_eq hash_index_eq hash_event_eq hash_schedule_eq
        simp: list_all_iff)
  have frames: "hash_bytes h bs = Inr (h @ frame bs)" if "length bs \<le> u32_max" for h bs
    using that by (simp add: hash_bytes_def frame_def not_less)
  have magic: "length (as_bytes ''RUNKU_COMMIT_INTENT_CONTEXT_V1'') \<le> u32_max"
    by (simp add: u32_max_def)
  show ?thesis
    unfolding hash_batch_def hash_text_id [OF assms(1) prefix_members(1)]
      hash_text_id [OF assms(1) prefix_members(2)] lists bindR_simps
    using fits frames magic
    by (cases "cb_intent_context b")
      (simp_all add: batch_bytes_def parts_enc_def batch_parts_def enc_defs context_bytes_def)
qed

lemma context_bytes_inject:
  assumes "context_bytes c = context_bytes d"
    and "option_ok (\<lambda>c. length c \<le> u32_max) c" and "option_ok (\<lambda>c. length c \<le> u32_max) d"
  shows "c = d"
proof -
  have ne: "frame (as_bytes ''RUNKU_COMMIT_INTENT_CONTEXT_V1'') @ r \<noteq> []" for r by (simp add: frame_def)
  show ?thesis
  proof (cases c; cases d)
    fix x y assume cd: "c = Some x" "d = Some y"
    with assms(1) have "frame x = frame y" by (simp only: context_bytes_def option.case same_append_eq)
    then have "x = y"
      using assms(2,3) cd self_delimiting.enc_inject [OF self_delimiting_frame, of x y]
      by (simp add: option_ok_def)
    with cd show "c = d" by simp
  qed (use assms(1) ne ne [THEN not_sym] in \<open>simp_all only: context_bytes_def option.case\<close>)
qed

lemma batch_bytes_inject:
  assumes "ulid_laws U" and "batch_fits U b" and "batch_fits U c"
  shows "batch_bytes U b = batch_bytes U c \<longleftrightarrow>
    batch_parts b = batch_parts c \<and> cb_intent_context b = cb_intent_context c"
proof
  assume "batch_bytes U b = batch_bytes U c"
  then have "parts_enc U (batch_parts b) @ context_bytes (cb_intent_context b) =
      parts_enc U (batch_parts c) @ context_bytes (cb_intent_context c)" by (simp only: batch_bytes_def same_append_eq)
  then have parts: "batch_parts b = batch_parts c \<and>
      context_bytes (cb_intent_context b) = context_bytes (cb_intent_context c)"
    by (rule self_delimiting.split_unique [OF sd_parts [OF assms(1)], rotated 2])
      (use assms(2,3) in \<open>simp_all add: batch_fits_def batch_parts_def enc_defs any_ok_def many_ok_def list_all_iff\<close>)
  have "cb_intent_context b = cb_intent_context c"
    by (rule context_bytes_inject) (use parts assms(2,3) in \<open>simp_all add: batch_fits_def option_ok_def\<close>)
  with parts show "batch_parts b = batch_parts c \<and> cb_intent_context b = cb_intent_context c" by simp
qed (simp add: batch_bytes_def)

text \<open>Two batches agree in everything but the operation identifier.\<close>

definition same_content :: "CommitBatch \<Rightarrow> CommitBatch \<Rightarrow> bool" where
  "same_content b c \<longleftrightarrow> c = b\<lparr>cb_operation_id := cb_operation_id c\<rparr>"

lemma same_content_parts:
  "same_content b c \<longleftrightarrow> batch_parts b = batch_parts c \<and> cb_intent_context b = cb_intent_context c"
  by (cases b; cases c; cases "cb_scope b"; cases "cb_scope c") (auto simp: same_content_def batch_parts_def)

lemma digest_of_valid:
  assumes "ulid_laws U" and "batch_typed U b" and "commit_batch_validate U b = Inr ()"
  shows "commit_batch_digest U sha256 b = Inr (sha256 (batch_bytes U b))"
  using hash_batch_eq [OF assms(1) valid_batch_fits [OF assms(3,2)]] assms(3)
  by (simp add: commit_batch_digest_def)

end
