(* ===== verification/Commit_Validation.thy ===== *)
theory Commit_Validation
  imports Commit_Digest
begin

text \<open>
  What \<open>CommitBatch::validate\<close> accepts, without its loops: non-empty, within the counts, positive
  revisions, no key twice in any of its lists, and at most eight MiB of encoded payload.
\<close>

section \<open>The loops\<close>

lemma foldR_unique:
  assumes step: "\<And>seen x t. f seen x = Inr t \<longleftrightarrow> good x \<and> key x \<notin> set seen \<and> t = key x # seen"
  shows "(\<exists>t. foldR f seen xs = Inr t) \<longleftrightarrow>
    list_all good xs \<and> distinct (map key xs) \<and> set (map key xs) \<inter> set seen = {}"
  by (induction xs arbitrary: seen) (auto simp: step)

definition read_key :: "DocumentReadAssertion \<Rightarrow> TableId \<times> DocumentId" where
  "read_key a = (ra_table_id a, ra_document_id a)"

definition mutation_key :: "DocumentMutation \<Rightarrow> TableId \<times> DocumentId" where
  "mutation_key m = (mutation_table_id m, mutation_document_id m)"

lemma check_reads_iff:
  "(\<exists>t. foldR check_read [] xs = Inr t) \<longleftrightarrow>
     list_all (\<lambda>a. ra_observed_revision a \<noteq> Some 0) xs \<and> distinct (map read_key xs)"
  by (subst foldR_unique [where key = read_key and good = "\<lambda>a. ra_observed_revision a \<noteq> Some 0"])
    (auto simp: check_read_def read_key_def Let_def)

lemma check_documents_iff:
  "(\<exists>t. foldR check_document [] xs = Inr t) \<longleftrightarrow>
     list_all (\<lambda>m. \<not> mutation_revision_zero m) xs \<and> distinct (map mutation_key xs)"
  by (subst foldR_unique [where key = mutation_key and good = "\<lambda>m. \<not> mutation_revision_zero m"])
    (auto simp: check_document_def mutation_key_def Let_def)

lemma check_indexes_iff:
  "(\<exists>t. foldR check_index [] xs = Inr t) \<longleftrightarrow>
     list_all (\<lambda>m. \<not> put_revision_zero m) xs \<and> distinct (map index_mutation_identity xs)"
  by (subst foldR_unique [where key = index_mutation_identity and good = "\<lambda>m. \<not> put_revision_zero m"])
    (auto simp: check_index_def Let_def)

lemma check_events_iff:
  "(\<exists>t. foldR check_event [] xs = Inr t) \<longleftrightarrow> distinct (map oa_event_id xs)"
  by (subst foldR_unique [where key = oa_event_id and good = "\<lambda>_. True"])
    (auto simp: check_event_def list_all_iff)

definition schedule_keys :: "ScheduledInvocationInsert list \<Rightarrow> string list" where
  "schedule_keys ss = List.map_filter sc_idempotency_key ss"

lemma schedule_keys_simps [simp]:
  "schedule_keys [] = []"
  "schedule_keys (s # ss) =
     (case sc_idempotency_key s of None \<Rightarrow> schedule_keys ss | Some k \<Rightarrow> k # schedule_keys ss)"
  by (simp_all add: schedule_keys_def map_filter_def split: option.split)

lemma check_schedules_from:
  "(\<exists>t. foldR check_schedule (ids, keys) xs = Inr t) \<longleftrightarrow>
     distinct (map sc_id xs) \<and> set (map sc_id xs) \<inter> set ids = {} \<and>
     list_all (\<lambda>k. k \<noteq> [] \<and> length k \<le> 128) (schedule_keys xs) \<and>
     distinct (schedule_keys xs) \<and> set (schedule_keys xs) \<inter> set keys = {}"
proof (induction xs arbitrary: ids keys)
  case (Cons s xs)
  have step: "check_schedule (ids, keys) s = Inr t \<longleftrightarrow>
      sc_id s \<notin> set ids \<and>
      (case sc_idempotency_key s of None \<Rightarrow> t = (sc_id s # ids, keys)
       | Some k \<Rightarrow> k \<noteq> [] \<and> length k \<le> 128 \<and> k \<notin> set keys \<and> t = (sc_id s # ids, k # keys))" for t
    by (auto simp: check_schedule_def split: option.splits if_splits)
  have "(\<exists>t. foldR check_schedule (ids, keys) (s # xs) = Inr t) \<longleftrightarrow>
      sc_id s \<notin> set ids \<and>
      (case sc_idempotency_key s of None \<Rightarrow> \<exists>t. foldR check_schedule (sc_id s # ids, keys) xs = Inr t
       | Some k \<Rightarrow> k \<noteq> [] \<and> length k \<le> 128 \<and> k \<notin> set keys \<and>
           (\<exists>t. foldR check_schedule (sc_id s # ids, k # keys) xs = Inr t))"
    unfolding foldR.simps bindR_Inr step by (cases "sc_idempotency_key s") (simp_all only: option.case, blast+)
  then show ?case
    unfolding Cons.IH by (cases "sc_idempotency_key s") auto
qed simp

lemma check_schedules_iff:
  "(\<exists>t. foldR check_schedule ([], []) xs = Inr t) \<longleftrightarrow>
     distinct (map sc_id xs) \<and>
     list_all (\<lambda>k. k \<noteq> [] \<and> length k \<le> 128) (schedule_keys xs) \<and> distinct (schedule_keys xs)"
  using check_schedules_from [of "[]" "[]" xs] by simp

section \<open>The payload\<close>

definition encodable :: "ulid_crate \<Rightarrow> CanonicalValue \<Rightarrow> bool" where
  "encodable U v \<longleftrightarrow> encode_stored_value U v = Inr (value_bytes U v)"

fun document_payload :: "ulid_crate \<Rightarrow> DocumentMutation \<Rightarrow> nat" where
  "document_payload U (Upsert _ _ _ v) = length (value_bytes U v)"
| "document_payload U (DeleteDocument _ _ _) = 0"

fun document_encodable :: "ulid_crate \<Rightarrow> DocumentMutation \<Rightarrow> bool" where
  "document_encodable U (Upsert _ _ _ v) = encodable U v"
| "document_encodable U (DeleteDocument _ _ _) = True"

definition key_payload :: "IndexMutation \<Rightarrow> nat" where
  "key_payload m = length (fst (snd (index_mutation_identity m)))"

definition payload_size :: "ulid_crate \<Rightarrow> CommitBatch \<Rightarrow> nat" where
  "payload_size U b =
     sum_list (map (document_payload U) (cb_documents b)) + sum_list (map key_payload (cb_indexes b)) +
     sum_list (map (\<lambda>e. length (value_bytes U (oa_payload e))) (cb_outbox b)) +
     sum_list (map (\<lambda>s. length (value_bytes U (sc_args s))) (cb_schedules b))"

abbreviation max_payload :: nat where
  "max_payload \<equiv> limit_payload_bytes COMMIT_LIMITS_V1"

lemma add_payload_Inr: "add_payload t n = Inr m \<longleftrightarrow> m = t + n \<and> t + n \<le> max_payload"
  by (auto simp: add_payload_def checked_add_usize_def COMMIT_LIMITS_V1_def)

lemma add_value_Inr:
  "add_value U t v = Inr m \<longleftrightarrow>
     encodable U v \<and> m = t + length (value_bytes U v) \<and> t + length (value_bytes U v) \<le> max_payload"
  by (auto simp: add_value_def encode_value_Inr encodable_def add_payload_Inr dest: encode_stored_value_bytes)

text \<open>A loop that adds up sizes below the limit.\<close>

lemma foldR_sum:
  fixes size_of :: "'a \<Rightarrow> nat"
  assumes step: "\<And>t x m. t \<le> L \<Longrightarrow> f t x = Inr m \<longleftrightarrow> good x \<and> m = t + size_of x \<and> t + size_of x \<le> L"
    and "t \<le> L"
  shows "foldR f t xs = Inr m \<longleftrightarrow>
    list_all good xs \<and> m = t + sum_list (map size_of xs) \<and> t + sum_list (map size_of xs) \<le> L"
  using assms(2)
proof (induction xs arbitrary: t)
  case (Cons x xs)
  show ?case
  proof (cases "good x \<and> t + size_of x \<le> L")
    case True
    then have "f t x = Inr (t + size_of x)" using step [OF Cons.prems] by simp
    then show ?thesis using Cons.IH [of "t + size_of x"] True by (simp add: add.assoc)
  next
    case False
    then have "\<nexists>s. f t x = Inr s" using step [OF Cons.prems] by blast
    then have "\<nexists>m. foldR f t (x # xs) = Inr m" by simp
    moreover have "\<not> (good x \<and> t + (size_of x + sum_list (map size_of xs)) \<le> L)" using False
      by (cases "good x") simp_all
    ultimately show ?thesis by auto
  qed
qed auto

lemma add_document_Inr:
  "t \<le> max_payload \<Longrightarrow> add_document U t x = Inr m \<longleftrightarrow>
     document_encodable U x \<and> m = t + document_payload U x \<and> t + document_payload U x \<le> max_payload"
  by (cases x) (auto simp: add_value_Inr)

lemma payload_bytes_Inr:
  "payload_bytes U b = Inr n \<longleftrightarrow>
     list_all (document_encodable U) (cb_documents b) \<and>
     list_all (\<lambda>e. encodable U (oa_payload e)) (cb_outbox b) \<and>
     list_all (\<lambda>s. encodable U (sc_args s)) (cb_schedules b) \<and>
     n = payload_size U b \<and> payload_size U b \<le> max_payload"
proof -
  have d: "foldR (add_document U) 0 xs = Inr m \<longleftrightarrow>
      list_all (document_encodable U) xs \<and> m = sum_list (map (document_payload U) xs) \<and>
      sum_list (map (document_payload U) xs) \<le> max_payload" for xs m
    by (subst foldR_sum [where L = max_payload and good = "document_encodable U" and size_of = "document_payload U"])
      (simp_all add: add_document_Inr)
  have i: "foldR (\<lambda>t m. case index_mutation_identity m of (_, k, _) \<Rightarrow> add_payload t (length k)) t xs = Inr m \<longleftrightarrow>
      m = t + sum_list (map key_payload xs) \<and> t + sum_list (map key_payload xs) \<le> max_payload"
    if "t \<le> max_payload" for t xs m
    using that
    by (subst foldR_sum [where L = max_payload and good = "\<lambda>_. True" and size_of = key_payload])
      (auto simp: key_payload_def add_payload_Inr list_all_iff split: prod.splits)
  have v: "foldR (\<lambda>t e. add_value U t (h e)) t xs = Inr m \<longleftrightarrow>
      list_all (\<lambda>e. encodable U (h e)) xs \<and> m = t + sum_list (map (\<lambda>e. length (value_bytes U (h e))) xs) \<and>
      t + sum_list (map (\<lambda>e. length (value_bytes U (h e))) xs) \<le> max_payload"
    if "t \<le> max_payload" for h :: "'x \<Rightarrow> CanonicalValue" and t xs m
    using that
    by (subst foldR_sum [where L = max_payload and good = "\<lambda>e. encodable U (h e)"
          and size_of = "\<lambda>e. length (value_bytes U (h e))"])
      (auto simp: add_value_Inr)
  show ?thesis
    unfolding payload_bytes_def payload_size_def bindR_Inr d
    by (auto simp: i v)
qed

section \<open>Valid batches\<close>

text \<open>
  The documented contract, in numbers and without the code's own predicates: the batch writes
  something; its lists have at most 10000 reads, 1000 documents, 10000 index entries, 100 events and
  100 schedules; an intent context has 1 to 1024 bytes; no revision is zero; no document is read or
  written twice, no index entry changed twice, no event or schedule identifier used twice; a schedule
  key has 1 to 128 bytes and is used once; every value is encodable; values and index keys together
  take at most 8388608 bytes.
\<close>

fun document_value :: "DocumentMutation \<Rightarrow> CanonicalValue list" where
  "document_value (Upsert _ _ _ v) = [v]"
| "document_value (DeleteDocument _ _ _) = []"

definition batch_values :: "CommitBatch \<Rightarrow> CanonicalValue list" where
  "batch_values b = concat (map document_value (cb_documents b)) @ map oa_payload (cb_outbox b) @ map sc_args (cb_schedules b)"

definition batch_valid :: "ulid_crate \<Rightarrow> CommitBatch \<Rightarrow> bool" where
  "batch_valid U b \<longleftrightarrow>
     (cb_documents b \<noteq> [] \<or> cb_indexes b \<noteq> [] \<or> cb_outbox b \<noteq> [] \<or> cb_schedules b \<noteq> []) \<and>
     length (cb_reads b) \<le> 10000 \<and> length (cb_documents b) \<le> 1000 \<and> length (cb_indexes b) \<le> 10000 \<and>
     length (cb_outbox b) \<le> 100 \<and> length (cb_schedules b) \<le> 100 \<and>
     (\<forall>c. cb_intent_context b = Some c \<longrightarrow> 1 \<le> length c \<and> length c \<le> 1024) \<and>
     (\<forall>a \<in> set (cb_reads b). ra_observed_revision a \<noteq> Some 0) \<and>
     (\<forall>t d v. Upsert t d (Exact 0) v \<notin> set (cb_documents b)) \<and>
     (\<forall>t d. DeleteDocument t d 0 \<notin> set (cb_documents b)) \<and>
     (\<forall>i k t d. PutIndex i k t d 0 \<notin> set (cb_indexes b)) \<and>
     distinct (map read_key (cb_reads b)) \<and> distinct (map mutation_key (cb_documents b)) \<and>
     distinct (map index_mutation_identity (cb_indexes b)) \<and>
     distinct (map oa_event_id (cb_outbox b)) \<and> distinct (map sc_id (cb_schedules b)) \<and>
     distinct (schedule_keys (cb_schedules b)) \<and>
     (\<forall>k \<in> set (schedule_keys (cb_schedules b)). 1 \<le> length k \<and> length k \<le> 128) \<and>
     (\<forall>v \<in> set (batch_values b). \<exists>bs. encode_stored_value U v = Inr bs) \<and>
     sum_list (map (\<lambda>v. length (value_bytes U v)) (batch_values b)) +
       sum_list (map (\<lambda>m. length (fst (snd (index_mutation_identity m)))) (cb_indexes b)) \<le> 8388608"

lemma batch_over_limits_iff:
  "batch_over_limits b \<longleftrightarrow>
     \<not> (length (cb_reads b) \<le> 10000 \<and> length (cb_documents b) \<le> 1000 \<and> length (cb_indexes b) \<le> 10000 \<and>
        length (cb_outbox b) \<le> 100 \<and> length (cb_schedules b) \<le> 100 \<and>
        (\<forall>c. cb_intent_context b = Some c \<longrightarrow> 1 \<le> length c \<and> length c \<le> 1024))"
  by (cases "cb_intent_context b")
    (auto simp: batch_over_limits_def COMMIT_LIMITS_V1_def MAX_INTENT_CONTEXT_BYTES_def Suc_le_eq)

lemma mutation_revisions_iff:
  "list_all (\<lambda>m. \<not> mutation_revision_zero m) ms \<longleftrightarrow>
     (\<forall>t d v. Upsert t d (Exact 0) v \<notin> set ms) \<and> (\<forall>t d. DeleteDocument t d 0 \<notin> set ms)"
proof -
  have "mutation_revision_zero m \<longleftrightarrow> (\<exists>t d v. m = Upsert t d (Exact 0) v) \<or> (\<exists>t d. m = DeleteDocument t d 0)" for m
    by (cases m rule: mutation_revision_zero.cases) auto
  then show ?thesis by (auto simp: list_all_iff)
qed

lemma put_revisions_iff:
  "list_all (\<lambda>m. \<not> put_revision_zero m) ms \<longleftrightarrow> (\<forall>i k t d. PutIndex i k t d 0 \<notin> set ms)"
proof -
  have "put_revision_zero m \<longleftrightarrow> (\<exists>i k t d. m = PutIndex i k t d 0)" for m by (cases m) auto
  then show ?thesis by (auto simp: list_all_iff)
qed

lemma encodable_iff: "encodable U v \<longleftrightarrow> (\<exists>bs. encode_stored_value U v = Inr bs)"
  by (auto simp: encodable_def dest: encode_stored_value_bytes)

lemma document_values:
  "list_all (document_encodable U) ms \<longleftrightarrow> (\<forall>v \<in> set (concat (map document_value ms)). encodable U v)"
  "sum_list (map (document_payload U) ms) =
     sum_list (map (\<lambda>v. length (value_bytes U v)) (concat (map document_value ms)))"
proof -
  have "document_encodable U m \<longleftrightarrow> (\<forall>v \<in> set (document_value m). encodable U v)"
    "document_payload U m = sum_list (map (\<lambda>v. length (value_bytes U v)) (document_value m))" for m
    by (cases m; simp)+
  then show "list_all (document_encodable U) ms \<longleftrightarrow> (\<forall>v \<in> set (concat (map document_value ms)). encodable U v)"
    "sum_list (map (document_payload U) ms) =
       sum_list (map (\<lambda>v. length (value_bytes U v)) (concat (map document_value ms)))"
    by (induction ms) (auto simp: ball_Un)
qed

lemma batch_payload_iff:
  "(\<exists>n \<le> max_payload. payload_bytes U b = Inr n) \<longleftrightarrow>
     (\<forall>v \<in> set (batch_values b). \<exists>bs. encode_stored_value U v = Inr bs) \<and>
     sum_list (map (\<lambda>v. length (value_bytes U v)) (batch_values b)) +
       sum_list (map (\<lambda>m. length (fst (snd (index_mutation_identity m)))) (cb_indexes b)) \<le> 8388608"
proof -
  have size: "payload_size U b = sum_list (map (\<lambda>v. length (value_bytes U v)) (batch_values b)) +
      sum_list (map (\<lambda>m. length (fst (snd (index_mutation_identity m)))) (cb_indexes b))"
    by (simp add: payload_size_def batch_values_def document_values(2) key_payload_def [abs_def] o_def)
  have enc: "(\<forall>v \<in> set (batch_values b). \<exists>bs. encode_stored_value U v = Inr bs) \<longleftrightarrow>
      list_all (document_encodable U) (cb_documents b) \<and> list_all (\<lambda>e. encodable U (oa_payload e)) (cb_outbox b) \<and>
      list_all (\<lambda>s. encodable U (sc_args s)) (cb_schedules b)"
    unfolding encodable_iff [symmetric] document_values(1) batch_values_def by (simp add: list_all_iff ball_Un)
  have "max_payload = 8388608" by (simp add: COMMIT_LIMITS_V1_def)
  then show ?thesis unfolding payload_bytes_Inr enc size [symmetric] by auto
qed

lemma commit_batch_validate_Inr: "commit_batch_validate U b = Inr u \<longleftrightarrow> batch_valid U b"
proof -
  have keys: "list_all (\<lambda>k. k \<noteq> [] \<and> length k \<le> 128) ks \<longleftrightarrow> (\<forall>k \<in> set ks. 1 \<le> length k \<and> length k \<le> 128)"
    for ks :: "string list" by (simp add: list_all_iff Suc_le_eq)
  have "commit_batch_validate U b = Inr u \<longleftrightarrow>
     \<not> (cb_documents b = [] \<and> cb_indexes b = [] \<and> cb_outbox b = [] \<and> cb_schedules b = []) \<and>
     \<not> batch_over_limits b \<and>
     (\<exists>t. foldR check_read [] (cb_reads b) = Inr t) \<and> (\<exists>t. foldR check_document [] (cb_documents b) = Inr t) \<and>
     (\<exists>t. foldR check_index [] (cb_indexes b) = Inr t) \<and> (\<exists>t. foldR check_event [] (cb_outbox b) = Inr t) \<and>
     (\<exists>t. foldR check_schedule ([], []) (cb_schedules b) = Inr t) \<and> (\<exists>n \<le> max_payload. payload_bytes U b = Inr n)"
    by (auto simp: commit_batch_validate_def not_less)
  also have "\<dots> \<longleftrightarrow> batch_valid U b"
    unfolding check_reads_iff check_documents_iff check_indexes_iff check_events_iff check_schedules_iff
      mutation_revisions_iff put_revisions_iff keys batch_over_limits_iff batch_payload_iff batch_valid_def
      not_not list_all_iff by blast
  finally show ?thesis .
qed

end
