(* ===== verification/Sql_Table.thy ===== *)
theory Sql_Table
  imports Prelude "HOL-Library.Product_Lexorder"
begin

text \<open>
  The fragment of SQL that the store adapters use, over tables as lists of rows: insertion with and
  without \<open>ON CONFLICT DO NOTHING\<close>, \<open>UPDATE\<close> and \<open>DELETE\<close> with a \<open>WHERE\<close> clause, and ordered,
  limited selection. A table with a primary key is a list whose keys are distinct.
\<close>

section \<open>Statements\<close>

text \<open>\<open>INSERT ... ON CONFLICT DO NOTHING\<close>: rows affected and the new table.\<close>

definition sql_insert_ignore :: "('r \<Rightarrow> 'r \<Rightarrow> bool) \<Rightarrow> 'r \<Rightarrow> 'r list \<Rightarrow> nat \<times> 'r list" where
  "sql_insert_ignore conflict r t = (if list_ex (conflict r) t then (0, t) else (1, t @ [r]))"

text \<open>A plain \<open>INSERT\<close> fails on a conflict.\<close>

definition sql_insert :: "'e \<Rightarrow> ('r \<Rightarrow> 'r \<Rightarrow> bool) \<Rightarrow> 'r \<Rightarrow> 'r list \<Rightarrow> 'e + 'r list" where
  "sql_insert violation conflict r t = (if list_ex (conflict r) t then Inl violation else Inr (t @ [r]))"

definition sql_update :: "('r \<Rightarrow> bool) \<Rightarrow> ('r \<Rightarrow> 'r) \<Rightarrow> 'r list \<Rightarrow> nat \<times> 'r list" where
  "sql_update w f t = (length (filter w t), map (\<lambda>r. if w r then f r else r) t)"

text \<open>
  \<open>UPDATE ... RETURNING\<close> whose new values may violate a column constraint: the updated rows and
  the new table.
\<close>

definition sql_update_returning ::
    "('r \<Rightarrow> bool) \<Rightarrow> ('r \<Rightarrow> 'e + 'r) \<Rightarrow> 'r list \<Rightarrow> 'e + 'r list \<times> 'r list" where
  "sql_update_returning w f t =
     bindR (traverseR f (filter w t)) (\<lambda>rows.
     bindR (traverseR (\<lambda>r. if w r then f r else Inr r) t) (\<lambda>t'. Inr (rows, t')))"

definition sql_delete :: "('r \<Rightarrow> bool) \<Rightarrow> 'r list \<Rightarrow> nat \<times> 'r list" where
  "sql_delete w t = (length (filter w t), filter (\<lambda>r. \<not> w r) t)"

definition sql_select :: "('r \<Rightarrow> bool) \<Rightarrow> ('r \<Rightarrow> 'o :: linorder) \<Rightarrow> 'r list \<Rightarrow> 'r list" where
  "sql_select w order t = sort_key order (filter w t)"

definition sql_find :: "('r \<Rightarrow> bool) \<Rightarrow> 'r list \<Rightarrow> 'r option" where
  "sql_find w t = find w t"

definition same_key :: "('r \<Rightarrow> 'k) \<Rightarrow> 'r \<Rightarrow> 'r \<Rightarrow> bool" where
  "same_key key r s \<longleftrightarrow> key r = key s"

definition keyed :: "('r \<Rightarrow> 'k) \<Rightarrow> 'r list \<Rightarrow> bool" where
  "keyed key t \<longleftrightarrow> distinct (map key t)"

section \<open>Tables with a primary key\<close>

lemma list_ex_same_key: "list_ex (same_key key r) t \<longleftrightarrow> key r \<in> key ` set t"
  by (auto simp: list_ex_iff same_key_def)

lemma keyed_Nil [simp]: "keyed key []"
  by (simp add: keyed_def)

lemma keyed_snoc [simp]: "keyed key (t @ [r]) \<longleftrightarrow> keyed key t \<and> key r \<notin> key ` set t"
  by (auto simp: keyed_def)

lemma keyed_filter: "keyed key t \<Longrightarrow> keyed key (filter w t)"
  by (simp add: keyed_def distinct_map_filter)

lemma keyed_map_same:
  assumes "\<And>r. key (f r) = key r"
  shows "keyed key (map f t) \<longleftrightarrow> keyed key t"
  using assms by (simp add: keyed_def comp_def)

lemma keyed_inj: "keyed key t \<Longrightarrow> r \<in> set t \<Longrightarrow> s \<in> set t \<Longrightarrow> key r = key s \<Longrightarrow> r = s"
  by (auto simp: keyed_def distinct_map dest: inj_onD)

lemma keyed_distinct: "keyed key t \<Longrightarrow> distinct t"
  by (auto simp: keyed_def distinct_map)

lemma keyed_insert_ignore:
  "keyed key t \<Longrightarrow> keyed key (snd (sql_insert_ignore (same_key key) r t))"
  by (auto simp: sql_insert_ignore_def list_ex_same_key)

lemma keyed_update:
  "keyed key t \<Longrightarrow> (\<And>r. key (f r) = key r) \<Longrightarrow> keyed key (snd (sql_update w f t))"
  by (simp add: sql_update_def keyed_map_same)

lemma keyed_delete: "keyed key t \<Longrightarrow> keyed key (snd (sql_delete w t))"
  by (simp add: sql_delete_def keyed_filter)

text \<open>A \<open>WHERE\<close> clause that fixes the key selects at most one row.\<close>

lemma filter_keyed:
  assumes "keyed key t" and "r \<in> set t" and "w r" and "\<And>s. s \<in> set t \<Longrightarrow> w s \<Longrightarrow> key s = key r"
  shows "filter w t = [r]"
proof -
  have "w s \<longleftrightarrow> s = r" if "s \<in> set t" for s
    using keyed_inj [OF assms(1) that assms(2)] assms(3) assms(4) [OF that] by blast
  then have "filter w t = filter (\<lambda>s. s = r) t" by (intro filter_cong) simp_all
  moreover have "filter (\<lambda>s. s = r) t = [r]"
    using keyed_distinct [OF assms(1)] assms(2)
  proof (induction t)
    case (Cons a t)
    then show ?case by (cases "a = r") (auto simp: filter_empty_conv)
  qed simp
  ultimately show ?thesis by simp
qed

lemma find_keyed:
  assumes "keyed key t" and "r \<in> set t" and "w r" and "\<And>s. s \<in> set t \<Longrightarrow> w s \<Longrightarrow> key s = key r"
  shows "sql_find w t = Some r"
proof -
  have "\<exists>s. find w t = Some s" using assms(2,3) by (metis find_None_iff not_Some_eq)
  then obtain s where s: "find w t = Some s" by blast
  then have "s \<in> set t" "w s" by (auto simp: find_Some_iff)
  then have "s = r" using keyed_inj [OF assms(1) _ assms(2)] assms(4) by blast
  with s show ?thesis by (simp add: sql_find_def)
qed

lemma sql_find_Some: "sql_find w t = Some r \<Longrightarrow> r \<in> set t \<and> w r"
  by (auto simp: sql_find_def find_Some_iff)

lemma sql_find_None: "sql_find w t = None \<longleftrightarrow> (\<forall>r \<in> set t. \<not> w r)"
  by (auto simp: sql_find_def find_None_iff)

lemma sql_update_one:
  assumes "keyed key t" and "fst (sql_update w f t) = 1"
    and "\<And>r s. r \<in> set t \<Longrightarrow> s \<in> set t \<Longrightarrow> w r \<Longrightarrow> w s \<Longrightarrow> key r = key s"
  shows "\<exists>r. r \<in> set t \<and> w r"
proof -
  from assms(2) have "filter w t \<noteq> []" by (auto simp: sql_update_def)
  then obtain r where "r \<in> set (filter w t)" by (metis list.set_intros(1) neq_Nil_conv)
  then show ?thesis by auto
qed

lemma set_sql_update: "r \<in> set (snd (sql_update w f t)) \<Longrightarrow> \<exists>s \<in> set t. r = (if w s then f s else s)"
  by (auto simp: sql_update_def)

lemma set_sql_delete [simp]: "set (snd (sql_delete w t)) = {r \<in> set t. \<not> w r}"
  by (auto simp: sql_delete_def)

lemma set_sql_select [simp]: "set (sql_select w order t) = {r \<in> set t. w r}"
  by (auto simp: sql_select_def)

lemma sorted_sql_select [simp]: "sorted (map order (sql_select w order t))"
  by (simp add: sql_select_def)

lemma distinct_sql_select: "keyed key t \<Longrightarrow> distinct (map key (sql_select w order t))"
  using keyed_filter [of key t w] by (simp add: sql_select_def keyed_def distinct_map)

lemma traverseR_if:
  assumes "traverseR f (filter w t) = Inr rows"
  shows "traverseR (\<lambda>r. if w r then f r else Inr r) t = Inr (map (\<lambda>r. if w r then projr (f r) else r) t)"
  using assms by (induction t arbitrary: rows) (auto split: if_splits)

lemma traverseR_rows: "traverseR f xs = Inr ys \<Longrightarrow> ys = map (\<lambda>r. projr (f r)) xs"
  by (induction xs arbitrary: ys) auto

text \<open>When every updated row is legal, \<open>RETURNING\<close> adds the new rows to a plain update.\<close>

lemma sql_update_returning_Inr:
  "sql_update_returning w f t = Inr (rows, t') \<longleftrightarrow>
     (\<forall>r \<in> set t. w r \<longrightarrow> (\<exists>s. f r = Inr s)) \<and> rows = map (\<lambda>r. projr (f r)) (filter w t) \<and>
     t' = snd (sql_update w (\<lambda>r. projr (f r)) t)"
proof -
  have ex: "(\<exists>ys. traverseR f xs = Inr ys) \<longleftrightarrow> (\<forall>r \<in> set xs. \<exists>s. f r = Inr s)" for xs
    by (induction xs) auto
  show ?thesis
  proof (cases "\<exists>ys. traverseR f (filter w t) = Inr ys")
    case True
    then obtain ys where ys: "traverseR f (filter w t) = Inr ys" by blast
    from ex [of "filter w t"] True have "\<forall>r \<in> set t. w r \<longrightarrow> (\<exists>s. f r = Inr s)" by auto
    with ys traverseR_if [OF ys] traverseR_rows [OF ys] show ?thesis
      by (auto simp: sql_update_returning_def sql_update_def)
  next
    case False
    with ex [of "filter w t"] show ?thesis by (auto simp: sql_update_returning_def)
  qed
qed

text \<open>Rows outside the \<open>WHERE\<close> clause are left alone.\<close>

lemma filter_sql_update_frame:
  assumes "\<And>r. w r \<Longrightarrow> \<not> p r" and "\<And>r. w r \<Longrightarrow> \<not> p (f r)"
  shows "filter p (snd (sql_update w f t)) = filter p t"
  using assms by (induction t) (auto simp: sql_update_def)

lemma filter_sql_delete_frame:
  assumes "\<And>r. w r \<Longrightarrow> \<not> p r"
  shows "filter p (snd (sql_delete w t)) = filter p t"
  using assms by (induction t) (auto simp: sql_delete_def)

lemma filter_sql_insert_ignore_frame:
  assumes "\<not> p r"
  shows "filter p (snd (sql_insert_ignore c r t)) = filter p t"
  using assms by (auto simp: sql_insert_ignore_def)

lemma filter_sql_insert_frame:
  assumes "sql_insert e c r t = Inr t'" and "\<not> p r"
  shows "filter p t' = filter p t"
  using assms by (auto simp: sql_insert_def split: if_splits)


section \<open>Tables whose rows satisfy a constraint\<close>

definition table_ok :: "('r \<Rightarrow> 'k) \<Rightarrow> ('r \<Rightarrow> bool) \<Rightarrow> 'r list \<Rightarrow> bool" where
  "table_ok key ok t \<longleftrightarrow> keyed key t \<and> (\<forall>r \<in> set t. ok r)"

named_theorems table_intros

lemma table_ok_Nil [simp]: "table_ok key ok []"
  by (simp add: table_ok_def)

lemma table_ok_snoc: "table_ok key ok t \<Longrightarrow> ok r \<Longrightarrow> key r \<notin> key ` set t \<Longrightarrow> table_ok key ok (t @ [r])"
  by (auto simp: table_ok_def)

lemma table_ok_mono: "table_ok key ok t \<Longrightarrow> (\<And>r. r \<in> set t \<Longrightarrow> ok r \<Longrightarrow> ok' r) \<Longrightarrow> table_ok key ok' t"
  by (auto simp: table_ok_def)

lemma table_ok_insert_ignore [table_intros]:
  "table_ok key ok t \<Longrightarrow> ok r \<Longrightarrow> table_ok key ok (snd (sql_insert_ignore (same_key key) r t))"
  by (auto simp: table_ok_def sql_insert_ignore_def list_ex_same_key)

lemma table_ok_insert:
  "sql_insert e (same_key key) r t = Inr t' \<Longrightarrow> table_ok key ok t \<Longrightarrow> ok r \<Longrightarrow> table_ok key ok t'"
  by (auto simp: table_ok_def sql_insert_def list_ex_same_key split: if_splits)

lemma table_ok_update [table_intros]:
  assumes "table_ok key ok t" and "\<And>r. key (f r) = key r" and "\<And>r. r \<in> set t \<Longrightarrow> w r \<Longrightarrow> ok r \<Longrightarrow> ok (f r)"
  shows "table_ok key ok (snd (sql_update w f t))"
  using assms by (auto simp: table_ok_def keyed_update dest: set_sql_update)

lemma table_ok_delete [table_intros]: "table_ok key ok t \<Longrightarrow> table_ok key ok (snd (sql_delete w t))"
  by (auto simp: table_ok_def keyed_delete)

lemma table_ok_update_returning:
  assumes "sql_update_returning w f t = Inr (rows, t')" and "table_ok key ok t"
    and "\<And>r s. r \<in> set t \<Longrightarrow> w r \<Longrightarrow> f r = Inr s \<Longrightarrow> key s = key r"
    and "\<And>r s. r \<in> set t \<Longrightarrow> w r \<Longrightarrow> f r = Inr s \<Longrightarrow> ok r \<Longrightarrow> ok s"
  shows "table_ok key ok t'"
proof -
  let ?f = "\<lambda>r. if w r then projr (f r) else r"
  from assms(1) have t': "t' = map ?f t" and ex: "\<And>r. r \<in> set t \<Longrightarrow> w r \<Longrightarrow> \<exists>s. f r = Inr s"
    by (auto simp: sql_update_returning_Inr sql_update_def)
  have step: "key (?f r) = key r \<and> (ok r \<longrightarrow> ok (?f r))" if "r \<in> set t" for r
    using ex [OF that] assms(3,4) [OF that] by (cases "w r") auto
  then have keys: "map key t' = map key t" unfolding t' by simp
  have "ok r" if "r \<in> set t'" for r
  proof -
    from that obtain s where "s \<in> set t" "r = ?f s" unfolding t' by auto
    with step assms(2) show ?thesis unfolding table_ok_def by blast
  qed
  with keys assms(2) show ?thesis by (simp add: table_ok_def keyed_def)
qed

text \<open>Looking up a key in a table.\<close>

lemma sql_find_key:
  assumes "keyed key t"
  shows "sql_find (\<lambda>r. key r = k) t = Some r \<longleftrightarrow> r \<in> set t \<and> key r = k"
  using sql_find_Some [of "\<lambda>r. key r = k" t r] find_keyed [OF assms, of r "\<lambda>r. key r = k"] by auto

lemma sql_find_filter: "(\<And>r. w r \<Longrightarrow> q r) \<Longrightarrow> sql_find w (filter q t) = sql_find w t"
  by (induction t) (auto simp: sql_find_def)

lemma sql_select_filter: "(\<And>r. w r \<Longrightarrow> q r) \<Longrightarrow> sql_select w order (filter q t) = sql_select w order t"
  unfolding sql_select_def filter_filter by (rule arg_cong [where f = "sort_key order"], rule filter_cong) auto

lemma sql_find_snoc:
  "sql_find w (t @ [r]) = (case sql_find w t of None \<Rightarrow> if w r then Some r else None | Some s \<Rightarrow> Some s)"
  by (induction t) (auto simp: sql_find_def)

lemma sql_find_update:
  assumes "\<And>r. r \<in> set t \<Longrightarrow> w r \<Longrightarrow> key (f r) = key r"
  shows "sql_find (\<lambda>r. key r = k) (snd (sql_update w f t)) =
    map_option (\<lambda>r. if w r then f r else r) (sql_find (\<lambda>r. key r = k) t)"
  using assms by (induction t) (auto simp: sql_find_def sql_update_def)

lemma sql_update_returning_rows: "sql_update_returning w f t = Inr (rows, t') \<Longrightarrow> set rows \<subseteq> set t'"
  by (force simp: sql_update_returning_Inr sql_update_def)

lemma sql_update_returned:
  assumes "sql_update_returning w f t = Inr (rows, t')" and "r \<in> set rows"
  shows "\<exists>s \<in> set t. w s \<and> f s = Inr r"
proof -
  from assms obtain s where "s \<in> set t" "w s" "r = projr (f s)" "\<exists>x. f s = Inr x"
    by (auto simp: sql_update_returning_Inr)
  then show ?thesis by (metis sum.sel(2))
qed

end
