(* ===== verification/Sqlite_Rows.thy ===== *)
theory Sqlite_Rows
  imports Commit_Validation Sql_Table
begin

text \<open>
  The tables of the embedded store (\<open>runku-data-sqlite/src/migration.rs\<close>) and the conversion
  between rows and logical records (the \<open>decode_*\<close> functions and integer conversions of
  \<open>adapter.rs\<close>). Identifiers are stored as text, values and keys as bytes, integers as 64-bit
  signed integers, which are \<open>int\<close> here with the range checks of the source.
\<close>

section \<open>Rows\<close>

record sequence_row =
  ew_project :: string
  ew_environment :: string
  ew_commit_sequence :: int

record operation_row =
  pw_project :: string
  pw_environment :: string
  pw_operation :: string
  pw_digest :: bytes
  pw_commit_sequence :: int
  pw_created_at :: int

record result_row =
  rw_project :: string
  rw_environment :: string
  rw_operation :: string
  rw_ordinal :: int
  rw_table :: string
  rw_document :: string
  rw_revision :: "int option"

record document_row =
  dw_project :: string
  dw_environment :: string
  dw_table :: string
  dw_document :: string
  dw_revision :: int
  dw_commit_sequence :: int
  dw_created_at :: int
  dw_updated_at :: int
  dw_value :: bytes

record index_row =
  iw_project :: string
  iw_environment :: string
  iw_index :: string
  iw_key :: bytes
  iw_table :: string
  iw_document :: string
  iw_document_revision :: int
  iw_commit_sequence :: int

record outbox_row =
  ow_project :: string
  ow_environment :: string
  ow_event :: string
  ow_commit_sequence :: int
  ow_payload :: bytes
  ow_created_at :: int

record schedule_row =
  sw_project :: string
  sw_environment :: string
  sw_scheduled :: string
  sw_pinned_code :: string
  sw_function :: string
  sw_args :: bytes
  sw_execute_at :: int
  sw_status :: string
  sw_attempts :: int
  sw_lease_generation :: int
  sw_lease_owner :: "string option"
  sw_lease_until :: "int option"
  sw_idempotency_key :: "string option"
  sw_last_error_code :: "string option"
  sw_commit_sequence :: int
  sw_created_at :: int
  sw_updated_at :: int

record consumer_row =
  cw_project :: string
  cw_environment :: string
  cw_consumer :: string
  cw_cursor_sequence :: int
  cw_cursor_event :: "string option"
  cw_lease_owner :: "string option"
  cw_lease_until :: "int option"
  cw_lease_generation :: int
  cw_claimed_sequence :: "int option"
  cw_claimed_event :: "string option"
  cw_updated_at :: int

record database =
  db_sequences :: "sequence_row list"
  db_operations :: "operation_row list"
  db_results :: "result_row list"
  db_documents :: "document_row list"
  db_indexes :: "index_row list"
  db_outbox :: "outbox_row list"
  db_schedules :: "schedule_row list"
  db_consumers :: "consumer_row list"

definition empty_database :: database where
  "empty_database =
     \<lparr>db_sequences = [], db_operations = [], db_results = [], db_documents = [], db_indexes = [],
      db_outbox = [], db_schedules = [], db_consumers = []\<rparr>"

text \<open>Primary keys of the schema, and the partial unique index on idempotency keys.\<close>

definition sequence_key :: "sequence_row \<Rightarrow> string \<times> string" where
  "sequence_key r = (ew_project r, ew_environment r)"

definition operation_key :: "operation_row \<Rightarrow> string \<times> string \<times> string" where
  "operation_key r = (pw_project r, pw_environment r, pw_operation r)"

definition result_key :: "result_row \<Rightarrow> string \<times> string \<times> string \<times> int" where
  "result_key r = (rw_project r, rw_environment r, rw_operation r, rw_ordinal r)"

definition document_key :: "document_row \<Rightarrow> string \<times> string \<times> string \<times> string" where
  "document_key r = (dw_project r, dw_environment r, dw_table r, dw_document r)"

definition index_entry_key :: "index_row \<Rightarrow> string \<times> string \<times> string \<times> bytes \<times> string" where
  "index_entry_key r = (iw_project r, iw_environment r, iw_index r, iw_key r, iw_document r)"

definition outbox_key :: "outbox_row \<Rightarrow> string \<times> string \<times> string" where
  "outbox_key r = (ow_project r, ow_environment r, ow_event r)"

definition schedule_key :: "schedule_row \<Rightarrow> string \<times> string \<times> string" where
  "schedule_key r = (sw_project r, sw_environment r, sw_scheduled r)"

definition schedule_conflict :: "schedule_row \<Rightarrow> schedule_row \<Rightarrow> bool" where
  "schedule_conflict r s \<longleftrightarrow>
     schedule_key r = schedule_key s \<or>
     (sw_project r = sw_project s \<and> sw_environment r = sw_environment s \<and>
      sw_idempotency_key r \<noteq> None \<and> sw_idempotency_key r = sw_idempotency_key s)"

definition consumer_key :: "consumer_row \<Rightarrow> string \<times> string \<times> string" where
  "consumer_key r = (cw_project r, cw_environment r, cw_consumer r)"

lemmas key_defs = sequence_key_def operation_key_def result_key_def document_key_def
  index_entry_key_def outbox_key_def schedule_key_def consumer_key_def

section \<open>Integers and text\<close>

abbreviation i64_max :: int where
  "i64_max \<equiv> 2 ^ 63 - 1"

definition positive_i64 :: "u64 \<Rightarrow> StoreError + int" where
  "positive_i64 v =
     (if v = 0 then Inl MutationConflict
      else if uint v > i64_max then Inl LimitExceeded else Inr (uint v))"

definition nonnegative_i64 :: "u64 \<Rightarrow> StoreError + int" where
  "nonnegative_i64 v = (if uint v > i64_max then Inl LimitExceeded else Inr (uint v))"

definition positive_u64 :: "int \<Rightarrow> StoreError + u64" where
  "positive_u64 i = (if i \<le> 0 then Inl Corruption else Inr (word_of_int i))"

definition positive_or_zero_u64 :: "int \<Rightarrow> StoreError + u64" where
  "positive_or_zero_u64 i = (if i < 0 then Inl Corruption else Inr (word_of_int i))"

definition positive_or_zero_u32 :: "int \<Rightarrow> StoreError + u32" where
  "positive_or_zero_u32 i = (if i < 0 \<or> i > 2 ^ 32 - 1 then Inl Corruption else Inr (word_of_int i))"

text \<open>
  \<open>TimestampMicros::get\<close> and \<open>new\<close> at the boundary to the columns. Adding one to the largest
  integer leaves the integers, which a column of a \<open>STRICT\<close> table refuses.
\<close>

definition micros :: "TimestampMicros \<Rightarrow> int" where
  "micros t = sint t"

definition timestamp :: "int \<Rightarrow> TimestampMicros" where
  "timestamp i = word_of_int i"

definition sql_succ :: "int \<Rightarrow> StoreError + int" where
  "sql_succ i = (if i < i64_max then Inr (i + 1) else Inl Internal)"

fun status_text :: "ScheduleStatus \<Rightarrow> string" where
  "status_text Pending = ''pending''"
| "status_text Running = ''running''"
| "status_text Succeeded = ''succeeded''"
| "status_text Failed = ''failed''"
| "status_text Cancelled = ''cancelled''"

definition parse_status :: "string \<Rightarrow> StoreError + ScheduleStatus" where
  "parse_status s =
     (if s = ''pending'' then Inr Pending
      else if s = ''running'' then Inr Running
      else if s = ''succeeded'' then Inr Succeeded
      else if s = ''failed'' then Inr Failed
      else if s = ''cancelled'' then Inr Cancelled
      else Inl Corruption)"

definition cancel_result :: "string \<Rightarrow> StoreError + ScheduleCancelResult" where
  "cancel_result s =
     bindR (parse_status s) (\<lambda>st.
       case st of
         Pending \<Rightarrow> Inl Corruption
       | Running \<Rightarrow> Inr CancelRunning
       | Cancelled \<Rightarrow> Inr CancelAlreadyCancelled
       | Succeeded \<Rightarrow> Inr CancelTerminal
       | Failed \<Rightarrow> Inr CancelTerminal)"

definition parse_id :: "ulid_crate \<Rightarrow> string \<Rightarrow> string \<Rightarrow> StoreError + ulid" where
  "parse_id U p s = map_errR (\<lambda>_. Corruption) (resource_id_from_str U p s)"

definition decode_value :: "ulid_crate \<Rightarrow> bytes \<Rightarrow> StoreError + CanonicalValue" where
  "decode_value U bs = map_errR (\<lambda>_. Corruption) (decode_stored_value U bs)"

section \<open>Decoding rows\<close>

definition decode_document_row :: "ulid_crate \<Rightarrow> document_row \<Rightarrow> StoreError + DocumentRecord" where
  "decode_document_row U r =
     bindR (parse_id U ''tbl_'' (dw_table r)) (\<lambda>t.
     bindR (parse_id U ''doc_'' (dw_document r)) (\<lambda>d.
     bindR (positive_u64 (dw_revision r)) (\<lambda>rev.
     bindR (positive_u64 (dw_commit_sequence r)) (\<lambda>cs.
     bindR (decode_value U (dw_value r)) (\<lambda>v.
       Inr \<lparr>dr_table_id = t, dr_document_id = d, dr_revision = rev, dr_commit_sequence = cs,
            dr_created_at = timestamp (dw_created_at r), dr_updated_at = timestamp (dw_updated_at r),
            dr_value = v\<rparr>)))))"

definition decode_index_row :: "ulid_crate \<Rightarrow> index_row \<Rightarrow> StoreError + IndexEntry" where
  "decode_index_row U r =
     bindR (parse_id U ''idx_'' (iw_index r)) (\<lambda>i.
     bindR (map_errR (\<lambda>_. Corruption) (index_key_decode U (iw_key r))) (\<lambda>k.
     bindR (parse_id U ''tbl_'' (iw_table r)) (\<lambda>t.
     bindR (parse_id U ''doc_'' (iw_document r)) (\<lambda>d.
     bindR (positive_u64 (iw_document_revision r)) (\<lambda>rev.
     bindR (positive_u64 (iw_commit_sequence r)) (\<lambda>cs.
       Inr \<lparr>ie_index_id = i, ie_key = k, ie_table_id = t, ie_document_id = d,
            ie_document_revision = rev, ie_commit_sequence = cs\<rparr>))))))"

definition decode_outbox_event :: "ulid_crate \<Rightarrow> outbox_row \<Rightarrow> StoreError + OutboxEventRecord" where
  "decode_outbox_event U r =
     bindR (parse_id U ''evt_'' (ow_event r)) (\<lambda>e.
     bindR (positive_u64 (ow_commit_sequence r)) (\<lambda>cs.
     bindR (decode_value U (ow_payload r)) (\<lambda>v.
       Inr \<lparr>oe_event_id = e, oe_commit_sequence = cs, oe_payload = v\<rparr>)))"

definition decode_optional_cursor ::
    "ulid_crate \<Rightarrow> u64 \<Rightarrow> string option \<Rightarrow> StoreError + OutboxCursor option" where
  "decode_optional_cursor U seq event =
     (case event of
        None \<Rightarrow> if seq = 0 then Inr None else Inl Corruption
      | Some e \<Rightarrow>
          if seq = 0 then Inl Corruption
          else bindR (parse_id U ''evt_'' e) (\<lambda>e'.
            Inr (Some \<lparr>cursor_commit_sequence = seq, cursor_event_id = e'\<rparr>)))"

definition decode_lease_owner :: "ulid_crate \<Rightarrow> string option \<Rightarrow> StoreError + WorkerId option" where
  "decode_lease_owner U owner =
     (case owner of None \<Rightarrow> Inr None | Some w \<Rightarrow> mapR Some (parse_id U ''wrk_'' w))"

definition decode_schedule_row :: "ulid_crate \<Rightarrow> schedule_row \<Rightarrow> StoreError + ScheduledInvocationRecord" where
  "decode_schedule_row U r =
     bindR (decode_lease_owner U (sw_lease_owner r)) (\<lambda>owner.
     bindR (parse_id U ''sch_'' (sw_scheduled r)) (\<lambda>i.
     bindR (map_errR (\<lambda>_. Corruption) (pinned_code_from_str U (sw_pinned_code r))) (\<lambda>p.
     bindR (map_errR (\<lambda>_. Corruption) (function_name_from_str (sw_function r))) (\<lambda>f.
     bindR (decode_value U (sw_args r)) (\<lambda>a.
     bindR (parse_status (sw_status r)) (\<lambda>st.
     bindR (positive_or_zero_u32 (sw_attempts r)) (\<lambda>n.
     bindR (positive_or_zero_u64 (sw_lease_generation r)) (\<lambda>g.
     bindR (positive_u64 (sw_commit_sequence r)) (\<lambda>cs.
       Inr \<lparr>si_id = i, si_pinned_code = p, si_function = f, si_args = a,
            si_execute_at = timestamp (sw_execute_at r), si_status = st, si_attempts = n,
            si_lease_generation = g, si_lease_owner = owner,
            si_lease_until = map_option timestamp (sw_lease_until r),
            si_idempotency_key = sw_idempotency_key r, si_last_error_code = sw_last_error_code r,
            si_commit_sequence = cs\<rparr>)))))))))"

definition decode_result_row :: "ulid_crate \<Rightarrow> result_row \<Rightarrow> StoreError + DocumentRevisionResult" where
  "decode_result_row U r =
     bindR (parse_id U ''tbl_'' (rw_table r)) (\<lambda>t.
     bindR (parse_id U ''doc_'' (rw_document r)) (\<lambda>d.
     bindR (case rw_revision r of None \<Rightarrow> Inr None | Some v \<Rightarrow> mapR Some (positive_u64 v)) (\<lambda>rev.
       Inr \<lparr>drr_table_id = t, drr_document_id = d, drr_revision = rev\<rparr>)))"

end
