(* ===== verification/Sqlite_Store.thy ===== *)
theory Sqlite_Store
  imports Sqlite_Rows
begin

text \<open>
  The embedded store of \<open>runku-data-sqlite/src/adapter.rs\<close>: every operation is a transaction on
  the database, written as the sequence of its SQL statements. The clock, and what the SQLite
  library reports when a transaction begins and commits, are inputs.
\<close>

section \<open>Transactions\<close>

datatype sqlx_error = PoolTimedOut | PoolClosed | IoError | TlsError | DatabaseError "string option" | OtherSqlxError

fun map_sqlx_error :: "sqlx_error \<Rightarrow> StoreError" where
  "map_sqlx_error PoolTimedOut = Busy"
| "map_sqlx_error PoolClosed = Unavailable"
| "map_sqlx_error IoError = Unavailable"
| "map_sqlx_error TlsError = Unavailable"
| "map_sqlx_error (DatabaseError code) =
     (if code = Some ''5'' \<or> code = Some ''6'' then Busy else Internal)"
| "map_sqlx_error OtherSqlxError = Internal"

definition map_commit_error :: "sqlx_error \<Rightarrow> StoreError" where
  "map_commit_error e =
     (case map_sqlx_error e of
        Busy \<Rightarrow> Busy
      | Unavailable \<Rightarrow> ResultUncertain
      | Internal \<Rightarrow> ResultUncertain
      | other \<Rightarrow> other)"

text \<open>
  A transaction begins, runs its statements and commits. The library may report an error before the
  commit (\<open>BeginFails\<close>, at the beginning or at a statement), and the commit may report an error
  whether or not it took effect. An error of the body rolls the transaction back.
\<close>

datatype tx_fault = NoFault | BeginFails sqlx_error | CommitFails sqlx_error bool

definition transaction ::
    "tx_fault \<Rightarrow> (sqlx_error \<Rightarrow> StoreError) \<Rightarrow> (database \<Rightarrow> StoreError + 'a \<times> database) \<Rightarrow> database
     \<Rightarrow> (StoreError + 'a) \<times> database" where
  "transaction fault commit_error body db =
     (case fault of
        BeginFails e \<Rightarrow> (Inl (map_sqlx_error e), db)
      | NoFault \<Rightarrow> (case body db of Inl e \<Rightarrow> (Inl e, db) | Inr (x, db') \<Rightarrow> (Inr x, db'))
      | CommitFails e applied \<Rightarrow>
          (case body db of Inl e' \<Rightarrow> (Inl e', db)
           | Inr (_, db') \<Rightarrow> (Inl (commit_error e), if applied then db' else db)))"

type_synonym clock = "StoreError + int"

section \<open>Scopes\<close>

definition project_text :: "ulid_crate \<Rightarrow> EnvironmentScope \<Rightarrow> string" where
  "project_text U s = resource_id_to_string U ''prj_'' (scope_project s)"

definition environment_text :: "ulid_crate \<Rightarrow> EnvironmentScope \<Rightarrow> string" where
  "environment_text U s = resource_id_to_string U ''env_'' (scope_environment s)"

abbreviation worker_text :: "ulid_crate \<Rightarrow> WorkerId \<Rightarrow> string" where
  "worker_text U \<equiv> resource_id_to_string U ''wrk_''"

abbreviation operation_text :: "ulid_crate \<Rightarrow> OperationId \<Rightarrow> string" where
  "operation_text U \<equiv> resource_id_to_string U ''opn_''"

section \<open>Commit\<close>

definition load_operation ::
    "ulid_crate \<Rightarrow> CommitBatch \<Rightarrow> bytes \<Rightarrow> database \<Rightarrow> StoreError + CommitResult option" where
  "load_operation U b digest db =
     (let p = project_text U (cb_scope b); e = environment_text U (cb_scope b);
          op = operation_text U (cb_operation_id b) in
      case sql_find (\<lambda>r. operation_key r = (p, e, op)) (db_operations db) of
        None \<Rightarrow> Inr None
      | Some row \<Rightarrow>
          if pw_digest row \<noteq> digest then Inl OperationIdReused
          else
            bindR (positive_u64 (pw_commit_sequence row)) (\<lambda>sequence.
            bindR (traverseR (decode_result_row U)
                (sql_select (\<lambda>r. rw_project r = p \<and> rw_environment r = e \<and> rw_operation r = op)
                   rw_ordinal (db_results db))) (\<lambda>documents.
              if length documents \<noteq> length (cb_documents b) then Inl Corruption
              else Inr (Some \<lparr>cr_commit_sequence = sequence, cr_documents = documents, cr_replayed = True\<rparr>))))"

definition validate_document_read ::
    "ulid_crate \<Rightarrow> string \<Rightarrow> string \<Rightarrow> database \<Rightarrow> DocumentReadAssertion \<Rightarrow> StoreError + unit" where
  "validate_document_read U p e db a =
     bindR (case sql_find (\<lambda>r. document_key r =
              (p, e, table_text U (ra_table_id a), document_text U (ra_document_id a))) (db_documents db) of
              None \<Rightarrow> Inr None
            | Some r \<Rightarrow> mapR Some (positive_u64 (dw_revision r))) (\<lambda>revision.
       failR (revision \<noteq> ra_observed_revision a) MutationConflict)"

definition validate_document_reads ::
    "ulid_crate \<Rightarrow> string \<Rightarrow> string \<Rightarrow> database \<Rightarrow> DocumentReadAssertion list \<Rightarrow> StoreError + unit" where
  "validate_document_reads U p e db as = foldR (\<lambda>_. validate_document_read U p e db) () as"

definition bump_sequence ::
    "string \<Rightarrow> string \<Rightarrow> sequence_row list \<Rightarrow> StoreError + int \<times> sequence_row list" where
  "bump_sequence p e t =
     (case sql_find (\<lambda>r. sequence_key r = (p, e)) t of
        None \<Rightarrow> Inr (1, t @ [\<lparr>ew_project = p, ew_environment = e, ew_commit_sequence = 1\<rparr>])
      | Some _ \<Rightarrow>
          bindR (sql_update_returning (\<lambda>r. sequence_key r = (p, e))
              (\<lambda>r. mapR (\<lambda>n. r\<lparr>ew_commit_sequence := n\<rparr>) (sql_succ (ew_commit_sequence r))) t) (\<lambda>(rows, t').
            Inr (ew_commit_sequence (hd rows), t')))"

fun apply_document ::
    "ulid_crate \<Rightarrow> string \<Rightarrow> string \<Rightarrow> int \<Rightarrow> int \<Rightarrow> DocumentMutation \<Rightarrow> database
     \<Rightarrow> StoreError + DocumentRevisionResult \<times> database" where
  "apply_document U p e sequence now (Upsert t d expected v) db =
     bindR (encode_value U v) (\<lambda>enc.
     bindR (case expected of
         Absent \<Rightarrow>
           (let (n, docs) = sql_insert_ignore (same_key document_key)
                \<lparr>dw_project = p, dw_environment = e, dw_table = table_text U t, dw_document = document_text U d,
                 dw_revision = 1, dw_commit_sequence = sequence, dw_created_at = now, dw_updated_at = now,
                 dw_value = enc\<rparr> (db_documents db) in
            if n \<noteq> 1 then Inl MutationConflict else Inr (1, db\<lparr>db_documents := docs\<rparr>))
       | Exact x \<Rightarrow>
           bindR (positive_i64 x) (\<lambda>expected_db.
           bindR (ok_or LimitExceeded (checked_add_u64 x 1)) (\<lambda>next.
           bindR (positive_i64 next) (\<lambda>next_db.
             let (n, docs) = sql_update
                 (\<lambda>r. document_key r = (p, e, table_text U t, document_text U d) \<and> dw_revision r = expected_db)
                 (\<lambda>r. r\<lparr>dw_revision := next_db, dw_commit_sequence := sequence, dw_updated_at := now, dw_value := enc\<rparr>)
                 (db_documents db) in
             if n \<noteq> 1 then Inl MutationConflict else Inr (next, db\<lparr>db_documents := docs\<rparr>)))))
       (\<lambda>(revision, db').
         Inr (\<lparr>drr_table_id = t, drr_document_id = d, drr_revision = Some revision\<rparr>, db')))"
| "apply_document U p e sequence now (DeleteDocument t d x) db =
     bindR (positive_i64 x) (\<lambda>expected_db.
       let (n, docs) = sql_delete
           (\<lambda>r. document_key r = (p, e, table_text U t, document_text U d) \<and> dw_revision r = expected_db)
           (db_documents db) in
       if n \<noteq> 1 then Inl MutationConflict
       else Inr (\<lparr>drr_table_id = t, drr_document_id = d, drr_revision = None\<rparr>, db\<lparr>db_documents := docs\<rparr>))"

definition put_index_entry :: "index_row \<Rightarrow> index_row list \<Rightarrow> index_row list" where
  "put_index_entry r t =
     (if list_ex (same_key index_entry_key r) t
      then snd (sql_update (\<lambda>s. index_entry_key s = index_entry_key r)
             (\<lambda>s. s\<lparr>iw_table := iw_table r, iw_document_revision := iw_document_revision r,
                   iw_commit_sequence := iw_commit_sequence r\<rparr>) t)
      else t @ [r])"

fun apply_index ::
    "ulid_crate \<Rightarrow> string \<Rightarrow> string \<Rightarrow> int \<Rightarrow> database \<Rightarrow> IndexMutation \<Rightarrow> StoreError + database" where
  "apply_index U p e sequence db (PutIndex i k t d x) =
     bindR (positive_i64 x) (\<lambda>revision.
       case sql_find (\<lambda>r. document_key r = (p, e, table_text U t, document_text U d) \<and> dw_revision r = revision)
           (db_documents db) of
         None \<Rightarrow> Inl MutationConflict
       | Some _ \<Rightarrow>
           Inr (db\<lparr>db_indexes := put_index_entry
             \<lparr>iw_project = p, iw_environment = e, iw_index = index_text U i, iw_key = encoded k,
              iw_table = table_text U t, iw_document = document_text U d,
              iw_document_revision = revision, iw_commit_sequence = sequence\<rparr> (db_indexes db)\<rparr>))"
| "apply_index U p e sequence db (DeleteIndex i k d) =
     Inr (db\<lparr>db_indexes := snd (sql_delete
       (\<lambda>r. index_entry_key r = (p, e, index_text U i, encoded k, document_text U d)) (db_indexes db))\<rparr>)"

definition apply_event ::
    "ulid_crate \<Rightarrow> string \<Rightarrow> string \<Rightarrow> int \<Rightarrow> int \<Rightarrow> database \<Rightarrow> OutboxAppend \<Rightarrow> StoreError + database" where
  "apply_event U p e sequence now db a =
     bindR (encode_value U (oa_payload a)) (\<lambda>payload.
       let (n, t) = sql_insert_ignore (same_key outbox_key)
           \<lparr>ow_project = p, ow_environment = e, ow_event = event_text U (oa_event_id a),
            ow_commit_sequence = sequence, ow_payload = payload, ow_created_at = now\<rparr> (db_outbox db) in
       if n \<noteq> 1 then Inl MutationConflict else Inr (db\<lparr>db_outbox := t\<rparr>))"

definition apply_schedule ::
    "ulid_crate \<Rightarrow> string \<Rightarrow> string \<Rightarrow> int \<Rightarrow> int \<Rightarrow> database \<Rightarrow> ScheduledInvocationInsert \<Rightarrow> StoreError + database" where
  "apply_schedule U p e sequence now db s =
     bindR (encode_value U (sc_args s)) (\<lambda>args.
       let (n, t) = sql_insert_ignore schedule_conflict
           \<lparr>sw_project = p, sw_environment = e, sw_scheduled = schedule_text U (sc_id s),
            sw_pinned_code = pinned_code_to_string U (sc_pinned_code s), sw_function = sc_function s,
            sw_args = args, sw_execute_at = micros (sc_execute_at s), sw_status = ''pending'',
            sw_attempts = 0, sw_lease_generation = 0, sw_lease_owner = None, sw_lease_until = None,
            sw_idempotency_key = sc_idempotency_key s, sw_last_error_code = None,
            sw_commit_sequence = sequence, sw_created_at = now, sw_updated_at = now\<rparr> (db_schedules db) in
       if n \<noteq> 1 then Inl MutationConflict else Inr (db\<lparr>db_schedules := t\<rparr>))"

definition record_document ::
    "ulid_crate \<Rightarrow> string \<Rightarrow> string \<Rightarrow> string \<Rightarrow> int \<Rightarrow> int
     \<Rightarrow> DocumentRevisionResult list \<times> database \<Rightarrow> DocumentMutation
     \<Rightarrow> StoreError + DocumentRevisionResult list \<times> database" where
  "record_document U p e op sequence now = (\<lambda>(results, db) m.
     bindR (apply_document U p e sequence now m db) (\<lambda>(result, db1).
     bindR (case drr_revision result of None \<Rightarrow> Inr None | Some v \<Rightarrow> mapR Some (positive_i64 v)) (\<lambda>revision.
     bindR (sql_insert Internal (same_key result_key)
         \<lparr>rw_project = p, rw_environment = e, rw_operation = op, rw_ordinal = int (length results),
          rw_table = table_text U (drr_table_id result), rw_document = document_text U (drr_document_id result),
          rw_revision = revision\<rparr> (db_results db1)) (\<lambda>t.
       Inr (results @ [result], db1\<lparr>db_results := t\<rparr>)))))"

definition apply_commit ::
    "ulid_crate \<Rightarrow> clock \<Rightarrow> CommitBatch \<Rightarrow> bytes \<Rightarrow> database \<Rightarrow> StoreError + CommitResult \<times> database" where
  "apply_commit U clock b digest db =
     bindR (load_operation U b digest db) (\<lambda>found.
       case found of
         Some result \<Rightarrow> Inr (result, db)
       | None \<Rightarrow>
           (let p = project_text U (cb_scope b); e = environment_text U (cb_scope b);
                op = operation_text U (cb_operation_id b) in
            bindR (validate_document_reads U p e db (cb_reads b)) (\<lambda>_.
            bindR (bump_sequence p e (db_sequences db)) (\<lambda>(sequence, sequences).
            bindR (positive_u64 sequence) (\<lambda>sequence_u64.
            bindR clock (\<lambda>now.
            bindR (sql_insert Internal (same_key operation_key)
                \<lparr>pw_project = p, pw_environment = e, pw_operation = op, pw_digest = digest,
                 pw_commit_sequence = sequence, pw_created_at = now\<rparr> (db_operations db)) (\<lambda>operations.
            bindR (foldR (record_document U p e op sequence now)
                ([], db\<lparr>db_sequences := sequences, db_operations := operations\<rparr>) (cb_documents b)) (\<lambda>(documents, db1).
            bindR (foldR (apply_index U p e sequence) db1 (cb_indexes b)) (\<lambda>db2.
            bindR (foldR (apply_event U p e sequence now) db2 (cb_outbox b)) (\<lambda>db3.
            bindR (foldR (apply_schedule U p e sequence now) db3 (cb_schedules b)) (\<lambda>db4.
              Inr (\<lparr>cr_commit_sequence = sequence_u64, cr_documents = documents, cr_replayed = False\<rparr>, db4))))))))))))"

definition store_commit ::
    "ulid_crate \<Rightarrow> (bytes \<Rightarrow> bytes) \<Rightarrow> tx_fault \<Rightarrow> clock \<Rightarrow> CommitBatch \<Rightarrow> database
     \<Rightarrow> (StoreError + CommitResult) \<times> database" where
  "store_commit U sha256 fault clock b db =
     (case commit_batch_digest U sha256 b of
        Inl e \<Rightarrow> (Inl e, db)
      | Inr digest \<Rightarrow> transaction fault map_commit_error (apply_commit U clock b digest) db)"

section \<open>Outbox\<close>

definition ensure_sequence :: "string \<Rightarrow> string \<Rightarrow> sequence_row list \<Rightarrow> sequence_row list" where
  "ensure_sequence p e t = snd (sql_insert_ignore (same_key sequence_key)
     \<lparr>ew_project = p, ew_environment = e, ew_commit_sequence = 0\<rparr> t)"

definition ensure_consumer :: "string \<Rightarrow> string \<Rightarrow> string \<Rightarrow> int \<Rightarrow> consumer_row list \<Rightarrow> consumer_row list" where
  "ensure_consumer p e c now t = snd (sql_insert_ignore (same_key consumer_key)
     \<lparr>cw_project = p, cw_environment = e, cw_consumer = c, cw_cursor_sequence = 0, cw_cursor_event = None,
      cw_lease_owner = None, cw_lease_until = None, cw_lease_generation = 0,
      cw_claimed_sequence = None, cw_claimed_event = None, cw_updated_at = now\<rparr> t)"

definition lease_free :: "string \<Rightarrow> int \<Rightarrow> consumer_row \<Rightarrow> bool" where
  "lease_free worker now r \<longleftrightarrow>
     cw_lease_owner r = None \<or> cw_lease_owner r = Some worker \<or>
     (case cw_lease_until r of None \<Rightarrow> False | Some u \<Rightarrow> u \<le> now)"

definition after_cursor :: "int \<Rightarrow> string option \<Rightarrow> outbox_row \<Rightarrow> bool" where
  "after_cursor seq event r \<longleftrightarrow>
     ow_commit_sequence r > seq \<or>
     (ow_commit_sequence r = seq \<and> ow_event r > (case event of None \<Rightarrow> '''' | Some v \<Rightarrow> v))"

definition pending_events ::
    "string \<Rightarrow> string \<Rightarrow> int \<Rightarrow> string option \<Rightarrow> nat \<Rightarrow> outbox_row list \<Rightarrow> outbox_row list" where
  "pending_events p e seq event limit t =
     take limit (sql_select (\<lambda>r. ow_project r = p \<and> ow_environment r = e \<and> after_cursor seq event r)
       (\<lambda>r. (ow_commit_sequence r, ow_event r)) t)"

definition lease_row :: "string \<Rightarrow> int \<Rightarrow> int \<Rightarrow> consumer_row \<Rightarrow> StoreError + consumer_row" where
  "lease_row w now lease_until r =
     mapR (\<lambda>g. r\<lparr>cw_lease_owner := Some w, cw_lease_until := Some lease_until,
            cw_lease_generation := g, cw_updated_at := now\<rparr>) (sql_succ (cw_lease_generation r))"

definition release_row :: "int \<Rightarrow> consumer_row \<Rightarrow> consumer_row" where
  "release_row now r = r\<lparr>cw_lease_owner := None, cw_lease_until := None, cw_updated_at := now\<rparr>"

definition claimed_row :: "int \<Rightarrow> int \<Rightarrow> string \<Rightarrow> consumer_row \<Rightarrow> consumer_row" where
  "claimed_row now seq event r =
     r\<lparr>cw_claimed_sequence := Some seq, cw_claimed_event := Some event, cw_updated_at := now\<rparr>"

definition claim_outbox_tx ::
    "ulid_crate \<Rightarrow> EnvironmentScope \<Rightarrow> OutboxConsumerName \<Rightarrow> WorkerId \<Rightarrow> TimestampMicros \<Rightarrow> TimestampMicros
     \<Rightarrow> u32 \<Rightarrow> database \<Rightarrow> StoreError + ClaimedOutboxBatch \<times> database" where
  "claim_outbox_tx U scope consumer worker now lease_until limit db =
     (let p = project_text U scope; e = environment_text U scope; w = worker_text U worker;
          here = (\<lambda>r. consumer_key r = (p, e, consumer));
          sequences = ensure_sequence p e (db_sequences db);
          consumers = ensure_consumer p e consumer (micros now) (db_consumers db) in
      bindR (sql_update_returning (\<lambda>r. here r \<and> lease_free w (micros now) r)
          (lease_row w (micros now) (micros lease_until)) consumers) (\<lambda>(rows, leased).
      case rows of
        [] \<Rightarrow> Inl Busy
      | row # _ \<Rightarrow>
          bindR (positive_or_zero_u64 (cw_cursor_sequence row)) (\<lambda>cursor_sequence.
          bindR (decode_optional_cursor U cursor_sequence (cw_cursor_event row)) (\<lambda>acknowledged.
          bindR (nonnegative_i64 cursor_sequence) (\<lambda>cursor_db.
          bindR (traverseR (decode_outbox_event U)
              (pending_events p e cursor_db
                 (map_option (\<lambda>c. event_text U (cursor_event_id c)) acknowledged) (unat limit) (db_outbox db))) (\<lambda>events.
          bindR (if events = [] then Inr (snd (sql_update here (release_row (micros now)) leased))
              else
                bindR (positive_i64 (oe_commit_sequence (last events))) (\<lambda>claimed.
                  Inr (snd (sql_update here
                    (claimed_row (micros now) claimed (event_text U (oe_event_id (last events)))) leased)))) (\<lambda>claims.
          bindR (positive_u64 (cw_lease_generation row)) (\<lambda>lease_generation.
            Inr (\<lparr>cob_lease_generation = lease_generation, cob_acknowledged_through = acknowledged,
                  cob_events = events\<rparr>,
                 db\<lparr>db_sequences := sequences, db_consumers := claims\<rparr>)))))))))"

definition claim_outbox ::
    "ulid_crate \<Rightarrow> tx_fault \<Rightarrow> EnvironmentScope \<Rightarrow> OutboxConsumerName \<Rightarrow> WorkerId \<Rightarrow> TimestampMicros
     \<Rightarrow> TimestampMicros \<Rightarrow> u32 \<Rightarrow> database \<Rightarrow> (StoreError + ClaimedOutboxBatch) \<times> database" where
  "claim_outbox U fault scope consumer worker now lease_until limit db =
     (if limit = 0 \<or> limit > 1000 \<or> micros lease_until \<le> micros now then (Inl LimitExceeded, db)
      else transaction fault map_commit_error
        (claim_outbox_tx U scope consumer worker now lease_until limit) db)"

definition owns_claim ::
    "ulid_crate \<Rightarrow> EnvironmentScope \<Rightarrow> OutboxConsumerName \<Rightarrow> WorkerId \<Rightarrow> int \<Rightarrow> int \<Rightarrow> string \<Rightarrow> consumer_row \<Rightarrow> bool" where
  "owns_claim U scope consumer worker gen seq event r \<longleftrightarrow>
     consumer_key r = (project_text U scope, environment_text U scope, consumer) \<and>
     cw_lease_owner r = Some (worker_text U worker) \<and> cw_lease_generation r = gen \<and>
     cw_claimed_sequence r = Some seq \<and> cw_claimed_event r = Some event"

definition ack_row :: "int \<Rightarrow> int \<Rightarrow> string \<Rightarrow> consumer_row \<Rightarrow> consumer_row" where
  "ack_row now seq event r =
     r\<lparr>cw_cursor_sequence := seq, cw_cursor_event := Some event,
       cw_claimed_sequence := None, cw_claimed_event := None,
       cw_lease_owner := None, cw_lease_until := None, cw_updated_at := now\<rparr>"

definition ack_outbox_tx ::
    "ulid_crate \<Rightarrow> clock \<Rightarrow> EnvironmentScope \<Rightarrow> OutboxConsumerName \<Rightarrow> WorkerId \<Rightarrow> u64 \<Rightarrow> OutboxCursor
     \<Rightarrow> database \<Rightarrow> StoreError + unit \<times> database" where
  "ack_outbox_tx U clock scope consumer worker generation through db =
     bindR (positive_i64 (cursor_commit_sequence through)) (\<lambda>seq.
     bindR clock (\<lambda>now.
     bindR (positive_i64 generation) (\<lambda>gen.
       let event = event_text U (cursor_event_id through);
           (n, t) = sql_update (owns_claim U scope consumer worker gen seq event) (ack_row now seq event)
             (db_consumers db) in
       if n \<noteq> 1 then Inl OutboxLeaseLost else Inr ((), db\<lparr>db_consumers := t\<rparr>))))"

definition ack_outbox ::
    "ulid_crate \<Rightarrow> tx_fault \<Rightarrow> clock \<Rightarrow> EnvironmentScope \<Rightarrow> OutboxConsumerName \<Rightarrow> WorkerId \<Rightarrow> u64
     \<Rightarrow> OutboxCursor \<Rightarrow> database \<Rightarrow> (StoreError + unit) \<times> database" where
  "ack_outbox U fault clock scope consumer worker generation through db =
     (if generation = 0 \<or> cursor_commit_sequence through = 0 then (Inl OutboxLeaseLost, db)
      else transaction fault map_commit_error
        (ack_outbox_tx U clock scope consumer worker generation through) db)"

section \<open>Scheduled invocations\<close>

definition claimable :: "int \<Rightarrow> schedule_row \<Rightarrow> bool" where
  "claimable now r \<longleftrightarrow>
     sw_execute_at r \<le> now \<and>
     (sw_status r = ''pending'' \<or>
      (sw_status r = ''running'' \<and> (case sw_lease_until r of None \<Rightarrow> False | Some u \<Rightarrow> u \<le> now)))"

definition due_ids :: "string \<Rightarrow> string \<Rightarrow> int \<Rightarrow> nat \<Rightarrow> schedule_row list \<Rightarrow> string list" where
  "due_ids p e now limit t =
     map sw_scheduled (take limit
       (sql_select (\<lambda>r. sw_project r = p \<and> sw_environment r = e \<and> claimable now r)
          (\<lambda>r. (sw_execute_at r, sw_scheduled r)) t))"

definition fetch_schedule_row :: "string \<Rightarrow> string \<Rightarrow> string \<Rightarrow> database \<Rightarrow> schedule_row option" where
  "fetch_schedule_row p e i db = sql_find (\<lambda>r. schedule_key r = (p, e, i)) (db_schedules db)"

definition claim_row :: "string \<Rightarrow> int \<Rightarrow> int \<Rightarrow> schedule_row \<Rightarrow> StoreError + schedule_row" where
  "claim_row w now lease_until r =
     bindR (sql_succ (sw_attempts r)) (\<lambda>attempts.
     bindR (sql_succ (sw_lease_generation r)) (\<lambda>generation.
       Inr (r\<lparr>sw_status := ''running'', sw_attempts := attempts, sw_lease_generation := generation,
         sw_lease_owner := Some w, sw_lease_until := Some lease_until, sw_updated_at := now\<rparr>)))"

definition claim_one ::
    "ulid_crate \<Rightarrow> string \<Rightarrow> string \<Rightarrow> string \<Rightarrow> int \<Rightarrow> int
     \<Rightarrow> ScheduledInvocationRecord list \<times> database \<Rightarrow> string
     \<Rightarrow> StoreError + ScheduledInvocationRecord list \<times> database" where
  "claim_one U p e w now lease_until = (\<lambda>(claimed, db) i.
     bindR (sql_update_returning (\<lambda>r. schedule_key r = (p, e, i))
         (claim_row w now lease_until)
         (db_schedules db)) (\<lambda>(_, t).
       let db' = db\<lparr>db_schedules := t\<rparr> in
       bindR (ok_or Corruption (fetch_schedule_row p e i db')) (\<lambda>row.
       bindR (decode_schedule_row U row) (\<lambda>record.
         Inr (claimed @ [record], db')))))"

definition claim_due_scheduled_tx ::
    "ulid_crate \<Rightarrow> EnvironmentScope \<Rightarrow> WorkerId \<Rightarrow> TimestampMicros \<Rightarrow> TimestampMicros \<Rightarrow> u32 \<Rightarrow> database
     \<Rightarrow> StoreError + ScheduledInvocationRecord list \<times> database" where
  "claim_due_scheduled_tx U scope worker now lease_until limit db =
     (let p = project_text U scope; e = environment_text U scope in
      foldR (claim_one U p e (worker_text U worker) (micros now) (micros lease_until)) ([], db)
        (due_ids p e (micros now) (unat limit) (db_schedules db)))"

definition claim_due_scheduled ::
    "ulid_crate \<Rightarrow> tx_fault \<Rightarrow> EnvironmentScope \<Rightarrow> WorkerId \<Rightarrow> TimestampMicros \<Rightarrow> TimestampMicros \<Rightarrow> u32
     \<Rightarrow> database \<Rightarrow> (StoreError + ScheduledInvocationRecord list) \<times> database" where
  "claim_due_scheduled U fault scope worker now lease_until limit db =
     (if limit = 0 \<or> limit > 100 \<or> micros lease_until \<le> micros now then (Inl LimitExceeded, db)
      else transaction fault map_commit_error
        (claim_due_scheduled_tx U scope worker now lease_until limit) db)"

definition validate_error_code :: "string \<Rightarrow> StoreError + unit" where
  "validate_error_code s =
     failR (s = [] \<or> length s > 64 \<or>
       \<not> list_all (\<lambda>b. is_ascii_uppercase b \<or> is_ascii_digit b \<or> b = CHR ''_'') s) LimitExceeded"

fun validate_completion :: "ScheduleCompletion \<Rightarrow> StoreError + unit" where
  "validate_completion CompletionSucceeded = Inr ()"
| "validate_completion (CompletionRetry _ code) = validate_error_code code"
| "validate_completion (CompletionFailed code) = validate_error_code code"

fun complete_row :: "int \<Rightarrow> ScheduleCompletion \<Rightarrow> schedule_row \<Rightarrow> schedule_row" where
  "complete_row now CompletionSucceeded r =
     r\<lparr>sw_status := ''succeeded'', sw_lease_owner := None, sw_lease_until := None,
       sw_last_error_code := None, sw_updated_at := now\<rparr>"
| "complete_row now (CompletionRetry execute_at code) r =
     r\<lparr>sw_status := ''pending'', sw_execute_at := micros execute_at, sw_lease_owner := None,
       sw_lease_until := None, sw_last_error_code := Some code, sw_updated_at := now\<rparr>"
| "complete_row now (CompletionFailed code) r =
     r\<lparr>sw_status := ''failed'', sw_lease_owner := None, sw_lease_until := None,
       sw_last_error_code := Some code, sw_updated_at := now\<rparr>"

definition owns_lease ::
    "ulid_crate \<Rightarrow> EnvironmentScope \<Rightarrow> ScheduledInvocationId \<Rightarrow> WorkerId \<Rightarrow> int \<Rightarrow> schedule_row \<Rightarrow> bool" where
  "owns_lease U scope i worker generation r \<longleftrightarrow>
     schedule_key r = (project_text U scope, environment_text U scope, schedule_text U i) \<and>
     sw_status r = ''running'' \<and> sw_lease_owner r = Some (worker_text U worker) \<and>
     sw_lease_generation r = generation"

definition complete_schedule_update ::
    "ulid_crate \<Rightarrow> EnvironmentScope \<Rightarrow> ScheduledInvocationId \<Rightarrow> WorkerId \<Rightarrow> int \<Rightarrow> ScheduleCompletion \<Rightarrow> int
     \<Rightarrow> database \<Rightarrow> nat \<times> database" where
  "complete_schedule_update U scope i worker generation completion now db =
     (let (n, t) = sql_update (owns_lease U scope i worker generation) (complete_row now completion)
          (db_schedules db) in
      (n, db\<lparr>db_schedules := t\<rparr>))"

definition complete_scheduled ::
    "ulid_crate \<Rightarrow> tx_fault \<Rightarrow> clock \<Rightarrow> EnvironmentScope \<Rightarrow> ScheduledInvocationId \<Rightarrow> WorkerId \<Rightarrow> u64
     \<Rightarrow> ScheduleCompletion \<Rightarrow> database \<Rightarrow> (StoreError + unit) \<times> database" where
  "complete_scheduled U fault clock scope i worker lease_generation completion db =
     (case bindR (validate_completion completion) (\<lambda>_.
           bindR (positive_i64 lease_generation) (\<lambda>generation.
           bindR clock (\<lambda>now. Inr (generation, now)))) of
        Inl err \<Rightarrow> (Inl err, db)
      | Inr (generation, now) \<Rightarrow>
          transaction fault map_commit_error (\<lambda>db.
            let (n, db') = complete_schedule_update U scope i worker generation completion now db in
            if n \<noteq> 1 then Inl LeaseLost else Inr ((), db')) db)"

definition cancel_scheduled_tx ::
    "ulid_crate \<Rightarrow> clock \<Rightarrow> EnvironmentScope \<Rightarrow> ScheduledInvocationId \<Rightarrow> database
     \<Rightarrow> StoreError + ScheduleCancelResult \<times> database" where
  "cancel_scheduled_tx U clock scope i db =
     (let p = project_text U scope; e = environment_text U scope; s = schedule_text U i in
      bindR clock (\<lambda>now.
        let (n, t) = sql_update (\<lambda>r. schedule_key r = (p, e, s) \<and> sw_status r = ''pending'')
             (\<lambda>r. r\<lparr>sw_status := ''cancelled'', sw_updated_at := now\<rparr>) (db_schedules db) in
        if n = 1 then Inr (CancelCancelled, db\<lparr>db_schedules := t\<rparr>)
        else
          bindR (ok_or NotFound (sql_find (\<lambda>r. schedule_key r = (p, e, s)) t)) (\<lambda>row.
          bindR (cancel_result (sw_status row)) (\<lambda>outcome.
            Inr (outcome, db\<lparr>db_schedules := t\<rparr>)))))"

definition cancel_scheduled ::
    "ulid_crate \<Rightarrow> tx_fault \<Rightarrow> clock \<Rightarrow> EnvironmentScope \<Rightarrow> ScheduledInvocationId \<Rightarrow> database
     \<Rightarrow> (StoreError + ScheduleCancelResult) \<times> database" where
  "cancel_scheduled U fault clock scope i db =
     transaction fault map_commit_error (cancel_scheduled_tx U clock scope i) db"

section \<open>Reset\<close>

text \<open>Deleting the sequence row of a scope cascades to every table of the schema.\<close>

definition cascade_delete :: "string \<Rightarrow> string \<Rightarrow> database \<Rightarrow> database" where
  "cascade_delete p e db =
     \<lparr>db_sequences = snd (sql_delete (\<lambda>r. ew_project r = p \<and> ew_environment r = e) (db_sequences db)),
      db_operations = snd (sql_delete (\<lambda>r. pw_project r = p \<and> pw_environment r = e) (db_operations db)),
      db_results = snd (sql_delete (\<lambda>r. rw_project r = p \<and> rw_environment r = e) (db_results db)),
      db_documents = snd (sql_delete (\<lambda>r. dw_project r = p \<and> dw_environment r = e) (db_documents db)),
      db_indexes = snd (sql_delete (\<lambda>r. iw_project r = p \<and> iw_environment r = e) (db_indexes db)),
      db_outbox = snd (sql_delete (\<lambda>r. ow_project r = p \<and> ow_environment r = e) (db_outbox db)),
      db_schedules = snd (sql_delete (\<lambda>r. sw_project r = p \<and> sw_environment r = e) (db_schedules db)),
      db_consumers = snd (sql_delete (\<lambda>r. cw_project r = p \<and> cw_environment r = e) (db_consumers db))\<rparr>"

definition reset_environment ::
    "ulid_crate \<Rightarrow> tx_fault \<Rightarrow> EnvironmentScope \<Rightarrow> EnvironmentId \<Rightarrow> database
     \<Rightarrow> (StoreError + unit) \<times> database" where
  "reset_environment U fault scope confirmation db =
     (if scope_environment scope \<noteq> confirmation then (Inl InvalidRange, db)
      else transaction fault map_sqlx_error
        (\<lambda>db. Inr ((), cascade_delete (project_text U scope) (environment_text U scope) db)) db)"

section \<open>Snapshots\<close>

text \<open>
  What the queries of a snapshot select and how the rows decode, on the database its transaction
  sees. The calls themselves, with the errors the database library may report, are in \<open>Sqlite_Snapshot\<close>.
\<close>

definition begin_read :: "ulid_crate \<Rightarrow> EnvironmentScope \<Rightarrow> database \<Rightarrow> StoreError + u64" where
  "begin_read U scope db =
     positive_or_zero_u64
       (case sql_find (\<lambda>r. sequence_key r = (project_text U scope, environment_text U scope)) (db_sequences db) of
          None \<Rightarrow> 0 | Some r \<Rightarrow> ew_commit_sequence r)"

definition get_document ::
    "ulid_crate \<Rightarrow> EnvironmentScope \<Rightarrow> TableId \<Rightarrow> DocumentId \<Rightarrow> database \<Rightarrow> StoreError + DocumentRecord option" where
  "get_document U scope t d db =
     (case sql_find (\<lambda>r. document_key r =
          (project_text U scope, environment_text U scope, table_text U t, document_text U d)) (db_documents db) of
        None \<Rightarrow> Inr None
      | Some r \<Rightarrow> mapR Some (decode_document_row U r))"

definition scan_index ::
    "ulid_crate \<Rightarrow> EnvironmentScope \<Rightarrow> IndexId \<Rightarrow> IndexRange \<Rightarrow> u32 \<Rightarrow> database \<Rightarrow> StoreError + IndexEntry list" where
  "scan_index U scope i rng limit db =
     bindR (index_range_validate rng limit) (\<lambda>_.
       traverseR (decode_index_row U) (take (unat limit)
         (sql_select (\<lambda>r. iw_project r = project_text U scope \<and> iw_environment r = environment_text U scope \<and>
              iw_index r = index_text U i \<and> above_lower (range_lower rng) (iw_key r) \<and>
              below_upper (range_upper rng) (iw_key r))
            (\<lambda>r. (iw_key r, iw_document r)) (db_indexes db))))"

definition get_outbox ::
    "ulid_crate \<Rightarrow> EnvironmentScope \<Rightarrow> OutboxEventId \<Rightarrow> database \<Rightarrow> StoreError + CanonicalValue option" where
  "get_outbox U scope v db =
     (case sql_find (\<lambda>r. outbox_key r =
          (project_text U scope, environment_text U scope, event_text U v)) (db_outbox db) of
        None \<Rightarrow> Inr None
      | Some r \<Rightarrow> mapR Some (decode_value U (ow_payload r)))"

definition get_scheduled ::
    "ulid_crate \<Rightarrow> EnvironmentScope \<Rightarrow> ScheduledInvocationId \<Rightarrow> database
     \<Rightarrow> StoreError + ScheduledInvocationRecord option" where
  "get_scheduled U scope i db =
     (case fetch_schedule_row (project_text U scope) (environment_text U scope) (schedule_text U i) db of
        None \<Rightarrow> Inr None
      | Some r \<Rightarrow> mapR Some (decode_schedule_row U r))"

definition list_scheduled ::
    "ulid_crate \<Rightarrow> EnvironmentScope \<Rightarrow> ScheduledInvocationId option \<Rightarrow> u32 \<Rightarrow> database
     \<Rightarrow> StoreError + ScheduledInvocationRecord list" where
  "list_scheduled U scope after limit db =
     (if limit = 0 \<or> limit > 201 then Inl InvalidRange
      else traverseR (decode_schedule_row U) (take (unat limit)
        (sql_select (\<lambda>r. sw_project r = project_text U scope \<and> sw_environment r = environment_text U scope \<and>
             (case after of None \<Rightarrow> True | Some a \<Rightarrow> sw_scheduled r > schedule_text U a))
           sw_scheduled (db_schedules db))))"

section \<open>Inversion\<close>

definition new_document_row ::
    "ulid_crate \<Rightarrow> string \<Rightarrow> string \<Rightarrow> TableId \<Rightarrow> DocumentId \<Rightarrow> int \<Rightarrow> int \<Rightarrow> bytes \<Rightarrow> document_row" where
  "new_document_row U p e t d sequence now enc =
     \<lparr>dw_project = p, dw_environment = e, dw_table = table_text U t, dw_document = document_text U d,
      dw_revision = 1, dw_commit_sequence = sequence, dw_created_at = now, dw_updated_at = now, dw_value = enc\<rparr>"

abbreviation document_at ::
    "ulid_crate \<Rightarrow> string \<Rightarrow> string \<Rightarrow> TableId \<Rightarrow> DocumentId \<Rightarrow> u64 \<Rightarrow> document_row \<Rightarrow> bool" where
  "document_at U p e t d x r \<equiv>
     document_key r = (p, e, table_text U t, document_text U d) \<and> dw_revision r = uint x"

lemma positive_i64_Inr: "positive_i64 v = Inr i \<longleftrightarrow> v \<noteq> 0 \<and> uint v \<le> i64_max \<and> i = uint v"
  by (auto simp: positive_i64_def)

lemma apply_document_cases [consumes 1, case_names insert update delete]:
  assumes "apply_document U p e sequence now m db = Inr (r, db')"
  obtains t d v enc where "m = Upsert t d Absent v" "encode_value U v = Inr enc"
      "document_key (new_document_row U p e t d sequence now enc) \<notin> document_key ` set (db_documents db)"
      "r = \<lparr>drr_table_id = t, drr_document_id = d, drr_revision = Some 1\<rparr>"
      "db' = db\<lparr>db_documents := db_documents db @ [new_document_row U p e t d sequence now enc]\<rparr>"
  | t d x v enc where "m = Upsert t d (Exact x) v" "encode_value U v = Inr enc" "x \<noteq> 0" "uint x < i64_max"
      "length (filter (document_at U p e t d x) (db_documents db)) = 1"
      "r = \<lparr>drr_table_id = t, drr_document_id = d, drr_revision = Some (x + 1)\<rparr>"
      "db' = db\<lparr>db_documents := snd (sql_update (document_at U p e t d x)
         (\<lambda>r. r\<lparr>dw_revision := uint x + 1, dw_commit_sequence := sequence, dw_updated_at := now, dw_value := enc\<rparr>)
         (db_documents db))\<rparr>"
  | t d x where "m = DeleteDocument t d x" "x \<noteq> 0" "uint x \<le> i64_max"
      "length (filter (document_at U p e t d x) (db_documents db)) = 1"
      "r = \<lparr>drr_table_id = t, drr_document_id = d, drr_revision = None\<rparr>"
      "db' = db\<lparr>db_documents := snd (sql_delete (document_at U p e t d x) (db_documents db))\<rparr>"
proof (cases m)
  case (Upsert t d expected v)
  with assms obtain enc where enc: "encode_value U v = Inr enc" by auto
  show thesis
  proof (cases expected)
    case Absent
    with assms Upsert enc show thesis
      using that(1) [of t d v enc]
      by (auto simp: Let_def sql_insert_ignore_def list_ex_same_key new_document_row_def split: if_splits)
  next
    case (Exact x)
    from assms [unfolded Upsert Exact] obtain i n j where i: "positive_i64 x = Inr i"
      and n: "checked_add_u64 x 1 = Some n" and j: "positive_i64 n = Inr j"
      and one: "length (filter (\<lambda>r. document_key r = (p, e, table_text U t, document_text U d) \<and>
          dw_revision r = i) (db_documents db)) = 1"
      and r: "r = \<lparr>drr_table_id = t, drr_document_id = d, drr_revision = Some n\<rparr>"
      and db': "db' = db\<lparr>db_documents := snd (sql_update
        (\<lambda>r. document_key r = (p, e, table_text U t, document_text U d) \<and> dw_revision r = i)
        (\<lambda>r. r\<lparr>dw_revision := j, dw_commit_sequence := sequence, dw_updated_at := now, dw_value := enc\<rparr>)
        (db_documents db))\<rparr>"
      using enc by (auto simp: Let_def sql_update_def split: if_splits)
    from n have "n = x + 1" and "unat n = unat x + 1"
      using checked_add_u64_Some [OF n] by (simp_all add: checked_add_u64_def split: if_splits)
    then have "uint n = uint x + 1" by (simp only: uint_nat of_nat_add of_nat_1)
    with i j \<open>n = x + 1\<close> one r db' show thesis
      unfolding positive_i64_Inr using Upsert Exact enc by (intro that(2) [of t d x v enc]) simp_all
  qed
next
  case (DeleteDocument t d x)
  with assms show thesis
    using that(3) [of t d x] by (auto simp: Let_def sql_delete_def positive_i64_Inr split: if_splits)
qed

definition operation_row_of ::
    "ulid_crate \<Rightarrow> CommitBatch \<Rightarrow> bytes \<Rightarrow> int \<Rightarrow> int \<Rightarrow> operation_row" where
  "operation_row_of U b digest sequence now =
     \<lparr>pw_project = project_text U (cb_scope b), pw_environment = environment_text U (cb_scope b),
      pw_operation = operation_text U (cb_operation_id b), pw_digest = digest,
      pw_commit_sequence = sequence, pw_created_at = now\<rparr>"

text \<open>A successful commit is a replay, or runs every part of the batch in order.\<close>

lemma apply_commit_cases [consumes 1, case_names replay fresh]:
  assumes "apply_commit U clock b digest db = Inr (r, db')"
  obtains "load_operation U b digest db = Inr (Some r)" "db' = db"
  | sequence sequences now operations documents db1 db2 db3 where
      "load_operation U b digest db = Inr None"
      "validate_document_reads U (project_text U (cb_scope b)) (environment_text U (cb_scope b)) db (cb_reads b) = Inr ()"
      "bump_sequence (project_text U (cb_scope b)) (environment_text U (cb_scope b)) (db_sequences db)
         = Inr (sequence, sequences)"
      "sql_insert Internal (same_key operation_key) (operation_row_of U b digest sequence now) (db_operations db)
         = Inr operations"
      "foldR (record_document U (project_text U (cb_scope b)) (environment_text U (cb_scope b))
           (operation_text U (cb_operation_id b)) sequence now)
         ([], db\<lparr>db_sequences := sequences, db_operations := operations\<rparr>) (cb_documents b) = Inr (documents, db1)"
      "foldR (apply_index U (project_text U (cb_scope b)) (environment_text U (cb_scope b)) sequence) db1
         (cb_indexes b) = Inr db2"
      "foldR (apply_event U (project_text U (cb_scope b)) (environment_text U (cb_scope b)) sequence now) db2
         (cb_outbox b) = Inr db3"
      "foldR (apply_schedule U (project_text U (cb_scope b)) (environment_text U (cb_scope b)) sequence now) db3
         (cb_schedules b) = Inr db'"
      "clock = Inr now" "0 < sequence"
      "r = \<lparr>cr_commit_sequence = word_of_int sequence, cr_documents = documents, cr_replayed = False\<rparr>"
proof -
  from assms obtain found where f: "load_operation U b digest db = Inr found"
    by (auto simp: apply_commit_def)
  show thesis
  proof (cases found)
    case (Some result)
    with f assms have "result = r" "db' = db" by (simp_all add: apply_commit_def)
    with f Some show thesis by (intro that(1)) simp_all
  next
    case None
    let ?p = "project_text U (cb_scope b)" and ?e = "environment_text U (cb_scope b)"
    let ?op = "operation_text U (cb_operation_id b)"
    from assms f None obtain sequence sequences now operations documents db1 db2 db3
      where 2: "validate_document_reads U ?p ?e db (cb_reads b) = Inr ()"
        and 3: "bump_sequence ?p ?e (db_sequences db) = Inr (sequence, sequences)"
        and 4: "sql_insert Internal (same_key operation_key) (operation_row_of U b digest sequence now)
            (db_operations db) = Inr operations"
        and 5: "foldR (record_document U ?p ?e ?op sequence now)
            ([], db\<lparr>db_sequences := sequences, db_operations := operations\<rparr>) (cb_documents b) = Inr (documents, db1)"
        and 6: "foldR (apply_index U ?p ?e sequence) db1 (cb_indexes b) = Inr db2"
        and 7: "foldR (apply_event U ?p ?e sequence now) db2 (cb_outbox b) = Inr db3"
        and 8: "foldR (apply_schedule U ?p ?e sequence now) db3 (cb_schedules b) = Inr db'"
        and 9: "clock = Inr now" "0 < sequence"
        and 10: "r = \<lparr>cr_commit_sequence = word_of_int sequence, cr_documents = documents, cr_replayed = False\<rparr>"
      by (auto simp: apply_commit_def Let_def operation_row_of_def positive_u64_def not_le split: if_splits)
    from f None have 1: "load_operation U b digest db = Inr None" by simp
    show thesis by (rule that(2) [OF 1 2 3 4 5 6 7 8 9 10])
  qed
qed

lemma load_operation_replayed: "load_operation U b digest db = Inr (Some r) \<Longrightarrow> cr_replayed r"
  by (auto simp: load_operation_def Let_def split: option.splits if_splits)


lemma ack_outbox_tx_Inr:
  "ack_outbox_tx U clock scope consumer worker generation through db = Inr (u, db') \<longleftrightarrow>
     (\<exists>now. clock = Inr now \<and> generation \<noteq> 0 \<and> uint generation \<le> i64_max \<and>
        cursor_commit_sequence through \<noteq> 0 \<and> uint (cursor_commit_sequence through) \<le> i64_max \<and>
        fst (sql_update (owns_claim U scope consumer worker (uint generation) (uint (cursor_commit_sequence through))
            (event_text U (cursor_event_id through)))
          (ack_row now (uint (cursor_commit_sequence through)) (event_text U (cursor_event_id through)))
          (db_consumers db)) = 1 \<and>
        db' = db\<lparr>db_consumers := snd (sql_update
            (owns_claim U scope consumer worker (uint generation) (uint (cursor_commit_sequence through))
              (event_text U (cursor_event_id through)))
            (ack_row now (uint (cursor_commit_sequence through)) (event_text U (cursor_event_id through)))
            (db_consumers db))\<rparr>)"
  by (auto simp: ack_outbox_tx_def positive_i64_Inr Let_def split_beta split: if_splits)


lemma complete_row_simps [simp]:
  "sw_project (complete_row now c r) = sw_project r"
  "sw_environment (complete_row now c r) = sw_environment r"
  "sw_scheduled (complete_row now c r) = sw_scheduled r"
  "sw_pinned_code (complete_row now c r) = sw_pinned_code r"
  "sw_function (complete_row now c r) = sw_function r"
  "sw_args (complete_row now c r) = sw_args r"
  "sw_attempts (complete_row now c r) = sw_attempts r"
  "sw_lease_generation (complete_row now c r) = sw_lease_generation r"
  "sw_lease_owner (complete_row now c r) = None"
  "sw_lease_until (complete_row now c r) = None"
  "sw_idempotency_key (complete_row now c r) = sw_idempotency_key r"
  "sw_commit_sequence (complete_row now c r) = sw_commit_sequence r"
  by (cases c; simp)+

lemma claim_outbox_tx_cases:
  assumes "claim_outbox_tx U scope consumer worker now lease_until limit db = Inr (r, db')"
  obtains leased row rest cursor acknowledged events f where
    "sql_update_returning
        (\<lambda>r. consumer_key r = (project_text U scope, environment_text U scope, consumer) \<and>
             lease_free (worker_text U worker) (micros now) r)
        (lease_row (worker_text U worker) (micros now) (micros lease_until))
        (ensure_consumer (project_text U scope) (environment_text U scope) consumer (micros now) (db_consumers db)) =
      Inr (row # rest, leased)"
    "positive_or_zero_u64 (cw_cursor_sequence row) = Inr cursor"
    "decode_optional_cursor U cursor (cw_cursor_event row) = Inr acknowledged"
    "traverseR (decode_outbox_event U)
       (pending_events (project_text U scope) (environment_text U scope) (uint cursor)
          (map_option (\<lambda>c. event_text U (cursor_event_id c)) acknowledged) (unat limit) (db_outbox db)) = Inr events"
    "f = (if events = [] then release_row (micros now)
          else claimed_row (micros now) (uint (oe_commit_sequence (last events)))
                 (event_text U (oe_event_id (last events))))"
    "cw_lease_generation row = uint (cob_lease_generation r)"
    "r = \<lparr>cob_lease_generation = cob_lease_generation r, cob_acknowledged_through = acknowledged,
          cob_events = events\<rparr>"
    "db' = db\<lparr>db_sequences := ensure_sequence (project_text U scope) (environment_text U scope) (db_sequences db),
       db_consumers := snd (sql_update
         (\<lambda>r. consumer_key r = (project_text U scope, environment_text U scope, consumer)) f leased)\<rparr>"
proof -
  from assms obtain rows leased where u: "sql_update_returning
        (\<lambda>r. consumer_key r = (project_text U scope, environment_text U scope, consumer) \<and>
             lease_free (worker_text U worker) (micros now) r)
        (lease_row (worker_text U worker) (micros now) (micros lease_until))
        (ensure_consumer (project_text U scope) (environment_text U scope) consumer (micros now) (db_consumers db)) =
      Inr (rows, leased)"
    by (auto simp: claim_outbox_tx_def Let_def)
  with assms obtain row rest where rows: "rows = row # rest"
    by (cases rows) (auto simp: claim_outbox_tx_def Let_def)
  note claim = assms [unfolded claim_outbox_tx_def Let_def u rows bindR_simps prod.case list.case]
  from claim obtain cursor acknowledged cursor_db events claims generation where
    c: "positive_or_zero_u64 (cw_cursor_sequence row) = Inr cursor"
       "decode_optional_cursor U cursor (cw_cursor_event row) = Inr acknowledged"
       "nonnegative_i64 cursor = Inr cursor_db"
    and e: "traverseR (decode_outbox_event U)
       (pending_events (project_text U scope) (environment_text U scope) cursor_db
          (map_option (\<lambda>c. event_text U (cursor_event_id c)) acknowledged) (unat limit) (db_outbox db)) = Inr events"
    and g: "positive_u64 (cw_lease_generation row) = Inr generation"
    and r: "r = \<lparr>cob_lease_generation = generation, cob_acknowledged_through = acknowledged, cob_events = events\<rparr>"
    and d: "db' = db\<lparr>db_sequences := ensure_sequence (project_text U scope) (environment_text U scope) (db_sequences db),
       db_consumers := claims\<rparr>"
    and k: "(if events = [] then Inr (snd (sql_update
           (\<lambda>r. consumer_key r = (project_text U scope, environment_text U scope, consumer)) (release_row (micros now)) leased))
         else bindR (positive_i64 (oe_commit_sequence (last events))) (\<lambda>claimed.
           Inr (snd (sql_update (\<lambda>r. consumer_key r = (project_text U scope, environment_text U scope, consumer))
             (claimed_row (micros now) claimed (event_text U (oe_event_id (last events)))) leased)))) = Inr claims"
    unfolding bindR_Inr by blast
  have "cursor_db = uint cursor" using c(3) by (simp add: nonnegative_i64_def split: if_splits)
  moreover have "cw_lease_generation row = uint generation"
  proof -
    from sql_update_returned [OF u, of row] rows obtain r0 where
      "lease_row (worker_text U worker) (micros now) (micros lease_until) r0 = Inr row" by auto
    then have "cw_lease_generation row \<le> i64_max" by (auto simp: lease_row_def sql_succ_def split: if_splits)
    then show ?thesis using g by (auto simp: positive_u64_def uint_word_of_int take_bit_int_eq_self split: if_splits)
  qed
  moreover have "claims = snd (sql_update
         (\<lambda>r. consumer_key r = (project_text U scope, environment_text U scope, consumer))
         (if events = [] then release_row (micros now)
          else claimed_row (micros now) (uint (oe_commit_sequence (last events)))
                 (event_text U (oe_event_id (last events)))) leased)"
    using k by (cases "events = []") (simp_all add: positive_i64_Inr)
  ultimately show thesis
    using e r d by (intro that [OF u [unfolded rows] c(1,2), of events]) simp_all
qed

lemma consumer_key_rows [simp]:
  "consumer_key (release_row now r) = consumer_key r"
  "consumer_key (claimed_row now seq event r) = consumer_key r"
  "consumer_key (ack_row now seq event r) = consumer_key r"
  by (simp_all add: consumer_key_def release_row_def claimed_row_def ack_row_def)

lemma lease_row_key: "lease_row w now until r = Inr s \<Longrightarrow> consumer_key s = consumer_key r"
  by (auto simp: consumer_key_def lease_row_def)

section \<open>The store as a machine\<close>

text \<open>
  The operations of the running service that can change the database, with their inputs. The two
  administrative operations that load an export, \<open>seed_environment\<close> and \<open>import_environment\<close>, are modelled
  in \<open>Sqlite_Export\<close> and are not steps of this machine: \<open>validate_export\<close> does not compare the attempts of a
  scheduled invocation with its lease generation, so that an export which no database of this machine
  yields can be loaded and leave rows outside the invariant.
\<close>

datatype store_op =
  OpCommit tx_fault clock CommitBatch
| OpClaimOutbox tx_fault EnvironmentScope OutboxConsumerName WorkerId TimestampMicros TimestampMicros u32
| OpAckOutbox tx_fault clock EnvironmentScope OutboxConsumerName WorkerId u64 OutboxCursor
| OpClaimDue tx_fault EnvironmentScope WorkerId TimestampMicros TimestampMicros u32
| OpComplete tx_fault clock EnvironmentScope ScheduledInvocationId WorkerId u64 ScheduleCompletion
| OpCancel tx_fault clock EnvironmentScope ScheduledInvocationId
| OpReset tx_fault EnvironmentScope EnvironmentId

fun store_step :: "ulid_crate \<Rightarrow> (bytes \<Rightarrow> bytes) \<Rightarrow> store_op \<Rightarrow> database \<Rightarrow> database" where
  "store_step U sha256 (OpCommit fault clock b) db = snd (store_commit U sha256 fault clock b db)"
| "store_step U sha256 (OpClaimOutbox fault scope c w now lease limit) db =
     snd (claim_outbox U fault scope c w now lease limit db)"
| "store_step U sha256 (OpAckOutbox fault clock scope c w g through) db =
     snd (ack_outbox U fault clock scope c w g through db)"
| "store_step U sha256 (OpClaimDue fault scope w now lease limit) db =
     snd (claim_due_scheduled U fault scope w now lease limit db)"
| "store_step U sha256 (OpComplete fault clock scope i w g completion) db =
     snd (complete_scheduled U fault clock scope i w g completion db)"
| "store_step U sha256 (OpCancel fault clock scope i) db = snd (cancel_scheduled U fault clock scope i db)"
| "store_step U sha256 (OpReset fault scope confirmation) db = snd (reset_environment U fault scope confirmation db)"

fun op_scope :: "store_op \<Rightarrow> EnvironmentScope" where
  "op_scope (OpCommit _ _ b) = cb_scope b"
| "op_scope (OpClaimOutbox _ scope _ _ _ _ _) = scope"
| "op_scope (OpAckOutbox _ _ scope _ _ _ _) = scope"
| "op_scope (OpClaimDue _ scope _ _ _ _) = scope"
| "op_scope (OpComplete _ _ scope _ _ _ _) = scope"
| "op_scope (OpCancel _ _ scope _) = scope"
| "op_scope (OpReset _ scope _) = scope"

text \<open>
  What a transaction does to the database is the identity or one of the bodies: a predicate that
  every body keeps, the operation keeps.
\<close>

lemma transaction_state:
  "snd (transaction fault commit_error body db) = db \<or>
   (\<exists>x. body db = Inr (x, snd (transaction fault commit_error body db)))"
  by (auto simp: transaction_def split: tx_fault.split sum.split)

lemma store_step_cases:
  assumes "store_step U sha256 x db \<noteq> db"
  obtains b fault clock digest r where "x = OpCommit fault clock b" "commit_batch_digest U sha256 b = Inr digest"
      "apply_commit U clock b digest db = Inr (r, store_step U sha256 x db)"
  | fault scope c w now lease limit r where "x = OpClaimOutbox fault scope c w now lease limit"
      "claim_outbox_tx U scope c w now lease limit db = Inr (r, store_step U sha256 x db)"
  | fault clock scope c w g through r where "x = OpAckOutbox fault clock scope c w g through"
      "ack_outbox_tx U clock scope c w g through db = Inr (r, store_step U sha256 x db)"
  | fault scope w now lease limit r where "x = OpClaimDue fault scope w now lease limit"
      "claim_due_scheduled_tx U scope w now lease limit db = Inr (r, store_step U sha256 x db)"
  | fault clock scope i w g completion now where "x = OpComplete fault clock scope i w g completion"
      "validate_completion completion = Inr ()" "clock = Inr now"
      "store_step U sha256 x db = snd (complete_schedule_update U scope i w (uint g) completion now db)"
      "fst (complete_schedule_update U scope i w (uint g) completion now db) = 1"
  | fault clock scope i r where "x = OpCancel fault clock scope i"
      "cancel_scheduled_tx U clock scope i db = Inr (r, store_step U sha256 x db)"
  | fault scope confirmation where "x = OpReset fault scope confirmation" "scope_environment scope = confirmation"
      "store_step U sha256 x db = cascade_delete (project_text U scope) (environment_text U scope) db"
proof (cases x)
  case (OpCommit fault clock b)
  then obtain digest where d: "commit_batch_digest U sha256 b = Inr digest"
    using assms by (auto simp: store_commit_def split: sum.splits)
  with OpCommit assms show thesis
    using transaction_state [of fault map_commit_error "apply_commit U clock b digest" db] that(1)
    by (auto simp: store_commit_def)
next
  case (OpClaimOutbox fault scope c w now lease limit)
  with assms show thesis
    using transaction_state [of fault map_commit_error "claim_outbox_tx U scope c w now lease limit" db] that(2)
    by (auto simp: claim_outbox_def split: if_splits)
next
  case (OpAckOutbox fault clock scope c w g through)
  with assms show thesis
    using transaction_state [of fault map_commit_error "ack_outbox_tx U clock scope c w g through" db] that(3)
    by (auto simp: ack_outbox_def split: if_splits)
next
  case (OpClaimDue fault scope w now lease limit)
  with assms show thesis
    using transaction_state [of fault map_commit_error "claim_due_scheduled_tx U scope w now lease limit" db] that(4)
    by (auto simp: claim_due_scheduled_def split: if_splits)
next
  case (OpComplete fault clock scope i w g completion)
  from assms OpComplete obtain now where v: "validate_completion completion = Inr ()" "positive_i64 g = Inr (uint g)"
    "clock = Inr now"
    by (auto simp: complete_scheduled_def positive_i64_Inr split: sum.splits)
  let ?body = "\<lambda>db. let (n, db') = complete_schedule_update U scope i w (uint g) completion now db in
     if n \<noteq> 1 then Inl LeaseLost else Inr ((), db')"
  have "store_step U sha256 x db = snd (transaction fault map_commit_error ?body db)"
    using OpComplete v by (simp add: complete_scheduled_def)
  with assms transaction_state [of fault map_commit_error ?body db] v OpComplete show thesis
    using that(5) by (auto simp: split_beta Let_def split: if_splits)
next
  case (OpCancel fault clock scope i)
  with assms show thesis
    using transaction_state [of fault map_commit_error "cancel_scheduled_tx U clock scope i" db] that(6)
    by (auto simp: cancel_scheduled_def)
next
  case (OpReset fault scope confirmation)
  with assms show thesis
    using transaction_state [of fault map_sqlx_error
        "\<lambda>db. Inr ((), cascade_delete (project_text U scope) (environment_text U scope) db)" db] that(7)
    by (auto simp: reset_environment_def split: if_splits)
qed

end
