(* ===== verification/Machine.thy ===== *)
theory Machine
  imports Prelude
begin

text \<open>
  State machines: a component whose operations are functions on a state, with the inputs its types
  admit. An invariant that holds initially and that every legal operation keeps holds after every
  sequence of legal operations, and a relation that every operation respects relates any two states
  of a run.
\<close>

definition run :: "('o \<Rightarrow> 's \<Rightarrow> 's) \<Rightarrow> 'o list \<Rightarrow> 's \<Rightarrow> 's" where
  "run step ops s = fold step ops s"

lemma run_simps [simp]:
  "run step [] s = s"
  "run step (x # xs) s = run step xs (step x s)"
  by (simp_all add: run_def)

lemma run_append [simp]: "run step (xs @ ys) s = run step ys (run step xs s)"
  by (simp add: run_def)

lemma run_frame:
  assumes "\<And>x s. x \<in> set xs \<Longrightarrow> f (step x s) = f s"
  shows "f (run step xs s) = f s"
  using assms by (induction xs arbitrary: s) auto

locale invariant_machine =
  fixes init :: 's
    and step :: "'o \<Rightarrow> 's \<Rightarrow> 's"
    and legal :: "'o \<Rightarrow> bool"
    and inv :: "'s \<Rightarrow> bool"
  assumes inv_init: "inv init"
    and inv_step: "legal x \<Longrightarrow> inv s \<Longrightarrow> inv (step x s)"
begin

lemma inv_run: "list_all legal xs \<Longrightarrow> inv s \<Longrightarrow> inv (run step xs s)"
  by (induction xs arbitrary: s) (auto intro: inv_step)

lemma inv_reachable: "list_all legal xs \<Longrightarrow> inv (run step xs init)"
  by (rule inv_run [OF _ inv_init])

end

text \<open>A machine with a preorder on its states that no operation goes against.\<close>

locale monotone_machine = invariant_machine +
  fixes le :: "'a \<Rightarrow> 'a \<Rightarrow> bool"
  assumes le_refl: "le s s"
    and le_trans: "le s t \<Longrightarrow> le t u \<Longrightarrow> le s u"
    and le_step: "legal x \<Longrightarrow> inv s \<Longrightarrow> le s (step x s)"
begin

lemma le_run: "list_all legal xs \<Longrightarrow> inv s \<Longrightarrow> le s (run step xs s)"
proof (induction xs arbitrary: s)
  case Nil
  then show ?case by (simp add: le_refl)
next
  case (Cons x xs)
  then show ?case using le_step inv_step le_trans by (metis run_simps(2) list.pred_inject(2))
qed

end

text \<open>Loops: what every successful iteration keeps, the successful loop keeps.\<close>

lemma foldR_invariant:
  assumes "foldR f s xs = Inr t" and "P s"
    and "\<And>a x b. f a x = Inr b \<Longrightarrow> x \<in> set xs \<Longrightarrow> P a \<Longrightarrow> P b"
  shows "P t"
  using assms by (induction xs arbitrary: s) auto

end
