(* ===== verification/Sqlite_Isolation.thy ===== *)
theory Sqlite_Isolation
  imports Sqlite_Store Machine
begin

text \<open>
  Tenant isolation of the embedded store. The rows of one Environment are a part of the database
  that operations on other Environments leave as it is.
\<close>

definition scope_view :: "string \<Rightarrow> string \<Rightarrow> database \<Rightarrow> database" where
  "scope_view p e db =
     \<lparr>db_sequences = filter (\<lambda>r. ew_project r = p \<and> ew_environment r = e) (db_sequences db),
      db_operations = filter (\<lambda>r. pw_project r = p \<and> pw_environment r = e) (db_operations db),
      db_results = filter (\<lambda>r. rw_project r = p \<and> rw_environment r = e) (db_results db),
      db_documents = filter (\<lambda>r. dw_project r = p \<and> dw_environment r = e) (db_documents db),
      db_indexes = filter (\<lambda>r. iw_project r = p \<and> iw_environment r = e) (db_indexes db),
      db_outbox = filter (\<lambda>r. ow_project r = p \<and> ow_environment r = e) (db_outbox db),
      db_schedules = filter (\<lambda>r. sw_project r = p \<and> sw_environment r = e) (db_schedules db),
      db_consumers = filter (\<lambda>r. cw_project r = p \<and> cw_environment r = e) (db_consumers db)\<rparr>"

lemma scope_view_eqI:
  assumes "filter (\<lambda>r. ew_project r = p \<and> ew_environment r = e) (db_sequences a) =
      filter (\<lambda>r. ew_project r = p \<and> ew_environment r = e) (db_sequences b)"
    and "filter (\<lambda>r. pw_project r = p \<and> pw_environment r = e) (db_operations a) =
      filter (\<lambda>r. pw_project r = p \<and> pw_environment r = e) (db_operations b)"
    and "filter (\<lambda>r. rw_project r = p \<and> rw_environment r = e) (db_results a) =
      filter (\<lambda>r. rw_project r = p \<and> rw_environment r = e) (db_results b)"
    and "filter (\<lambda>r. dw_project r = p \<and> dw_environment r = e) (db_documents a) =
      filter (\<lambda>r. dw_project r = p \<and> dw_environment r = e) (db_documents b)"
    and "filter (\<lambda>r. iw_project r = p \<and> iw_environment r = e) (db_indexes a) =
      filter (\<lambda>r. iw_project r = p \<and> iw_environment r = e) (db_indexes b)"
    and "filter (\<lambda>r. ow_project r = p \<and> ow_environment r = e) (db_outbox a) =
      filter (\<lambda>r. ow_project r = p \<and> ow_environment r = e) (db_outbox b)"
    and "filter (\<lambda>r. sw_project r = p \<and> sw_environment r = e) (db_schedules a) =
      filter (\<lambda>r. sw_project r = p \<and> sw_environment r = e) (db_schedules b)"
    and "filter (\<lambda>r. cw_project r = p \<and> cw_environment r = e) (db_consumers a) =
      filter (\<lambda>r. cw_project r = p \<and> cw_environment r = e) (db_consumers b)"
  shows "scope_view p e a = scope_view p e b"
  using assms by (simp add: scope_view_def)

lemma filter_update_returning_frame:
  assumes "sql_update_returning w f t = Inr (rows, t')"
    and "\<And>r. w r \<Longrightarrow> \<not> q r" and "\<And>r s. w r \<Longrightarrow> f r = Inr s \<Longrightarrow> \<not> q s"
  shows "filter q t' = filter q t"
proof -
  from assms(1) have ok: "\<forall>r \<in> set t. w r \<longrightarrow> (\<exists>s. f r = Inr s)"
    and t': "t' = snd (sql_update w (\<lambda>r. projr (f r)) t)" by (simp_all add: sql_update_returning_Inr)
  from ok have "filter q (map (\<lambda>r. if w r then projr (f r) else r) t) = filter q t"
    using assms(2,3) by (induction t) fastforce+
  then show ?thesis by (simp add: t' sql_update_def)
qed

section \<open>Statements of one scope\<close>

lemma apply_document_frame:
  assumes "apply_document U p e sequence now m db = Inr (r, db')" and "(p, e) \<noteq> (p', e')"
  shows "scope_view p' e' db' = scope_view p' e' db"
  using assms(1)
proof (cases rule: apply_document_cases)
  case (insert t d v enc)
  then show ?thesis using assms(2) by (auto simp: scope_view_def new_document_row_def)
next
  case (update t d x v enc)
  then show ?thesis using assms(2)
    by (auto simp: scope_view_def key_defs intro!: filter_sql_update_frame)
next
  case (delete t d x)
  then show ?thesis using assms(2)
    by (auto simp: scope_view_def key_defs intro!: filter_sql_delete_frame)
qed

lemma record_document_frame:
  assumes "record_document U p e op sequence now (rs, db) m = Inr (rs', db')" and "(p, e) \<noteq> (p', e')"
  shows "scope_view p' e' db' = scope_view p' e' db"
proof -
  from assms(1) obtain r db1 rev t where 1: "apply_document U p e sequence now m db = Inr (r, db1)"
    and 2: "sql_insert Internal (same_key result_key)
         \<lparr>rw_project = p, rw_environment = e, rw_operation = op, rw_ordinal = int (length rs),
          rw_table = table_text U (drr_table_id r), rw_document = document_text U (drr_document_id r),
          rw_revision = rev\<rparr> (db_results db1) = Inr t"
    and 3: "db' = db1\<lparr>db_results := t\<rparr>"
    by (auto simp: record_document_def)
  have "filter (\<lambda>r. rw_project r = p' \<and> rw_environment r = e') t =
      filter (\<lambda>r. rw_project r = p' \<and> rw_environment r = e') (db_results db1)"
    using assms(2) by (intro filter_sql_insert_frame [OF 2]) auto
  then have "scope_view p' e' db' = scope_view p' e' db1" by (simp add: scope_view_def 3)
  then show ?thesis using apply_document_frame [OF 1 assms(2)] by simp
qed

lemma apply_index_frame:
  assumes "apply_index U p e sequence db m = Inr db'" and "(p, e) \<noteq> (p', e')"
  shows "scope_view p' e' db' = scope_view p' e' db"
  using assms
  by (cases m)
    (auto simp: scope_view_def put_index_entry_def key_defs split: option.splits if_splits
      intro!: filter_sql_update_frame filter_sql_delete_frame)

lemma apply_event_frame:
  assumes "apply_event U p e sequence now db a = Inr db'" and "(p, e) \<noteq> (p', e')"
  shows "scope_view p' e' db' = scope_view p' e' db"
  using assms
  by (auto simp: scope_view_def apply_event_def sql_insert_ignore_def Let_def split: if_splits)

lemma apply_schedule_frame:
  assumes "apply_schedule U p e sequence now db s = Inr db'" and "(p, e) \<noteq> (p', e')"
  shows "scope_view p' e' db' = scope_view p' e' db"
  using assms
  by (auto simp: scope_view_def apply_schedule_def sql_insert_ignore_def Let_def split: if_splits)

lemma bump_sequence_frame:
  assumes "bump_sequence p e t = Inr (n, t')" and "(p, e) \<noteq> (p', e')"
  shows "filter (\<lambda>r. ew_project r = p' \<and> ew_environment r = e') t' =
    filter (\<lambda>r. ew_project r = p' \<and> ew_environment r = e') t"
proof (cases "sql_find (\<lambda>r. sequence_key r = (p, e)) t")
  case None
  then show ?thesis using assms by (auto simp: bump_sequence_def)
next
  case (Some r)
  with assms(1) obtain rows where "sql_update_returning (\<lambda>r. sequence_key r = (p, e))
      (\<lambda>r. mapR (\<lambda>n. r\<lparr>ew_commit_sequence := n\<rparr>) (sql_succ (ew_commit_sequence r))) t = Inr (rows, t')"
    by (auto simp: bump_sequence_def)
  then show ?thesis
    by (rule filter_update_returning_frame) (use assms(2) in \<open>auto simp: sequence_key_def\<close>)
qed

lemma apply_commit_frame:
  assumes "apply_commit U clock b digest db = Inr (r, db')"
    and "(project_text U (cb_scope b), environment_text U (cb_scope b)) \<noteq> (p', e')"
  shows "scope_view p' e' db' = scope_view p' e' db"
  using assms(1)
proof (cases rule: apply_commit_cases)
  case replay
  then show ?thesis by simp
next
  case (fresh sequence sequences now operations documents db1 db2 db3)
  note ne = assms(2)
  have "scope_view p' e' (db\<lparr>db_sequences := sequences, db_operations := operations\<rparr>) = scope_view p' e' db"
    using bump_sequence_frame [OF fresh(3) ne]
      filter_sql_insert_frame [OF fresh(4), of "\<lambda>r. pw_project r = p' \<and> pw_environment r = e'"] ne
    by (auto simp: scope_view_def operation_row_of_def)
  then have "scope_view p' e' (snd (documents, db1)) = scope_view p' e' db"
    by (intro foldR_invariant [OF fresh(5), where P = "\<lambda>x. scope_view p' e' (snd x) = scope_view p' e' db"])
      (auto dest: record_document_frame [OF _ ne])
  then have "scope_view p' e' db2 = scope_view p' e' db"
    by (intro foldR_invariant [OF fresh(6), where P = "\<lambda>x. scope_view p' e' x = scope_view p' e' db"])
      (auto dest: apply_index_frame [OF _ ne])
  then have "scope_view p' e' db3 = scope_view p' e' db"
    by (intro foldR_invariant [OF fresh(7), where P = "\<lambda>x. scope_view p' e' x = scope_view p' e' db"])
      (auto dest: apply_event_frame [OF _ ne])
  then show ?thesis
    by (intro foldR_invariant [OF fresh(8), where P = "\<lambda>x. scope_view p' e' x = scope_view p' e' db"])
      (auto dest: apply_schedule_frame [OF _ ne])
qed

lemma transaction_frame:
  assumes "\<And>x db'. body db = Inr (x, db') \<Longrightarrow> f db' = f db"
  shows "f (snd (transaction fault commit_error body db)) = f db"
  using assms by (auto simp: transaction_def split: tx_fault.split sum.split)

lemma claim_outbox_tx_frame:
  assumes "claim_outbox_tx U scope consumer worker now lease_until limit db = Inr (r, db')"
    and "(project_text U scope, environment_text U scope) \<noteq> (p', e')"
  shows "scope_view p' e' db' = scope_view p' e' db"
proof -
  let ?p = "project_text U scope" and ?e = "environment_text U scope"
  let ?q = "\<lambda>r. cw_project r = p' \<and> cw_environment r = e'"
  let ?here = "\<lambda>r. consumer_key r = (?p, ?e, consumer)"
  let ?consumers = "ensure_consumer ?p ?e consumer (micros now) (db_consumers db)"
  have here: "\<not> ?q r" if "?here r" for r using that assms(2) by (auto simp: consumer_key_def)
  from assms(1) show ?thesis
  proof (rule claim_outbox_tx_cases)
    fix leased row rest cursor acknowledged events f
    assume 1: "sql_update_returning (\<lambda>r. ?here r \<and> lease_free (worker_text U worker) (micros now) r)
        (lease_row (worker_text U worker) (micros now) (micros lease_until)) ?consumers = Inr (row # rest, leased)"
      and 2: "f = (if events = [] then release_row (micros now)
          else claimed_row (micros now) (uint (oe_commit_sequence (last events)))
                 (event_text U (oe_event_id (last events))))"
      and 3: "db' = db\<lparr>db_sequences := ensure_sequence ?p ?e (db_sequences db),
         db_consumers := snd (sql_update ?here f leased)\<rparr>"
    have f: "consumer_key (f r) = consumer_key r" for r by (simp add: 2)
    have "filter ?q (snd (sql_update ?here f leased)) = filter ?q leased"
      by (rule filter_sql_update_frame) (use here f in \<open>blast, metis\<close>)
    also have "\<dots> = filter ?q ?consumers"
      by (rule filter_update_returning_frame [OF 1]) (use here lease_row_key in \<open>blast, metis\<close>)
    also have "\<dots> = filter ?q (db_consumers db)"
      using assms(2) by (auto simp: ensure_consumer_def intro!: filter_sql_insert_ignore_frame)
    finally have "filter ?q (snd (sql_update ?here f leased)) = filter ?q (db_consumers db)" .
    moreover have "filter (\<lambda>r. ew_project r = p' \<and> ew_environment r = e') (ensure_sequence ?p ?e (db_sequences db)) =
        filter (\<lambda>r. ew_project r = p' \<and> ew_environment r = e') (db_sequences db)"
      using assms(2) by (auto simp: ensure_sequence_def intro!: filter_sql_insert_ignore_frame)
    ultimately show ?thesis by (simp add: 3 scope_view_def)
  qed
qed

lemma ack_outbox_tx_frame:
  assumes "ack_outbox_tx U clock scope consumer worker generation through db = Inr (r, db')"
    and "(project_text U scope, environment_text U scope) \<noteq> (p', e')"
  shows "scope_view p' e' db' = scope_view p' e' db"
proof -
  from assms(1) obtain now gen seq event where
    "db' = db\<lparr>db_consumers := snd (sql_update (owns_claim U scope consumer worker gen seq event)
       (ack_row now seq event) (db_consumers db))\<rparr>"
    by (auto simp: ack_outbox_tx_Inr)
  then show ?thesis
    using assms(2)
    by (auto simp: scope_view_def owns_claim_def ack_row_def consumer_key_def intro!: filter_sql_update_frame)
qed

lemma claim_one_frame:
  assumes "claim_one U p e w now lease_until (rs, db) i = Inr (rs', db')" and "(p, e) \<noteq> (p', e')"
  shows "scope_view p' e' db' = scope_view p' e' db"
proof -
  from assms(1) obtain rows t where 1: "sql_update_returning (\<lambda>r. schedule_key r = (p, e, i))
      (claim_row w now lease_until) (db_schedules db) = Inr (rows, t)"
    and 2: "db' = db\<lparr>db_schedules := t\<rparr>" by (auto simp: claim_one_def Let_def)
  have "filter (\<lambda>r. sw_project r = p' \<and> sw_environment r = e') t =
      filter (\<lambda>r. sw_project r = p' \<and> sw_environment r = e') (db_schedules db)"
    by (rule filter_update_returning_frame [OF 1])
      (use assms(2) in \<open>auto simp: schedule_key_def claim_row_def\<close>)
  then show ?thesis by (simp add: 2 scope_view_def)
qed

lemma claim_due_scheduled_tx_frame:
  assumes "claim_due_scheduled_tx U scope worker now lease_until limit db = Inr (r, db')"
    and "(project_text U scope, environment_text U scope) \<noteq> (p', e')"
  shows "scope_view p' e' db' = scope_view p' e' db"
proof -
  have "scope_view p' e' (snd (r, db')) = scope_view p' e' db"
    by (rule foldR_invariant [OF assms(1) [unfolded claim_due_scheduled_tx_def Let_def],
          where P = "\<lambda>x. scope_view p' e' (snd x) = scope_view p' e' db"])
      (auto dest: claim_one_frame [OF _ assms(2)])
  then show ?thesis by simp
qed

lemma complete_schedule_update_frame:
  assumes "(project_text U scope, environment_text U scope) \<noteq> (p', e')"
  shows "scope_view p' e' (snd (complete_schedule_update U scope i worker generation completion now db)) =
    scope_view p' e' db"
  using assms
  by (auto simp: complete_schedule_update_def scope_view_def split_beta owns_lease_def schedule_key_def
      intro!: filter_sql_update_frame)

lemma cancel_scheduled_tx_frame:
  assumes "cancel_scheduled_tx U clock scope i db = Inr (r, db')"
    and "(project_text U scope, environment_text U scope) \<noteq> (p', e')"
  shows "scope_view p' e' db' = scope_view p' e' db"
proof -
  from assms(1) obtain now where "db' = db\<lparr>db_schedules := snd (sql_update
      (\<lambda>r. schedule_key r = (project_text U scope, environment_text U scope, schedule_text U i) \<and> sw_status r = ''pending'')
      (\<lambda>r. r\<lparr>sw_status := ''cancelled'', sw_updated_at := now\<rparr>) (db_schedules db))\<rparr>"
    by (auto simp: cancel_scheduled_tx_def Let_def split_beta split: if_splits)
  then show ?thesis
    using assms(2) by (auto simp: scope_view_def schedule_key_def intro!: filter_sql_update_frame)
qed

lemma cascade_delete_frame:
  "(p, e) \<noteq> (p', e') \<Longrightarrow> scope_view p' e' (cascade_delete p e db) = scope_view p' e' db"
  by (auto simp: scope_view_def cascade_delete_def intro!: filter_sql_delete_frame)


section \<open>Every operation\<close>

lemma store_step_frame:
  assumes "(project_text U (op_scope x), environment_text U (op_scope x)) \<noteq> (p, e)"
  shows "scope_view p e (store_step U sha256 x db) = scope_view p e db"
proof (cases "store_step U sha256 x db = db")
  case False
  then show ?thesis
  proof (cases rule: store_step_cases)
    case (1 b fault clock digest r)
    then show ?thesis using apply_commit_frame assms by (metis op_scope.simps(1))
  next
    case (2 fault scope c w now lease limit r)
    then show ?thesis using claim_outbox_tx_frame assms by (metis op_scope.simps(2))
  next
    case (3 fault clock scope c w g through r)
    then show ?thesis using ack_outbox_tx_frame assms by (metis op_scope.simps(3))
  next
    case (4 fault scope w now lease limit r)
    then show ?thesis using claim_due_scheduled_tx_frame assms by (metis op_scope.simps(4))
  next
    case (5 fault clock scope i w g completion now)
    then show ?thesis using complete_schedule_update_frame assms by (metis op_scope.simps(5))
  next
    case (6 fault clock scope i r)
    then show ?thesis using cancel_scheduled_tx_frame assms by (metis op_scope.simps(6))
  next
    case (7 fault scope confirmation)
    then show ?thesis using cascade_delete_frame assms by (metis op_scope.simps(7))
  qed
qed simp

section \<open>Reads see one scope\<close>

lemma reads_of_view:
  fixes U :: ulid_crate and scope :: EnvironmentScope
  defines "view \<equiv> scope_view (project_text U scope) (environment_text U scope)"
  shows "begin_read U scope (view db) = begin_read U scope db"
    and "get_document U scope t d (view db) = get_document U scope t d db"
    and "scan_index U scope i rng limit (view db) = scan_index U scope i rng limit db"
    and "get_outbox U scope v (view db) = get_outbox U scope v db"
    and "get_scheduled U scope s (view db) = get_scheduled U scope s db"
    and "list_scheduled U scope after limit (view db) = list_scheduled U scope after limit db"
  unfolding view_def scope_view_def begin_read_def get_document_def scan_index_def get_outbox_def get_scheduled_def
    list_scheduled_def fetch_schedule_row_def database.simps
  by (subst sql_find_filter, simp add: key_defs, rule refl)
    (subst sql_find_filter, simp add: key_defs, rule refl,
     subst sql_select_filter, simp, rule refl,
     subst sql_find_filter, simp add: key_defs, rule refl,
     subst sql_find_filter, simp add: key_defs, rule refl,
     subst sql_select_filter, simp, rule refl)

lemma scope_texts_inject:
  assumes "ulid_laws U"
  shows "(project_text U a, environment_text U a) = (project_text U b, environment_text U b) \<longleftrightarrow> a = b"
  using id_inject [OF assms] unfolding project_text_def environment_text_def
  by (cases a; cases b) (metis EnvironmentScope.select_convs(1,2) prod.inject)

end
