(* ===== verification/Sqlite_Invariant.thy ===== *)
theory Sqlite_Invariant
  imports Sqlite_Isolation
begin

text \<open>
  The invariant of the embedded store: primary keys are distinct, every row decodes, no row carries
  a commit sequence beyond that of its scope, leases are complete, and the claimed position of an
  outbox consumer lies after its cursor. Every operation keeps it.
\<close>

section \<open>Decoding what was encoded\<close>

lemma parse_id_text [simp]: "ulid_laws U \<Longrightarrow> parse_id U p (resource_id_to_string U p u) = Inr u"
  by (simp add: parse_id_def resource_id_roundtrip)

lemma parse_id_Inr: "parse_id U p s = Inr u \<Longrightarrow> s = resource_id_to_string U p u"
  by (simp add: parse_id_def resource_id_from_str_Inr)

lemma decode_value_encode:
  "ulid_laws U \<Longrightarrow> value_ok v \<Longrightarrow> encode_value U v = Inr enc \<Longrightarrow> decode_value U enc = Inr v"
  by (simp add: decode_value_def encode_value_def decode_stored_value_iff)

lemma positive_u64_Inr: "positive_u64 i = Inr w \<longleftrightarrow> 0 < i \<and> w = word_of_int i"
  by (auto simp: positive_u64_def)

lemma positive_or_zero_u64_Inr: "positive_or_zero_u64 i = Inr w \<longleftrightarrow> 0 \<le> i \<and> w = word_of_int i"
  by (auto simp: positive_or_zero_u64_def)

lemma uint_of_i64: "0 \<le> i \<Longrightarrow> i \<le> i64_max \<Longrightarrow> uint (word_of_int i :: u64) = i"
  by (simp add: uint_word_of_int take_bit_int_eq_self)

section \<open>Rows\<close>

definition written :: "(string \<Rightarrow> string \<Rightarrow> int) \<Rightarrow> string \<Rightarrow> string \<Rightarrow> int \<Rightarrow> bool" where
  "written bnd p e n \<longleftrightarrow> 0 < n \<and> n \<le> i64_max \<and> n \<le> bnd p e"

definition sequence_row_ok :: "sequence_row \<Rightarrow> bool" where
  "sequence_row_ok r \<longleftrightarrow> 0 \<le> ew_commit_sequence r \<and> ew_commit_sequence r \<le> i64_max"

definition operation_row_ok :: "(string \<Rightarrow> string \<Rightarrow> int) \<Rightarrow> operation_row \<Rightarrow> bool" where
  "operation_row_ok bnd r \<longleftrightarrow> written bnd (pw_project r) (pw_environment r) (pw_commit_sequence r)"

definition result_row_ok :: "ulid_crate \<Rightarrow> operation_row list \<Rightarrow> result_row \<Rightarrow> bool" where
  "result_row_ok U ops r \<longleftrightarrow>
     (\<exists>x. decode_result_row U r = Inr x) \<and> (\<forall>v. rw_revision r = Some v \<longrightarrow> v \<le> i64_max) \<and>
     (rw_project r, rw_environment r, rw_operation r) \<in> operation_key ` set ops"

definition document_row_ok :: "ulid_crate \<Rightarrow> (string \<Rightarrow> string \<Rightarrow> int) \<Rightarrow> document_row \<Rightarrow> bool" where
  "document_row_ok U bnd r \<longleftrightarrow>
     (\<exists>x. decode_document_row U r = Inr x) \<and> dw_revision r \<le> i64_max \<and>
     written bnd (dw_project r) (dw_environment r) (dw_commit_sequence r)"

definition index_row_ok :: "ulid_crate \<Rightarrow> (string \<Rightarrow> string \<Rightarrow> int) \<Rightarrow> index_row \<Rightarrow> bool" where
  "index_row_ok U bnd r \<longleftrightarrow>
     (\<exists>x. decode_index_row U r = Inr x) \<and> iw_document_revision r \<le> i64_max \<and>
     written bnd (iw_project r) (iw_environment r) (iw_commit_sequence r)"

definition outbox_row_ok :: "ulid_crate \<Rightarrow> (string \<Rightarrow> string \<Rightarrow> int) \<Rightarrow> outbox_row \<Rightarrow> bool" where
  "outbox_row_ok U bnd r \<longleftrightarrow>
     (\<exists>x. decode_outbox_event U r = Inr x) \<and>
     written bnd (ow_project r) (ow_environment r) (ow_commit_sequence r)"

definition schedule_row_ok :: "ulid_crate \<Rightarrow> (string \<Rightarrow> string \<Rightarrow> int) \<Rightarrow> schedule_row \<Rightarrow> bool" where
  "schedule_row_ok U bnd r \<longleftrightarrow>
     (\<exists>x. decode_schedule_row U r = Inr x) \<and>
     written bnd (sw_project r) (sw_environment r) (sw_commit_sequence r) \<and>
     sw_lease_generation r = sw_attempts r \<and>
     (sw_lease_owner r \<noteq> None \<longleftrightarrow> sw_status r = ''running'') \<and>
     (sw_lease_until r \<noteq> None \<longleftrightarrow> sw_status r = ''running'')"

definition after_position :: "int \<Rightarrow> string option \<Rightarrow> int \<Rightarrow> string \<Rightarrow> bool" where
  "after_position seq event n v \<longleftrightarrow>
     n > seq \<or> (n = seq \<and> v > (case event of None \<Rightarrow> '''' | Some x \<Rightarrow> x))"

definition consumer_row_ok :: "ulid_crate \<Rightarrow> (string \<Rightarrow> string \<Rightarrow> int) \<Rightarrow> consumer_row \<Rightarrow> bool" where
  "consumer_row_ok U bnd r \<longleftrightarrow>
     0 \<le> cw_lease_generation r \<and> cw_lease_generation r \<le> i64_max \<and>
     (case cw_cursor_event r of
        None \<Rightarrow> cw_cursor_sequence r = 0
      | Some v \<Rightarrow> written bnd (cw_project r) (cw_environment r) (cw_cursor_sequence r) \<and>
          (\<exists>u. parse_id U ''evt_'' v = Inr u)) \<and>
     (case cw_claimed_sequence r of
        None \<Rightarrow> cw_claimed_event r = None
      | Some n \<Rightarrow> written bnd (cw_project r) (cw_environment r) n \<and>
          (\<exists>v u. cw_claimed_event r = Some v \<and> parse_id U ''evt_'' v = Inr u \<and>
             after_position (cw_cursor_sequence r) (cw_cursor_event r) n v)) \<and>
     (cw_lease_owner r = None \<longleftrightarrow> cw_lease_until r = None)"

lemmas row_ok_defs = sequence_row_ok_def operation_row_ok_def result_row_ok_def document_row_ok_def
  index_row_ok_def outbox_row_ok_def schedule_row_ok_def consumer_row_ok_def

definition sequence_of :: "sequence_row list \<Rightarrow> string \<Rightarrow> string \<Rightarrow> int" where
  "sequence_of t p e =
     (case sql_find (\<lambda>r. sequence_key r = (p, e)) t of None \<Rightarrow> 0 | Some r \<Rightarrow> ew_commit_sequence r)"

definition idempotency_unique :: "schedule_row list \<Rightarrow> bool" where
  "idempotency_unique t \<longleftrightarrow>
     keyed (\<lambda>r. (sw_project r, sw_environment r, sw_idempotency_key r))
       (filter (\<lambda>r. sw_idempotency_key r \<noteq> None) t)"

definition tables_ok :: "ulid_crate \<Rightarrow> (string \<Rightarrow> string \<Rightarrow> int) \<Rightarrow> database \<Rightarrow> bool" where
  "tables_ok U bnd db \<longleftrightarrow>
     table_ok sequence_key sequence_row_ok (db_sequences db) \<and>
     table_ok operation_key (operation_row_ok bnd) (db_operations db) \<and>
     table_ok result_key (result_row_ok U (db_operations db)) (db_results db) \<and>
     table_ok document_key (document_row_ok U bnd) (db_documents db) \<and>
     table_ok index_entry_key (index_row_ok U bnd) (db_indexes db) \<and>
     table_ok outbox_key (outbox_row_ok U bnd) (db_outbox db) \<and>
     table_ok schedule_key (schedule_row_ok U bnd) (db_schedules db) \<and>
     idempotency_unique (db_schedules db) \<and>
     table_ok consumer_key (consumer_row_ok U bnd) (db_consumers db)"

definition db_ok :: "ulid_crate \<Rightarrow> database \<Rightarrow> bool" where
  "db_ok U db \<longleftrightarrow> tables_ok U (sequence_of (db_sequences db)) db"

lemma empty_database_ok: "db_ok U empty_database"
  by (simp add: db_ok_def tables_ok_def empty_database_def idempotency_unique_def)

section \<open>The bound on commit sequences\<close>

lemma written_mono: "written bnd p e n \<Longrightarrow> bnd p e \<le> bnd' p e \<Longrightarrow> written bnd' p e n"
  unfolding written_def by (meson order_trans)

lemma row_ok_mono:
  shows "operation_row_ok bnd o1 \<Longrightarrow> bnd (pw_project o1) (pw_environment o1) \<le> bnd' (pw_project o1) (pw_environment o1) \<Longrightarrow>
      operation_row_ok bnd' o1"
    and "document_row_ok U bnd d1 \<Longrightarrow> bnd (dw_project d1) (dw_environment d1) \<le> bnd' (dw_project d1) (dw_environment d1) \<Longrightarrow>
      document_row_ok U bnd' d1"
    and "index_row_ok U bnd i1 \<Longrightarrow> bnd (iw_project i1) (iw_environment i1) \<le> bnd' (iw_project i1) (iw_environment i1) \<Longrightarrow>
      index_row_ok U bnd' i1"
    and "outbox_row_ok U bnd x1 \<Longrightarrow> bnd (ow_project x1) (ow_environment x1) \<le> bnd' (ow_project x1) (ow_environment x1) \<Longrightarrow>
      outbox_row_ok U bnd' x1"
    and "schedule_row_ok U bnd s1 \<Longrightarrow> bnd (sw_project s1) (sw_environment s1) \<le> bnd' (sw_project s1) (sw_environment s1) \<Longrightarrow>
      schedule_row_ok U bnd' s1"
    and "consumer_row_ok U bnd c1 \<Longrightarrow> bnd (cw_project c1) (cw_environment c1) \<le> bnd' (cw_project c1) (cw_environment c1) \<Longrightarrow>
      consumer_row_ok U bnd' c1"
  by (auto simp: row_ok_defs split: option.splits intro: written_mono)

lemma tables_ok_mono:
  assumes "tables_ok U bnd db" and "\<And>p e. bnd p e \<le> bnd' p e"
  shows "tables_ok U bnd' db"
  using assms(1) unfolding tables_ok_def by (auto elim!: table_ok_mono intro: row_ok_mono assms(2))

lemma sequence_of_bounds:
  assumes "table_ok sequence_key sequence_row_ok t"
  shows "0 \<le> sequence_of t p e" and "sequence_of t p e \<le> i64_max"
  using assms sql_find_Some [of "\<lambda>r. sequence_key r = (p, e)" t]
  by (auto simp: sequence_of_def table_ok_def sequence_row_ok_def split: option.split)

lemma bump_sequence_spec:
  assumes "table_ok sequence_key sequence_row_ok t" and "bump_sequence p e t = Inr (n, t')"
  shows "n = sequence_of t p e + 1" and "n \<le> i64_max" and "table_ok sequence_key sequence_row_ok t'"
    and "sequence_of t' p' e' = (if (p', e') = (p, e) then n else sequence_of t p' e')"
proof -
  let ?w = "\<lambda>r. sequence_key r = (p, e)"
  let ?f = "\<lambda>r. mapR (\<lambda>n. r\<lparr>ew_commit_sequence := n\<rparr>) (sql_succ (ew_commit_sequence r))"
  have "n = sequence_of t p e + 1 \<and> n \<le> i64_max \<and> table_ok sequence_key sequence_row_ok t' \<and>
    sequence_of t' p' e' = (if (p', e') = (p, e) then n else sequence_of t p' e')"
  proof (cases "sql_find ?w t")
    case None
    with assms(2) have n: "n = 1" "t' = t @ [\<lparr>ew_project = p, ew_environment = e, ew_commit_sequence = 1\<rparr>]"
      by (simp_all add: bump_sequence_def)
    from None have "(p, e) \<notin> sequence_key ` set t" by (auto simp: sql_find_None)
    then have "table_ok sequence_key sequence_row_ok t'"
      unfolding n by (intro table_ok_snoc assms(1)) (simp_all add: sequence_row_ok_def sequence_key_def)
    with None n show ?thesis
      by (auto simp: sequence_of_def sql_find_snoc sequence_key_def split: option.splits)
  next
    case (Some r)
    then have r: "r \<in> set t" "?w r" by (auto dest: sql_find_Some)
    have flt: "filter ?w t = [r]"
      using assms(1) r by (intro filter_keyed [where key = sequence_key]) (auto simp: table_ok_def)
    from assms(2) Some obtain rows where u: "sql_update_returning ?w ?f t = Inr (rows, t')"
      and n: "n = ew_commit_sequence (hd rows)" by (auto simp: bump_sequence_def)
    from u flt have rows: "rows = [projr (?f r)]" by (simp add: sql_update_returning_Inr)
    from u r have lt: "ew_commit_sequence r < i64_max"
      by (auto simp: sql_update_returning_Inr sql_succ_def split: if_splits)
    then have n: "n = ew_commit_sequence r + 1" unfolding n rows by (simp add: sql_succ_def)
    have ok: "table_ok sequence_key sequence_row_ok t'"
      by (rule table_ok_update_returning [OF u assms(1)])
        (auto simp: sequence_key_def sequence_row_ok_def sql_succ_def split: if_splits)
    from u have t': "t' = snd (sql_update ?w (\<lambda>r. projr (?f r)) t)" by (simp add: sql_update_returning_Inr)
    have key: "sequence_key (projr (?f s)) = sequence_key s" if "s \<in> set t" "?w s" for s
      using u that by (auto simp: sql_update_returning_Inr sequence_key_def)
    have "sql_find (\<lambda>r. sequence_key r = (p', e')) t' =
        map_option (\<lambda>r. if ?w r then projr (?f r) else r) (sql_find (\<lambda>r. sequence_key r = (p', e')) t)"
      unfolding t' by (rule sql_find_update) (rule key)
    then have "sequence_of t' p' e' = (if (p', e') = (p, e) then n else sequence_of t p' e')"
      using Some lt r(2) n sql_find_Some [of "\<lambda>r. sequence_key r = (p', e')" t]
      by (auto simp: sequence_of_def sql_succ_def split: option.splits)
    with ok n Some lt show ?thesis by (simp add: sequence_of_def)
  qed
  then show "n = sequence_of t p e + 1" "n \<le> i64_max" "table_ok sequence_key sequence_row_ok t'"
    "sequence_of t' p' e' = (if (p', e') = (p, e) then n else sequence_of t p' e')" by blast+
qed

lemma ensure_sequence_of:
  "sequence_of (ensure_sequence p e t) = sequence_of t"
  by (rule ext)+ (auto simp: sequence_of_def ensure_sequence_def sql_insert_ignore_def sql_find_snoc
      sequence_key_def split: option.split)

lemma ensure_sequence_ok:
  "table_ok sequence_key sequence_row_ok t \<Longrightarrow> table_ok sequence_key sequence_row_ok (ensure_sequence p e t)"
  unfolding ensure_sequence_def by (intro table_intros) (simp_all add: sequence_row_ok_def)

section \<open>Commit\<close>

lemma encoded_rows_decode:
  assumes "ulid_laws U"
  shows "value_ok v \<Longrightarrow> encode_value U v = Inr enc \<Longrightarrow> 0 < n \<Longrightarrow>
      \<exists>x. decode_document_row U (new_document_row U p e t d n now enc) = Inr x"
    and "decode_document_row U r = Inr x \<Longrightarrow> value_ok v \<Longrightarrow> encode_value U v = Inr enc \<Longrightarrow> 0 < n \<Longrightarrow> 0 < k \<Longrightarrow>
      \<exists>y. decode_document_row U (r\<lparr>dw_revision := k, dw_commit_sequence := n, dw_updated_at := now, dw_value := enc\<rparr>)
        = Inr y"
  using decode_value_encode [OF assms]
  by (auto simp: decode_document_row_def new_document_row_def positive_u64_def assms split: if_splits)

lemma apply_document_ok:
  assumes "ulid_laws U" and "tables_ok U bnd db" and "written bnd p e n" and "document_mutation_ok m"
    and "apply_document U p e n now m db = Inr (r, db')"
  shows "tables_ok U bnd db'"
  using assms(5)
proof (cases rule: apply_document_cases)
  case (insert t d v enc)
  have "document_row_ok U bnd (new_document_row U p e t d n now enc)"
    using assms(3,4) insert(1,2) encoded_rows_decode(1) [OF assms(1), of v enc n]
    by (simp add: document_row_ok_def written_def) (simp add: new_document_row_def)
  with insert assms(2) show ?thesis by (auto simp: tables_ok_def intro: table_ok_snoc)
next
  case (update t d x v enc)
  have "0 < uint x" using \<open>x \<noteq> 0\<close> by (simp add: uint_nonnegative order_less_le uint_0_iff)
  then have "table_ok document_key (document_row_ok U bnd) (db_documents db')"
    using assms(2,3,4) update encoded_rows_decode(2) [OF assms(1), where v = v and enc = enc]
    by (auto simp: tables_ok_def document_row_ok_def written_def document_key_def intro!: table_ok_update)
  with assms(2) update show ?thesis by (simp add: tables_ok_def)
next
  case (delete t d x)
  then show ?thesis using assms(2) by (auto simp: tables_ok_def intro: table_ok_delete)
qed

definition result_row_of ::
    "ulid_crate \<Rightarrow> string \<Rightarrow> string \<Rightarrow> string \<Rightarrow> nat \<Rightarrow> DocumentRevisionResult \<Rightarrow> result_row" where
  "result_row_of U p e op i x =
     \<lparr>rw_project = p, rw_environment = e, rw_operation = op, rw_ordinal = int i,
      rw_table = table_text U (drr_table_id x), rw_document = document_text U (drr_document_id x),
      rw_revision = map_option uint (drr_revision x)\<rparr>"

lemma record_document_cases:
  assumes "record_document U p e op n now (results, db) m = Inr (results', db')"
  obtains result db1 where "apply_document U p e n now m db = Inr (result, db1)"
    "results' = results @ [result]"
    "\<And>v. drr_revision result = Some v \<Longrightarrow> v \<noteq> 0 \<and> uint v \<le> i64_max"
    "result_key (result_row_of U p e op (length results) result) \<notin> result_key ` set (db_results db1)"
    "db' = db1\<lparr>db_results := db_results db1 @ [result_row_of U p e op (length results) result]\<rparr>"
proof -
  from assms obtain result db1 revision t where a: "apply_document U p e n now m db = Inr (result, db1)"
    and v: "(case drr_revision result of None \<Rightarrow> Inr None | Some v \<Rightarrow> mapR Some (positive_i64 v)) = Inr revision"
    and t: "sql_insert Internal (same_key result_key)
         \<lparr>rw_project = p, rw_environment = e, rw_operation = op, rw_ordinal = int (length results),
          rw_table = table_text U (drr_table_id result), rw_document = document_text U (drr_document_id result),
          rw_revision = revision\<rparr> (db_results db1) = Inr t"
    and r: "results' = results @ [result]" "db' = db1\<lparr>db_results := t\<rparr>"
    by (auto simp: record_document_def)
  have row: "\<lparr>rw_project = p, rw_environment = e, rw_operation = op, rw_ordinal = int (length results),
          rw_table = table_text U (drr_table_id result), rw_document = document_text U (drr_document_id result),
          rw_revision = revision\<rparr> = result_row_of U p e op (length results) result"
    using v by (auto simp: result_row_of_def positive_i64_Inr split: option.splits)
  have "v \<noteq> 0 \<and> uint v \<le> i64_max" if "drr_revision result = Some v" for v
    using v that by (auto simp: positive_i64_Inr)
  with a r t show thesis unfolding row
    by (intro that [of result db1]) (auto simp: sql_insert_def list_ex_same_key split: if_splits)
qed

lemma result_row_of_decodes:
  assumes "ulid_laws U" and "\<And>v. drr_revision x = Some v \<Longrightarrow> v \<noteq> 0 \<and> uint v \<le> i64_max"
  shows "decode_result_row U (result_row_of U p e op i x) = Inr x"
proof (cases "drr_revision x")
  case None
  then show ?thesis by (simp add: decode_result_row_def result_row_of_def assms(1))
next
  case (Some v)
  then have "0 < uint v" using assms(2) by (simp add: uint_nonnegative order_less_le uint_0_iff)
  with Some show ?thesis by (simp add: decode_result_row_def result_row_of_def positive_u64_def assms(1))
qed

lemma apply_document_others:
  "apply_document U p e n now m db = Inr (r, db') \<Longrightarrow> db' = db\<lparr>db_documents := db_documents db'\<rparr>"
  by (erule apply_document_cases) simp_all

lemma record_document_ok:
  assumes "ulid_laws U" and "tables_ok U bnd db" and "written bnd p e n" and "document_mutation_ok m"
    and op: "(p, e, op) \<in> operation_key ` set (db_operations db)"
    and "record_document U p e op n now (results, db) m = Inr (results', db')"
  shows "tables_ok U bnd db' \<and> db_operations db' = db_operations db \<and> db_sequences db' = db_sequences db"
  using assms(6)
proof (rule record_document_cases)
  fix result db1
  assume a: "apply_document U p e n now m db = Inr (result, db1)"
    and v: "\<And>v. drr_revision result = Some v \<Longrightarrow> v \<noteq> 0 \<and> uint v \<le> i64_max"
    and k: "result_key (result_row_of U p e op (length results) result) \<notin> result_key ` set (db_results db1)"
    and d: "db' = db1\<lparr>db_results := db_results db1 @ [result_row_of U p e op (length results) result]\<rparr>"
  have frame: "db_operations db1 = db_operations db" "db_sequences db1 = db_sequences db"
    using apply_document_others [OF a] by (metis database.select_convs database.update_convs database.surjective)+
  have "result_row_ok U (db_operations db) (result_row_of U p e op (length results) result)"
    using result_row_of_decodes [OF assms(1) v] op v
    by (auto simp: result_row_ok_def) (auto simp: result_row_of_def)
  then show ?thesis
    using apply_document_ok [OF assms(1-4) a] k frame
    by (auto simp: d tables_ok_def intro: table_ok_snoc)
qed

lemma apply_index_ok:
  assumes "ulid_laws U" and "tables_ok U bnd db" and "written bnd p e n" and "index_mutation_ok U m"
    and "apply_index U p e n db m = Inr db'"
  shows "tables_ok U bnd db'"
proof (cases m)
  case (PutIndex i k t d x)
  let ?r = "\<lparr>iw_project = p, iw_environment = e, iw_index = index_text U i, iw_key = encoded k,
     iw_table = table_text U t, iw_document = document_text U d,
     iw_document_revision = uint x, iw_commit_sequence = n\<rparr>"
  from assms(5) PutIndex have x: "x \<noteq> 0" "uint x \<le> i64_max"
    and db': "db' = db\<lparr>db_indexes := put_index_entry ?r (db_indexes db)\<rparr>"
    by (auto simp: positive_i64_Inr split: option.splits)
  from x(1) have "0 < uint x" by (simp add: uint_nonnegative order_less_le uint_0_iff)
  moreover have "index_key_decode U (encoded k) = Inr k"
    using assms(4) PutIndex index_key_decode_iff [OF assms(1)] by (auto simp: index_key_ok_def)
  ultimately have ok: "index_row_ok U bnd ?r"
    using assms(1,3) x by (simp add: index_row_ok_def decode_index_row_def positive_u64_def written_def)
  have "table_ok index_entry_key (index_row_ok U bnd) (put_index_entry ?r (db_indexes db))"
  proof (cases "list_ex (same_key index_entry_key ?r) (db_indexes db)")
    case True
    have upd: "index_row_ok U bnd (s\<lparr>iw_table := iw_table ?r, iw_document_revision := iw_document_revision ?r,
        iw_commit_sequence := iw_commit_sequence ?r\<rparr>)" if "index_entry_key s = index_entry_key ?r" for s
      using ok that by (auto simp: index_row_ok_def decode_index_row_def index_entry_key_def)
    show ?thesis
      using assms(2) True upd unfolding put_index_entry_def tables_ok_def
      by (auto simp: index_entry_key_def intro!: table_ok_update)
  next
    case False
    with assms(2) ok show ?thesis
      by (auto simp: put_index_entry_def tables_ok_def list_ex_same_key intro: table_ok_snoc)
  qed
  with assms(2) show ?thesis by (simp add: db' tables_ok_def)
next
  case (DeleteIndex i k d)
  with assms(2,5) show ?thesis by (auto simp: tables_ok_def intro: table_ok_delete)
qed

lemma apply_event_ok:
  assumes "ulid_laws U" and "tables_ok U bnd db" and "written bnd p e n" and "outbox_append_ok a"
    and "apply_event U p e n now db a = Inr db'"
  shows "tables_ok U bnd db'"
proof -
  from assms(5) obtain payload where enc: "encode_value U (oa_payload a) = Inr payload"
    and db': "db' = db\<lparr>db_outbox := snd (sql_insert_ignore (same_key outbox_key)
      \<lparr>ow_project = p, ow_environment = e, ow_event = event_text U (oa_event_id a),
       ow_commit_sequence = n, ow_payload = payload, ow_created_at = now\<rparr> (db_outbox db))\<rparr>"
    by (auto simp: apply_event_def Let_def split_beta split: if_splits)
  from enc assms(4) have "decode_value U payload = Inr (oa_payload a)"
    by (intro decode_value_encode assms(1)) (simp_all add: outbox_append_ok_def)
  with assms show ?thesis unfolding db' tables_ok_def
    by (auto simp: outbox_row_ok_def decode_outbox_event_def positive_u64_def written_def intro!: table_ok_insert_ignore)
qed

lemma idempotency_unique_map:
  assumes "\<And>r. r \<in> set t \<Longrightarrow> (sw_project (f r), sw_environment (f r), sw_idempotency_key (f r)) =
      (sw_project r, sw_environment r, sw_idempotency_key r)"
  shows "idempotency_unique (map f t) \<longleftrightarrow> idempotency_unique t"
proof -
  let ?k = "\<lambda>r. (sw_project r, sw_environment r, sw_idempotency_key r)"
  have "map ?k (filter (\<lambda>r. sw_idempotency_key r \<noteq> None) (map f t)) =
      map ?k (filter (\<lambda>r. sw_idempotency_key r \<noteq> None) t)"
    using assms by (induction t) auto
  then show ?thesis by (simp only: idempotency_unique_def keyed_def)
qed

lemma idempotency_unique_update:
  assumes "idempotency_unique t"
    and "\<And>r. r \<in> set t \<Longrightarrow> w r \<Longrightarrow> (sw_project (f r), sw_environment (f r), sw_idempotency_key (f r)) =
      (sw_project r, sw_environment r, sw_idempotency_key r)"
  shows "idempotency_unique (snd (sql_update w f t))"
  unfolding sql_update_def snd_conv by (subst idempotency_unique_map) (use assms in auto)

lemma apply_schedule_ok:
  assumes "ulid_laws U" and "tables_ok U bnd db" and "written bnd p e n" and "schedule_insert_ok s"
    and "apply_schedule U p e n now db s = Inr db'"
  shows "tables_ok U bnd db'"
proof -
  obtain args where enc: "encode_value U (sc_args s) = Inr args"
    using assms(5) by (auto simp: apply_schedule_def)
  define r where "r = \<lparr>sw_project = p, sw_environment = e, sw_scheduled = schedule_text U (sc_id s),
     sw_pinned_code = pinned_code_to_string U (sc_pinned_code s), sw_function = sc_function s,
     sw_args = args, sw_execute_at = micros (sc_execute_at s), sw_status = ''pending'',
     sw_attempts = 0, sw_lease_generation = 0, sw_lease_owner = None, sw_lease_until = None,
     sw_idempotency_key = sc_idempotency_key s, sw_last_error_code = None,
     sw_commit_sequence = n, sw_created_at = now, sw_updated_at = now\<rparr>"
  have new: "\<not> list_ex (schedule_conflict r) (db_schedules db)"
    and db': "db' = db\<lparr>db_schedules := db_schedules db @ [r]\<rparr>"
    using assms(5) enc
    by (auto simp: apply_schedule_def Let_def sql_insert_ignore_def r_def [symmetric] split: if_splits)
  have "decode_value U args = Inr (sc_args s)"
    using assms(4) enc by (intro decode_value_encode assms(1)) (simp_all add: schedule_insert_ok_def)
  moreover have "pinned_code_from_str U (pinned_code_to_string U (sc_pinned_code s)) = Inr (sc_pinned_code s)"
    using pinned_code_from_str_Inr [OF assms(1)] by simp
  ultimately have ok: "schedule_row_ok U bnd r"
    using assms(1,3,4)
    by (simp add: r_def schedule_row_ok_def decode_schedule_row_def decode_lease_owner_def schedule_insert_ok_def
        parse_status_def positive_u64_def positive_or_zero_u64_def positive_or_zero_u32_def written_def)
  have "schedule_key r \<notin> schedule_key ` set (db_schedules db)"
    using new by (auto simp: list_ex_iff schedule_conflict_def)
  moreover have "idempotency_unique (db_schedules db @ [r])"
    using assms(2) new
    by (auto simp: tables_ok_def idempotency_unique_def list_ex_iff schedule_conflict_def)
  ultimately show ?thesis
    using assms(2) ok unfolding db' by (auto simp: tables_ok_def intro: table_ok_snoc)
qed

text \<open>None of the four loops of a commit touches the sequence table or the operation table.\<close>

lemma apply_logs:
  shows "apply_index U p e n db i = Inr db' \<Longrightarrow>
      db_sequences db' = db_sequences db \<and> db_operations db' = db_operations db \<and> db_results db' = db_results db"
    and "apply_event U p e n now db a = Inr db' \<Longrightarrow>
      db_sequences db' = db_sequences db \<and> db_operations db' = db_operations db \<and> db_results db' = db_results db"
    and "apply_schedule U p e n now db s = Inr db' \<Longrightarrow>
      db_sequences db' = db_sequences db \<and> db_operations db' = db_operations db \<and> db_results db' = db_results db"
  by (cases i; auto split: option.splits)
    (auto simp: apply_event_def apply_schedule_def Let_def split_beta split: if_splits)

definition logs :: "database \<Rightarrow> sequence_row list \<times> operation_row list \<times> result_row list" where
  "logs db = (db_sequences db, db_operations db, db_results db)"

lemma commit_loops_logs:
  assumes "foldR (apply_index U p e n) db1 xs = Inr db2" and "foldR (apply_event U p e n now) db2 ys = Inr db3"
    and "foldR (apply_schedule U p e n now) db3 zs = Inr db4"
  shows "logs db4 = logs db1"
proof -
  have "logs db2 = logs db1"
    by (rule foldR_invariant [OF assms(1), where P = "\<lambda>x. logs x = logs db1"])
      (auto simp: logs_def dest: apply_logs)
  moreover have "logs db3 = logs db2"
    by (rule foldR_invariant [OF assms(2), where P = "\<lambda>x. logs x = logs db2"])
      (auto simp: logs_def dest: apply_logs)
  moreover have "logs db4 = logs db3"
    by (rule foldR_invariant [OF assms(3), where P = "\<lambda>x. logs x = logs db3"])
      (auto simp: logs_def dest: apply_logs)
  ultimately show ?thesis by simp
qed

lemma apply_commit_ok:
  assumes "ulid_laws U" and "db_ok U db" and "batch_typed U b" and "apply_commit U clock b digest db = Inr (r, db')"
  shows "db_ok U db'"
  using assms(4)
proof (cases rule: apply_commit_cases)
  case replay
  with assms(2) show ?thesis by simp
next
  case (fresh n sequences now operations documents db1 db2 db3)
  let ?p = "project_text U (cb_scope b)" and ?e = "environment_text U (cb_scope b)"
  let ?op = "operation_text U (cb_operation_id b)" and ?bnd = "sequence_of sequences"
  let ?db0 = "db\<lparr>db_sequences := sequences, db_operations := operations\<rparr>"
  note ok = assms(2) [unfolded db_ok_def]
  then have seq: "table_ok sequence_key sequence_row_ok (db_sequences db)" by (simp add: tables_ok_def)
  note bump = bump_sequence_spec [OF seq fresh(3)]
  have w: "written ?bnd ?p ?e n"
    using bump(1,2) bump(4) [of ?p ?e] fresh(10) by (simp add: written_def)
  have "tables_ok U ?bnd db"
    by (rule tables_ok_mono [OF ok]) (use bump(1,4) in auto)
  moreover have ops: "operations = db_operations db @ [operation_row_of U b digest n now]"
    using fresh(4) by (simp add: sql_insert_def split: if_splits)
  moreover have "table_ok operation_key (operation_row_ok ?bnd) operations"
    by (rule table_ok_insert [OF fresh(4)])
      (use w calculation(1) in \<open>simp_all add: tables_ok_def operation_row_ok_def operation_row_of_def\<close>)
  moreover have "result_row_ok U operations s" if "result_row_ok U (db_operations db) s" for s
    using that by (auto simp: result_row_ok_def ops)
  ultimately have start: "tables_ok U ?bnd ?db0"
    using bump(3) unfolding tables_ok_def by (auto elim: table_ok_mono)
  have op: "(?p, ?e, ?op) \<in> operation_key ` set operations"
    by (simp add: ops operation_row_of_def operation_key_def)
  note typed = assms(3) [unfolded batch_typed_def list_all_iff]
  define P where "P x \<longleftrightarrow> tables_ok U ?bnd (snd x) \<and> db_operations (snd x) = operations \<and>
    db_sequences (snd x) = sequences" for x :: "DocumentRevisionResult list \<times> database"
  have "P (documents, db1)"
  proof (rule foldR_invariant [OF fresh(5), where P = P])
    show "P ([], ?db0)" using start by (simp add: P_def)
    fix x m y
    assume "record_document U ?p ?e ?op n now x m = Inr y" "m \<in> set (cb_documents b)" "P x"
    then show "P y"
      using record_document_ok [OF assms(1) _ w, of "snd x" m ?op now "fst x" "fst y" "snd y"] op typed
      by (simp add: P_def)
  qed
  then have 1: "tables_ok U ?bnd db1" "db_sequences db1 = sequences" by (simp_all add: P_def)
  have 2: "tables_ok U ?bnd db2"
    by (rule foldR_invariant [OF fresh(6), where P = "tables_ok U ?bnd", OF 1(1)])
      (use typed apply_index_ok [OF assms(1) _ w] in blast)
  have 3: "tables_ok U ?bnd db3"
    by (rule foldR_invariant [OF fresh(7), where P = "tables_ok U ?bnd", OF 2])
      (use typed apply_event_ok [OF assms(1) _ w] in blast)
  have "tables_ok U ?bnd db'"
    by (rule foldR_invariant [OF fresh(8), where P = "tables_ok U ?bnd", OF 3])
      (use typed apply_schedule_ok [OF assms(1) _ w] in blast)
  moreover have "db_sequences db' = sequences"
    using commit_loops_logs [OF fresh(6-8)] 1(2) by (simp add: logs_def)
  ultimately show ?thesis by (simp add: db_ok_def)
qed

section \<open>Outbox\<close>

lemma consumer_rows_ok:
  shows "consumer_row_ok U bnd r \<Longrightarrow> lease_row w now until r = Inr s \<Longrightarrow> consumer_row_ok U bnd s"
    and "consumer_row_ok U bnd r \<Longrightarrow> consumer_row_ok U bnd (release_row now r)"
    and "consumer_row_ok U bnd r \<Longrightarrow> cw_claimed_sequence r = Some n \<Longrightarrow> cw_claimed_event r = Some v \<Longrightarrow>
      consumer_row_ok U bnd (ack_row now n v r)"
    and "consumer_row_ok U bnd r \<Longrightarrow> written bnd (cw_project r) (cw_environment r) n \<Longrightarrow>
      after_position (cw_cursor_sequence r) (cw_cursor_event r) n (event_text U u) \<Longrightarrow> ulid_laws U \<Longrightarrow>
      consumer_row_ok U bnd (claimed_row now n (event_text U u) r)"
  by (auto simp: consumer_row_ok_def lease_row_def release_row_def ack_row_def claimed_row_def sql_succ_def
      split: option.splits if_splits)

lemma decode_outbox_event_fields:
  assumes "decode_outbox_event U r = Inr x"
  shows "ow_event r = event_text U (oe_event_id x)"
    and "ow_commit_sequence r \<le> i64_max \<Longrightarrow> uint (oe_commit_sequence x) = ow_commit_sequence r"
  using assms by (auto simp: decode_outbox_event_def positive_u64_Inr uint_of_i64 dest: parse_id_Inr)

lemma traverseR_last:
  assumes "traverseR f xs = Inr ys" and "ys \<noteq> []"
  shows "xs \<noteq> [] \<and> f (last xs) = Inr (last ys)"
proof -
  from assms(1) have l2: "list_all2 (\<lambda>x y. f x = Inr y) xs ys" by (simp add: traverseR_Inr)
  with assms(2) have "xs \<noteq> []" "length xs = length ys" by (auto dest: list_all2_lengthD)
  with list_all2_nthD [OF l2, of "length xs - 1"] assms(2) show ?thesis by (simp add: last_conv_nth)
qed

lemma row_cursor_decodes:
  assumes "consumer_row_ok U bnd row" and "positive_or_zero_u64 (cw_cursor_sequence row) = Inr cursor"
    and "decode_optional_cursor U cursor (cw_cursor_event row) = Inr acknowledged"
  shows "uint cursor = cw_cursor_sequence row"
    and "map_option (\<lambda>c. event_text U (cursor_event_id c)) acknowledged = cw_cursor_event row"
proof -
  from assms(1) have "0 \<le> cw_cursor_sequence row" "cw_cursor_sequence row \<le> i64_max"
    by (auto simp: consumer_row_ok_def written_def split: option.splits)
  with assms(2) show "uint cursor = cw_cursor_sequence row" by (simp add: positive_or_zero_u64_Inr uint_of_i64)
  from assms(3) show "map_option (\<lambda>c. event_text U (cursor_event_id c)) acknowledged = cw_cursor_event row"
    by (auto simp: decode_optional_cursor_def dest: parse_id_Inr split: option.splits if_splits)
qed

lemma claim_outbox_tx_ok:
  assumes "ulid_laws U" and "db_ok U db"
    and "claim_outbox_tx U scope consumer worker now lease_until limit db = Inr (r, db')"
  shows "db_ok U db'"
  using assms(3)
proof (rule claim_outbox_tx_cases)
  let ?p = "project_text U scope" and ?e = "environment_text U scope"
  let ?here = "\<lambda>r. consumer_key r = (?p, ?e, consumer)"
  let ?consumers = "ensure_consumer ?p ?e consumer (micros now) (db_consumers db)"
  let ?bnd = "sequence_of (db_sequences db)"
  fix leased row rest cursor acknowledged events f
  assume 1: "sql_update_returning (\<lambda>r. ?here r \<and> lease_free (worker_text U worker) (micros now) r)
      (lease_row (worker_text U worker) (micros now) (micros lease_until)) ?consumers = Inr (row # rest, leased)"
    and 2: "positive_or_zero_u64 (cw_cursor_sequence row) = Inr cursor"
    and 3: "decode_optional_cursor U cursor (cw_cursor_event row) = Inr acknowledged"
    and 4: "traverseR (decode_outbox_event U) (pending_events ?p ?e (uint cursor)
        (map_option (\<lambda>c. event_text U (cursor_event_id c)) acknowledged) (unat limit) (db_outbox db)) = Inr events"
    and 5: "f = (if events = [] then release_row (micros now)
        else claimed_row (micros now) (uint (oe_commit_sequence (last events)))
               (event_text U (oe_event_id (last events))))"
    and 6: "db' = db\<lparr>db_sequences := ensure_sequence ?p ?e (db_sequences db),
       db_consumers := snd (sql_update ?here f leased)\<rparr>"
  note ok = assms(2) [unfolded db_ok_def tables_ok_def]
  have "table_ok consumer_key (consumer_row_ok U ?bnd) ?consumers"
    unfolding ensure_consumer_def by (intro table_intros) (use ok in \<open>simp_all add: consumer_row_ok_def\<close>)
  then have leased: "table_ok consumer_key (consumer_row_ok U ?bnd) leased"
    by (rule table_ok_update_returning [OF 1]) (auto dest: lease_row_key consumer_rows_ok(1))
  have row: "row \<in> set leased" "?here row"
  proof -
    show "row \<in> set leased" using sql_update_returning_rows [OF 1] by simp
    from sql_update_returned [OF 1, of row] obtain s where s: "?here s"
      "lease_row (worker_text U worker) (micros now) (micros lease_until) s = Inr row" by auto
    then show "?here row" using lease_row_key [OF s(2)] by simp
  qed
  then have row_ok: "consumer_row_ok U ?bnd row" using leased by (simp add: table_ok_def)
  note cursor = row_cursor_decodes [OF row_ok 2 3]
  have f_ok: "consumer_row_ok U ?bnd (f row)"
  proof (cases "events = []")
    case True
    with row_ok show ?thesis by (simp add: 5 consumer_rows_ok)
  next
    case False
    let ?pending = "pending_events ?p ?e (cw_cursor_sequence row) (cw_cursor_event row) (unat limit) (db_outbox db)"
    have ne: "?pending \<noteq> []" and dec: "decode_outbox_event U (last ?pending) = Inr (last events)"
      using traverseR_last [OF 4 False] unfolding cursor by blast+
    have "last ?pending \<in> set ?pending" using ne by simp
    then have "last ?pending \<in> set (sql_select (\<lambda>r. ow_project r = ?p \<and> ow_environment r = ?e \<and>
        after_cursor (cw_cursor_sequence row) (cw_cursor_event row) r) (\<lambda>r. (ow_commit_sequence r, ow_event r)) (db_outbox db))"
      unfolding pending_events_def by (rule in_set_takeD)
    then have mem: "last ?pending \<in> set (db_outbox db)" "ow_project (last ?pending) = ?p"
      "ow_environment (last ?pending) = ?e" "after_cursor (cw_cursor_sequence row) (cw_cursor_event row) (last ?pending)"
      by simp_all
    from mem(1) ok have w: "written ?bnd ?p ?e (ow_commit_sequence (last ?pending))"
      using mem(2,3) by (auto simp: table_ok_def outbox_row_ok_def)
    from dec have ev: "ow_event (last ?pending) = event_text U (oe_event_id (last events))"
      and cs: "uint (oe_commit_sequence (last events)) = ow_commit_sequence (last ?pending)"
      using w decode_outbox_event_fields [OF dec] by (simp_all add: written_def)
    have "cw_project row = ?p" "cw_environment row = ?e" using row(2) by (simp_all add: consumer_key_def)
    then show ?thesis
      using False row_ok w mem(4) ev cs
      by (simp add: 5 consumer_rows_ok(4) assms(1) after_position_def after_cursor_def)
  qed
  have "table_ok consumer_key (consumer_row_ok U ?bnd) (snd (sql_update ?here f leased))"
  proof (rule table_ok_update [OF leased])
    show "consumer_key (f s) = consumer_key s" for s by (simp add: 5)
    fix s
    assume "s \<in> set leased" "?here s"
    then have "s = row" using row leased by (intro keyed_inj [of consumer_key leased]) (simp_all add: table_ok_def)
    then show "consumer_row_ok U ?bnd (f s)" using f_ok by simp
  qed
  then show ?thesis using ok by (simp add: 6 db_ok_def tables_ok_def ensure_sequence_of ensure_sequence_ok)
qed

lemma ack_outbox_tx_ok:
  assumes "db_ok U db" and "ack_outbox_tx U clock scope consumer worker generation through db = Inr (r, db')"
  shows "db_ok U db'"
proof -
  let ?n = "uint (cursor_commit_sequence through)" and ?v = "event_text U (cursor_event_id through)"
  from assms(2) obtain now where db': "db' = db\<lparr>db_consumers := snd (sql_update
      (owns_claim U scope consumer worker (uint generation) ?n ?v) (ack_row now ?n ?v) (db_consumers db))\<rparr>"
    by (auto simp: ack_outbox_tx_Inr)
  have "table_ok consumer_key (consumer_row_ok U (sequence_of (db_sequences db))) (db_consumers db')"
    unfolding db' database.simps(8)
    by (auto simp: owns_claim_def intro!: table_ok_update intro: consumer_rows_ok(3))
      (use assms(1) in \<open>simp add: db_ok_def tables_ok_def\<close>)
  with assms(1) show ?thesis by (simp add: db' db_ok_def tables_ok_def)
qed

section \<open>Scheduled invocations\<close>

lemma claim_row_fields:
  assumes "claim_row w now until r = Inr s"
  shows "schedule_key s = schedule_key r" "sw_project s = sw_project r" "sw_environment s = sw_environment r"
    "sw_idempotency_key s = sw_idempotency_key r"
    "sw_commit_sequence s = sw_commit_sequence r" "sw_status s = ''running''" "sw_lease_owner s = Some w"
    "sw_lease_until s = Some until" "sw_attempts s = sw_attempts r + 1"
    "sw_lease_generation s = sw_lease_generation r + 1"
  using assms by (auto simp: claim_row_def schedule_key_def sql_succ_def split: if_splits)

lemma claim_one_cases:
  assumes "claim_one U p e w now until (claimed, db) i = Inr (claimed', db')"
  obtains rows t row rec where
    "sql_update_returning (\<lambda>r. schedule_key r = (p, e, i)) (claim_row w now until) (db_schedules db) = Inr (rows, t)"
    "db' = db\<lparr>db_schedules := t\<rparr>" "sql_find (\<lambda>r. schedule_key r = (p, e, i)) t = Some row"
    "decode_schedule_row U row = Inr rec" "claimed' = claimed @ [rec]"
  using assms that by (auto simp: claim_one_def Let_def fetch_schedule_row_def)

lemma claim_one_ok:
  assumes "tables_ok U bnd db" and "claim_one U p e w now until (claimed, db) i = Inr (claimed', db')"
  shows "tables_ok U bnd db' \<and> db_sequences db' = db_sequences db"
  using assms(2)
proof (rule claim_one_cases)
  fix rows t row rec
  assume 1: "sql_update_returning (\<lambda>r. schedule_key r = (p, e, i)) (claim_row w now until) (db_schedules db)
      = Inr (rows, t)"
    and 2: "db' = db\<lparr>db_schedules := t\<rparr>" and 3: "sql_find (\<lambda>r. schedule_key r = (p, e, i)) t = Some row"
    and 4: "decode_schedule_row U row = Inr rec"
  have old: "table_ok schedule_key (schedule_row_ok U bnd) (db_schedules db)" "idempotency_unique (db_schedules db)"
    using assms(1) by (simp_all add: tables_ok_def)
  have t: "t = snd (sql_update (\<lambda>r. schedule_key r = (p, e, i)) (\<lambda>r. projr (claim_row w now until r)) (db_schedules db))"
    and ex: "\<And>r. r \<in> set (db_schedules db) \<Longrightarrow> schedule_key r = (p, e, i) \<Longrightarrow> \<exists>s. claim_row w now until r = Inr s"
    using 1 by (simp_all add: sql_update_returning_Inr)
  have found: "s = row" if "r \<in> set (db_schedules db)" "schedule_key r = (p, e, i)" "claim_row w now until r = Inr s" for r s
  proof -
    have "table_ok schedule_key (\<lambda>_. True) (db_schedules db)" using old(1) by (simp add: table_ok_def)
    then have "table_ok schedule_key (\<lambda>_. True) t"
      by (rule table_ok_update_returning [OF 1]) (auto dest: claim_row_fields)
    then have "keyed schedule_key t" by (simp add: table_ok_def)
    moreover have "s \<in> set t" unfolding t using that by (force simp: sql_update_def)
    ultimately show ?thesis
      using 3 claim_row_fields(1) [OF that(3)] that(2) by (simp add: sql_find_key keyed_inj)
  qed
  have "table_ok schedule_key (schedule_row_ok U bnd) t"
  proof (rule table_ok_update_returning [OF 1 old(1)])
    fix r s
    assume *: "r \<in> set (db_schedules db)" "schedule_key r = (p, e, i)" "claim_row w now until r = Inr s"
    then show "schedule_key s = schedule_key r" by (auto dest: claim_row_fields)
    assume "schedule_row_ok U bnd r"
    then show "schedule_row_ok U bnd s"
      using claim_row_fields [OF *(3)] found [OF *] 4 by (simp add: schedule_row_ok_def)
  qed
  moreover have "idempotency_unique t"
    unfolding t by (rule idempotency_unique_update [OF old(2)]) (use ex in \<open>fastforce dest: claim_row_fields\<close>)
  ultimately show ?thesis using assms(1) by (simp add: 2 tables_ok_def)
qed

lemma claim_due_scheduled_tx_ok:
  assumes "db_ok U db" and "claim_due_scheduled_tx U scope worker now lease_until limit db = Inr (r, db')"
  shows "db_ok U db'"
proof -
  let ?bnd = "sequence_of (db_sequences db)"
  have "tables_ok U ?bnd (snd (r, db')) \<and> db_sequences (snd (r, db')) = db_sequences db"
    by (rule foldR_invariant [OF assms(2) [unfolded claim_due_scheduled_tx_def Let_def],
          where P = "\<lambda>x. tables_ok U ?bnd (snd x) \<and> db_sequences (snd x) = db_sequences db"])
      (use assms(1) claim_one_ok in \<open>auto simp: db_ok_def\<close>)
  then show ?thesis by (simp add: db_ok_def)
qed

lemma complete_row_ok:
  assumes "schedule_row_ok U bnd r"
  shows "schedule_row_ok U bnd (complete_row now completion r)"
  using assms
  by (cases completion)
    (auto simp: schedule_row_ok_def decode_schedule_row_def decode_lease_owner_def parse_status_def)

lemma complete_schedule_update_ok:
  assumes "db_ok U db"
  shows "db_ok U (snd (complete_schedule_update U scope i worker generation completion now db))"
  using assms complete_row_ok [of U "sequence_of (db_sequences db)"]
  by (auto simp: complete_schedule_update_def split_beta db_ok_def tables_ok_def schedule_key_def
      intro!: table_ok_update idempotency_unique_update)

lemma cancel_scheduled_tx_cases:
  assumes "cancel_scheduled_tx U clock scope i db = Inr (r, db')"
  obtains now where "clock = Inr now" "db' = db\<lparr>db_schedules := snd (sql_update
      (\<lambda>r. schedule_key r = (project_text U scope, environment_text U scope, schedule_text U i) \<and> sw_status r = ''pending'')
      (\<lambda>r. r\<lparr>sw_status := ''cancelled'', sw_updated_at := now\<rparr>) (db_schedules db))\<rparr>"
  using assms that by (auto simp: cancel_scheduled_tx_def Let_def split_beta split: if_splits)

lemma cancel_scheduled_tx_ok:
  assumes "db_ok U db" and "cancel_scheduled_tx U clock scope i db = Inr (r, db')"
  shows "db_ok U db'"
  using assms(2)
proof (rule cancel_scheduled_tx_cases)
  fix now
  assume db': "db' = db\<lparr>db_schedules := snd (sql_update
      (\<lambda>r. schedule_key r = (project_text U scope, environment_text U scope, schedule_text U i) \<and> sw_status r = ''pending'')
      (\<lambda>r. r\<lparr>sw_status := ''cancelled'', sw_updated_at := now\<rparr>) (db_schedules db))\<rparr>"
  have row: "schedule_row_ok U bnd (r\<lparr>sw_status := ''cancelled'', sw_updated_at := now\<rparr>)"
    if "schedule_row_ok U bnd r" "sw_status r = ''pending''" for bnd r
    using that by (auto simp: schedule_row_ok_def decode_schedule_row_def parse_status_def)
  show ?thesis
    using assms(1) row unfolding db'
    by (auto simp: db_ok_def tables_ok_def schedule_key_def intro!: table_ok_update idempotency_unique_update)
qed

section \<open>Reset\<close>

lemma table_ok_delete_mono:
  assumes "table_ok key ok t" and "\<And>r. r \<in> set t \<Longrightarrow> \<not> w r \<Longrightarrow> ok r \<Longrightarrow> ok' r"
  shows "table_ok key ok' (snd (sql_delete w t))"
  using assms by (auto simp: table_ok_def keyed_delete)

lemma sequence_of_delete:
  "(p', e') \<noteq> (p, e) \<Longrightarrow>
   sequence_of (snd (sql_delete (\<lambda>r. ew_project r = p \<and> ew_environment r = e) t)) p' e' = sequence_of t p' e'"
  unfolding sequence_of_def sql_delete_def snd_conv
  by (subst sql_find_filter) (auto simp: sequence_key_def)

lemma idempotency_unique_delete:
  assumes "idempotency_unique t"
  shows "idempotency_unique (snd (sql_delete w t))"
proof -
  have "filter (\<lambda>r. sw_idempotency_key r \<noteq> None) (filter (\<lambda>r. \<not> w r) t) =
      filter (\<lambda>r. \<not> w r) (filter (\<lambda>r. sw_idempotency_key r \<noteq> None) t)"
    by (simp add: conj_commute)
  then show ?thesis
    using keyed_filter [OF assms [unfolded idempotency_unique_def], of "\<lambda>r. \<not> w r"]
    by (simp only: idempotency_unique_def sql_delete_def snd_conv)
qed

lemma cascade_delete_ok:
  assumes "db_ok U db"
  shows "db_ok U (cascade_delete p e db)"
proof -
  note ok = assms [unfolded db_ok_def tables_ok_def]
  let ?old = "sequence_of (db_sequences db)"
  define new where "new = sequence_of (db_sequences (cascade_delete p e db))"
  have same: "?old p' e' \<le> new p' e'" if "\<not> (p' = p \<and> e' = e)" for p' e'
    using sequence_of_delete [of p' e' p e "db_sequences db"] that by (simp add: cascade_delete_def new_def)
  have "result_row_ok U (snd (sql_delete (\<lambda>r. pw_project r = p \<and> pw_environment r = e) (db_operations db))) r"
    if "result_row_ok U (db_operations db) r" "\<not> (rw_project r = p \<and> rw_environment r = e)" for r
    using that by (force simp: result_row_ok_def operation_key_def)
  then have "table_ok result_key (result_row_ok U (db_operations (cascade_delete p e db)))
      (db_results (cascade_delete p e db))"
    unfolding cascade_delete_def database.select_convs
    by (intro table_ok_delete_mono [where ok = "result_row_ok U (db_operations db)"]) (use ok in simp_all)
  moreover have "table_ok operation_key (operation_row_ok new) (db_operations (cascade_delete p e db))"
    unfolding cascade_delete_def database.select_convs
    by (intro table_ok_delete_mono [where ok = "operation_row_ok ?old"])
      (use ok row_ok_mono(1) [where bnd = ?old and bnd' = new] same in blast)+
  moreover have "table_ok document_key (document_row_ok U new) (db_documents (cascade_delete p e db))"
    unfolding cascade_delete_def database.select_convs
    by (intro table_ok_delete_mono [where ok = "document_row_ok U ?old"])
      (use ok row_ok_mono(2) [where bnd = ?old and bnd' = new] same in blast)+
  moreover have "table_ok index_entry_key (index_row_ok U new) (db_indexes (cascade_delete p e db))"
    unfolding cascade_delete_def database.select_convs
    by (intro table_ok_delete_mono [where ok = "index_row_ok U ?old"])
      (use ok row_ok_mono(3) [where bnd = ?old and bnd' = new] same in blast)+
  moreover have "table_ok outbox_key (outbox_row_ok U new) (db_outbox (cascade_delete p e db))"
    unfolding cascade_delete_def database.select_convs
    by (intro table_ok_delete_mono [where ok = "outbox_row_ok U ?old"])
      (use ok row_ok_mono(4) [where bnd = ?old and bnd' = new] same in blast)+
  moreover have "table_ok schedule_key (schedule_row_ok U new) (db_schedules (cascade_delete p e db))"
    unfolding cascade_delete_def database.select_convs
    by (intro table_ok_delete_mono [where ok = "schedule_row_ok U ?old"])
      (use ok row_ok_mono(5) [where bnd = ?old and bnd' = new] same in blast)+
  moreover have "table_ok consumer_key (consumer_row_ok U new) (db_consumers (cascade_delete p e db))"
    unfolding cascade_delete_def database.select_convs
    by (intro table_ok_delete_mono [where ok = "consumer_row_ok U ?old"])
      (use ok row_ok_mono(6) [where bnd = ?old and bnd' = new] same in blast)+
  moreover have "table_ok sequence_key sequence_row_ok (db_sequences (cascade_delete p e db))"
    "idempotency_unique (db_schedules (cascade_delete p e db))"
    using ok by (simp_all add: cascade_delete_def table_ok_delete idempotency_unique_delete)
  ultimately show ?thesis unfolding db_ok_def tables_ok_def new_def by blast
qed

section \<open>Every operation\<close>

fun op_typed :: "ulid_crate \<Rightarrow> store_op \<Rightarrow> bool" where
  "op_typed U (OpCommit _ _ b) = batch_typed U b"
| "op_typed U _ = True"

lemma store_step_ok:
  assumes "ulid_laws U" and "op_typed U x" and "db_ok U db"
  shows "db_ok U (store_step U sha256 x db)"
proof (cases "store_step U sha256 x db = db")
  case False
  then show ?thesis
  proof (cases rule: store_step_cases)
    case (1 b fault clock digest r)
    then show ?thesis using apply_commit_ok assms op_typed.simps(1) by blast
  next
    case (2 fault scope c w now lease limit r)
    then show ?thesis using claim_outbox_tx_ok assms by blast
  next
    case (3 fault clock scope c w g through r)
    then show ?thesis using ack_outbox_tx_ok assms by blast
  next
    case (4 fault scope w now lease limit r)
    then show ?thesis using claim_due_scheduled_tx_ok assms by blast
  next
    case (5 fault clock scope i w g completion now)
    then show ?thesis using complete_schedule_update_ok assms by metis
  next
    case (6 fault clock scope i r)
    then show ?thesis using cancel_scheduled_tx_ok assms by blast
  next
    case (7 fault scope confirmation)
    then show ?thesis using cascade_delete_ok assms by metis
  qed
qed (use assms in simp)

end
