(* ===== verification/Sqlite_History.thy ===== *)
theory Sqlite_History
  imports Sqlite_Invariant
begin

text \<open>
  What an Environment never loses: between resets, commit sequences only grow, the log of
  operations with their results and the outbox only gain rows, a scheduled invocation that reached
  a final state stays as it is, and the cursor and lease generation of a consumer never go back.
\<close>

section \<open>The order on databases\<close>

definition results_of :: "string \<times> string \<times> string \<Rightarrow> database \<Rightarrow> result_row list" where
  "results_of k db = filter (\<lambda>r. (rw_project r, rw_environment r, rw_operation r) = k) (db_results db)"

definition terminal :: "string \<Rightarrow> bool" where
  "terminal status \<longleftrightarrow> status \<in> {''succeeded'', ''failed'', ''cancelled''}"

definition schedule_advances :: "schedule_row \<Rightarrow> schedule_row \<Rightarrow> bool" where
  "schedule_advances r s \<longleftrightarrow>
     schedule_key s = schedule_key r \<and> sw_pinned_code s = sw_pinned_code r \<and> sw_function s = sw_function r \<and>
     sw_args s = sw_args r \<and> sw_idempotency_key s = sw_idempotency_key r \<and>
     sw_commit_sequence s = sw_commit_sequence r \<and> sw_attempts r \<le> sw_attempts s \<and>
     sw_lease_generation r \<le> sw_lease_generation s \<and> (terminal (sw_status r) \<longrightarrow> s = r)"

definition position_le :: "int \<Rightarrow> string option \<Rightarrow> int \<Rightarrow> string option \<Rightarrow> bool" where
  "position_le seq event seq' event' \<longleftrightarrow>
     (seq', event') = (seq, event) \<or> (\<exists>v. event' = Some v \<and> after_position seq event seq' v)"

definition consumer_advances :: "consumer_row \<Rightarrow> consumer_row \<Rightarrow> bool" where
  "consumer_advances r s \<longleftrightarrow>
     consumer_key s = consumer_key r \<and> cw_lease_generation r \<le> cw_lease_generation s \<and>
     position_le (cw_cursor_sequence r) (cw_cursor_event r) (cw_cursor_sequence s) (cw_cursor_event s)"

definition extends :: "string \<Rightarrow> string \<Rightarrow> database \<Rightarrow> database \<Rightarrow> bool" where
  "extends p e db db' \<longleftrightarrow>
     sequence_of (db_sequences db) p e \<le> sequence_of (db_sequences db') p e \<and>
     (\<forall>r \<in> set (db_operations db). pw_project r = p \<and> pw_environment r = e \<longrightarrow>
        r \<in> set (db_operations db') \<and> results_of (operation_key r) db' = results_of (operation_key r) db) \<and>
     (\<forall>r \<in> set (db_outbox db). ow_project r = p \<and> ow_environment r = e \<longrightarrow> r \<in> set (db_outbox db')) \<and>
     (\<forall>r \<in> set (db_schedules db). sw_project r = p \<and> sw_environment r = e \<longrightarrow>
        (\<exists>s \<in> set (db_schedules db'). schedule_advances r s)) \<and>
     (\<forall>r \<in> set (db_consumers db). cw_project r = p \<and> cw_environment r = e \<longrightarrow>
        (\<exists>s \<in> set (db_consumers db'). consumer_advances r s))"

lemma schedule_advances_refl [simp]: "schedule_advances r r"
  by (simp add: schedule_advances_def)

lemma schedule_advances_trans: "schedule_advances r s \<Longrightarrow> schedule_advances s t \<Longrightarrow> schedule_advances r t"
  by (auto simp: schedule_advances_def)

lemma position_le_trans: "position_le a x b y \<Longrightarrow> position_le b y c z \<Longrightarrow> position_le a x c z"
  by (auto simp: position_le_def after_position_def split: option.splits)

lemma consumer_advances_refl [simp]: "consumer_advances r r"
  by (simp add: consumer_advances_def position_le_def)

lemma consumer_advances_trans: "consumer_advances r s \<Longrightarrow> consumer_advances s t \<Longrightarrow> consumer_advances r t"
  using position_le_trans by (fastforce simp: consumer_advances_def)

lemma extends_refl: "extends p e db db"
  unfolding extends_def by (meson order_refl schedule_advances_refl consumer_advances_refl)

lemma extends_trans:
  assumes "extends p e a b" and "extends p e b c"
  shows "extends p e a c"
proof -
  have "r \<in> set (db_operations c) \<and> results_of (operation_key r) c = results_of (operation_key r) a"
    if "r \<in> set (db_operations a)" "pw_project r = p \<and> pw_environment r = e" for r
    using assms that unfolding extends_def by metis
  moreover have "\<exists>s \<in> set (db_schedules c). schedule_advances r s"
    if "r \<in> set (db_schedules a)" "sw_project r = p \<and> sw_environment r = e" for r
  proof -
    from assms(1) that obtain s where s: "s \<in> set (db_schedules b)" "schedule_advances r s"
      unfolding extends_def by blast
    then have "sw_project s = p \<and> sw_environment s = e"
      using that(2) by (auto simp: schedule_advances_def schedule_key_def)
    with assms(2) s obtain t where "t \<in> set (db_schedules c)" "schedule_advances s t"
      unfolding extends_def by blast
    with s show ?thesis using schedule_advances_trans by blast
  qed
  moreover have "\<exists>s \<in> set (db_consumers c). consumer_advances r s"
    if "r \<in> set (db_consumers a)" "cw_project r = p \<and> cw_environment r = e" for r
  proof -
    from assms(1) that obtain s where s: "s \<in> set (db_consumers b)" "consumer_advances r s"
      unfolding extends_def by blast
    then have "cw_project s = p \<and> cw_environment s = e"
      using that(2) by (auto simp: consumer_advances_def consumer_key_def)
    with assms(2) s obtain t where "t \<in> set (db_consumers c)" "consumer_advances s t"
      unfolding extends_def by blast
    with s show ?thesis using consumer_advances_trans by blast
  qed
  ultimately show ?thesis using assms unfolding extends_def by (meson order_trans)
qed

text \<open>Operations on other Environments.\<close>

lemma extends_frame:
  assumes "scope_view p e db' = scope_view p e db"
  shows "extends p e db db'"
proof -
  have seq: "sequence_of (db_sequences x) p e = sequence_of (db_sequences (scope_view p e x)) p e" for x
    unfolding sequence_of_def scope_view_def database.simps by (subst sql_find_filter) (auto simp: sequence_key_def)
  have res: "results_of (operation_key r) x = results_of (operation_key r) (scope_view p e x)"
    if "pw_project r = p \<and> pw_environment r = e" for r x
    using that by (auto simp: results_of_def scope_view_def operation_key_def intro!: filter_cong)
  have mem: "r \<in> set (db_operations db')"
    if "r \<in> set (db_operations db)" "pw_project r = p \<and> pw_environment r = e" for r
    using arg_cong [OF assms, of "\<lambda>x. set (db_operations x)"] that by (auto simp: scope_view_def)
  moreover have "r \<in> set (db_outbox db')"
    if "r \<in> set (db_outbox db)" "ow_project r = p \<and> ow_environment r = e" for r
    using arg_cong [OF assms, of "\<lambda>x. set (db_outbox x)"] that by (auto simp: scope_view_def)
  moreover have "r \<in> set (db_schedules db')"
    if "r \<in> set (db_schedules db)" "sw_project r = p \<and> sw_environment r = e" for r
    using arg_cong [OF assms, of "\<lambda>x. set (db_schedules x)"] that by (auto simp: scope_view_def)
  moreover have "r \<in> set (db_consumers db')"
    if "r \<in> set (db_consumers db)" "cw_project r = p \<and> cw_environment r = e" for r
    using arg_cong [OF assms, of "\<lambda>x. set (db_consumers x)"] that by (auto simp: scope_view_def)
  moreover have "sequence_of (db_sequences db) p e \<le> sequence_of (db_sequences db') p e"
    using seq [of db] seq [of db'] assms by simp
  moreover have "results_of (operation_key r) db' = results_of (operation_key r) db"
    if "pw_project r = p \<and> pw_environment r = e" for r
    using res [OF that, of db] res [OF that, of db'] assms by simp
  ultimately show ?thesis
    unfolding extends_def using schedule_advances_refl consumer_advances_refl by blast
qed

section \<open>The log of a commit\<close>

definition revision_fits :: "DocumentRevisionResult \<Rightarrow> bool" where
  "revision_fits x \<longleftrightarrow> (\<forall>v. drr_revision x = Some v \<longrightarrow> v \<noteq> 0 \<and> uint v \<le> i64_max)"

definition result_rows ::
    "ulid_crate \<Rightarrow> string \<Rightarrow> string \<Rightarrow> string \<Rightarrow> nat \<Rightarrow> DocumentRevisionResult list \<Rightarrow> result_row list" where
  "result_rows U p e op n xs = map (\<lambda>(i, x). result_row_of U p e op i x) (enumerate n xs)"

lemma result_rows_simps [simp]:
  "result_rows U p e op n [] = []"
  "result_rows U p e op n (x # xs) = result_row_of U p e op n x # result_rows U p e op (Suc n) xs"
  by (simp_all add: result_rows_def)

lemma result_rows_key:
  "r \<in> set (result_rows U p e op n xs) \<Longrightarrow> (rw_project r, rw_environment r, rw_operation r) = (p, e, op)"
  by (induction xs arbitrary: n) (auto simp: result_row_of_def)

lemma result_rows_sorted: "sorted (map rw_ordinal (result_rows U p e op n xs))"
proof -
  have "map rw_ordinal (result_rows U p e op n xs) = map int [n..<n + length xs]"
    by (induction xs arbitrary: n) (auto simp: result_row_of_def upt_conv_Cons simp del: upt_Suc)
  then show ?thesis by (simp add: sorted_map)
qed

lemma result_rows_decode:
  "ulid_laws U \<Longrightarrow> list_all revision_fits xs \<Longrightarrow> traverseR (decode_result_row U) (result_rows U p e op n xs) = Inr xs"
proof (induction xs arbitrary: n)
  case (Cons x xs)
  then have "decode_result_row U (result_row_of U p e op n x) = Inr x"
    by (intro result_row_of_decodes) (auto simp: revision_fits_def)
  with Cons show ?case by simp
qed simp

lemma record_documents:
  assumes "foldR (record_document U p e op n now) (rs, db) ms = Inr (rs', db')"
  shows "\<exists>xs. rs' = rs @ xs \<and> length xs = length ms \<and> list_all revision_fits xs \<and>
    db_results db' = db_results db @ result_rows U p e op (length rs) xs \<and>
    db' = db\<lparr>db_documents := db_documents db', db_results := db_results db'\<rparr>"
  using assms
proof (induction ms arbitrary: rs db)
  case (Cons m ms)
  then obtain rs1 db1 where step: "record_document U p e op n now (rs, db) m = Inr (rs1, db1)"
    and rest: "foldR (record_document U p e op n now) (rs1, db1) ms = Inr (rs', db')" by auto
  from step obtain x dba where a: "apply_document U p e n now m db = Inr (x, dba)" and rs1: "rs1 = rs @ [x]"
    and v: "revision_fits x"
    and db1: "db1 = dba\<lparr>db_results := db_results dba @ [result_row_of U p e op (length rs) x]\<rparr>"
    by (rule record_document_cases) (auto simp: revision_fits_def)
  from Cons.IH [OF rest] obtain xs where xs: "rs' = rs1 @ xs" "length xs = length ms" "list_all revision_fits xs"
    "db_results db' = db_results db1 @ result_rows U p e op (length rs1) xs"
    "db' = db1\<lparr>db_documents := db_documents db', db_results := db_results db'\<rparr>" by blast
  have dba: "dba = db\<lparr>db_documents := db_documents dba\<rparr>" by (rule apply_document_others [OF a])
  then have "db_results dba = db_results db" by (metis database.select_convs(3) database.update_convs(4) database.surjective)
  moreover have "db' = db\<lparr>db_documents := db_documents db', db_results := db_results db'\<rparr>"
    using xs(5) dba db1 by (metis (no_types, lifting) database.update_convs(3,4) database.surjective)
  ultimately show ?case using xs rs1 v db1 by (intro exI [of _ "x # xs"]) simp
qed simp

lemma apply_indexes_others:
  assumes "foldR (apply_index U p e n) db ms = Inr db'"
  shows "db' = db\<lparr>db_indexes := db_indexes db'\<rparr>"
proof (rule foldR_invariant [OF assms, where P = "\<lambda>x. x = db\<lparr>db_indexes := db_indexes x\<rparr>"])
  fix x m y
  assume "apply_index U p e n x m = Inr y" "x = db\<lparr>db_indexes := db_indexes x\<rparr>"
  moreover from this(1) obtain t where "y = x\<lparr>db_indexes := t\<rparr>"
    by (cases m) (auto split: option.splits)
  ultimately show "y = db\<lparr>db_indexes := db_indexes y\<rparr>"
    by (metis database.select_convs(5) database.update_convs(5) database.surjective)
qed simp

lemma apply_events_append:
  assumes "foldR (apply_event U p e n now) db ms = Inr db'"
  shows "\<exists>xs. db' = db\<lparr>db_outbox := db_outbox db @ xs\<rparr>"
proof (rule foldR_invariant [OF assms, where P = "\<lambda>x. \<exists>xs. x = db\<lparr>db_outbox := db_outbox db @ xs\<rparr>"])
  show "\<exists>xs. db = db\<lparr>db_outbox := db_outbox db @ xs\<rparr>" by (rule exI [of _ "[]"]) simp
  fix x m y
  assume "apply_event U p e n now x m = Inr y" "\<exists>xs. x = db\<lparr>db_outbox := db_outbox db @ xs\<rparr>"
  moreover from this(1) obtain r where "y = x\<lparr>db_outbox := db_outbox x @ [r]\<rparr>"
    by (auto simp: apply_event_def sql_insert_ignore_def split: if_splits)
  ultimately show "\<exists>xs. y = db\<lparr>db_outbox := db_outbox db @ xs\<rparr>" by auto
qed

lemma apply_schedules_append:
  assumes "foldR (apply_schedule U p e n now) db ms = Inr db'"
  shows "\<exists>xs. db' = db\<lparr>db_schedules := db_schedules db @ xs\<rparr>"
proof (rule foldR_invariant [OF assms, where P = "\<lambda>x. \<exists>xs. x = db\<lparr>db_schedules := db_schedules db @ xs\<rparr>"])
  show "\<exists>xs. db = db\<lparr>db_schedules := db_schedules db @ xs\<rparr>" by (rule exI [of _ "[]"]) simp
  fix x m y
  assume "apply_schedule U p e n now x m = Inr y" "\<exists>xs. x = db\<lparr>db_schedules := db_schedules db @ xs\<rparr>"
  moreover from this(1) obtain r where "y = x\<lparr>db_schedules := db_schedules x @ [r]\<rparr>"
    by (auto simp: apply_schedule_def sql_insert_ignore_def split: if_splits)
  ultimately show "\<exists>xs. y = db\<lparr>db_schedules := db_schedules db @ xs\<rparr>" by auto
qed

text \<open>The tables after a commit that was not a replay.\<close>

lemma apply_commit_effect:
  assumes "apply_commit U clock b digest db = Inr (r, db')" and "\<not> cr_replayed r"
  obtains n sequences now db1 where
    "bump_sequence (project_text U (cb_scope b)) (environment_text U (cb_scope b)) (db_sequences db) = Inr (n, sequences)"
    "0 < n" "cr_commit_sequence r = word_of_int n" "clock = Inr now"
    "load_operation U b digest db = Inr None"
    "validate_document_reads U (project_text U (cb_scope b)) (environment_text U (cb_scope b)) db (cb_reads b) = Inr ()"
    "operation_key (operation_row_of U b digest n now) \<notin> operation_key ` set (db_operations db)"
    "foldR (record_document U (project_text U (cb_scope b)) (environment_text U (cb_scope b))
         (operation_text U (cb_operation_id b)) n now)
       ([], db\<lparr>db_sequences := sequences, db_operations := db_operations db @ [operation_row_of U b digest n now]\<rparr>)
       (cb_documents b) = Inr (cr_documents r, db1)"
    "db_sequences db' = sequences" "db_documents db' = db_documents db1" "db_consumers db' = db_consumers db"
    "db_operations db' = db_operations db @ [operation_row_of U b digest n now]"
    "db_results db' = db_results db @ result_rows U (project_text U (cb_scope b)) (environment_text U (cb_scope b))
       (operation_text U (cb_operation_id b)) 0 (cr_documents r)"
    "length (cr_documents r) = length (cb_documents b)" "list_all revision_fits (cr_documents r)"
    "\<exists>xs. db_outbox db' = db_outbox db @ xs" "\<exists>xs. db_schedules db' = db_schedules db @ xs"
  using assms(1)
proof (cases rule: apply_commit_cases)
  case replay
  with assms(2) show thesis using load_operation_replayed by blast
next
  case (fresh n sequences now operations documents db1 db2 db3)
  from fresh(4) have ops: "operations = db_operations db @ [operation_row_of U b digest n now]"
    and key: "operation_key (operation_row_of U b digest n now) \<notin> operation_key ` set (db_operations db)"
    by (simp_all add: sql_insert_def list_ex_same_key split: if_splits)
  from record_documents [OF fresh(5)] obtain xs where xs: "documents = xs" "length xs = length (cb_documents b)"
    "list_all revision_fits xs"
    "db_results db1 = db_results db @ result_rows U (project_text U (cb_scope b)) (environment_text U (cb_scope b))
       (operation_text U (cb_operation_id b)) 0 xs"
    "db1 = db\<lparr>db_sequences := sequences, db_operations := operations, db_documents := db_documents db1,
       db_results := db_results db1\<rparr>"
    by auto
  from apply_indexes_others [OF fresh(6)] have 2: "db2 = db1\<lparr>db_indexes := db_indexes db2\<rparr>" .
  from apply_events_append [OF fresh(7)] obtain ys where 3: "db3 = db2\<lparr>db_outbox := db_outbox db2 @ ys\<rparr>" by blast
  from apply_schedules_append [OF fresh(8)] obtain zs where 4: "db' = db3\<lparr>db_schedules := db_schedules db3 @ zs\<rparr>" by blast
  have 1: "db_sequences db1 = sequences" "db_operations db1 = operations" "db_consumers db1 = db_consumers db"
    "db_outbox db1 = db_outbox db" "db_schedules db1 = db_schedules db"
    by (subst xs(5), simp)+
  have 2: "db_sequences db2 = sequences" "db_operations db2 = operations" "db_consumers db2 = db_consumers db"
    "db_outbox db2 = db_outbox db" "db_schedules db2 = db_schedules db" "db_documents db2 = db_documents db1"
    "db_results db2 = db_results db1"
    by (subst 2, simp add: 1)+
  from fresh(11) have docs: "documents = cr_documents r" by simp
  show thesis
    by (rule that [OF fresh(3) fresh(10) _ fresh(9) fresh(1,2) key fresh(5) [unfolded ops docs]])
      (use fresh(11) xs(1-4) 2 3 4 ops in simp_all)
qed

section \<open>Every operation extends the history\<close>

lemma apply_commit_extends:
  assumes "db_ok U db" and "apply_commit U clock b digest db = Inr (r, db')"
  shows "extends p e db db'"
proof (cases "cr_replayed r")
  case True
  with assms(2) have "db' = db" by (auto elim!: apply_commit_cases)
  then show ?thesis by (simp add: extends_refl)
next
  case False
  let ?p = "project_text U (cb_scope b)" and ?e = "environment_text U (cb_scope b)"
  let ?op = "operation_text U (cb_operation_id b)"
  from assms(2) False show ?thesis
  proof (rule apply_commit_effect)
    fix n sequences now db1
    assume bump: "bump_sequence ?p ?e (db_sequences db) = Inr (n, sequences)"
      and key: "operation_key (operation_row_of U b digest n now) \<notin> operation_key ` set (db_operations db)"
      and eff: "db_sequences db' = sequences" "db_consumers db' = db_consumers db"
        "db_operations db' = db_operations db @ [operation_row_of U b digest n now]"
        "db_results db' = db_results db @ result_rows U ?p ?e ?op 0 (cr_documents r)"
        "\<exists>xs. db_outbox db' = db_outbox db @ xs" "\<exists>xs. db_schedules db' = db_schedules db @ xs"
    have "table_ok sequence_key sequence_row_ok (db_sequences db)"
      using assms(1) by (simp add: db_ok_def tables_ok_def)
    note spec = bump_sequence_spec [OF this bump]
    have "sequence_of (db_sequences db) p e \<le> sequence_of (db_sequences db') p e"
      using spec(1) spec(4) [of p e] by (simp add: eff)
    moreover have "results_of (operation_key o1) db' = results_of (operation_key o1) db"
      if "o1 \<in> set (db_operations db)" for o1
    proof -
      have "operation_key o1 \<noteq> (?p, ?e, ?op)"
        using key that by (metis image_eqI operation_key_def operation_row_of_def operation_row.select_convs(1,2,3))
      then have "filter (\<lambda>r. (rw_project r, rw_environment r, rw_operation r) = operation_key o1)
          (result_rows U ?p ?e ?op 0 (cr_documents r)) = []"
        by (auto simp: filter_empty_conv dest: result_rows_key)
      then show ?thesis by (simp add: results_of_def eff)
    qed
    ultimately show ?thesis
      using eff unfolding extends_def by (auto intro: schedule_advances_refl consumer_advances_refl)
  qed
qed

text \<open>An update of one table whose rows all advance.\<close>

lemma extends_consumers:
  assumes "\<And>r. r \<in> set (db_consumers db) \<Longrightarrow> \<exists>s \<in> set t. consumer_advances r s"
    and "\<And>p e. sequence_of (db_sequences db) p e = sequence_of sequences p e"
  shows "extends p e db (db\<lparr>db_sequences := sequences, db_consumers := t\<rparr>)"
  using assms unfolding extends_def by (auto simp: results_of_def intro: schedule_advances_refl)

lemma extends_schedules:
  assumes "\<And>r. r \<in> set (db_schedules db) \<Longrightarrow> \<exists>s \<in> set t. schedule_advances r s"
  shows "extends p e db (db\<lparr>db_schedules := t\<rparr>)"
  using assms unfolding extends_def by (auto simp: results_of_def intro: consumer_advances_refl)

lemma set_sql_update_image: "r \<in> set t \<Longrightarrow> (if w r then f r else r) \<in> set (snd (sql_update w f t))"
  by (auto simp: sql_update_def)

lemma sql_update_advances:
  assumes "r \<in> set t" and "\<And>r. r \<in> set t \<Longrightarrow> w r \<Longrightarrow> le r (f r)" and "\<And>r. le r r"
  shows "\<exists>s \<in> set (snd (sql_update w f t)). le r s"
  using set_sql_update_image [OF assms(1), of w f] assms by (cases "w r") (metis (full_types))+

lemma consumer_rows_advance:
  "lease_row w now until r = Inr s \<Longrightarrow> consumer_advances r s"
  "consumer_advances r (release_row now r)"
  "consumer_advances r (claimed_row now n v r)"
  by (auto simp: consumer_advances_def lease_row_def release_row_def claimed_row_def consumer_key_def
      position_le_def sql_succ_def split: if_splits)

lemma claim_outbox_tx_extends:
  assumes "claim_outbox_tx U scope consumer worker now lease_until limit db = Inr (r, db')"
  shows "extends p e db db'"
  using assms
proof (rule claim_outbox_tx_cases)
  let ?p = "project_text U scope" and ?e = "environment_text U scope"
  let ?here = "\<lambda>r. consumer_key r = (?p, ?e, consumer)"
  let ?consumers = "ensure_consumer ?p ?e consumer (micros now) (db_consumers db)"
  fix leased row rest cursor acknowledged events f
  assume 1: "sql_update_returning (\<lambda>r. ?here r \<and> lease_free (worker_text U worker) (micros now) r)
      (lease_row (worker_text U worker) (micros now) (micros lease_until)) ?consumers = Inr (row # rest, leased)"
    and 5: "f = (if events = [] then release_row (micros now)
        else claimed_row (micros now) (uint (oe_commit_sequence (last events)))
               (event_text U (oe_event_id (last events))))"
    and 6: "db' = db\<lparr>db_sequences := ensure_sequence ?p ?e (db_sequences db),
       db_consumers := snd (sql_update ?here f leased)\<rparr>"
  let ?w = "\<lambda>r. ?here r \<and> lease_free (worker_text U worker) (micros now) r"
  let ?g = "lease_row (worker_text U worker) (micros now) (micros lease_until)"
  have "\<exists>s \<in> set (snd (sql_update ?here f leased)). consumer_advances r s" if "r \<in> set (db_consumers db)" for r
  proof -
    have "r \<in> set ?consumers" using that by (auto simp: ensure_consumer_def sql_insert_ignore_def)
    then have "(if ?w r then projr (?g r) else r) \<in> set leased" (is "?s \<in> _") and "?w r \<Longrightarrow> \<exists>s. ?g r = Inr s"
      using 1 set_sql_update_image [of r ?consumers ?w "\<lambda>r. projr (?g r)"] by (simp_all add: sql_update_returning_Inr)
    then have s: "?s \<in> set leased" "consumer_advances r ?s" using consumer_rows_advance(1) [of _ _ _ r] by auto
    have "consumer_advances ?s (if ?here ?s then f ?s else ?s)" by (simp add: 5 consumer_rows_advance)
    then show ?thesis using set_sql_update_image [OF s(1)] consumer_advances_trans [OF s(2)] by blast
  qed
  then show ?thesis unfolding 6 by (rule extends_consumers) (simp_all add: ensure_sequence_of)
qed

lemma ack_outbox_tx_extends:
  assumes "db_ok U db" and "ack_outbox_tx U clock scope consumer worker generation through db = Inr (r, db')"
  shows "extends p e db db'"
proof -
  let ?n = "uint (cursor_commit_sequence through)" and ?v = "event_text U (cursor_event_id through)"
  let ?w = "owns_claim U scope consumer worker (uint generation) ?n ?v"
  from assms(2) obtain now where db': "db' = db\<lparr>db_consumers := snd (sql_update ?w (ack_row now ?n ?v) (db_consumers db))\<rparr>"
    by (auto simp: ack_outbox_tx_Inr)
  have "consumer_advances s (ack_row now ?n ?v s)" if "s \<in> set (db_consumers db)" "?w s" for s
  proof -
    have "consumer_row_ok U (sequence_of (db_sequences db)) s"
      using assms(1) that(1) by (simp add: db_ok_def tables_ok_def table_ok_def)
    then show ?thesis
      using that(2) by (auto simp: consumer_row_ok_def owns_claim_def consumer_advances_def ack_row_def
          position_le_def consumer_key_def)
  qed
  then have "\<exists>s' \<in> set (snd (sql_update ?w (ack_row now ?n ?v) (db_consumers db))). consumer_advances s s'"
    if "s \<in> set (db_consumers db)" for s
    using that by (intro sql_update_advances) simp_all
  then show ?thesis
    using extends_consumers [of db _ "db_sequences db"] unfolding db' by simp
qed

lemma claim_one_extends:
  assumes "db_ok U db" and "claim_one U p' e' w now until (claimed, db) i = Inr (claimed', db')"
    and "\<And>r. r \<in> set (db_schedules db) \<Longrightarrow> schedule_key r = (p', e', i) \<Longrightarrow> \<not> terminal (sw_status r)"
  shows "extends p e db db'"
  using assms(2)
proof (rule claim_one_cases)
  let ?w = "\<lambda>r. schedule_key r = (p', e', i)" and ?f = "claim_row w now until"
  fix rows t
  assume 1: "sql_update_returning ?w ?f (db_schedules db) = Inr (rows, t)" and 2: "db' = db\<lparr>db_schedules := t\<rparr>"
  have "\<exists>s \<in> set t. schedule_advances r s" if "r \<in> set (db_schedules db)" for r
  proof -
    have "(if ?w r then projr (?f r) else r) \<in> set t" and "?w r \<Longrightarrow> \<exists>s. ?f r = Inr s"
      using 1 set_sql_update_image [OF that, of ?w "\<lambda>r. projr (?f r)"] that by (simp_all add: sql_update_returning_Inr)
    moreover have "schedule_advances r s" if "?f r = Inr s" "?w r" for s
      using that assms(3) [OF \<open>r \<in> set (db_schedules db)\<close>]
      by (auto simp: schedule_advances_def claim_row_def sql_succ_def schedule_key_def split: if_splits)
    ultimately show ?thesis by (cases "?w r") (auto intro!: bexI)
  qed
  then show ?thesis unfolding 2 by (rule extends_schedules)
qed

lemma due_ids_claimable:
  assumes "i \<in> set (due_ids p e now limit t)"
  shows "\<exists>r \<in> set t. schedule_key r = (p, e, i) \<and> claimable now r"
proof -
  from assms obtain r where "r \<in> set (take limit (sql_select
      (\<lambda>r. sw_project r = p \<and> sw_environment r = e \<and> claimable now r) (\<lambda>r. (sw_execute_at r, sw_scheduled r)) t))"
    "i = sw_scheduled r" by (auto simp: due_ids_def)
  then show ?thesis by (auto simp: schedule_key_def dest!: in_set_takeD)
qed

text \<open>
  Induction over the claims of one transaction: every claim starts in a database that keeps the
  invariant and extends the first one, and extends its own.
\<close>

lemma claim_due_induct:
  assumes "db_ok U db" and "claim_due_scheduled_tx U scope worker now lease_until limit db = Inr (r, db')"
    and "Q [] db"
    and "\<And>rs x i rs' y. db_ok U x \<Longrightarrow> extends p e db x \<Longrightarrow> extends p e x y \<Longrightarrow> Q rs x \<Longrightarrow>
      i \<in> set (due_ids (project_text U scope) (environment_text U scope) (micros now) (unat limit) (db_schedules db)) \<Longrightarrow>
      claim_one U (project_text U scope) (environment_text U scope) (worker_text U worker) (micros now)
        (micros lease_until) (rs, x) i = Inr (rs', y) \<Longrightarrow> Q rs' y"
  shows "db_ok U db' \<and> extends p e db db' \<and> Q r db'"
proof -
  let ?p = "project_text U scope" and ?e = "environment_text U scope" and ?w = "worker_text U worker"
  define due where "due = due_ids ?p ?e (micros now) (unat limit) (db_schedules db)"
  define live where "live x \<longleftrightarrow> (\<forall>i \<in> set due. \<forall>r \<in> set (db_schedules x).
    schedule_key r = (?p, ?e, i) \<longrightarrow> \<not> terminal (sw_status r))" for x :: database
  have "live db" unfolding live_def
  proof (intro ballI impI)
    fix i s
    assume "i \<in> set due" "s \<in> set (db_schedules db)" "schedule_key s = (?p, ?e, i)"
    moreover from this(1) obtain q where "q \<in> set (db_schedules db)" "schedule_key q = (?p, ?e, i)" "claimable (micros now) q"
      unfolding due_def by (blast dest: due_ids_claimable)
    ultimately have "claimable (micros now) s"
      using assms(1) keyed_inj unfolding db_ok_def tables_ok_def table_ok_def by metis
    then show "\<not> terminal (sw_status s)" by (auto simp: claimable_def terminal_def)
  qed
  have "db_ok U (snd (r, db')) \<and> extends p e db (snd (r, db')) \<and> live (snd (r, db')) \<and> Q (fst (r, db')) (snd (r, db'))"
  proof (rule foldR_invariant [OF assms(2) [unfolded claim_due_scheduled_tx_def Let_def, folded due_def],
        where P = "\<lambda>x. db_ok U (snd x) \<and> extends p e db (snd x) \<and> live (snd x) \<and> Q (fst x) (snd x)"])
    show "db_ok U (snd ([], db)) \<and> extends p e db (snd ([], db)) \<and> live (snd ([], db)) \<and> Q (fst ([], db)) (snd ([], db))"
      using assms(1,3) \<open>live db\<close> by (simp add: extends_refl)
    fix x i y
    assume step: "claim_one U ?p ?e ?w (micros now) (micros lease_until) x i = Inr y" and i: "i \<in> set due"
      and P: "db_ok U (snd x) \<and> extends p e db (snd x) \<and> live (snd x) \<and> Q (fst x) (snd x)"
    from step have step': "claim_one U ?p ?e ?w (micros now) (micros lease_until) (fst x, snd x) i = Inr (fst y, snd y)"
      by simp
    from P claim_one_ok [OF _ step'] have ok: "db_ok U (snd y)" unfolding db_ok_def by metis
    have one: "extends p e (snd x) (snd y)"
      by (rule claim_one_extends [OF _ step']) (use P i in \<open>auto simp: live_def\<close>)
    then have ext: "extends p e db (snd y)" using P extends_trans by blast
    from step' have "live (snd y)"
    proof (rule claim_one_cases)
      fix rows t
      assume 1: "sql_update_returning (\<lambda>r. schedule_key r = (?p, ?e, i)) (claim_row ?w (micros now) (micros lease_until))
          (db_schedules (snd x)) = Inr (rows, t)" and 2: "snd y = (snd x)\<lparr>db_schedules := t\<rparr>"
      have "s \<in> set (db_schedules (snd x)) \<or> sw_status s = ''running''" if "s \<in> set t" for s
      proof -
        let ?f = "claim_row ?w (micros now) (micros lease_until)" and ?k = "\<lambda>r. schedule_key r = (?p, ?e, i)"
        from 1 have t: "t = snd (sql_update ?k (\<lambda>r. projr (?f r)) (db_schedules (snd x)))"
          and ex: "\<forall>r \<in> set (db_schedules (snd x)). ?k r \<longrightarrow> (\<exists>s. ?f r = Inr s)"
          by (simp_all add: sql_update_returning_Inr)
        from that [unfolded t] obtain r where r: "r \<in> set (db_schedules (snd x))" "s = (if ?k r then projr (?f r) else r)"
          by (blast dest: set_sql_update)
        show ?thesis
        proof (cases "?k r")
          case True
          with ex r(1) obtain q where "?f r = Inr q" by blast
          with r(2) True show ?thesis by (simp add: claim_row_fields(6))
        qed (use r in simp)
      qed
      then show "live (snd y)" using P unfolding 2 live_def by (fastforce simp: terminal_def)
    qed
    moreover have "Q (fst y) (snd y)"
      using assms(4) [OF _ _ one _ i [unfolded due_def] step'] P by blast
    ultimately show "db_ok U (snd y) \<and> extends p e db (snd y) \<and> live (snd y) \<and> Q (fst y) (snd y)"
      using ok ext by blast
  qed
  then show ?thesis by simp
qed

lemma claim_due_scheduled_tx_extends:
  assumes "db_ok U db" and "claim_due_scheduled_tx U scope worker now lease_until limit db = Inr (r, db')"
  shows "extends p e db db'"
  using claim_due_induct [OF assms, where Q = "\<lambda>_ _. True"] by blast

lemma complete_schedule_update_extends:
  "extends p e db (snd (complete_schedule_update U scope i worker generation completion now db))"
proof -
  have "schedule_advances r (complete_row now completion r)" if "owns_lease U scope i worker generation r" for r
    using that by (simp add: schedule_advances_def owns_lease_def schedule_key_def terminal_def)
  then have "\<exists>s \<in> set (snd (sql_update (owns_lease U scope i worker generation) (complete_row now completion)
      (db_schedules db))). schedule_advances r s" if "r \<in> set (db_schedules db)" for r
    using that by (intro sql_update_advances) simp_all
  then show ?thesis
    unfolding complete_schedule_update_def split_beta snd_conv Let_def by (rule extends_schedules)
qed

lemma cancel_scheduled_tx_extends:
  assumes "cancel_scheduled_tx U clock scope i db = Inr (r, db')"
  shows "extends p e db db'"
  using assms
proof (rule cancel_scheduled_tx_cases)
  let ?w = "\<lambda>r. schedule_key r = (project_text U scope, environment_text U scope, schedule_text U i) \<and>
    sw_status r = ''pending''"
  fix now
  let ?f = "\<lambda>r. r\<lparr>sw_status := ''cancelled'', sw_updated_at := now\<rparr>"
  assume db': "db' = db\<lparr>db_schedules := snd (sql_update ?w ?f (db_schedules db))\<rparr>"
  have "\<exists>s \<in> set (snd (sql_update ?w ?f (db_schedules db))). schedule_advances r s"
    if "r \<in> set (db_schedules db)" for r
    using that by (rule sql_update_advances) (auto simp: schedule_advances_def schedule_key_def terminal_def)
  then show ?thesis unfolding db' by (rule extends_schedules)
qed

definition resets :: "ulid_crate \<Rightarrow> string \<Rightarrow> string \<Rightarrow> store_op \<Rightarrow> bool" where
  "resets U p e x \<longleftrightarrow>
     (case x of OpReset _ scope _ \<Rightarrow> (project_text U scope, environment_text U scope) = (p, e) | _ \<Rightarrow> False)"

lemma store_step_extends:
  assumes "db_ok U db" and "\<not> resets U p e x"
  shows "extends p e db (store_step U sha256 x db)"
proof (cases "store_step U sha256 x db = db")
  case True
  then show ?thesis by (simp add: extends_refl)
next
  case False
  then show ?thesis
  proof (cases rule: store_step_cases)
    case (1 b fault clock digest r)
    then show ?thesis using apply_commit_extends assms(1) by blast
  next
    case (2 fault scope c w now lease limit r)
    then show ?thesis using claim_outbox_tx_extends by blast
  next
    case (3 fault clock scope c w g through r)
    then show ?thesis using ack_outbox_tx_extends assms(1) by blast
  next
    case (4 fault scope w now lease limit r)
    then show ?thesis using claim_due_scheduled_tx_extends assms(1) by blast
  next
    case (5 fault clock scope i w g completion now)
    then show ?thesis using complete_schedule_update_extends by metis
  next
    case (6 fault clock scope i r)
    then show ?thesis using cancel_scheduled_tx_extends by blast
  next
    case (7 fault scope confirmation)
    with assms(2) show ?thesis
      using cascade_delete_frame [THEN extends_frame] by (auto simp: resets_def)
  qed
qed

section \<open>The store is a monotone machine\<close>

lemma store_machine:
  assumes "ulid_laws U"
  shows "invariant_machine empty_database (store_step U sha256) (op_typed U) (db_ok U)"
  using store_step_ok [OF assms] by unfold_locales (simp_all add: empty_database_ok)

lemma store_history_machine:
  assumes "ulid_laws U"
  shows "monotone_machine empty_database (store_step U sha256) (\<lambda>x. op_typed U x \<and> \<not> resets U p e x)
    (db_ok U) (extends p e)"
  using store_step_ok [OF assms] store_step_extends extends_trans
  by unfold_locales (blast intro: empty_database_ok extends_refl)+

interpretation crockford_store: invariant_machine empty_database "store_step crockford_ulid sha256"
  "op_typed crockford_ulid" "db_ok crockford_ulid" for sha256
  by (rule store_machine [OF crockford_laws])

interpretation crockford_history: monotone_machine empty_database "store_step crockford_ulid sha256"
  "\<lambda>x. op_typed crockford_ulid x \<and> \<not> resets crockford_ulid p e x" "db_ok crockford_ulid" "extends p e"
  for sha256 p e
  by (rule store_history_machine [OF crockford_laws])

end
