(* ===== verification/Sqlite_Semantics.thy ===== *)
theory Sqlite_Semantics
  imports Sqlite_History
begin

text \<open>
  What the operations of the embedded store mean to a client: replays of a commit, the documents a
  commit leaves behind, the events an outbox consumer is given, and the leases of scheduled
  invocations.
\<close>

section \<open>Replay\<close>

abbreviation operation_id_key :: "ulid_crate \<Rightarrow> CommitBatch \<Rightarrow> string \<times> string \<times> string" where
  "operation_id_key U b \<equiv>
     (project_text U (cb_scope b), environment_text U (cb_scope b), operation_text U (cb_operation_id b))"

lemma load_operation_row:
  assumes "keyed operation_key (db_operations db)" and "row \<in> set (db_operations db)"
    and "operation_key row = operation_id_key U b"
  shows "load_operation U b digest db =
    (if pw_digest row \<noteq> digest then Inl OperationIdReused
     else bindR (positive_u64 (pw_commit_sequence row)) (\<lambda>n.
       bindR (traverseR (decode_result_row U) (sort_key rw_ordinal (results_of (operation_id_key U b) db))) (\<lambda>ds.
         if length ds \<noteq> length (cb_documents b) then Inl Corruption
         else Inr (Some \<lparr>cr_commit_sequence = n, cr_documents = ds, cr_replayed = True\<rparr>))))"
proof -
  have "sql_find (\<lambda>r. operation_key r = operation_id_key U b) (db_operations db) = Some row"
    using assms by (simp add: sql_find_key)
  moreover have "(\<lambda>r. rw_project r = project_text U (cb_scope b) \<and> rw_environment r = environment_text U (cb_scope b) \<and>
      rw_operation r = operation_text U (cb_operation_id b)) =
    (\<lambda>r. (rw_project r, rw_environment r, rw_operation r) = operation_id_key U b)" by auto
  ultimately show ?thesis by (simp add: load_operation_def Let_def sql_select_def results_of_def)
qed

lemma load_operation_None:
  "load_operation U b digest db = Inr None \<longleftrightarrow> operation_id_key U b \<notin> operation_key ` set (db_operations db)"
proof -
  have "sql_find (\<lambda>r. operation_key r = operation_id_key U b) (db_operations db) = None \<longleftrightarrow>
      operation_id_key U b \<notin> operation_key ` set (db_operations db)"
    by (force simp: sql_find_None)
  then show ?thesis by (auto simp: load_operation_def Let_def split: option.splits if_splits)
qed

lemma load_operation_stable:
  assumes "db_ok U db" and "db_ok U db'"
    and "extends (project_text U (cb_scope b)) (environment_text U (cb_scope b)) db db'"
    and "operation_id_key U b \<in> operation_key ` set (db_operations db)"
  shows "load_operation U b digest db' = load_operation U b digest db"
proof -
  from assms(4) obtain row where row: "row \<in> set (db_operations db)" "operation_key row = operation_id_key U b" by auto
  then have "pw_project row = project_text U (cb_scope b)" "pw_environment row = environment_text U (cb_scope b)"
    by (simp_all add: operation_key_def)
  with assms(3) row have row': "row \<in> set (db_operations db')"
    and res: "results_of (operation_id_key U b) db' = results_of (operation_id_key U b) db"
    by (auto simp: extends_def)
  have keyed: "keyed operation_key (db_operations db)" "keyed operation_key (db_operations db')"
    using assms(1,2) by (simp_all add: db_ok_def tables_ok_def table_ok_def)
  show ?thesis
    using load_operation_row [OF keyed(1) row] load_operation_row [OF keyed(2) row' row(2)] by (simp add: res)
qed

lemma sort_key_sorted: "sorted (map f xs) \<Longrightarrow> sort_key f xs = xs"
  by (induction xs) (auto simp: insort_is_Cons)

lemma load_operation_committed:
  assumes "ulid_laws U" and "db_ok U db" and "db_ok U db'"
    and "apply_commit U clock b digest db = Inr (r, db')"
  shows "load_operation U b digest db' = Inr (Some (r\<lparr>cr_replayed := True\<rparr>))"
proof (cases "cr_replayed r")
  case True
  then have "load_operation U b digest db = Inr (Some r)" "db' = db"
    using assms(4) by (auto elim!: apply_commit_cases)
  with True show ?thesis by simp
next
  case False
  let ?k = "operation_id_key U b"
  from assms(4) False show ?thesis
  proof (rule apply_commit_effect)
    fix n now
    assume n: "0 < n" "cr_commit_sequence r = word_of_int n" and none: "load_operation U b digest db = Inr None"
      and ops: "db_operations db' = db_operations db @ [operation_row_of U b digest n now]"
      and res: "db_results db' = db_results db @ result_rows U (project_text U (cb_scope b))
         (environment_text U (cb_scope b)) (operation_text U (cb_operation_id b)) 0 (cr_documents r)"
      and len: "length (cr_documents r) = length (cb_documents b)" and fits: "list_all revision_fits (cr_documents r)"
    have "results_of ?k db = []"
      using none assms(2) unfolding load_operation_None
      by (auto simp: results_of_def filter_empty_conv db_ok_def tables_ok_def table_ok_def result_row_ok_def)
    then have new: "results_of ?k db' = result_rows U (project_text U (cb_scope b))
         (environment_text U (cb_scope b)) (operation_text U (cb_operation_id b)) 0 (cr_documents r)"
      unfolding results_of_def res filter_append by (auto simp: filter_id_conv dest: result_rows_key)
    have "keyed operation_key (db_operations db')" using assms(3) by (simp add: db_ok_def tables_ok_def table_ok_def)
    moreover have "operation_row_of U b digest n now \<in> set (db_operations db')"
      "operation_key (operation_row_of U b digest n now) = ?k"
      by (simp_all add: ops operation_row_of_def operation_key_def)
    ultimately have "load_operation U b digest db' =
        Inr (Some \<lparr>cr_commit_sequence = cr_commit_sequence r, cr_documents = cr_documents r, cr_replayed = True\<rparr>)"
      using load_operation_row [of db' "operation_row_of U b digest n now" U b digest] n len
      by (simp add: new sort_key_sorted result_rows_sorted result_rows_decode [OF assms(1) fits])
        (simp add: operation_row_of_def positive_u64_def)
    then show ?thesis by (cases r) simp
  qed
qed

text \<open>Whatever runs in between, a commit that took effect is found again with its result.\<close>

lemma commit_found_again:
  assumes "ulid_laws U" and "db_ok U db" and "batch_typed U b" and "apply_commit U clock b digest db = Inr (r, db')"
    and "list_all (\<lambda>x. op_typed U x \<and> \<not> resets U (project_text U (cb_scope b)) (environment_text U (cb_scope b)) x) later"
  shows "load_operation U b digest (run (store_step U sha256) later db') = Inr (Some (r\<lparr>cr_replayed := True\<rparr>))" (is ?found)
    and "cb_scope c = cb_scope b \<Longrightarrow> cb_operation_id c = cb_operation_id b \<Longrightarrow> d \<noteq> digest \<Longrightarrow>
      load_operation U c d (run (store_step U sha256) later db') = Inl OperationIdReused" (is "_ \<Longrightarrow> _ \<Longrightarrow> _ \<Longrightarrow> ?reused")
proof -
  let ?p = "project_text U (cb_scope b)" and ?e = "environment_text U (cb_scope b)"
  let ?db = "run (store_step U sha256) later db'"
  note machine = store_history_machine [OF assms(1), of sha256 ?p ?e]
  have ok': "db_ok U db'" by (rule apply_commit_ok [OF assms(1-4)])
  have ext: "extends ?p ?e db' ?db" by (rule monotone_machine.le_run [OF machine assms(5) ok'])
  have ok: "db_ok U ?db"
    by (rule invariant_machine.inv_run [OF monotone_machine.axioms(1) [OF machine] assms(5) ok'])
  have now: "load_operation U b digest db' = Inr (Some (r\<lparr>cr_replayed := True\<rparr>))"
    by (rule load_operation_committed [OF assms(1,2) ok' assms(4)])
  then have mem: "operation_id_key U b \<in> operation_key ` set (db_operations db')"
    using load_operation_None [of U b digest db'] by fastforce
  show ?found using load_operation_stable [OF ok' ok ext mem] now by metis
  assume c: "cb_scope c = cb_scope b" "cb_operation_id c = cb_operation_id b" "d \<noteq> digest"
  from mem obtain row where row: "row \<in> set (db_operations db')" "operation_key row = operation_id_key U b" by auto
  then have row': "row \<in> set (db_operations ?db)" using ext by (auto simp: extends_def operation_key_def)
  have keyed: "keyed operation_key (db_operations db')" "keyed operation_key (db_operations ?db)"
    using ok ok' by (simp_all add: db_ok_def tables_ok_def table_ok_def)
  have "pw_digest row = digest"
    using now load_operation_row [OF keyed(1) row, of digest] by (auto split: if_splits)
  then show ?reused
    using load_operation_row [OF keyed(2) row', of U c d] row(2) c by simp
qed

section \<open>Documents\<close>

fun mutation_expected :: "DocumentMutation \<Rightarrow> u64 option" where
  "mutation_expected (Upsert _ _ Absent _) = None"
| "mutation_expected (Upsert _ _ (Exact x) _) = Some x"
| "mutation_expected (DeleteDocument _ _ x) = Some x"

fun mutation_outcome :: "DocumentMutation \<Rightarrow> (u64 \<times> CanonicalValue) option" where
  "mutation_outcome (Upsert _ _ Absent v) = Some (1, v)"
| "mutation_outcome (Upsert _ _ (Exact x) v) = Some (x + 1, v)"
| "mutation_outcome (DeleteDocument _ _ _) = None"

definition document_lookup ::
    "ulid_crate \<Rightarrow> string \<Rightarrow> string \<Rightarrow> TableId \<times> DocumentId \<Rightarrow> database \<Rightarrow> document_row option" where
  "document_lookup U p e k db =
     sql_find (\<lambda>r. document_key r = (p, e, table_text U (fst k), document_text U (snd k))) (db_documents db)"

definition row_matches :: "ulid_crate \<Rightarrow> int \<Rightarrow> (u64 \<times> CanonicalValue) option \<Rightarrow> document_row option \<Rightarrow> bool" where
  "row_matches U n outcome r \<longleftrightarrow>
     (case outcome of
        None \<Rightarrow> r = None
      | Some (x, v) \<Rightarrow> \<exists>row. r = Some row \<and> dw_revision row = uint x \<and> dw_commit_sequence row = n \<and>
          encode_value U v = Inr (dw_value row))"

lemma document_texts_inject:
  assumes "ulid_laws U"
  shows "(table_text U t, document_text U d) = (table_text U t', document_text U d') \<longleftrightarrow> (t, d) = (t', d')"
  using id_inject [OF assms] by blast

lemma document_lookup_frame:
  assumes "ulid_laws U" and "mutation_key m \<noteq> k" and "apply_document U p e n now m db = Inr (x, db')"
  shows "document_lookup U p e k db' = document_lookup U p e k db"
proof -
  have other: "(p, e, table_text U t, document_text U d) \<noteq> (p, e, table_text U (fst k), document_text U (snd k))"
    if "mutation_key m = (t, d)" for t d
    using that assms(2) document_texts_inject [OF assms(1), of t d "fst k" "snd k"] by (cases k) auto
  from assms(3) show ?thesis
  proof (cases rule: apply_document_cases)
    case (insert t d v enc)
    then show ?thesis
      using other [of t d]
      by (auto simp: document_lookup_def sql_find_snoc new_document_row_def document_key_def mutation_key_def
          split: option.split)
  next
    case (update t d y v enc)
    have "sql_find (\<lambda>r. document_key r = (p, e, table_text U (fst k), document_text U (snd k))) (db_documents db') =
      map_option (\<lambda>r. if document_at U p e t d y r
         then r\<lparr>dw_revision := uint y + 1, dw_commit_sequence := n, dw_updated_at := now, dw_value := enc\<rparr> else r)
       (sql_find (\<lambda>r. document_key r = (p, e, table_text U (fst k), document_text U (snd k))) (db_documents db))"
      by (simp add: update(7), subst sql_find_update) (simp_all add: document_key_def)
    also have "\<dots> = sql_find (\<lambda>r. document_key r = (p, e, table_text U (fst k), document_text U (snd k))) (db_documents db)"
      using other [of t d] update(1) by (auto simp: mutation_key_def split: option.split dest!: sql_find_Some
          intro!: option.map_ident_strong)
    finally show ?thesis by (simp add: document_lookup_def)
  next
    case (delete t d y)
    have "sql_find (\<lambda>r. document_key r = (p, e, table_text U (fst k), document_text U (snd k)))
        (filter (\<lambda>r. \<not> document_at U p e t d y r) (db_documents db)) =
      sql_find (\<lambda>r. document_key r = (p, e, table_text U (fst k), document_text U (snd k))) (db_documents db)"
      by (rule sql_find_filter) (use other [of t d] delete(1) in \<open>auto simp: mutation_key_def\<close>)
    then show ?thesis by (simp add: document_lookup_def delete(6) sql_delete_def)
  qed
qed

lemma filter_one_find:
  assumes "keyed key t" and "length (filter (\<lambda>r. key r = k \<and> w r) t) = 1"
  shows "\<exists>r. sql_find (\<lambda>r. key r = k) t = Some r \<and> w r \<and> r \<in> set t \<and> key r = k"
proof -
  from assms(2) obtain r where "r \<in> set (filter (\<lambda>r. key r = k \<and> w r) t)"
    by (metis list.set_intros(1) length_greater_0_conv less_numeral_extra(1) neq_Nil_conv)
  then show ?thesis using sql_find_key [OF assms(1), of k r] by auto
qed

lemma document_lookup_target:
  assumes "ulid_laws U" and "keyed document_key (db_documents db)" and "apply_document U p e n now m db = Inr (x, db')"
  shows "map_option dw_revision (document_lookup U p e (mutation_key m) db) = map_option uint (mutation_expected m)"
    and "row_matches U n (mutation_outcome m) (document_lookup U p e (mutation_key m) db')"
proof -
  have "map_option dw_revision (document_lookup U p e (mutation_key m) db) = map_option uint (mutation_expected m) \<and>
    row_matches U n (mutation_outcome m) (document_lookup U p e (mutation_key m) db')"
    using assms(3)
  proof (cases rule: apply_document_cases)
    case (insert t d v enc)
    then have "document_lookup U p e (t, d) db = None"
      by (force simp: document_lookup_def sql_find_None new_document_row_def document_key_def)
    with insert show ?thesis
      by (auto simp: document_lookup_def sql_find_snoc mutation_key_def row_matches_def new_document_row_def
          document_key_def)
  next
    case (update t d y v enc)
    from filter_one_find [OF assms(2) update(5)] obtain r where
      r: "document_lookup U p e (t, d) db = Some r" "dw_revision r = uint y" "r \<in> set (db_documents db)"
        "document_key r = (p, e, table_text U t, document_text U d)"
      by (auto simp: document_lookup_def)
    have "document_lookup U p e (t, d) db' =
      map_option (\<lambda>r. if document_at U p e t d y r
         then r\<lparr>dw_revision := uint y + 1, dw_commit_sequence := n, dw_updated_at := now, dw_value := enc\<rparr> else r)
       (document_lookup U p e (t, d) db)"
      by (simp add: update(7) document_lookup_def, subst sql_find_update) (simp_all add: document_key_def)
    moreover have "uint (y + 1) = uint y + 1" using update(4) by (simp add: uint_plus_if')
    ultimately show ?thesis using update r by (simp add: mutation_key_def row_matches_def)
  next
    case (delete t d y)
    from filter_one_find [OF assms(2) delete(4)] obtain r where
      r: "document_lookup U p e (t, d) db = Some r" "dw_revision r = uint y" "r \<in> set (db_documents db)"
        "document_key r = (p, e, table_text U t, document_text U d)"
      by (auto simp: document_lookup_def)
    have "dw_revision s = uint y"
      if "s \<in> set (db_documents db)" "document_key s = (p, e, table_text U t, document_text U d)" for s
      using keyed_inj [OF assms(2) that(1) r(3)] that(2) r(2,4) by simp
    then have "document_lookup U p e (t, d) db' = None"
      unfolding delete(6) by (auto simp: document_lookup_def sql_find_None)
    with delete r show ?thesis by (simp add: mutation_key_def row_matches_def)
  qed
  then show "map_option dw_revision (document_lookup U p e (mutation_key m) db) = map_option uint (mutation_expected m)"
    "row_matches U n (mutation_outcome m) (document_lookup U p e (mutation_key m) db')" by blast+
qed

text \<open>The loop over the documents of a batch, whose targets are distinct.\<close>

lemma record_documents_lookup:
  assumes "ulid_laws U" and "tables_ok U bnd db" and "written bnd p e n" and "list_all document_mutation_ok ms"
    and "(p, e, op) \<in> operation_key ` set (db_operations db)" and "distinct (map mutation_key ms)"
    and "foldR (record_document U p e op n now) (rs, db) ms = Inr (rs', db')"
  shows "(\<forall>m \<in> set ms.
      map_option dw_revision (document_lookup U p e (mutation_key m) db) = map_option uint (mutation_expected m) \<and>
      row_matches U n (mutation_outcome m) (document_lookup U p e (mutation_key m) db')) \<and>
    (\<forall>k. k \<notin> mutation_key ` set ms \<longrightarrow> document_lookup U p e k db' = document_lookup U p e k db)"
  using assms(2,4-)
proof (induction ms arbitrary: rs db)
  case (Cons m ms)
  then obtain rs1 db1 where step: "record_document U p e op n now (rs, db) m = Inr (rs1, db1)"
    and rest: "foldR (record_document U p e op n now) (rs1, db1) ms = Inr (rs', db')" by auto
  from step obtain x dba where a: "apply_document U p e n now m db = Inr (x, dba)"
    and db1: "db_documents db1 = db_documents dba" by (rule record_document_cases) simp
  have same: "document_lookup U p e k db1 = document_lookup U p e k dba" for k
    by (simp add: document_lookup_def db1)
  from record_document_ok [OF assms(1) Cons.prems(1) assms(3) _ Cons.prems(3) step] Cons.prems(2)
  have ok: "tables_ok U bnd db1" "db_operations db1 = db_operations db" by simp_all
  have keyed: "keyed document_key (db_documents db)" using Cons.prems(1) by (simp add: tables_ok_def table_ok_def)
  note target = document_lookup_target [OF assms(1) keyed a]
  note frame = document_lookup_frame [OF assms(1) _ a]
  have "list_all document_mutation_ok ms" "(p, e, op) \<in> operation_key ` set (db_operations db1)"
    "distinct (map mutation_key ms)" using Cons.prems ok by simp_all
  note IH = Cons.IH [OF ok(1) this rest]
  have new: "mutation_key m \<notin> mutation_key ` set ms" using Cons.prems(4) by simp
  show ?case
  proof (intro conjI ballI allI impI)
    fix q
    assume q: "q \<in> set (m # ms)"
    show "map_option dw_revision (document_lookup U p e (mutation_key q) db) = map_option uint (mutation_expected q)"
    proof (cases "q = m")
      case False
      with q new have "mutation_key m \<noteq> mutation_key q" "q \<in> set ms" by auto
      then show ?thesis using IH frame [of "mutation_key q"] same by metis
    qed (use target in simp)
    show "row_matches U n (mutation_outcome q) (document_lookup U p e (mutation_key q) db')"
    proof (cases "q = m")
      case True
      then show ?thesis using IH new target(2) same by metis
    qed (use q IH in simp)
  next
    fix k
    assume "k \<notin> mutation_key ` set (m # ms)"
    then have "mutation_key m \<noteq> k" "k \<notin> mutation_key ` set ms" by auto
    then show "document_lookup U p e k db' = document_lookup U p e k db"
      using IH frame [of k] same by metis
  qed
qed simp

definition document_state ::
    "ulid_crate \<Rightarrow> EnvironmentScope \<Rightarrow> TableId \<times> DocumentId \<Rightarrow> database
     \<Rightarrow> StoreError + (u64 \<times> u64 \<times> CanonicalValue) option" where
  "document_state U scope k db =
     mapR (map_option (\<lambda>d. (dr_revision d, dr_commit_sequence d, dr_value d)))
       (get_document U scope (fst k) (snd k) db)"

lemma get_document_lookup:
  "get_document U scope (fst k) (snd k) db =
     (case document_lookup U (project_text U scope) (environment_text U scope) k db of
        None \<Rightarrow> Inr None | Some r \<Rightarrow> mapR Some (decode_document_row U r))"
  by (simp add: get_document_def document_lookup_def)

lemma document_lookup_decodes:
  assumes "db_ok U db" and "document_lookup U p e k db = Some r"
  shows "\<exists>x. decode_document_row U r = Inr x \<and> uint (dr_revision x) = dw_revision r"
proof -
  have "document_row_ok U (sequence_of (db_sequences db)) r"
    using assms sql_find_Some by (fastforce simp: document_lookup_def db_ok_def tables_ok_def table_ok_def)
  then show ?thesis
    by (auto simp: document_row_ok_def decode_document_row_def positive_u64_Inr uint_of_i64)
qed

lemma row_matches_state:
  assumes "ulid_laws U" and "db_ok U db" and "\<And>x v. outcome = Some (x, v) \<Longrightarrow> value_ok v" and "0 \<le> n" "n \<le> i64_max"
    and "row_matches U n outcome (document_lookup U (project_text U scope) (environment_text U scope) k db)"
  shows "document_state U scope k db = Inr (map_option (\<lambda>(x, v). (x, word_of_int n, v)) outcome)"
proof (cases outcome)
  case None
  with assms(6) show ?thesis by (simp add: row_matches_def document_state_def get_document_lookup)
next
  case (Some o1)
  then obtain x v where o: "outcome = Some (x, v)" by (cases o1) simp
  with assms(6) obtain row where
    row: "document_lookup U (project_text U scope) (environment_text U scope) k db = Some row"
      "dw_revision row = uint x" "dw_commit_sequence row = n" "encode_value U v = Inr (dw_value row)"
    by (auto simp: row_matches_def)
  from document_lookup_decodes [OF assms(2) row(1)] obtain d where d: "decode_document_row U row = Inr d"
    "uint (dr_revision d) = dw_revision row" by blast
  have "decode_value U (dw_value row) = Inr v"
    using decode_value_encode [OF assms(1) assms(3) [OF o] row(4)] .
  with d row have "dr_value d = v" "dr_commit_sequence d = word_of_int n" "dr_revision d = x"
    by (auto simp: decode_document_row_def positive_u64_Inr word_uint_eq_iff)
  with d row o show ?thesis by (simp add: document_state_def get_document_lookup)
qed

text \<open>The rows of the documents around a commit that is not a replay.\<close>

lemma commit_lookup:
  fixes U :: ulid_crate and b :: CommitBatch
  defines "p \<equiv> project_text U (cb_scope b)" and "e \<equiv> environment_text U (cb_scope b)"
  assumes "ulid_laws U" and "db_ok U db" and "batch_typed U b" and "distinct (map mutation_key (cb_documents b))"
    and "apply_commit U clock b digest db = Inr (r, db')" and "\<not> cr_replayed r"
  obtains n where "0 < n" "n \<le> i64_max" "cr_commit_sequence r = word_of_int n"
    "n = sequence_of (db_sequences db) p e + 1" "n = sequence_of (db_sequences db') p e"
    "\<And>m. m \<in> set (cb_documents b) \<Longrightarrow>
       map_option dw_revision (document_lookup U p e (mutation_key m) db) = map_option uint (mutation_expected m)"
    "\<And>m. m \<in> set (cb_documents b) \<Longrightarrow>
       row_matches U n (mutation_outcome m) (document_lookup U p e (mutation_key m) db')"
    "\<And>k. k \<notin> mutation_key ` set (cb_documents b) \<Longrightarrow> document_lookup U p e k db' = document_lookup U p e k db"
  using assms(7,8)
proof (rule apply_commit_effect)
  fix n sequences now db1
  let ?op = "operation_text U (cb_operation_id b)"
  let ?db0 = "db\<lparr>db_sequences := sequences, db_operations := db_operations db @ [operation_row_of U b digest n now]\<rparr>"
  let ?bnd = "sequence_of sequences"
  assume bump: "bump_sequence (project_text U (cb_scope b)) (environment_text U (cb_scope b)) (db_sequences db) =
      Inr (n, sequences)" and n: "0 < n"
    and cs: "cr_commit_sequence r = word_of_int n"
    and fold: "foldR (record_document U (project_text U (cb_scope b)) (environment_text U (cb_scope b)) ?op n now)
       ([], ?db0) (cb_documents b) = Inr (cr_documents r, db1)"
    and eff: "db_documents db' = db_documents db1" "db_sequences db' = sequences"
    and key: "operation_key (operation_row_of U b digest n now) \<notin> operation_key ` set (db_operations db)"
  have typed: "list_all document_mutation_ok (cb_documents b)" using assms(5) by (simp add: batch_typed_def)
  have seq: "table_ok sequence_key sequence_row_ok (db_sequences db)"
    using assms(4) by (simp add: db_ok_def tables_ok_def)
  note spec = bump_sequence_spec [OF seq bump [folded p_def e_def]]
  have w: "written ?bnd p e n" using spec(2) spec(4) [of p e] n by (simp add: written_def)
  have "tables_ok U ?bnd db"
    by (rule tables_ok_mono [OF assms(4) [unfolded db_ok_def]]) (use spec(1,4) in auto)
  then have start: "tables_ok U ?bnd ?db0"
    using spec(3) key w unfolding p_def e_def
    by (auto simp: tables_ok_def result_row_ok_def intro!: table_ok_snoc elim!: table_ok_mono)
      (simp add: operation_row_ok_def operation_row_of_def)
  have op: "(p, e, ?op) \<in> operation_key ` set (db_operations ?db0)"
    by (simp add: operation_row_of_def operation_key_def p_def e_def)
  note docs = record_documents_lookup [OF assms(3) start w typed op assms(6) fold [folded p_def e_def]]
  have same: "document_lookup U p e k ?db0 = document_lookup U p e k db"
    "document_lookup U p e k db' = document_lookup U p e k db1" for k
    by (simp_all add: document_lookup_def eff)
  show thesis
    by (rule that [OF n _ cs]) (use spec(1,2) spec(4) [of p e] eff(2) docs same in \<open>auto simp del: split_paired_All\<close>)
qed

lemma commit_documents:
  assumes "ulid_laws U" and "db_ok U db" and "batch_typed U b" and "distinct (map mutation_key (cb_documents b))"
    and "apply_commit U clock b digest db = Inr (r, db')" and "\<not> cr_replayed r"
  shows "m \<in> set (cb_documents b) \<Longrightarrow>
      mapR (map_option fst) (document_state U (cb_scope b) (mutation_key m) db) = Inr (mutation_expected m)"
    and "m \<in> set (cb_documents b) \<Longrightarrow>
      document_state U (cb_scope b) (mutation_key m) db' =
        Inr (map_option (\<lambda>(x, v). (x, cr_commit_sequence r, v)) (mutation_outcome m))"
    and "k \<notin> mutation_key ` set (cb_documents b) \<Longrightarrow>
      document_state U (cb_scope b) k db' = document_state U (cb_scope b) k db"
    and "uint (cr_commit_sequence r) =
      sequence_of (db_sequences db) (project_text U (cb_scope b)) (environment_text U (cb_scope b)) + 1"
    and "uint (cr_commit_sequence r) =
      sequence_of (db_sequences db') (project_text U (cb_scope b)) (environment_text U (cb_scope b))"
proof -
  let ?p = "project_text U (cb_scope b)" and ?e = "environment_text U (cb_scope b)"
  obtain n where n: "0 < n" "n \<le> i64_max" "cr_commit_sequence r = word_of_int n"
    "n = sequence_of (db_sequences db) ?p ?e + 1" "n = sequence_of (db_sequences db') ?p ?e"
    and rev: "\<And>m. m \<in> set (cb_documents b) \<Longrightarrow>
       map_option dw_revision (document_lookup U ?p ?e (mutation_key m) db) = map_option uint (mutation_expected m)"
    and new: "\<And>m. m \<in> set (cb_documents b) \<Longrightarrow>
       row_matches U n (mutation_outcome m) (document_lookup U ?p ?e (mutation_key m) db')"
    and frame: "\<And>k. k \<notin> mutation_key ` set (cb_documents b) \<Longrightarrow>
       document_lookup U ?p ?e k db' = document_lookup U ?p ?e k db" by (rule commit_lookup [OF assms]) blast
  have "uint (cr_commit_sequence r) = n" using n(1,2) by (simp add: n(3) uint_of_i64)
  then show "uint (cr_commit_sequence r) = sequence_of (db_sequences db) ?p ?e + 1"
    "uint (cr_commit_sequence r) = sequence_of (db_sequences db') ?p ?e" using n(4,5) by simp_all
  show "mapR (map_option fst) (document_state U (cb_scope b) (mutation_key m) db) = Inr (mutation_expected m)"
    if m: "m \<in> set (cb_documents b)"
  proof (cases "document_lookup U ?p ?e (mutation_key m) db")
    case None
    with rev [OF m] show ?thesis by (simp add: document_state_def get_document_lookup)
  next
    case (Some row)
    with rev [OF m] obtain x where x: "mutation_expected m = Some x" "uint x = dw_revision row"
      by (cases "mutation_expected m") auto
    from document_lookup_decodes [OF assms(2) Some] obtain d where "decode_document_row U row = Inr d"
      "uint (dr_revision d) = dw_revision row" by blast
    with x Some show ?thesis by (simp add: document_state_def get_document_lookup word_uint_eq_iff)
  qed
  show "document_state U (cb_scope b) (mutation_key m) db' =
      Inr (map_option (\<lambda>(x, v). (x, cr_commit_sequence r, v)) (mutation_outcome m))"
    if m: "m \<in> set (cb_documents b)"
  proof -
    have "value_ok v" if "mutation_outcome m = Some (x, v)" for x v
      using assms(3) m that by (cases m rule: mutation_outcome.cases) (auto simp: list_all_iff batch_typed_def)
    then show ?thesis
      using row_matches_state [OF assms(1) apply_commit_ok [OF assms(1,2,3,5)] _ _ n(2) new [OF m]] n(1,3) by simp
  qed
  show "document_state U (cb_scope b) k db' = document_state U (cb_scope b) k db"
    if "k \<notin> mutation_key ` set (cb_documents b)"
    using frame [OF that] by (simp add: document_state_def get_document_lookup)
qed

section \<open>Reads decode\<close>

lemma traverseR_total: "(\<And>x. x \<in> set xs \<Longrightarrow> \<exists>y. f x = Inr y) \<Longrightarrow> \<exists>ys. traverseR f xs = Inr ys"
  by (induction xs) auto

lemma db_ok_decodes:
  assumes "db_ok U db"
  shows "r \<in> set (db_documents db) \<Longrightarrow> \<exists>x. decode_document_row U r = Inr x"
    and "i \<in> set (db_indexes db) \<Longrightarrow> \<exists>x. decode_index_row U i = Inr x"
    and "v \<in> set (db_outbox db) \<Longrightarrow> \<exists>x. decode_value U (ow_payload v) = Inr x"
    and "s \<in> set (db_schedules db) \<Longrightarrow> \<exists>x. decode_schedule_row U s = Inr x"
  using assms
  by (auto simp: db_ok_def tables_ok_def table_ok_def document_row_ok_def index_row_ok_def outbox_row_ok_def
      schedule_row_ok_def decode_outbox_event_def)

lemma reads_total:
  assumes "db_ok U db"
  shows "\<exists>n. begin_read U scope db = Inr n" and "\<exists>x. get_document U scope t d db = Inr x"
    and "index_range_validate rng limit = Inr () \<Longrightarrow> \<exists>x. scan_index U scope i rng limit db = Inr x"
    and "\<exists>x. get_outbox U scope v db = Inr x" and "\<exists>x. get_scheduled U scope s db = Inr x"
    and "0 < limit \<Longrightarrow> limit \<le> 201 \<Longrightarrow> \<exists>x. list_scheduled U scope after limit db = Inr x"
proof -
  have "0 \<le> sequence_of (db_sequences db) (project_text U scope) (environment_text U scope)"
    using assms by (intro sequence_of_bounds) (simp add: db_ok_def tables_ok_def)
  then show "\<exists>n. begin_read U scope db = Inr n"
    by (auto simp: begin_read_def positive_or_zero_u64_def sequence_of_def split: option.splits)
  show "\<exists>x. get_document U scope t d db = Inr x"
    using db_ok_decodes(1) [OF assms] by (fastforce simp: get_document_def split: option.split dest: sql_find_Some)
  show "\<exists>x. get_outbox U scope v db = Inr x"
    using db_ok_decodes(3) [OF assms] by (fastforce simp: get_outbox_def split: option.split dest: sql_find_Some)
  show "\<exists>x. get_scheduled U scope s db = Inr x"
    using db_ok_decodes(4) [OF assms]
    by (fastforce simp: get_scheduled_def fetch_schedule_row_def split: option.split dest: sql_find_Some)
  show "\<exists>x. scan_index U scope i rng limit db = Inr x" if "index_range_validate rng limit = Inr ()"
    unfolding scan_index_def that bindR_simps
    by (rule traverseR_total) (use db_ok_decodes(2) [OF assms] in \<open>auto dest!: in_set_takeD\<close>)
  show "\<exists>x. list_scheduled U scope after limit db = Inr x" if "0 < limit" "limit \<le> 201"
    unfolding list_scheduled_def using that
    by (auto simp: not_less intro!: traverseR_total dest!: in_set_takeD db_ok_decodes(4) [OF assms])
qed

section \<open>Validated reads\<close>

lemma validated_reads:
  assumes "db_ok U db"
    and "validate_document_reads U (project_text U scope) (environment_text U scope) db as = Inr ()" and "a \<in> set as"
  shows "mapR (map_option fst) (document_state U scope (ra_table_id a, ra_document_id a) db) =
    Inr (ra_observed_revision a)"
proof -
  let ?l = "document_lookup U (project_text U scope) (environment_text U scope) (ra_table_id a, ra_document_id a) db"
  have "foldR (\<lambda>_. f) () xs = Inr () \<Longrightarrow> x \<in> set xs \<Longrightarrow> f x = Inr ()" for f :: "DocumentReadAssertion \<Rightarrow> StoreError + unit" and x xs
    by (induction xs) auto
  then have "validate_document_read U (project_text U scope) (environment_text U scope) db a = Inr ()"
    using assms(2,3) unfolding validate_document_reads_def by blast
  then have v: "(case ?l of None \<Rightarrow> Inr None | Some r \<Rightarrow> mapR Some (positive_u64 (dw_revision r))) =
      (Inr (ra_observed_revision a) :: StoreError + u64 option)"
    by (auto simp: validate_document_read_def document_lookup_def)
  show ?thesis
  proof (cases ?l)
    case None
    with v show ?thesis
      using get_document_lookup [of U scope "(ra_table_id a, ra_document_id a)" db] by (simp add: document_state_def)
  next
    case (Some r)
    from document_lookup_decodes [OF assms(1) Some] obtain x where
      x: "decode_document_row U r = Inr x" "uint (dr_revision x) = dw_revision r" by blast
    then have "dr_revision x = word_of_int (dw_revision r)" by (metis word_of_int_uint)
    with Some v x show ?thesis
      using get_document_lookup [of U scope "(ra_table_id a, ra_document_id a)" db]
      by (auto simp: document_state_def positive_u64_Inr)
  qed
qed

section \<open>Successful commits\<close>

lemma store_commit_Inr:
  assumes "store_commit U sha256 NoFault clock b db = (Inr r, db')"
  obtains digest where "commit_batch_digest U sha256 b = Inr digest" "apply_commit U clock b digest db = Inr (r, db')"
    "batch_valid U b"
proof -
  from assms obtain digest where d: "commit_batch_digest U sha256 b = Inr digest"
    by (auto simp: store_commit_def split: sum.splits)
  moreover have "apply_commit U clock b digest db = Inr (r, db')"
    using assms d by (auto simp: store_commit_def transaction_def split: sum.splits)
  moreover have "batch_valid U b"
    using d commit_batch_validate_Inr by (auto simp: commit_batch_digest_def)
  ultimately show thesis by (rule that)
qed

end
