(* ===== verification/Sqlite_Delivery.thy ===== *)
theory Sqlite_Delivery
  imports Sqlite_History
begin

text \<open>
  Delivery: the stream of outbox events seen by a consumer, the fencing of its leases, and the
  leases of scheduled invocations.
\<close>

section \<open>The stream of events\<close>

definition consumer_cursor ::
    "ulid_crate \<Rightarrow> EnvironmentScope \<Rightarrow> OutboxConsumerName \<Rightarrow> database \<Rightarrow> int \<times> string option" where
  "consumer_cursor U scope c db =
     (case sql_find (\<lambda>r. consumer_key r = (project_text U scope, environment_text U scope, c)) (db_consumers db) of
        None \<Rightarrow> (0, None)
      | Some r \<Rightarrow> (cw_cursor_sequence r, cw_cursor_event r))"

definition event_position :: "outbox_row \<Rightarrow> int \<times> string" where
  "event_position r = (ow_commit_sequence r, ow_event r)"

definition undelivered ::
    "ulid_crate \<Rightarrow> EnvironmentScope \<Rightarrow> OutboxConsumerName \<Rightarrow> database \<Rightarrow> outbox_row list" where
  "undelivered U scope c db =
     sql_select (\<lambda>r. ow_project r = project_text U scope \<and> ow_environment r = environment_text U scope \<and>
         after_cursor (fst (consumer_cursor U scope c db)) (snd (consumer_cursor U scope c db)) r)
       event_position (db_outbox db)"

definition scope_events :: "string \<Rightarrow> string \<Rightarrow> outbox_row list \<Rightarrow> outbox_row list" where
  "scope_events p e t = sql_select (\<lambda>r. ow_project r = p \<and> ow_environment r = e) event_position t"

lemma after_cursor_position:
  "after_cursor seq ev r \<longleftrightarrow> (seq, case ev of None \<Rightarrow> '''' | Some v \<Rightarrow> v) < event_position r"
  by (auto simp: after_cursor_def event_position_def)

lemma undelivered_filter:
  "undelivered U scope c db =
     filter (after_cursor (fst (consumer_cursor U scope c db)) (snd (consumer_cursor U scope c db)))
       (scope_events (project_text U scope) (environment_text U scope) (db_outbox db))"
  unfolding undelivered_def scope_events_def sql_select_def filter_sort filter_filter
  by (rule arg_cong [where f = "sort_key event_position"], rule filter_cong) auto

lemma undelivered_after:
  "undelivered U scope c db =
     filter (\<lambda>r. (fst (consumer_cursor U scope c db),
         case snd (consumer_cursor U scope c db) of None \<Rightarrow> '''' | Some v \<Rightarrow> v) < event_position r)
       (scope_events (project_text U scope) (environment_text U scope) (db_outbox db))"
  unfolding undelivered_filter by (rule filter_cong) (simp_all only: after_cursor_position)

lemma scope_events_strict:
  assumes "keyed outbox_key t"
  shows "sorted_wrt (<) (map event_position (scope_events p e t))"
proof -
  have "distinct (map event_position (filter (\<lambda>r. ow_project r = p \<and> ow_environment r = e) t))"
    using assms by (induction t) (auto simp: keyed_def event_position_def outbox_key_def image_iff)
  then have "distinct (map event_position (scope_events p e t))"
    unfolding scope_events_def sql_select_def distinct_map by simp
  then show ?thesis unfolding scope_events_def by (simp add: strict_sorted_iff)
qed

text \<open>Moving the cursor to the k-th undelivered event leaves exactly the later ones.\<close>

lemma filter_after_nth:
  fixes f :: "'a \<Rightarrow> 'b :: linorder"
  assumes "sorted_wrt (<) (map f xs)" and "k < length xs"
  shows "filter (\<lambda>x. f (xs ! k) < f x) xs = drop (Suc k) xs"
proof -
  have lt: "f (xs ! i) < f (xs ! j)" if "i < j" "j < length xs" for i j
    using assms(1) that by (simp add: sorted_wrt_iff_nth_less)
  have "filter (\<lambda>x. f (xs ! k) < f x) (take (Suc k) xs) = []"
  proof (rule filter_False, rule ballI)
    fix x
    assume "x \<in> set (take (Suc k) xs)"
    then obtain i where "i < Suc k" "x = xs ! i" using assms(2) by (auto simp: in_set_conv_nth)
    then show "\<not> f (xs ! k) < f x" using lt [of i k] assms(2) by (cases "i = k") (auto dest: less_asym)
  qed
  moreover have "filter (\<lambda>x. f (xs ! k) < f x) (drop (Suc k) xs) = drop (Suc k) xs"
    using lt [of k] by (intro filter_True) (auto simp: in_set_conv_nth)
  ultimately show ?thesis
    using append_take_drop_id [of "Suc k" xs] filter_append by (metis append_Nil)
qed

lemma filter_after_drop:
  fixes f :: "'a \<Rightarrow> 'b :: linorder"
  assumes "sorted_wrt (<) (map f xs)" and "ys = filter (\<lambda>x. c < f x) xs" and "k < length ys"
  shows "filter (\<lambda>x. f (ys ! k) < f x) xs = drop (Suc k) ys"
proof -
  have "c < f (ys ! k)" using assms(2,3) nth_mem [of k ys] by auto
  then have "filter (\<lambda>x. f (ys ! k) < f x) xs = filter (\<lambda>x. f (ys ! k) < f x) ys"
    unfolding assms(2) filter_filter by (intro filter_cong) auto
  moreover have "sorted_wrt (<) (map f ys)"
    using assms(1) unfolding assms(2) by (simp add: sorted_wrt_map sorted_wrt_filter)
  ultimately show ?thesis using filter_after_nth assms(3) by metis
qed

section \<open>Claiming events\<close>

lemma ensure_consumer_find:
  "\<exists>r. sql_find (\<lambda>r. consumer_key r = (p, e, c)) (ensure_consumer p e c now t) = Some r \<and>
    (cw_cursor_sequence r, cw_cursor_event r) =
      (case sql_find (\<lambda>r. consumer_key r = (p, e, c)) t of None \<Rightarrow> (0, None)
       | Some r \<Rightarrow> (cw_cursor_sequence r, cw_cursor_event r)) \<and>
    (\<forall>s. sql_find (\<lambda>r. consumer_key r = (p, e, c)) t = Some s \<longrightarrow> s = r)"
proof (cases "sql_find (\<lambda>r. consumer_key r = (p, e, c)) t")
  case None
  then have "(p, e, c) \<notin> consumer_key ` set t" by (force simp: sql_find_None)
  with None show ?thesis
    by (simp add: ensure_consumer_def sql_insert_ignore_def list_ex_same_key sql_find_snoc)
      (simp add: consumer_key_def)
next
  case (Some r)
  then have "(p, e, c) \<in> consumer_key ` set t" by (force dest: sql_find_Some)
  with Some show ?thesis
    by (simp add: ensure_consumer_def sql_insert_ignore_def list_ex_same_key) (simp add: consumer_key_def)
qed

lemma consumers_keyed: "db_ok U db \<Longrightarrow> keyed consumer_key (db_consumers db)"
  by (simp add: db_ok_def tables_ok_def table_ok_def)

text \<open>The consumer's row before and after a successful claim.\<close>

lemma claim_outbox_tx_effect:
  assumes "ulid_laws U" and "db_ok U db" and "claim_outbox_tx U scope c worker now lease_until limit db = Inr (b, db')"
  defines "here \<equiv> \<lambda>r. consumer_key r = (project_text U scope, environment_text U scope, c)"
  obtains row where
    "(cw_cursor_sequence row, cw_cursor_event row) = consumer_cursor U scope c db"
    "cw_lease_owner row = Some (worker_text U worker)" "cw_lease_generation row = uint (cob_lease_generation b)"
    "0 < cw_lease_generation row"
    "\<And>s. sql_find here (db_consumers db) = Some s \<Longrightarrow> cw_lease_generation row = cw_lease_generation s + 1"
    "sql_find here (db_consumers db') = Some
       (if cob_events b = [] then release_row (micros now) row
        else claimed_row (micros now) (uint (oe_commit_sequence (last (cob_events b))))
               (event_text U (oe_event_id (last (cob_events b)))) row)"
    "traverseR (decode_outbox_event U) (take (unat limit) (undelivered U scope c db)) = Inr (cob_events b)"
    "db_outbox db' = db_outbox db"
  using assms(3)
proof (rule claim_outbox_tx_cases)
  let ?p = "project_text U scope" and ?e = "environment_text U scope" and ?w = "worker_text U worker"
  let ?consumers = "ensure_consumer ?p ?e c (micros now) (db_consumers db)"
  let ?f = "lease_row ?w (micros now) (micros lease_until)"
  fix leased row rest cursor acknowledged events f
  assume 1: "sql_update_returning (\<lambda>r. consumer_key r = (?p, ?e, c) \<and> lease_free ?w (micros now) r) ?f ?consumers
      = Inr (row # rest, leased)"
    and 2: "positive_or_zero_u64 (cw_cursor_sequence row) = Inr cursor"
    and 3: "decode_optional_cursor U cursor (cw_cursor_event row) = Inr acknowledged"
    and 4: "traverseR (decode_outbox_event U) (pending_events ?p ?e (uint cursor)
        (map_option (\<lambda>c. event_text U (cursor_event_id c)) acknowledged) (unat limit) (db_outbox db)) = Inr events"
    and 5: "f = (if events = [] then release_row (micros now)
        else claimed_row (micros now) (uint (oe_commit_sequence (last events)))
               (event_text U (oe_event_id (last events))))"
    and 6: "cw_lease_generation row = uint (cob_lease_generation b)"
    and 7: "b = \<lparr>cob_lease_generation = cob_lease_generation b, cob_acknowledged_through = acknowledged,
          cob_events = events\<rparr>"
    and 8: "db' = db\<lparr>db_sequences := ensure_sequence ?p ?e (db_sequences db),
       db_consumers := snd (sql_update (\<lambda>r. consumer_key r = (?p, ?e, c)) f leased)\<rparr>"
  from 7 have events: "cob_events b = events" by (metis ClaimedOutboxBatch.select_convs(3))
  let ?w1 = "\<lambda>r. consumer_key r = (?p, ?e, c) \<and> lease_free ?w (micros now) r"
  obtain r0 where r0: "sql_find here ?consumers = Some r0"
    "(cw_cursor_sequence r0, cw_cursor_event r0) = consumer_cursor U scope c db"
    "\<And>s. sql_find here (db_consumers db) = Some s \<Longrightarrow> s = r0"
    using ensure_consumer_find [of ?p ?e c "micros now" "db_consumers db"]
    by (auto simp: here_def consumer_cursor_def)
  have keyed: "keyed consumer_key ?consumers"
    unfolding ensure_consumer_def by (intro keyed_insert_ignore consumers_keyed [OF assms(2)])
  from sql_update_returned [OF 1, of row] obtain s where s: "s \<in> set ?consumers" "?w1 s" "?f s = Inr row" by auto
  have "s = r0"
    using sql_find_Some [OF r0(1)] s keyed_inj [OF keyed s(1), of r0] by (simp add: here_def)
  then have lease: "?f r0 = Inr row" and free: "?w1 r0" using s by simp_all
  then have row: "(cw_cursor_sequence row, cw_cursor_event row) = consumer_cursor U scope c db"
    "cw_lease_owner row = Some ?w" "cw_lease_generation row = cw_lease_generation r0 + 1"
    using r0(2) by (auto simp: lease_row_def sql_succ_def split: if_splits)
  have keys: "consumer_key (projr (?f r)) = consumer_key r" if "r \<in> set ?consumers" "?w1 r" for r
    using 1 that lease_row_key [of ?w "micros now" "micros lease_until" r] by (auto simp: sql_update_returning_Inr)
  have "sql_find here leased = map_option (\<lambda>r. if ?w1 r then projr (?f r) else r) (sql_find here ?consumers)"
    using 1 keys sql_find_update [of ?consumers ?w1 consumer_key "\<lambda>r. projr (?f r)"]
    by (simp add: sql_update_returning_Inr here_def)
  then have found: "sql_find here leased = Some row" using r0(1) lease free by simp
  have "sql_find here (db_consumers db') = map_option (\<lambda>r. if here r then f r else r) (sql_find here leased)"
    using sql_find_update [of leased here consumer_key f] by (simp add: 8 here_def 5)
  then have after: "sql_find here (db_consumers db') = Some (f row)"
    using found sql_find_Some [OF found] by simp
  have r0_ok: "consumer_row_ok U (sequence_of (db_sequences db)) r0"
  proof -
    have "table_ok consumer_key (consumer_row_ok U (sequence_of (db_sequences db))) ?consumers"
      unfolding ensure_consumer_def
      by (intro table_intros) (use assms(2) in \<open>simp_all add: consumer_row_ok_def db_ok_def tables_ok_def\<close>)
    then show ?thesis using sql_find_Some [OF r0(1)] by (simp add: table_ok_def)
  qed
  note cursor = row_cursor_decodes [OF consumer_rows_ok(1) [OF r0_ok lease] 2 3]
  have "pending_events ?p ?e (cw_cursor_sequence row) (cw_cursor_event row) (unat limit) (db_outbox db) =
      take (unat limit) (undelivered U scope c db)"
    using row(1) by (cases "consumer_cursor U scope c db") (simp add: pending_events_def undelivered_def event_position_def [abs_def])
  with 4 cursor have delivered: "traverseR (decode_outbox_event U) (take (unat limit) (undelivered U scope c db)) = Inr events"
    by simp
  show thesis
    by (rule that [of row]) (use row 6 r0(3) r0_ok after delivered events 5 8 in \<open>auto simp: consumer_row_ok_def\<close>)
qed

section \<open>Acknowledging events\<close>

lemma owns_claim_filter:
  assumes "keyed consumer_key t" and "sql_find (\<lambda>r. consumer_key r = (project_text U scope, environment_text U scope, c)) t = Some r"
  shows "filter (owns_claim U scope c w g n v) t = (if owns_claim U scope c w g n v r then [r] else [])"
proof -
  have r: "r \<in> set t" "consumer_key r = (project_text U scope, environment_text U scope, c)"
    using sql_find_Some [OF assms(2)] by simp_all
  show ?thesis
  proof (cases "owns_claim U scope c w g n v r")
    case True
    then show ?thesis
      using filter_keyed [OF assms(1) r(1), of "owns_claim U scope c w g n v"] r(2) by (simp add: owns_claim_def)
  next
    case False
    have "\<not> owns_claim U scope c w g n v s" if "s \<in> set t" for s
      using False that keyed_inj [OF assms(1) that r(1)] r(2) by (auto simp: owns_claim_def)
    with False show ?thesis by (simp add: filter_empty_conv)
  qed
qed

lemma last_taken:
  assumes "take n xs \<noteq> []"
  shows "last (take n xs) = xs ! (length (take n xs) - 1)" and "length (take n xs) - 1 < length xs"
proof -
  have "0 < length (take n xs)" using assms by blast
  then show "length (take n xs) - 1 < length xs" by (auto simp only: length_take)
  then show "last (take n xs) = xs ! (length (take n xs) - 1)"
    using assms \<open>0 < length (take n xs)\<close> by (subst last_conv_nth) auto
qed

lemma claim_then_ack:
  assumes "ulid_laws U" and "db_ok U db" and "claim_outbox_tx U scope c worker now lease_until limit db = Inr (b, db1)"
    and "cob_events b \<noteq> []"
  shows "\<exists>db2. ack_outbox_tx U (Inr t) scope c worker (cob_lease_generation b)
      (outbox_event_cursor (last (cob_events b))) db1 = Inr ((), db2) \<and>
    undelivered U scope c db2 = drop (length (cob_events b)) (undelivered U scope c db)"
  using assms(1-3)
proof (rule claim_outbox_tx_effect)
  let ?p = "project_text U scope" and ?e = "environment_text U scope"
  let ?here = "\<lambda>r. consumer_key r = (?p, ?e, c)" and ?x = "last (cob_events b)"
  let ?n = "uint (oe_commit_sequence ?x)" and ?v = "event_text U (oe_event_id ?x)"
  let ?rows = "take (unat limit) (undelivered U scope c db)"
  let ?owns = "owns_claim U scope c worker (uint (cob_lease_generation b)) ?n ?v"
  fix row
  assume 1: "(cw_cursor_sequence row, cw_cursor_event row) = consumer_cursor U scope c db"
    and 2: "cw_lease_owner row = Some (worker_text U worker)" "cw_lease_generation row = uint (cob_lease_generation b)"
      "0 < cw_lease_generation row"
    and 3: "sql_find ?here (db_consumers db1) = Some
       (if cob_events b = [] then release_row (micros now) row else claimed_row (micros now) ?n ?v row)"
    and 4: "traverseR (decode_outbox_event U) ?rows = Inr (cob_events b)" and 5: "db_outbox db1 = db_outbox db"
  from traverseR_last [OF 4 assms(4)] have ne: "?rows \<noteq> []" and dec: "decode_outbox_event U (last ?rows) = Inr ?x" by blast+
  have len: "length (cob_events b) = length ?rows"
    using list_all2_lengthD [OF 4 [unfolded traverseR_Inr]] by (rule sym)
  have "last ?rows \<in> set (undelivered U scope c db)" using ne by (metis last_in_set in_set_takeD)
  then have mem: "last ?rows \<in> set (db_outbox db)" by (simp add: undelivered_def)
  then have w: "0 < ow_commit_sequence (last ?rows)" "ow_commit_sequence (last ?rows) \<le> i64_max"
    using assms(2) by (auto simp: db_ok_def tables_ok_def table_ok_def outbox_row_ok_def written_def)
  have ev: "ow_event (last ?rows) = ?v" "ow_commit_sequence (last ?rows) = ?n"
    using decode_outbox_event_fields [OF dec] w by simp_all
  have db1: "db_ok U db1" by (rule claim_outbox_tx_ok [OF assms(1-3)])
  have found: "sql_find ?here (db_consumers db1) = Some (claimed_row (micros now) ?n ?v row)" using 3 assms(4) by simp
  then have row_ok: "consumer_row_ok U (sequence_of (db_sequences db1)) (claimed_row (micros now) ?n ?v row)"
    using db1 sql_find_Some [OF found] by (simp add: db_ok_def tables_ok_def table_ok_def)
  have key: "consumer_key row = (?p, ?e, c)" using sql_find_Some [OF found] by simp
  have owns: "?owns (claimed_row (micros now) ?n ?v row)"
    using key 2 by (simp add: owns_claim_def claimed_row_def consumer_key_def)
  define db2 where "db2 = db1\<lparr>db_consumers := snd (sql_update ?owns (ack_row t ?n ?v) (db_consumers db1))\<rparr>"
  have "fst (sql_update ?owns (ack_row t ?n ?v) (db_consumers db1)) = 1"
    using owns_claim_filter [OF consumers_keyed [OF db1] found] owns by (simp add: sql_update_def)
  moreover have "cob_lease_generation b \<noteq> 0" "uint (cob_lease_generation b) \<le> i64_max"
    "oe_commit_sequence ?x \<noteq> 0" "?n \<le> i64_max"
    using 2 row_ok w ev by (auto simp: consumer_row_ok_def claimed_row_def)
  ultimately have ack: "ack_outbox_tx U (Inr t) scope c worker (cob_lease_generation b) (outbox_event_cursor ?x) db1 = Inr ((), db2)"
    unfolding ack_outbox_tx_Inr by (simp add: outbox_event_cursor_def db2_def)
  have "sql_find ?here (db_consumers db2) =
      map_option (\<lambda>r. if ?owns r then ack_row t ?n ?v r else r) (sql_find ?here (db_consumers db1))"
    using sql_find_update [of "db_consumers db1" ?owns consumer_key "ack_row t ?n ?v"] by (simp add: db2_def)
  then have "consumer_cursor U scope c db2 = (?n, Some ?v)"
    using found owns by (simp add: consumer_cursor_def ack_row_def)
  moreover have "scope_events ?p ?e (db_outbox db2) = scope_events ?p ?e (db_outbox db)" by (simp add: db2_def 5)
  moreover have "after_cursor ?n (Some ?v) = (\<lambda>r. event_position (last ?rows) < event_position r)"
    by (rule ext) (simp add: after_cursor_position event_position_def [of "last ?rows"] ev)
  ultimately have "undelivered U scope c db2 =
      filter (\<lambda>r. event_position (last ?rows) < event_position r) (scope_events ?p ?e (db_outbox db))"
    by (simp add: undelivered_filter [of U scope c db2])
  also have "\<dots> = drop (Suc (length ?rows - 1)) (undelivered U scope c db)"
    unfolding last_taken(1) [OF ne]
    by (rule filter_after_drop [OF scope_events_strict [of "db_outbox db" ?p ?e] undelivered_after last_taken(2) [OF ne]])
      (use assms(2) in \<open>simp add: db_ok_def tables_ok_def table_ok_def\<close>)
  finally show ?thesis using ack ne len by auto
qed

section \<open>Fencing\<close>

lemma transaction_error:
  assumes "\<And>x db'. body db \<noteq> Inr (x, db')"
  shows "\<exists>err. transaction fault commit_error body db = (Inl err, db)"
proof (cases "body db")
  case (Inl err)
  then show ?thesis by (cases fault) (simp_all add: transaction_def)
next
  case (Inr y)
  with assms show ?thesis by (cases y) auto
qed

lemma extends_consumer:
  assumes "db_ok U db'" and "extends (project_text U scope) (environment_text U scope) db db'"
    and "sql_find (\<lambda>r. consumer_key r = (project_text U scope, environment_text U scope, c)) (db_consumers db) = Some r"
  shows "\<exists>s. sql_find (\<lambda>r. consumer_key r = (project_text U scope, environment_text U scope, c)) (db_consumers db') = Some s \<and>
    cw_lease_generation r \<le> cw_lease_generation s"
proof -
  have r: "r \<in> set (db_consumers db)" "consumer_key r = (project_text U scope, environment_text U scope, c)"
    using sql_find_Some [OF assms(3)] by simp_all
  with assms(2) obtain s where "s \<in> set (db_consumers db')" "consumer_advances r s"
    unfolding extends_def by (auto simp: consumer_key_def)
  then show ?thesis
    using r sql_find_key [OF consumers_keyed [OF assms(1)]] by (auto simp: consumer_advances_def)
qed

lemma stale_ack:
  assumes "db_ok U db"
    and "sql_find (\<lambda>r. consumer_key r = (project_text U scope, environment_text U scope, c)) (db_consumers db) = Some r"
    and "uint g < cw_lease_generation r"
  shows "\<exists>err. ack_outbox U fault clock scope c w g through db = (Inl err, db)"
proof -
  have "\<not> owns_claim U scope c w (uint g) n v r" for n v using assms(3) by (auto simp: owns_claim_def)
  then have "filter (owns_claim U scope c w (uint g) n v) (db_consumers db) = []" for n v
    using owns_claim_filter [OF consumers_keyed [OF assms(1)] assms(2)] by simp
  then have "ack_outbox_tx U clock scope c w g through db \<noteq> Inr (x, db')" for x db'
    unfolding ack_outbox_tx_Inr by (simp add: sql_update_def)
  then have "\<exists>err. transaction fault map_commit_error (ack_outbox_tx U clock scope c w g through) db = (Inl err, db)"
    by (rule transaction_error)
  then show ?thesis by (simp add: ack_outbox_def)
qed

lemma claim_outbox_Inr:
  assumes "claim_outbox U fault scope c w now lease limit db = (Inr b, db')"
  shows "claim_outbox_tx U scope c w now lease limit db = Inr (b, db')"
  using assms by (auto simp: claim_outbox_def transaction_def split: if_splits tx_fault.splits sum.splits)

section \<open>Leases of scheduled invocations\<close>

lemma decode_schedule_generation:
  assumes "decode_schedule_row U row = Inr rec" and "schedule_row_ok U bnd row"
  shows "uint (si_lease_generation rec) = sw_lease_generation row" and "sw_scheduled row = schedule_text U (si_id rec)"
    and "uint (si_attempts rec) = sw_attempts row" and "si_status rec = Running \<longleftrightarrow> sw_status row = ''running''"
    and "sw_lease_owner row = map_option (worker_text U) (si_lease_owner rec)"
  using assms
  by (auto simp: decode_schedule_row_def schedule_row_ok_def positive_or_zero_u64_Inr positive_or_zero_u32_def
      uint_word_of_int take_bit_int_eq_self parse_status_def decode_lease_owner_def
      split: if_splits option.splits dest: parse_id_Inr)

definition lease_at :: "ulid_crate \<Rightarrow> EnvironmentScope \<Rightarrow> ScheduledInvocationId \<Rightarrow> database \<Rightarrow> int" where
  "lease_at U scope i db =
     (case fetch_schedule_row (project_text U scope) (environment_text U scope) (schedule_text U i) db of
        None \<Rightarrow> 0 | Some r \<Rightarrow> sw_lease_generation r)"

lemma schedules_keyed: "db_ok U db \<Longrightarrow> keyed schedule_key (db_schedules db)"
  by (simp add: db_ok_def tables_ok_def table_ok_def)

lemma extends_lease:
  assumes "db_ok U db" and "db_ok U db'" and "extends (project_text U scope) (environment_text U scope) db db'"
  shows "lease_at U scope i db \<le> lease_at U scope i db'"
proof (cases "fetch_schedule_row (project_text U scope) (environment_text U scope) (schedule_text U i) db")
  case None
  have "0 \<le> lease_at U scope i db'"
  proof (cases "fetch_schedule_row (project_text U scope) (environment_text U scope) (schedule_text U i) db'")
    case (Some s)
    then have "schedule_row_ok U (sequence_of (db_sequences db')) s"
      using assms(2) sql_find_Some by (fastforce simp: fetch_schedule_row_def db_ok_def tables_ok_def table_ok_def)
    then show ?thesis
      using Some by (auto simp: lease_at_def schedule_row_ok_def decode_schedule_row_def positive_or_zero_u64_Inr)
  qed (simp add: lease_at_def)
  with None show ?thesis by (simp add: lease_at_def)
next
  case (Some r)
  then have r: "r \<in> set (db_schedules db)"
    "schedule_key r = (project_text U scope, environment_text U scope, schedule_text U i)"
    by (auto simp: fetch_schedule_row_def dest: sql_find_Some)
  with assms(3) obtain s where s: "s \<in> set (db_schedules db')" "schedule_advances r s"
    unfolding extends_def by (auto simp: schedule_key_def)
  then have "fetch_schedule_row (project_text U scope) (environment_text U scope) (schedule_text U i) db' = Some s"
    unfolding fetch_schedule_row_def sql_find_key [OF schedules_keyed [OF assms(2)]]
    using r(2) by (simp add: schedule_advances_def)
  with Some s(2) show ?thesis by (simp add: lease_at_def schedule_advances_def)
qed

lemma claim_one_lease:
  assumes "db_ok U x" and "db_ok U y"
    and "claim_one U (project_text U scope) (environment_text U scope) w now until (rs, x) i = Inr (rs', y)"
  obtains rec where "rs' = rs @ [rec]" "i = schedule_text U (si_id rec)"
    "lease_at U scope (si_id rec) x < uint (si_lease_generation rec)"
    "uint (si_lease_generation rec) = lease_at U scope (si_id rec) y"
  using assms(3)
proof (rule claim_one_cases)
  let ?p = "project_text U scope" and ?e = "environment_text U scope"
  fix rows t row rec
  assume 1: "sql_update_returning (\<lambda>r. schedule_key r = (?p, ?e, i)) (claim_row w now until) (db_schedules x) = Inr (rows, t)"
    and 2: "y = x\<lparr>db_schedules := t\<rparr>" and 3: "sql_find (\<lambda>r. schedule_key r = (?p, ?e, i)) t = Some row"
    and 4: "decode_schedule_row U row = Inr rec" and 5: "rs' = rs @ [rec]"
  have row: "row \<in> set (db_schedules y)" "schedule_key row = (?p, ?e, i)" using sql_find_Some [OF 3] by (simp_all add: 2)
  then have row_ok: "schedule_row_ok U (sequence_of (db_sequences y)) row"
    using assms(2) by (simp add: db_ok_def tables_ok_def table_ok_def)
  note dec = decode_schedule_generation [OF 4 row_ok]
  have i: "i = schedule_text U (si_id rec)" using dec(2) row(2) by (simp add: schedule_key_def)
  have gen: "uint (si_lease_generation rec) = lease_at U scope (si_id rec) y"
    using 3 dec(1) i by (simp add: lease_at_def fetch_schedule_row_def 2)
  from 1 have t: "t = snd (sql_update (\<lambda>r. schedule_key r = (?p, ?e, i)) (\<lambda>r. projr (claim_row w now until r)) (db_schedules x))"
    and ex: "\<And>r. r \<in> set (db_schedules x) \<Longrightarrow> schedule_key r = (?p, ?e, i) \<Longrightarrow> \<exists>s. claim_row w now until r = Inr s"
    by (simp_all add: sql_update_returning_Inr)
  have "\<And>r. r \<in> set (db_schedules x) \<Longrightarrow> schedule_key r = (?p, ?e, i) \<Longrightarrow> schedule_key (projr (claim_row w now until r)) = schedule_key r"
    using ex by (force dest: claim_row_fields(1))
  then have "sql_find (\<lambda>r. schedule_key r = (?p, ?e, i)) t =
      map_option (\<lambda>r. if schedule_key r = (?p, ?e, i) then projr (claim_row w now until r) else r)
        (sql_find (\<lambda>r. schedule_key r = (?p, ?e, i)) (db_schedules x))"
    unfolding t by (rule sql_find_update)
  with 3 obtain r where r: "sql_find (\<lambda>r. schedule_key r = (?p, ?e, i)) (db_schedules x) = Some r"
    "row = (if schedule_key r = (?p, ?e, i) then projr (claim_row w now until r) else r)" by auto
  have mem: "r \<in> set (db_schedules x)" "schedule_key r = (?p, ?e, i)" using sql_find_Some [OF r(1)] by simp_all
  obtain s where "claim_row w now until r = Inr s" using ex [OF mem] by blast
  then have "sw_lease_generation row = sw_lease_generation r + 1"
    using r(2) mem by (simp add: claim_row_fields(10))
  then have "lease_at U scope (si_id rec) x < uint (si_lease_generation rec)"
    using r(1) dec(1) i by (simp add: lease_at_def fetch_schedule_row_def)
  with 5 i gen show thesis by (intro that)
qed

lemma claim_due_leases:
  assumes "db_ok U db" and "claim_due_scheduled_tx U scope w now until limit db = Inr (recs, db')"
    and "rec \<in> set recs"
  shows "lease_at U scope (si_id rec) db < uint (si_lease_generation rec)"
    and "uint (si_lease_generation rec) \<le> lease_at U scope (si_id rec) db'"
proof -
  let ?p = "project_text U scope" and ?e = "environment_text U scope"
  define Q where "Q rs x \<longleftrightarrow> db_ok U x \<and> (\<forall>rec \<in> set rs. lease_at U scope (si_id rec) db < uint (si_lease_generation rec) \<and>
    uint (si_lease_generation rec) \<le> lease_at U scope (si_id rec) x)" for rs :: "ScheduledInvocationRecord list" and x
  have "db_ok U db' \<and> extends ?p ?e db db' \<and> Q recs db'"
    using assms(1,2)
  proof (rule claim_due_induct)
    show "Q [] db" using assms(1) by (simp add: Q_def)
    fix rs x i rs' y
    assume x: "db_ok U x" "extends ?p ?e db x" "extends ?p ?e x y" "Q rs x"
      and one: "claim_one U ?p ?e (worker_text U w) (micros now) (micros until) (rs, x) i = Inr (rs', y)"
    have y: "db_ok U y" using claim_one_ok [OF _ one] x(1) unfolding db_ok_def by metis
    from x(1) y one show "Q rs' y"
    proof (rule claim_one_lease)
      fix r1
      assume "rs' = rs @ [r1]" "lease_at U scope (si_id r1) x < uint (si_lease_generation r1)"
        "uint (si_lease_generation r1) = lease_at U scope (si_id r1) y"
      then show ?thesis
        using x(4) y extends_lease [OF assms(1) x(1,2), of "si_id r1"] extends_lease [OF x(1) y x(3)]
        unfolding Q_def by (auto intro: order_trans)
    qed
  qed
  then show "lease_at U scope (si_id rec) db < uint (si_lease_generation rec)"
    "uint (si_lease_generation rec) \<le> lease_at U scope (si_id rec) db'"
    using assms(3) by (auto simp: Q_def)
qed

lemma stale_completion:
  assumes "db_ok U db" and "uint g < lease_at U scope i db"
  shows "\<exists>err. complete_scheduled U fault clock scope i w g completion db = (Inl err, db)"
proof -
  have "\<not> owns_lease U scope i w (uint g) r" if "r \<in> set (db_schedules db)" for r
  proof
    assume own: "owns_lease U scope i w (uint g) r"
    then have "fetch_schedule_row (project_text U scope) (environment_text U scope) (schedule_text U i) db = Some r"
      using sql_find_key [OF schedules_keyed [OF assms(1)]] that by (simp add: fetch_schedule_row_def owns_lease_def)
    with own assms(2) show False by (simp add: lease_at_def owns_lease_def)
  qed
  then have "filter (owns_lease U scope i w (uint g)) (db_schedules db) = []" by (simp add: filter_empty_conv)
  then have none: "fst (complete_schedule_update U scope i w (uint g) completion now db) = 0" for now
    by (simp add: complete_schedule_update_def sql_update_def)
  show ?thesis
  proof (cases "bindR (validate_completion completion) (\<lambda>_. bindR (positive_i64 g) (\<lambda>generation.
      bindR clock (\<lambda>now. Inr (generation, now))))")
    case (Inl err)
    then show ?thesis by (simp add: complete_scheduled_def)
  next
    case (Inr gn)
    then obtain now where gn: "gn = (uint g, now)" by (auto simp: positive_i64_Inr)
    show ?thesis
      unfolding complete_scheduled_def Inr gn sum.case prod.case
      by (rule transaction_error) (simp add: split_beta none)
  qed
qed

lemma claim_due_Inr:
  assumes "claim_due_scheduled U fault scope w now lease limit db = (Inr recs, db')"
  shows "claim_due_scheduled_tx U scope w now lease limit db = Inr (recs, db')"
  using assms by (auto simp: claim_due_scheduled_def transaction_def split: if_splits tx_fault.splits sum.splits)

section \<open>Due invocations are claimed\<close>

lemma sql_update_returning_keyed:
  assumes "keyed key t" and "r \<in> set t" and "key r = k" and "f r = Inr s" and "key s = k"
  obtains rows t' where "sql_update_returning (\<lambda>r. key r = k) f t = Inr (rows, t')"
    "sql_find (\<lambda>r. key r = k) t' = Some s"
    "\<And>k'. k' \<noteq> k \<Longrightarrow> sql_find (\<lambda>r. key r = k') t' = sql_find (\<lambda>r. key r = k') t"
proof -
  have only: "q = r" if "q \<in> set t" "key q = k" for q using keyed_inj [OF assms(1) that(1) assms(2)] that assms(3) by simp
  let ?t' = "snd (sql_update (\<lambda>r. key r = k) (\<lambda>r. projr (f r)) t)"
  have upd: "sql_update_returning (\<lambda>r. key r = k) f t = Inr (map (\<lambda>r. projr (f r)) (filter (\<lambda>r. key r = k) t), ?t')"
    unfolding sql_update_returning_Inr using only assms(4) by auto
  have find: "sql_find (\<lambda>r. key r = k') ?t' = map_option (\<lambda>r. if key r = k then projr (f r) else r) (sql_find (\<lambda>r. key r = k') t)" for k'
    by (rule sql_find_update) (use only assms(4,5) in auto)
  have "sql_find (\<lambda>r. key r = k) t = Some r" using assms(1-3) by (simp add: sql_find_key)
  then have "sql_find (\<lambda>r. key r = k) ?t' = Some s" using find [of k] assms(3,4) by simp
  moreover have "sql_find (\<lambda>r. key r = k') ?t' = sql_find (\<lambda>r. key r = k') t" if "k' \<noteq> k" for k'
    using find [of k'] that sql_find_Some [of "\<lambda>r. key r = k'" t] by (cases "sql_find (\<lambda>r. key r = k') t") auto
  ultimately show thesis using that upd by blast
qed

definition claimable_at :: "string \<Rightarrow> string \<Rightarrow> string \<Rightarrow> database \<Rightarrow> bool" where
  "claimable_at p e i db \<longleftrightarrow>
     (\<exists>r. sql_find (\<lambda>r. schedule_key r = (p, e, i)) (db_schedules db) = Some r \<and> sw_attempts r < 2 ^ 32 - 1)"

definition runs_for :: "ulid_crate \<Rightarrow> WorkerId \<Rightarrow> string \<Rightarrow> ScheduledInvocationRecord \<Rightarrow> bool" where
  "runs_for U w i rec \<longleftrightarrow>
     schedule_text U (si_id rec) = i \<and> si_status rec = Running \<and> si_lease_owner rec = Some w \<and>
     uint (si_attempts rec) = uint (si_lease_generation rec)"

lemma claim_one_succeeds:
  assumes "ulid_laws U" and "db_ok U x" and "claimable_at p e i x"
  obtains rec y where "claim_one U p e (worker_text U w) now until (rs, x) i = Inr (rs @ [rec], y)"
    "runs_for U w i rec" "db_ok U y" "\<And>j. j \<noteq> i \<Longrightarrow> claimable_at p e j x \<Longrightarrow> claimable_at p e j y"
proof -
  let ?k = "(p, e, i)"
  from assms(3) obtain r where r: "sql_find (\<lambda>r. schedule_key r = ?k) (db_schedules x) = Some r" "sw_attempts r < 2 ^ 32 - 1"
    by (auto simp: claimable_at_def)
  then have mem: "r \<in> set (db_schedules x)" "schedule_key r = ?k" by (auto dest: sql_find_Some)
  then have row: "schedule_row_ok U (sequence_of (db_sequences x)) r"
    using assms(2) by (simp add: db_ok_def tables_ok_def table_ok_def)
  then have gen: "sw_lease_generation r = sw_attempts r" "0 \<le> sw_attempts r"
    by (auto simp: schedule_row_ok_def decode_schedule_row_def positive_or_zero_u32_def split: if_splits)
  let ?s = "r\<lparr>sw_status := ''running'', sw_attempts := sw_attempts r + 1, sw_lease_generation := sw_lease_generation r + 1,
     sw_lease_owner := Some (worker_text U w), sw_lease_until := Some until, sw_updated_at := now\<rparr>"
  have claim: "claim_row (worker_text U w) now until r = Inr ?s"
    using r(2) gen by (simp add: claim_row_def sql_succ_def)
  have words: "uint (word_of_int (sw_attempts r + 1) :: u32) = uint (word_of_int (sw_attempts r + 1) :: u64)"
  proof -
    have "uint (word_of_int m :: u32) = uint (word_of_int m :: u64)" if "0 \<le> m" "m < 2 ^ 32" for m
      using that by (simp add: unsigned_of_int take_bit_int_eq_self)
    from this [of "sw_attempts r + 1"] show ?thesis using r(2) gen(2) by simp
  qed
  obtain rec where rec: "decode_schedule_row U ?s = Inr rec" "runs_for U w i rec"
    using row r(2) gen mem(2) assms(1) parse_id_Inr [of U "''sch_''" i] words
    by (auto simp: schedule_row_ok_def decode_schedule_row_def decode_lease_owner_def parse_status_def runs_for_def
        positive_or_zero_u32_def positive_or_zero_u64_def schedule_key_def split: if_splits)
  have "schedule_key ?s = ?k" using mem(2) by (simp add: schedule_key_def)
  with schedules_keyed [OF assms(2)] mem claim obtain rows t' where
    t': "sql_update_returning (\<lambda>r. schedule_key r = ?k) (claim_row (worker_text U w) now until) (db_schedules x) = Inr (rows, t')"
      "sql_find (\<lambda>r. schedule_key r = ?k) t' = Some ?s"
      "\<And>k'. k' \<noteq> ?k \<Longrightarrow> sql_find (\<lambda>r. schedule_key r = k') t' = sql_find (\<lambda>r. schedule_key r = k') (db_schedules x)"
    by (rule sql_update_returning_keyed) blast
  have one: "claim_one U p e (worker_text U w) now until (rs, x) i = Inr (rs @ [rec], x\<lparr>db_schedules := t'\<rparr>)"
    using t'(1,2) rec(1) by (simp add: claim_one_def fetch_schedule_row_def)
  have "db_ok U (x\<lparr>db_schedules := t'\<rparr>)"
    using claim_one_ok [OF _ one] assms(2) unfolding db_ok_def by metis
  moreover have "claimable_at p e j (x\<lparr>db_schedules := t'\<rparr>)" if "j \<noteq> i" "claimable_at p e j x" for j
    using that t'(3) [of "(p, e, j)"] by (simp add: claimable_at_def)
  ultimately show thesis using that one rec(2) by blast
qed

lemma claims_succeed:
  assumes "ulid_laws U" and "db_ok U x" and "distinct ids" and "\<And>i. i \<in> set ids \<Longrightarrow> claimable_at p e i x"
  shows "\<exists>recs y. foldR (claim_one U p e (worker_text U w) now until) (rs, x) ids = Inr (rs @ recs, y) \<and>
    list_all2 (runs_for U w) ids recs"
  using assms(2-)
proof (induction ids arbitrary: rs x)
  case (Cons i ids)
  then have "claimable_at p e i x" by simp
  with assms(1) Cons.prems(1) obtain rec y where
    y: "claim_one U p e (worker_text U w) now until (rs, x) i = Inr (rs @ [rec], y)" "runs_for U w i rec" "db_ok U y"
      "\<And>j. j \<noteq> i \<Longrightarrow> claimable_at p e j x \<Longrightarrow> claimable_at p e j y"
    by (rule claim_one_succeeds [where w = w and now = now and until = until and rs = rs]) blast
  have "claimable_at p e j y" if "j \<in> set ids" for j
    using Cons.prems(2,3) that by (intro y(4)) auto
  with Cons.IH [OF y(3), of "rs @ [rec]"] Cons.prems(2) obtain recs z where
    "foldR (claim_one U p e (worker_text U w) now until) (rs @ [rec], y) ids = Inr ((rs @ [rec]) @ recs, z)"
    "list_all2 (runs_for U w) ids recs" by auto
  with y(1,2) show ?case by (intro exI [of _ "rec # recs"] exI [of _ z]) simp
qed simp

lemma due_ids_distinct:
  assumes "keyed schedule_key t"
  shows "distinct (due_ids p e now limit t)"
proof -
  let ?sel = "filter (\<lambda>r. sw_project r = p \<and> sw_environment r = e \<and> claimable now r) t"
  have "inj_on sw_scheduled (set ?sel)"
    using keyed_inj [OF assms] by (auto simp: inj_on_def schedule_key_def)
  moreover have "distinct ?sel" using keyed_distinct [OF assms] by simp
  ultimately have "distinct (map sw_scheduled (sql_select (\<lambda>r. sw_project r = p \<and> sw_environment r = e \<and> claimable now r)
      (\<lambda>r. (sw_execute_at r, sw_scheduled r)) t))"
    by (simp add: distinct_map sql_select_def)
  then show ?thesis unfolding due_ids_def take_map [symmetric] by (rule distinct_take)
qed

lemma due_claimed:
  assumes "ulid_laws U" and "db_ok U db" and "\<forall>r \<in> set (db_schedules db). sw_attempts r < 2 ^ 32 - 1"
  shows "\<exists>recs db'. claim_due_scheduled_tx U scope w now until limit db = Inr (recs, db') \<and>
    list_all2 (runs_for U w)
      (due_ids (project_text U scope) (environment_text U scope) (micros now) (unat limit) (db_schedules db)) recs"
proof -
  let ?p = "project_text U scope" and ?e = "environment_text U scope"
  have "claimable_at ?p ?e i db" if "i \<in> set (due_ids ?p ?e (micros now) (unat limit) (db_schedules db))" for i
    using due_ids_claimable [OF that] assms(3) sql_find_key [OF schedules_keyed [OF assms(2)]]
    unfolding claimable_at_def by metis
  then show ?thesis
    using claims_succeed [OF assms(1,2) due_ids_distinct [OF schedules_keyed [OF assms(2)]], where rs = "[]"]
    unfolding claim_due_scheduled_tx_def Let_def by simp
qed

end
