(* ===== verification/Store_Sample.thy ===== *)
theory Store_Sample
  imports Sqlite_Semantics Sqlite_Delivery Value_Properties
begin

text \<open>
  A concrete run of the embedded store: one commit with a document, an index entry, an outbox event
  and a scheduled invocation, and what the database holds after it.
\<close>

definition sample_scope :: EnvironmentScope where
  "sample_scope = \<lparr>scope_project = 1, scope_environment = 2\<rparr>"

definition other_scope :: EnvironmentScope where
  "other_scope = \<lparr>scope_project = 1, scope_environment = 3\<rparr>"

definition sample_schedule :: ScheduledInvocationInsert where
  "sample_schedule =
     \<lparr>sc_id = 8, sc_pinned_code = PinnedRelease 9, sc_function = ''run'', sc_args = Null,
      sc_execute_at = 10, sc_idempotency_key = Some ''k''\<rparr>"

definition sample_batch :: CommitBatch where
  "sample_batch =
     \<lparr>cb_scope = sample_scope, cb_operation_id = 3, cb_reads = [],
      cb_documents = [Upsert 4 5 Absent sample_value], cb_indexes = [PutIndex 6 sample_key 4 5 1],
      cb_outbox = [\<lparr>oa_event_id = 7, oa_payload = Null\<rparr>], cb_schedules = [sample_schedule],
      cb_intent_context = None\<rparr>"

definition sample_sha :: "bytes \<Rightarrow> bytes" where
  "sample_sha bs = bs"

definition sample_result :: CommitResult where
  "sample_result =
     \<lparr>cr_commit_sequence = 1,
      cr_documents = [\<lparr>drr_table_id = 4, drr_document_id = 5, drr_revision = Some 1\<rparr>], cr_replayed = False\<rparr>"

abbreviation sample_U :: ulid_crate where
  "sample_U \<equiv> crockford_ulid"

abbreviation sample_bytes :: bytes where
  "sample_bytes \<equiv>
     [0x52, 0x56, 1, 0x31, 0, 0, 0, 2, 0, 1, 97, 0x30, 0, 0, 0, 2, 2, 0, 0, 1, 98, 0x20, 0, 0, 0, 1, 120]"

abbreviation null_bytes :: bytes where
  "null_bytes \<equiv> [0x52, 0x56, 1, 0]"

lemma null_encodes: "encode_stored_value crockford_ulid Null = Inr null_bytes"
  by (simp add: encode_stored_value_Inr stored_limits stored_tags STORED_MAGIC_def STORED_VALUE_FORMAT_VERSION_def)

definition sample_document_row :: document_row where
  "sample_document_row = new_document_row sample_U (project_text sample_U sample_scope)
     (environment_text sample_U sample_scope) 4 5 1 0 sample_bytes"

definition sample_outbox_row :: outbox_row where
  "sample_outbox_row =
     \<lparr>ow_project = project_text sample_U sample_scope, ow_environment = environment_text sample_U sample_scope,
      ow_event = event_text sample_U 7, ow_commit_sequence = 1, ow_payload = null_bytes, ow_created_at = 0\<rparr>"

definition sample_schedule_row :: schedule_row where
  "sample_schedule_row =
     \<lparr>sw_project = project_text sample_U sample_scope, sw_environment = environment_text sample_U sample_scope,
      sw_scheduled = schedule_text sample_U 8,
      sw_pinned_code = pinned_code_to_string sample_U (PinnedRelease 9), sw_function = ''run'',
      sw_args = null_bytes, sw_execute_at = 10, sw_status = ''pending'', sw_attempts = 0,
      sw_lease_generation = 0, sw_lease_owner = None, sw_lease_until = None, sw_idempotency_key = Some ''k'',
      sw_last_error_code = None, sw_commit_sequence = 1, sw_created_at = 0, sw_updated_at = 0\<rparr>"

definition sample_digest :: bytes where
  "sample_digest = batch_bytes sample_U sample_batch"

definition sample_database :: database where
  "sample_database =
     \<lparr>db_sequences = [\<lparr>ew_project = project_text sample_U sample_scope,
        ew_environment = environment_text sample_U sample_scope, ew_commit_sequence = 1\<rparr>],
      db_operations = [operation_row_of sample_U sample_batch sample_digest 1 0],
      db_results = [result_row_of sample_U (project_text sample_U sample_scope)
        (environment_text sample_U sample_scope) (operation_text sample_U 3) 0
        \<lparr>drr_table_id = 4, drr_document_id = 5, drr_revision = Some 1\<rparr>],
      db_documents = [sample_document_row],
      db_indexes = [\<lparr>iw_project = project_text sample_U sample_scope,
        iw_environment = environment_text sample_U sample_scope, iw_index = index_text sample_U 6,
        iw_key = encoded sample_key, iw_table = table_text sample_U 4, iw_document = document_text sample_U 5,
        iw_document_revision = 1, iw_commit_sequence = 1\<rparr>],
      db_outbox = [sample_outbox_row], db_schedules = [sample_schedule_row], db_consumers = []\<rparr>"

lemma sample_batch_typed: "batch_typed sample_U sample_batch"
  using sample_value_ok sample_key_ok
  by (simp add: batch_typed_def sample_batch_def sample_schedule_def outbox_append_ok_def schedule_insert_ok_def
      function_name_from_str_def FUNCTION_NAME_MAX_BYTES_def function_name_tail_char_def ascii_defs)

lemma sample_batch_valid: "commit_batch_validate sample_U sample_batch = Inr ()"
  by (simp add: commit_batch_validate_def sample_batch_def sample_schedule_def batch_over_limits_def COMMIT_LIMITS_V1_def
      check_document_def check_index_def check_event_def check_schedule_def payload_bytes_def add_value_def
      add_payload_def encode_value_def sample_value_encodes null_encodes sample_key_def checked_add_usize_def
      MAX_INTENT_CONTEXT_BYTES_def)

lemma sample_batch_digest: "commit_batch_digest sample_U sample_sha sample_batch = Inr sample_digest"
  using digest_of_valid [OF crockford_laws sample_batch_typed sample_batch_valid, of sample_sha]
  by (simp add: sample_sha_def sample_digest_def)

lemmas sample_store_defs = sample_database_def sample_document_row_def sample_outbox_row_def sample_schedule_row_def
  sample_result_def operation_row_of_def result_row_of_def new_document_row_def

lemma sample_apply:
  "apply_commit sample_U (Inr 0) sample_batch sample_digest empty_database = Inr (sample_result, sample_database)"
  by (simp add: apply_commit_def load_operation_def validate_document_reads_def bump_sequence_def
      empty_database_def sql_find_def Let_def sample_batch_def sample_schedule_def positive_u64_def sql_insert_def
      record_document_def encode_value_def sample_value_encodes null_encodes positive_i64_def sql_insert_ignore_def
      put_index_entry_def apply_event_def apply_schedule_def sample_store_defs document_key_def micros_def
      del: bindR_Inr mapR_Inr)

lemma sample_commit:
  "store_commit sample_U sample_sha NoFault (Inr 0) sample_batch empty_database = (Inr sample_result, sample_database)"
  by (simp add: store_commit_def sample_batch_digest transaction_def sample_apply)

lemma sample_ok: "db_ok sample_U sample_database"
  by (rule apply_commit_ok [OF crockford_laws empty_database_ok sample_batch_typed sample_apply])

definition sample_claimed :: ClaimedOutboxBatch where
  "sample_claimed =
     \<lparr>cob_lease_generation = 1, cob_acknowledged_through = None,
      cob_events = [\<lparr>oe_event_id = 7, oe_commit_sequence = 1, oe_payload = Null\<rparr>]\<rparr>"

lemma null_decodes: "decode_value sample_U null_bytes = Inr Null"
  using decode_value_encode [OF crockford_laws, of Null null_bytes] null_encodes by (simp add: encode_value_def)

lemma sample_event_decodes:
  "decode_outbox_event sample_U sample_outbox_row = Inr \<lparr>oe_event_id = 7, oe_commit_sequence = 1, oe_payload = Null\<rparr>"
  using parse_id_text [OF crockford_laws, of "''evt_''" 7]
  by (simp add: sample_outbox_row_def decode_outbox_event_def null_decodes positive_u64_def)

definition sample_claim_database :: database where
  "sample_claim_database = snd (claim_outbox sample_U NoFault sample_scope ''c'' 11 0 100 10 sample_database)"

lemma sample_pending:
  "pending_events (project_text sample_U sample_scope) (environment_text sample_U sample_scope) 0 None 10
     [sample_outbox_row] = [sample_outbox_row]"
  by (simp add: pending_events_def sql_select_def after_cursor_def sample_outbox_row_def)

lemma sample_claim:
  "claim_outbox sample_U NoFault sample_scope ''c'' 11 0 100 10 sample_database = (Inr sample_claimed, sample_claim_database)"
proof -
  have "fst (claim_outbox sample_U NoFault sample_scope ''c'' 11 0 100 10 sample_database) = Inr sample_claimed"
    by (simp add: claim_outbox_def claim_outbox_tx_def Let_def micros_def transaction_def sample_database_def
        ensure_consumer_def sql_insert_ignore_def sql_update_returning_def consumer_key_def lease_free_def lease_row_def
        sql_succ_def positive_or_zero_u64_def decode_optional_cursor_def nonnegative_i64_def sample_pending
        sample_event_decodes positive_i64_def positive_u64_def sample_claimed_def del: bindR_Inr mapR_Inr)
  then show ?thesis by (simp add: sample_claim_database_def prod_eq_iff)
qed

definition sample_lease_row :: "int \<Rightarrow> int \<Rightarrow> int \<Rightarrow> schedule_row" where
  "sample_lease_row n now until =
     sample_schedule_row\<lparr>sw_status := ''running'', sw_attempts := n, sw_lease_generation := n,
       sw_lease_owner := Some (worker_text sample_U 11), sw_lease_until := Some until, sw_updated_at := now\<rparr>"

definition sample_lease_record :: "u32 \<Rightarrow> u64 \<Rightarrow> int \<Rightarrow> ScheduledInvocationRecord" where
  "sample_lease_record n g until =
     \<lparr>si_id = 8, si_pinned_code = PinnedRelease 9, si_function = ''run'', si_args = Null, si_execute_at = 10,
      si_status = Running, si_attempts = n, si_lease_generation = g, si_lease_owner = Some 11,
      si_lease_until = Some (timestamp until), si_idempotency_key = Some ''k'', si_last_error_code = None,
      si_commit_sequence = 1\<rparr>"

definition sample_lease_database :: "int \<Rightarrow> int \<Rightarrow> int \<Rightarrow> database" where
  "sample_lease_database n now until = sample_database\<lparr>db_schedules := [sample_lease_row n now until]\<rparr>"

lemma sample_lease_decodes:
  assumes "0 \<le> n" "n \<le> 100"
  shows "decode_schedule_row sample_U (sample_lease_row n now until) =
    Inr (sample_lease_record (word_of_int n) (word_of_int n) until)"
proof -
  have "function_name_from_str ''run'' = Inr ''run''"
    by (simp add: function_name_from_str_def FUNCTION_NAME_MAX_BYTES_def function_name_tail_char_def ascii_defs)
  moreover have "pinned_code_from_str sample_U (pinned_code_to_string sample_U (PinnedRelease 9)) = Inr (PinnedRelease 9)"
    using pinned_code_from_str_Inr [OF crockford_laws] by simp
  ultimately show ?thesis
    using assms parse_id_text [OF crockford_laws, of "''wrk_''" 11] parse_id_text [OF crockford_laws, of "''sch_''" 8]
    by (simp add: sample_lease_row_def sample_schedule_row_def decode_schedule_row_def decode_lease_owner_def
        parse_status_def positive_or_zero_u32_def positive_or_zero_u64_def positive_u64_def null_decodes
        sample_lease_record_def timestamp_def del: bindR_Inr mapR_Inr pinned_code_to_string.simps)
qed

lemma sample_due:
  "due_ids (project_text sample_U sample_scope) (environment_text sample_U sample_scope) 20 5 [sample_schedule_row]
     = [schedule_text sample_U 8]"
  "due_ids (project_text sample_U sample_scope) (environment_text sample_U sample_scope) 40 5 [sample_lease_row 1 20 30]
     = [schedule_text sample_U 8]"
  by (simp_all add: due_ids_def sql_select_def claimable_def sample_lease_row_def sample_schedule_row_def)

lemma sample_lease:
  "claim_due_scheduled sample_U NoFault sample_scope 11 20 30 5 sample_database =
     (Inr [sample_lease_record 1 1 30], sample_lease_database 1 20 30)"
  "claim_due_scheduled sample_U NoFault sample_scope 11 40 50 5 (sample_lease_database 1 20 30) =
     (Inr [sample_lease_record 2 2 50], sample_lease_database 2 40 50)"
proof -
  have row: "claim_row (worker_text sample_U 11) 20 30 sample_schedule_row = Inr (sample_lease_row 1 20 30)"
    "claim_row (worker_text sample_U 11) 40 50 (sample_lease_row 1 20 30) = Inr (sample_lease_row 2 40 50)"
    by (simp_all add: claim_row_def sql_succ_def sample_lease_row_def sample_schedule_row_def)
  have key: "schedule_key sample_schedule_row =
      (project_text sample_U sample_scope, environment_text sample_U sample_scope, schedule_text sample_U 8)"
    "schedule_key (sample_lease_row n now until) =
      (project_text sample_U sample_scope, environment_text sample_U sample_scope, schedule_text sample_U 8)" for n now until
    by (simp_all add: sample_lease_row_def sample_schedule_row_def schedule_key_def)
  show "claim_due_scheduled sample_U NoFault sample_scope 11 20 30 5 sample_database =
     (Inr [sample_lease_record 1 1 30], sample_lease_database 1 20 30)"
    using sample_lease_decodes [of 1 20 30]
    by (simp add: claim_due_scheduled_def claim_due_scheduled_tx_def transaction_def micros_def sample_database_def
        sample_due Let_def sample_lease_database_def claim_one_def sql_update_returning_def row key fetch_schedule_row_def
        sql_find_def del: bindR_Inr mapR_Inr)
  show "claim_due_scheduled sample_U NoFault sample_scope 11 40 50 5 (sample_lease_database 1 20 30) =
     (Inr [sample_lease_record 2 2 50], sample_lease_database 2 40 50)"
    using sample_lease_decodes [of 2 40 50]
    by (simp add: claim_due_scheduled_def claim_due_scheduled_tx_def transaction_def micros_def sample_database_def
        sample_due Let_def sample_lease_database_def claim_one_def sql_update_returning_def row key fetch_schedule_row_def
        sql_find_def del: bindR_Inr mapR_Inr)
qed

end
