(* ===== verification/Sql_Order.thy ===== *)
theory Sql_Order
  imports Sql_Table "HOL-Library.Multiset"
begin

text \<open>
  What \<open>SELECT .. WHERE .. ORDER BY .. LIMIT\<close> returns, said of the table: the first rows, in the order
  asked for, among exactly the rows that satisfy the condition.
\<close>

definition first_rows :: "('r \<Rightarrow> bool) \<Rightarrow> ('r \<Rightarrow> 'o :: linorder) \<Rightarrow> nat \<Rightarrow> 'r list \<Rightarrow> 'r list \<Rightarrow> bool" where
  "first_rows w order n t rows \<longleftrightarrow>
     (\<exists>rest. mset (rows @ rest) = mset (filter w t) \<and> sorted (map order (rows @ rest)) \<and>
        length rows \<le> n \<and> (rest = [] \<or> length rows = n))"

lemma first_rows_select: "first_rows w order n t (take n (sql_select w order t))"
  unfolding first_rows_def
proof (intro exI conjI)
  let ?sel = "sql_select w order t"
  show "mset (take n ?sel @ drop n ?sel) = mset (filter w t)"
    unfolding append_take_drop_id by (simp add: sql_select_def)
  show "sorted (map order (take n ?sel @ drop n ?sel))"
    unfolding append_take_drop_id by (rule sorted_sql_select)
qed auto

lemma first_rows_member: "first_rows w order n t rows \<Longrightarrow> r \<in> set rows \<Longrightarrow> r \<in> set t \<and> w r"
proof -
  assume "first_rows w order n t rows" and r: "r \<in> set rows"
  then obtain rest where "mset (rows @ rest) = mset (filter w t)" unfolding first_rows_def by blast
  from mset_eq_setD [OF this] r show ?thesis by auto
qed

lemma first_rows_left_out:
  assumes "first_rows w order n t rows" and "r \<in> set t" and "w r" and "r \<notin> set rows"
  shows "length rows = n \<and> (\<forall>q \<in> set rows. order q \<le> order r)"
proof -
  from assms(1) obtain rest where rest: "mset (rows @ rest) = mset (filter w t)" "sorted (map order (rows @ rest))"
    "rest = [] \<or> length rows = n" by (auto simp: first_rows_def)
  have "r \<in> set rest" using mset_eq_setD [OF rest(1)] assms(2-4) by auto
  with rest(2,3) show ?thesis by (auto simp: sorted_append)
qed

end
