(* ===== verification/Data_Properties.thy ===== *)
theory Data_Properties
  imports Store_Sample Sql_Order
begin

text \<open>
  The properties of commit batches and index scans: what a batch must satisfy, what its digest
  identifies, and which entries a scan returns.
\<close>

section \<open>Batches\<close>

text \<open>
  C19 (batch validation): the checks made before a transaction opens accept exactly the batches that
  write something; hold at most 10000 reads, 1000 documents, 10000 index entries, 100 events and 100
  schedules; carry an intent context of 1 to 1024 bytes, if any; expect no revision zero; name every
  read, document, index entry, event, schedule and schedule key once, keys of 1 to 128 bytes; and
  whose values are all encodable and take, with the index keys, at most 8 MiB (\<open>batch_valid\<close> spells
  these numbers and guards out).
\<close>

theorem batch_validation:
  "commit_batch_validate U b = Inr () \<longleftrightarrow> batch_valid U b"
  by (rule commit_batch_validate_Inr)

theorem batch_validation_witness:
  "batch_valid sample_U sample_batch \<and> \<not> batch_valid sample_U (sample_batch\<lparr>cb_intent_context := Some []\<rparr>) \<and>
   commit_batch_validate sample_U (sample_batch\<lparr>cb_intent_context := Some []\<rparr>) \<noteq> Inr ()"
  using batch_validation [of sample_U sample_batch] sample_batch_valid
    batch_validation [of sample_U "sample_batch\<lparr>cb_intent_context := Some []\<rparr>"]
  by (simp add: batch_valid_def)

text \<open>
  C20 (digests identify content): the bytes hashed for two valid batches are equal exactly when the
  batches agree in everything but the operation identifier, so two different batches share a digest
  only by a collision of the hash function.
\<close>

theorem digest_identifies_content:
  assumes "ulid_laws U" and "batch_typed U b" and "batch_typed U c"
    and "commit_batch_validate U b = Inr ()" and "commit_batch_validate U c = Inr ()"
  shows "\<exists>x y. (\<forall>sha256. commit_batch_digest U sha256 b = Inr (sha256 x) \<and> commit_batch_digest U sha256 c = Inr (sha256 y)) \<and>
    (x = y \<longleftrightarrow> same_content b c)"
  using digest_of_valid [OF assms(1,2,4)] digest_of_valid [OF assms(1,3,5)]
    batch_bytes_inject [OF assms(1) valid_batch_fits [OF assms(4,2)] valid_batch_fits [OF assms(5,3)]]
    same_content_parts [of b c]
  by blast

theorem digest_identifies_content_witness:
  "commit_batch_validate sample_U sample_batch = Inr () \<and>
   (\<exists>x. \<forall>sha256. commit_batch_digest sample_U sha256 sample_batch = Inr (sha256 x))"
  using digest_identifies_content [OF crockford_laws sample_batch_typed sample_batch_typed sample_batch_valid sample_batch_valid]
    sample_batch_valid by blast

section \<open>Index scans\<close>

text \<open>
  C21 (refused ranges are empty): a range is refused, at a legal limit, only when no key lies in it.
\<close>

theorem refused_range_empty:
  assumes "0 < limit" and "limit \<le> 1000" and "index_range_validate r limit = Inl err"
  shows "err = InvalidRange \<and> (\<forall>k. \<not> in_range r k)"
  using refused_range [OF assms(3)] assms(1,2) by (auto simp: not_less)

theorem refused_range_empty_witness:
  "index_range_validate \<lparr>range_lower = Exclusive [1], range_upper = Inclusive [1]\<rparr> 5 = Inl InvalidRange \<and>
   (\<forall>k. \<not> in_range \<lparr>range_lower = Exclusive [1], range_upper = Inclusive [1]\<rparr> k)"
proof -
  have v: "index_range_validate \<lparr>range_lower = Exclusive [1], range_upper = Inclusive [1]\<rparr> 5 = Inl InvalidRange"
    by (simp add: index_range_validate_def failR_def)
  have "0 < (5 :: u32)" "(5 :: u32) \<le> 1000" by simp_all
  from refused_range_empty [OF this v] v show ?thesis by blast
qed

text \<open>What a range admits and what an entry shows of its row.\<close>

definition range_admits :: "IndexRange \<Rightarrow> bytes \<Rightarrow> bool" where
  "range_admits rng k \<longleftrightarrow>
     (case range_lower rng of Unbounded \<Rightarrow> True | Inclusive lo \<Rightarrow> lo \<le> k | Exclusive lo \<Rightarrow> lo < k) \<and>
     (case range_upper rng of Unbounded \<Rightarrow> True | Inclusive up \<Rightarrow> k \<le> up | Exclusive up \<Rightarrow> k < up)"

definition entry_of_row :: "ulid_crate \<Rightarrow> index_row \<Rightarrow> IndexEntry \<Rightarrow> bool" where
  "entry_of_row U r x \<longleftrightarrow>
     index_text U (ie_index_id x) = iw_index r \<and> encoded (ie_key x) = iw_key r \<and>
     index_key_encode U (components (ie_key x)) = Inr (ie_key x) \<and>
     table_text U (ie_table_id x) = iw_table r \<and> document_text U (ie_document_id x) = iw_document r \<and>
     ie_document_revision x = word_of_int (iw_document_revision r) \<and> ie_commit_sequence x = word_of_int (iw_commit_sequence r)"

lemma range_admits_bounds: "range_admits rng k \<longleftrightarrow> above_lower (range_lower rng) k \<and> below_upper (range_upper rng) k"
  by (cases "range_lower rng"; cases "range_upper rng") (simp_all add: range_admits_def)

lemma decode_index_row_entry:
  assumes "ulid_laws U" and "decode_index_row U r = Inr x"
  shows "entry_of_row U r x"
  using assms(2) index_key_decode_iff [OF assms(1)]
  by (auto simp: decode_index_row_def entry_of_row_def positive_u64_Inr dest: parse_id_Inr)

text \<open>
  C22 (index scans): the entries a scan returns decode, field by field and in order, the first
  \<open>limit\<close> rows, in the order of key and document, among exactly the rows of the table that have the
  scope's Project and Environment, the given index and a key the range admits. Rows are left out only
  when \<open>limit\<close> entries are returned.
\<close>

theorem index_scan_exact:
  assumes "ulid_laws U" and "scan_index U scope i rng limit db = Inr es"
  shows "\<exists>rows. first_rows (\<lambda>r. iw_project r = project_text U scope \<and> iw_environment r = environment_text U scope \<and>
        iw_index r = index_text U i \<and> range_admits rng (iw_key r))
      (\<lambda>r. (iw_key r, iw_document r)) (unat limit) (db_indexes db) rows \<and>
    list_all2 (entry_of_row U) rows es"
proof -
  let ?w = "\<lambda>r. iw_project r = project_text U scope \<and> iw_environment r = environment_text U scope \<and>
    iw_index r = index_text U i \<and> range_admits rng (iw_key r)"
  let ?rows = "take (unat limit) (sql_select ?w (\<lambda>r. (iw_key r, iw_document r)) (db_indexes db))"
  from assms(2) have "list_all2 (\<lambda>r x. decode_index_row U r = Inr x) ?rows es"
    by (simp add: scan_index_def traverseR_Inr range_admits_bounds)
  then have "list_all2 (entry_of_row U) ?rows es"
    by (rule list_all2_mono) (rule decode_index_row_entry [OF assms(1)])
  then show ?thesis using first_rows_select by blast
qed

lemma sample_scan:
  "\<exists>x. scan_index sample_U sample_scope 6 index_range_all 10 sample_database = Inr [x] \<and> ie_document_id x = 5"
proof -
  have "index_key_decode sample_U (encoded sample_key) = Inr sample_key"
    using sample_key_ok index_key_decode_iff [OF crockford_laws] by (auto simp: index_key_ok_def)
  then show ?thesis
    using parse_id_text [OF crockford_laws, of "''idx_''" 6] parse_id_text [OF crockford_laws, of "''tbl_''" 4]
      parse_id_text [OF crockford_laws, of "''doc_''" 5]
    by (simp add: scan_index_def index_range_validate_def index_range_all_def sample_database_def sql_select_def
        decode_index_row_def positive_u64_def del: bindR_Inr mapR_Inr)
qed

theorem index_scan_exact_witness:
  "\<exists>es rows. scan_index sample_U sample_scope 6 index_range_all 10 sample_database = Inr es \<and> es \<noteq> [] \<and>
     rows = db_indexes sample_database \<and> list_all2 (entry_of_row sample_U) rows es"
proof -
  obtain x where x: "scan_index sample_U sample_scope 6 index_range_all 10 sample_database = Inr [x]"
    using sample_scan by blast
  obtain row where row: "db_indexes sample_database = [row]" by (simp add: sample_database_def)
  from index_scan_exact [OF crockford_laws x] obtain rows where
    rows: "\<forall>r \<in> set rows. r \<in> set (db_indexes sample_database)" "list_all2 (entry_of_row sample_U) rows [x]"
    by (blast dest: first_rows_member)
  then have "rows = [row]" unfolding row list_all2_Cons2 list_all2_Nil2 by auto
  with rows(2) x row show ?thesis by auto
qed

end
