(* ===== verification/Sqlite_Snapshot.thy ===== *)
theory Sqlite_Snapshot
  imports Sqlite_Semantics
begin

text \<open>
  The calls of \<open>SqliteStore::begin_read\<close> and of \<open>ReadSnapshot for SqliteSnapshot\<close>, with the errors of the database: every
  statement of a call may fail with an error of \<open>sqlx\<close>, given as an input, and what it selects and decodes
  otherwise is modelled in \<open>Sqlite_Store\<close>. The transaction of a snapshot holds the database as it was
  when the snapshot was opened. The counters of the telemetry recorder are left out.
\<close>

record SqliteSnapshot =
  sq_transaction :: "database option"
  sq_scope :: EnvironmentScope
  sq_sequence :: u64

text \<open>An awaited statement, with \<open>.map_err(map_sqlx_error)?\<close>.\<close>

definition sql_call :: "sqlx_error option \<Rightarrow> StoreError + 'a \<Rightarrow> StoreError + 'a" where
  "sql_call fault answer = (case fault of Some e \<Rightarrow> Inl (map_sqlx_error e) | None \<Rightarrow> answer)"

definition store_begin_read ::
    "ulid_crate \<Rightarrow> sqlx_error option \<Rightarrow> sqlx_error option \<Rightarrow> EnvironmentScope \<Rightarrow> database \<Rightarrow> StoreError + SqliteSnapshot" where
  "store_begin_read U begin_fault select_fault scope db =
     sql_call begin_fault (sql_call select_fault
       (mapR (\<lambda>sequence. \<lparr>sq_transaction = Some db, sq_scope = scope, sq_sequence = sequence\<rparr>) (begin_read U scope db)))"

definition snapshot_transaction :: "SqliteSnapshot \<Rightarrow> StoreError + database" where
  "snapshot_transaction self = ok_or Internal (sq_transaction self)"

definition snapshot_get_document ::
    "ulid_crate \<Rightarrow> sqlx_error option \<Rightarrow> TableId \<Rightarrow> DocumentId \<Rightarrow> SqliteSnapshot \<Rightarrow> StoreError + DocumentRecord option" where
  "snapshot_get_document U fault t d self =
     bindR (snapshot_transaction self) (\<lambda>db. sql_call fault (get_document U (sq_scope self) t d db))"

definition snapshot_scan_index ::
    "ulid_crate \<Rightarrow> sqlx_error option \<Rightarrow> IndexId \<Rightarrow> IndexRange \<Rightarrow> u32 \<Rightarrow> SqliteSnapshot \<Rightarrow> StoreError + IndexEntry list" where
  "snapshot_scan_index U fault i rng limit self =
     bindR (index_range_validate rng limit) (\<lambda>_.
     bindR (snapshot_transaction self) (\<lambda>db. sql_call fault (scan_index U (sq_scope self) i rng limit db)))"

definition snapshot_get_outbox ::
    "ulid_crate \<Rightarrow> sqlx_error option \<Rightarrow> OutboxEventId \<Rightarrow> SqliteSnapshot \<Rightarrow> StoreError + CanonicalValue option" where
  "snapshot_get_outbox U fault v self =
     bindR (snapshot_transaction self) (\<lambda>db. sql_call fault (get_outbox U (sq_scope self) v db))"

definition snapshot_get_scheduled ::
    "ulid_crate \<Rightarrow> sqlx_error option \<Rightarrow> ScheduledInvocationId \<Rightarrow> SqliteSnapshot \<Rightarrow> StoreError + ScheduledInvocationRecord option" where
  "snapshot_get_scheduled U fault i self =
     bindR (snapshot_transaction self) (\<lambda>db. sql_call fault (get_scheduled U (sq_scope self) i db))"

definition snapshot_list_scheduled ::
    "ulid_crate \<Rightarrow> sqlx_error option \<Rightarrow> ScheduledInvocationId option \<Rightarrow> u32 \<Rightarrow> SqliteSnapshot
     \<Rightarrow> StoreError + ScheduledInvocationRecord list" where
  "snapshot_list_scheduled U fault after limit self =
     (if limit = 0 \<or> limit > 201 then Inl InvalidRange
      else bindR (snapshot_transaction self) (\<lambda>db. sql_call fault (list_scheduled U (sq_scope self) after limit db)))"

text \<open>Closing consumes the snapshot and rolls its transaction back.\<close>

definition snapshot_close :: "sqlx_error option \<Rightarrow> SqliteSnapshot \<Rightarrow> StoreError + unit" where
  "snapshot_close fault self = bindR (snapshot_transaction self) (\<lambda>_. sql_call fault (Inr ()))"

lemma store_begin_read_Inr:
  "store_begin_read U f g scope db = Inr self \<longleftrightarrow>
     f = None \<and> g = None \<and> (\<exists>n. begin_read U scope db = Inr n \<and> self = \<lparr>sq_transaction = Some db, sq_scope = scope, sq_sequence = n\<rparr>)"
  by (auto simp: store_begin_read_def sql_call_def split: option.splits)

text \<open>A call that succeeds unless the database reports an error, which it passes on.\<close>

definition succeeds_unless :: "sqlx_error option \<Rightarrow> StoreError + 'a \<Rightarrow> bool" where
  "succeeds_unless fault answer \<longleftrightarrow>
     (case fault of None \<Rightarrow> \<exists>x. answer = Inr x | Some e \<Rightarrow> answer = Inl (map_sqlx_error e))"

lemma succeeds_sql_call: "\<exists>x. answer = Inr x \<Longrightarrow> succeeds_unless fault (sql_call fault answer)"
  by (auto simp: succeeds_unless_def sql_call_def split: option.splits)

end
