(* ===== verification/Sqlite_Export.thy ===== *)
theory Sqlite_Export
  imports Sqlite_Delivery
begin

text \<open>
  Export, seeding and import of an Environment (\<open>runku-data-sqlite/src/adapter.rs\<close>): the logical records of one
  Environment, their validation, and the transaction that replaces the rows of the Environment by them.
\<close>

section \<open>Exports\<close>

record ExportedOutboxRecord =
  xo_event_id :: OutboxEventId
  xo_commit_sequence :: u64
  xo_created_at :: TimestampMicros
  xo_payload :: CanonicalValue

record EnvironmentExportV1 =
  ex_format_version :: u8
  ex_scope :: EnvironmentScope
  ex_commit_sequence :: u64
  ex_documents :: "DocumentRecord list"
  ex_indexes :: "IndexEntry list"
  ex_outbox :: "ExportedOutboxRecord list"
  ex_schedules :: "ScheduledInvocationRecord list"

definition decode_exported_outbox :: "ulid_crate \<Rightarrow> outbox_row \<Rightarrow> StoreError + ExportedOutboxRecord" where
  "decode_exported_outbox U r =
     bindR (parse_id U ''evt_'' (ow_event r)) (\<lambda>e.
     bindR (positive_u64 (ow_commit_sequence r)) (\<lambda>cs.
     bindR (decode_value U (ow_payload r)) (\<lambda>v.
       Inr \<lparr>xo_event_id = e, xo_commit_sequence = cs, xo_created_at = timestamp (ow_created_at r), xo_payload = v\<rparr>)))"

section \<open>Validation\<close>

definition MAX_EXPORT_ROWS_PER_KIND :: nat where "MAX_EXPORT_ROWS_PER_KIND = 1000000"

text \<open>One iteration of each loop, with the set of the keys seen so far.\<close>

definition check_exported_document ::
    "ulid_crate \<Rightarrow> u64 \<Rightarrow> (TableId \<times> DocumentId \<times> u64) set \<Rightarrow> DocumentRecord \<Rightarrow> StoreError + (TableId \<times> DocumentId \<times> u64) set" where
  "check_exported_document U sequence seen d =
     (if dr_revision d = 0 \<or> dr_commit_sequence d = 0 \<or> dr_commit_sequence d > sequence
        \<or> (dr_table_id d, dr_document_id d, dr_revision d) \<in> seen
      then Inl Corruption
      else bindR (encode_value U (dr_value d)) (\<lambda>_. Inr (insert (dr_table_id d, dr_document_id d, dr_revision d) seen)))"

definition check_exported_index ::
    "u64 \<Rightarrow> (TableId \<times> DocumentId \<times> u64) set \<Rightarrow> (IndexId \<times> bytes \<times> DocumentId) set \<Rightarrow> IndexEntry
     \<Rightarrow> StoreError + (IndexId \<times> bytes \<times> DocumentId) set" where
  "check_exported_index sequence documents seen i =
     (if ie_document_revision i = 0 \<or> ie_commit_sequence i = 0 \<or> ie_commit_sequence i > sequence
        \<or> (ie_table_id i, ie_document_id i, ie_document_revision i) \<notin> documents
        \<or> (ie_index_id i, encoded (ie_key i), ie_document_id i) \<in> seen
      then Inl Corruption else Inr (insert (ie_index_id i, encoded (ie_key i), ie_document_id i) seen))"

definition check_exported_event ::
    "ulid_crate \<Rightarrow> u64 \<Rightarrow> OutboxEventId set \<Rightarrow> ExportedOutboxRecord \<Rightarrow> StoreError + OutboxEventId set" where
  "check_exported_event U sequence seen x =
     (if xo_commit_sequence x = 0 \<or> xo_commit_sequence x > sequence \<or> xo_event_id x \<in> seen then Inl Corruption
      else bindR (encode_value U (xo_payload x)) (\<lambda>_. Inr (insert (xo_event_id x) seen)))"

definition check_exported_schedule ::
    "ulid_crate \<Rightarrow> u64 \<Rightarrow> ScheduledInvocationId set \<times> string set \<Rightarrow> ScheduledInvocationRecord
     \<Rightarrow> StoreError + ScheduledInvocationId set \<times> string set" where
  "check_exported_schedule U sequence seen s =
     (if si_commit_sequence s = 0 \<or> si_commit_sequence s > sequence \<or> si_id s \<in> fst seen
        \<or> (case si_idempotency_key s of None \<Rightarrow> False | Some key \<Rightarrow> key = [] \<or> length key > 128 \<or> key \<in> snd seen)
        \<or> (si_status s = Running \<and> (si_lease_owner s = None \<or> si_lease_until s = None))
        \<or> (si_status s \<noteq> Running \<and> (si_lease_owner s \<noteq> None \<or> si_lease_until s \<noteq> None))
      then Inl Corruption
      else
        bindR (case si_last_error_code s of None \<Rightarrow> Inr () | Some err \<Rightarrow> validate_error_code err) (\<lambda>_.
        bindR (encode_value U (si_args s)) (\<lambda>_.
          Inr (insert (si_id s) (fst seen), set_option (si_idempotency_key s) \<union> snd seen))))"

definition validate_export :: "ulid_crate \<Rightarrow> EnvironmentExportV1 \<Rightarrow> StoreError + unit" where
  "validate_export U x =
     (if ex_format_version x \<noteq> 1 \<or> length (ex_documents x) > MAX_EXPORT_ROWS_PER_KIND
        \<or> length (ex_indexes x) > MAX_EXPORT_ROWS_PER_KIND \<or> length (ex_outbox x) > MAX_EXPORT_ROWS_PER_KIND
        \<or> length (ex_schedules x) > MAX_EXPORT_ROWS_PER_KIND
      then Inl LimitExceeded
      else
        bindR (foldR (check_exported_document U (ex_commit_sequence x)) {} (ex_documents x)) (\<lambda>documents.
        bindR (foldR (check_exported_index (ex_commit_sequence x) documents) {} (ex_indexes x)) (\<lambda>_.
        bindR (foldR (check_exported_event U (ex_commit_sequence x)) {} (ex_outbox x)) (\<lambda>_.
        bindR (foldR (check_exported_schedule U (ex_commit_sequence x)) ({}, {}) (ex_schedules x)) (\<lambda>_. Inr ())))))"

section \<open>Exporting\<close>

definition export_environment :: "ulid_crate \<Rightarrow> sqlx_error option \<Rightarrow> EnvironmentScope \<Rightarrow> database \<Rightarrow> StoreError + EnvironmentExportV1" where
  "export_environment U fault scope db =
     (let p = project_text U scope; e = environment_text U scope in
      case fault of
        Some err \<Rightarrow> Inl (map_sqlx_error err)
      | None \<Rightarrow>
          bindR (traverseR (decode_document_row U) (sql_select (\<lambda>r. dw_project r = p \<and> dw_environment r = e)
              (\<lambda>r. (dw_table r, dw_document r)) (db_documents db))) (\<lambda>documents.
          bindR (traverseR (decode_index_row U) (sql_select (\<lambda>r. iw_project r = p \<and> iw_environment r = e)
              (\<lambda>r. (iw_index r, iw_key r, iw_document r)) (db_indexes db))) (\<lambda>indexes.
          bindR (traverseR (decode_exported_outbox U) (sql_select (\<lambda>r. ow_project r = p \<and> ow_environment r = e)
              event_position (db_outbox db))) (\<lambda>outbox.
          bindR (traverseR (decode_schedule_row U) (sql_select (\<lambda>r. sw_project r = p \<and> sw_environment r = e)
              sw_scheduled (db_schedules db))) (\<lambda>schedules.
          bindR (begin_read U scope db) (\<lambda>commit_sequence.
            let export = \<lparr>ex_format_version = 1, ex_scope = scope, ex_commit_sequence = commit_sequence, ex_documents = documents,
                  ex_indexes = indexes, ex_outbox = outbox, ex_schedules = schedules\<rparr> in
            bindR (validate_export U export) (\<lambda>_. Inr export)))))))"

section \<open>Importing\<close>

definition exported_document_row :: "ulid_crate \<Rightarrow> string \<Rightarrow> string \<Rightarrow> DocumentRecord \<Rightarrow> StoreError + document_row" where
  "exported_document_row U p e d =
     bindR (positive_i64 (dr_revision d)) (\<lambda>revision.
     bindR (positive_i64 (dr_commit_sequence d)) (\<lambda>sequence.
     bindR (encode_value U (dr_value d)) (\<lambda>enc.
       Inr \<lparr>dw_project = p, dw_environment = e, dw_table = table_text U (dr_table_id d),
            dw_document = document_text U (dr_document_id d), dw_revision = revision, dw_commit_sequence = sequence,
            dw_created_at = micros (dr_created_at d), dw_updated_at = micros (dr_updated_at d), dw_value = enc\<rparr>)))"

definition exported_index_row :: "ulid_crate \<Rightarrow> string \<Rightarrow> string \<Rightarrow> IndexEntry \<Rightarrow> StoreError + index_row" where
  "exported_index_row U p e i =
     bindR (positive_i64 (ie_document_revision i)) (\<lambda>revision.
     bindR (positive_i64 (ie_commit_sequence i)) (\<lambda>sequence.
       Inr \<lparr>iw_project = p, iw_environment = e, iw_index = index_text U (ie_index_id i), iw_key = encoded (ie_key i),
            iw_table = table_text U (ie_table_id i), iw_document = document_text U (ie_document_id i),
            iw_document_revision = revision, iw_commit_sequence = sequence\<rparr>))"

definition exported_outbox_row :: "ulid_crate \<Rightarrow> string \<Rightarrow> string \<Rightarrow> ExportedOutboxRecord \<Rightarrow> StoreError + outbox_row" where
  "exported_outbox_row U p e x =
     bindR (positive_i64 (xo_commit_sequence x)) (\<lambda>sequence.
     bindR (encode_value U (xo_payload x)) (\<lambda>payload.
       Inr \<lparr>ow_project = p, ow_environment = e, ow_event = event_text U (xo_event_id x), ow_commit_sequence = sequence,
            ow_payload = payload, ow_created_at = micros (xo_created_at x)\<rparr>))"

definition exported_schedule_row ::
    "ulid_crate \<Rightarrow> string \<Rightarrow> string \<Rightarrow> int \<Rightarrow> ScheduledInvocationRecord \<Rightarrow> StoreError + schedule_row" where
  "exported_schedule_row U p e now s =
     bindR (encode_value U (si_args s)) (\<lambda>args.
     bindR (nonnegative_i64 (si_lease_generation s)) (\<lambda>generation.
     bindR (positive_i64 (si_commit_sequence s)) (\<lambda>sequence.
       Inr \<lparr>sw_project = p, sw_environment = e, sw_scheduled = schedule_text U (si_id s),
            sw_pinned_code = pinned_code_to_string U (si_pinned_code s), sw_function = si_function s, sw_args = args,
            sw_execute_at = micros (si_execute_at s), sw_status = status_text (si_status s),
            sw_attempts = uint (si_attempts s), sw_lease_generation = generation,
            sw_lease_owner = map_option (worker_text U) (si_lease_owner s),
            sw_lease_until = map_option micros (si_lease_until s), sw_idempotency_key = si_idempotency_key s,
            sw_last_error_code = si_last_error_code s, sw_commit_sequence = sequence, sw_created_at = now,
            sw_updated_at = now\<rparr>)))"

text \<open>A loop of plain \<open>INSERT\<close> statements.\<close>

definition insert_rows :: "('a \<Rightarrow> StoreError + 'r) \<Rightarrow> ('r \<Rightarrow> 'r \<Rightarrow> bool) \<Rightarrow> 'r list \<Rightarrow> 'a list \<Rightarrow> StoreError + 'r list" where
  "insert_rows row conflict t xs = foldR (\<lambda>t x. bindR (row x) (\<lambda>r. sql_insert Internal conflict r t)) t xs"

definition insert_export_records :: "ulid_crate \<Rightarrow> clock \<Rightarrow> EnvironmentExportV1 \<Rightarrow> database \<Rightarrow> StoreError + database" where
  "insert_export_records U clock x db =
     (let p = project_text U (ex_scope x); e = environment_text U (ex_scope x) in
      bindR (insert_rows (exported_document_row U p e) (same_key document_key) (db_documents db) (ex_documents x)) (\<lambda>documents.
      bindR (insert_rows (exported_index_row U p e) (same_key index_entry_key) (db_indexes db) (ex_indexes x)) (\<lambda>indexes.
      bindR (insert_rows (exported_outbox_row U p e) (same_key outbox_key) (db_outbox db) (ex_outbox x)) (\<lambda>outbox.
      bindR clock (\<lambda>now.
      bindR (insert_rows (exported_schedule_row U p e now) schedule_conflict (db_schedules db) (ex_schedules x)) (\<lambda>schedules.
        Inr (db\<lparr>db_documents := documents, db_indexes := indexes, db_outbox := outbox, db_schedules := schedules\<rparr>)))))))"

definition import_environment_tx :: "ulid_crate \<Rightarrow> clock \<Rightarrow> EnvironmentExportV1 \<Rightarrow> bool \<Rightarrow> database \<Rightarrow> StoreError + unit \<times> database" where
  "import_environment_tx U clock x replace db =
     (let p = project_text U (ex_scope x); e = environment_text U (ex_scope x);
          present = sql_find (\<lambda>r. sequence_key r = (p, e)) (db_sequences db) \<noteq> None in
      if present \<and> \<not> replace then Inl MutationConflict
      else
        let db1 = (if present then cascade_delete p e db else db) in
        bindR (nonnegative_i64 (ex_commit_sequence x)) (\<lambda>sequence.
        bindR (sql_insert Internal (same_key sequence_key)
            \<lparr>ew_project = p, ew_environment = e, ew_commit_sequence = sequence\<rparr> (db_sequences db1)) (\<lambda>sequences.
        bindR (insert_export_records U clock x (db1\<lparr>db_sequences := sequences\<rparr>)) (\<lambda>db2. Inr ((), db2)))))"

definition import_environment_inner ::
    "ulid_crate \<Rightarrow> tx_fault \<Rightarrow> clock \<Rightarrow> EnvironmentExportV1 \<Rightarrow> bool \<Rightarrow> database \<Rightarrow> (StoreError + unit) \<times> database" where
  "import_environment_inner U fault clock x replace db =
     (case validate_export U x of
        Inl err \<Rightarrow> (Inl err, db)
      | Inr _ \<Rightarrow> transaction fault map_commit_error (import_environment_tx U clock x replace) db)"

definition seed_environment ::
    "ulid_crate \<Rightarrow> tx_fault \<Rightarrow> clock \<Rightarrow> EnvironmentExportV1 \<Rightarrow> database \<Rightarrow> (StoreError + unit) \<times> database" where
  "seed_environment U fault clock x db = import_environment_inner U fault clock x False db"

definition import_environment ::
    "ulid_crate \<Rightarrow> tx_fault \<Rightarrow> clock \<Rightarrow> EnvironmentExportV1 \<Rightarrow> EnvironmentId \<Rightarrow> database \<Rightarrow> (StoreError + unit) \<times> database" where
  "import_environment U fault clock x confirmation db =
     (if scope_environment (ex_scope x) \<noteq> confirmation then (Inl InvalidRange, db)
      else import_environment_inner U fault clock x True db)"

end
