(* ===== verification/Store_Properties.thy ===== *)
theory Store_Properties
  imports Store_Sample Sqlite_Snapshot Sqlite_Export
begin

text \<open>
  The properties of the embedded store: what it keeps invariant, what a client may rely on when it
  commits, retries, consumes events and runs scheduled invocations, and that Environments do not
  see each other.
\<close>

section \<open>State\<close>

text \<open>
  C3 (store invariant): after any sequence of commits, claims, acknowledgements, completions, cancellations and resets
  on an empty database, whatever errors the transactions met, the
  tables have distinct primary keys, every row decodes, no commit sequence exceeds that of its scope,
  leases are complete and the claimed position of a consumer lies after its cursor.
\<close>

theorem store_invariant:
  assumes "ulid_laws U" and "list_all (op_typed U) ops"
  shows "db_ok U (run (store_step U sha256) ops empty_database)"
  using assms(2) by (rule invariant_machine.inv_reachable [OF store_machine [OF assms(1)]])

definition sample_ops :: "store_op list" where
  "sample_ops =
     [OpCommit (CommitFails IoError True) (Inr 0) sample_batch, OpClaimDue NoFault sample_scope 11 20 30 5,
      OpClaimOutbox NoFault sample_scope ''c'' 11 0 100 10, OpReset NoFault other_scope 3]"

lemma sample_ops_typed: "list_all (op_typed sample_U) sample_ops"
  by (simp add: sample_ops_def sample_batch_typed)

theorem store_invariant_witness:
  "list_all (op_typed sample_U) sample_ops \<and> db_ok sample_U (run (store_step sample_U sample_sha) sample_ops empty_database)"
  using store_invariant [OF crockford_laws sample_ops_typed] sample_ops_typed by blast



text \<open>
  C5 (tenant isolation): operations on other scopes change nothing that a snapshot of this scope
  can read.
\<close>

theorem store_isolation:
  assumes "ulid_laws U" and "list_all (\<lambda>x. op_scope x \<noteq> scope) ops"
    and db': "db' = run (store_step U sha256) ops db"
  shows "begin_read U scope db' = begin_read U scope db \<and>
    get_document U scope t d db' = get_document U scope t d db \<and>
    scan_index U scope i rng limit db' = scan_index U scope i rng limit db \<and>
    get_outbox U scope v db' = get_outbox U scope v db \<and>
    get_scheduled U scope s db' = get_scheduled U scope s db \<and>
    list_scheduled U scope after limit db' = list_scheduled U scope after limit db"
proof -
  let ?p = "project_text U scope" and ?e = "environment_text U scope"
  have "scope_view ?p ?e db' = scope_view ?p ?e db" unfolding db'
    by (rule run_frame, rule store_step_frame)
      (use assms(2) scope_texts_inject [OF assms(1)] in \<open>auto simp: list_all_iff\<close>)
  then show ?thesis by (intro conjI) (metis reads_of_view)+
qed

theorem store_isolation_witness:
  "list_all (\<lambda>x. op_scope x \<noteq> sample_scope) [OpReset NoFault other_scope 3] \<and>
   get_document sample_U sample_scope 4 5
     (run (store_step sample_U sample_sha) [OpReset NoFault other_scope 3] sample_database) =
   get_document sample_U sample_scope 4 5 sample_database"
proof -
  have l: "list_all (\<lambda>x. op_scope x \<noteq> sample_scope) [OpReset NoFault other_scope 3]"
    by (simp add: sample_scope_def other_scope_def)
  with store_isolation [OF crockford_laws l refl] show ?thesis by blast
qed

text \<open>
  C6 (history): as long as the scope is not reset, commit sequences grow, the operation log and the
  outbox only gain rows, scheduled invocations keep their identity, never lose attempts, and stay as
  they are once finished, and the cursor and lease generation of a consumer never go back.
\<close>

theorem store_history:
  assumes "ulid_laws U" and "list_all (op_typed U) before"
    and "list_all (\<lambda>x. op_typed U x \<and> \<not> resets U p e x) ops"
    and db: "db = run (store_step U sha256) before empty_database"
  shows "extends p e db (run (store_step U sha256) ops db)"
proof -
  have "db_ok U db"
    unfolding db using assms(2) by (rule invariant_machine.inv_reachable [OF store_machine [OF assms(1)]])
  then show ?thesis by (rule monotone_machine.le_run [OF store_history_machine [OF assms(1)] assms(3)])
qed

theorem store_history_witness:
  "list_all (\<lambda>x. op_typed sample_U x \<and> \<not> resets sample_U (project_text sample_U sample_scope) (environment_text sample_U sample_scope) x)
     [OpCommit NoFault (Inr 0) sample_batch] \<and>
   extends (project_text sample_U sample_scope) (environment_text sample_U sample_scope) (run (store_step sample_U sample_sha) sample_ops empty_database)
     (run (store_step sample_U sample_sha) [OpCommit NoFault (Inr 0) sample_batch]
       (run (store_step sample_U sample_sha) sample_ops empty_database))"
proof -
  have l: "list_all (\<lambda>x. op_typed sample_U x \<and> \<not> resets sample_U (project_text sample_U sample_scope) (environment_text sample_U sample_scope) x)
      [OpCommit NoFault (Inr 0) sample_batch]"
    by (simp add: sample_batch_typed resets_def)
  with store_history [OF crockford_laws sample_ops_typed l refl] show ?thesis by blast
qed

section \<open>Commits\<close>

text \<open>
  C7 (exactly once): when a commit took effect, whether or not its caller was told, committing the same
  batch again returns the original result marked as replayed and changes nothing, whatever other
  operations ran in between.
\<close>

theorem commit_exactly_once:
  assumes "ulid_laws U" and "db_ok U db" and "batch_typed U b"
    and first: "store_commit U sha256 NoFault clock b db = (Inr r, db1)"
    and later: "list_all (\<lambda>x. op_typed U x \<and> \<not> resets U (project_text U (cb_scope b)) (environment_text U (cb_scope b)) x) ops"
    and db2: "db2 = run (store_step U sha256) ops (snd (store_commit U sha256 fault clock b db))"
    and fault: "fault = NoFault \<or> fault = CommitFails err True"
  shows "store_commit U sha256 NoFault clock' b db2 = (Inr (r\<lparr>cr_replayed := True\<rparr>), db2)"
  using first
proof (rule store_commit_Inr)
  fix digest
  assume d: "commit_batch_digest U sha256 b = Inr digest" and a: "apply_commit U clock b digest db = Inr (r, db1)"
  have "snd (store_commit U sha256 fault clock b db) = db1"
    using fault d a by (auto simp: store_commit_def transaction_def)
  then have "load_operation U b digest db2 = Inr (Some (r\<lparr>cr_replayed := True\<rparr>))"
    using commit_found_again(1) [OF assms(1-3) a later] by (simp add: db2)
  then show ?thesis by (simp add: store_commit_def d transaction_def apply_commit_def)
qed

theorem commit_exactly_once_witness:
  "\<exists>db2. store_commit sample_U sample_sha NoFault (Inr 5) sample_batch db2 = (Inr (sample_result\<lparr>cr_replayed := True\<rparr>), db2) \<and>
     db2 = run (store_step sample_U sample_sha) [OpClaimDue NoFault sample_scope 11 20 30 5]
       (snd (store_commit sample_U sample_sha (CommitFails IoError True) (Inr 0) sample_batch empty_database))"
proof -
  have "list_all (\<lambda>x. op_typed sample_U x \<and> \<not> resets sample_U (project_text sample_U (cb_scope sample_batch))
      (environment_text sample_U (cb_scope sample_batch)) x) [OpClaimDue NoFault sample_scope 11 20 30 5]"
    by (simp add: resets_def)
  from commit_exactly_once [OF crockford_laws empty_database_ok sample_batch_typed sample_commit this refl]
  show ?thesis by blast
qed

text \<open>
  C8 (operation identifiers are not reused): another batch under the identifier of a committed
  operation is refused and changes nothing.
\<close>

theorem operation_id_reuse_refused:
  assumes "ulid_laws U" and "db_ok U db" and "batch_typed U b"
    and first: "store_commit U sha256 NoFault clock b db = (Inr r, db1)"
    and later: "list_all (\<lambda>x. op_typed U x \<and> \<not> resets U (project_text U (cb_scope b)) (environment_text U (cb_scope b)) x) ops"
    and c: "cb_scope c = cb_scope b" "cb_operation_id c = cb_operation_id b"
      "commit_batch_digest U sha256 c = Inr d" "commit_batch_digest U sha256 b \<noteq> Inr d"
    and db2: "db2 = run (store_step U sha256) ops db1"
  shows "store_commit U sha256 NoFault clock' c db2 = (Inl OperationIdReused, db2)"
  using first
proof (rule store_commit_Inr)
  fix digest
  assume b: "commit_batch_digest U sha256 b = Inr digest" and a: "apply_commit U clock b digest db = Inr (r, db1)"
  have "load_operation U c d db2 = Inl OperationIdReused"
    unfolding db2 by (rule commit_found_again(2) [OF assms(1-3) a later c(1,2)]) (use b c(4) in simp)
  then show ?thesis by (simp add: store_commit_def c(3) transaction_def apply_commit_def)
qed

definition sample_other_batch :: CommitBatch where
  "sample_other_batch = sample_batch\<lparr>cb_schedules := []\<rparr>"

lemma sample_other_valid:
  "batch_typed sample_U sample_other_batch" "commit_batch_validate sample_U sample_other_batch = Inr ()"
  using sample_batch_typed sample_batch_valid
  by (auto simp: sample_other_batch_def batch_typed_def commit_batch_validate_Inr)
    (auto simp: batch_valid_def sample_batch_def batch_values_def)

theorem operation_id_reuse_refused_witness:
  "\<exists>db2. store_commit sample_U sample_sha NoFault (Inr 5) sample_other_batch db2 = (Inl OperationIdReused, db2)"
proof -
  have d: "commit_batch_digest sample_U sample_sha sample_other_batch = Inr (batch_bytes sample_U sample_other_batch)"
    using digest_of_valid [OF crockford_laws sample_other_valid, of sample_sha] by (simp add: sample_sha_def)
  have "batch_bytes sample_U sample_batch \<noteq> batch_bytes sample_U sample_other_batch"
    using batch_bytes_inject [OF crockford_laws valid_batch_fits [OF sample_batch_valid sample_batch_typed]
        valid_batch_fits [OF sample_other_valid(2,1)]] same_content_parts [of sample_batch sample_other_batch]
    by (auto simp: same_content_def sample_other_batch_def sample_batch_def)
  then have ne: "commit_batch_digest sample_U sample_sha sample_batch \<noteq> Inr (batch_bytes sample_U sample_other_batch)"
    by (simp add: sample_batch_digest sample_digest_def)
  have l: "list_all (\<lambda>x. op_typed sample_U x \<and> \<not> resets sample_U (project_text sample_U (cb_scope sample_batch))
      (environment_text sample_U (cb_scope sample_batch)) x) []" by simp
  have c: "cb_scope sample_other_batch = cb_scope sample_batch"
    "cb_operation_id sample_other_batch = cb_operation_id sample_batch" by (simp_all add: sample_other_batch_def)
  show ?thesis
    using operation_id_reuse_refused [OF crockford_laws empty_database_ok sample_batch_typed sample_commit l c d ne refl]
    by blast
qed

text \<open>
  C9 (a commit writes exactly its documents): after a commit every document of the batch holds its
  new value at the next revision and the sequence of the commit, or is absent when deleted, and every
  other document of the scope is as before.
\<close>

theorem commit_writes_documents:
  assumes "ulid_laws U" and "db_ok U db" and "batch_typed U b"
    and "store_commit U sha256 NoFault clock b db = (Inr r, db')" and "\<not> cr_replayed r"
  shows "(\<forall>m \<in> set (cb_documents b). document_state U (cb_scope b) (mutation_key m) db' =
      Inr (map_option (\<lambda>(x, v). (x, cr_commit_sequence r, v)) (mutation_outcome m))) \<and>
    (\<forall>k. k \<notin> mutation_key ` set (cb_documents b) \<longrightarrow>
      document_state U (cb_scope b) k db' = document_state U (cb_scope b) k db)"
  using assms(4)
proof (rule store_commit_Inr)
  fix digest
  assume a: "apply_commit U clock b digest db = Inr (r, db')" and "batch_valid U b"
  then have "distinct (map mutation_key (cb_documents b))" by (simp add: batch_valid_def)
  from commit_documents(2,3) [OF assms(1-3) this a assms(5)] show ?thesis by blast
qed

theorem commit_writes_documents_witness:
  "document_state sample_U sample_scope (4, 5) sample_database = Inr (Some (1, 1, sample_value))"
  using commit_writes_documents [OF crockford_laws empty_database_ok sample_batch_typed sample_commit]
  by (simp add: sample_batch_def sample_result_def mutation_key_def)

text \<open>
  C10 (optimistic concurrency): a commit that took effect saw, in the database it was applied to,
  exactly the revisions its mutations expected and its reads had observed.
\<close>

theorem commit_saw_expected:
  assumes "ulid_laws U" and "db_ok U db" and "batch_typed U b"
    and "store_commit U sha256 NoFault clock b db = (Inr r, db')" and "\<not> cr_replayed r"
  shows "(\<forall>m \<in> set (cb_documents b).
      mapR (map_option fst) (document_state U (cb_scope b) (mutation_key m) db) = Inr (mutation_expected m)) \<and>
    (\<forall>a \<in> set (cb_reads b).
      mapR (map_option fst) (document_state U (cb_scope b) (ra_table_id a, ra_document_id a) db) =
        Inr (ra_observed_revision a))"
  using assms(4)
proof (rule store_commit_Inr)
  fix digest
  assume a: "apply_commit U clock b digest db = Inr (r, db')" and "batch_valid U b"
  then have "distinct (map mutation_key (cb_documents b))" by (simp add: batch_valid_def)
  from commit_documents(1) [OF assms(1-3) this a assms(5)]
  have "mapR (map_option fst) (document_state U (cb_scope b) (mutation_key m) db) = Inr (mutation_expected m)"
    if "m \<in> set (cb_documents b)" for m using that .
  moreover have "validate_document_reads U (project_text U (cb_scope b)) (environment_text U (cb_scope b)) db (cb_reads b) = Inr ()"
    using a assms(5) by (auto elim!: apply_commit_cases dest: load_operation_replayed)
  ultimately show ?thesis using validated_reads [OF assms(2)] by blast
qed

theorem commit_saw_expected_witness:
  "mapR (map_option fst) (document_state sample_U sample_scope (4, 5) empty_database) = (Inr None :: StoreError + u64 option)"
  using commit_saw_expected [OF crockford_laws empty_database_ok sample_batch_typed sample_commit]
  by (simp add: sample_batch_def sample_result_def mutation_key_def)

text \<open>
  C11 (commit sequences): a commit takes the sequence after the one a snapshot reported before it, the
  next snapshot reports it, and it never leaves the positive 64-bit integers.
\<close>

theorem commit_sequence_next:
  assumes "ulid_laws U" and "db_ok U db" and "batch_typed U b"
    and "store_commit U sha256 NoFault clock b db = (Inr r, db')" and "\<not> cr_replayed r"
  shows "\<exists>n. begin_read U (cb_scope b) db = Inr n \<and> begin_read U (cb_scope b) db' = Inr (cr_commit_sequence r) \<and>
    uint (cr_commit_sequence r) = uint n + 1 \<and> uint (cr_commit_sequence r) \<le> 2 ^ 63 - 1"
  using assms(4)
proof (rule store_commit_Inr)
  let ?p = "project_text U (cb_scope b)" and ?e = "environment_text U (cb_scope b)"
  fix digest
  assume a: "apply_commit U clock b digest db = Inr (r, db')" and "batch_valid U b"
  then have "distinct (map mutation_key (cb_documents b))" by (simp add: batch_valid_def)
  note c = commit_documents(4,5) [OF assms(1-3) this a assms(5)]
  have bound: "0 \<le> sequence_of (db_sequences x) ?p ?e" "sequence_of (db_sequences x) ?p ?e \<le> i64_max"
    if "db_ok U x" for x
    using that sequence_of_bounds [of "db_sequences x"] unfolding db_ok_def tables_ok_def by blast+
  have read: "begin_read U (cb_scope b) x = Inr (word_of_int (sequence_of (db_sequences x) ?p ?e))"
    if "db_ok U x" for x
    using bound(1) [OF that] by (simp add: begin_read_def sequence_of_def positive_or_zero_u64_def)
  have ok': "db_ok U db'" by (rule apply_commit_ok [OF assms(1-3) a])
  have "uint (word_of_int (sequence_of (db_sequences db) ?p ?e) :: u64) = sequence_of (db_sequences db) ?p ?e"
    using bound [OF assms(2)] by (rule uint_of_i64)
  moreover have "cr_commit_sequence r = word_of_int (sequence_of (db_sequences db') ?p ?e)"
    using c(2) by (metis word_of_int_uint)
  ultimately show ?thesis using read [OF assms(2)] read [OF ok'] c bound(2) [OF ok'] by simp
qed

theorem commit_sequence_next_witness:
  "begin_read sample_U sample_scope sample_database = Inr 1"
  using commit_sequence_next [OF crockford_laws empty_database_ok sample_batch_typed sample_commit]
  by (auto simp: sample_batch_def sample_result_def)

section \<open>Errors\<close>

lemma transaction_definite:
  assumes "fst (transaction fault map_commit_error body db) = Inl err" and "err \<noteq> ResultUncertain" and "err \<noteq> Busy"
  shows "snd (transaction fault map_commit_error body db) = db"
proof (cases fault)
  case (CommitFails e applied)
  have "map_commit_error e = Busy \<or> map_commit_error e = ResultUncertain"
    by (cases e) (auto simp: map_commit_error_def)
  with assms CommitFails show ?thesis by (auto simp: transaction_def split: sum.splits)
qed (use assms in \<open>auto simp: transaction_def split: sum.splits\<close>)

text \<open>
  C12 (definite errors have no effect): when a commit, a claim, an acknowledgement, a completion, a cancellation, a seed
  or an import returns an error other than an uncertain result or a busy database, the database is
  unchanged, whatever went wrong. A reset is the exception: it passes the error of its commit on as it is, so
  that any error of a reset leaves the database unchanged, or comes from a commit that reported the error
  and took effect nevertheless.
\<close>

theorem store_errors_have_no_effect:
  assumes "err \<noteq> ResultUncertain" and "err \<noteq> Busy"
  shows "(fst (store_commit U sha256 fault clock b db) = Inl err \<longrightarrow> snd (store_commit U sha256 fault clock b db) = db) \<and>
    (fst (claim_outbox U fault scope c w now lease limit db) = Inl err \<longrightarrow>
       snd (claim_outbox U fault scope c w now lease limit db) = db) \<and>
    (fst (ack_outbox U fault clock scope c w g through db) = Inl err \<longrightarrow>
       snd (ack_outbox U fault clock scope c w g through db) = db) \<and>
    (fst (claim_due_scheduled U fault scope w now lease limit db) = Inl err \<longrightarrow>
       snd (claim_due_scheduled U fault scope w now lease limit db) = db) \<and>
    (fst (complete_scheduled U fault clock scope i w g completion db) = Inl err \<longrightarrow>
       snd (complete_scheduled U fault clock scope i w g completion db) = db) \<and>
    (fst (cancel_scheduled U fault clock scope i db) = Inl err \<longrightarrow>
       snd (cancel_scheduled U fault clock scope i db) = db) \<and>
    (fst (seed_environment U fault clock x db) = Inl err \<longrightarrow> snd (seed_environment U fault clock x db) = db) \<and>
    (fst (import_environment U fault clock x confirmation db) = Inl err \<longrightarrow>
       snd (import_environment U fault clock x confirmation db) = db) \<and>
    (fst (reset_environment U fault scope confirmation db) = Inl err \<longrightarrow>
       snd (reset_environment U fault scope confirmation db) = db \<or>
       (\<exists>e. fault = CommitFails e True \<and> err = map_sqlx_error e))"
proof (intro conjI impI)
  note definite = transaction_definite [OF _ assms]
  show "snd (store_commit U sha256 fault clock b db) = db" if "fst (store_commit U sha256 fault clock b db) = Inl err"
    using that definite by (cases "commit_batch_digest U sha256 b") (simp_all add: store_commit_def)
  show "snd (claim_outbox U fault scope c w now lease limit db) = db"
    if "fst (claim_outbox U fault scope c w now lease limit db) = Inl err"
    using that definite unfolding claim_outbox_def by (auto split: if_splits)
  show "snd (ack_outbox U fault clock scope c w g through db) = db"
    if "fst (ack_outbox U fault clock scope c w g through db) = Inl err"
    using that definite unfolding ack_outbox_def by (auto split: if_splits)
  show "snd (claim_due_scheduled U fault scope w now lease limit db) = db"
    if "fst (claim_due_scheduled U fault scope w now lease limit db) = Inl err"
    using that definite unfolding claim_due_scheduled_def by (auto split: if_splits)
  show "snd (complete_scheduled U fault clock scope i w g completion db) = db"
    if "fst (complete_scheduled U fault clock scope i w g completion db) = Inl err"
  proof (cases "bindR (validate_completion completion) (\<lambda>_. bindR (positive_i64 g) (\<lambda>generation.
      bindR clock (\<lambda>now. Inr (generation, now))))")
    case (Inr gn)
    then show ?thesis using that definite by (cases gn) (simp add: complete_scheduled_def del: bindR_Inr)
  qed (simp add: complete_scheduled_def)
  show "snd (cancel_scheduled U fault clock scope i db) = db" if "fst (cancel_scheduled U fault clock scope i db) = Inl err"
    using that definite by (simp add: cancel_scheduled_def)
  have inner: "snd (import_environment_inner U fault clock x replace db) = db"
    if "fst (import_environment_inner U fault clock x replace db) = Inl err" for replace
    using that definite by (cases "validate_export U x") (simp_all add: import_environment_inner_def)
  show "snd (seed_environment U fault clock x db) = db" if "fst (seed_environment U fault clock x db) = Inl err"
    using that inner by (simp add: seed_environment_def)
  show "snd (import_environment U fault clock x confirmation db) = db"
    if "fst (import_environment U fault clock x confirmation db) = Inl err"
    using that inner by (auto simp: import_environment_def split: if_splits)
  show "snd (reset_environment U fault scope confirmation db) = db \<or> (\<exists>e. fault = CommitFails e True \<and> err = map_sqlx_error e)"
    if "fst (reset_environment U fault scope confirmation db) = Inl err"
    using that by (auto simp: reset_environment_def transaction_def split: if_splits tx_fault.splits)
qed

theorem store_errors_have_no_effect_witness:
  "fst (cancel_scheduled sample_U NoFault (Inr 1) sample_scope 8 empty_database) = Inl NotFound \<and>
   snd (cancel_scheduled sample_U NoFault (Inr 1) sample_scope 8 empty_database) = empty_database"
proof -
  have e: "fst (cancel_scheduled sample_U NoFault (Inr 1) sample_scope 8 empty_database) = Inl NotFound"
    by (simp add: cancel_scheduled_def cancel_scheduled_tx_def transaction_def empty_database_def sql_update_def
        sql_find_def Let_def)
  have "NotFound \<noteq> ResultUncertain" "NotFound \<noteq> Busy" by simp_all
  from store_errors_have_no_effect [OF this] e show ?thesis by blast
qed

text \<open>The exception occurs: here a reset reports that the store is unavailable and has removed every row.\<close>

lemma reset_error_after_effect:
  "reset_environment sample_U (CommitFails IoError True) sample_scope 2 sample_database = (Inl Unavailable, empty_database)"
  by (simp add: reset_environment_def transaction_def sample_scope_def cascade_delete_def sample_database_def
      sql_delete_def empty_database_def sample_store_defs sample_batch_def)

section \<open>Outbox\<close>

text \<open>
  C13 (outbox delivery): a claim returns the first undelivered events in order of commit sequence and
  event identifier; acknowledging its last event succeeds and leaves undelivered exactly the events
  that follow, so no event is skipped or delivered again.
\<close>

theorem outbox_delivery:
  assumes "ulid_laws U" and "db_ok U db"
    and "claim_outbox U NoFault scope c w now lease limit db = (Inr b, db1)" and "cob_events b \<noteq> []"
  shows "traverseR (decode_outbox_event U) (take (unat limit) (undelivered U scope c db)) = Inr (cob_events b) \<and>
    (\<exists>db2. ack_outbox U NoFault (Inr t) scope c w (cob_lease_generation b)
        (outbox_event_cursor (last (cob_events b))) db1 = (Inr (), db2) \<and>
      undelivered U scope c db2 = drop (length (cob_events b)) (undelivered U scope c db))"
proof -
  note claim = claim_outbox_Inr [OF assms(3)]
  from claim_then_ack [OF assms(1,2) claim assms(4)] obtain db2 where
    ack: "ack_outbox_tx U (Inr t) scope c w (cob_lease_generation b) (outbox_event_cursor (last (cob_events b))) db1
        = Inr ((), db2)"
    and rest: "undelivered U scope c db2 = drop (length (cob_events b)) (undelivered U scope c db)" by blast
  from ack have "cob_lease_generation b \<noteq> 0" "cursor_commit_sequence (outbox_event_cursor (last (cob_events b))) \<noteq> 0"
    unfolding ack_outbox_tx_Inr by blast+
  with ack have "ack_outbox U NoFault (Inr t) scope c w (cob_lease_generation b)
      (outbox_event_cursor (last (cob_events b))) db1 = (Inr (), db2)"
    by (simp add: ack_outbox_def transaction_def)
  moreover have "traverseR (decode_outbox_event U) (take (unat limit) (undelivered U scope c db)) = Inr (cob_events b)"
    by (rule claim_outbox_tx_effect [OF assms(1,2) claim])
  ultimately show ?thesis using rest by blast
qed

theorem outbox_delivery_witness:
  "\<exists>db2. ack_outbox sample_U NoFault (Inr 9) sample_scope ''c'' 11 1
     \<lparr>cursor_commit_sequence = 1, cursor_event_id = 7\<rparr> sample_claim_database = (Inr (), db2) \<and>
     undelivered sample_U sample_scope ''c'' db2 = []"
proof -
  have "length (undelivered sample_U sample_scope ''c'' sample_database) \<le> 1"
    by (simp add: undelivered_def sql_select_def sample_database_def)
  then show ?thesis
    using outbox_delivery [OF crockford_laws sample_ok sample_claim, of 9]
    by (auto simp: sample_claimed_def outbox_event_cursor_def)
qed

text \<open>
  C14 (outbox fencing): once a consumer has been claimed again, by whichever worker, an acknowledgement
  with the earlier lease generation fails for ever and changes nothing.
\<close>

theorem outbox_fencing:
  assumes "ulid_laws U" and "db_ok U db"
    and "claim_outbox U NoFault scope c w now lease limit db = (Inr b, db1)"
    and "list_all (\<lambda>x. op_typed U x \<and> \<not> resets U (project_text U scope) (environment_text U scope) x) ops"
    and "claim_outbox U NoFault scope c w' now' lease' limit' (run (store_step U sha256) ops db1) = (Inr b', db2)"
    and "list_all (\<lambda>x. op_typed U x \<and> \<not> resets U (project_text U scope) (environment_text U scope) x) ops'"
    and db3: "db3 = run (store_step U sha256) ops' db2"
  shows "cob_lease_generation b < cob_lease_generation b' \<and>
    (\<exists>err. ack_outbox U fault clock scope c v (cob_lease_generation b) through db3 = (Inl err, db3))"
proof -
  let ?p = "project_text U scope" and ?e = "environment_text U scope"
  let ?here = "\<lambda>r. consumer_key r = (?p, ?e, c)"
  note claim1 = claim_outbox_Inr [OF assms(3)] and claim2 = claim_outbox_Inr [OF assms(5)]
  note machine = store_history_machine [OF assms(1), of sha256 ?p ?e]
  let ?dbm = "run (store_step U sha256) ops db1"
  have ok1: "db_ok U db1" by (rule claim_outbox_tx_ok [OF assms(1,2) claim1])
  have okm: "db_ok U ?dbm"
    by (rule invariant_machine.inv_run [OF monotone_machine.axioms(1) [OF machine] assms(4) ok1])
  have ok2: "db_ok U db2" by (rule claim_outbox_tx_ok [OF assms(1) okm claim2])
  have ok3: "db_ok U db3" unfolding db3
    by (rule invariant_machine.inv_run [OF monotone_machine.axioms(1) [OF machine] assms(6) ok2])
  obtain r1 where r1: "sql_find ?here (db_consumers db1) = Some r1" "cw_lease_generation r1 = uint (cob_lease_generation b)"
    by (rule claim_outbox_tx_effect [OF assms(1,2) claim1]) (auto simp: release_row_def claimed_row_def)
  from extends_consumer [OF okm monotone_machine.le_run [OF machine assms(4) ok1] r1(1)] obtain rm where
    rm: "sql_find ?here (db_consumers ?dbm) = Some rm" "cw_lease_generation r1 \<le> cw_lease_generation rm" by blast
  obtain r2 where r2: "sql_find ?here (db_consumers db2) = Some r2"
    "cw_lease_generation r2 = uint (cob_lease_generation b')" "cw_lease_generation r2 = cw_lease_generation rm + 1"
    by (rule claim_outbox_tx_effect [OF assms(1) okm claim2]) (use rm(1) in \<open>auto simp: release_row_def claimed_row_def\<close>)
  from extends_consumer [OF ok3 monotone_machine.le_run [OF machine assms(6) ok2, folded db3] r2(1)] obtain r3 where
    r3: "sql_find ?here (db_consumers db3) = Some r3" "cw_lease_generation r2 \<le> cw_lease_generation r3" by blast
  have lt: "uint (cob_lease_generation b) < uint (cob_lease_generation b')" using r1 rm r2 by linarith
  then have "uint (cob_lease_generation b) < cw_lease_generation r3" using r2 r3 by linarith
  from stale_ack [OF ok3 r3(1) this] lt show ?thesis by (auto simp: word_less_def)
qed

definition sample_consumer_row :: "WorkerId \<Rightarrow> int \<Rightarrow> int \<Rightarrow> int \<Rightarrow> consumer_row" where
  "sample_consumer_row w g now until =
     \<lparr>cw_project = project_text sample_U sample_scope, cw_environment = environment_text sample_U sample_scope,
      cw_consumer = ''c'', cw_cursor_sequence = 0, cw_cursor_event = None,
      cw_lease_owner = Some (worker_text sample_U w), cw_lease_until = Some until, cw_lease_generation = g,
      cw_claimed_sequence = Some 1, cw_claimed_event = Some (event_text sample_U 7), cw_updated_at = now\<rparr>"

lemma sample_claim_database_eq:
  "sample_claim_database = sample_database\<lparr>db_consumers := [sample_consumer_row 11 1 0 100]\<rparr>"
  by (simp add: sample_claim_database_def claim_outbox_def claim_outbox_tx_def Let_def micros_def transaction_def sample_database_def
      ensure_consumer_def ensure_sequence_def sql_insert_ignore_def sql_update_returning_def sql_update_def consumer_key_def
      same_key_def sequence_key_def lease_free_def lease_row_def sql_succ_def positive_or_zero_u64_def decode_optional_cursor_def
      nonnegative_i64_def sample_pending sample_event_decodes positive_i64_def positive_u64_def claimed_row_def
      sample_consumer_row_def del: bindR_Inr mapR_Inr)

lemma sample_claim_again:
  "\<exists>db'. claim_outbox sample_U NoFault sample_scope ''c'' 12 200 300 10 sample_claim_database =
     (Inr (sample_claimed\<lparr>cob_lease_generation := 2\<rparr>), db')"
  by (simp add: sample_claim_database_eq claim_outbox_def claim_outbox_tx_def Let_def micros_def transaction_def sample_database_def
      ensure_consumer_def ensure_sequence_def sql_insert_ignore_def sql_update_returning_def sql_update_def consumer_key_def
      same_key_def sequence_key_def lease_free_def lease_row_def sql_succ_def positive_or_zero_u64_def decode_optional_cursor_def
      nonnegative_i64_def sample_pending sample_event_decodes positive_i64_def positive_u64_def claimed_row_def
      sample_consumer_row_def sample_claimed_def del: bindR_Inr mapR_Inr)

theorem outbox_fencing_witness:
  "\<exists>db2 err. claim_outbox sample_U NoFault sample_scope ''c'' 12 200 300 10 sample_claim_database =
       (Inr (sample_claimed\<lparr>cob_lease_generation := 2\<rparr>), db2) \<and>
     ack_outbox sample_U NoFault (Inr 250) sample_scope ''c'' 11 1
       \<lparr>cursor_commit_sequence = 1, cursor_event_id = 7\<rparr> db2 = (Inl err, db2)"
proof -
  have l: "list_all (\<lambda>x. op_typed sample_U x \<and>
      \<not> resets sample_U (project_text sample_U sample_scope) (environment_text sample_U sample_scope) x) []" by simp
  obtain db2 where c: "claim_outbox sample_U NoFault sample_scope ''c'' 12 200 300 10
      (run (store_step sample_U sample_sha) [] sample_claim_database) = (Inr (sample_claimed\<lparr>cob_lease_generation := 2\<rparr>), db2)"
    using sample_claim_again by auto
  from outbox_fencing [OF crockford_laws sample_ok sample_claim l c l refl, of NoFault "Inr 250" 11
      "\<lparr>cursor_commit_sequence = 1, cursor_event_id = 7\<rparr>"] c
  show ?thesis by (auto simp: sample_claimed_def)
qed

section \<open>Scheduled invocations\<close>

text \<open>
  C15 (lease fencing): every claim of a scheduled invocation carries a higher lease generation than
  the ones before it, and once it was claimed again a completion with an earlier generation fails
  for ever and changes nothing.
\<close>

theorem schedule_fencing:
  assumes "ulid_laws U" and "db_ok U db"
    and "claim_due_scheduled U NoFault scope w now lease limit db = (Inr recs, db1)" and "rec \<in> set recs"
    and "list_all (\<lambda>x. op_typed U x \<and> \<not> resets U (project_text U scope) (environment_text U scope) x) ops"
    and "claim_due_scheduled U NoFault scope w' now' lease' limit' (run (store_step U sha256) ops db1) = (Inr recs', db2)"
    and "rec' \<in> set recs'" "si_id rec' = si_id rec"
    and "list_all (\<lambda>x. op_typed U x \<and> \<not> resets U (project_text U scope) (environment_text U scope) x) ops'"
    and db3: "db3 = run (store_step U sha256) ops' db2"
  shows "si_lease_generation rec < si_lease_generation rec' \<and>
    (\<exists>err. complete_scheduled U fault clock scope (si_id rec) v (si_lease_generation rec) completion db3 = (Inl err, db3))"
proof -
  let ?p = "project_text U scope" and ?e = "environment_text U scope"
  let ?dbm = "run (store_step U sha256) ops db1"
  note claim1 = claim_due_Inr [OF assms(3)] and claim2 = claim_due_Inr [OF assms(6)]
  note machine = store_history_machine [OF assms(1), of sha256 ?p ?e]
  have ok1: "db_ok U db1" by (rule claim_due_scheduled_tx_ok [OF assms(2) claim1])
  have okm: "db_ok U ?dbm"
    by (rule invariant_machine.inv_run [OF monotone_machine.axioms(1) [OF machine] assms(5) ok1])
  have ok2: "db_ok U db2" by (rule claim_due_scheduled_tx_ok [OF okm claim2])
  have ok3: "db_ok U db3" unfolding db3
    by (rule invariant_machine.inv_run [OF monotone_machine.axioms(1) [OF machine] assms(9) ok2])
  have "uint (si_lease_generation rec) \<le> lease_at U scope (si_id rec) db1"
    by (rule claim_due_leases(2) [OF assms(2) claim1 assms(4)])
  also have "\<dots> \<le> lease_at U scope (si_id rec) ?dbm"
    by (rule extends_lease [OF ok1 okm monotone_machine.le_run [OF machine assms(5) ok1]])
  also have "\<dots> < uint (si_lease_generation rec')"
    using claim_due_leases(1) [OF okm claim2 assms(7)] assms(8) by simp
  finally have lt: "uint (si_lease_generation rec) < uint (si_lease_generation rec')" .
  also have "\<dots> \<le> lease_at U scope (si_id rec) db2"
    using claim_due_leases(2) [OF okm claim2 assms(7)] assms(8) by simp
  also have "\<dots> \<le> lease_at U scope (si_id rec) db3"
    by (rule extends_lease [OF ok2 ok3 monotone_machine.le_run [OF machine assms(9) ok2, folded db3]])
  finally have "uint (si_lease_generation rec) < lease_at U scope (si_id rec) db3" .
  from stale_completion [OF ok3 this] lt show ?thesis by (auto simp: word_less_def)
qed

theorem schedule_fencing_witness:
  "\<exists>err. complete_scheduled sample_U NoFault (Inr 60) sample_scope 8 11 1 CompletionSucceeded
     (sample_lease_database 2 40 50) = (Inl err, sample_lease_database 2 40 50)"
proof -
  have l: "list_all (\<lambda>x. op_typed sample_U x \<and>
      \<not> resets sample_U (project_text sample_U sample_scope) (environment_text sample_U sample_scope) x) []" by simp
  have c: "claim_due_scheduled sample_U NoFault sample_scope 11 40 50 5
      (run (store_step sample_U sample_sha) [] (sample_lease_database 1 20 30)) =
     (Inr [sample_lease_record 2 2 50], sample_lease_database 2 40 50)" using sample_lease(2) by simp
  have m: "sample_lease_record 1 1 30 \<in> set [sample_lease_record 1 1 30]"
    "sample_lease_record 2 2 50 \<in> set [sample_lease_record 2 2 50]"
    "si_id (sample_lease_record 2 2 50) = si_id (sample_lease_record 1 1 30)"
    by (simp_all add: sample_lease_record_def)
  have d: "sample_lease_database 2 40 50 = run (store_step sample_U sample_sha) [] (sample_lease_database 2 40 50)" by simp
  from schedule_fencing [OF crockford_laws sample_ok sample_lease(1) m(1) l c m(2,3) l d] show ?thesis
    by (auto simp: sample_lease_record_def)
qed

end
