(* ===== verification/Sqlite_Roundtrip.thy ===== *)
theory Sqlite_Roundtrip
  imports Sqlite_Export Sqlite_Semantics
begin

text \<open>An export reads back: importing it gives an Environment whose export is the same.\<close>

section \<open>Rows\<close>

lemma timestamp_micros [simp]: "timestamp (micros t) = t"
  by (simp add: timestamp_def micros_def)

lemma positive_i64_of: "0 < i \<Longrightarrow> i \<le> i64_max \<Longrightarrow> positive_i64 (word_of_int i) = Inr i"
  using uint_of_i64 [of i] by (auto simp: positive_i64_def)

lemma nonnegative_i64_of: "0 \<le> i \<Longrightarrow> i \<le> i64_max \<Longrightarrow> nonnegative_i64 (word_of_int i) = Inr i"
  by (simp add: nonnegative_i64_def uint_of_i64)

lemma decode_value_encoded: "ulid_laws U \<Longrightarrow> decode_value U bs = Inr v \<Longrightarrow> encode_value U v = Inr bs"
  by (simp add: decode_value_def encode_value_def decode_stored_value_iff)

lemma document_row_back:
  assumes "ulid_laws U" and "decode_document_row U r = Inr x" and "dw_revision r \<le> i64_max" and "dw_commit_sequence r \<le> i64_max"
  shows "exported_document_row U (dw_project r) (dw_environment r) x =
    Inr (r\<lparr>dw_created_at := micros (timestamp (dw_created_at r)), dw_updated_at := micros (timestamp (dw_updated_at r))\<rparr>)"
  using assms
  by (auto simp: decode_document_row_def exported_document_row_def positive_u64_Inr positive_i64_of decode_value_encoded
      dest!: parse_id_Inr)

lemma index_row_back:
  assumes "ulid_laws U" and "decode_index_row U r = Inr x" and "iw_document_revision r \<le> i64_max" and "iw_commit_sequence r \<le> i64_max"
  shows "exported_index_row U (iw_project r) (iw_environment r) x = Inr r"
  using assms
  by (auto simp: decode_index_row_def exported_index_row_def positive_u64_Inr positive_i64_of index_key_decode_iff dest!: parse_id_Inr)

lemma outbox_row_back:
  assumes "ulid_laws U" and "decode_exported_outbox U r = Inr x" and "ow_commit_sequence r \<le> i64_max"
  shows "exported_outbox_row U (ow_project r) (ow_environment r) x =
    Inr (r\<lparr>ow_created_at := micros (timestamp (ow_created_at r))\<rparr>)"
  using assms
  by (auto simp: decode_exported_outbox_def exported_outbox_row_def positive_u64_Inr positive_i64_of decode_value_encoded
      dest!: parse_id_Inr)

lemma status_text_parse: "parse_status s = Inr st \<Longrightarrow> status_text st = s"
  by (auto simp: parse_status_def split: if_splits)

lemma function_name_text: "function_name_from_str s = Inr f \<Longrightarrow> f = s"
  by (auto simp: function_name_from_str_def split: if_splits list.splits)

lemma schedule_row_back:
  assumes "ulid_laws U" and "decode_schedule_row U r = Inr x" and "sw_commit_sequence r \<le> i64_max"
    and "sw_lease_generation r = sw_attempts r"
  shows "exported_schedule_row U (sw_project r) (sw_environment r) now x =
    Inr (r\<lparr>sw_execute_at := micros (timestamp (sw_execute_at r)),
      sw_lease_until := map_option (\<lambda>u. micros (timestamp u)) (sw_lease_until r), sw_created_at := now, sw_updated_at := now\<rparr>)"
proof -
  have owner: "map_option (worker_text U) w = sw_lease_owner r" if "decode_lease_owner U (sw_lease_owner r) = Inr w" for w
    using that by (auto simp: decode_lease_owner_def split: option.splits dest!: parse_id_Inr)
  have attempts: "uint (word_of_int i :: u32) = i" if "0 \<le> i" "i \<le> 2 ^ 32 - 1" for i
    using that by (simp add: uint_word_of_int take_bit_int_eq_self)
  show ?thesis
    using assms owner
    by (auto simp: decode_schedule_row_def exported_schedule_row_def positive_u64_Inr positive_or_zero_u64_Inr positive_i64_of
        nonnegative_i64_of decode_value_encoded status_text_parse positive_or_zero_u32_def attempts pinned_code_from_str_Inr
        option.map_comp comp_def split: if_splits dest!: parse_id_Inr function_name_text)
qed

section \<open>Tables\<close>

lemma insert_rows_all:
  assumes "traverseR row xs = Inr rs" and "sorted_wrt (\<lambda>a b. \<not> conflict b a) (t @ rs)"
  shows "insert_rows row conflict t xs = Inr (t @ rs)"
  using assms
proof (induction xs arbitrary: t rs)
  case (Cons x xs)
  then obtain r rs' where r: "row x = Inr r" "traverseR row xs = Inr rs'" "rs = r # rs'" by auto
  have "\<not> list_ex (conflict r) t" using Cons.prems(2) by (auto simp: r(3) sorted_wrt_append list_ex_iff)
  with r Cons.IH [OF r(2), of "t @ [r]"] Cons.prems(2) show ?case by (simp add: insert_rows_def sql_insert_def)
qed (simp add: insert_rows_def)

lemma keyed_no_conflict: "keyed key t \<Longrightarrow> sorted_wrt (\<lambda>a b. \<not> same_key key b a) t"
proof (induction t)
  case (Cons a t)
  have "\<not> same_key key b a" if "b \<in> set t" for b
    using Cons.prems imageI [OF that, of key] by (auto simp: keyed_def same_key_def)
  with Cons show ?case by (simp add: keyed_def)
qed simp

lemma schedules_no_conflict:
  "keyed schedule_key t \<Longrightarrow> idempotency_unique t \<Longrightarrow> sorted_wrt (\<lambda>a b. \<not> schedule_conflict b a) t"
proof (induction t)
  case (Cons a t)
  have "schedule_key a \<notin> schedule_key ` set t" using Cons.prems(1) by (simp add: keyed_def)
  moreover have "(sw_project b, sw_environment b, sw_idempotency_key b) \<noteq> (sw_project a, sw_environment a, sw_idempotency_key a)"
    if "sw_idempotency_key a \<noteq> None" "b \<in> set t" for b
    using Cons.prems(2) that unfolding idempotency_unique_def keyed_def by (auto simp: image_iff) (metis option.distinct(1))
  ultimately have "\<not> schedule_conflict b a" if "b \<in> set t" for b
    using that unfolding schedule_conflict_def by (metis image_eqI)
  moreover have "keyed schedule_key t" "idempotency_unique t"
    using Cons.prems by (simp_all add: keyed_def idempotency_unique_def split: if_splits)
  ultimately show ?case using Cons.IH by simp
qed simp

lemma rows_back:
  assumes "traverseR dec rs = Inr xs"
    and "\<And>r x. r \<in> set rs \<Longrightarrow> dec r = Inr x \<Longrightarrow> row x = Inr (g r) \<and> dec (g r) = Inr x"
  shows "traverseR row xs = Inr (map g rs)" and "traverseR dec (map g rs) = Inr xs"
  using assms by (induction rs arbitrary: xs) auto

lemma keyed_append: "keyed key (t @ t') \<longleftrightarrow> keyed key t \<and> keyed key t' \<and> key ` set t \<inter> key ` set t' = {}"
  by (auto simp: keyed_def)

lemma keyed_select: "keyed key t \<Longrightarrow> keyed key (sql_select w order t)"
  unfolding keyed_def sql_select_def by (auto simp: distinct_map inj_on_def)

text \<open>
  \<open>g\<close> rewrites the columns an export does not carry. Rows of the Environment go to an
  otherwise empty part of the table.
\<close>

lemma select_back:
  assumes "\<And>r. r \<in> set t \<Longrightarrow> \<not> w r" and "\<And>r. r \<in> set rs \<Longrightarrow> w (g r) \<and> order (g r) = order r"
    and "rs = sql_select w order t0"
  shows "sql_select w order (t @ map g rs) = map g rs"
proof -
  have "filter w (t @ map g rs) = map g rs" using assms(1,2) by (auto simp: filter_empty_conv filter_id_conv)
  moreover have "map order (map g rs) = map order rs" using assms(2) by auto
  then have "sorted (map order (map g rs))" unfolding assms(3) sql_select_def by (simp only: sorted_sort_key)
  ultimately show ?thesis unfolding sql_select_def by (simp only: sort_key_sorted)
qed

section \<open>The Environment before the import\<close>

definition vacant :: "string \<Rightarrow> string \<Rightarrow> database \<Rightarrow> bool" where
  "vacant p e db \<longleftrightarrow>
     (p, e) \<notin> sequence_key ` set (db_sequences db) \<and>
     (\<forall>r \<in> set (db_documents db). \<not> (dw_project r = p \<and> dw_environment r = e)) \<and>
     (\<forall>r \<in> set (db_indexes db). \<not> (iw_project r = p \<and> iw_environment r = e)) \<and>
     (\<forall>r \<in> set (db_outbox db). \<not> (ow_project r = p \<and> ow_environment r = e)) \<and>
     (\<forall>r \<in> set (db_schedules db). \<not> (sw_project r = p \<and> sw_environment r = e))"

lemma cascade_vacant: "vacant p e (cascade_delete p e db)"
  by (auto simp: vacant_def cascade_delete_def sql_delete_def sequence_key_def)

lemma absent_vacant:
  assumes "db_ok U db" and "sql_find (\<lambda>r. sequence_key r = (p, e)) (db_sequences db) = None"
  shows "vacant p e db"
proof -
  have "sequence_of (db_sequences db) p e = 0" using assms(2) by (simp add: sequence_of_def)
  then have "\<not> written (sequence_of (db_sequences db)) p e n" for n by (simp add: written_def)
  with assms show ?thesis
    unfolding vacant_def
    by (force simp: db_ok_def tables_ok_def table_ok_def document_row_ok_def index_row_ok_def outbox_row_ok_def schedule_row_ok_def
        sql_find_def find_None_iff)
qed

lemma sequence_of_snoc:
  assumes "(p, e) \<notin> sequence_key ` set t" and "r = \<lparr>ew_project = p, ew_environment = e, ew_commit_sequence = n\<rparr>"
  shows "sequence_of (t @ [r]) p' e' = (if (p', e') = (p, e) then n else sequence_of t p' e')"
proof -
  have "find P (xs @ ys) = (case find P xs of None \<Rightarrow> find P ys | Some x \<Rightarrow> Some x)" for P and xs ys :: "sequence_row list"
    by (induction xs) auto
  moreover have "find (\<lambda>r. sequence_key r = (p, e)) t = None" using assms(1) by (force simp: find_None_iff)
  ultimately show ?thesis
    by (auto simp: sequence_of_def sql_find_def assms(2) sequence_key_def split: option.splits)
qed

lemma vacated:
  assumes "db_ok U db" and "db1 = (if sql_find (\<lambda>r. sequence_key r = (p, e)) (db_sequences db) \<noteq> None then cascade_delete p e db else db)"
  shows "db_ok U db1" and "vacant p e db1"
  using assms cascade_delete_ok cascade_vacant absent_vacant by auto

lemma table_back:
  assumes "keyed key t0" and rs: "rs = sql_select w order t0" and dec: "traverseR dec rs = Inr xs"
    and g: "\<And>r x. r \<in> set t0 \<Longrightarrow> w r \<Longrightarrow> dec r = Inr x \<Longrightarrow>
      row x = Inr (g r) \<and> dec (g r) = Inr x \<and> w (g r) \<and> order (g r) = order r \<and> key (g r) = key r \<and> ok (g r)"
    and t: "table_ok key ok t" "\<And>r. r \<in> set t \<Longrightarrow> \<not> w r" and disj: "\<And>r r'. w r \<Longrightarrow> \<not> w r' \<Longrightarrow> key r \<noteq> key r'"
  shows "traverseR row xs = Inr (map g rs)" and "sql_select w order (t @ map g rs) = map g rs"
    and "traverseR dec (map g rs) = Inr xs" and "table_ok key ok (t @ map g rs)"
    and "insert_rows row (same_key key) t xs = Inr (t @ map g rs)"
proof -
  have mem: "r \<in> set t0 \<and> w r" if "r \<in> set rs" for r using that by (simp add: rs sql_select_def)
  have dec_each: "\<exists>x. dec r = Inr x" if "r \<in> set rs" for r
    using dec that by (auto simp: traverseR_Inr list_all2_conv_all_nth in_set_conv_nth)
  have each: "w (g r) \<and> order (g r) = order r \<and> key (g r) = key r \<and> ok (g r)" if "r \<in> set rs" for r
    using g mem dec_each that by blast
  show ins: "traverseR row xs = Inr (map g rs)" and "traverseR dec (map g rs) = Inr xs"
    using rows_back [OF dec, of row g] g mem by blast+
  show "sql_select w order (t @ map g rs) = map g rs"
    by (rule select_back [OF t(2) _ rs]) (use each in auto)
  have "map key (map g rs) = map key rs" using each by simp
  then have "keyed key (map g rs)" using keyed_select [OF assms(1), of w order] unfolding keyed_def rs by (simp only:)
  then show ok: "table_ok key ok (t @ map g rs)"
    using t disj each by (fastforce simp: table_ok_def keyed_append)
  show "insert_rows row (same_key key) t xs = Inr (t @ map g rs)"
    by (rule insert_rows_all [OF ins]) (use ok in \<open>simp add: table_ok_def keyed_no_conflict\<close>)
qed

section \<open>The round trip\<close>

abbreviation scope_documents :: "string \<Rightarrow> string \<Rightarrow> document_row list \<Rightarrow> document_row list" where
  "scope_documents p e \<equiv> sql_select (\<lambda>r. dw_project r = p \<and> dw_environment r = e) (\<lambda>r. (dw_table r, dw_document r))"

abbreviation scope_indexes :: "string \<Rightarrow> string \<Rightarrow> index_row list \<Rightarrow> index_row list" where
  "scope_indexes p e \<equiv> sql_select (\<lambda>r. iw_project r = p \<and> iw_environment r = e) (\<lambda>r. (iw_index r, iw_key r, iw_document r))"

abbreviation scope_outbox :: "string \<Rightarrow> string \<Rightarrow> outbox_row list \<Rightarrow> outbox_row list" where
  "scope_outbox p e \<equiv> sql_select (\<lambda>r. ow_project r = p \<and> ow_environment r = e) event_position"

abbreviation scope_schedules :: "string \<Rightarrow> string \<Rightarrow> schedule_row list \<Rightarrow> schedule_row list" where
  "scope_schedules p e \<equiv> sql_select (\<lambda>r. sw_project r = p \<and> sw_environment r = e) sw_scheduled"

text \<open>What an export says of the rows.\<close>

lemma export_environment_Inr:
  assumes "export_environment U None scope db = Inr x"
  shows "ex_scope x = scope" and "begin_read U scope db = Inr (ex_commit_sequence x)" and "validate_export U x = Inr ()"
    and "traverseR (decode_document_row U) (sql_select (\<lambda>r. dw_project r = project_text U scope \<and> dw_environment r = environment_text U scope)
      (\<lambda>r. (dw_table r, dw_document r)) (db_documents db)) = Inr (ex_documents x)"
    and "traverseR (decode_index_row U) (sql_select (\<lambda>r. iw_project r = project_text U scope \<and> iw_environment r = environment_text U scope)
      (\<lambda>r. (iw_index r, iw_key r, iw_document r)) (db_indexes db)) = Inr (ex_indexes x)"
    and "traverseR (decode_exported_outbox U) (sql_select (\<lambda>r. ow_project r = project_text U scope \<and> ow_environment r = environment_text U scope)
      event_position (db_outbox db)) = Inr (ex_outbox x)"
    and "traverseR (decode_schedule_row U) (sql_select (\<lambda>r. sw_project r = project_text U scope \<and> sw_environment r = environment_text U scope)
      sw_scheduled (db_schedules db)) = Inr (ex_schedules x)"
    and "ex_format_version x = 1"
  using assms by (auto simp: export_environment_def Let_def)

lemma export_environment_InrI:
  assumes "ex_scope x = scope" and "begin_read U scope db = Inr (ex_commit_sequence x)" and "validate_export U x = Inr ()"
    and "traverseR (decode_document_row U) (scope_documents (project_text U scope) (environment_text U scope) (db_documents db)) =
      Inr (ex_documents x)"
    and "traverseR (decode_index_row U) (scope_indexes (project_text U scope) (environment_text U scope) (db_indexes db)) =
      Inr (ex_indexes x)"
    and "traverseR (decode_exported_outbox U) (scope_outbox (project_text U scope) (environment_text U scope) (db_outbox db)) =
      Inr (ex_outbox x)"
    and "traverseR (decode_schedule_row U) (scope_schedules (project_text U scope) (environment_text U scope) (db_schedules db)) =
      Inr (ex_schedules x)"
    and "ex_format_version x = 1"
  shows "export_environment U None scope db = Inr x"
  using assms by (cases x) (simp add: export_environment_def Let_def)

text \<open>The rows the import writes, from those the export read.\<close>

definition reimported_document :: "document_row \<Rightarrow> document_row" where
  "reimported_document r =
     r\<lparr>dw_created_at := micros (timestamp (dw_created_at r)), dw_updated_at := micros (timestamp (dw_updated_at r))\<rparr>"

definition reimported_event :: "outbox_row \<Rightarrow> outbox_row" where
  "reimported_event r = r\<lparr>ow_created_at := micros (timestamp (ow_created_at r))\<rparr>"

definition reimported_schedule :: "int \<Rightarrow> schedule_row \<Rightarrow> schedule_row" where
  "reimported_schedule now r =
     r\<lparr>sw_execute_at := micros (timestamp (sw_execute_at r)),
       sw_lease_until := map_option (\<lambda>u. micros (timestamp u)) (sw_lease_until r), sw_created_at := now, sw_updated_at := now\<rparr>"

lemma reimported_decodes:
  "decode_document_row U (reimported_document d) = decode_document_row U d"
  "decode_exported_outbox U (reimported_event v) = decode_exported_outbox U v"
  "decode_outbox_event U (reimported_event v) = decode_outbox_event U v"
  "decode_schedule_row U (reimported_schedule now s) = decode_schedule_row U s"
  by (simp_all add: reimported_document_def reimported_event_def reimported_schedule_def decode_document_row_def
      decode_exported_outbox_def decode_outbox_event_def decode_schedule_row_def option.map_comp comp_def)

lemma reimported_ok:
  "document_row_ok U bnd d \<Longrightarrow> document_row_ok U bnd (reimported_document d)"
  "outbox_row_ok U bnd v \<Longrightarrow> outbox_row_ok U bnd (reimported_event v)"
  "schedule_row_ok U bnd s \<Longrightarrow> schedule_row_ok U bnd (reimported_schedule now s)"
  unfolding document_row_ok_def outbox_row_ok_def schedule_row_ok_def reimported_decodes
  by (simp_all add: reimported_document_def reimported_event_def reimported_schedule_def)

lemma idempotency_unique_append:
  assumes "idempotency_unique t" and "idempotency_unique t'"
    and "\<And>r r'. r \<in> set t \<Longrightarrow> r' \<in> set t' \<Longrightarrow> (sw_project r, sw_environment r) \<noteq> (sw_project r', sw_environment r')"
  shows "idempotency_unique (t @ t')"
  using assms unfolding idempotency_unique_def by (auto simp: keyed_append)

lemma idempotency_unique_select:
  assumes "idempotency_unique t"
  shows "idempotency_unique (sql_select w order t)"
proof -
  have "filter P (sql_select w order t) = sql_select w order (filter P t)" for P
    unfolding sql_select_def filter_sort filter_filter by (meson conj_commute)
  then show ?thesis using assms unfolding idempotency_unique_def by (simp only: keyed_select)
qed

lemma sequence_of_absent: "(p, e) \<notin> sequence_key ` set t \<Longrightarrow> sequence_of t p e = 0"
  by (auto simp: sequence_of_def sql_find_def split: option.splits dest!: find_Some_iff [THEN iffD1]) (metis image_eqI nth_mem)

lemma documents_back:
  assumes laws: "ulid_laws U" and t0: "table_ok document_key (document_row_ok U b) t0" and "b p e \<le> b' p e"
    and rs: "rs = scope_documents p e t0" and dec: "traverseR (decode_document_row U) rs = Inr xs"
    and t: "table_ok document_key (document_row_ok U b') t" "\<And>r. r \<in> set t \<Longrightarrow> \<not> (dw_project r = p \<and> dw_environment r = e)"
  shows "scope_documents p e (t @ map reimported_document rs) = map reimported_document rs"
    and "traverseR (decode_document_row U) (map reimported_document rs) = Inr xs"
    and "table_ok document_key (document_row_ok U b') (t @ map reimported_document rs)"
    and "insert_rows (exported_document_row U p e) (same_key document_key) t xs = Inr (t @ map reimported_document rs)"
proof -
  have each: "exported_document_row U p e x = Inr (reimported_document r) \<and> decode_document_row U (reimported_document r) = Inr x \<and>
      (dw_project (reimported_document r) = p \<and> dw_environment (reimported_document r) = e) \<and>
      (dw_table (reimported_document r), dw_document (reimported_document r)) = (dw_table r, dw_document r) \<and>
      document_key (reimported_document r) = document_key r \<and> document_row_ok U b' (reimported_document r)"
    if r: "r \<in> set t0" "dw_project r = p \<and> dw_environment r = e" and d: "decode_document_row U r = Inr x" for r x
  proof -
    have ok: "document_row_ok U b r" using t0 r(1) by (simp add: table_ok_def)
    then have "exported_document_row U p e x = Inr (reimported_document r)"
      using document_row_back [OF laws d] r(2) by (simp add: document_row_ok_def written_def reimported_document_def)
    moreover have "document_row_ok U b' r" by (rule row_ok_mono(2) [OF ok]) (use r(2) assms(3) in simp)
    ultimately show ?thesis using r(2) d by (simp add: reimported_decodes reimported_ok) (simp add: reimported_document_def document_key_def)
  qed
  have keyed: "keyed document_key t0" using t0 by (simp add: table_ok_def)
  have disj: "\<And>r r'. dw_project r = p \<and> dw_environment r = e \<Longrightarrow> \<not> (dw_project r' = p \<and> dw_environment r' = e) \<Longrightarrow>
      document_key r \<noteq> document_key r'" by (auto simp: document_key_def)
  note b = table_back [where key = document_key and ok = "document_row_ok U b'", OF keyed rs dec each t disj]
  show "scope_documents p e (t @ map reimported_document rs) = map reimported_document rs" by (rule b(2))
  show "traverseR (decode_document_row U) (map reimported_document rs) = Inr xs" by (rule b(3))
  show "table_ok document_key (document_row_ok U b') (t @ map reimported_document rs)" by (rule b(4))
  show "insert_rows (exported_document_row U p e) (same_key document_key) t xs = Inr (t @ map reimported_document rs)" by (rule b(5))
qed

lemma indexes_back:
  assumes laws: "ulid_laws U" and t0: "table_ok index_entry_key (index_row_ok U b) t0" and "b p e \<le> b' p e"
    and rs: "rs = scope_indexes p e t0" and dec: "traverseR (decode_index_row U) rs = Inr xs"
    and t: "table_ok index_entry_key (index_row_ok U b') t" "\<And>r. r \<in> set t \<Longrightarrow> \<not> (iw_project r = p \<and> iw_environment r = e)"
  shows "scope_indexes p e (t @ rs) = rs" and "table_ok index_entry_key (index_row_ok U b') (t @ rs)"
    and "insert_rows (exported_index_row U p e) (same_key index_entry_key) t xs = Inr (t @ rs)"
proof -
  have each: "exported_index_row U p e x = Inr r \<and> decode_index_row U r = Inr x \<and>
      (iw_project r = p \<and> iw_environment r = e) \<and>
      (iw_index r, iw_key r, iw_document r) = (iw_index r, iw_key r, iw_document r) \<and>
      index_entry_key r = index_entry_key r \<and> index_row_ok U b' r"
    if r: "r \<in> set t0" "iw_project r = p \<and> iw_environment r = e" and d: "decode_index_row U r = Inr x" for r x
  proof -
    have ok: "index_row_ok U b r" using t0 r(1) by (simp add: table_ok_def)
    then have "exported_index_row U p e x = Inr r"
      using index_row_back [OF laws d] r(2) by (simp add: index_row_ok_def written_def)
    moreover have "index_row_ok U b' r" by (rule row_ok_mono(3) [OF ok]) (use r(2) assms(3) in simp)
    ultimately show ?thesis using r(2) d by simp
  qed
  have keyed: "keyed index_entry_key t0" using t0 by (simp add: table_ok_def)
  have disj: "\<And>r r'. iw_project r = p \<and> iw_environment r = e \<Longrightarrow> \<not> (iw_project r' = p \<and> iw_environment r' = e) \<Longrightarrow>
      index_entry_key r \<noteq> index_entry_key r'" by (auto simp: index_entry_key_def)
  note b = table_back [where key = index_entry_key and ok = "index_row_ok U b'" and g = "\<lambda>r. r", OF keyed rs dec each t disj, unfolded map_ident]
  show "scope_indexes p e (t @ rs) = rs" by (rule b(2))
  show "table_ok index_entry_key (index_row_ok U b') (t @ rs)" by (rule b(4))
  show "insert_rows (exported_index_row U p e) (same_key index_entry_key) t xs = Inr (t @ rs)" by (rule b(5))
qed

lemma outbox_back:
  assumes laws: "ulid_laws U" and t0: "table_ok outbox_key (outbox_row_ok U b) t0" and "b p e \<le> b' p e"
    and rs: "rs = scope_outbox p e t0" and dec: "traverseR (decode_exported_outbox U) rs = Inr xs"
    and t: "table_ok outbox_key (outbox_row_ok U b') t" "\<And>r. r \<in> set t \<Longrightarrow> \<not> (ow_project r = p \<and> ow_environment r = e)"
  shows "scope_outbox p e (t @ map reimported_event rs) = map reimported_event rs"
    and "traverseR (decode_exported_outbox U) (map reimported_event rs) = Inr xs"
    and "table_ok outbox_key (outbox_row_ok U b') (t @ map reimported_event rs)"
    and "insert_rows (exported_outbox_row U p e) (same_key outbox_key) t xs = Inr (t @ map reimported_event rs)"
proof -
  have each: "exported_outbox_row U p e x = Inr (reimported_event r) \<and> decode_exported_outbox U (reimported_event r) = Inr x \<and>
      (ow_project (reimported_event r) = p \<and> ow_environment (reimported_event r) = e) \<and>
      event_position (reimported_event r) = event_position r \<and>
      outbox_key (reimported_event r) = outbox_key r \<and> outbox_row_ok U b' (reimported_event r)"
    if r: "r \<in> set t0" "ow_project r = p \<and> ow_environment r = e" and d: "decode_exported_outbox U r = Inr x" for r x
  proof -
    have ok: "outbox_row_ok U b r" using t0 r(1) by (simp add: table_ok_def)
    then have "exported_outbox_row U p e x = Inr (reimported_event r)"
      using outbox_row_back [OF laws d] r(2) by (simp add: outbox_row_ok_def written_def reimported_event_def)
    moreover have "outbox_row_ok U b' r" by (rule row_ok_mono(4) [OF ok]) (use r(2) assms(3) in simp)
    ultimately show ?thesis using r(2) d
      by (simp add: reimported_decodes reimported_ok) (simp add: reimported_event_def outbox_key_def event_position_def)
  qed
  have keyed: "keyed outbox_key t0" using t0 by (simp add: table_ok_def)
  have disj: "\<And>r r'. ow_project r = p \<and> ow_environment r = e \<Longrightarrow> \<not> (ow_project r' = p \<and> ow_environment r' = e) \<Longrightarrow>
      outbox_key r \<noteq> outbox_key r'" by (auto simp: outbox_key_def)
  note b = table_back [where key = outbox_key and ok = "outbox_row_ok U b'", OF keyed rs dec each t disj]
  show "scope_outbox p e (t @ map reimported_event rs) = map reimported_event rs" by (rule b(2))
  show "traverseR (decode_exported_outbox U) (map reimported_event rs) = Inr xs" by (rule b(3))
  show "table_ok outbox_key (outbox_row_ok U b') (t @ map reimported_event rs)" by (rule b(4))
  show "insert_rows (exported_outbox_row U p e) (same_key outbox_key) t xs = Inr (t @ map reimported_event rs)" by (rule b(5))
qed

lemma schedules_back:
  assumes laws: "ulid_laws U" and t0: "table_ok schedule_key (schedule_row_ok U b) t0" "idempotency_unique t0" and "b p e \<le> b' p e"
    and rs: "rs = scope_schedules p e t0" and dec: "traverseR (decode_schedule_row U) rs = Inr xs"
    and t: "table_ok schedule_key (schedule_row_ok U b') t" "\<And>r. r \<in> set t \<Longrightarrow> \<not> (sw_project r = p \<and> sw_environment r = e)"
    and "idempotency_unique t"
  shows "scope_schedules p e (t @ map (reimported_schedule now) rs) = map (reimported_schedule now) rs"
    and "traverseR (decode_schedule_row U) (map (reimported_schedule now) rs) = Inr xs"
    and "table_ok schedule_key (schedule_row_ok U b') (t @ map (reimported_schedule now) rs)"
    and "insert_rows (exported_schedule_row U p e now) schedule_conflict t xs = Inr (t @ map (reimported_schedule now) rs)"
    and "idempotency_unique (t @ map (reimported_schedule now) rs)"
proof -
  let ?g = "reimported_schedule now"
  have each: "exported_schedule_row U p e now x = Inr (?g r) \<and> decode_schedule_row U (?g r) = Inr x \<and>
      (sw_project (?g r) = p \<and> sw_environment (?g r) = e) \<and> sw_scheduled (?g r) = sw_scheduled r \<and>
      schedule_key (?g r) = schedule_key r \<and> schedule_row_ok U b' (?g r)"
    if r: "r \<in> set t0" "sw_project r = p \<and> sw_environment r = e" and d: "decode_schedule_row U r = Inr x" for r x
  proof -
    have ok: "schedule_row_ok U b r" using t0(1) r(1) by (simp add: table_ok_def)
    then have "exported_schedule_row U p e now x = Inr (?g r)"
      using schedule_row_back [OF laws d] r(2) by (simp add: schedule_row_ok_def written_def reimported_schedule_def)
    moreover have "schedule_row_ok U b' r" by (rule row_ok_mono(5) [OF ok]) (use r(2) assms(4) in simp)
    ultimately show ?thesis using r(2) d
      by (simp add: reimported_decodes reimported_ok) (simp add: reimported_schedule_def schedule_key_def)
  qed
  have keyed: "keyed schedule_key t0" using t0(1) by (simp add: table_ok_def)
  have disj: "\<And>r r'. sw_project r = p \<and> sw_environment r = e \<Longrightarrow> \<not> (sw_project r' = p \<and> sw_environment r' = e) \<Longrightarrow>
      schedule_key r \<noteq> schedule_key r'" by (auto simp: schedule_key_def)
  note b = table_back [where key = schedule_key and ok = "schedule_row_ok U b'", OF keyed rs dec each t disj]
  show "scope_schedules p e (t @ map ?g rs) = map ?g rs" by (rule b(2))
  show "traverseR (decode_schedule_row U) (map ?g rs) = Inr xs" by (rule b(3))
  show ok: "table_ok schedule_key (schedule_row_ok U b') (t @ map ?g rs)" by (rule b(4))
  have "idempotency_unique (map ?g rs)"
    using idempotency_unique_select [OF t0(2)] idempotency_unique_map [of rs ?g] unfolding rs by (simp add: reimported_schedule_def)
  then show unique: "idempotency_unique (t @ map ?g rs)"
    by (rule idempotency_unique_append [OF assms(9)]) (use t(2) in \<open>auto simp: rs sql_select_def reimported_schedule_def\<close>)
  have ins: "traverseR (exported_schedule_row U p e now) xs = Inr (map ?g rs)" by (rule b(1))
  have "keyed schedule_key (t @ map ?g rs)" using ok unfolding table_ok_def by blast
  then show "insert_rows (exported_schedule_row U p e now) schedule_conflict t xs = Inr (t @ map ?g rs)"
    by (intro insert_rows_all [OF ins] schedules_no_conflict unique)
qed

lemma import_back:
  assumes laws: "ulid_laws U" and ok: "db_ok U db" and x: "export_environment U None scope db = Inr x"
    and ok1: "db_ok U db1" and vac: "vacant (project_text U scope) (environment_text U scope) db1"
    and s: "s = db_sequences db1 @ [\<lparr>ew_project = project_text U scope, ew_environment = environment_text U scope,
      ew_commit_sequence = latest_sequence\<rparr>]"
    and n: "latest_sequence = sequence_of (db_sequences db) (project_text U scope) (environment_text U scope)"
  obtains D I V S where
    "insert_export_records U (Inr now) x (db1\<lparr>db_sequences := s\<rparr>) =
      Inr (db1\<lparr>db_sequences := s, db_documents := D, db_indexes := I, db_outbox := V, db_schedules := S\<rparr>)"
    "db_ok U (db1\<lparr>db_sequences := s, db_documents := D, db_indexes := I, db_outbox := V, db_schedules := S\<rparr>)"
    "export_environment U None scope (db1\<lparr>db_sequences := s, db_documents := D, db_indexes := I, db_outbox := V, db_schedules := S\<rparr>) = Inr x"
proof -
  let ?p = "project_text U scope" and ?e = "environment_text U scope"
  let ?b = "sequence_of (db_sequences db)" and ?b' = "sequence_of s"
  note ex = export_environment_Inr [OF x]
  from ok have t: "table_ok sequence_key sequence_row_ok (db_sequences db)" "table_ok document_key (document_row_ok U ?b) (db_documents db)"
    "table_ok index_entry_key (index_row_ok U ?b) (db_indexes db)" "table_ok outbox_key (outbox_row_ok U ?b) (db_outbox db)"
    "table_ok schedule_key (schedule_row_ok U ?b) (db_schedules db)" "idempotency_unique (db_schedules db)"
    by (simp_all add: db_ok_def tables_ok_def)
  have fresh: "(?p, ?e) \<notin> sequence_key ` set (db_sequences db1)" using vac by (simp add: vacant_def)
  have b': "?b' p' e' = (if (p', e') = (?p, ?e) then ?b ?p ?e else sequence_of (db_sequences db1) p' e')" for p' e'
    unfolding s n by (rule sequence_of_snoc [OF fresh refl])
  have here: "?b ?p ?e \<le> ?b' ?p ?e" by (simp add: b')
  have grow: "sequence_of (db_sequences db1) p' e' \<le> ?b' p' e'" for p' e'
    using sequence_of_bounds(1) [OF t(1), of ?p ?e] sequence_of_absent [OF fresh] by (simp add: b')
  have t1: "tables_ok U ?b' db1" by (rule tables_ok_mono [OF ok1 [unfolded db_ok_def] grow])
  then have u: "table_ok document_key (document_row_ok U ?b') (db_documents db1)" "table_ok index_entry_key (index_row_ok U ?b') (db_indexes db1)"
    "table_ok outbox_key (outbox_row_ok U ?b') (db_outbox db1)" "table_ok schedule_key (schedule_row_ok U ?b') (db_schedules db1)"
    "idempotency_unique (db_schedules db1)" "table_ok sequence_key sequence_row_ok (db_sequences db1)"
    by (simp_all add: tables_ok_def)
  have v: "\<And>r. r \<in> set (db_documents db1) \<Longrightarrow> \<not> (dw_project r = ?p \<and> dw_environment r = ?e)"
    "\<And>r. r \<in> set (db_indexes db1) \<Longrightarrow> \<not> (iw_project r = ?p \<and> iw_environment r = ?e)"
    "\<And>r. r \<in> set (db_outbox db1) \<Longrightarrow> \<not> (ow_project r = ?p \<and> ow_environment r = ?e)"
    "\<And>r. r \<in> set (db_schedules db1) \<Longrightarrow> \<not> (sw_project r = ?p \<and> sw_environment r = ?e)"
    using vac by (simp_all add: vacant_def)
  note d = documents_back [OF laws t(2) here refl ex(4) u(1) v(1)] and i = indexes_back [OF laws t(3) here refl ex(5) u(2) v(2)]
    and o = outbox_back [OF laws t(4) here refl ex(6) u(3) v(3)]
    and sch = schedules_back [OF laws t(5,6) here refl ex(7) u(4) v(4) u(5), where now = now]
  let ?db = "db1\<lparr>db_sequences := s,
      db_documents := db_documents db1 @ map reimported_document (scope_documents ?p ?e (db_documents db)),
      db_indexes := db_indexes db1 @ scope_indexes ?p ?e (db_indexes db),
      db_outbox := db_outbox db1 @ map reimported_event (scope_outbox ?p ?e (db_outbox db)),
      db_schedules := db_schedules db1 @ map (reimported_schedule now) (scope_schedules ?p ?e (db_schedules db))\<rparr>"
  show thesis
  proof (rule that)
    show "insert_export_records U (Inr now) x (db1\<lparr>db_sequences := s\<rparr>) = Inr ?db"
      unfolding insert_export_records_def Let_def ex(1) using d(4) i(3) o(4) sch(4) by simp
    have "table_ok sequence_key sequence_row_ok s"
      unfolding s by (rule table_ok_snoc [OF u(6)])
        (use fresh sequence_of_bounds [OF t(1), of ?p ?e] in \<open>simp_all add: sequence_row_ok_def sequence_key_def n\<close>)
    then show "db_ok U ?db"
      using t1 d(3) i(2) o(3) sch(3,5) unfolding db_ok_def tables_ok_def by simp
    have "begin_read U scope ?db = begin_read U scope db"
      using b' [of ?p ?e] by (simp add: begin_read_def sequence_of_def [symmetric])
    then show "export_environment U None scope ?db = Inr x"
      using d(1,2) i(1) o(1,2) sch(1,2) ex by (intro export_environment_InrI) simp_all
  qed
qed

lemma scope_view_import:
  assumes "(p', e') \<noteq> (p, e)"
    and "insert_export_records U clock x db = Inr db'" and "p = project_text U (ex_scope x)" and "e = environment_text U (ex_scope x)"
  shows "scope_view p' e' db' = scope_view p' e' db"
proof -
  have rows: "filter q t' = filter q t" if "insert_rows row conflict t xs = Inr t'" "\<And>x r. row x = Inr r \<Longrightarrow> \<not> q r"
    for row :: "'a \<Rightarrow> StoreError + 'r" and conflict q t t' xs
    using that(1) unfolding insert_rows_def
  proof (induction xs arbitrary: t)
    case (Cons x xs)
    then obtain r where r: "row x = Inr r" "foldR (\<lambda>t x. bindR (row x) (\<lambda>r. sql_insert Internal conflict r t)) (t @ [r]) xs = Inr t'"
      by (auto simp: sql_insert_def split: if_splits)
    from Cons.IH [OF r(2)] that(2) [OF r(1)] show ?case by simp
  qed simp
  from assms(2) obtain D I V now S where
    "insert_rows (exported_document_row U p e) (same_key document_key) (db_documents db) (ex_documents x) = Inr D"
    "insert_rows (exported_index_row U p e) (same_key index_entry_key) (db_indexes db) (ex_indexes x) = Inr I"
    "insert_rows (exported_outbox_row U p e) (same_key outbox_key) (db_outbox db) (ex_outbox x) = Inr V"
    "insert_rows (exported_schedule_row U p e now) schedule_conflict (db_schedules db) (ex_schedules x) = Inr S"
    and db': "db' = db\<lparr>db_documents := D, db_indexes := I, db_outbox := V, db_schedules := S\<rparr>"
    by (auto simp: insert_export_records_def Let_def assms(3,4))
  note ins = this(1-4)
  show ?thesis
    unfolding db'
  proof (rule scope_view_eqI; simp)
    show "filter (\<lambda>r. dw_project r = p' \<and> dw_environment r = e') D = filter (\<lambda>r. dw_project r = p' \<and> dw_environment r = e') (db_documents db)"
      by (rule rows [OF ins(1)]) (use assms(1) in \<open>auto simp: exported_document_row_def\<close>)
    show "filter (\<lambda>r. iw_project r = p' \<and> iw_environment r = e') I = filter (\<lambda>r. iw_project r = p' \<and> iw_environment r = e') (db_indexes db)"
      by (rule rows [OF ins(2)]) (use assms(1) in \<open>auto simp: exported_index_row_def\<close>)
    show "filter (\<lambda>r. ow_project r = p' \<and> ow_environment r = e') V = filter (\<lambda>r. ow_project r = p' \<and> ow_environment r = e') (db_outbox db)"
      by (rule rows [OF ins(3)]) (use assms(1) in \<open>auto simp: exported_outbox_row_def\<close>)
    show "filter (\<lambda>r. sw_project r = p' \<and> sw_environment r = e') S = filter (\<lambda>r. sw_project r = p' \<and> sw_environment r = e') (db_schedules db)"
      by (rule rows [OF ins(4)]) (use assms(1) in \<open>auto simp: exported_schedule_row_def\<close>)
  qed
qed

lemma import_roundtrip:
  assumes laws: "ulid_laws U" and ok: "db_ok U db" and x: "export_environment U None scope db = Inr x" and ok': "db_ok U db'"
    and free: "replace \<or> sql_find (\<lambda>r. sequence_key r = (project_text U scope, environment_text U scope)) (db_sequences db') = None"
  shows "\<exists>db2. import_environment_inner U NoFault (Inr now) x replace db' = (Inr (), db2) \<and> db_ok U db2 \<and>
    export_environment U None scope db2 = Inr x \<and>
    (\<forall>p' e'. (p', e') \<noteq> (project_text U scope, environment_text U scope) \<longrightarrow> scope_view p' e' db2 = scope_view p' e' db')"
proof -
  let ?p = "project_text U scope" and ?e = "environment_text U scope"
  define present where "present \<longleftrightarrow> sql_find (\<lambda>r. sequence_key r = (?p, ?e)) (db_sequences db') \<noteq> None"
  have stays: "\<not> (present \<and> \<not> replace)" using free by (auto simp: present_def)
  define db1 where "db1 = (if present then cascade_delete ?p ?e db' else db')"
  note vac = vacated [OF ok' db1_def [unfolded present_def]]
  note ex = export_environment_Inr [OF x]
  have seq: "table_ok sequence_key sequence_row_ok (db_sequences db)" using ok by (simp add: db_ok_def tables_ok_def)
  let ?n = "sequence_of (db_sequences db) ?p ?e"
  have "ex_commit_sequence x = word_of_int ?n"
    using ex(2) by (simp add: begin_read_def sequence_of_def positive_or_zero_u64_Inr)
  then have n: "nonnegative_i64 (ex_commit_sequence x) = Inr ?n"
    using nonnegative_i64_of [OF sequence_of_bounds [OF seq]] by simp
  let ?row = "\<lparr>ew_project = ?p, ew_environment = ?e, ew_commit_sequence = ?n\<rparr>"
  let ?s = "db_sequences db1 @ [?row]"
  have ins: "sql_insert Internal (same_key sequence_key) ?row (db_sequences db1) = Inr ?s"
    using vac(2) by (simp add: sql_insert_def list_ex_same_key vacant_def) (simp add: sequence_key_def)
  from import_back [OF laws ok x vac refl refl, where now = now] obtain db2 where
    r: "insert_export_records U (Inr now) x (db1\<lparr>db_sequences := ?s\<rparr>) = Inr db2" "db_ok U db2"
      "export_environment U None scope db2 = Inr x" by blast
  have "import_environment_tx U (Inr now) x replace db' = Inr ((), db2)"
    unfolding import_environment_tx_def Let_def ex(1) present_def [symmetric] db1_def [symmetric]
    using n ins r(1) stays by simp
  moreover have "scope_view p' e' db2 = scope_view p' e' db'" if ne: "(p', e') \<noteq> (?p, ?e)" for p' e'
  proof -
    have "scope_view p' e' db2 = scope_view p' e' (db1\<lparr>db_sequences := ?s\<rparr>)"
      by (rule scope_view_import [OF ne r(1)]) (simp_all add: ex(1))
    also have "\<dots> = scope_view p' e' db1" using ne by (auto simp: scope_view_def)
    also have "\<dots> = scope_view p' e' db'" using ne cascade_delete_frame by (auto simp: db1_def)
    finally show ?thesis .
  qed
  ultimately show ?thesis
    using r(2,3) by (intro exI [of _ db2]) (simp add: import_environment_inner_def ex(3) transaction_def)
qed

end
