(* ===== verification/Sqlite_Export_Reads.thy ===== *)
theory Sqlite_Export_Reads
  imports Sqlite_Roundtrip
begin

text \<open>
  What snapshots read of an Environment is a function of its export: each read of \<open>ReadSnapshot\<close> is computed here from
  the records of the export alone, so two legal databases with the same export answer every read alike.
\<close>

section \<open>Selections\<close>

lemma insort_key_cong: "(\<And>y. y \<in> set ys \<Longrightarrow> f x \<le> f y \<longleftrightarrow> g x \<le> g y) \<Longrightarrow> insort_key f x ys = insort_key g x ys"
  by (induction ys) auto

lemma sort_key_cong: "(\<And>x y. x \<in> set xs \<Longrightarrow> y \<in> set xs \<Longrightarrow> f x \<le> f y \<longleftrightarrow> g x \<le> g y) \<Longrightarrow> sort_key f xs = sort_key g xs"
proof (induction xs)
  case (Cons x xs)
  then have "sort_key f xs = sort_key g xs" by simp
  moreover have "insort_key f x (sort_key g xs) = insort_key g x (sort_key g xs)"
    by (rule insort_key_cong) (use Cons.prems in simp)
  ultimately show ?case by simp
qed simp

lemma select_narrower:
  assumes "\<And>r. w' r \<longleftrightarrow> w r \<and> q r"
    and "\<And>r r'. q r \<Longrightarrow> q r' \<Longrightarrow> order' r \<le> order' r' \<longleftrightarrow> order r \<le> order r'"
  shows "sql_select w' order' t = filter q (sql_select w order t)"
proof -
  have "filter w' t = filter q (filter w t)" using assms(1) by (auto intro: filter_cong)
  then show ?thesis
    unfolding sql_select_def filter_sort by (auto intro: sort_key_cong simp: assms(2))
qed

lemma traverse_filter:
  assumes "traverseR dec rs = Inr xs" and "\<And>r x. r \<in> set rs \<Longrightarrow> dec r = Inr x \<Longrightarrow> q r \<longleftrightarrow> P x"
  shows "traverseR dec (take n (filter q rs)) = Inr (take n (filter P xs))"
proof -
  have "list_all2 (\<lambda>r x. dec r = Inr x) (filter q rs) (filter P xs)"
    using assms by (induction rs arbitrary: xs) auto
  then show ?thesis by (simp add: traverseR_Inr list_all2_takeI)
qed

lemma find_decoded:
  assumes "keyed key t" and "traverseR dec (sql_select w order t) = Inr xs" and "\<And>r. key r = k \<Longrightarrow> w r"
    and "\<And>r x. w r \<Longrightarrow> dec r = Inr x \<Longrightarrow> key r = k \<longleftrightarrow> P x"
  shows "(case sql_find (\<lambda>r. key r = k) t of None \<Rightarrow> Inr None | Some r \<Rightarrow> mapR (\<lambda>x. Some (h x)) (dec r)) =
    Inr (map_option h (find P xs))"
proof -
  have rows: "list_all2 (\<lambda>r x. dec r = Inr x) (sql_select w order t) xs" using assms(2) by (simp add: traverseR_Inr)
  have find: "case sql_find (\<lambda>r. key r = k) (sql_select w order t) of None \<Rightarrow> find P xs = None
      | Some r \<Rightarrow> \<exists>x. dec r = Inr x \<and> find P xs = Some x"
  proof -
    have "case sql_find (\<lambda>r. key r = k) rs of None \<Rightarrow> find P xs = None | Some r \<Rightarrow> \<exists>x. dec r = Inr x \<and> find P xs = Some x"
      if "list_all2 (\<lambda>r x. dec r = Inr x) rs xs" "\<forall>r \<in> set rs. w r" for rs
      using that by (induction rule: list_all2_induct) (auto simp: sql_find_def assms(4) split: option.splits)
    from this [OF rows] show ?thesis by simp
  qed
  have "sql_find (\<lambda>r. key r = k) t = sql_find (\<lambda>r. key r = k) (sql_select w order t)"
  proof -
    have "sql_find (\<lambda>r. key r = k) t = Some r \<longleftrightarrow> sql_find (\<lambda>r. key r = k) (sql_select w order t) = Some r" for r
      unfolding sql_find_key [OF assms(1)] sql_find_key [OF keyed_select [OF assms(1)]] set_sql_select using assms(3) by blast
    then show ?thesis by (metis not_None_eq)
  qed
  then show ?thesis using find by (auto simp: mapR_def split: option.splits)
qed

section \<open>The reads\<close>

text \<open>The fields of a record give the key of its row.\<close>

lemma decoded_ids:
  assumes "ulid_laws U"
  shows "decode_document_row U d = Inr dx \<Longrightarrow> dw_table d = table_text U (dr_table_id dx) \<and> dw_document d = document_text U (dr_document_id dx)"
    and "decode_index_row U i = Inr ix \<Longrightarrow> iw_index i = index_text U (ie_index_id ix) \<and> iw_key i = encoded (ie_key ix)"
    and "decode_exported_outbox U v = Inr vx \<Longrightarrow> ow_event v = event_text U (xo_event_id vx) \<and> decode_value U (ow_payload v) = Inr (xo_payload vx)"
    and "decode_schedule_row U s = Inr sx \<Longrightarrow> sw_scheduled s = schedule_text U (si_id sx)"
  using index_key_decode_iff [OF assms]
  by (auto simp: decode_document_row_def decode_index_row_def decode_exported_outbox_def decode_schedule_row_def dest!: parse_id_Inr)

lemma text_eq: "ulid_laws U \<Longrightarrow> resource_id_to_string U p u = resource_id_to_string U p w \<longleftrightarrow> u = w"
  using id_inject by blast

lemma export_get_document:
  assumes "ulid_laws U" and "db_ok U db" and "export_environment U None scope db = Inr x"
  shows "get_document U scope t d db = Inr (find (\<lambda>r. dr_table_id r = t \<and> dr_document_id r = d) (ex_documents x))"
proof -
  have "keyed document_key (db_documents db)" using assms(2) by (simp add: db_ok_def tables_ok_def table_ok_def)
  from find_decoded [OF this export_environment_Inr(4) [OF assms(3)],
      of "(project_text U scope, environment_text U scope, table_text U t, document_text U d)"
        "\<lambda>r. dr_table_id r = t \<and> dr_document_id r = d" "\<lambda>r. r"]
  show ?thesis
    using decoded_ids(1) [OF assms(1)] text_eq [OF assms(1)] by (fastforce simp: get_document_def document_key_def option.map_ident)
qed

lemma export_get_outbox:
  assumes "ulid_laws U" and "db_ok U db" and "export_environment U None scope db = Inr x"
  shows "get_outbox U scope v db = Inr (map_option xo_payload (find (\<lambda>r. xo_event_id r = v) (ex_outbox x)))"
proof -
  have keyed: "keyed outbox_key (db_outbox db)" using assms(2) by (simp add: db_ok_def tables_ok_def table_ok_def)
  let ?k = "(project_text U scope, environment_text U scope, event_text U v)"
  have "(case sql_find (\<lambda>r. outbox_key r = ?k) (db_outbox db) of None \<Rightarrow> Inr None
      | Some r \<Rightarrow> mapR (\<lambda>x. Some (xo_payload x)) (decode_exported_outbox U r)) =
    Inr (map_option xo_payload (find (\<lambda>r. xo_event_id r = v) (ex_outbox x)))"
    by (rule find_decoded [OF keyed export_environment_Inr(6) [OF assms(3)]])
      (use decoded_ids(3) [OF assms(1)] text_eq [OF assms(1)] in \<open>fastforce simp: outbox_key_def\<close>)+
  moreover have "mapR (\<lambda>x. Some (xo_payload x)) (decode_exported_outbox U r) = mapR Some (decode_value U (ow_payload r))"
    if "sql_find (\<lambda>r. outbox_key r = ?k) (db_outbox db) = Some r" for r
  proof -
    have r: "r \<in> set (db_outbox db)" "outbox_key r = ?k" using sql_find_Some [OF that] by simp_all
    have "list_all2 (\<lambda>r x. decode_exported_outbox U r = Inr x) (scope_outbox (project_text U scope) (environment_text U scope) (db_outbox db))
        (ex_outbox x)"
      using export_environment_Inr(6) [OF assms(3)] by (simp add: traverseR_Inr)
    then have "\<forall>r \<in> set (scope_outbox (project_text U scope) (environment_text U scope) (db_outbox db)). \<exists>x. decode_exported_outbox U r = Inr x"
      by (induction rule: list_all2_induct) auto
    then obtain vx where "decode_exported_outbox U r = Inr vx" using r by (auto simp: outbox_key_def)
    with decoded_ids(3) [OF assms(1) this] show ?thesis by simp
  qed
  ultimately show ?thesis unfolding get_outbox_def by (auto split: option.splits simp del: mapR_Inr)
qed

lemma export_get_scheduled:
  assumes "ulid_laws U" and "db_ok U db" and "export_environment U None scope db = Inr x"
  shows "get_scheduled U scope i db = Inr (find (\<lambda>r. si_id r = i) (ex_schedules x))"
proof -
  from find_decoded [OF schedules_keyed [OF assms(2)] export_environment_Inr(7) [OF assms(3)],
      of "(project_text U scope, environment_text U scope, schedule_text U i)" "\<lambda>r. si_id r = i" "\<lambda>r. r"]
  show ?thesis
    using decoded_ids(4) [OF assms(1)] text_eq [OF assms(1)]
    by (fastforce simp: get_scheduled_def fetch_schedule_row_def schedule_key_def option.map_ident)
qed

lemma export_list_scheduled:
  assumes "ulid_laws U" and "export_environment U None scope db = Inr x"
  shows "list_scheduled U scope after limit db =
    (if limit = 0 \<or> limit > 201 then Inl InvalidRange
     else Inr (take (unat limit) (filter (\<lambda>r. case after of None \<Rightarrow> True | Some a \<Rightarrow> schedule_text U a < schedule_text U (si_id r))
       (ex_schedules x))))"
proof -
  let ?q = "\<lambda>r. case after of None \<Rightarrow> True | Some a \<Rightarrow> sw_scheduled r > schedule_text U a"
  have "sql_select (\<lambda>r. sw_project r = project_text U scope \<and> sw_environment r = environment_text U scope \<and> ?q r) sw_scheduled (db_schedules db) =
      filter ?q (sql_select (\<lambda>r. sw_project r = project_text U scope \<and> sw_environment r = environment_text U scope) sw_scheduled (db_schedules db))"
    by (rule select_narrower) auto
  moreover have "?q r \<longleftrightarrow> (case after of None \<Rightarrow> True | Some a \<Rightarrow> schedule_text U a < schedule_text U (si_id rx))"
    if "decode_schedule_row U r = Inr rx" for r rx
    unfolding decoded_ids(4) [OF assms(1) that] ..
  ultimately show ?thesis
    using traverse_filter [OF export_environment_Inr(7) [OF assms(2)], of ?q] by (simp add: list_scheduled_def)
qed

lemma export_scan_index:
  assumes "ulid_laws U" and "export_environment U None scope db = Inr x"
  shows "scan_index U scope i rng limit db = bindR (index_range_validate rng limit) (\<lambda>_.
    Inr (take (unat limit) (filter (\<lambda>r. ie_index_id r = i \<and> in_range rng (encoded (ie_key r))) (ex_indexes x))))"
proof -
  let ?q = "\<lambda>r. iw_index r = index_text U i \<and> in_range rng (iw_key r)"
  have "sql_select (\<lambda>r. iw_project r = project_text U scope \<and> iw_environment r = environment_text U scope \<and>
              iw_index r = index_text U i \<and> above_lower (range_lower rng) (iw_key r) \<and> below_upper (range_upper rng) (iw_key r))
            (\<lambda>r. (iw_key r, iw_document r)) (db_indexes db) =
      filter ?q (sql_select (\<lambda>r. iw_project r = project_text U scope \<and> iw_environment r = environment_text U scope)
        (\<lambda>r. (iw_index r, iw_key r, iw_document r)) (db_indexes db))"
    by (rule select_narrower) (auto simp: in_range_def)
  moreover have "?q r \<longleftrightarrow> ie_index_id rx = i \<and> in_range rng (encoded (ie_key rx))" if "decode_index_row U r = Inr rx" for r rx
    using decoded_ids(2) [OF assms(1) that] text_eq [OF assms(1)] by simp
  ultimately show ?thesis
    using traverse_filter [OF export_environment_Inr(5) [OF assms(2)], of ?q] by (simp add: scan_index_def)
qed

end
