(* ===== verification/Schema_Format.thy ===== *)
theory Schema_Format
  imports Schema_Catalog Ulid_Instance "HOL-Library.Multiset"
begin

text \<open>
  The Release resource of a schema catalog is canonical: it reads back every catalog the
  constructors build, and the order in which definitions are supplied does not matter.
\<close>

section \<open>Hexadecimal counts\<close>

lemma length_hex_fixed [simp]: "length (hex_fixed n x) = n"
  by (induction n arbitrary: x) auto

lemma of_hex_Nil [simp]: "of_hex [] = 0"
  by (simp add: of_hex_def)

lemma of_hex_snoc [simp]: "of_hex (bs @ [b]) = of_hex bs * 16 + hex_value b"
  by (simp add: of_hex_def)

lemma unat_hex_digit: "n < 16 \<Longrightarrow> unat (hex_digit n) = (if n < 10 then 48 + n else 87 + n)"
  by (simp add: hex_digit_def unat_of_nat)

lemma hex_value_digit [simp]: "n < 16 \<Longrightarrow> hex_value (hex_digit n) = n"
  by (simp add: hex_value_def word_le_nat_alt unat_hex_digit)

lemma is_lower_hex_digit [simp]: "n < 16 \<Longrightarrow> is_lower_hex (hex_digit n)"
  by (simp add: is_lower_hex_def word_le_nat_alt unat_hex_digit)

lemma of_hex_fixed: "of_hex (hex_fixed n x) = x mod 16 ^ n"
proof (induction n arbitrary: x)
  case 0
  then show ?case by simp
next
  case (Suc n)
  have "x mod 16 ^ Suc n = 16 * (x div 16 mod 16 ^ n) + x mod 16"
    by (simp add: mod_mult2_eq)
  then show ?case by (simp add: Suc)
qed

lemma hex_fixed_lower: "list_all is_lower_hex (hex_fixed n x)"
  by (induction n arbitrary: x) auto

lemma lower_hex_utf8: "list_all is_lower_hex bs \<Longrightarrow> utf8_valid bs"
proof (induction bs)
  case Nil
  then show ?case by simp
next
  case (Cons b bs)
  then have "b < 0x80" by (auto simp: is_lower_hex_def word_le_nat_alt word_less_nat_alt)
  with Cons show ?case by simp
qed

section \<open>What the encoder writes\<close>

definition text_enc :: "string \<Rightarrow> bytes" where
  "text_enc s = hex_fixed 8 (length s) @ as_bytes s"

definition list_enc :: "('a \<Rightarrow> bytes) \<Rightarrow> 'a list \<Rightarrow> bytes" where
  "list_enc e xs = hex_fixed 8 (length xs) @ concat (map e xs)"

definition definition_enc :: "ulid_crate \<Rightarrow> IndexDefinition \<Rightarrow> bytes" where
  "definition_enc U d =
     text_enc (resource_id_to_string U ''idx_'' (def_index_id d)) @
     text_enc (resource_id_to_string U ''tbl_'' (def_table_id d)) @
     text_enc (def_name d) @ list_enc (list_enc text_enc) (def_fields d)"

definition catalog_enc :: "ulid_crate \<Rightarrow> ProjectId \<Rightarrow> IndexDefinition list \<Rightarrow> bytes" where
  "catalog_enc U p ds =
     CATALOG_RESOURCE_MAGIC @ text_enc (resource_id_to_string U ''prj_'' p) @ list_enc (definition_enc U) ds"

lemma push_count_Inr: "push_count out n = Inr r \<longleftrightarrow> n \<le> u32_max \<and> r = out @ hex_fixed 8 n"
  by (auto simp: push_count_def)

lemma push_text_Inr:
  "push_text out s = Inr r \<longleftrightarrow>
     length s \<le> u32_max \<and> length r \<le> CATALOG_RESOURCE_MAX_BYTES \<and> r = out @ text_enc s"
  by (auto simp: push_text_def push_count_Inr text_enc_def Let_def simp del: length_hex_fixed)

lemma foldR_push:
  assumes "\<And>out x r. f out x = Inr r \<Longrightarrow> r = out @ e x" and "foldR f out xs = Inr r"
  shows "r = out @ concat (map e xs)"
  using assms(2)
proof (induction xs arbitrary: out)
  case Nil
  then show ?case by simp
next
  case (Cons x xs)
  then obtain m where "f out x = Inr m" "foldR f m xs = Inr r" by auto
  with Cons.IH [of m] assms(1) [of out x m] show ?case by simp
qed

lemma push_path_Inr: "push_path out p = Inr r \<Longrightarrow> r = out @ list_enc text_enc p"
  using foldR_push [of push_text text_enc]
  by (force simp: push_path_def push_count_Inr push_text_Inr list_enc_def)

lemma push_definition_Inr: "push_definition U out d = Inr r \<Longrightarrow> r = out @ definition_enc U d"
proof -
  assume "push_definition U out d = Inr r"
  then obtain o4 where f: "foldR push_path o4 (def_fields d) = Inr r"
    and o4: "o4 = out @ text_enc (resource_id_to_string U ''idx_'' (def_index_id d)) @
     text_enc (resource_id_to_string U ''tbl_'' (def_table_id d)) @
     text_enc (def_name d) @ hex_fixed 8 (length (def_fields d))"
    by (auto simp: push_definition_def push_text_Inr push_count_Inr)
  from foldR_push [of push_path "list_enc text_enc", OF push_path_Inr f] o4 show ?thesis
    by (simp add: definition_enc_def list_enc_def)
qed

lemma encode_schema_catalog_Inr:
  assumes "encode_schema_catalog U c = Inr bs"
  shows "bs = catalog_enc U (cat_project_id c) (cat_indexes c) \<and> length bs \<le> CATALOG_RESOURCE_MAX_BYTES"
proof -
  from assms obtain o2 where f: "foldR (push_definition U) o2 (cat_indexes c) = Inr bs"
    and o2: "o2 = CATALOG_RESOURCE_MAGIC @ text_enc (resource_id_to_string U ''prj_'' (cat_project_id c)) @
      hex_fixed 8 (length (cat_indexes c))"
    and len: "length bs \<le> CATALOG_RESOURCE_MAX_BYTES"
    by (auto simp: encode_schema_catalog_def push_text_Inr push_count_Inr split: if_splits)
  from foldR_push [of "push_definition U" "definition_enc U", OF push_definition_Inr f] o2 len show ?thesis
    by (simp add: catalog_enc_def list_enc_def)
qed

section \<open>Reading it back\<close>

text \<open>
  A reader of the cursor returns \<open>x\<close> and moves past its encoding, whatever follows.
\<close>

definition reads_back :: "(cursor \<Rightarrow> SchemaError + 'a \<times> cursor) \<Rightarrow> bytes \<Rightarrow> 'a \<Rightarrow> bool" where
  "reads_back f bs x \<longleftrightarrow>
     (\<forall>c rest. cursor_ok c \<longrightarrow> unread c = bs @ rest \<longrightarrow> f c = Inr (x, advance (length bs) c))"

lemma reads_backD:
  "reads_back f bs x \<Longrightarrow> cursor_ok c \<Longrightarrow> unread c = bs @ rest \<Longrightarrow> f c = Inr (x, advance (length bs) c)"
  by (simp add: reads_back_def)

lemma reads_back_obtain:
  assumes "reads_back f bs x" and "cursor_ok c" and "unread c = bs @ rest"
  obtains d where "f c = Inr (x, d)" "cursor_ok d" "unread d = rest" "input d = input c"
  using assms that [of "advance (length bs) c"] by (simp add: reads_back_def)

lemma catalog_slice_append:
  assumes "cursor_ok c" and "unread c = xs @ ys" and "n = length xs"
  shows "catalog_slice n c = Inr (xs, advance n c)"
proof -
  have "length (input c) - offset c = length xs + length ys"
    using arg_cong [OF assms(2), of length] by (simp add: unread_def)
  then have "offset c + n \<le> length (input c)" using assms(1,3) unfolding cursor_ok_def by linarith
  moreover from this have "offset c + n < usize_bound" using assms(1) by (simp add: cursor_ok_def)
  moreover have "take n (drop (offset c) (input c)) = xs" using assms by (simp add: unread_def)
  ultimately show ?thesis by (simp add: catalog_slice_def checked_add_usize_def advance_def)
qed

lemma reads_back_count: "n \<le> u32_max \<Longrightarrow> reads_back catalog_count (hex_fixed 8 n) n"
  unfolding reads_back_def catalog_count_def
  by (auto simp: catalog_slice_append [of _ "hex_fixed 8 n"] hex_fixed_lower lower_hex_utf8 of_hex_fixed
      u32_max_def simp del: hex_fixed.simps)

lemma reads_back_bind:
  assumes "reads_back f bs x" and "reads_back (g x) cs y"
  shows "reads_back (\<lambda>c. bindR (f c) (\<lambda>(x, c'). g x c')) (bs @ cs) y"
  unfolding reads_back_def
proof (intro allI impI)
  fix c rest
  assume c: "cursor_ok c" "unread c = (bs @ cs) @ rest"
  then have "f c = Inr (x, advance (length bs) c)" using assms(1) by (simp add: reads_back_def)
  moreover have "g x (advance (length bs) c) = Inr (y, advance (length cs) (advance (length bs) c))"
    using c by (intro reads_backD [OF assms(2), of _ rest]) auto
  ultimately show "bindR (f c) (\<lambda>(x, c'). g x c') = Inr (y, advance (length (bs @ cs)) c)" by simp
qed

lemma reads_back_text:
  assumes "rust_string s" and "length s \<le> u32_max"
  shows "reads_back catalog_text (text_enc s) s"
  unfolding text_enc_def catalog_text_def [abs_def]
proof (rule reads_back_bind [OF reads_back_count [OF assms(2)]])
  show "reads_back (\<lambda>c. bindR (catalog_slice (length s) c) (\<lambda>(bs, c2).
      bindR (ok_or InvalidCatalog (from_utf8 bs)) (\<lambda>s. Inr (s, c2)))) (as_bytes s) s"
    using assms by (auto simp: reads_back_def catalog_slice_append [of _ "as_bytes s"] simp del: from_utf8_Some)
qed

lemma reads_back_repeat:
  assumes "\<And>x. x \<in> set xs \<Longrightarrow> reads_back f (e x) x"
  shows "reads_back (catalog_repeat f (length xs)) (concat (map e xs)) xs"
  using assms
proof (induction xs)
  case Nil
  then show ?case by (simp add: reads_back_def)
next
  case (Cons x xs)
  have tail: "reads_back (\<lambda>c. bindR (catalog_repeat f (length xs) c) (\<lambda>(ys, c2). Inr (x # ys, c2)))
      (concat (map e xs)) (x # xs)"
    using Cons by (auto simp: reads_back_def)
  have "catalog_repeat f (length (x # xs)) =
      (\<lambda>c. bindR (f c) (\<lambda>(x, c1). bindR (catalog_repeat f (length xs) c1) (\<lambda>(ys, c2). Inr (x # ys, c2))))"
    by (simp add: fun_eq_iff)
  moreover have "reads_back (\<lambda>c. bindR (f c) (\<lambda>(x, c1).
      bindR (catalog_repeat f (length xs) c1) (\<lambda>(ys, c2). Inr (x # ys, c2)))) (e x @ concat (map e xs)) (x # xs)"
    using Cons.prems tail by (intro reads_back_bind [where f = f and x = x]) simp_all
  ultimately show ?case by simp
qed

lemma reads_back_id:
  assumes "ulid_laws U" and "list_all is_ascii p" and "length p = 4"
  shows "reads_back (catalog_id U p) (text_enc (resource_id_to_string U p u)) u"
proof -
  have "rust_string (resource_id_to_string U p u)"
    using assms by (intro ascii_rust_string)
      (fastforce simp: resource_id_to_string_def ulid_laws_def list_all_iff ascii_defs)
  moreover have "length (resource_id_to_string U p u) \<le> u32_max"
    using assms by (simp add: resource_id_to_string_def ulid_laws_def u32_max_def)
  ultimately have "reads_back catalog_text (text_enc (resource_id_to_string U p u)) (resource_id_to_string U p u)"
    by (rule reads_back_text)
  then show ?thesis
    using assms(1) by (auto simp: reads_back_def catalog_id_def resource_id_roundtrip)
qed

section \<open>Definitions the constructors build\<close>

definition path_ok :: "FieldPath \<Rightarrow> bool" where
  "path_ok p \<longleftrightarrow> field_path_new p = Inr p"

definition definition_ok :: "IndexDefinition \<Rightarrow> bool" where
  "definition_ok d \<longleftrightarrow>
     index_definition_new (def_index_id d) (def_table_id d) (def_name d) (def_fields d) = Inr d \<and>
     list_all path_ok (def_fields d)"

lemma valid_name_text:
  assumes "valid_name s"
  shows "rust_string s \<and> length s \<le> u32_max"
proof -
  have "list_all is_ascii s" using assms
    by (auto simp: valid_name_def list_all_iff ascii_defs split: list.splits)
  with assms show ?thesis
    by (auto simp: ascii_rust_string valid_name_def MAX_NAME_BYTES_def u32_max_def split: list.splits)
qed

lemma reads_back_path:
  assumes "path_ok p"
  shows "reads_back catalog_path (list_enc text_enc p) p"
proof -
  from assms have p: "length p \<le> MAX_PATH_SEGMENTS" "\<And>s. s \<in> set p \<Longrightarrow> valid_name s"
    by (auto simp: path_ok_def field_path_new_def list_ex_iff split: if_splits)
  then have n: "length p \<le> u32_max" by (simp add: MAX_PATH_SEGMENTS_def u32_max_def)
  have "reads_back (catalog_repeat catalog_text (length p)) (concat (map text_enc p)) p"
    using p valid_name_text by (intro reads_back_repeat reads_back_text) auto
  then have "reads_back (\<lambda>c. if length p > MAX_PATH_SEGMENTS then Inl SchemaLimitExceeded else
     bindR (catalog_repeat catalog_text (length p) c) (\<lambda>(parts, c2).
     bindR (field_path_new parts) (\<lambda>path. Inr (path, c2)))) (concat (map text_enc p)) p"
    using p(1) assms by (auto simp: reads_back_def path_ok_def)
  then show ?thesis
    unfolding list_enc_def catalog_path_def [abs_def] by (intro reads_back_bind [OF reads_back_count [OF n]])
qed

lemma reads_back_definition:
  assumes U: "ulid_laws U" and d: "definition_ok d"
  shows "reads_back (catalog_definition U) (definition_enc U d) d"
proof -
  from d have f: "length (def_fields d) \<le> MAX_FIELDS" "\<And>p. p \<in> set (def_fields d) \<Longrightarrow> path_ok p"
    and name: "rust_string (def_name d)" "length (def_name d) \<le> u32_max"
    and new: "index_definition_new (def_index_id d) (def_table_id d) (def_name d) (def_fields d) = Inr d"
    using valid_name_text
    by (auto simp: definition_ok_def index_definition_new_def list_all_iff split: if_splits)
  have n: "length (def_fields d) \<le> u32_max" using f(1) by (simp add: MAX_FIELDS_def u32_max_def)
  have ids: "list_all is_ascii ''idx_''" "list_all is_ascii ''tbl_''" by (simp_all add: ascii_defs)
  have "reads_back (catalog_repeat catalog_path (length (def_fields d)))
      (concat (map (list_enc text_enc) (def_fields d))) (def_fields d)"
    using f by (intro reads_back_repeat reads_back_path)
  then have 5: "reads_back (\<lambda>c. if length (def_fields d) > MAX_FIELDS then Inl SchemaLimitExceeded else
     bindR (catalog_repeat catalog_path (length (def_fields d)) c) (\<lambda>(paths, c5).
     bindR (index_definition_new (def_index_id d) (def_table_id d) (def_name d) paths) (\<lambda>d. Inr (d, c5))))
      (concat (map (list_enc text_enc) (def_fields d))) d"
    using f(1) new by (auto simp: reads_back_def)
  show ?thesis
    unfolding definition_enc_def list_enc_def [of _ "def_fields d"] catalog_definition_def [abs_def]
    using ids 5
    by (intro reads_back_bind [OF reads_back_id [OF U]] reads_back_bind [OF reads_back_text [OF name]]
        reads_back_bind [OF reads_back_count [OF n]]) simp_all
qed

section \<open>Catalogs\<close>

lemma encode_schema_catalog_cong:
  "cat_project_id c = cat_project_id d \<Longrightarrow> cat_indexes c = cat_indexes d \<Longrightarrow>
   encode_schema_catalog U c = encode_schema_catalog U d"
  by (simp add: encode_schema_catalog_def)

definition definition_name :: "IndexDefinition \<Rightarrow> TableId \<times> string" where
  "definition_name d = (def_table_id d, def_name d)"

text \<open>The positions of the definitions of each table.\<close>

definition group_positions :: "(nat \<times> IndexDefinition) list \<Rightarrow> (TableId \<times> nat list) list" where
  "group_positions xs = fold (\<lambda>(i, d). btree_push (def_table_id d) i) xs []"

lemma check_definition_eq:
  "check_definition (ids, names, m) (i, d) =
     (if def_index_id d \<in> set ids \<or> definition_name d \<in> set names then Inl InvalidCatalog
      else Inr (def_index_id d # ids, definition_name d # names, btree_push (def_table_id d) i m))"
  by (simp add: check_definition_def definition_name_def)

lemma check_definitions:
  "foldR check_definition (ids, names, m) xs =
     (if distinct (map (def_index_id \<circ> snd) xs) \<and> distinct (map (definition_name \<circ> snd) xs) \<and>
         (def_index_id \<circ> snd) ` set xs \<inter> set ids = {} \<and> (definition_name \<circ> snd) ` set xs \<inter> set names = {}
      then Inr (rev (map (def_index_id \<circ> snd) xs) @ ids, rev (map (definition_name \<circ> snd) xs) @ names,
                fold (\<lambda>(i, d). btree_push (def_table_id d) i) xs m)
      else Inl InvalidCatalog)"
proof (induction xs arbitrary: ids names m)
  case Nil
  then show ?case by simp
next
  case (Cons x xs)
  obtain i d where "x = (i, d)" by (cases x)
  then show ?case by (auto simp: check_definition_eq Cons.IH)
qed

lemma mset_map_distinct:
  assumes "mset xs = mset ys" shows "distinct (map f xs) = distinct (map f ys)"
  using mset_eq_imp_distinct_iff [of "map f xs" "map f ys"] assms by simp

lemma map_snd_enumerate: "map (f \<circ> snd) (enumerate n xs) = map f xs"
  by (simp flip: map_map)

lemma schema_catalog_new_eq:
  "schema_catalog_new U sha256 p ds =
     (if length ds > MAX_INDEXES then Inl SchemaLimitExceeded
      else if distinct (map def_index_id ds) \<and> distinct (map definition_name ds) then
        (let indexes = sort_key def_index_id ds;
             catalog = \<lparr>cat_project_id = p, cat_indexes = indexes,
               cat_by_table = group_positions (enumerate 0 indexes), cat_digest = replicate 32 0\<rparr> in
         bindR (encode_schema_catalog U catalog) (\<lambda>bs. Inr (catalog\<lparr>cat_digest := sha256 bs\<rparr>)))
      else Inl InvalidCatalog)"
proof -
  have "distinct (map def_index_id (sort_key def_index_id ds)) = distinct (map def_index_id ds)"
    and "distinct (map definition_name (sort_key def_index_id ds)) = distinct (map definition_name ds)"
    by (rule mset_map_distinct, simp)+
  then show ?thesis
    by (simp add: schema_catalog_new_def check_definitions group_positions_def Let_def map_snd_enumerate)
qed

text \<open>The order in which definitions are supplied is immaterial, in success and in failure.\<close>

lemma schema_catalog_new_perm:
  assumes "mset xs = mset ys"
  shows "schema_catalog_new U sha256 p xs = schema_catalog_new U sha256 p ys"
proof -
  have len: "length xs = length ys" using assms by (rule mset_eq_length)
  have dist: "distinct (map def_index_id xs) = distinct (map def_index_id ys)"
      "distinct (map definition_name xs) = distinct (map definition_name ys)"
    using assms by (simp_all add: mset_map_distinct [OF assms])
  show ?thesis
  proof (cases "distinct (map def_index_id ys)")
    case False
    then show ?thesis using len dist by (simp add: schema_catalog_new_eq)
  next
    case True
    have "sort_key def_index_id xs = sort_key def_index_id ys"
    proof (rule properties_for_sort_key)
      show "mset (sort_key def_index_id ys) = mset xs" using assms by simp
      show "filter (\<lambda>x. def_index_id k = def_index_id x) (sort_key def_index_id ys) =
          filter (\<lambda>x. def_index_id k = def_index_id x) xs" if "k \<in> set (sort_key def_index_id ys)" for k
      proof -
        have one: "filter (\<lambda>x. def_index_id k = def_index_id x) zs = [k]"
          if "k \<in> set zs" "distinct (map def_index_id zs)" for zs
          using that by (induction zs) (auto simp: filter_empty_conv image_iff)
        have "k \<in> set xs" using that mset_eq_setD [OF assms] by simp
        moreover have "distinct (map def_index_id (sort_key def_index_id ys))"
          using True mset_map_distinct [of "sort_key def_index_id ys" ys def_index_id] by simp
        moreover have "distinct (map def_index_id xs)" using True dist by blast
        ultimately show ?thesis using one [of "sort_key def_index_id ys"] one [of xs] that by simp
      qed
    qed simp
    then show ?thesis using len dist
      by (simp add: schema_catalog_new_eq Let_def)
  qed
qed

lemma schema_catalog_new_Inr:
  assumes "schema_catalog_new U sha256 p ds = Inr c"
  shows "cat_project_id c = p" "cat_indexes c = sort_key def_index_id ds"
    "length ds \<le> MAX_INDEXES" "distinct (map def_index_id ds)" "distinct (map definition_name ds)"
    "cat_by_table c = group_positions (enumerate 0 (cat_indexes c))"
    "\<exists>bs. encode_schema_catalog U c = Inr bs \<and> cat_digest c = sha256 bs"
    "schema_catalog_new U sha256 p (cat_indexes c) = Inr c"
proof -
  from assms show "cat_project_id c = p" and i: "cat_indexes c = sort_key def_index_id ds"
    "length ds \<le> MAX_INDEXES" "distinct (map def_index_id ds)" "distinct (map definition_name ds)"
    "cat_by_table c = group_positions (enumerate 0 (cat_indexes c))"
    by (auto simp: schema_catalog_new_eq Let_def split: if_splits)
  from assms obtain c0 bs where "encode_schema_catalog U c0 = Inr bs" "c = c0\<lparr>cat_digest := sha256 bs\<rparr>"
    by (auto simp: schema_catalog_new_eq Let_def split: if_splits)
  then show "\<exists>bs. encode_schema_catalog U c = Inr bs \<and> cat_digest c = sha256 bs"
    using encode_schema_catalog_cong [of c c0 U] by simp
  show "schema_catalog_new U sha256 p (cat_indexes c) = Inr c"
    using assms schema_catalog_new_perm [of "sort_key def_index_id ds" ds U sha256 p] i(1) by simp
qed

lemma catalog_encode_decode:
  assumes U: "ulid_laws U" and new: "schema_catalog_new U sha256 p ds = Inr c" and ds: "list_all definition_ok ds"
    and enc: "encode_schema_catalog U c = Inr bs"
  shows "decode_schema_catalog U sha256 bs = Inr c"
proof -
  note c = schema_catalog_new_Inr [OF new]
  from encode_schema_catalog_Inr [OF enc] c(1) have bs: "bs = catalog_enc U p (cat_indexes c)" by simp
  note len = conjunct2 [OF encode_schema_catalog_Inr [OF enc]]
  let ?c0 = "\<lparr>input = bs, offset = length CATALOG_RESOURCE_MAGIC\<rparr>"
  let ?n = "length (cat_indexes c)"
  have n: "?n \<le> MAX_INDEXES" "?n \<le> u32_max" using c(2,3) by (simp_all add: MAX_INDEXES_def u32_max_def)
  have ascii: "list_all is_ascii ''prj_''" by (simp add: ascii_defs)
  have un0: "unread ?c0 = text_enc (resource_id_to_string U ''prj_'' p) @
      hex_fixed 8 ?n @ concat (map (definition_enc U) (cat_indexes c))" and ok0: "cursor_ok ?c0"
    using len by (simp_all add: unread_def bs catalog_enc_def list_enc_def cursor_ok_def CATALOG_RESOURCE_MAX_BYTES_def)
  obtain c1 where 1: "catalog_id U ''prj_'' ?c0 = Inr (p, c1)" "cursor_ok c1"
      "unread c1 = hex_fixed 8 ?n @ concat (map (definition_enc U) (cat_indexes c))" "input c1 = bs"
    by (rule reads_back_obtain [OF reads_back_id [OF U ascii] ok0 un0]) auto
  obtain c2 where 2: "catalog_count c1 = Inr (?n, c2)" "cursor_ok c2"
      "unread c2 = concat (map (definition_enc U) (cat_indexes c)) @ []" "input c2 = bs"
    by (rule reads_back_obtain [OF reads_back_count [OF n(2)] 1(2,3)]) (auto simp: 1)
  have "reads_back (catalog_repeat (catalog_definition U) ?n)
      (concat (map (definition_enc U) (cat_indexes c))) (cat_indexes c)"
    using ds c(2) by (intro reads_back_repeat reads_back_definition [OF U]) (simp add: list_all_iff)
  from reads_back_obtain [OF this 2(2,3)] 2(4) obtain c3 where 3:
      "catalog_repeat (catalog_definition U) ?n c2 = Inr (cat_indexes c, c3)"
      "cursor_ok c3" "unread c3 = []" "input c3 = bs" by auto
  have "offset c3 = length bs" using 3 by (auto simp: unread_def cursor_ok_def)
  moreover have "prefix CATALOG_RESOURCE_MAGIC bs" by (simp add: bs catalog_enc_def)
  ultimately show ?thesis
    using 1(1) 2(1) 3(1) len n(1) c(8) enc by (simp add: decode_schema_catalog_def)
qed

end
