(* ===== verification/Mutation_Session.thy ===== *)
theory Mutation_Session
  imports Sqlite_Semantics Schema_Format
begin

text \<open>
  The buffered session of one Mutation attempt (\<open>MutationSession\<close> of
  \<open>runku-execution/src/mutation.rs\<close>) behind the broker interfaces of \<open>runku-runtime\<close>
  (\<open>data.rs\<close>, \<open>scheduling.rs\<close>, \<open>error.rs\<close>). Reads go to one snapshot of the store and are
  remembered; writes and schedules are buffered; the first failure is latched. The runtime that
  executes the Function is not under \<open>src\<close>'s control (V8): a Function is a program that calls the
  brokers and reacts to what they return.
\<close>

section \<open>Broker contracts\<close>

datatype DataReadError = ReadInvalidRequest | ReadUnavailable | ReadStorage | ReadTimeout | ReadCancelled | ReadLimitExceeded

fun data_read_error_code :: "DataReadError \<Rightarrow> string" where
  "data_read_error_code ReadInvalidRequest = ''DATA_READ_INVALID''"
| "data_read_error_code ReadUnavailable = ''DATA_READ_UNAVAILABLE''"
| "data_read_error_code ReadStorage = ''DATA_READ_STORAGE_FAILED''"
| "data_read_error_code ReadTimeout = ''DATA_READ_TIMEOUT''"
| "data_read_error_code ReadCancelled = ''DATA_READ_CANCELLED''"
| "data_read_error_code ReadLimitExceeded = ''DATA_READ_LIMIT_EXCEEDED''"

record DataDocument =
  dd_table_id :: TableId
  dd_document_id :: DocumentId
  dd_revision :: u64
  dd_commit_sequence :: u64
  dd_created_at :: TimestampMicros
  dd_updated_at :: TimestampMicros
  dd_value :: CanonicalValue

datatype ScheduleTime = AfterMicros u64 | AtTime TimestampMicros

record ScheduleRequest =
  sreq_function :: FunctionName
  sreq_arguments :: CanonicalValue
  sreq_time :: ScheduleTime
  sreq_idempotency_key :: "string option"

datatype ScheduleError =
  ScheduleInvalidRequest | ScheduleLimitExceeded | ScheduleStorage | ScheduleUnavailable | ScheduleTimeout
| ScheduleResultUncertain | ScheduleCancelled

fun schedule_error_code :: "ScheduleError \<Rightarrow> string" where
  "schedule_error_code ScheduleInvalidRequest = ''SCHEDULE_REQUEST_INVALID''"
| "schedule_error_code ScheduleLimitExceeded = ''SCHEDULE_LIMIT_EXCEEDED''"
| "schedule_error_code ScheduleStorage = ''SCHEDULE_STORAGE_FAILED''"
| "schedule_error_code ScheduleUnavailable = ''SCHEDULE_UNAVAILABLE''"
| "schedule_error_code ScheduleTimeout = ''SCHEDULE_TIMEOUT''"
| "schedule_error_code ScheduleResultUncertain = ''SCHEDULE_RESULT_UNCERTAIN''"
| "schedule_error_code ScheduleCancelled = ''SCHEDULE_CANCELLED''"

datatype RuntimeError =
  RuntimeInvalidConfiguration | RuntimeInvalidInvocation | RuntimeInvalidArguments | RuntimeUnsupported
| RuntimeInvalidArtifact | RuntimeFunctionNotFound | RuntimeBusy | RuntimeUnavailable | RuntimeDeadlineExceeded
| RuntimeCancelled | RuntimeHeapLimitExceeded | RuntimeJavaScript | RuntimeInvalidResult | RuntimeInternal

section \<open>Session state\<close>

definition MAX_ATTEMPTS :: nat where "MAX_ATTEMPTS = 3"
definition MAX_DOCUMENT_READS :: nat where "MAX_DOCUMENT_READS = 10000"
definition MAX_DOCUMENT_WRITES :: nat where "MAX_DOCUMENT_WRITES = 1000"
definition MAX_SCHEDULES :: nat where "MAX_SCHEDULES = 100"

definition MAX_SCHEDULE_DELAY_MICROS :: nat where
  "MAX_SCHEDULE_DELAY_MICROS = 10 * 365 * 24 * 60 * 60 * 1000000"

datatype SessionFailure = FailStore StoreError | FailData DataReadError | FailSchedule ScheduleError

type_synonym DocumentKey = "TableId \<times> DocumentId"

text \<open>A snapshot is the database at the moment it was opened, with the commit sequence it reported.\<close>

record ReadSnapshot =
  snap_sequence :: u64
  snap_database :: database

record MutationState =
  ms_snapshot :: "ReadSnapshot option"
  ms_reads :: "(DocumentKey \<times> DataDocument option) list"
  ms_writes :: "(DocumentKey \<times> DocumentMutation) list"
  ms_schedules :: "ScheduledInvocationInsert list"
  ms_schedule_keys :: "string list"
  ms_failure :: "SessionFailure option"
  ms_closed :: bool

record MutationSession =
  ses_scope :: EnvironmentScope
  ses_operation_id :: OperationId
  ses_schedule_base :: TimestampMicros
  ses_pinned_code :: PinnedCode
  ses_allowed_schedules :: "FunctionName list"

definition mutation_state_new :: MutationState where
  "mutation_state_new =
     \<lparr>ms_snapshot = None, ms_reads = [], ms_writes = [], ms_schedules = [], ms_schedule_keys = [],
      ms_failure = None, ms_closed = False\<rparr>"

abbreviation latch :: "SessionFailure \<Rightarrow> MutationState \<Rightarrow> MutationState" where
  "latch failure st \<equiv> st\<lparr>ms_failure := Some failure\<rparr>"

text \<open>
  What can happen to an awaited call of the store, besides its answer: the invocation is cancelled,
  its deadline elapses, or the store fails.
\<close>

datatype io_event = Proceeds | Cancels | TimesOut | StoreFails StoreError

section \<open>Writes\<close>

fun encode_mutation_value :: "ulid_crate \<Rightarrow> DocumentMutation \<Rightarrow> unit + unit" where
  "encode_mutation_value U (Upsert _ _ _ v) = map_errR (\<lambda>_. ()) (mapR (\<lambda>_. ()) (encode_stored_value U v))"
| "encode_mutation_value U (DeleteDocument _ _ _) = Inr ()"

definition session_buffer ::
    "ulid_crate \<Rightarrow> MutationState \<Rightarrow> DocumentMutation \<Rightarrow> (DataReadError + unit) \<times> MutationState" where
  "session_buffer U st m =
     (if ms_closed st \<or> ms_failure st \<noteq> None then (Inl ReadUnavailable, st)
      else if length (ms_writes st) \<ge> MAX_DOCUMENT_WRITES \<or> encode_mutation_value U m \<noteq> Inr ()
        then (Inl ReadLimitExceeded, latch (FailData ReadLimitExceeded) st)
      else if mutation_key m \<in> fst ` set (ms_writes st)
        then (Inl ReadInvalidRequest, latch (FailData ReadInvalidRequest) st)
      else (Inr (), st\<lparr>ms_writes := btree_insert (mutation_key m) m (ms_writes st)\<rparr>))"

definition session_insert ::
    "ulid_crate \<Rightarrow> TableId \<Rightarrow> DocumentId \<Rightarrow> CanonicalValue \<Rightarrow> MutationState
     \<Rightarrow> (DataReadError + unit) \<times> MutationState" where
  "session_insert U t d v st = session_buffer U st (Upsert t d Absent v)"

definition session_replace ::
    "ulid_crate \<Rightarrow> TableId \<Rightarrow> DocumentId \<Rightarrow> u64 \<Rightarrow> CanonicalValue \<Rightarrow> MutationState
     \<Rightarrow> (DataReadError + unit) \<times> MutationState" where
  "session_replace U t d expected v st =
     (if expected = 0 \<or> expected = - 1
      then (Inl ReadInvalidRequest, latch (FailData ReadInvalidRequest) st)
      else session_buffer U st (Upsert t d (Exact expected) v))"

definition session_delete ::
    "ulid_crate \<Rightarrow> TableId \<Rightarrow> DocumentId \<Rightarrow> u64 \<Rightarrow> MutationState
     \<Rightarrow> (DataReadError + unit) \<times> MutationState" where
  "session_delete U t d expected st =
     (if expected = 0 then (Inl ReadInvalidRequest, latch (FailData ReadInvalidRequest) st)
      else session_buffer U st (DeleteDocument t d expected))"

section \<open>Schedules\<close>

text \<open>\<open>i64::checked_add\<close>.\<close>

definition checked_add_i64 :: "i64 \<Rightarrow> i64 \<Rightarrow> i64 option" where
  "checked_add_i64 a b =
     (if - (2 ^ 63) \<le> sint a + sint b \<and> sint a + sint b < 2 ^ 63 then Some (a + b) else None)"

definition schedule_time :: "TimestampMicros \<Rightarrow> ScheduleTime \<Rightarrow> ScheduleError + TimestampMicros" where
  "schedule_time base requested =
     bindR (ok_or ScheduleLimitExceeded (checked_add_i64 base (of_nat MAX_SCHEDULE_DELAY_MICROS))) (\<lambda>maximum.
       case requested of
         AfterMicros delay \<Rightarrow>
           if unat delay > MAX_SCHEDULE_DELAY_MICROS then Inl ScheduleLimitExceeded
           else ok_or ScheduleLimitExceeded (checked_add_i64 base delay)
       | AtTime requested_at \<Rightarrow>
           if sint requested_at \<le> sint maximum then Inr requested_at else Inl ScheduleLimitExceeded)"

definition derived_schedule_id ::
    "ulid_crate \<Rightarrow> (bytes \<Rightarrow> bytes) \<Rightarrow> OperationId \<Rightarrow> nat \<Rightarrow> ScheduledInvocationId" where
  "derived_schedule_id U sha256 operation_id ordinal =
     of_nat (of_be (take 16 (sha256 (as_bytes ''RUNKU_MUTATION_SCHEDULE_V1'' @
       as_bytes (operation_text U operation_id) @ be_u64 (of_nat ordinal)))))"

definition push_session_schedule ::
    "ulid_crate \<Rightarrow> (bytes \<Rightarrow> bytes) \<Rightarrow> MutationSession \<Rightarrow> TimestampMicros \<Rightarrow> ScheduleRequest \<Rightarrow> MutationState
     \<Rightarrow> (ScheduleError + ScheduledInvocationId) \<times> MutationState" where
  "push_session_schedule U sha256 ses execute_at request st =
     (let i = derived_schedule_id U sha256 (ses_operation_id ses) (length (ms_schedules st)) in
      (Inr i, st\<lparr>ms_schedules := ms_schedules st @
         [\<lparr>sc_id = i, sc_pinned_code = ses_pinned_code ses, sc_function = sreq_function request,
           sc_args = sreq_arguments request, sc_execute_at = execute_at,
           sc_idempotency_key = sreq_idempotency_key request\<rparr>]\<rparr>))"

text \<open>\<open>create\<close>: the deadline and the cancellation token are looked at once, on entry.\<close>

definition session_schedule ::
    "ulid_crate \<Rightarrow> (bytes \<Rightarrow> bytes) \<Rightarrow> MutationSession \<Rightarrow> io_event \<Rightarrow> ScheduleRequest \<Rightarrow> MutationState
     \<Rightarrow> (ScheduleError + ScheduledInvocationId) \<times> MutationState" where
  "session_schedule U sha256 ses io request st =
     (if io = Cancels then (Inl ScheduleCancelled, latch (FailSchedule ScheduleCancelled) st)
      else if io = TimesOut then (Inl ScheduleTimeout, latch (FailSchedule ScheduleTimeout) st)
      else if sreq_function request \<notin> set (ses_allowed_schedules ses)
          \<or> isl (encode_stored_value U (sreq_arguments request))
        then (Inl ScheduleInvalidRequest, latch (FailSchedule ScheduleInvalidRequest) st)
      else case schedule_time (ses_schedule_base ses) (sreq_time request) of
        Inl err \<Rightarrow> (Inl err, latch (FailSchedule err) st)
      | Inr execute_at \<Rightarrow>
          if ms_closed st \<or> ms_failure st \<noteq> None then (Inl ScheduleUnavailable, st)
          else if length (ms_schedules st) \<ge> MAX_SCHEDULES
            then (Inl ScheduleLimitExceeded, latch (FailSchedule ScheduleLimitExceeded) st)
          else
            case sreq_idempotency_key request of
              Some key \<Rightarrow>
                if key = [] \<or> length key > 128 \<or> key \<in> set (ms_schedule_keys st)
                then (Inl ScheduleInvalidRequest, latch (FailSchedule ScheduleInvalidRequest) st)
                else push_session_schedule U sha256 ses execute_at request
                       (st\<lparr>ms_schedule_keys := key # ms_schedule_keys st\<rparr>)
            | None \<Rightarrow> push_session_schedule U sha256 ses execute_at request st)"

section \<open>Reads\<close>

datatype BufferedRead = NotBuffered | BufferedMissing | BufferedDocument DataDocument

definition buffered_read ::
    "MutationSession \<Rightarrow> MutationState \<Rightarrow> TableId \<Rightarrow> DocumentId \<Rightarrow> DataReadError + BufferedRead" where
  "buffered_read ses st t d =
     (case map_of (ms_writes st) (t, d) of
        None \<Rightarrow> Inr NotBuffered
      | Some (DeleteDocument _ _ _) \<Rightarrow> Inr BufferedMissing
      | Some (Upsert _ _ expected v) \<Rightarrow>
          bindR (case expected of
              Absent \<Rightarrow> Inr 1
            | Exact revision \<Rightarrow> ok_or ReadLimitExceeded (checked_add_u64 revision 1)) (\<lambda>revision.
            Inr (BufferedDocument
              \<lparr>dd_table_id = t, dd_document_id = d, dd_revision = revision, dd_commit_sequence = 0,
               dd_created_at = ses_schedule_base ses, dd_updated_at = ses_schedule_base ses, dd_value = v\<rparr>)))"

definition data_document :: "DocumentRecord \<Rightarrow> DataDocument" where
  "data_document r =
     \<lparr>dd_table_id = dr_table_id r, dd_document_id = dr_document_id r, dd_revision = dr_revision r,
      dd_commit_sequence = dr_commit_sequence r, dd_created_at = dr_created_at r,
      dd_updated_at = dr_updated_at r, dd_value = dr_value r\<rparr>"

text \<open>The sanity checks on a record of the store.\<close>

definition record_corrupt :: "TableId \<Rightarrow> DocumentId \<Rightarrow> u64 \<Rightarrow> DocumentRecord option \<Rightarrow> bool" where
  "record_corrupt t d sequence found =
     (case found of
        None \<Rightarrow> False
      | Some r \<Rightarrow> dr_table_id r \<noteq> t \<or> dr_document_id r \<noteq> d \<or> dr_revision r = 0
          \<or> dr_commit_sequence r > sequence \<or> sint (dr_created_at r) > sint (dr_updated_at r))"

text \<open>\<open>db\<close> is the database if a snapshot has to be opened now.\<close>

definition open_snapshot :: "ulid_crate \<Rightarrow> EnvironmentScope \<Rightarrow> database \<Rightarrow> StoreError + ReadSnapshot" where
  "open_snapshot U scope db =
     mapR (\<lambda>sequence. \<lparr>snap_sequence = sequence, snap_database = db\<rparr>) (begin_read U scope db)"

definition ensure_session_snapshot ::
    "ulid_crate \<Rightarrow> MutationSession \<Rightarrow> database \<Rightarrow> io_event \<Rightarrow> MutationState
     \<Rightarrow> (DataReadError + ReadSnapshot) \<times> MutationState" where
  "ensure_session_snapshot U ses db io st =
     (case ms_snapshot st of
        Some snapshot \<Rightarrow> (Inr snapshot, st)
      | None \<Rightarrow>
          (case io of
             Cancels \<Rightarrow> (Inl ReadCancelled, latch (FailData ReadCancelled) st)
           | TimesOut \<Rightarrow> (Inl ReadTimeout, latch (FailData ReadTimeout) st)
           | StoreFails err \<Rightarrow> (Inl ReadStorage, latch (FailStore err) st)
           | Proceeds \<Rightarrow>
               (case open_snapshot U (ses_scope ses) db of
                  Inl err \<Rightarrow> (Inl ReadStorage, latch (FailStore err) st)
                | Inr snapshot \<Rightarrow> (Inr snapshot, st\<lparr>ms_snapshot := Some snapshot\<rparr>))))"

definition remember_read ::
    "DocumentKey \<Rightarrow> DataDocument option \<Rightarrow> MutationState
     \<Rightarrow> (DataReadError + DataDocument option) \<times> MutationState" where
  "remember_read key observed st =
     (if key \<notin> fst ` set (ms_reads st) \<and> length (ms_reads st) \<ge> MAX_DOCUMENT_READS
      then (Inl ReadLimitExceeded, latch (FailData ReadLimitExceeded) st)
      else
        let st' = st\<lparr>ms_reads := btree_insert key observed (ms_reads st)\<rparr> in
        case map_of (ms_reads st) key of
          Some prior \<Rightarrow>
            if prior \<noteq> observed then (Inl ReadStorage, latch (FailStore Corruption) st') else (Inr observed, st')
        | None \<Rightarrow> (Inr observed, st'))"

definition session_fetch ::
    "ulid_crate \<Rightarrow> MutationSession \<Rightarrow> ReadSnapshot \<Rightarrow> io_event \<Rightarrow> TableId \<Rightarrow> DocumentId \<Rightarrow> MutationState
     \<Rightarrow> (DataReadError + DataDocument option) \<times> MutationState" where
  "session_fetch U ses snapshot io t d st =
     (case io of
        Cancels \<Rightarrow> (Inl ReadCancelled, latch (FailData ReadCancelled) st)
      | TimesOut \<Rightarrow> (Inl ReadTimeout, latch (FailData ReadTimeout) st)
      | StoreFails err \<Rightarrow> (Inl ReadStorage, latch (FailStore err) st)
      | Proceeds \<Rightarrow>
          (case get_document U (ses_scope ses) t d (snap_database snapshot) of
             Inl err \<Rightarrow> (Inl ReadStorage, latch (FailStore err) st)
           | Inr found \<Rightarrow>
               if record_corrupt t d (snap_sequence snapshot) found
               then (Inl ReadStorage, latch (FailStore Corruption) st)
               else remember_read (t, d) (map_option data_document found) st))"

definition session_get ::
    "ulid_crate \<Rightarrow> MutationSession \<Rightarrow> database \<Rightarrow> io_event \<times> io_event \<Rightarrow> TableId \<Rightarrow> DocumentId \<Rightarrow> MutationState
     \<Rightarrow> (DataReadError + DataDocument option) \<times> MutationState" where
  "session_get U ses db io t d st =
     (if ms_closed st \<or> ms_failure st \<noteq> None then (Inl ReadUnavailable, st)
      else case buffered_read ses st t d of
        Inl err \<Rightarrow> (Inl err, st)
      | Inr BufferedMissing \<Rightarrow> (Inr None, st)
      | Inr (BufferedDocument document) \<Rightarrow> (Inr (Some document), st)
      | Inr NotBuffered \<Rightarrow>
          (case ensure_session_snapshot U ses db (fst io) st of
             (Inl err, st1) \<Rightarrow> (Inl err, st1)
           | (Inr snapshot, st1) \<Rightarrow> session_fetch U ses snapshot (snd io) t d st1))"

section \<open>Closing the session\<close>

record BufferedMutation =
  bm_reads :: "DocumentReadAssertion list"
  bm_old_values :: "(DocumentKey \<times> CanonicalValue option) list"
  bm_writes :: "DocumentMutation list"
  bm_schedules :: "ScheduledInvocationInsert list"

fun needs_old :: "DocumentMutation \<Rightarrow> bool" where
  "needs_old (Upsert _ _ Absent _) = False"
| "needs_old (Upsert _ _ (Exact _) _) = True"
| "needs_old (DeleteDocument _ _ _) = True"

definition missing_bases :: "MutationState \<Rightarrow> DocumentKey list" where
  "missing_bases st =
     map fst (filter (\<lambda>(key, m). needs_old m \<and> key \<notin> fst ` set (ms_reads st)) (ms_writes st))"

text \<open>
  Here no cancellation token is awaited: the reads are bounded by one second in all, and so is
  closing the snapshot.
\<close>

definition awaited :: "io_event \<Rightarrow> SessionFailure + unit" where
  "awaited io =
     (case io of
        TimesOut \<Rightarrow> Inl (FailData ReadTimeout)
      | StoreFails err \<Rightarrow> Inl (FailStore err)
      | _ \<Rightarrow> Inr ())"

definition load_write_base ::
    "ulid_crate \<Rightarrow> MutationSession \<Rightarrow> ReadSnapshot \<Rightarrow> io_event \<Rightarrow> TableId \<Rightarrow> DocumentId
     \<Rightarrow> SessionFailure + DataDocument option" where
  "load_write_base U ses snapshot io t d =
     bindR (awaited io) (\<lambda>_.
     bindR (map_errR FailStore (get_document U (ses_scope ses) t d (snap_database snapshot))) (\<lambda>found.
       if record_corrupt t d (snap_sequence snapshot) found then Inl (FailStore Corruption)
       else Inr (map_option data_document found)))"

fun load_bases ::
    "ulid_crate \<Rightarrow> MutationSession \<Rightarrow> ReadSnapshot \<Rightarrow> io_event list \<Rightarrow> DocumentKey list \<Rightarrow> MutationState
     \<Rightarrow> (SessionFailure + unit) \<times> MutationState" where
  "load_bases U ses snapshot io [] st = (Inr (), st)"
| "load_bases U ses snapshot io ((t, d) # keys) st =
     (case load_write_base U ses snapshot (case io of [] \<Rightarrow> Proceeds | x # _ \<Rightarrow> x) t d of
        Inl failure \<Rightarrow> (Inl failure, st)
      | Inr observed \<Rightarrow>
          load_bases U ses snapshot (tl io) keys (st\<lparr>ms_reads := btree_insert (t, d) observed (ms_reads st)\<rparr>))"

definition load_write_bases ::
    "ulid_crate \<Rightarrow> MutationSession \<Rightarrow> database \<Rightarrow> io_event \<times> io_event list \<Rightarrow> MutationState
     \<Rightarrow> (SessionFailure + unit) \<times> MutationState" where
  "load_write_bases U ses db io st =
     (if ms_failure st \<noteq> None \<or> ms_closed st then (Inr (), st)
      else if missing_bases st = [] then (Inr (), st)
      else
        case (case ms_snapshot st of
            Some snapshot \<Rightarrow> Inr snapshot
          | None \<Rightarrow> bindR (awaited (fst io)) (\<lambda>_. map_errR FailStore (open_snapshot U (ses_scope ses) db))) of
          Inl failure \<Rightarrow> (Inl failure, st)
        | Inr snapshot \<Rightarrow>
            load_bases U ses snapshot (snd io) (missing_bases st) (st\<lparr>ms_snapshot := Some snapshot\<rparr>))"

definition read_assertion :: "DocumentKey \<times> DataDocument option \<Rightarrow> DocumentReadAssertion" where
  "read_assertion = (\<lambda>((t, d), observed).
     \<lparr>ra_table_id = t, ra_document_id = d, ra_observed_revision = map_option dd_revision observed\<rparr>)"

text \<open>
  \<open>preload\<close> is what happens to the reads of \<open>load_write_bases\<close> and \<open>close\<close> to closing the snapshot. A
  failure to close is reported first, then the failure latched by the session, then that of the
  preload.
\<close>

definition session_finish ::
    "ulid_crate \<Rightarrow> MutationSession \<Rightarrow> database \<Rightarrow> io_event \<times> io_event list \<Rightarrow> io_event \<Rightarrow> MutationState
     \<Rightarrow> SessionFailure + BufferedMutation" where
  "session_finish U ses db preload close st =
     (let (loaded, st1) = load_write_bases U ses db preload st;
          failure = (case ms_failure st1 of
              Some failure \<Rightarrow> Inl failure
            | None \<Rightarrow> loaded) in
      bindR (if ms_snapshot st1 = None then Inr () else awaited close) (\<lambda>_.
      bindR failure (\<lambda>_.
        Inr \<lparr>bm_reads = map read_assertion (ms_reads st1),
             bm_old_values = map (\<lambda>(key, observed). (key, map_option dd_value observed)) (ms_reads st1),
             bm_writes = map snd (ms_writes st1), bm_schedules = ms_schedules st1\<rparr>)))"

section \<open>Programs\<close>

text \<open>
  A Function as the brokers see it: a tree of calls, each continued by its answer. A scan is refused
  by the session of a Mutation.
\<close>

datatype program =
  Return "RuntimeError + CanonicalValue"
| CallGet TableId DocumentId "DataReadError + DataDocument option \<Rightarrow> program"
| CallScan "DataReadError \<Rightarrow> program"
| CallInsert TableId DocumentId CanonicalValue "DataReadError + unit \<Rightarrow> program"
| CallReplace TableId DocumentId u64 CanonicalValue "DataReadError + unit \<Rightarrow> program"
| CallDelete TableId DocumentId u64 "DataReadError + unit \<Rightarrow> program"
| CallSchedule ScheduleRequest "ScheduleError + ScheduledInvocationId \<Rightarrow> program"

text \<open>The runtime executes a program; \<open>io\<close> gives what happens to each broker call in turn.\<close>

definition next_io :: "(io_event \<times> io_event) list \<Rightarrow> io_event \<times> io_event" where
  "next_io io = (case io of [] \<Rightarrow> (Proceeds, Proceeds) | x # _ \<Rightarrow> x)"

primrec run_program ::
    "ulid_crate \<Rightarrow> (bytes \<Rightarrow> bytes) \<Rightarrow> MutationSession \<Rightarrow> database \<Rightarrow> program
     \<Rightarrow> (io_event \<times> io_event) list \<Rightarrow> MutationState \<Rightarrow> (RuntimeError + CanonicalValue) \<times> MutationState" where
  "run_program U sha256 ses db (Return r) = (\<lambda>io st. (r, st))"
| "run_program U sha256 ses db (CallGet t d k) = (\<lambda>io st.
     let (r, st') = session_get U ses db (next_io io) t d st in run_program U sha256 ses db (k r) (tl io) st')"
| "run_program U sha256 ses db (CallScan k) = (\<lambda>io st.
     run_program U sha256 ses db (k ReadInvalidRequest) (tl io) st)"
| "run_program U sha256 ses db (CallInsert t d v k) = (\<lambda>io st.
     let (r, st') = session_insert U t d v st in run_program U sha256 ses db (k r) (tl io) st')"
| "run_program U sha256 ses db (CallReplace t d x v k) = (\<lambda>io st.
     let (r, st') = session_replace U t d x v st in run_program U sha256 ses db (k r) (tl io) st')"
| "run_program U sha256 ses db (CallDelete t d x k) = (\<lambda>io st.
     let (r, st') = session_delete U t d x st in run_program U sha256 ses db (k r) (tl io) st')"
| "run_program U sha256 ses db (CallSchedule request k) = (\<lambda>io st.
     let (r, st') = session_schedule U sha256 ses (fst (next_io io)) request st in
     run_program U sha256 ses db (k r) (tl io) st')"

end
