(* ===== verification/Mutation_Engine.thy ===== *)
theory Mutation_Engine
  imports Mutation_Session
begin

text \<open>
  The Mutation coordinator of \<open>runku-execution/src/mutation.rs\<close>: an attempt runs the Function in a
  fresh session, derives the index changes from the schema catalog, and commits everything as one
  batch; the same batch is retried when the store could not tell, and the whole Function is run
  again on a conflict, three times at most. Between its own calls other clients use the store: the
  operations they perform are part of the inputs.
\<close>

section \<open>Requests\<close>

text \<open>
  Of a Function's manifest and of an invocation request, the fields that the coordinator reads; identity, limits and
  the attached brokers of a request only concern the runtime.
\<close>

datatype FunctionType = FnQuery | FnMutation | FnAction

datatype FunctionVisibility = VisibilityPublic | VisibilityInternal

record FunctionManifest =
  fm_id :: ulid
  fm_name :: FunctionName
  fm_function_type :: FunctionType
  fm_visibility :: FunctionVisibility

record InvocationRequest =
  rq_scope :: EnvironmentScope
  rq_function_id :: ulid
  rq_functions :: "FunctionManifest list"
  rq_runtime_version :: string
  rq_index_contract_hash :: bytes
  rq_artifact :: bytes
  rq_pinned_code :: PinnedCode

datatype MutationExecutionError =
  ExecRuntime RuntimeError | ExecStorage StoreError | ExecData DataReadError | ExecSchema SchemaError
| ExecSchedule ScheduleError

fun session_failure_public :: "SessionFailure \<Rightarrow> MutationExecutionError" where
  "session_failure_public (FailStore e) = ExecStorage e"
| "session_failure_public (FailData e) = ExecData e"
| "session_failure_public (FailSchedule e) = ExecSchedule e"

record MutationOutcome =
  mo_value :: CanonicalValue
  mo_commit_sequence :: "u64 option"
  mo_replayed :: bool
  mo_attempts :: nat

definition mutation_outcome_of :: "CanonicalValue \<Rightarrow> CommitResult \<Rightarrow> nat \<Rightarrow> MutationOutcome" where
  "mutation_outcome_of v result attempts =
     \<lparr>mo_value = v, mo_commit_sequence = Some (cr_commit_sequence result),
      mo_replayed = cr_replayed result, mo_attempts = attempts\<rparr>"

section \<open>Index planning\<close>

definition optional_index_key ::
    "ulid_crate \<Rightarrow> IndexDefinition \<Rightarrow> CanonicalValue option \<Rightarrow> MutationExecutionError + IndexKey option" where
  "optional_index_key U d value =
     (case value of None \<Rightarrow> Inr None | Some v \<Rightarrow> map_errR ExecSchema (extract_index_key U d v))"

definition plan_index ::
    "ulid_crate \<Rightarrow> DocumentMutation \<Rightarrow> CanonicalValue option \<Rightarrow> CanonicalValue option \<Rightarrow> u64
     \<Rightarrow> IndexMutation list \<Rightarrow> IndexDefinition \<Rightarrow> MutationExecutionError + IndexMutation list" where
  "plan_index U m old_value new_value new_revision indexes d =
     bindR (optional_index_key U d old_value) (\<lambda>old_key.
     bindR (optional_index_key U d new_value) (\<lambda>new_key.
       Inr (indexes @
         (case old_key of
            Some k \<Rightarrow> if new_key \<noteq> Some k
              then [DeleteIndex (def_index_id d) k (mutation_document_id m)] else []
          | None \<Rightarrow> []) @
         (case new_key of
            Some k \<Rightarrow> [PutIndex (def_index_id d) k (mutation_table_id m) (mutation_document_id m) new_revision]
          | None \<Rightarrow> []))))"

fun mutation_target :: "DocumentMutation \<Rightarrow> MutationExecutionError + CanonicalValue option \<times> u64" where
  "mutation_target (Upsert _ _ Absent v) = Inr (Some v, 1)"
| "mutation_target (Upsert _ _ (Exact revision) v) =
     bindR (ok_or (ExecStorage LimitExceeded) (checked_add_u64 revision 1)) (\<lambda>r. Inr (Some v, r))"
| "mutation_target (DeleteDocument _ _ _) = Inr (None, 0)"

definition plan_document ::
    "ulid_crate \<Rightarrow> SchemaCatalog \<Rightarrow> (DocumentKey \<times> CanonicalValue option) list \<Rightarrow> IndexMutation list
     \<Rightarrow> DocumentMutation \<Rightarrow> MutationExecutionError + IndexMutation list" where
  "plan_document U schema old_values indexes m =
     (let old_value = (case map_of old_values (mutation_key m) of Some v \<Rightarrow> v | None \<Rightarrow> None) in
      bindR (mutation_target m) (\<lambda>(new_value, new_revision).
        foldR (plan_index U m old_value new_value new_revision) indexes
          (indexes_for_table schema (mutation_table_id m))))"

definition plan_document_index_mutations ::
    "ulid_crate \<Rightarrow> SchemaCatalog \<Rightarrow> DocumentMutation list \<Rightarrow> (DocumentKey \<times> CanonicalValue option) list
     \<Rightarrow> MutationExecutionError + IndexMutation list" where
  "plan_document_index_mutations U schema writes old_values =
     foldR (plan_document U schema old_values) [] writes"

section \<open>The batch\<close>

fun write_kind :: "DocumentMutation \<Rightarrow> string" where
  "write_kind (Upsert _ _ Absent _) = ''insert''"
| "write_kind (Upsert _ _ (Exact _) _) = ''replace''"
| "write_kind (DeleteDocument _ _ _) = ''delete''"

definition write_impact :: "ulid_crate \<Rightarrow> DocumentMutation \<Rightarrow> CanonicalValue" where
  "write_impact U m = Object
     [(''documentId'', String (document_text U (mutation_document_id m))),
      (''kind'', String (write_kind m)),
      (''tableId'', String (table_text U (mutation_table_id m)))]"

fun index_impact :: "ulid_crate \<Rightarrow> IndexMutation \<Rightarrow> CanonicalValue" where
  "index_impact U (PutIndex i k t d r) = Object
     [(''documentId'', String (document_text U d)), (''indexId'', String (index_text U i)),
      (''key'', Bytes (encoded k)), (''kind'', String ''put'')]"
| "index_impact U (DeleteIndex i k d) = Object
     [(''documentId'', String (document_text U d)), (''indexId'', String (index_text U i)),
      (''key'', Bytes (encoded k)), (''kind'', String ''delete'')]"

definition document_write_set_payload ::
    "ulid_crate \<Rightarrow> DocumentMutation list \<Rightarrow> IndexMutation list \<Rightarrow> CanonicalValue" where
  "document_write_set_payload U documents indexes = Object
     [(''indexes'', Array (map (index_impact U) indexes)),
      (''type'', String ''document_write_set_v2''),
      (''writes'', Array (map (write_impact U) documents))]"

definition mutation_batch ::
    "ulid_crate \<Rightarrow> EnvironmentScope \<Rightarrow> OperationId \<Rightarrow> OutboxEventId \<Rightarrow> DocumentReadAssertion list
     \<Rightarrow> DocumentMutation list \<Rightarrow> IndexMutation list \<Rightarrow> ScheduledInvocationInsert list
     \<Rightarrow> MutationExecutionError + CommitBatch" where
  "mutation_batch U scope operation_id event_id read_set documents indexes schedules =
     (let b0 = commit_batch_new scope operation_id;
          b1 = fold push_read read_set b0;
          b2 = fold push_document documents b1;
          b3 = fold push_index indexes b2;
          b4 = (if documents \<noteq> []
            then push_outbox \<lparr>oa_event_id = event_id, oa_payload = document_write_set_payload U documents indexes\<rparr> b3
            else b3);
          batch = fold push_schedule schedules b4 in
      bindR (map_errR ExecStorage (commit_batch_validate U batch)) (\<lambda>_. Inr batch))"

section \<open>Committing\<close>

text \<open>Before each call of \<open>commit\<close> other clients may have used the store.\<close>

record commit_env =
  ce_others :: "store_op list"
  ce_fault :: tx_fault
  ce_clock :: clock

definition retry_commit :: "StoreError \<Rightarrow> bool" where
  "retry_commit e \<longleftrightarrow> e \<in> {Busy, SerializationFailure, ResultUncertain, Unavailable}"

text \<open>The loop \<open>for retry in 0..MAX_ATTEMPTS\<close>; the first argument counts the iterations left.\<close>

fun commit_retries ::
    "nat \<Rightarrow> ulid_crate \<Rightarrow> (bytes \<Rightarrow> bytes) \<Rightarrow> CommitBatch \<Rightarrow> (nat \<Rightarrow> commit_env) \<Rightarrow> nat \<Rightarrow> StoreError \<Rightarrow> database
     \<Rightarrow> (StoreError + CommitResult) \<times> database" where
  "commit_retries 0 U sha256 b env retry last_error db = (Inl last_error, db)"
| "commit_retries (Suc n) U sha256 b env retry last_error db =
     (case store_commit U sha256 (ce_fault (env retry)) (ce_clock (env retry)) b
          (run (store_step U sha256) (ce_others (env retry)) db) of
        (Inr result, db') \<Rightarrow> (Inr result, db')
      | (Inl err, db') \<Rightarrow>
          if retry_commit err \<and> retry + 1 < MAX_ATTEMPTS
          then commit_retries n U sha256 b env (retry + 1) err db'
          else (Inl err, db'))"

definition commit_exact ::
    "ulid_crate \<Rightarrow> (bytes \<Rightarrow> bytes) \<Rightarrow> CommitBatch \<Rightarrow> (nat \<Rightarrow> commit_env) \<Rightarrow> database
     \<Rightarrow> (StoreError + CommitResult) \<times> database" where
  "commit_exact U sha256 b env db = commit_retries MAX_ATTEMPTS U sha256 b env 0 Internal db"

section \<open>Attempts\<close>

text \<open>The inputs of one attempt: what the others do before its snapshot, and what befalls its calls.\<close>

record attempt_env =
  ae_program :: program
  ae_others :: "store_op list"
  ae_io :: "(io_event \<times> io_event) list"
  ae_preload :: "io_event \<times> io_event list"
  ae_close :: io_event
  ae_commit :: "nat \<Rightarrow> commit_env"

text \<open>One run of the Function and the end of its session, on the database the snapshot is taken of.\<close>

definition run_attempt ::
    "ulid_crate \<Rightarrow> (bytes \<Rightarrow> bytes) \<Rightarrow> MutationSession \<Rightarrow> program \<Rightarrow> (io_event \<times> io_event) list
     \<Rightarrow> io_event \<times> io_event list \<Rightarrow> io_event \<Rightarrow> database
     \<Rightarrow> MutationExecutionError + CanonicalValue \<times> BufferedMutation" where
  "run_attempt U sha256 ses program io preload close db =
     (let (runtime_result, st) = run_program U sha256 ses db program io mutation_state_new in
      bindR (map_errR session_failure_public (session_finish U ses db preload close st)) (\<lambda>buffered.
      bindR (map_errR ExecRuntime runtime_result) (\<lambda>v. Inr (v, buffered))))"

text \<open>The batch an attempt commits.\<close>

definition attempt_batch ::
    "ulid_crate \<Rightarrow> EnvironmentScope \<Rightarrow> OperationId \<Rightarrow> SchemaCatalog option \<Rightarrow> BufferedMutation
     \<Rightarrow> MutationExecutionError + CommitBatch" where
  "attempt_batch U scope operation_id schema buffered =
     bindR (case schema of
         None \<Rightarrow> Inr []
       | Some catalog \<Rightarrow>
           plan_document_index_mutations U catalog (bm_writes buffered) (bm_old_values buffered)) (\<lambda>indexes.
       mutation_batch U scope operation_id operation_id (bm_reads buffered) (bm_writes buffered) indexes
         (bm_schedules buffered))"

text \<open>The loop \<open>for attempt in 1..=MAX_ATTEMPTS\<close>.\<close>

fun execute_attempts ::
    "nat \<Rightarrow> ulid_crate \<Rightarrow> (bytes \<Rightarrow> bytes) \<Rightarrow> MutationSession \<Rightarrow> SchemaCatalog option \<Rightarrow> (nat \<Rightarrow> attempt_env)
     \<Rightarrow> nat \<Rightarrow> database \<Rightarrow> (MutationExecutionError + MutationOutcome) \<times> database" where
  "execute_attempts 0 U sha256 ses schema env attempt db = (Inl (ExecStorage MutationConflict), db)"
| "execute_attempts (Suc n) U sha256 ses schema env attempt db =
     (let a = env attempt;
          db1 = run (store_step U sha256) (ae_others a) db in
      case run_attempt U sha256 ses (ae_program a) (ae_io a) (ae_preload a) (ae_close a) db1 of
        Inl err \<Rightarrow> (Inl err, db1)
      | Inr (v, buffered) \<Rightarrow>
          if bm_writes buffered = [] \<and> bm_schedules buffered = []
          then (Inr \<lparr>mo_value = v, mo_commit_sequence = None, mo_replayed = False, mo_attempts = attempt\<rparr>, db1)
          else case attempt_batch U (ses_scope ses) (ses_operation_id ses) schema buffered of
            Inl err \<Rightarrow> (Inl err, db1)
          | Inr batch \<Rightarrow>
              (case commit_exact U sha256 batch (ae_commit a) db1 of
                 (Inr result, db2) \<Rightarrow> (Inr (mutation_outcome_of v result attempt), db2)
               | (Inl err, db2) \<Rightarrow>
                   if err = MutationConflict \<and> attempt < MAX_ATTEMPTS
                   then execute_attempts n U sha256 ses schema env (attempt + 1) db2
                   else (Inl (ExecStorage err), db2)))"

section \<open>Execution\<close>

text \<open>
  \<open>timestamp_ms\<close> is the millisecond field of a ULID (\<open>ulid\<close> crate), and \<open>bundle_resource\<close> the content
  of a Release artifact under a digest, absent when the artifact is malformed or lacks it.
\<close>

definition operation_time_micros :: "(ulid \<Rightarrow> u64) \<Rightarrow> OperationId \<Rightarrow> MutationExecutionError + TimestampMicros" where
  "operation_time_micros timestamp_ms operation_id =
     (let micros = unat (timestamp_ms operation_id) * 1000 in
      if micros < 2 ^ 64 \<and> micros < 2 ^ 63 then Inr (of_nat micros) else Inl (ExecStorage Internal))"

definition active_schema ::
    "ulid_crate \<Rightarrow> (bytes \<Rightarrow> bytes) \<Rightarrow> (bytes \<Rightarrow> bytes \<Rightarrow> bytes option) \<Rightarrow> SchemaCatalog option \<Rightarrow> InvocationRequest
     \<Rightarrow> MutationExecutionError + SchemaCatalog option" where
  "active_schema U sha256 bundle_resource configured request =
     bindR (case configured of
         Some catalog \<Rightarrow> Inr (Some catalog)
       | None \<Rightarrow>
           if rq_runtime_version request \<in> {''runku-js-1'', ''runku-js-2'', ''runku-js-3'', ''runku-js''}
           then bindR (ok_or (ExecSchema InvalidCatalog)
                  (bundle_resource (rq_artifact request) (rq_index_contract_hash request))) (\<lambda>resource.
                map_errR ExecSchema (mapR Some (decode_schema_catalog U sha256 resource)))
           else Inr None) (\<lambda>schema.
       case schema of
         None \<Rightarrow> Inr None
       | Some catalog \<Rightarrow>
           if cat_project_id catalog \<noteq> scope_project (rq_scope request)
             \<or> cat_digest catalog \<noteq> rq_index_contract_hash request
           then Inl (ExecSchema InvalidCatalog) else Inr (Some catalog))"

definition allowed_schedules :: "InvocationRequest \<Rightarrow> FunctionName list" where
  "allowed_schedules request =
     map fm_name (filter (\<lambda>f. fm_visibility f = VisibilityInternal \<and>
       fm_function_type f \<in> {FnMutation, FnAction}) (rq_functions request))"

definition select_mutation :: "InvocationRequest \<Rightarrow> MutationExecutionError + FunctionManifest" where
  "select_mutation request =
     bindR (ok_or (ExecRuntime RuntimeInvalidInvocation)
         (List.find (\<lambda>f. fm_id f = rq_function_id request) (rq_functions request))) (\<lambda>selected.
       if fm_function_type selected \<noteq> FnMutation then Inl (ExecRuntime RuntimeInvalidInvocation)
       else Inr selected)"

definition execute_mutation ::
    "ulid_crate \<Rightarrow> (bytes \<Rightarrow> bytes) \<Rightarrow> (ulid \<Rightarrow> u64) \<Rightarrow> (bytes \<Rightarrow> bytes \<Rightarrow> bytes option) \<Rightarrow> SchemaCatalog option
     \<Rightarrow> InvocationRequest \<Rightarrow> OperationId \<Rightarrow> (nat \<Rightarrow> attempt_env) \<Rightarrow> database
     \<Rightarrow> (MutationExecutionError + MutationOutcome) \<times> database" where
  "execute_mutation U sha256 timestamp_ms bundle_resource configured request operation_id env db =
     (case bindR (active_schema U sha256 bundle_resource configured request) (\<lambda>schema.
           bindR (operation_time_micros timestamp_ms operation_id) (\<lambda>schedule_base.
           bindR (select_mutation request) (\<lambda>_. Inr (schema, schedule_base)))) of
        Inl err \<Rightarrow> (Inl err, db)
      | Inr (schema, schedule_base) \<Rightarrow>
          execute_attempts MAX_ATTEMPTS U sha256
            \<lparr>ses_scope = rq_scope request, ses_operation_id = operation_id, ses_schedule_base = schedule_base,
             ses_pinned_code = rq_pinned_code request, ses_allowed_schedules = allowed_schedules request\<rparr>
            schema env 1 db)"

end
