(* ===== verification/Mutation_Refinement.thy ===== *)
theory Mutation_Refinement
  imports Mutation_Engine
begin

text \<open>
  Optimistic execution of a Mutation refines atomic execution: an attempt whose batch commits could
  have run at once, without any failure, on the database its batch was applied to. The proof relates
  the session of the attempt with one on the later database, step by step.
\<close>

section \<open>What a session keeps\<close>

definition session_ok :: "MutationState \<Rightarrow> bool" where
  "session_ok st \<longleftrightarrow> btree_keys (ms_reads st) \<and> btree_keys (ms_writes st) \<and> \<not> ms_closed st"

text \<open>A session that has not failed in the end had not failed before, and remembers every read.\<close>

definition grows :: "MutationState \<Rightarrow> MutationState \<Rightarrow> bool" where
  "grows st st' \<longleftrightarrow>
     (session_ok st \<longrightarrow> session_ok st') \<and>
     (ms_failure st' = None \<longrightarrow> ms_failure st = None \<and>
        (session_ok st \<longrightarrow> (\<forall>k obs. map_of (ms_reads st) k = Some obs \<longrightarrow> map_of (ms_reads st') k = Some obs)))"

lemma grows_refl [simp]: "grows st st"
  by (simp add: grows_def)

lemma grows_trans: "grows st1 st2 \<Longrightarrow> grows st2 st3 \<Longrightarrow> grows st1 st3"
  by (auto simp: grows_def)

lemma grows_latch [simp]: "grows st (latch f st)"
  by (simp add: grows_def session_ok_def)

lemma grows_buffer: "session_buffer U st m = (r, st') \<Longrightarrow> grows st st'"
  by (auto simp: session_buffer_def grows_def session_ok_def split: if_splits)

lemma grows_writes:
  "session_insert U t d v st = (r, st') \<Longrightarrow> grows st st'"
  "session_replace U t d x v st = (r, st') \<Longrightarrow> grows st st'"
  "session_delete U t d x st = (r, st') \<Longrightarrow> grows st st'"
  by (auto simp: session_insert_def session_replace_def session_delete_def split: if_splits intro: grows_buffer)

lemma grows_schedule: "session_schedule U sha256 ses io request st = (r, st') \<Longrightarrow> grows st st'"
  by (auto simp: session_schedule_def push_session_schedule_def grows_def session_ok_def Let_def
      split: if_splits sum.splits option.splits)

lemma grows_remember: "remember_read k obs st = (r, st') \<Longrightarrow> grows st st'"
  by (auto simp: remember_read_def grows_def session_ok_def map_of_btree_insert Let_def
      split: if_splits option.splits)

lemma grows_get: "session_get U ses db io t d st = (r, st') \<Longrightarrow> grows st st'"
proof -
  have fetch: "session_fetch U ses snap x t d s = (q, s') \<Longrightarrow> grows s s'" for snap x s q s'
    by (auto simp: session_fetch_def split: io_event.splits sum.splits if_splits intro: grows_remember)
  have ensure: "ensure_session_snapshot U ses db x s = (q, s') \<Longrightarrow> grows s s'" for x s q s'
    by (auto simp: ensure_session_snapshot_def grows_def session_ok_def
        split: io_event.splits sum.splits option.splits)
  assume "session_get U ses db io t d st = (r, st')"
  then show ?thesis
    by (auto simp: session_get_def split: if_splits sum.splits BufferedRead.splits prod.splits
        dest!: fetch ensure intro: grows_trans)
qed

lemma grows_program: "run_program U sha256 ses db program io st = (r, st') \<Longrightarrow> grows st st'"
proof (induction program arbitrary: io st)
  case (CallGet t d k)
  then show ?case by (auto split: prod.splits) (blast intro: grows_trans grows_get)
next
  case (CallInsert t d v k)
  then show ?case by (auto split: prod.splits) (blast intro: grows_trans grows_writes)
next
  case (CallReplace t d x v k)
  then show ?case by (auto split: prod.splits) (blast intro: grows_trans grows_writes)
next
  case (CallDelete t d x k)
  then show ?case by (auto split: prod.splits) (blast intro: grows_trans grows_writes)
next
  case (CallSchedule request k)
  then show ?case by (auto split: prod.splits) (blast intro: grows_trans grows_schedule)
next
  case (CallScan k)
  then show ?case by auto blast
qed auto

section \<open>Reads come from the snapshot\<close>

definition observes ::
    "ulid_crate \<Rightarrow> EnvironmentScope \<Rightarrow> database \<Rightarrow> DocumentKey \<Rightarrow> DataDocument option \<Rightarrow> bool" where
  "observes U scope db k obs \<longleftrightarrow>
     (\<exists>snap found. open_snapshot U scope db = Inr snap \<and> get_document U scope (fst k) (snd k) db = Inr found \<and>
        \<not> record_corrupt (fst k) (snd k) (snap_sequence snap) found \<and> obs = map_option data_document found)"

definition reads_observed :: "ulid_crate \<Rightarrow> EnvironmentScope \<Rightarrow> database \<Rightarrow> MutationState \<Rightarrow> bool" where
  "reads_observed U scope db st \<longleftrightarrow> (\<forall>k obs. map_of (ms_reads st) k = Some obs \<longrightarrow> observes U scope db k obs)"

definition snapshot_of :: "ulid_crate \<Rightarrow> EnvironmentScope \<Rightarrow> database \<Rightarrow> MutationState \<Rightarrow> bool" where
  "snapshot_of U scope db st \<longleftrightarrow> (\<forall>snap. ms_snapshot st = Some snap \<longrightarrow> open_snapshot U scope db = Inr snap)"

lemma open_snapshot_database: "open_snapshot U scope db = Inr snap \<Longrightarrow> snap_database snap = db"
  by (auto simp: open_snapshot_def)

lemma grows_reads_observed:
  assumes "grows st st'" and "session_ok st" and "ms_failure st' = None" and "reads_observed U scope db st'"
  shows "reads_observed U scope db st"
  using assms by (auto simp: grows_def reads_observed_def)

text \<open>A read that leaves the session alive is answered from the buffer or from the snapshot.\<close>

lemma session_get_alive:
  assumes "session_get U ses db io t d st = (r, st')" and "ms_failure st' = None" and "session_ok st"
    and "snapshot_of U (ses_scope ses) db st"
  obtains err where "buffered_read ses st t d = Inl err" "r = Inl err" "st' = st"
  | "buffered_read ses st t d = Inr BufferedMissing" "r = Inr None" "st' = st"
  | x where "buffered_read ses st t d = Inr (BufferedDocument x)" "r = Inr (Some x)" "st' = st"
  | snap obs where "buffered_read ses st t d = Inr NotBuffered" "open_snapshot U (ses_scope ses) db = Inr snap"
      "observes U (ses_scope ses) db (t, d) obs"
      "remember_read (t, d) obs (st\<lparr>ms_snapshot := Some snap\<rparr>) = (r, st')"
      "map_of (ms_reads st') (t, d) = Some obs"
proof -
  have alive: "ms_failure st = None" using grows_get [OF assms(1)] assms(2) by (simp add: grows_def)
  show thesis
  proof (cases "buffered_read ses st t d")
    case (Inl err)
    then show thesis using assms alive that(1) by (simp add: session_get_def session_ok_def)
  next
    case (Inr b)
    show thesis
    proof (cases b)
      case NotBuffered
      obtain q st1 where e: "ensure_session_snapshot U ses db (fst io) st = (q, st1)" by force
      from assms(1) Inr NotBuffered alive e assms(3)
      have g: "(case q of Inl err \<Rightarrow> (Inl err, st1) | Inr snapshot \<Rightarrow> session_fetch U ses snapshot (snd io) t d st1) = (r, st')"
        by (simp add: session_get_def session_ok_def)
      have "ms_failure st1 = None"
      proof (cases q)
        case (Inr snap)
        have "session_fetch U ses snap (snd io) t d st1 = (r, st') \<Longrightarrow> grows st1 st'"
          by (auto simp: session_fetch_def split: io_event.splits sum.splits if_splits intro: grows_remember)
        with g Inr assms(2) show ?thesis by (simp add: grows_def)
      qed (use g assms(2) in simp)
      then obtain snap where q: "q = Inr snap" and snap: "open_snapshot U (ses_scope ses) db = Inr snap"
        and st1: "st1 = st\<lparr>ms_snapshot := Some snap\<rparr>"
        using e assms(4) by (auto simp: ensure_session_snapshot_def snapshot_of_def
            split: option.splits io_event.splits sum.splits)
      from g q assms(2) obtain found where found: "get_document U (ses_scope ses) t d db = Inr found"
        "\<not> record_corrupt t d (snap_sequence snap) found"
        "remember_read (t, d) (map_option data_document found) st1 = (r, st')"
        using open_snapshot_database [OF snap]
        by (auto simp: session_fetch_def split: io_event.splits sum.splits if_splits)
      have obs: "observes U (ses_scope ses) db (t, d) (map_option data_document found)"
        using found snap by (auto simp: observes_def)
      have "map_of (ms_reads st') (t, d) = Some (map_option data_document found)"
        using found(3) assms(2,3) st1
        by (auto simp: remember_read_def Let_def session_ok_def map_of_btree_insert split: if_splits option.splits)
      with Inr NotBuffered snap obs found(3) st1 show thesis by (intro that(4)) simp_all
    next
      case BufferedMissing
      then show thesis using Inr assms alive that(2) by (simp add: session_get_def session_ok_def)
    next
      case (BufferedDocument x)
      then show thesis using Inr assms alive that(3) by (simp add: session_get_def session_ok_def)
    qed
  qed
qed

lemma session_get_observed:
  assumes "session_get U ses db io t d st = (r, st')" and "ms_failure st' = None" and "session_ok st"
    and "snapshot_of U (ses_scope ses) db st" and "reads_observed U (ses_scope ses) db st"
  shows "snapshot_of U (ses_scope ses) db st' \<and> reads_observed U (ses_scope ses) db st'"
  using assms(1-4)
proof (cases rule: session_get_alive)
  case (4 snap obs)
  then show ?thesis
    using assms(2,3,5)
    by (auto simp: remember_read_def Let_def session_ok_def map_of_btree_insert snapshot_of_def reads_observed_def
        split: if_splits option.splits)
qed (use assms in simp_all)

lemma writes_keep_reads:
  "session_insert U t d v st = (r, st') \<Longrightarrow> ms_reads st' = ms_reads st \<and> ms_snapshot st' = ms_snapshot st"
  "session_replace U t d x v st = (r, st') \<Longrightarrow> ms_reads st' = ms_reads st \<and> ms_snapshot st' = ms_snapshot st"
  "session_delete U t d x st = (r, st') \<Longrightarrow> ms_reads st' = ms_reads st \<and> ms_snapshot st' = ms_snapshot st"
  "session_schedule U sha256 ses e q st = (i, st') \<Longrightarrow> ms_reads st' = ms_reads st \<and> ms_snapshot st' = ms_snapshot st"
  by (auto simp: session_insert_def session_replace_def session_delete_def session_buffer_def session_schedule_def
      push_session_schedule_def Let_def split: if_splits sum.splits option.splits)

lemma reads_observed_cong:
  "ms_reads st' = ms_reads st \<and> ms_snapshot st' = ms_snapshot st \<Longrightarrow>
   snapshot_of U scope db st \<and> reads_observed U scope db st \<Longrightarrow>
   snapshot_of U scope db st' \<and> reads_observed U scope db st'"
  by (simp add: snapshot_of_def reads_observed_def)

lemma program_observed:
  assumes "run_program U sha256 ses db program io st = (r, st')" and "ms_failure st' = None" and "session_ok st"
    and "snapshot_of U (ses_scope ses) db st \<and> reads_observed U (ses_scope ses) db st"
  shows "snapshot_of U (ses_scope ses) db st' \<and> reads_observed U (ses_scope ses) db st'"
  using assms(1,3,4)
proof (induction program arbitrary: io st)
  case (Return q)
  then show ?case by simp
next
  case (CallGet t d k)
  obtain q st1 where g: "session_get U ses db (next_io io) t d st = (q, st1)" by force
  with CallGet.prems have rest: "run_program U sha256 ses db (k q) (tl io) st1 = (r, st')" by simp
  have "session_ok st1" "ms_failure st1 = None"
    using grows_get [OF g] grows_program [OF rest] CallGet.prems(2) assms(2) by (simp_all add: grows_def)
  with CallGet.IH [OF rangeI rest] session_get_observed [OF g] CallGet.prems show ?case by blast
next
  case (CallScan k)
  then show ?case by (metis rangeI run_program.simps(3))
next
  case (CallInsert t d v k)
  obtain q st1 where g: "session_insert U t d v st = (q, st1)" by force
  with CallInsert.prems have rest: "run_program U sha256 ses db (k q) (tl io) st1 = (r, st')" by simp
  have "session_ok st1" using grows_writes(1) [OF g] CallInsert.prems(2) by (simp add: grows_def)
  with CallInsert.IH [OF rangeI rest] reads_observed_cong [OF writes_keep_reads(1) [OF g]] CallInsert.prems(3)
  show ?case by blast
next
  case (CallReplace t d x v k)
  obtain q st1 where g: "session_replace U t d x v st = (q, st1)" by force
  with CallReplace.prems have rest: "run_program U sha256 ses db (k q) (tl io) st1 = (r, st')" by simp
  have "session_ok st1" using grows_writes(2) [OF g] CallReplace.prems(2) by (simp add: grows_def)
  with CallReplace.IH [OF rangeI rest] reads_observed_cong [OF writes_keep_reads(2) [OF g]] CallReplace.prems(3)
  show ?case by blast
next
  case (CallDelete t d x k)
  obtain q st1 where g: "session_delete U t d x st = (q, st1)" by force
  with CallDelete.prems have rest: "run_program U sha256 ses db (k q) (tl io) st1 = (r, st')" by simp
  have "session_ok st1" using grows_writes(3) [OF g] CallDelete.prems(2) by (simp add: grows_def)
  with CallDelete.IH [OF rangeI rest] reads_observed_cong [OF writes_keep_reads(3) [OF g]] CallDelete.prems(3)
  show ?case by blast
next
  case (CallSchedule request k)
  obtain q st1 where g: "session_schedule U sha256 ses (fst (next_io io)) request st = (q, st1)" by force
  with CallSchedule.prems have rest: "run_program U sha256 ses db (k q) (tl io) st1 = (r, st')" by simp
  have "session_ok st1" using grows_schedule [OF g] CallSchedule.prems(2) by (simp add: grows_def)
  with CallSchedule.IH [OF rangeI rest] reads_observed_cong [OF writes_keep_reads(4) [OF g]] CallSchedule.prems(3)
  show ?case by blast
qed

section \<open>Running again on a later database\<close>

text \<open>
  The two sessions have buffered and remembered the same, and read from snapshots of their own
  databases.
\<close>

definition same_session :: "ulid_crate \<Rightarrow> EnvironmentScope \<Rightarrow> database \<Rightarrow> MutationState \<Rightarrow> MutationState \<Rightarrow> bool" where
  "same_session U scope db' st st' \<longleftrightarrow>
     st' = st\<lparr>ms_snapshot := ms_snapshot st'\<rparr> \<and> (ms_snapshot st' = None \<longleftrightarrow> ms_snapshot st = None) \<and>
     snapshot_of U scope db' st'"

lemma remember_read_snapshot:
  "remember_read k obs (st\<lparr>ms_snapshot := x\<rparr>) =
     (fst (remember_read k obs st), (snd (remember_read k obs st))\<lparr>ms_snapshot := x\<rparr>)"
  by (simp add: remember_read_def Let_def split: option.splits)

lemma buffered_read_snapshot [simp]: "buffered_read ses (st\<lparr>ms_snapshot := x\<rparr>) t d = buffered_read ses st t d"
  by (simp add: buffered_read_def)

lemma session_get_again:
  assumes get: "session_get U ses db io t d st = (r, st1)" and alive: "ms_failure st1 = None" and ok: "session_ok st"
    and snap: "snapshot_of U (ses_scope ses) db st" and obs: "reads_observed U (ses_scope ses) db' st1"
    and same: "same_session U (ses_scope ses) db' st st'"
  shows "\<exists>st1'. session_get U ses db' (Proceeds, Proceeds) t d st' = (r, st1') \<and>
    same_session U (ses_scope ses) db' st1 st1'"
proof -
  define x where "x = ms_snapshot st'"
  with same have st': "st' = st\<lparr>ms_snapshot := x\<rparr>" "x = None \<longleftrightarrow> ms_snapshot st = None"
    "\<And>y. x = Some y \<Longrightarrow> open_snapshot U (ses_scope ses) db' = Inr y"
    by (simp_all add: same_session_def snapshot_of_def)
  have "ms_failure st = None" using grows_get [OF get] alive by (simp add: grows_def)
  then have open': "\<not> (ms_closed st' \<or> ms_failure st' \<noteq> None)" using ok st' by (simp add: session_ok_def)
  from get alive ok snap show ?thesis
  proof (cases rule: session_get_alive)
    case (1 err)
    then show ?thesis using open' st'(1) same by (simp add: session_get_def)
  next
    case 2
    then show ?thesis using open' st'(1) same by (simp add: session_get_def)
  next
    case (3 y)
    then show ?thesis using open' st'(1) same by (simp add: session_get_def)
  next
    case (4 s o1)
    from obs 4(5) have "observes U (ses_scope ses) db' (t, d) o1" by (simp add: reads_observed_def)
    then obtain s' found where s': "open_snapshot U (ses_scope ses) db' = Inr s'"
      "get_document U (ses_scope ses) t d db' = Inr found" "\<not> record_corrupt t d (snap_sequence s') found"
      "o1 = map_option data_document found" by (auto simp: observes_def)
    have ensure: "ensure_session_snapshot U ses db' Proceeds st' = (Inr s', st\<lparr>ms_snapshot := Some s'\<rparr>)"
      using st' s'(1) by (cases x) (auto simp: ensure_session_snapshot_def)
    have "session_get U ses db' (Proceeds, Proceeds) t d st' =
        remember_read (t, d) o1 (st\<lparr>ms_snapshot := Some s'\<rparr>)"
      using open' 4(1) st'(1) ensure s' open_snapshot_database [OF s'(1)]
      by (simp add: session_get_def session_fetch_def)
    moreover from 4(4) have "r = fst (remember_read (t, d) o1 st)"
      "st1 = (snd (remember_read (t, d) o1 st))\<lparr>ms_snapshot := Some s\<rparr>"
      by (simp_all add: remember_read_snapshot prod_eq_iff)
    ultimately show ?thesis using s'(1) by (simp add: remember_read_snapshot same_session_def snapshot_of_def)
  qed
qed

text \<open>The other calls neither look at the snapshot nor change it.\<close>

definition ignores_snapshot :: "(MutationState \<Rightarrow> 'r \<times> MutationState) \<Rightarrow> bool" where
  "ignores_snapshot f \<longleftrightarrow>
     (\<forall>st x. f (st\<lparr>ms_snapshot := x\<rparr>) = (fst (f st), (snd (f st))\<lparr>ms_snapshot := x\<rparr>) \<and>
        ms_snapshot (snd (f st)) = ms_snapshot st)"

lemma ignores_snapshot_writes:
  "ignores_snapshot (session_insert U t d v)"
  "ignores_snapshot (session_replace U t d n v)"
  "ignores_snapshot (session_delete U t d n)"
  by (simp_all add: ignores_snapshot_def session_insert_def session_replace_def session_delete_def session_buffer_def)

lemma ignores_snapshot_schedule: "ignores_snapshot (session_schedule U sha256 ses io q)"
  by (simp add: ignores_snapshot_def session_schedule_def push_session_schedule_def Let_def
      split: sum.splits option.splits)

lemma same_session_call:
  assumes "ignores_snapshot f" and "same_session U scope db' st st'" and "f st = (r, st1)"
  shows "\<exists>st1'. f st' = (r, st1') \<and> same_session U scope db' st1 st1'"
proof -
  from assms(2) have st': "st' = st\<lparr>ms_snapshot := ms_snapshot st'\<rparr>" by (simp add: same_session_def)
  have "f st' = (fst (f st), (snd (f st))\<lparr>ms_snapshot := ms_snapshot st'\<rparr>)" "ms_snapshot (snd (f st)) = ms_snapshot st"
    using assms(1) unfolding ignores_snapshot_def by (metis st')+
  with assms(2,3) show ?thesis by (simp add: same_session_def snapshot_of_def)
qed

lemma schedule_alive:
  "session_schedule U sha256 ses io q st = (r, st1) \<Longrightarrow> ms_failure st1 = None \<Longrightarrow>
   session_schedule U sha256 ses Proceeds q st = (r, st1)"
  by (auto simp: session_schedule_def split: if_splits)

lemma program_again:
  assumes "run_program U sha256 ses db program io st = (r, st1)" and "ms_failure st1 = None" and "session_ok st"
    and "snapshot_of U (ses_scope ses) db st \<and> reads_observed U (ses_scope ses) db st"
    and "reads_observed U (ses_scope ses) db' st1" and "same_session U (ses_scope ses) db' st st'"
  shows "\<exists>st1'. run_program U sha256 ses db' program [] st' = (r, st1') \<and>
    same_session U (ses_scope ses) db' st1 st1'"
  using assms(1,3,4,6)
proof (induction program arbitrary: io st st')
  case (Return q)
  then show ?case by simp
next
  case (CallGet t d k)
  obtain q st2 where g: "session_get U ses db (next_io io) t d st = (q, st2)" by force
  with CallGet.prems have rest: "run_program U sha256 ses db (k q) (tl io) st2 = (r, st1)" by simp
  note grow = grows_get [OF g] grows_program [OF rest]
  have ok: "session_ok st2" "ms_failure st2 = None"
    using grow CallGet.prems(2) assms(2) by (simp_all add: grows_def)
  have "reads_observed U (ses_scope ses) db' st2" using grows_reads_observed [OF grow(2) ok(1) assms(2,5)] .
  from session_get_again [OF g ok(2) CallGet.prems(2) _ this CallGet.prems(4)] CallGet.prems(3)
  obtain st2' where again: "session_get U ses db' (Proceeds, Proceeds) t d st' = (q, st2')"
    "same_session U (ses_scope ses) db' st2 st2'" by blast
  have "snapshot_of U (ses_scope ses) db st2 \<and> reads_observed U (ses_scope ses) db st2"
    using session_get_observed [OF g ok(2) CallGet.prems(2)] CallGet.prems(3) by blast
  from CallGet.IH [OF rangeI rest ok(1) this again(2)] again(1) show ?case by (simp add: next_io_def)
next
  case (CallScan k)
  then have "run_program U sha256 ses db (k ReadInvalidRequest) (tl io) st = (r, st1)" by simp
  from CallScan.IH [OF rangeI this CallScan.prems(2-4)] show ?case by simp
next
  case (CallInsert t d v k)
  obtain q st2 where g: "session_insert U t d v st = (q, st2)" by force
  with CallInsert.prems have rest: "run_program U sha256 ses db (k q) (tl io) st2 = (r, st1)" by simp
  have ok: "session_ok st2" using grows_writes(1) [OF g] CallInsert.prems(2) by (simp add: grows_def)
  from same_session_call [OF ignores_snapshot_writes(1) CallInsert.prems(4) g] obtain st2' where
    again: "session_insert U t d v st' = (q, st2')" "same_session U (ses_scope ses) db' st2 st2'" by blast
  from CallInsert.IH [OF rangeI rest ok reads_observed_cong [OF writes_keep_reads(1) [OF g] CallInsert.prems(3)] again(2)]
    again(1) show ?case by simp
next
  case (CallReplace t d x v k)
  obtain q st2 where g: "session_replace U t d x v st = (q, st2)" by force
  with CallReplace.prems have rest: "run_program U sha256 ses db (k q) (tl io) st2 = (r, st1)" by simp
  have ok: "session_ok st2" using grows_writes(2) [OF g] CallReplace.prems(2) by (simp add: grows_def)
  from same_session_call [OF ignores_snapshot_writes(2) CallReplace.prems(4) g] obtain st2' where
    again: "session_replace U t d x v st' = (q, st2')" "same_session U (ses_scope ses) db' st2 st2'" by blast
  from CallReplace.IH [OF rangeI rest ok reads_observed_cong [OF writes_keep_reads(2) [OF g] CallReplace.prems(3)] again(2)]
    again(1) show ?case by simp
next
  case (CallDelete t d x k)
  obtain q st2 where g: "session_delete U t d x st = (q, st2)" by force
  with CallDelete.prems have rest: "run_program U sha256 ses db (k q) (tl io) st2 = (r, st1)" by simp
  have ok: "session_ok st2" using grows_writes(3) [OF g] CallDelete.prems(2) by (simp add: grows_def)
  from same_session_call [OF ignores_snapshot_writes(3) CallDelete.prems(4) g] obtain st2' where
    again: "session_delete U t d x st' = (q, st2')" "same_session U (ses_scope ses) db' st2 st2'" by blast
  from CallDelete.IH [OF rangeI rest ok reads_observed_cong [OF writes_keep_reads(3) [OF g] CallDelete.prems(3)] again(2)]
    again(1) show ?case by simp
next
  case (CallSchedule q k)
  obtain i st2 where g: "session_schedule U sha256 ses (fst (next_io io)) q st = (i, st2)" by force
  with CallSchedule.prems have rest: "run_program U sha256 ses db (k i) (tl io) st2 = (r, st1)" by simp
  have ok: "session_ok st2" "ms_failure st2 = None"
    using grows_schedule [OF g] grows_program [OF rest] CallSchedule.prems(2) assms(2) by (simp_all add: grows_def)
  from same_session_call [OF ignores_snapshot_schedule CallSchedule.prems(4) schedule_alive [OF g ok(2)]]
  obtain st2' where again: "session_schedule U sha256 ses Proceeds q st' = (i, st2')"
    "same_session U (ses_scope ses) db' st2 st2'" by blast
  from CallSchedule.IH [OF rangeI rest ok(1) reads_observed_cong [OF writes_keep_reads(4) [OF g] CallSchedule.prems(3)] again(2)]
    again(1) show ?case by (simp add: next_io_def)
qed

end
