(* ===== verification/Mutation_Serial.thy ===== *)
theory Mutation_Serial
  imports Mutation_Refinement
begin

text \<open>
  From sessions to commits: the end of the session is the same on the later database, and the
  validation of the reads by the store provides what the comparison needs, provided that no document
  was deleted and created again in between.
\<close>

section \<open>The end of the session\<close>

lemma observes_unique: "observes U scope db k x \<Longrightarrow> observes U scope db k y \<Longrightarrow> x = y"
  by (auto simp: observes_def)

lemma load_write_base_observes:
  assumes "load_write_base U ses snap io t d = Inr obs" and "open_snapshot U (ses_scope ses) db = Inr snap"
  shows "observes U (ses_scope ses) db (t, d) obs"
  using assms open_snapshot_database [OF assms(2)]
  by (auto simp: load_write_base_def observes_def split: if_splits)

lemma observes_load_write_base:
  assumes "observes U (ses_scope ses) db (t, d) obs" and "open_snapshot U (ses_scope ses) db = Inr snap"
  shows "load_write_base U ses snap Proceeds t d = Inr obs"
  using assms open_snapshot_database [OF assms(2)]
  by (auto simp: load_write_base_def observes_def awaited_def)

lemma load_bases_reads:
  assumes "load_bases U ses snap io keys st = (Inr (), st1)" and "open_snapshot U (ses_scope ses) db = Inr snap"
    and "btree_keys (ms_reads st)"
  shows "st1 = st\<lparr>ms_reads := ms_reads st1\<rparr> \<and>
    (\<forall>k. k \<notin> set keys \<longrightarrow> map_of (ms_reads st1) k = map_of (ms_reads st) k) \<and>
    (\<forall>k \<in> set keys. \<exists>obs. map_of (ms_reads st1) k = Some obs \<and> observes U (ses_scope ses) db k obs)"
  using assms(1,3)
proof (induction keys arbitrary: io st)
  case Nil
  then show ?case by simp
next
  case (Cons k keys)
  obtain t d where k: "k = (t, d)" by (cases k)
  from Cons.prems(1) obtain obs where
    base: "load_write_base U ses snap (case io of [] \<Rightarrow> Proceeds | x # _ \<Rightarrow> x) t d = Inr obs" and
    rest: "load_bases U ses snap (tl io) keys (st\<lparr>ms_reads := btree_insert (t, d) obs (ms_reads st)\<rparr>) = (Inr (), st1)"
    by (auto simp: k split: sum.splits)
  note seen = load_write_base_observes [OF base assms(2)]
  from Cons.IH [OF rest] Cons.prems(2) seen show ?case
    by (auto simp: k map_of_btree_insert)
qed

lemma load_bases_again:
  assumes "load_bases U ses snap io keys st = (Inr (), st1)" and "open_snapshot U (ses_scope ses) db = Inr snap"
    and "btree_keys (ms_reads st)" and "open_snapshot U (ses_scope ses) db' = Inr snap'"
    and "reads_observed U (ses_scope ses) db' st1"
  shows "load_bases U ses snap' [] keys (st\<lparr>ms_snapshot := x\<rparr>) = (Inr (), st1\<lparr>ms_snapshot := x\<rparr>)"
  using assms(1,3)
proof (induction keys arbitrary: io st)
  case Nil
  then show ?case by simp
next
  case (Cons k keys)
  obtain t d where k: "k = (t, d)" by (cases k)
  from Cons.prems(1) obtain obs where
    base: "load_write_base U ses snap (case io of [] \<Rightarrow> Proceeds | x # _ \<Rightarrow> x) t d = Inr obs" and
    rest: "load_bases U ses snap (tl io) keys (st\<lparr>ms_reads := btree_insert (t, d) obs (ms_reads st)\<rparr>) = (Inr (), st1)"
    by (auto simp: k split: sum.splits)
  note seen = load_write_base_observes [OF base assms(2)]
  from load_bases_reads [OF Cons.prems(1) assms(2) Cons.prems(2)] obtain obs' where
    o': "map_of (ms_reads st1) (t, d) = Some obs'" "observes U (ses_scope ses) db (t, d) obs'" by (auto simp: k)
  with seen observes_unique have "obs' = obs" by blast
  with o'(1) assms(5) have "observes U (ses_scope ses) db' (t, d) obs" by (simp add: reads_observed_def)
  note again = observes_load_write_base [OF this assms(4)]
  have swap: "st\<lparr>ms_snapshot := x, ms_reads := r\<rparr> = st\<lparr>ms_reads := r, ms_snapshot := x\<rparr>" for r by simp
  from again Cons.IH [OF rest] Cons.prems(2) show ?case by (simp add: k swap)
qed

definition finished :: "MutationState \<Rightarrow> BufferedMutation" where
  "finished st =
     \<lparr>bm_reads = map read_assertion (ms_reads st),
      bm_old_values = map (\<lambda>(key, observed). (key, map_option dd_value observed)) (ms_reads st),
      bm_writes = map snd (ms_writes st), bm_schedules = ms_schedules st\<rparr>"

lemma session_finish_Inr:
  assumes "session_finish U ses db preload close st = Inr buffered"
  obtains st1 where "load_write_bases U ses db preload st = (Inr (), st1)" "ms_failure st1 = None"
    "buffered = finished st1"
  using assms by (auto simp: session_finish_def finished_def split: prod.splits option.splits)

lemma load_write_bases_alive:
  assumes "load_write_bases U ses db io st = (Inr (), st1)" and "ms_failure st1 = None" and "session_ok st"
    and "snapshot_of U (ses_scope ses) db st"
  obtains "missing_bases st = []" "st1 = st" "ms_failure st = None"
  | snap where "missing_bases st \<noteq> []" "open_snapshot U (ses_scope ses) db = Inr snap" "ms_failure st = None"
      "load_bases U ses snap (snd io) (missing_bases st) (st\<lparr>ms_snapshot := Some snap\<rparr>) = (Inr (), st1)"
proof (cases "missing_bases st = [] \<or> ms_failure st \<noteq> None")
  case True
  with assms(1,3) have "st1 = st" by (auto simp: load_write_bases_def split: if_splits)
  with True assms(2) that(1) show thesis by simp
next
  case False
  define opened where "opened = (case ms_snapshot st of Some snapshot \<Rightarrow> Inr snapshot
    | None \<Rightarrow> bindR (awaited (fst io)) (\<lambda>_. map_errR FailStore (open_snapshot U (ses_scope ses) db)))"
  from False assms(1,3) have "(case opened of Inl failure \<Rightarrow> (Inl failure, st)
      | Inr snapshot \<Rightarrow>
          load_bases U ses snapshot (snd io) (missing_bases st) (st\<lparr>ms_snapshot := Some snapshot\<rparr>)) = (Inr (), st1)"
    by (simp add: load_write_bases_def session_ok_def opened_def)
  then obtain snap where snap: "opened = Inr snap"
    and load: "load_bases U ses snap (snd io) (missing_bases st) (st\<lparr>ms_snapshot := Some snap\<rparr>) = (Inr (), st1)"
    by (cases opened) simp_all
  from snap assms(4) have "open_snapshot U (ses_scope ses) db = Inr snap"
    by (auto simp: opened_def snapshot_of_def split: option.splits)
  with False load that(2) show thesis by simp
qed

lemma session_finish_again:
  assumes fin: "session_finish U ses db preload close st = Inr buffered" and ok: "session_ok st"
    and snap: "snapshot_of U (ses_scope ses) db st"
    and obs: "\<And>st1. load_write_bases U ses db preload st = (Inr (), st1) \<Longrightarrow> reads_observed U (ses_scope ses) db' st1"
    and same: "same_session U (ses_scope ses) db' st st'"
  shows "session_finish U ses db' (Proceeds, []) Proceeds st' = Inr buffered"
proof -
  from fin obtain st1 where load: "load_write_bases U ses db preload st = (Inr (), st1)"
    and alive: "ms_failure st1 = None" and b: "buffered = finished st1" by (rule session_finish_Inr)
  from same have st': "st' = st\<lparr>ms_snapshot := ms_snapshot st'\<rparr>" and snap': "snapshot_of U (ses_scope ses) db' st'"
    by (simp_all add: same_session_def)
  have miss: "missing_bases st' = missing_bases st" and f': "ms_failure st' = ms_failure st"
    "ms_closed st' = ms_closed st" by (subst st', simp add: missing_bases_def)+
  have "\<exists>x. load_write_bases U ses db' (Proceeds, []) st' = (Inr (), st1\<lparr>ms_snapshot := x\<rparr>)"
    using load alive ok snap
  proof (cases rule: load_write_bases_alive)
    case 1
    have "st' = st1\<lparr>ms_snapshot := ms_snapshot st'\<rparr>" using st' 1(2) by simp
    moreover have "load_write_bases U ses db' (Proceeds, []) st' = (Inr (), st')"
      using 1 miss f' by (simp add: load_write_bases_def)
    ultimately show ?thesis by metis
  next
    case (2 s)
    from load_bases_reads [OF 2(4) 2(2)] ok have seen:
      "\<forall>k \<in> set (missing_bases st). \<exists>o1. map_of (ms_reads st1) k = Some o1" by (auto simp: session_ok_def)
    from 2(1) obtain k where "k \<in> set (missing_bases st)" by (meson last_in_set)
    with seen obs [OF load] obtain s' where s': "open_snapshot U (ses_scope ses) db' = Inr s'"
      unfolding reads_observed_def observes_def by blast
    have "load_write_bases U ses db' (Proceeds, []) st' =
        load_bases U ses s' [] (missing_bases st) (st'\<lparr>ms_snapshot := Some s'\<rparr>)"
      using 2 miss f' ok s' snap'
      by (auto simp: load_write_bases_def session_ok_def awaited_def snapshot_of_def split: option.splits)
    also have "st'\<lparr>ms_snapshot := Some s'\<rparr> = (st\<lparr>ms_snapshot := Some s\<rparr>)\<lparr>ms_snapshot := Some s'\<rparr>"
      by (subst st') simp
    also have "load_bases U ses s' [] (missing_bases st) \<dots> = (Inr (), st1\<lparr>ms_snapshot := Some s'\<rparr>)"
      using ok by (intro load_bases_again [OF 2(4) 2(2) _ s' obs [OF load]]) (simp add: session_ok_def)
    finally show ?thesis by blast
  qed
  then show ?thesis
    using alive b by (auto simp: session_finish_def finished_def awaited_def)
qed

lemma missing_bases_unread:
  assumes "k \<in> set (missing_bases st)"
  shows "k \<notin> fst ` set (ms_reads st)"
proof -
  from assms obtain m where "(k, m) \<in> set (ms_writes st)" "case (k, m) of (key, m) \<Rightarrow> needs_old m \<and> key \<notin> fst ` set (ms_reads st)"
    unfolding missing_bases_def set_map set_filter by force
  then show ?thesis by simp
qed

lemma session_finish_observed:
  assumes "load_write_bases U ses db preload st = (Inr (), st1)" and "ms_failure st1 = None" and "session_ok st"
    and "snapshot_of U (ses_scope ses) db st" and "reads_observed U (ses_scope ses) db st"
  shows "reads_observed U (ses_scope ses) db st1 \<and> session_ok st1 \<and> ms_writes st1 = ms_writes st \<and>
    ms_schedules st1 = ms_schedules st \<and> map_of (ms_reads st) \<subseteq>\<^sub>m map_of (ms_reads st1) \<and>
    (\<forall>(k, m) \<in> set (ms_writes st). needs_old m \<longrightarrow> k \<in> fst ` set (ms_reads st1))"
  using assms(1-4)
proof (cases rule: load_write_bases_alive)
  case 1
  then show ?thesis using assms(3,5) by (auto simp: missing_bases_def filter_empty_conv)
next
  case (2 snap)
  have keys: "btree_keys (ms_reads (st\<lparr>ms_snapshot := Some snap\<rparr>))" using assms(3) by (simp add: session_ok_def)
  note r = load_bases_reads [OF 2(4) 2(2) keys]
  have sorted: "load_bases U ses s x ks a = (Inr (), c) \<Longrightarrow> btree_keys (ms_reads a) \<Longrightarrow> btree_keys (ms_reads c)"
    for s x ks a c by (induction U ses s x ks a rule: load_bases.induct) (auto split: sum.splits)
  from r have st1: "st1 = st\<lparr>ms_snapshot := Some snap, ms_reads := ms_reads st1\<rparr>" by blast
  have w: "ms_writes st1 = ms_writes st" "ms_closed st1 = ms_closed st" "ms_schedules st1 = ms_schedules st"
    by (subst st1, simp)+
  from r have old: "\<And>k. k \<notin> set (missing_bases st) \<Longrightarrow> map_of (ms_reads st1) k = map_of (ms_reads st) k"
    and new: "\<And>k. k \<in> set (missing_bases st) \<Longrightarrow>
      \<exists>obs. map_of (ms_reads st1) k = Some obs \<and> observes U (ses_scope ses) db k obs" by auto
  have "reads_observed U (ses_scope ses) db st1"
    unfolding reads_observed_def
  proof (intro allI impI)
    fix k obs
    assume k: "map_of (ms_reads st1) k = Some obs"
    show "observes U (ses_scope ses) db k obs"
      using new [of k] old [of k] k assms(5) by (cases "k \<in> set (missing_bases st)")
        (fastforce, metis reads_observed_def)
  qed
  moreover have "session_ok st1" using assms(3) w sorted [OF 2(4) keys] by (simp add: session_ok_def)
  moreover have "k \<in> fst ` set (ms_reads st1)" if "(k, m) \<in> set (ms_writes st)" "needs_old m" for k m
  proof (cases "k \<in> set (missing_bases st)")
    case True
    with new [of k] show ?thesis by (auto simp: map_of_eq_Some_iff dest!: map_of_SomeD intro: rev_image_eqI)
  next
    case False
    with that have "k \<in> fst ` set (ms_reads st)" by (force simp: missing_bases_def)
    with old [OF False] show ?thesis by (metis map_of_eq_None_iff)
  qed
  moreover have "map_of (ms_reads st) \<subseteq>\<^sub>m map_of (ms_reads st1)"
    unfolding map_le_def
  proof (intro ballI)
    fix k
    assume "k \<in> dom (map_of (ms_reads st))"
    then have "k \<in> fst ` set (ms_reads st)" by (simp add: dom_map_of_conv_image_fst)
    then have "k \<notin> set (missing_bases st)" using missing_bases_unread by blast
    with old show "map_of (ms_reads st) k = map_of (ms_reads st1) k" by simp
  qed
  ultimately show ?thesis using w by auto
qed

section \<open>Operations that leave the data alone\<close>

definition same_data :: "database \<Rightarrow> database \<Rightarrow> bool" where
  "same_data db db' \<longleftrightarrow> db_documents db' = db_documents db \<and> db_indexes db' = db_indexes db"

fun writes_data :: "store_op \<Rightarrow> bool" where
  "writes_data (OpCommit _ _ _) = True"
| "writes_data (OpReset _ _ _) = True"
| "writes_data _ = False"

lemma claim_due_same_data:
  assumes "claim_due_scheduled_tx U scope w now lease limit db = Inr (r, db')"
  shows "same_data db db'"
proof -
  have "same_data db (snd (r, db'))"
    by (rule foldR_invariant [OF assms [unfolded claim_due_scheduled_tx_def Let_def],
          where P = "\<lambda>x. same_data db (snd x)"])
      (auto simp: same_data_def elim: claim_one_cases)
  then show ?thesis by simp
qed

lemma store_step_same_data:
  assumes "\<not> writes_data x"
  shows "same_data db (store_step U sha256 x db)"
proof (cases "store_step U sha256 x db = db")
  case True
  then show ?thesis by (simp add: same_data_def)
next
  case False
  then show ?thesis
  proof (cases rule: store_step_cases)
    case 2
    from 2(2) show ?thesis by (rule claim_outbox_tx_cases) (simp add: same_data_def)
  next
    case 3
    have "ack_outbox_tx U clock scope c w g through db = Inr (r, y) \<Longrightarrow> same_data db y" for clock scope c w g through r y
      by (auto simp: same_data_def ack_outbox_tx_Inr)
    with 3(2) show ?thesis by blast
  next
    case 4
    then show ?thesis using claim_due_same_data by blast
  next
    case 5
    then show ?thesis by (simp add: same_data_def complete_schedule_update_def split_beta)
  next
    case 6
    from 6(2) show ?thesis by (rule cancel_scheduled_tx_cases) (simp add: same_data_def)
  qed (use assms in simp_all)
qed

section \<open>Rows of documents over time\<close>

text \<open>
  As long as nothing removes a document, its row stays or its revision grows: the same revision is the
  same row. A row that is removed and inserted again starts over at revision 1.
\<close>

definition row_advances :: "document_row option \<Rightarrow> document_row option \<Rightarrow> bool" where
  "row_advances x y \<longleftrightarrow> (\<forall>r. x = Some r \<longrightarrow> (\<exists>s. y = Some s \<and> (s = r \<or> dw_revision r < dw_revision s)))"

definition removes :: "ulid_crate \<Rightarrow> EnvironmentScope \<Rightarrow> DocumentKey \<Rightarrow> store_op \<Rightarrow> bool" where
  "removes U scope k x \<longleftrightarrow>
     (case x of
        OpCommit _ _ b \<Rightarrow> cb_scope b = scope \<and>
          list_ex (\<lambda>m. mutation_key m = k \<and> mutation_outcome m = None) (cb_documents b)
      | OpReset _ scope' _ \<Rightarrow> scope' = scope
      | _ \<Rightarrow> False)"

lemma row_advances_refl [simp]: "row_advances x x"
  by (simp add: row_advances_def)

lemma row_advances_trans: "row_advances x y \<Longrightarrow> row_advances y z \<Longrightarrow> row_advances x z"
  unfolding row_advances_def by (metis order_less_trans)

lemma document_lookup_view:
  "scope_view p e db' = scope_view p e db \<Longrightarrow> document_lookup U p e k db' = document_lookup U p e k db"
proof -
  have "document_lookup U p e k (scope_view p e db) = document_lookup U p e k db" for db
    unfolding document_lookup_def scope_view_def database.simps
    by (rule sql_find_filter) (simp add: document_key_def)
  then show "scope_view p e db' = scope_view p e db \<Longrightarrow> document_lookup U p e k db' = document_lookup U p e k db"
    by metis
qed

lemma commit_row_advances:
  assumes "ulid_laws U" and "db_ok U db" and "batch_typed U b" and "batch_valid U b"
    and "apply_commit U clock b digest db = Inr (r, db')" and "\<not> removes U (cb_scope b) k (OpCommit fault clock b)"
  shows "row_advances (document_lookup U (project_text U (cb_scope b)) (environment_text U (cb_scope b)) k db)
    (document_lookup U (project_text U (cb_scope b)) (environment_text U (cb_scope b)) k db')"
proof (cases "cr_replayed r")
  case True
  with assms(5) have "db' = db" by (auto elim!: apply_commit_cases)
  then show ?thesis by simp
next
  case False
  let ?p = "project_text U (cb_scope b)" and ?e = "environment_text U (cb_scope b)"
  have distinct: "distinct (map mutation_key (cb_documents b))" using assms(4) by (simp add: batch_valid_def)
  obtain n where rev: "\<And>m. m \<in> set (cb_documents b) \<Longrightarrow>
       map_option dw_revision (document_lookup U ?p ?e (mutation_key m) db) = map_option uint (mutation_expected m)"
    and new: "\<And>m. m \<in> set (cb_documents b) \<Longrightarrow>
       row_matches U n (mutation_outcome m) (document_lookup U ?p ?e (mutation_key m) db')"
    and frame: "\<And>k. k \<notin> mutation_key ` set (cb_documents b) \<Longrightarrow>
       document_lookup U ?p ?e k db' = document_lookup U ?p ?e k db"
    by (rule commit_lookup [OF assms(1-3) distinct assms(5) False]) blast
  show ?thesis
  proof (cases "k \<in> mutation_key ` set (cb_documents b)")
    case True
    then obtain m where m: "m \<in> set (cb_documents b)" "k = mutation_key m" by blast
    show ?thesis
    proof (cases m rule: mutation_outcome.cases)
      case (1 t d v)
      with rev [OF m(1)] m(2) show ?thesis by (auto simp: row_advances_def)
    next
      case (2 t d x v)
      have bound: "uint x < 2 ^ 63"
      proof -
        from rev [OF m(1)] 2 obtain row where "document_lookup U ?p ?e k db = Some row" "dw_revision row = uint x"
          by (auto simp: m(2))
        then show ?thesis using assms(2) sql_find_Some
          by (fastforce simp: document_lookup_def db_ok_def tables_ok_def table_ok_def document_row_ok_def)
      qed
      then have "uint (x + 1) = uint x + 1" by (simp add: uint_plus_if')
      with rev [OF m(1)] new [OF m(1)] 2 m(2) show ?thesis by (auto simp: row_advances_def row_matches_def)
    next
      case (3 t d x)
      with assms(6) m show ?thesis by (auto simp: removes_def list_ex_iff)
    qed
  next
    case False
    then show ?thesis by (simp add: frame)
  qed
qed

lemma store_step_row_advances:
  assumes "ulid_laws U" and "db_ok U db" and "op_typed U x" and "\<not> removes U scope k x"
  shows "row_advances (document_lookup U (project_text U scope) (environment_text U scope) k db)
    (document_lookup U (project_text U scope) (environment_text U scope) k (store_step U sha256 x db))"
proof (cases "op_scope x = scope \<and> store_step U sha256 x db \<noteq> db")
  case False
  have "(project_text U (op_scope x), environment_text U (op_scope x)) \<noteq> (project_text U scope, environment_text U scope)"
    if "op_scope x \<noteq> scope" using that scope_texts_inject [OF assms(1)] by blast
  with False show ?thesis by (metis document_lookup_view row_advances_refl store_step_frame)
next
  case True
  then have scope: "op_scope x = scope" and "store_step U sha256 x db \<noteq> db" by simp_all
  from this(2) show ?thesis
  proof (cases rule: store_step_cases)
    case (1 b fault clock digest r)
    then have "batch_valid U b" using commit_batch_validate_Inr by (auto simp: commit_batch_digest_def)
    with 1 scope assms show ?thesis using commit_row_advances [of U db b clock digest r "store_step U sha256 x db" k fault]
      by simp
  next
    case (7 fault scope' confirmation)
    with scope assms(4) show ?thesis by (simp add: removes_def)
  qed (use store_step_same_data [of x db U sha256] in \<open>simp_all add: same_data_def document_lookup_def\<close>)
qed

end
