(* ===== verification/Mutation_Typed.thy ===== *)
theory Mutation_Typed
  imports Mutation_Serial
begin

text \<open>
  The batches of the Mutation coordinator are well-formed: a Function whose values are canonical
  writes canonical values, the documents read decode to such, and so do the index keys and the
  event derived from them.
\<close>

section \<open>Programs over well-formed values\<close>

lemma decode_value_ok: "ulid_laws U \<Longrightarrow> decode_value U bs = Inr v \<Longrightarrow> value_ok v"
  using decode_stored_value_iff by (simp add: decode_value_def)

lemma get_document_ok:
  assumes "ulid_laws U" and "get_document U scope t d db = Inr (Some r)"
  shows "value_ok (dr_value r)"
  using assms by (auto simp: get_document_def decode_document_row_def decode_value_ok split: option.splits)

text \<open>What a read answers is well-formed, and a program may rely on it.\<close>

definition answer_ok :: "DataReadError + DataDocument option \<Rightarrow> bool" where
  "answer_ok r = (case r of Inr (Some doc) \<Rightarrow> value_ok (dd_value doc) | _ \<Rightarrow> True)"

lemma answer_ok_simps [simp]:
  "answer_ok (Inl e)" "answer_ok (Inr None)" "answer_ok (Inr (Some doc)) \<longleftrightarrow> value_ok (dd_value doc)"
  by (simp_all add: answer_ok_def)

primrec program_typed :: "program \<Rightarrow> bool" where
  "program_typed (Return r) = True"
| "program_typed (CallGet t d k) = (\<forall>r. answer_ok r \<longrightarrow> program_typed (k r))"
| "program_typed (CallScan k) = (\<forall>r. program_typed (k r))"
| "program_typed (CallInsert t d v k) = (value_ok v \<and> (\<forall>r. program_typed (k r)))"
| "program_typed (CallReplace t d x v k) = (value_ok v \<and> (\<forall>r. program_typed (k r)))"
| "program_typed (CallDelete t d x k) = (\<forall>r. program_typed (k r))"
| "program_typed (CallSchedule request k) =
     (value_ok (sreq_arguments request) \<and>
      function_name_from_str (sreq_function request) = Inr (sreq_function request) \<and> (\<forall>r. program_typed (k r)))"

definition state_typed :: "MutationState \<Rightarrow> bool" where
  "state_typed st \<longleftrightarrow>
     (\<forall>(k, m) \<in> set (ms_writes st). document_mutation_ok m \<and> mutation_key m = k \<and> \<not> mutation_revision_zero m) \<and>
     list_all schedule_insert_ok (ms_schedules st)"

lemma state_typed_new [simp]: "state_typed mutation_state_new"
  by (simp add: state_typed_def mutation_state_new_def)

lemma state_typed_latch [simp]: "state_typed (latch f st) \<longleftrightarrow> state_typed st"
  by (simp add: state_typed_def)

lemma buffer_typed:
  assumes "state_typed st" and "document_mutation_ok m" and "\<not> mutation_revision_zero m"
    and "session_buffer U st m = (r, st')"
  shows "state_typed st'"
  using assms set_btree_insert [of "mutation_key m" m "ms_writes st"]
  by (auto simp: session_buffer_def state_typed_def split: if_splits)

lemma schedule_typed:
  assumes "state_typed st" and "value_ok (sreq_arguments request)"
    and "function_name_from_str (sreq_function request) = Inr (sreq_function request)"
    and "session_schedule U sha256 ses io request st = (r, st')"
  shows "state_typed st'"
  using assms
  by (auto simp: session_schedule_def push_session_schedule_def state_typed_def schedule_insert_ok_def Let_def
      split: if_splits sum.splits option.splits)

lemma insert_typed: "session_insert U t d v st = (r, st') \<Longrightarrow> value_ok v \<Longrightarrow> state_typed st \<Longrightarrow> state_typed st'"
  unfolding session_insert_def by (rule buffer_typed) simp_all

lemma replace_typed:
  "session_replace U t d x v st = (r, st') \<Longrightarrow> value_ok v \<Longrightarrow> state_typed st \<Longrightarrow> state_typed st'"
  by (auto simp: session_replace_def split: if_splits intro: buffer_typed [rotated 3])

lemma delete_typed: "session_delete U t d x st = (r, st') \<Longrightarrow> state_typed st \<Longrightarrow> state_typed st'"
  by (auto simp: session_delete_def split: if_splits intro: buffer_typed [rotated 3])

lemma remember_typed: "remember_read k obs st = (r, st') \<Longrightarrow> state_typed st \<Longrightarrow> state_typed st'"
  by (auto simp: remember_read_def Let_def state_typed_def split: if_splits option.splits)

lemma fetch_typed: "session_fetch U ses snap io t d st = (r, st') \<Longrightarrow> state_typed st \<Longrightarrow> state_typed st'"
  by (auto simp: session_fetch_def split: if_splits sum.splits io_event.splits intro: remember_typed)

lemma ensure_typed: "ensure_session_snapshot U ses db io st = (r, st') \<Longrightarrow> state_typed st \<Longrightarrow> state_typed st'"
  by (auto simp: ensure_session_snapshot_def state_typed_def split: sum.splits option.splits io_event.splits)

lemma get_typed: "session_get U ses db io t d st = (r, st') \<Longrightarrow> state_typed st \<Longrightarrow> state_typed st'"
  by (auto simp: session_get_def split: if_splits sum.splits prod.splits BufferedRead.splits)
    (blast intro: fetch_typed ensure_typed)+

lemma remember_answer: "remember_read k obs st = (r, st') \<Longrightarrow> answer_ok (Inr obs) \<Longrightarrow> answer_ok r"
  by (auto simp: remember_read_def Let_def split: if_splits option.splits)

lemma fetch_answer:
  assumes "ulid_laws U" and "session_fetch U ses snap io t d st = (r, st')"
  shows "answer_ok r"
proof -
  have "answer_ok (Inr (map_option data_document found))" if "get_document U (ses_scope ses) t d (snap_database snap) = Inr found" for found
    using that get_document_ok [OF assms(1)] by (auto simp: answer_ok_def data_document_def split: option.splits)
  with assms(2) show ?thesis
    by (auto simp: session_fetch_def split: if_splits sum.splits io_event.splits intro: remember_answer)
qed

lemma get_answer:
  assumes "ulid_laws U" and "session_get U ses db io t d st = (r, st')" and "state_typed st"
  shows "answer_ok r"
proof -
  have "value_ok (dd_value doc)" if "buffered_read ses st t d = Inr (BufferedDocument doc)" for doc
    using that assms(3)
    by (auto simp: buffered_read_def state_typed_def split: option.splits DocumentMutation.splits ExpectedRevision.splits
        dest!: map_of_SomeD)
  with assms(2) show ?thesis
    by (auto simp: session_get_def split: if_splits sum.splits prod.splits BufferedRead.splits
        intro: fetch_answer [OF assms(1)])
qed

lemma program_state_typed:
  assumes "ulid_laws U"
    and "run_program U sha256 ses db program io st = (r, st')" and "program_typed program" and "state_typed st"
  shows "state_typed st'"
  using assms(2-)
proof (induction program arbitrary: io st)
  case (CallGet t d k)
  then show ?case by (auto split: prod.splits) (blast intro: get_typed get_answer [OF assms(1)])
next
  case (CallScan k)
  then show ?case by auto blast
next
  case (CallInsert t d v k)
  then show ?case by (auto split: prod.splits) (blast intro: insert_typed)
next
  case (CallReplace t d x v k)
  then show ?case by (auto split: prod.splits) (blast intro: replace_typed)
next
  case (CallDelete t d x k)
  then show ?case by (auto split: prod.splits) (blast intro: delete_typed)
next
  case (CallSchedule request k)
  then show ?case by (auto split: prod.splits) (blast intro: schedule_typed)
qed simp

section \<open>Index plans\<close>

lemma observes_ok:
  assumes "ulid_laws U" and "observes U scope db k (Some doc)"
  shows "value_ok (dd_value doc)"
  using assms get_document_ok
  by (auto simp: observes_def data_document_def dest!: sym [of "Some doc"])

lemma resolve_path_ok: "resolve_path v path = Inr (Some w) \<Longrightarrow> value_ok v \<Longrightarrow> value_ok w"
proof (induction v path rule: resolve_path.induct)
  case (2 current part path)
  then show ?case by (fastforce split: CanonicalValue.splits option.splits dest: map_of_SomeD)
qed simp

lemma index_value_ok: "index_value_try_from v = Inr x \<Longrightarrow> value_ok v \<Longrightarrow> index_ok x"
  by (cases v) auto

lemma extract_values_ok: "extract_values v paths = Inr (Some xs) \<Longrightarrow> value_ok v \<Longrightarrow> list_all index_ok xs"
proof (induction paths arbitrary: xs)
  case (Cons path paths)
  from Cons.prems(1) obtain w x ys where "resolve_path v path = Inr (Some w)" "index_value_try_from w = Inr x"
    "extract_values v paths = Inr (Some ys)" "xs = x # ys"
    by (auto split: option.splits dest!: sym [of "Some xs"])
  with Cons show ?case using index_value_ok resolve_path_ok by fastforce
qed simp

lemma extract_index_key_ok:
  assumes "extract_index_key U def v = Inr (Some k)" and "value_ok v"
  shows "index_key_ok U k"
proof -
  from assms(1) obtain vs where "extract_values v (def_fields def) = Inr (Some vs)" "index_key_encode U vs = Inr k"
    by (auto simp: extract_index_key_def split: option.splits)
  with assms(2) show ?thesis using extract_values_ok by (auto simp: index_key_ok_def index_key_encode_Inr)
qed

lemma plan_index_ok:
  assumes "plan_index U m old new x indexes d = Inr indexes'" and "list_all (index_mutation_ok U) indexes"
    and "\<And>v. old = Some v \<Longrightarrow> value_ok v" and "\<And>v. new = Some v \<Longrightarrow> value_ok v"
  shows "list_all (index_mutation_ok U) indexes'"
proof -
  have "index_key_ok U k" if "optional_index_key U d w = Inr (Some k)" "\<And>v. w = Some v \<Longrightarrow> value_ok v" for w k
    using that extract_index_key_ok by (auto simp: optional_index_key_def split: option.splits)
  with assms show ?thesis by (auto simp: plan_index_def split: option.splits)
qed

lemma mutation_target_ok:
  "mutation_target m = Inr (Some v, x) \<Longrightarrow> document_mutation_ok m \<Longrightarrow> value_ok v"
  by (cases m rule: mutation_target.cases) auto

lemma plan_ok:
  assumes "plan_document_index_mutations U schema writes old = Inr indexes" and "list_all document_mutation_ok writes"
    and "\<And>k v. (k, Some v) \<in> set old \<Longrightarrow> value_ok v"
  shows "list_all (index_mutation_ok U) indexes"
  using assms(1) unfolding plan_document_index_mutations_def
proof (rule foldR_invariant)
  fix a m b
  assume step: "plan_document U schema old a m = Inr b" and "m \<in> set writes" and a: "list_all (index_mutation_ok U) a"
  then have m: "document_mutation_ok m" using assms(2) by (simp add: list_all_iff)
  from step obtain new x where t: "mutation_target m = Inr (new, x)"
    and fold: "foldR (plan_index U m (case map_of old (mutation_key m) of Some v \<Rightarrow> v | None \<Rightarrow> None) new x) a
      (indexes_for_table schema (mutation_table_id m)) = Inr b"
    by (auto simp: plan_document_def)
  have old: "value_ok v" if "(case map_of old (mutation_key m) of Some v \<Rightarrow> v | None \<Rightarrow> None) = Some v" for v
    using that map_of_SomeD assms(3) by (fastforce split: option.splits)
  have new: "value_ok v" if "new = Some v" for v using that t m mutation_target_ok by blast
  from fold a show "list_all (index_mutation_ok U) b"
    by (rule foldR_invariant) (use plan_index_ok old new in blast)
qed simp

section \<open>Batches\<close>

lemma id_rust_string:
  assumes "ulid_laws U" and "list_all is_ascii p"
  shows "rust_string (resource_id_to_string U p u)"
  using assms by (intro ascii_rust_string)
    (fastforce simp: resource_id_to_string_def ulid_laws_def list_all_iff ascii_defs)

lemma impact_ok:
  assumes "ulid_laws U"
  shows "value_ok (write_impact U m)" and "value_ok (index_impact U i)"
proof -
  have "rust_string (write_kind m)" by (cases m rule: write_kind.cases) (simp_all add: ascii_rust_string ascii_defs)
  then show "value_ok (write_impact U m)"
    using id_rust_string [OF assms]
    by (simp add: write_impact_def ascii_rust_string ascii_defs less_char_def)
  show "value_ok (index_impact U i)"
    using id_rust_string [OF assms]
    by (cases i) (simp_all add: ascii_rust_string ascii_defs less_char_def)
qed

lemma payload_ok: "ulid_laws U \<Longrightarrow> value_ok (document_write_set_payload U documents indexes)"
  using impact_ok by (auto simp: document_write_set_payload_def ascii_rust_string ascii_defs less_char_def)

lemma fold_push [simp]:
  "fold push_read as b = b\<lparr>cb_reads := cb_reads b @ as\<rparr>"
  "fold push_document ms b = b\<lparr>cb_documents := cb_documents b @ ms\<rparr>"
  "fold push_index ixs b = b\<lparr>cb_indexes := cb_indexes b @ ixs\<rparr>"
  "fold push_schedule ss b = b\<lparr>cb_schedules := cb_schedules b @ ss\<rparr>"
  by (induction as arbitrary: b, simp_all add: push_read_def)
    (induction ms arbitrary: b, simp_all add: push_document_def,
     induction ixs arbitrary: b, simp_all add: push_index_def,
     induction ss arbitrary: b, simp_all add: push_schedule_def)

lemma mutation_batch_Inr:
  assumes "mutation_batch U scope op ev as ms ixs ss = Inr b"
  shows "b = \<lparr>cb_scope = scope, cb_operation_id = op, cb_reads = as, cb_documents = ms, cb_indexes = ixs,
      cb_outbox = (if ms = [] then [] else [\<lparr>oa_event_id = ev, oa_payload = document_write_set_payload U ms ixs\<rparr>]),
      cb_schedules = ss, cb_intent_context = None\<rparr>" and "batch_valid U b"
  using assms commit_batch_validate_Inr
  by (auto simp: mutation_batch_def Let_def commit_batch_new_def push_outbox_def split: if_splits)

end
