(* ===== verification/Mutation_Atomic.thy ===== *)
theory Mutation_Atomic
  imports Mutation_Typed
begin

text \<open>
  Mutations are serializable. An attempt whose batch the store accepts gives the same value and the
  same batch when the Function is run at the moment of the commit, so the execution as a whole is the
  operations of the other clients with one atomic Mutation among them.
\<close>

section \<open>Attempts\<close>

lemma btree_keys_distinct: "btree_keys m \<Longrightarrow> distinct (map fst m)"
  unfolding btree_keys_def strict_sorted_iff by blast

lemma run_attempt_Inr:
  assumes "run_attempt U sha256 ses program io preload close db = Inr (v, buffered)"
  obtains st st1 where "run_program U sha256 ses db program io mutation_state_new = (Inr v, st)"
    "session_finish U ses db preload close st = Inr buffered"
    "load_write_bases U ses db preload st = (Inr (), st1)" "ms_failure st1 = None" "ms_failure st = None"
    "buffered = finished st1" "session_ok st" "session_ok st1"
    "snapshot_of U (ses_scope ses) db st" "reads_observed U (ses_scope ses) db st"
    "reads_observed U (ses_scope ses) db st1" "ms_writes st1 = ms_writes st" "ms_schedules st1 = ms_schedules st"
    "map_of (ms_reads st) \<subseteq>\<^sub>m map_of (ms_reads st1)"
    "\<And>k m. (k, m) \<in> set (ms_writes st) \<Longrightarrow> needs_old m \<Longrightarrow> k \<in> fst ` set (ms_reads st1)"
proof -
  from assms obtain st where p: "run_program U sha256 ses db program io mutation_state_new = (Inr v, st)"
    and f: "session_finish U ses db preload close st = Inr buffered"
    by (auto simp: run_attempt_def split: prod.splits)
  from f obtain st1 where load: "load_write_bases U ses db preload st = (Inr (), st1)" "ms_failure st1 = None"
    "buffered = finished st1" by (rule session_finish_Inr)
  have new: "session_ok mutation_state_new" "snapshot_of U (ses_scope ses) db mutation_state_new"
    "reads_observed U (ses_scope ses) db mutation_state_new"
    by (simp_all add: session_ok_def mutation_state_new_def snapshot_of_def reads_observed_def)
  have ok: "session_ok st" using grows_program [OF p] new(1) by (simp add: grows_def)
  have "ms_failure st = None \<or> st1 = st" using load(1) by (auto simp: load_write_bases_def split: if_splits)
  with load(2) have alive: "ms_failure st = None" by auto
  from program_observed [OF p alive new(1)] new have seen: "snapshot_of U (ses_scope ses) db st"
    "reads_observed U (ses_scope ses) db st" by simp_all
  from session_finish_observed [OF load(1,2) ok seen] have
    "reads_observed U (ses_scope ses) db st1" "session_ok st1" "ms_writes st1 = ms_writes st"
    "ms_schedules st1 = ms_schedules st" "map_of (ms_reads st) \<subseteq>\<^sub>m map_of (ms_reads st1)"
    "\<And>k m. (k, m) \<in> set (ms_writes st) \<Longrightarrow> needs_old m \<Longrightarrow> k \<in> fst ` set (ms_reads st1)" by blast+
  with p f load alive ok seen show thesis using that by blast
qed

lemma finished_reads:
  "a \<in> set (bm_reads (finished st)) \<longleftrightarrow> (\<exists>k obs. (k, obs) \<in> set (ms_reads st) \<and> a = read_assertion (k, obs))"
  by (force simp: finished_def)

lemma open_snapshot_Inr: "db_ok U db \<Longrightarrow> \<exists>snap. open_snapshot U scope db = Inr snap"
  using reads_total(1) by (fastforce simp: open_snapshot_def)

lemma record_sequence_bound:
  assumes "db_ok U db" and "open_snapshot U scope db = Inr snap" and "get_document U scope t d db = Inr (Some r)"
  shows "dr_commit_sequence r \<le> snap_sequence snap"
proof -
  let ?p = "project_text U scope" and ?e = "environment_text U scope"
  from assms(3) obtain row where row: "document_lookup U ?p ?e (t, d) db = Some row" "decode_document_row U row = Inr r"
    using get_document_lookup [of U scope "(t, d)" db]
    by (auto split: option.splits dest!: sym [of "Inr (Some r)"])
  then have "document_row_ok U (sequence_of (db_sequences db)) row" "dw_project row = ?p" "dw_environment row = ?e"
    using assms(1) sql_find_Some
    by (fastforce simp: document_lookup_def db_ok_def tables_ok_def table_ok_def document_key_def)+
  then have w: "0 < dw_commit_sequence row" "dw_commit_sequence row \<le> sequence_of (db_sequences db) ?p ?e"
    by (simp_all add: document_row_ok_def written_def)
  have b: "sequence_of (db_sequences db) ?p ?e \<le> i64_max"
    using assms(1) by (intro sequence_of_bounds) (simp add: db_ok_def tables_ok_def)
  have "snap_sequence snap = word_of_int (sequence_of (db_sequences db) ?p ?e)"
    using assms(2) w by (auto simp: open_snapshot_def begin_read_def positive_or_zero_u64_Inr sequence_of_def split: option.splits)
  moreover have "dr_commit_sequence r = word_of_int (dw_commit_sequence row)"
    using row(2) by (auto simp: decode_document_row_def positive_u64_Inr)
  ultimately show ?thesis using w b by (simp add: word_le_def uint_of_i64)
qed

lemma observes_transfer:
  assumes "observes U scope db k obs" and "db_ok U db'"
    and "get_document U scope (fst k) (snd k) db' = get_document U scope (fst k) (snd k) db"
  shows "observes U scope db' k obs"
proof -
  from assms(1) obtain snap :: ReadSnapshot and found where 1: "get_document U scope (fst k) (snd k) db = Inr found"
    "\<not> record_corrupt (fst k) (snd k) (snap_sequence snap) found" "obs = map_option data_document found"
    unfolding observes_def by blast
  from open_snapshot_Inr [OF assms(2)] obtain snap' where 2: "open_snapshot U scope db' = Inr snap'" by blast
  have "\<not> record_corrupt (fst k) (snd k) (snap_sequence snap') found"
    using 1(1,2) record_sequence_bound [OF assms(2) 2] assms(3)
    by (auto simp: record_corrupt_def not_less split: option.splits)
  with 1 2 assms(3) show ?thesis by (auto simp: observes_def)
qed

lemma attempt_again:
  assumes run: "run_attempt U sha256 ses program io preload close db = Inr (v, buffered)" and ok: "db_ok U db'"
    and same: "\<And>a. a \<in> set (bm_reads buffered) \<Longrightarrow>
      get_document U (ses_scope ses) (ra_table_id a) (ra_document_id a) db' =
      get_document U (ses_scope ses) (ra_table_id a) (ra_document_id a) db"
  shows "run_attempt U sha256 ses program [] (Proceeds, []) Proceeds db' = Inr (v, buffered)"
  using run
proof (rule run_attempt_Inr)
  fix st st1
  assume p: "run_program U sha256 ses db program io mutation_state_new = (Inr v, st)"
    and f: "session_finish U ses db preload close st = Inr buffered"
    and load: "load_write_bases U ses db preload st = (Inr (), st1)" "ms_failure st1 = None" "ms_failure st = None"
    and b: "buffered = finished st1" and sok: "session_ok st" "session_ok st1"
    and seen: "snapshot_of U (ses_scope ses) db st" "reads_observed U (ses_scope ses) db st"
      "reads_observed U (ses_scope ses) db st1" "map_of (ms_reads st) \<subseteq>\<^sub>m map_of (ms_reads st1)"
  have obs1: "reads_observed U (ses_scope ses) db' st1"
    unfolding reads_observed_def
  proof (intro allI impI)
    fix k obs
    assume k: "map_of (ms_reads st1) k = Some obs"
    then have "read_assertion (k, obs) \<in> set (bm_reads buffered)" using b finished_reads map_of_SomeD by metis
    from same [OF this] have "get_document U (ses_scope ses) (fst k) (snd k) db' =
        get_document U (ses_scope ses) (fst k) (snd k) db"
      by (cases k) (simp add: read_assertion_def)
    with k seen(3) ok show "observes U (ses_scope ses) db' k obs"
      using observes_transfer unfolding reads_observed_def by blast
  qed
  have obs: "reads_observed U (ses_scope ses) db' st"
    using obs1 seen(4) unfolding reads_observed_def map_le_def by (metis domI)
  have new: "session_ok mutation_state_new" "same_session U (ses_scope ses) db' mutation_state_new mutation_state_new"
    "snapshot_of U (ses_scope ses) db mutation_state_new \<and> reads_observed U (ses_scope ses) db mutation_state_new"
    by (simp_all add: session_ok_def mutation_state_new_def snapshot_of_def reads_observed_def same_session_def)
  from program_again [OF p load(3) new(1,3) obs new(2)] obtain st' where
    again: "run_program U sha256 ses db' program [] mutation_state_new = (Inr v, st')"
      "same_session U (ses_scope ses) db' st st'" by blast
  have "session_finish U ses db' (Proceeds, []) Proceeds st' = Inr buffered"
    by (rule session_finish_again [OF f sok(1) seen(1) _ again(2)]) (use load(1) obs1 in simp)
  with again(1) show ?thesis by (simp add: run_attempt_def)
qed

section \<open>Well-formed batches\<close>

lemma attempt_batch_Inr:
  assumes "attempt_batch U scope op schema buffered = Inr b"
  obtains ixs where "mutation_batch U scope op op (bm_reads buffered) (bm_writes buffered) ixs (bm_schedules buffered) = Inr b"
    "case schema of None \<Rightarrow> ixs = []
     | Some catalog \<Rightarrow> plan_document_index_mutations U catalog (bm_writes buffered) (bm_old_values buffered) = Inr ixs"
  using assms by (auto simp: attempt_batch_def split: option.splits)

lemma attempt_batch_typed:
  assumes laws: "ulid_laws U" and run: "run_attempt U sha256 ses program io preload close db = Inr (v, buffered)"
    and typed: "program_typed program" and b: "attempt_batch U (ses_scope ses) op schema buffered = Inr b"
  shows "batch_typed U b" and "batch_valid U b" and "cb_scope b = ses_scope ses" and "cb_reads b = bm_reads buffered"
    and "cb_operation_id b = op" and "cb_documents b = bm_writes buffered"
proof -
  from run obtain st st1 where p: "run_program U sha256 ses db program io mutation_state_new = (Inr v, st)"
    and bf: "buffered = finished st1" and ok: "session_ok st1"
    and seen: "reads_observed U (ses_scope ses) db st1" and w: "ms_writes st1 = ms_writes st" "ms_schedules st1 = ms_schedules st"
    by (rule run_attempt_Inr)
  from b obtain ixs where
    mb: "mutation_batch U (ses_scope ses) op op (bm_reads buffered) (bm_writes buffered) ixs (bm_schedules buffered) = Inr b"
    and plan: "case schema of None \<Rightarrow> ixs = [] | Some catalog \<Rightarrow>
      plan_document_index_mutations U catalog (bm_writes buffered) (bm_old_values buffered) = Inr ixs"
    by (rule attempt_batch_Inr)
  have st: "state_typed st" by (rule program_state_typed [OF laws p typed]) simp
  have ms: "list_all document_mutation_ok (bm_writes buffered)" and ss: "list_all schedule_insert_ok (bm_schedules buffered)"
    using st w by (auto simp: bf finished_def state_typed_def list_all_iff)
  have old: "value_ok v" if "(k, Some v) \<in> set (bm_old_values buffered)" for k v
  proof -
    from that obtain doc where "(k, Some doc) \<in> set (ms_reads st1)" "v = dd_value doc"
      by (auto simp: bf finished_def dest!: sym [of "Some v"])
    moreover have "distinct (map fst (ms_reads st1))" using ok by (simp add: session_ok_def btree_keys_distinct)
    ultimately show ?thesis using seen observes_ok [OF laws] unfolding reads_observed_def by (metis map_of_is_SomeI)
  qed
  have ixs: "list_all (index_mutation_ok U) ixs"
    using plan plan_ok [OF _ ms old] by (auto split: option.splits)
  show "batch_typed U b"
    using mutation_batch_Inr(1) [OF mb] ms ss ixs payload_ok [OF laws]
    by (auto simp: batch_typed_def outbox_append_ok_def)
  show "batch_valid U b" "cb_scope b = ses_scope ses" "cb_reads b = bm_reads buffered" "cb_operation_id b = op"
    "cb_documents b = bm_writes buffered"
    using mutation_batch_Inr [OF mb] by simp_all
qed

section \<open>One Mutation at the moment of its commit\<close>

text \<open>The specification: run the Function on the database and commit its batch at once, with no faults.\<close>

definition atomic_mutation ::
    "ulid_crate \<Rightarrow> (bytes \<Rightarrow> bytes) \<Rightarrow> MutationSession \<Rightarrow> SchemaCatalog option \<Rightarrow> program \<Rightarrow> clock \<Rightarrow> database
     \<Rightarrow> (MutationExecutionError + CanonicalValue \<times> u64 option) \<times> database" where
  "atomic_mutation U sha256 ses schema program clock db =
     (case run_attempt U sha256 ses program [] (Proceeds, []) Proceeds db of
        Inl err \<Rightarrow> (Inl err, db)
      | Inr (v, buffered) \<Rightarrow>
          if bm_writes buffered = [] \<and> bm_schedules buffered = [] then (Inr (v, None), db)
          else case attempt_batch U (ses_scope ses) (ses_operation_id ses) schema buffered of
            Inl err \<Rightarrow> (Inl err, db)
          | Inr batch \<Rightarrow>
              (case store_commit U sha256 NoFault clock batch db of
                 (Inl err, db') \<Rightarrow> (Inl (ExecStorage err), db')
               | (Inr result, db') \<Rightarrow> (Inr (v, Some (cr_commit_sequence result)), db')))"

text \<open>An operation of another client that neither deletes a document of the scope nor resets it.\<close>

definition keeps_documents :: "ulid_crate \<Rightarrow> EnvironmentScope \<Rightarrow> store_op \<Rightarrow> bool" where
  "keeps_documents U scope x \<longleftrightarrow> op_typed U x \<and> (\<forall>k. \<not> removes U scope k x)"

lemma keeps_documents_history:
  assumes "ulid_laws U" and "keeps_documents U scope x"
  shows "op_typed U x \<and> \<not> resets U (project_text U scope) (environment_text U scope) x"
  using assms scope_texts_inject [OF assms(1)]
  by (auto simp: keeps_documents_def removes_def resets_def split: store_op.splits)

lemma document_machine:
  assumes "ulid_laws U"
  shows "monotone_machine empty_database (store_step U sha256) (\<lambda>x. op_typed U x \<and> \<not> removes U scope k x) (db_ok U)
    (\<lambda>db db'. row_advances (document_lookup U (project_text U scope) (environment_text U scope) k db)
       (document_lookup U (project_text U scope) (environment_text U scope) k db'))"
  using store_step_ok [OF assms] store_step_row_advances [OF assms] row_advances_trans
  by unfold_locales (blast intro: empty_database_ok row_advances_refl)+

interpretation crockford_document: monotone_machine empty_database "store_step crockford_ulid sha256"
  "\<lambda>x. op_typed crockford_ulid x \<and> \<not> removes crockford_ulid scope k x" "db_ok crockford_ulid"
  "\<lambda>db db'. row_advances
     (document_lookup crockford_ulid (project_text crockford_ulid scope) (environment_text crockford_ulid scope) k db)
     (document_lookup crockford_ulid (project_text crockford_ulid scope) (environment_text crockford_ulid scope) k db')"
  for sha256 scope k
  by (rule document_machine [OF crockford_laws])

lemma keeps_run:
  assumes "ulid_laws U" and "db_ok U db" and "list_all (keeps_documents U scope) ops"
  shows "db_ok U (run (store_step U sha256) ops db)"
    and "row_advances (document_lookup U (project_text U scope) (environment_text U scope) k db)
      (document_lookup U (project_text U scope) (environment_text U scope) k (run (store_step U sha256) ops db))"
proof -
  have ops: "list_all (\<lambda>x. op_typed U x \<and> \<not> removes U scope k x) ops"
    using assms(3) unfolding list_all_iff keeps_documents_def by blast
  note m = document_machine [OF assms(1), of sha256 scope k]
  show "db_ok U (run (store_step U sha256) ops db)"
    by (rule invariant_machine.inv_run [OF monotone_machine.axioms(1) [OF m] ops assms(2)])
  show "row_advances (document_lookup U (project_text U scope) (environment_text U scope) k db)
      (document_lookup U (project_text U scope) (environment_text U scope) k (run (store_step U sha256) ops db))"
    by (rule monotone_machine.le_run [OF m ops assms(2)])
qed

text \<open>The revision that the store compares stands for the whole document.\<close>

lemma same_revision_same_document:
  assumes "ulid_laws U" and "db_ok U db" and "db_ok U db'"
    and "row_advances (document_lookup U (project_text U scope) (environment_text U scope) k db)
      (document_lookup U (project_text U scope) (environment_text U scope) k db')"
    and "mapR (map_option fst) (document_state U scope k db') = Inr x"
    and "mapR (map_option fst) (document_state U scope k db) = Inr x"
  shows "get_document U scope (fst k) (snd k) db' = get_document U scope (fst k) (snd k) db"
proof (cases "document_lookup U (project_text U scope) (environment_text U scope) k db")
  case None
  with assms(6) have "x = None" by (simp add: document_state_def get_document_lookup)
  with assms(5) have "document_lookup U (project_text U scope) (environment_text U scope) k db' = None"
    using document_lookup_decodes [OF assms(3), of "project_text U scope" "environment_text U scope" k]
    by (cases "document_lookup U (project_text U scope) (environment_text U scope) k db'")
      (auto simp: document_state_def get_document_lookup)
  with None show ?thesis by (simp add: get_document_lookup)
next
  case (Some r)
  with assms(4) obtain s where s: "document_lookup U (project_text U scope) (environment_text U scope) k db' = Some s"
    "s = r \<or> dw_revision r < dw_revision s" by (auto simp: row_advances_def)
  from document_lookup_decodes [OF assms(2) Some] document_lookup_decodes [OF assms(3) s(1)] obtain a b where
    "decode_document_row U r = Inr a" "uint (dr_revision a) = dw_revision r"
    "decode_document_row U s = Inr b" "uint (dr_revision b) = dw_revision s" by blast
  with assms(5,6) Some s have "s = r" by (auto simp: document_state_def get_document_lookup)
  with Some s(1) show ?thesis by (simp add: get_document_lookup)
qed

lemma attempt_atomic:
  assumes laws: "ulid_laws U" and ok: "db_ok U db" and run: "run_attempt U sha256 ses program io preload close db = Inr (v, buffered)"
    and typed: "program_typed program" and b: "attempt_batch U (ses_scope ses) (ses_operation_id ses) schema buffered = Inr b"
    and writes: "\<not> (bm_writes buffered = [] \<and> bm_schedules buffered = [])"
    and ops: "list_all (keeps_documents U (ses_scope ses)) ops" and dbc: "dbc = Machine.run (store_step U sha256) ops db"
    and commit: "store_commit U sha256 NoFault clock b dbc = (Inr r, db')" and fresh: "\<not> cr_replayed r"
  shows "atomic_mutation U sha256 ses schema program clock dbc = (Inr (v, Some (cr_commit_sequence r)), db')"
proof -
  note bt = attempt_batch_typed [OF laws run typed b]
  have okc: "db_ok U dbc" unfolding dbc by (rule keeps_run(1) [OF laws ok ops])
  from commit obtain digest where a: "apply_commit U clock b digest dbc = Inr (r, db')" by (rule store_commit_Inr)
  from a fresh have "validate_document_reads U (project_text U (cb_scope b)) (environment_text U (cb_scope b)) dbc (cb_reads b) = Inr ()"
    by (auto elim!: apply_commit_cases dest: load_operation_replayed)
  note valid = validated_reads [OF okc this]
  from run obtain st1 where bf: "buffered = finished st1" and sok: "session_ok st1"
    and seen: "reads_observed U (ses_scope ses) db st1" by (rule run_attempt_Inr)
  have "get_document U (ses_scope ses) (ra_table_id x) (ra_document_id x) dbc =
      get_document U (ses_scope ses) (ra_table_id x) (ra_document_id x) db" if x: "x \<in> set (bm_reads buffered)" for x
  proof -
    from x bf obtain k obs where k: "(k, obs) \<in> set (ms_reads st1)" "x = read_assertion (k, obs)"
      by (auto simp: finished_reads)
    have "distinct (map fst (ms_reads st1))" using sok by (simp add: session_ok_def btree_keys_distinct)
    with k(1) seen have "observes U (ses_scope ses) db k obs" unfolding reads_observed_def by (metis map_of_is_SomeI)
    then have "mapR (map_option fst) (document_state U (ses_scope ses) k db) = Inr (ra_observed_revision x)"
      by (auto simp: observes_def document_state_def k(2) read_assertion_def data_document_def option.map_comp comp_def
          split: prod.splits)
    moreover have "mapR (map_option fst) (document_state U (ses_scope ses) k dbc) = Inr (ra_observed_revision x)"
      using valid [of x] x bt(3,4) by (cases k) (simp add: k(2) read_assertion_def)
    ultimately have "get_document U (ses_scope ses) (fst k) (snd k) dbc = get_document U (ses_scope ses) (fst k) (snd k) db"
      using same_revision_same_document [OF laws ok okc] keeps_run(2) [OF laws ok ops] dbc by blast
    then show ?thesis by (cases k) (simp add: k(2) read_assertion_def)
  qed
  from attempt_again [OF run okc this] show ?thesis
    using b writes commit by (simp add: atomic_mutation_def)
qed

section \<open>Retries of the commit\<close>

lemma store_commit_fault:
  "store_commit U sha256 fault clock b db = (Inr r, db') \<Longrightarrow> store_commit U sha256 NoFault clock b db = (Inr r, db')"
  by (auto simp: store_commit_def transaction_def split: tx_fault.splits sum.splits)

lemma map_commit_error_conflict: "map_commit_error e \<noteq> MutationConflict \<and> map_sqlx_error e \<noteq> MutationConflict"
  by (cases e) (auto simp: map_commit_error_def split: StoreError.splits)

lemma store_commit_conflict:
  assumes "store_commit U sha256 fault clock b db = (Inl MutationConflict, db')"
  shows "db' = db" and "store_commit U sha256 NoFault clock b db = (Inl MutationConflict, db)"
  using assms map_commit_error_conflict
  by (auto simp: store_commit_def transaction_def split: tx_fault.splits sum.splits if_splits)

text \<open>
  Had an earlier call of \<open>commit\<close> taken effect, a later one would find its result: a conflict or a
  fresh commit shows that it had not.
\<close>

lemma commit_not_applied:
  assumes laws: "ulid_laws U" and ok: "db_ok U db" and typed: "batch_typed U b" "batch_valid U b"
    and ops: "list_all (keeps_documents U (cb_scope b)) ops"
    and later: "\<And>r. cr_replayed r \<Longrightarrow>
      fst (store_commit U sha256 NoFault clock' b (run (store_step U sha256) ops (store_step U sha256 (OpCommit fault clock b) db))) \<noteq> Inr r"
  shows "store_step U sha256 (OpCommit fault clock b) db = db"
proof (rule ccontr)
  let ?db = "store_step U sha256 (OpCommit fault clock b) db"
  assume "?db \<noteq> db"
  then show False
  proof (cases rule: store_step_cases)
    case (1 b' fault' clock'' digest r)
    have "list_all (\<lambda>x. op_typed U x \<and> \<not> resets U (project_text U (cb_scope b)) (environment_text U (cb_scope b)) x) ops"
      using ops keeps_documents_history [OF laws] unfolding list_all_iff by blast
    from commit_found_again(1) [OF laws ok typed(1) _ this] 1 have
      "load_operation U b digest (run (store_step U sha256) ops ?db) = Inr (Some (r\<lparr>cr_replayed := True\<rparr>))" by simp
    with 1 have "fst (store_commit U sha256 NoFault clock' b (run (store_step U sha256) ops ?db)) = Inr (r\<lparr>cr_replayed := True\<rparr>)"
      by (simp add: store_commit_def transaction_def apply_commit_def Let_def)
    with later show False by (metis CommitResult.select_convs(3) CommitResult.surjective CommitResult.update_convs(3))
  qed simp_all
qed

text \<open>What the other clients do before the commit calls \<open>i\<close> to \<open>k - 1\<close> of an attempt, in this order.\<close>

definition commit_others :: "(nat \<Rightarrow> commit_env) \<Rightarrow> nat \<Rightarrow> nat \<Rightarrow> store_op list" where
  "commit_others env i k = concat (map (\<lambda>j. ce_others (env j)) [i..<k])"

lemma commit_others_Suc: "commit_others env i (Suc i) = ce_others (env i)"
  "Suc i < k \<Longrightarrow> commit_others env i k = ce_others (env i) @ commit_others env (Suc i) k"
  by (simp_all add: commit_others_def upt_conv_Cons)

lemma commit_others_keep:
  "(\<And>i. list_all P (ce_others (env i))) \<Longrightarrow> list_all P (commit_others env i k)"
  by (auto simp: commit_others_def list_all_iff)

lemma commit_retries_settled:
  assumes laws: "ulid_laws U" and typed: "batch_typed U b" "batch_valid U b"
    and env: "\<And>i. list_all (keeps_documents U (cb_scope b)) (ce_others (env i))"
  shows "commit_retries n U sha256 b env retry err0 db = (res, db') \<Longrightarrow> db_ok U db \<Longrightarrow> err0 \<noteq> MutationConflict \<Longrightarrow>
    res = Inl MutationConflict \<or> (\<exists>r. res = Inr r \<and> \<not> cr_replayed r) \<Longrightarrow>
    \<exists>k clock. retry < k \<and> k \<le> retry + n \<and>
      store_commit U sha256 NoFault clock b (run (store_step U sha256) (commit_others env retry k) db) = (res, db') \<and>
      (res = Inl MutationConflict \<longrightarrow> db' = run (store_step U sha256) (commit_others env retry k) db)"
proof (induction n arbitrary: retry err0 db)
  case (Suc n)
  let ?others = "ce_others (env retry)" and ?fault = "ce_fault (env retry)" and ?clock = "ce_clock (env retry)"
  let ?db = "run (store_step U sha256) ?others db"
  have ok: "db_ok U ?db" by (rule keeps_run(1) [OF laws Suc.prems(2) env])
  obtain res1 db1 where c: "store_commit U sha256 ?fault ?clock b ?db = (res1, db1)" by force
  show ?case
  proof (cases "\<exists>err. res1 = Inl err \<and> retry_commit err \<and> retry + 1 < MAX_ATTEMPTS")
    case True
    then obtain err where err: "res1 = Inl err" "retry_commit err" "retry + 1 < MAX_ATTEMPTS" by blast
    with Suc.prems(1) c have rest: "commit_retries n U sha256 b env (retry + 1) err db1 = (res, db')" by simp
    have step: "db1 = store_step U sha256 (OpCommit ?fault ?clock b) ?db" using c by simp
    have "db_ok U db1" unfolding step by (rule store_step_ok [OF laws]) (use typed ok in simp_all)
    moreover have "err \<noteq> MutationConflict" using err(2) by (auto simp: retry_commit_def)
    ultimately obtain k clock where IH: "retry + 1 < k" "k \<le> retry + 1 + n"
      "store_commit U sha256 NoFault clock b (run (store_step U sha256) (commit_others env (retry + 1) k) db1) = (res, db')"
      "res = Inl MutationConflict \<longrightarrow> db' = run (store_step U sha256) (commit_others env (retry + 1) k) db1"
      using Suc.IH [OF rest] Suc.prems(4) by blast
    have "list_all (keeps_documents U (cb_scope b)) (commit_others env (retry + 1) k)" by (rule commit_others_keep [OF env])
    from commit_not_applied [OF laws ok typed this, of sha256 clock ?fault ?clock] have "db1 = ?db"
      using IH(3) Suc.prems(4) step by fastforce
    with IH have "retry < k" "k \<le> retry + Suc n"
      "store_commit U sha256 NoFault clock b (run (store_step U sha256) (commit_others env retry k) db) = (res, db')"
      "res = Inl MutationConflict \<longrightarrow> db' = run (store_step U sha256) (commit_others env retry k) db"
      by (simp_all add: commit_others_Suc(2))
    then show ?thesis by blast
  next
    case False
    with Suc.prems(1) c have "res1 = res" "db1 = db'" by (auto split: sum.splits if_splits)
    with c have c': "store_commit U sha256 ?fault ?clock b ?db = (res, db')" by simp
    have "store_commit U sha256 NoFault ?clock b ?db = (res, db') \<and> (res = Inl MutationConflict \<longrightarrow> db' = ?db)"
      using Suc.prems(4)
    proof
      assume "res = Inl MutationConflict"
      with c' store_commit_conflict [of U sha256 ?fault ?clock b ?db db'] show ?thesis by simp
    next
      assume "\<exists>r. res = Inr r \<and> \<not> cr_replayed r"
      with c' store_commit_fault [of U sha256 ?fault ?clock b ?db _ db'] show ?thesis by auto
    qed
    then show ?thesis by (intro exI [of _ "Suc retry"] exI [of _ ?clock]) (simp add: commit_others_Suc(1))
  qed
qed auto

section \<open>Executions\<close>

text \<open>The operations the other clients perform during an execution.\<close>

definition foreign_ops :: "(nat \<Rightarrow> attempt_env) \<Rightarrow> store_op set" where
  "foreign_ops env = (\<Union>a. set (ae_others (env a)) \<union> (\<Union>i. set (ce_others (ae_commit (env a) i))))"

text \<open>
  What they do during the attempts from \<open>a\<close> on, in its order, when these attempts call \<open>commit\<close> as
  often as the list says: before an attempt opens its snapshot, and between it and each of these calls.
\<close>

fun interleaved :: "(nat \<Rightarrow> attempt_env) \<Rightarrow> nat \<Rightarrow> nat list \<Rightarrow> store_op list" where
  "interleaved env a [] = []"
| "interleaved env a (k # ks) = ae_others (env a) @ commit_others (ae_commit (env a)) 0 k @ interleaved env (Suc a) ks"

definition env_keeps :: "ulid_crate \<Rightarrow> EnvironmentScope \<Rightarrow> (nat \<Rightarrow> attempt_env) \<Rightarrow> bool" where
  "env_keeps U scope env \<longleftrightarrow>
     (\<forall>a. program_typed (ae_program (env a))) \<and> (\<forall>x \<in> foreign_ops env. keeps_documents U scope x)"

lemma env_keeps_others:
  assumes "env_keeps U scope env"
  shows "list_all (keeps_documents U scope) (ae_others (env a))"
    "list_all (keeps_documents U scope) (ce_others (ae_commit (env a) i))" "program_typed (ae_program (env a))"
  using assms unfolding env_keeps_def foreign_ops_def list_all_iff by blast+

lemma run_attempt_atomic:
  assumes "db_ok U db" and "run_attempt U sha256 ses program io preload close db = Inr (v, buffered)"
  shows "run_attempt U sha256 ses program [] (Proceeds, []) Proceeds db = Inr (v, buffered)"
  by (rule attempt_again [OF assms(2,1)]) simp

lemma execute_attempts_atomic:
  assumes laws: "ulid_laws U" and env: "env_keeps U (ses_scope ses) env"
  shows "execute_attempts n U sha256 ses schema env attempt db = (Inr outcome, db') \<Longrightarrow> db_ok U db \<Longrightarrow>
    \<not> mo_replayed outcome \<Longrightarrow>
    \<exists>ks clock. attempt + length ks = Suc (mo_attempts outcome) \<and> list_all (\<lambda>k. k \<le> MAX_ATTEMPTS) ks \<and>
      atomic_mutation U sha256 ses schema (ae_program (env (mo_attempts outcome))) clock
        (run (store_step U sha256) (interleaved env attempt ks) db) = (Inr (mo_value outcome, mo_commit_sequence outcome), db')"
proof (induction n arbitrary: attempt db)
  case (Suc n)
  let ?a = "env attempt"
  let ?db1 = "run (store_step U sha256) (ae_others ?a) db"
  note others = env_keeps_others [OF env, of attempt]
  have ok1: "db_ok U ?db1" by (rule keeps_run(1) [OF laws Suc.prems(2) others(1)])
  from Suc.prems(1) obtain v buffered where
    att: "run_attempt U sha256 ses (ae_program ?a) (ae_io ?a) (ae_preload ?a) (ae_close ?a) ?db1 = Inr (v, buffered)"
    by (auto simp: Let_def split: sum.splits)
  show ?case
  proof (cases "bm_writes buffered = [] \<and> bm_schedules buffered = []")
    case True
    with Suc.prems(1) att have "outcome = \<lparr>mo_value = v, mo_commit_sequence = None, mo_replayed = False, mo_attempts = attempt\<rparr>"
      "db' = ?db1" by (simp_all add: Let_def)
    then have "atomic_mutation U sha256 ses schema (ae_program ?a) (Inr 0) ?db1 = (Inr (mo_value outcome, mo_commit_sequence outcome), db')"
      using True run_attempt_atomic [OF ok1 att] by (simp add: atomic_mutation_def)
    with \<open>outcome = _\<close> show ?thesis
      by (intro exI [of _ "[0]"] exI [of _ "Inr 0"]) (simp add: commit_others_def)
  next
    case False
    with Suc.prems(1) att obtain b where b: "attempt_batch U (ses_scope ses) (ses_operation_id ses) schema buffered = Inr b"
      by (auto simp: Let_def split: sum.splits)
    note bt = attempt_batch_typed [OF laws att others(3) b]
    obtain res db2 where c: "commit_exact U sha256 b (ae_commit ?a) ?db1 = (res, db2)" by force
    let ?others = "commit_others (ae_commit ?a) 0"
    have keep: "list_all (keeps_documents U (ses_scope ses)) (?others k)" for k by (rule commit_others_keep [OF others(2)])
    have settled: "\<exists>k clock. k \<le> MAX_ATTEMPTS \<and>
        store_commit U sha256 NoFault clock b (run (store_step U sha256) (?others k) ?db1) = (res, db2) \<and>
        (res = Inl MutationConflict \<longrightarrow> db2 = run (store_step U sha256) (?others k) ?db1)"
      if "res = Inl MutationConflict \<or> (\<exists>r. res = Inr r \<and> \<not> cr_replayed r)"
      using commit_retries_settled [OF laws bt(1,2) others(2) [folded bt(3)] c [unfolded commit_exact_def] ok1 _ that]
      by fastforce
    show ?thesis
    proof (cases res)
      case (Inr r)
      with Suc.prems(1,3) att False b c have o: "outcome = mutation_outcome_of v r attempt" "db' = db2"
        by (simp_all add: Let_def)
      with Suc.prems(3) have "\<not> cr_replayed r" by (simp add: mutation_outcome_of_def)
      with settled Inr obtain k clock where s: "k \<le> MAX_ATTEMPTS"
        "store_commit U sha256 NoFault clock b (run (store_step U sha256) (?others k) ?db1) = (Inr r, db2)" by blast
      have "atomic_mutation U sha256 ses schema (ae_program ?a) clock (run (store_step U sha256) (ae_others ?a @ ?others k) db) =
          (Inr (v, Some (cr_commit_sequence r)), db2)"
        using attempt_atomic [OF laws ok1 att others(3) b _ keep refl s(2)] False \<open>\<not> cr_replayed r\<close> by simp
      with o s(1) show ?thesis
        by (intro exI [of _ "[k]"] exI [of _ clock]) (simp add: mutation_outcome_of_def)
    next
      case (Inl err)
      with Suc.prems(1) att False b c have err: "err = MutationConflict"
        and rest: "execute_attempts n U sha256 ses schema env (attempt + 1) db2 = (Inr outcome, db')"
        by (auto simp: Let_def split: if_splits)
      with settled Inl obtain k where s: "k \<le> MAX_ATTEMPTS" "db2 = run (store_step U sha256) (?others k) ?db1" by blast
      have "db_ok U db2" unfolding s(2) by (rule keeps_run(1) [OF laws ok1 keep])
      from Suc.IH [OF rest this Suc.prems(3)] obtain ks clock where
        IH: "attempt + 1 + length ks = Suc (mo_attempts outcome)" "list_all (\<lambda>k. k \<le> MAX_ATTEMPTS) ks"
        "atomic_mutation U sha256 ses schema (ae_program (env (mo_attempts outcome))) clock
          (run (store_step U sha256) (interleaved env (attempt + 1) ks) db2) = (Inr (mo_value outcome, mo_commit_sequence outcome), db')"
        by blast
      with s show ?thesis by (intro exI [of _ "k # ks"] exI [of _ clock]) simp
    qed
  qed
qed simp

section \<open>Executions keep the database well-formed\<close>

definition env_typed :: "ulid_crate \<Rightarrow> (nat \<Rightarrow> attempt_env) \<Rightarrow> bool" where
  "env_typed U env \<longleftrightarrow> (\<forall>a. program_typed (ae_program (env a))) \<and> (\<forall>x \<in> foreign_ops env. op_typed U x)"

lemma env_typed_others:
  assumes "env_typed U env"
  shows "list_all (op_typed U) (ae_others (env a))" "list_all (op_typed U) (ce_others (ae_commit (env a) i))"
    "program_typed (ae_program (env a))"
  using assms unfolding env_typed_def foreign_ops_def list_all_iff by blast+

lemma typed_run_ok: "ulid_laws U \<Longrightarrow> db_ok U db \<Longrightarrow> list_all (op_typed U) ops \<Longrightarrow> db_ok U (run (store_step U sha256) ops db)"
  by (rule invariant_machine.inv_run [OF store_machine])

lemma commit_retries_ok:
  assumes "ulid_laws U" and "batch_typed U b" and "\<And>i. list_all (op_typed U) (ce_others (env i))"
  shows "db_ok U db \<Longrightarrow> db_ok U (snd (commit_retries n U sha256 b env retry err0 db))"
proof (induction n arbitrary: retry err0 db)
  case (Suc n)
  let ?db = "run (store_step U sha256) (ce_others (env retry)) db"
  obtain res db1 where c: "store_commit U sha256 (ce_fault (env retry)) (ce_clock (env retry)) b ?db = (res, db1)" by force
  have "db_ok U ?db" by (rule typed_run_ok [OF assms(1) Suc.prems assms(3)])
  then have "db_ok U (store_step U sha256 (OpCommit (ce_fault (env retry)) (ce_clock (env retry)) b) ?db)"
    using assms(2) by (intro store_step_ok [OF assms(1)]) simp_all
  with c have "db_ok U db1" by simp
  with c Suc.IH show ?case by (auto split: sum.splits)
qed simp

lemma execute_attempts_ok:
  assumes "ulid_laws U" and "env_typed U env"
  shows "db_ok U db \<Longrightarrow> db_ok U (snd (execute_attempts n U sha256 ses schema env attempt db))"
proof (induction n arbitrary: attempt db)
  case (Suc n)
  let ?a = "env attempt"
  let ?db1 = "run (store_step U sha256) (ae_others ?a) db"
  note others = env_typed_others [OF assms(2), of attempt]
  have ok1: "db_ok U ?db1" by (rule typed_run_ok [OF assms(1) Suc.prems others(1)])
  show ?case
  proof (cases "run_attempt U sha256 ses (ae_program ?a) (ae_io ?a) (ae_preload ?a) (ae_close ?a) ?db1")
    case (Inr r)
    then obtain v buffered where r: "run_attempt U sha256 ses (ae_program ?a) (ae_io ?a) (ae_preload ?a) (ae_close ?a) ?db1 =
        Inr (v, buffered)" by (cases r) simp
    show ?thesis
    proof (cases "attempt_batch U (ses_scope ses) (ses_operation_id ses) schema buffered")
      case (Inr b)
      have "batch_typed U b" by (rule attempt_batch_typed(1) [OF assms(1) r others(3) Inr])
      then have "db_ok U (snd (commit_exact U sha256 b (ae_commit ?a) ?db1))"
        unfolding commit_exact_def by (rule commit_retries_ok [OF assms(1) _ others(2) ok1])
      with r Inr ok1 Suc.IH show ?thesis by (auto simp: Let_def split: prod.splits sum.splits)
    qed (use r ok1 in \<open>simp add: Let_def\<close>)
  qed (use ok1 in \<open>simp add: Let_def\<close>)
qed simp

section \<open>Bounds\<close>

lemma execute_attempts_bound:
  "execute_attempts n U sha256 ses schema env attempt db = (Inr outcome, db') \<Longrightarrow>
     attempt \<le> mo_attempts outcome \<and> mo_attempts outcome < attempt + n"
proof (induction n arbitrary: attempt db)
  case (Suc n)
  then show ?case
    by (auto simp: Let_def mutation_outcome_of_def split: sum.splits prod.splits if_splits) fastforce+
qed simp

end
