(* ===== verification/Mutation_Sample.thy ===== *)
theory Mutation_Sample
  imports Mutation_Atomic Store_Sample
begin

text \<open>
  A concrete Mutation: it reads the document of the sample commit and inserts another one, while the
  sample commit itself is performed by another client before its snapshot.
\<close>

definition sample_program :: program where
  "sample_program = CallGet 4 5 (\<lambda>_. CallInsert 4 6 Null (\<lambda>_. Return (Inr Null)))"

definition sample_request :: InvocationRequest where
  "sample_request =
     \<lparr>rq_scope = sample_scope, rq_function_id = 20,
      rq_functions = [\<lparr>fm_id = 20, fm_name = ''run'', fm_function_type = FnMutation, fm_visibility = VisibilityPublic\<rparr>],
      rq_runtime_version = ''test'', rq_index_contract_hash = [], rq_artifact = [],
      rq_pinned_code = PinnedRelease 9\<rparr>"

definition sample_env :: "nat \<Rightarrow> attempt_env" where
  "sample_env a =
     \<lparr>ae_program = sample_program, ae_others = [OpCommit NoFault (Inr 0) sample_batch], ae_io = [],
      ae_preload = (Proceeds, []), ae_close = Proceeds,
      ae_commit = (\<lambda>_. \<lparr>ce_others = [], ce_fault = NoFault, ce_clock = Inr 0\<rparr>)\<rparr>"

definition sample_session :: MutationSession where
  "sample_session =
     \<lparr>ses_scope = sample_scope, ses_operation_id = 21, ses_schedule_base = 0, ses_pinned_code = PinnedRelease 9,
      ses_allowed_schedules = []\<rparr>"

definition sample_read :: DocumentReadAssertion where
  "sample_read = \<lparr>ra_table_id = 4, ra_document_id = 5, ra_observed_revision = Some 1\<rparr>"

definition sample_mutation :: DocumentMutation where
  "sample_mutation = Upsert 4 6 Absent Null"

definition sample_buffered :: BufferedMutation where
  "sample_buffered =
     \<lparr>bm_reads = [sample_read], bm_old_values = [((4, 5), Some sample_value)], bm_writes = [sample_mutation],
      bm_schedules = []\<rparr>"

definition sample_mutation_batch :: CommitBatch where
  "sample_mutation_batch =
     \<lparr>cb_scope = sample_scope, cb_operation_id = 21, cb_reads = [sample_read], cb_documents = [sample_mutation],
      cb_indexes = [], cb_outbox = [\<lparr>oa_event_id = 21, oa_payload = document_write_set_payload sample_U [sample_mutation] []\<rparr>],
      cb_schedules = [], cb_intent_context = None\<rparr>"

lemma sample_value_decodes: "decode_value sample_U sample_bytes = Inr sample_value"
  using decode_value_encode [OF crockford_laws sample_value_ok] sample_value_encodes by (simp add: encode_value_def)

lemma sample_get:
  "get_document sample_U sample_scope 4 5 sample_database =
     Inr (Some \<lparr>dr_table_id = 4, dr_document_id = 5, dr_revision = 1, dr_commit_sequence = 1,
       dr_created_at = 0, dr_updated_at = 0, dr_value = sample_value\<rparr>)"
  using parse_id_text [OF crockford_laws, of "''tbl_''" 4] parse_id_text [OF crockford_laws, of "''doc_''" 5]
  by (simp add: get_document_def sample_database_def sample_document_row_def new_document_row_def sql_find_def
      document_key_def decode_document_row_def sample_value_decodes positive_u64_def timestamp_def del: bindR_Inr mapR_Inr)

lemma sample_snapshot:
  "open_snapshot sample_U sample_scope sample_database = Inr \<lparr>snap_sequence = 1, snap_database = sample_database\<rparr>"
  by (simp add: open_snapshot_def begin_read_def sample_database_def sql_find_def sequence_key_def
      positive_or_zero_u64_def del: bindR_Inr mapR_Inr)

lemma sample_attempt:
  "run_attempt sample_U sample_sha sample_session sample_program [] (Proceeds, []) Proceeds sample_database =
     Inr (Null, sample_buffered)"
  by (simp add: run_attempt_def sample_program_def session_get_def mutation_state_new_def buffered_read_def
      ensure_session_snapshot_def sample_session_def next_io_def sample_snapshot session_fetch_def sample_get
      record_corrupt_def remember_read_def data_document_def session_insert_def session_buffer_def
      null_encodes mutation_key_def session_finish_def load_write_bases_def missing_bases_def awaited_def
      read_assertion_def sample_buffered_def sample_read_def sample_mutation_def Let_def
      MAX_DOCUMENT_READS_def MAX_DOCUMENT_WRITES_def del: bindR_Inr mapR_Inr)

definition sample_payload_bytes :: bytes where
  "sample_payload_bytes = STORED_MAGIC @ [STORED_VALUE_FORMAT_VERSION] @
     stored_bytes sample_U (document_write_set_payload sample_U [sample_mutation] [])"

lemma sample_id_length: "length (resource_id_to_string sample_U p u) = length p + 26"
  using crockford_laws by (simp add: resource_id_to_string_def ulid_laws_def)

lemma sample_payload_length:
  "length (stored_bytes sample_U (document_write_set_payload sample_U [sample_mutation] [])) = 177"
  by (simp add: document_write_set_payload_def write_impact_def sample_mutation_def sample_id_length)

lemma sample_payload_encodes:
  "encode_stored_value sample_U (document_write_set_payload sample_U [sample_mutation] []) = Inr sample_payload_bytes"
  unfolding encode_stored_value_Inr sample_payload_length sample_payload_bytes_def
  by (simp add: stored_limits document_write_set_payload_def write_impact_def sample_mutation_def)

lemma sample_mutation_batch_typed: "batch_typed sample_U sample_mutation_batch"
  by (simp add: batch_typed_def sample_mutation_batch_def outbox_append_ok_def payload_ok [OF crockford_laws]
      sample_mutation_def)

lemma sample_mutation_batch_valid: "commit_batch_validate sample_U sample_mutation_batch = Inr ()"
  by (simp add: commit_batch_validate_def sample_mutation_batch_def sample_mutation_def batch_over_limits_def
      COMMIT_LIMITS_V1_def check_read_def sample_read_def
      check_document_def check_index_def check_event_def check_schedule_def payload_bytes_def add_value_def
      add_payload_def encode_value_def sample_payload_encodes [unfolded sample_mutation_def] null_encodes checked_add_usize_def
      MAX_INTENT_CONTEXT_BYTES_def sample_payload_bytes_def sample_payload_length [unfolded sample_mutation_def]
      STORED_MAGIC_def)

lemma sample_attempt_batch:
  "attempt_batch sample_U sample_scope 21 None sample_buffered = Inr sample_mutation_batch"
  using sample_mutation_batch_valid
  by (simp add: attempt_batch_def mutation_batch_def Let_def sample_buffered_def commit_batch_new_def push_outbox_def
      push_read_def push_document_def sample_mutation_batch_def)

definition sample_mutation_digest :: bytes where
  "sample_mutation_digest = batch_bytes sample_U sample_mutation_batch"

lemma sample_mutation_batch_digest:
  "commit_batch_digest sample_U sample_sha sample_mutation_batch = Inr sample_mutation_digest"
  using digest_of_valid [OF crockford_laws sample_mutation_batch_typed sample_mutation_batch_valid, of sample_sha]
  by (simp add: sample_sha_def sample_mutation_digest_def)

definition sample_mutation_result :: CommitResult where
  "sample_mutation_result =
     \<lparr>cr_commit_sequence = 2,
      cr_documents = [\<lparr>drr_table_id = 4, drr_document_id = 6, drr_revision = Some 1\<rparr>], cr_replayed = False\<rparr>"

definition sample_mutation_database :: database where
  "sample_mutation_database = snd (store_commit sample_U sample_sha NoFault (Inr 0) sample_mutation_batch sample_database)"

lemma sample_texts:
  "operation_text sample_U 21 = operation_text sample_U 3 \<longleftrightarrow> False"
  "operation_text sample_U 3 = operation_text sample_U 21 \<longleftrightarrow> False"
  "document_text sample_U 5 = document_text sample_U 6 \<longleftrightarrow> False"
  "document_text sample_U 6 = document_text sample_U 5 \<longleftrightarrow> False"
  "event_text sample_U 21 = event_text sample_U 7 \<longleftrightarrow> False"
  by (auto dest!: id_inject [OF crockford_laws])

lemma sample_mutation_commit:
  "store_commit sample_U sample_sha NoFault (Inr 0) sample_mutation_batch sample_database =
     (Inr sample_mutation_result, sample_mutation_database)"
proof -
  have "fst (store_commit sample_U sample_sha NoFault (Inr 0) sample_mutation_batch sample_database) = Inr sample_mutation_result"
    unfolding store_commit_def sample_mutation_batch_digest
    by (simp add: transaction_def apply_commit_def load_operation_def validate_document_reads_def validate_document_read_def
      bump_sequence_def sql_update_returning_def sql_succ_def sequence_key_def operation_key_def
      sql_find_def Let_def sample_mutation_batch_def sample_mutation_def sample_read_def positive_u64_def sql_insert_def
      record_document_def encode_value_def null_encodes positive_i64_def sql_insert_ignore_def
      sample_payload_encodes [unfolded sample_mutation_def]
      apply_event_def sample_store_defs sample_batch_def document_key_def micros_def sample_texts sample_mutation_result_def
      result_key_def outbox_key_def same_key_def
      del: bindR_Inr mapR_Inr)
  then show ?thesis by (simp add: sample_mutation_database_def prod_eq_iff)
qed

definition sample_outcome :: MutationOutcome where
  "sample_outcome = \<lparr>mo_value = Null, mo_commit_sequence = Some 2, mo_replayed = False, mo_attempts = 1\<rparr>"

lemma sample_env_keeps: "env_keeps sample_U sample_scope sample_env"
proof -
  have "\<not> removes sample_U sample_scope k (OpCommit NoFault (Inr 0) sample_batch)" for k
    by (simp add: removes_def sample_batch_def)
  then show ?thesis
    by (simp add: env_keeps_def sample_env_def foreign_ops_def sample_program_def keeps_documents_def sample_batch_typed)
qed

lemma sample_execute:
  "execute_mutation sample_U sample_sha (\<lambda>_. 0) (\<lambda>_ _. None) None sample_request 21 sample_env empty_database =
     (Inr sample_outcome, sample_mutation_database)"
proof -
  have ses: "\<lparr>ses_scope = rq_scope sample_request, ses_operation_id = 21, ses_schedule_base = 0,
      ses_pinned_code = rq_pinned_code sample_request, ses_allowed_schedules = allowed_schedules sample_request\<rparr> = sample_session"
    by (simp add: sample_request_def sample_session_def allowed_schedules_def)
  have db: "run (store_step sample_U sample_sha) (ae_others (sample_env 1)) empty_database = sample_database"
    by (simp add: sample_env_def sample_commit)
  have commit: "commit_exact sample_U sample_sha sample_mutation_batch (ae_commit (sample_env 1)) sample_database =
      (Inr sample_mutation_result, sample_mutation_database)"
    by (simp add: commit_exact_def MAX_ATTEMPTS_def numeral_3_eq_3 sample_env_def sample_mutation_commit)
  have "execute_attempts MAX_ATTEMPTS sample_U sample_sha sample_session None sample_env 1 empty_database =
      (Inr sample_outcome, sample_mutation_database)"
    unfolding MAX_ATTEMPTS_def numeral_3_eq_3 execute_attempts.simps(2) Let_def db
    using sample_attempt sample_attempt_batch commit
    by (simp add: sample_env_def sample_session_def sample_buffered_def mutation_outcome_of_def
        sample_mutation_result_def sample_outcome_def)
  then show ?thesis
    unfolding execute_mutation_def
    by (simp add: active_schema_def operation_time_micros_def select_mutation_def ses [simplified]
        sample_request_def sample_session_def allowed_schedules_def del: bindR_Inr mapR_Inr)
qed

end
