(* ===== verification/Export_Properties.thy ===== *)
theory Export_Properties
  imports Sqlite_Export_Reads Mutation_Sample
begin

text \<open>The property of exports, with the export of the sample database as its witness.\<close>

text \<open>
  C16 (exports read back): Take an export of an Environment of a legal database. Seed it into any legal database
  that does not hold the Environment, or import it over the one it holds, without a fault of the database. Both
  succeed, leave a legal database and change nothing in other Environments. The result has the same export, record
  by record, and every read of a snapshot of the Environment answers as in the original database: the sequence,
  each document, each index scan, each outbox event, each scheduled invocation and their listings.
\<close>

theorem environment_export_roundtrip:
  assumes "ulid_laws U" and "db_ok U db" and "export_environment U None scope db = Inr x" and "db_ok U db'"
    and "replace \<or> sql_find (\<lambda>r. sequence_key r = (project_text U scope, environment_text U scope)) (db_sequences db') = None"
  shows "\<exists>db2. (if replace then import_environment U NoFault (Inr now) x (scope_environment scope) db'
      else seed_environment U NoFault (Inr now) x db') = (Inr (), db2) \<and> db_ok U db2 \<and>
    export_environment U None scope db2 = Inr x \<and>
    (\<forall>p' e'. (p', e') \<noteq> (project_text U scope, environment_text U scope) \<longrightarrow> scope_view p' e' db2 = scope_view p' e' db') \<and>
    begin_read U scope db2 = begin_read U scope db \<and>
    (\<forall>t d. get_document U scope t d db2 = get_document U scope t d db) \<and>
    (\<forall>i rng limit. scan_index U scope i rng limit db2 = scan_index U scope i rng limit db) \<and>
    (\<forall>v. get_outbox U scope v db2 = get_outbox U scope v db) \<and>
    (\<forall>i. get_scheduled U scope i db2 = get_scheduled U scope i db) \<and>
    (\<forall>after limit. list_scheduled U scope after limit db2 = list_scheduled U scope after limit db)"
proof -
  from import_roundtrip [OF assms, of now] obtain db2 where
    r: "import_environment_inner U NoFault (Inr now) x replace db' = (Inr (), db2)" "db_ok U db2"
      "export_environment U None scope db2 = Inr x"
      "\<forall>p' e'. (p', e') \<noteq> (project_text U scope, environment_text U scope) \<longrightarrow> scope_view p' e' db2 = scope_view p' e' db'" by blast
  have "(if replace then import_environment U NoFault (Inr now) x (scope_environment scope) db'
      else seed_environment U NoFault (Inr now) x db') = (Inr (), db2)"
    using r(1) export_environment_Inr(1) [OF assms(3)]
    by (cases replace) (simp_all add: import_environment_def seed_environment_def)
  then show ?thesis
    using r(2-) export_environment_Inr(2) [OF assms(3)] export_environment_Inr(2) [OF r(3)]
    by (intro exI [of _ db2])
      (simp add: export_get_document [OF assms(1,2,3)] export_get_document [OF assms(1) r(2,3)]
        export_get_outbox [OF assms(1,2,3)] export_get_outbox [OF assms(1) r(2,3)]
        export_get_scheduled [OF assms(1,2,3)] export_get_scheduled [OF assms(1) r(2,3)]
        export_scan_index [OF assms(1,3)] export_scan_index [OF assms(1) r(3)]
        export_list_scheduled [OF assms(1,3)] export_list_scheduled [OF assms(1) r(3)])
qed

definition sample_export :: EnvironmentExportV1 where
  "sample_export =
     \<lparr>ex_format_version = 1, ex_scope = sample_scope, ex_commit_sequence = 1,
      ex_documents = [\<lparr>dr_table_id = 4, dr_document_id = 5, dr_revision = 1, dr_commit_sequence = 1,
        dr_created_at = 0, dr_updated_at = 0, dr_value = sample_value\<rparr>],
      ex_indexes = [\<lparr>ie_index_id = 6, ie_key = sample_key, ie_table_id = 4, ie_document_id = 5, ie_document_revision = 1,
        ie_commit_sequence = 1\<rparr>],
      ex_outbox = [\<lparr>xo_event_id = 7, xo_commit_sequence = 1, xo_created_at = 0, xo_payload = Null\<rparr>],
      ex_schedules = [\<lparr>si_id = 8, si_pinned_code = PinnedRelease 9, si_function = ''run'', si_args = Null, si_execute_at = 10,
        si_status = Pending, si_attempts = 0, si_lease_generation = 0, si_lease_owner = None, si_lease_until = None,
        si_idempotency_key = Some ''k'', si_last_error_code = None, si_commit_sequence = 1\<rparr>]\<rparr>"

lemma sample_exports: "export_environment sample_U None sample_scope sample_database = Inr sample_export"
proof (rule export_environment_InrI)
  show "validate_export sample_U sample_export = Inr ()"
    by (simp add: validate_export_def sample_export_def MAX_EXPORT_ROWS_PER_KIND_def check_exported_document_def
        check_exported_index_def check_exported_event_def check_exported_schedule_def encode_value_def sample_value_encodes null_encodes
        del: bindR_Inr mapR_Inr)
  show "begin_read sample_U sample_scope sample_database = Inr (ex_commit_sequence sample_export)"
    by (simp add: begin_read_def sample_database_def sql_find_def sequence_key_def positive_or_zero_u64_def sample_export_def)
  have ids: "parse_id sample_U p (resource_id_to_string sample_U p u) = Inr u" for p u by (rule parse_id_text [OF crockford_laws])
  have key: "index_key_decode sample_U (encoded sample_key) = Inr sample_key"
    using sample_key_ok index_key_decode_iff [OF crockford_laws] by (auto simp: index_key_ok_def)
  show "traverseR (decode_document_row sample_U) (scope_documents (project_text sample_U sample_scope) (environment_text sample_U sample_scope)
      (db_documents sample_database)) = Inr (ex_documents sample_export)"
    by (simp add: sample_database_def sample_document_row_def new_document_row_def sql_select_def decode_document_row_def ids
        sample_value_decodes positive_u64_def timestamp_def sample_export_def del: bindR_Inr mapR_Inr)
  show "traverseR (decode_index_row sample_U) (scope_indexes (project_text sample_U sample_scope) (environment_text sample_U sample_scope)
      (db_indexes sample_database)) = Inr (ex_indexes sample_export)"
    by (simp add: sample_database_def sql_select_def decode_index_row_def ids key positive_u64_def sample_export_def del: bindR_Inr mapR_Inr)
  show "traverseR (decode_exported_outbox sample_U) (scope_outbox (project_text sample_U sample_scope) (environment_text sample_U sample_scope)
      (db_outbox sample_database)) = Inr (ex_outbox sample_export)"
    by (simp add: sample_database_def sql_select_def sample_outbox_row_def decode_exported_outbox_def ids null_decodes positive_u64_def
        timestamp_def sample_export_def del: bindR_Inr mapR_Inr)
  have pinned: "pinned_code_from_str sample_U (pinned_code_to_string sample_U (PinnedRelease 9)) = Inr (PinnedRelease 9)"
    using pinned_code_from_str_Inr [OF crockford_laws] by simp
  have fn: "function_name_from_str ''run'' = Inr ''run''"
    by (simp add: function_name_from_str_def FUNCTION_NAME_MAX_BYTES_def function_name_tail_char_def ascii_defs)
  show "traverseR (decode_schedule_row sample_U) (scope_schedules (project_text sample_U sample_scope) (environment_text sample_U sample_scope)
      (db_schedules sample_database)) = Inr (ex_schedules sample_export)"
    by (simp add: sample_database_def sql_select_def sample_schedule_row_def decode_schedule_row_def ids null_decodes positive_u64_def fn
        timestamp_def sample_export_def decode_lease_owner_def pinned parse_status_def
        positive_or_zero_u32_def positive_or_zero_u64_def del: bindR_Inr mapR_Inr pinned_code_to_string.simps)
qed (simp_all add: sample_export_def)

theorem environment_export_roundtrip_witness:
  "\<exists>db2. seed_environment sample_U NoFault (Inr 5) sample_export empty_database = (Inr (), db2) \<and>
     export_environment sample_U None sample_scope db2 = Inr sample_export \<and>
     get_document sample_U sample_scope 4 5 db2 = Inr (Some \<lparr>dr_table_id = 4, dr_document_id = 5, dr_revision = 1,
       dr_commit_sequence = 1, dr_created_at = 0, dr_updated_at = 0, dr_value = sample_value\<rparr>)"
proof -
  have "False \<or> sql_find (\<lambda>r. sequence_key r = (project_text sample_U sample_scope, environment_text sample_U sample_scope))
      (db_sequences empty_database) = None" by (simp add: empty_database_def sql_find_def)
  from environment_export_roundtrip [OF crockford_laws sample_ok sample_exports empty_database_ok this, of 5] show ?thesis
    unfolding sample_get [symmetric] if_False by blast
qed

end
