(* ===== verification/Mutation_Recreate.thy ===== *)
theory Mutation_Recreate
  imports Mutation_Sample
begin

text \<open>
  What the condition of serializability excludes: between the snapshot of a Mutation and its commit
  another client deletes the document that was read and creates it again. Its revision is 1 again, so
  the read passes validation with another value behind it.
\<close>

definition delete_batch :: CommitBatch where
  "delete_batch =
     \<lparr>cb_scope = sample_scope, cb_operation_id = 31, cb_reads = [], cb_documents = [DeleteDocument 4 5 1],
      cb_indexes = [], cb_outbox = [], cb_schedules = [], cb_intent_context = None\<rparr>"

definition create_batch :: CommitBatch where
  "create_batch =
     \<lparr>cb_scope = sample_scope, cb_operation_id = 32, cb_reads = [], cb_documents = [Upsert 4 5 Absent Null],
      cb_indexes = [], cb_outbox = [], cb_schedules = [], cb_intent_context = None\<rparr>"

definition copy_program :: program where
  "copy_program = CallGet 4 5 (\<lambda>r. case r of
     Inr (Some doc) \<Rightarrow> CallInsert 4 6 (dd_value doc) (\<lambda>_. Return (Inr Null))
   | _ \<Rightarrow> Return (Inr Null))"

definition recreate_env :: "nat \<Rightarrow> attempt_env" where
  "recreate_env a =
     \<lparr>ae_program = copy_program, ae_others = [OpCommit NoFault (Inr 0) sample_batch], ae_io = [],
      ae_preload = (Proceeds, []), ae_close = Proceeds,
      ae_commit = (\<lambda>_. \<lparr>ce_others = [OpCommit NoFault (Inr 0) delete_batch, OpCommit NoFault (Inr 0) create_batch],
        ce_fault = NoFault, ce_clock = Inr 0\<rparr>)\<rparr>"

definition copy_buffered :: "CanonicalValue \<Rightarrow> BufferedMutation" where
  "copy_buffered v =
     \<lparr>bm_reads = [sample_read], bm_old_values = [((4, 5), Some v)], bm_writes = [Upsert 4 6 Absent v], bm_schedules = []\<rparr>"

definition copy_batch :: "CanonicalValue \<Rightarrow> CommitBatch" where
  "copy_batch v =
     \<lparr>cb_scope = sample_scope, cb_operation_id = 21, cb_reads = [sample_read], cb_documents = [Upsert 4 6 Absent v],
      cb_indexes = [], cb_outbox = [\<lparr>oa_event_id = 21, oa_payload = document_write_set_payload sample_U [sample_mutation] []\<rparr>],
      cb_schedules = [], cb_intent_context = None\<rparr>"

section \<open>The other client\<close>

abbreviation sample_p :: string where "sample_p \<equiv> project_text sample_U sample_scope"
abbreviation sample_e :: string where "sample_e \<equiv> environment_text sample_U sample_scope"

definition sequence_at :: "int \<Rightarrow> sequence_row" where
  "sequence_at n = \<lparr>ew_project = sample_p, ew_environment = sample_e, ew_commit_sequence = n\<rparr>"

definition deleted_database :: database where
  "deleted_database = sample_database\<lparr>db_sequences := [sequence_at 2],
     db_operations := db_operations sample_database @
       [operation_row_of sample_U delete_batch (batch_bytes sample_U delete_batch) 2 0],
     db_results := db_results sample_database @ [result_row_of sample_U sample_p sample_e (operation_text sample_U 31) 0
        \<lparr>drr_table_id = 4, drr_document_id = 5, drr_revision = None\<rparr>],
     db_documents := []\<rparr>"

definition recreated_row :: document_row where
  "recreated_row = new_document_row sample_U sample_p sample_e 4 5 3 0 null_bytes"

definition recreated_database :: database where
  "recreated_database = deleted_database\<lparr>db_sequences := [sequence_at 3],
     db_operations := db_operations deleted_database @
       [operation_row_of sample_U create_batch (batch_bytes sample_U create_batch) 3 0],
     db_results := db_results deleted_database @ [result_row_of sample_U sample_p sample_e (operation_text sample_U 32) 0
        \<lparr>drr_table_id = 4, drr_document_id = 5, drr_revision = Some 1\<rparr>],
     db_documents := [recreated_row]\<rparr>"

lemma recreate_typed: "batch_typed sample_U delete_batch" "batch_typed sample_U create_batch"
  by (simp_all add: batch_typed_def delete_batch_def create_batch_def)

lemma recreate_valid:
  "commit_batch_validate sample_U delete_batch = Inr ()" "commit_batch_validate sample_U create_batch = Inr ()"
  by (simp_all add: commit_batch_validate_def delete_batch_def create_batch_def batch_over_limits_def COMMIT_LIMITS_V1_def
      check_document_def payload_bytes_def add_value_def add_payload_def encode_value_def null_encodes checked_add_usize_def
      MAX_INTENT_CONTEXT_BYTES_def)

lemma recreate_digests:
  "commit_batch_digest sample_U sample_sha delete_batch = Inr (batch_bytes sample_U delete_batch)"
  "commit_batch_digest sample_U sample_sha create_batch = Inr (batch_bytes sample_U create_batch)"
  using digest_of_valid [OF crockford_laws recreate_typed(1) recreate_valid(1), of sample_sha]
    digest_of_valid [OF crockford_laws recreate_typed(2) recreate_valid(2), of sample_sha]
  by (simp_all add: sample_sha_def)

lemma operation_texts_differ: "u \<noteq> w \<Longrightarrow> operation_text sample_U u \<noteq> operation_text sample_U w"
  by (auto dest: id_inject [OF crockford_laws])

lemmas recreate_eval = transaction_def apply_commit_def load_operation_def validate_document_reads_def
  bump_sequence_def sql_update_returning_def sql_succ_def sequence_key_def operation_key_def
  sql_find_def Let_def positive_u64_def sql_insert_def record_document_def encode_value_def null_encodes positive_i64_def
  sql_insert_ignore_def document_key_def sequence_at_def sample_store_defs same_key_def result_key_def sql_delete_def

lemma delete_commit:
  "snd (store_commit sample_U sample_sha NoFault (Inr 0) delete_batch sample_database) = deleted_database"
  unfolding store_commit_def recreate_digests
  by (simp add: recreate_eval operation_texts_differ delete_batch_def sample_batch_def deleted_database_def
      del: bindR_Inr mapR_Inr)

lemma create_commit:
  "snd (store_commit sample_U sample_sha NoFault (Inr 0) create_batch deleted_database) = recreated_database"
  unfolding store_commit_def recreate_digests
  by (simp add: recreate_eval operation_texts_differ delete_batch_def create_batch_def sample_batch_def deleted_database_def
      recreated_database_def recreated_row_def del: bindR_Inr mapR_Inr)

section \<open>The Mutation\<close>

lemma copy_payload: "document_write_set_payload sample_U [Upsert 4 6 Absent v] [] =
    document_write_set_payload sample_U [sample_mutation] []"
  by (simp add: document_write_set_payload_def write_impact_def sample_mutation_def)

lemma recreated_get:
  "get_document sample_U sample_scope 4 5 recreated_database =
     Inr (Some \<lparr>dr_table_id = 4, dr_document_id = 5, dr_revision = 1, dr_commit_sequence = 3,
       dr_created_at = 0, dr_updated_at = 0, dr_value = Null\<rparr>)"
  using parse_id_text [OF crockford_laws, of "''tbl_''" 4] parse_id_text [OF crockford_laws, of "''doc_''" 5]
  by (simp add: get_document_def recreated_database_def recreated_row_def new_document_row_def sql_find_def
      document_key_def decode_document_row_def null_decodes positive_u64_def timestamp_def del: bindR_Inr mapR_Inr)

lemma recreated_snapshot:
  "open_snapshot sample_U sample_scope recreated_database = Inr \<lparr>snap_sequence = 3, snap_database = recreated_database\<rparr>"
  by (simp add: open_snapshot_def begin_read_def recreated_database_def sequence_at_def sql_find_def sequence_key_def
      positive_or_zero_u64_def del: bindR_Inr mapR_Inr)

lemmas copy_eval = run_attempt_def copy_program_def session_get_def mutation_state_new_def buffered_read_def
  ensure_session_snapshot_def sample_session_def next_io_def session_fetch_def
  record_corrupt_def remember_read_def data_document_def session_insert_def session_buffer_def
  mutation_key_def session_finish_def load_write_bases_def missing_bases_def awaited_def
  read_assertion_def copy_buffered_def sample_read_def Let_def MAX_DOCUMENT_READS_def MAX_DOCUMENT_WRITES_def

lemma copy_attempt:
  "run_attempt sample_U sample_sha sample_session copy_program [] (Proceeds, []) Proceeds sample_database =
     Inr (Null, copy_buffered sample_value)"
  "run_attempt sample_U sample_sha sample_session copy_program [] (Proceeds, []) Proceeds recreated_database =
     Inr (Null, copy_buffered Null)"
  using sample_value_encodes
  by (simp_all add: copy_eval sample_snapshot sample_get recreated_snapshot recreated_get null_encodes
      del: bindR_Inr mapR_Inr)

lemma copy_batch_typed: "value_ok v \<Longrightarrow> batch_typed sample_U (copy_batch v)"
  by (simp add: batch_typed_def copy_batch_def outbox_append_ok_def payload_ok [OF crockford_laws])

lemma copy_batch_valid:
  assumes "encode_stored_value sample_U v = Inr bs" and "length bs \<le> 100"
  shows "commit_batch_validate sample_U (copy_batch v) = Inr ()"
  using assms
  by (simp add: commit_batch_validate_def copy_batch_def batch_over_limits_def COMMIT_LIMITS_V1_def check_read_def
      sample_read_def check_document_def check_index_def check_event_def check_schedule_def payload_bytes_def add_value_def
      add_payload_def encode_value_def sample_payload_encodes checked_add_usize_def MAX_INTENT_CONTEXT_BYTES_def
      sample_payload_bytes_def sample_payload_length STORED_MAGIC_def)

lemma copy_attempt_batch:
  assumes "encode_stored_value sample_U v = Inr bs" and "length bs \<le> 100"
  shows "attempt_batch sample_U sample_scope 21 None (copy_buffered v) = Inr (copy_batch v)"
  using copy_batch_valid [OF assms]
  by (simp add: attempt_batch_def mutation_batch_def Let_def copy_buffered_def commit_batch_new_def push_outbox_def
      push_read_def push_document_def copy_batch_def copy_payload)

definition copy_result :: CommitResult where
  "copy_result =
     \<lparr>cr_commit_sequence = 4,
      cr_documents = [\<lparr>drr_table_id = 4, drr_document_id = 6, drr_revision = Some 1\<rparr>], cr_replayed = False\<rparr>"

lemma copy_commit:
  assumes "value_ok v" and "encode_stored_value sample_U v = Inr bs" and "length bs \<le> 100"
  shows "fst (store_commit sample_U sample_sha NoFault (Inr 0) (copy_batch v) recreated_database) = Inr copy_result"
proof -
  have d: "commit_batch_digest sample_U sample_sha (copy_batch v) = Inr (batch_bytes sample_U (copy_batch v))"
    using digest_of_valid [OF crockford_laws copy_batch_typed [OF assms(1)] copy_batch_valid [OF assms(2,3)], of sample_sha]
    by (simp add: sample_sha_def)
  show ?thesis
    unfolding store_commit_def d
    by (simp add: recreate_eval operation_texts_differ delete_batch_def create_batch_def sample_batch_def copy_batch_def
        deleted_database_def recreated_database_def recreated_row_def validate_document_read_def sample_read_def
        sample_texts apply_event_def outbox_key_def assms(2) sample_payload_encodes copy_result_def
        del: bindR_Inr mapR_Inr)
qed

definition copied_database :: "CanonicalValue \<Rightarrow> database" where
  "copied_database v = snd (store_commit sample_U sample_sha NoFault (Inr 0) (copy_batch v) recreated_database)"

lemma recreated_ok: "db_ok sample_U recreated_database"
proof -
  have "db_ok sample_U (run (store_step sample_U sample_sha)
      [OpCommit NoFault (Inr 0) delete_batch, OpCommit NoFault (Inr 0) create_batch] sample_database)"
    by (rule typed_run_ok [OF crockford_laws sample_ok]) (simp add: recreate_typed)
  then show ?thesis by (simp add: delete_commit create_commit)
qed

lemma copied_state:
  assumes "value_ok v" and "encode_stored_value sample_U v = Inr bs" and "length bs \<le> 100"
  shows "document_state sample_U sample_scope (4, 6) (copied_database v) = Inr (Some (1, 4, v))"
proof -
  have "store_commit sample_U sample_sha NoFault (Inr 0) (copy_batch v) recreated_database = (Inr copy_result, copied_database v)"
    using copy_commit [OF assms] by (simp add: copied_database_def prod_eq_iff)
  then obtain digest where a: "apply_commit sample_U (Inr 0) (copy_batch v) digest recreated_database = Inr (copy_result, copied_database v)"
    by (rule store_commit_Inr)
  have m: "Upsert 4 6 Absent v \<in> set (cb_documents (copy_batch v))" by (simp add: copy_batch_def)
  have "distinct (map mutation_key (cb_documents (copy_batch v)))" by (simp add: copy_batch_def)
  from commit_documents(2) [OF crockford_laws recreated_ok copy_batch_typed [OF assms(1)] this a _ m] show ?thesis
    by (simp add: copy_result_def copy_batch_def mutation_key_def)
qed

definition copy_outcome :: MutationOutcome where
  "copy_outcome = \<lparr>mo_value = Null, mo_commit_sequence = Some 4, mo_replayed = False, mo_attempts = 1\<rparr>"

lemma copy_execute:
  "execute_mutation sample_U sample_sha (\<lambda>_. 0) (\<lambda>_ _. None) None sample_request 21 recreate_env empty_database =
     (Inr copy_outcome, copied_database sample_value)"
proof -
  have enc: "encode_stored_value sample_U sample_value = Inr sample_bytes" "length sample_bytes \<le> 100"
    using sample_value_encodes by simp_all
  have db: "run (store_step sample_U sample_sha) (ae_others (recreate_env 1)) empty_database = sample_database"
    by (simp add: recreate_env_def sample_commit)
  have commit: "commit_exact sample_U sample_sha (copy_batch sample_value) (ae_commit (recreate_env 1)) sample_database =
      (Inr copy_result, copied_database sample_value)"
    using copy_commit [OF sample_value_ok enc]
    by (simp add: commit_exact_def MAX_ATTEMPTS_def numeral_3_eq_3 recreate_env_def delete_commit create_commit
        copied_database_def split_beta)
  have "execute_attempts MAX_ATTEMPTS sample_U sample_sha sample_session None recreate_env 1 empty_database =
      (Inr copy_outcome, copied_database sample_value)"
    unfolding MAX_ATTEMPTS_def numeral_3_eq_3 execute_attempts.simps(2) Let_def db
    using copy_attempt(1) copy_attempt_batch [OF enc] commit
    by (simp add: recreate_env_def sample_session_def copy_buffered_def mutation_outcome_of_def copy_result_def copy_outcome_def)
  then show ?thesis
    unfolding execute_mutation_def
    by (simp add: active_schema_def operation_time_micros_def select_mutation_def
        sample_request_def sample_session_def allowed_schedules_def del: bindR_Inr mapR_Inr)
qed

lemma copy_atomic:
  "atomic_mutation sample_U sample_sha sample_session None copy_program (Inr 0) recreated_database =
     (Inr (Null, Some 4), copied_database Null)"
proof -
  have "store_commit sample_U sample_sha NoFault (Inr 0) (copy_batch Null) recreated_database = (Inr copy_result, copied_database Null)"
    using copy_commit [of Null null_bytes] null_encodes by (simp add: copied_database_def prod_eq_iff)
  then show ?thesis
    using copy_attempt_batch [of Null null_bytes] null_encodes copy_attempt(2)
    by (simp add: atomic_mutation_def copy_buffered_def sample_session_def copy_result_def)
qed

end
