(* ===== verification/Execution_Properties.thy ===== *)
theory Execution_Properties
  imports Mutation_Recreate
begin

text \<open>Properties of the Mutation coordinator of \<open>runku-execution\<close> on the embedded store.\<close>

text \<open>
  C1 (Mutations are serializable): an execution that returns a value which it did not find as the result of an
  earlier commit of its operation is equivalent to its Function, as the last attempt ran it, running
  and committing in one atomic step. The step comes after exactly what the other clients did, in the
  order in which they did it: before the snapshot of each attempt, and between it and each of the at
  most three calls of commit that the attempt makes. The conditions are that the other clients neither
  remove documents of the environment nor reset it meanwhile, nor load an export (they may insert and
  change any document), and that the values and names the Function passes are values of their types.
\<close>

theorem mutation_serializable:
  assumes "ulid_laws U" and "db_ok U db" and "env_keeps U (rq_scope request) env"
    and "execute_mutation U sha256 timestamp_ms resource configured request op env db = (Inr outcome, db')"
    and "\<not> mo_replayed outcome"
  shows "\<exists>schema base ks clock. active_schema U sha256 resource configured request = Inr schema \<and>
    operation_time_micros timestamp_ms op = Inr base \<and>
    length ks = mo_attempts outcome \<and> list_all (\<lambda>k. k \<le> 3) ks \<and>
    atomic_mutation U sha256
      \<lparr>ses_scope = rq_scope request, ses_operation_id = op, ses_schedule_base = base,
       ses_pinned_code = rq_pinned_code request, ses_allowed_schedules = allowed_schedules request\<rparr>
      schema (ae_program (env (mo_attempts outcome))) clock (run (store_step U sha256) (interleaved env 1 ks) db) =
      (Inr (mo_value outcome, mo_commit_sequence outcome), db')"
proof -
  let ?ses = "\<lambda>base. \<lparr>ses_scope = rq_scope request, ses_operation_id = op, ses_schedule_base = base,
       ses_pinned_code = rq_pinned_code request, ses_allowed_schedules = allowed_schedules request\<rparr>"
  from assms(4) obtain schema base where s: "active_schema U sha256 resource configured request = Inr schema"
    "operation_time_micros timestamp_ms op = Inr base"
    "execute_attempts MAX_ATTEMPTS U sha256 (?ses base) schema env 1 db = (Inr outcome, db')"
    unfolding execute_mutation_def by (auto split: sum.splits)
  from execute_attempts_atomic [OF assms(1) _ s(3) assms(2,5)] assms(3) s(1,2) show ?thesis
    by (fastforce simp: MAX_ATTEMPTS_def)
qed

theorem mutation_serializable_witness:
  "\<exists>clock. atomic_mutation sample_U sample_sha sample_session None sample_program clock
      (store_step sample_U sample_sha (OpCommit NoFault (Inr 0) sample_batch) empty_database) =
      (Inr (Null, Some 2), sample_mutation_database)"
proof -
  have keeps: "env_keeps sample_U (rq_scope sample_request) sample_env"
    using sample_env_keeps by (simp add: sample_request_def)
  have "interleaved sample_env 1 [k] = [OpCommit NoFault (Inr 0) sample_batch]" for k
    by (simp add: sample_env_def commit_others_def)
  then show ?thesis
    using mutation_serializable [OF crockford_laws empty_database_ok keeps sample_execute]
    by (auto simp: sample_outcome_def sample_request_def sample_session_def allowed_schedules_def active_schema_def
        operation_time_micros_def length_Suc_conv sample_env_def simp del: interleaved.simps store_step.simps)
qed

text \<open>
  C23 (executions keep the database well-formed): whatever a Mutation does, fails or conflicts with,
  the store satisfies its invariant afterwards.
\<close>

theorem mutation_keeps_invariant:
  assumes "ulid_laws U" and "db_ok U db" and "env_typed U env"
  shows "db_ok U (snd (execute_mutation U sha256 timestamp_ms resource configured request op env db))"
  using execute_attempts_ok [OF assms(1,3,2)]
  by (auto simp: execute_mutation_def assms(2) split: sum.split)

theorem mutation_keeps_invariant_witness: "db_ok sample_U sample_mutation_database"
proof -
  have typed: "env_typed sample_U sample_env"
    using sample_env_keeps by (simp add: env_typed_def env_keeps_def keeps_documents_def)
  show ?thesis
    using mutation_keeps_invariant [OF crockford_laws empty_database_ok typed, of sample_sha "\<lambda>_. 0" "\<lambda>_ _. None" None
        sample_request 21] by (simp add: sample_execute)
qed

text \<open>C25 (attempts): a successful execution took between one and three attempts.\<close>

theorem mutation_attempts_bounded:
  assumes "execute_mutation U sha256 timestamp_ms resource configured request op env db = (Inr outcome, db')"
  shows "1 \<le> mo_attempts outcome \<and> mo_attempts outcome \<le> 3"
  using assms execute_attempts_bound [of MAX_ATTEMPTS]
  by (fastforce simp: execute_mutation_def MAX_ATTEMPTS_def split: sum.splits)

theorem mutation_attempts_bounded_witness: "1 \<le> mo_attempts sample_outcome \<and> mo_attempts sample_outcome \<le> 3"
  using mutation_attempts_bounded [OF sample_execute] .

text \<open>
  C24 (a recreated document defeats validation): without the condition of the first property
  serializability fails. While the Mutation copies document 5 to document 6, another client deletes
  document 5 and creates it again with another value. The Mutation commits the value of the deleted
  document, although at the moment of its commit an atomic run copies the new one.
\<close>

theorem recreated_document_not_serializable:
  "env_typed sample_U recreate_env \<and>
   execute_mutation sample_U sample_sha (\<lambda>_. 0) (\<lambda>_ _. None) None sample_request 21 recreate_env empty_database =
     (Inr copy_outcome, copied_database sample_value) \<and> \<not> mo_replayed copy_outcome \<and>
   document_state sample_U sample_scope (4, 6) (copied_database sample_value) = Inr (Some (1, 4, sample_value)) \<and>
   run (store_step sample_U sample_sha)
     (ae_others (recreate_env 1) @ ce_others (ae_commit (recreate_env 1) 0)) empty_database = recreated_database \<and>
   (\<exists>db'. atomic_mutation sample_U sample_sha sample_session None copy_program (Inr 0) recreated_database =
       (Inr (Null, Some 4), db') \<and>
     document_state sample_U sample_scope (4, 6) db' = Inr (Some (1, 4, Null)))"
proof -
  have "program_typed copy_program"
    by (auto simp: copy_program_def answer_ok_def split: sum.split option.split)
  then have "env_typed sample_U recreate_env"
    by (simp add: env_typed_def foreign_ops_def recreate_env_def sample_batch_typed recreate_typed)
  moreover have "document_state sample_U sample_scope (4, 6) (copied_database sample_value) = Inr (Some (1, 4, sample_value))"
    using copied_state [OF sample_value_ok] sample_value_encodes by simp
  moreover have "document_state sample_U sample_scope (4, 6) (copied_database Null) = Inr (Some (1, 4, Null))"
    using copied_state [of Null null_bytes] null_encodes by simp
  moreover have "run (store_step sample_U sample_sha)
     (ae_others (recreate_env 1) @ ce_others (ae_commit (recreate_env 1) 0)) empty_database = recreated_database"
    by (simp add: recreate_env_def sample_commit delete_commit create_commit)
  ultimately show ?thesis using copy_execute copy_atomic by (simp add: copy_outcome_def)
qed

end
