(* ===== verification/Scheduled_Worker.thy ===== *)
theory Scheduled_Worker
  imports Sqlite_Store Machine
begin

text \<open>
  The worker for scheduled invocations of \<open>runku-execution/src/scheduler.rs\<close>: a poll leases a batch of due
  invocations, executes them one after the other and records for each that it succeeded, is to be retried after
  a growing delay, or failed. The runner of an invocation is a trait the product implements; what it answers, what
  it and other clients do to the store meanwhile, and the clocks are inputs of a poll.
\<close>

section \<open>Configuration\<close>

text \<open>A \<open>Duration\<close> is its number of nanoseconds.\<close>

type_synonym duration = nat

definition as_micros :: "duration \<Rightarrow> nat" where
  "as_micros d = d div 1000"

record ScheduledWorkerConfig =
  wc_batch_limit :: u32
  wc_lease_micros :: u64
  wc_invocation_timeout :: duration
  wc_max_attempts :: u32
  wc_retry_base_micros :: u64
  wc_retry_max_micros :: u64

definition SCHEDULED_WORKER_PRODUCTION :: ScheduledWorkerConfig where
  "SCHEDULED_WORKER_PRODUCTION =
     \<lparr>wc_batch_limit = 1, wc_lease_micros = 330000000, wc_invocation_timeout = 300 * 10 ^ 9, wc_max_attempts = 10,
      wc_retry_base_micros = 1000000, wc_retry_max_micros = 300000000\<rparr>"

datatype ScheduledWorkerError =
  SwInvalidConfiguration | SwInvalidFailureCode | SwStorage StoreError | SwClockUnavailable

fun scheduled_worker_error_code :: "ScheduledWorkerError \<Rightarrow> string" where
  "scheduled_worker_error_code SwInvalidConfiguration = ''SCHEDULE_WORKER_CONFIGURATION_INVALID''"
| "scheduled_worker_error_code SwInvalidFailureCode = ''SCHEDULE_RUNNER_ERROR_CODE_INVALID''"
| "scheduled_worker_error_code (SwStorage err) = store_error_code err"
| "scheduled_worker_error_code SwClockUnavailable = ''SCHEDULE_CLOCK_UNAVAILABLE''"

fun scheduled_worker_error_retryable :: "ScheduledWorkerError \<Rightarrow> bool" where
  "scheduled_worker_error_retryable (SwStorage err) = store_error_retryable err"
| "scheduled_worker_error_retryable SwClockUnavailable = True"
| "scheduled_worker_error_retryable SwInvalidConfiguration = False"
| "scheduled_worker_error_retryable SwInvalidFailureCode = False"

definition scheduled_worker_config_validate :: "ScheduledWorkerConfig \<Rightarrow> ScheduledWorkerError + ScheduledWorkerConfig" where
  "scheduled_worker_config_validate c =
     (let timeout = as_micros (wc_invocation_timeout c);
          required_lease = timeout * unat (wc_batch_limit c) + 1000000 in
      if timeout \<ge> 2 ^ 64 \<or> required_lease \<ge> 2 ^ 64 then Inl SwInvalidConfiguration
      else if wc_batch_limit c = 0 \<or> wc_batch_limit c > 100 \<or> wc_invocation_timeout c = 0 \<or> wc_max_attempts c = 0
        \<or> wc_retry_base_micros c = 0 \<or> wc_retry_base_micros c > wc_retry_max_micros c
        \<or> unat (wc_lease_micros c) < required_lease
      then Inl SwInvalidConfiguration else Inr c)"

section \<open>The runner\<close>

record ScheduledRunFailure =
  srf_code :: string
  srf_retryable :: bool

definition scheduled_run_failure_new :: "string \<Rightarrow> bool \<Rightarrow> ScheduledWorkerError + ScheduledRunFailure" where
  "scheduled_run_failure_new code retryable =
     (if code = [] \<or> length code > 64 \<or>
         \<not> list_all (\<lambda>b. is_ascii_uppercase b \<or> is_ascii_digit b \<or> b = CHR ''_'') code
      then Inl SwInvalidFailureCode else Inr \<lparr>srf_code = code, srf_retryable = retryable\<rparr>)"

definition scheduled_run_failure_internal :: ScheduledRunFailure where
  "scheduled_run_failure_internal = \<lparr>srf_code = ''SCHEDULE_RUNNER_INTERNAL'', srf_retryable = False\<rparr>"

text \<open>
  The system clock: the time since the epoch, or nothing when the clock stands before the epoch.
\<close>

definition system_scheduler_clock_now :: "duration option \<Rightarrow> ScheduledWorkerError + TimestampMicros" where
  "system_scheduler_clock_now elapsed =
     bindR (ok_or SwClockUnavailable elapsed) (\<lambda>d.
       if as_micros d < 2 ^ 63 then Inr (timestamp (int (as_micros d))) else Inl SwClockUnavailable)"

section \<open>Results and counters\<close>

record ScheduledPollOutcome =
  spo_claimed :: u32
  spo_succeeded :: u32
  spo_retried :: u32
  spo_failed :: u32

definition saturating_succ_u32 :: "u32 \<Rightarrow> u32" where
  "saturating_succ_u32 n = (if n = - 1 then n else n + 1)"

record ScheduledWorkerTelemetry =
  swt_polls :: u64
  swt_claimed :: u64
  swt_executions :: u64
  swt_succeeded :: u64
  swt_retried :: u64
  swt_failed :: u64
  swt_timeouts :: u64
  swt_lease_lost :: u64
  swt_poll_failures :: u64
  swt_max_lag_micros :: u64

definition scheduled_telemetry_default :: ScheduledWorkerTelemetry where
  "scheduled_telemetry_default =
     \<lparr>swt_polls = 0, swt_claimed = 0, swt_executions = 0, swt_succeeded = 0, swt_retried = 0, swt_failed = 0,
      swt_timeouts = 0, swt_lease_lost = 0, swt_poll_failures = 0, swt_max_lag_micros = 0\<rparr>"

definition scheduled_observe_lag ::
    "TimestampMicros \<Rightarrow> ScheduledWorkerTelemetry \<Rightarrow> ScheduledInvocationRecord \<Rightarrow> ScheduledWorkerTelemetry" where
  "scheduled_observe_lag now t record =
     (let lag = max (- (2 ^ 63)) (min (2 ^ 63 - 1) (micros now - micros (si_execute_at record))) in
      t\<lparr>swt_max_lag_micros := max (swt_max_lag_micros t) (if lag < 0 then 0 else word_of_int lag)\<rparr>)"

section \<open>Retries\<close>

definition scheduled_retry_delay :: "ScheduledWorkerConfig \<Rightarrow> u32 \<Rightarrow> nat" where
  "scheduled_retry_delay config attempts =
     (let shift = min (unat attempts - 1) 63 in
      min (min (unat (wc_retry_base_micros config) * 2 ^ shift) (2 ^ 64 - 1)) (unat (wc_retry_max_micros config)))"

definition retry_or_fail ::
    "ScheduledWorkerConfig \<Rightarrow> ScheduledInvocationRecord \<Rightarrow> string \<Rightarrow> bool \<Rightarrow> TimestampMicros \<Rightarrow> ScheduledPollOutcome
     \<Rightarrow> ScheduledWorkerError + ScheduleCompletion \<times> ScheduledPollOutcome" where
  "retry_or_fail config record code retryable now outcome =
     (if retryable \<and> si_attempts record < wc_max_attempts config then
        let delay = scheduled_retry_delay config (si_attempts record);
            execute_at = micros now + int delay in
        if delay \<ge> 2 ^ 63 \<or> execute_at \<ge> 2 ^ 63 then Inl SwClockUnavailable
        else Inr (CompletionRetry (timestamp execute_at) code,
                  outcome\<lparr>spo_retried := saturating_succ_u32 (spo_retried outcome)\<rparr>)
      else Inr (CompletionFailed code, outcome\<lparr>spo_failed := saturating_succ_u32 (spo_failed outcome)\<rparr>))"

section \<open>Polling\<close>

record ScheduledWorker =
  wk_worker_id :: WorkerId
  wk_config :: ScheduledWorkerConfig

definition scheduled_worker_new :: "WorkerId \<Rightarrow> ScheduledWorkerConfig \<Rightarrow> ScheduledWorkerError + ScheduledWorker" where
  "scheduled_worker_new worker_id config =
     bindR (scheduled_worker_config_validate config) (\<lambda>config.
       Inr \<lparr>wk_worker_id = worker_id, wk_config = config\<rparr>)"

text \<open>
  The inputs of a poll. The executions of a poll are numbered from 0. Of an execution the poll sees its answer, or
  nothing when it timed out; \<open>we_others\<close> is what everyone, the executed Function included, does to the store until
  the completion of that execution is recorded.
\<close>

record worker_env =
  we_now :: "ScheduledWorkerError + TimestampMicros"
  we_claim_others :: "store_op list"
  we_claim_fault :: tx_fault
  we_execute :: "nat \<Rightarrow> ScheduledInvocationRecord \<Rightarrow> (ScheduledRunFailure + unit) option"
  we_others :: "nat \<Rightarrow> store_op list"
  we_clock :: "nat \<Rightarrow> ScheduledWorkerError + TimestampMicros"
  we_complete_fault :: "nat \<Rightarrow> tx_fault"
  we_complete_clock :: "nat \<Rightarrow> clock"

record worker_state =
  ws_database :: database
  ws_telemetry :: ScheduledWorkerTelemetry

definition execution_completion ::
    "ScheduledWorkerConfig \<Rightarrow> worker_env \<Rightarrow> nat \<Rightarrow> ScheduledInvocationRecord \<Rightarrow> ScheduledPollOutcome
     \<Rightarrow> ScheduledWorkerError + ScheduleCompletion \<times> ScheduledPollOutcome" where
  "execution_completion config env n record outcome =
     (case we_execute env n record of
        Some (Inr _) \<Rightarrow>
          Inr (CompletionSucceeded, outcome\<lparr>spo_succeeded := saturating_succ_u32 (spo_succeeded outcome)\<rparr>)
      | None \<Rightarrow>
          bindR (we_clock env n) (\<lambda>now.
            retry_or_fail config record ''SCHEDULE_EXECUTION_TIMEOUT'' True now outcome)
      | Some (Inl failure) \<Rightarrow>
          bindR (we_clock env n) (\<lambda>now.
            retry_or_fail config record (srf_code failure) (srf_retryable failure) now outcome))"

definition count_execution :: "worker_env \<Rightarrow> nat \<Rightarrow> ScheduledInvocationRecord \<Rightarrow> ScheduledWorkerTelemetry \<Rightarrow> ScheduledWorkerTelemetry" where
  "count_execution env n record t =
     t\<lparr>swt_executions := swt_executions t + 1,
       swt_timeouts := swt_timeouts t + (if we_execute env n record = None then 1 else 0)\<rparr>"

fun count_completion :: "ScheduleCompletion \<Rightarrow> ScheduledWorkerTelemetry \<Rightarrow> ScheduledWorkerTelemetry" where
  "count_completion CompletionSucceeded t = t\<lparr>swt_succeeded := swt_succeeded t + 1\<rparr>"
| "count_completion (CompletionRetry _ _) t = t\<lparr>swt_retried := swt_retried t + 1\<rparr>"
| "count_completion (CompletionFailed _) t = t\<lparr>swt_failed := swt_failed t + 1\<rparr>"

definition count_completion_error :: "StoreError \<Rightarrow> ScheduledWorkerTelemetry \<Rightarrow> ScheduledWorkerTelemetry" where
  "count_completion_error err t =
     (if err = LeaseLost then t\<lparr>swt_lease_lost := swt_lease_lost t + 1\<rparr>
      else t\<lparr>swt_poll_failures := swt_poll_failures t + 1\<rparr>)"

definition execute_record ::
    "ulid_crate \<Rightarrow> (bytes \<Rightarrow> bytes) \<Rightarrow> ScheduledWorker \<Rightarrow> worker_env \<Rightarrow> EnvironmentScope \<Rightarrow> nat \<Rightarrow> ScheduledInvocationRecord
     \<Rightarrow> ScheduledPollOutcome \<Rightarrow> worker_state \<Rightarrow> (ScheduledWorkerError + ScheduledPollOutcome) \<times> worker_state" where
  "execute_record U sha256 self env scope n record outcome s =
     (let s1 = \<lparr>ws_database = run (store_step U sha256) (we_others env n) (ws_database s),
                ws_telemetry = count_execution env n record (ws_telemetry s)\<rparr> in
      case execution_completion (wk_config self) env n record outcome of
        Inl err \<Rightarrow> (Inl err, s1)
      | Inr (completion, outcome') \<Rightarrow>
          (case complete_scheduled U (we_complete_fault env n) (we_complete_clock env n) scope (si_id record)
               (wk_worker_id self) (si_lease_generation record) completion (ws_database s1) of
             (Inl err, db) \<Rightarrow>
               (Inl (SwStorage err), \<lparr>ws_database = db, ws_telemetry = count_completion_error err (ws_telemetry s1)\<rparr>)
           | (Inr _, db) \<Rightarrow>
               (Inr outcome', \<lparr>ws_database = db, ws_telemetry = count_completion completion (ws_telemetry s1)\<rparr>)))"

fun execute_records ::
    "ulid_crate \<Rightarrow> (bytes \<Rightarrow> bytes) \<Rightarrow> ScheduledWorker \<Rightarrow> worker_env \<Rightarrow> EnvironmentScope \<Rightarrow> nat \<Rightarrow> ScheduledInvocationRecord list
     \<Rightarrow> ScheduledPollOutcome \<Rightarrow> worker_state \<Rightarrow> (ScheduledWorkerError + ScheduledPollOutcome) \<times> worker_state" where
  "execute_records U sha256 self env scope n [] outcome s = (Inr outcome, s)"
| "execute_records U sha256 self env scope n (record # records) outcome s =
     (case execute_record U sha256 self env scope n record outcome s of
        (Inl err, s') \<Rightarrow> (Inl err, s')
      | (Inr outcome', s') \<Rightarrow> execute_records U sha256 self env scope (Suc n) records outcome' s')"

definition scheduled_lease_until :: "ScheduledWorkerConfig \<Rightarrow> TimestampMicros \<Rightarrow> ScheduledWorkerError + TimestampMicros" where
  "scheduled_lease_until config now =
     (if unat (wc_lease_micros config) \<ge> 2 ^ 63 then Inl SwInvalidConfiguration
      else if micros now + uint (wc_lease_micros config) \<ge> 2 ^ 63 then Inl SwClockUnavailable
      else Inr (timestamp (micros now + uint (wc_lease_micros config))))"

definition count_claimed ::
    "TimestampMicros \<Rightarrow> ScheduledInvocationRecord list \<Rightarrow> ScheduledWorkerTelemetry \<Rightarrow> ScheduledWorkerTelemetry" where
  "count_claimed now claimed t =
     foldl (scheduled_observe_lag now)
       (t\<lparr>swt_claimed := swt_claimed t + (if length claimed < 2 ^ 64 then of_nat (length claimed) else - 1)\<rparr>) claimed"

definition scheduled_poll_once ::
    "ulid_crate \<Rightarrow> (bytes \<Rightarrow> bytes) \<Rightarrow> ScheduledWorker \<Rightarrow> worker_env \<Rightarrow> EnvironmentScope \<Rightarrow> worker_state
     \<Rightarrow> (ScheduledWorkerError + ScheduledPollOutcome) \<times> worker_state" where
  "scheduled_poll_once U sha256 self env scope s =
     (let t = (ws_telemetry s)\<lparr>swt_polls := swt_polls (ws_telemetry s) + 1\<rparr>;
          t_failed = t\<lparr>swt_poll_failures := swt_poll_failures t + 1\<rparr> in
      case we_now env of
        Inl err \<Rightarrow> (Inl err, s\<lparr>ws_telemetry := t_failed\<rparr>)
      | Inr now \<Rightarrow>
          (case scheduled_lease_until (wk_config self) now of
             Inl err \<Rightarrow> (Inl err, s\<lparr>ws_telemetry := t\<rparr>)
           | Inr lease_until \<Rightarrow>
               let db = run (store_step U sha256) (we_claim_others env) (ws_database s) in
               (case claim_due_scheduled U (we_claim_fault env) scope (wk_worker_id self) now lease_until
                    (wc_batch_limit (wk_config self)) db of
                  (Inl err, db1) \<Rightarrow> (Inl (SwStorage err), \<lparr>ws_database = db1, ws_telemetry = t_failed\<rparr>)
                | (Inr claimed, db1) \<Rightarrow>
                    execute_records U sha256 self env scope 0 claimed
                      \<lparr>spo_claimed = (if length claimed < 2 ^ 32 then of_nat (length claimed) else - 1),
                       spo_succeeded = 0, spo_retried = 0, spo_failed = 0\<rparr>
                      \<lparr>ws_database = db1, ws_telemetry = count_claimed now claimed t\<rparr>)))"

end
