(* ===== verification/Schedule_Steps.thy ===== *)
theory Schedule_Steps
  imports Sqlite_Delivery
begin

text \<open>
  What one operation of the store can do to one scheduled invocation: a claim leases it when it is due, a completion
  by the owner of its lease settles it, a cancellation ends it while it is pending, and nothing else changes it.
\<close>

section \<open>Claims\<close>

abbreviation schedule_row_of :: "ulid_crate \<Rightarrow> EnvironmentScope \<Rightarrow> ScheduledInvocationId \<Rightarrow> database \<Rightarrow> schedule_row option" where
  "schedule_row_of U scope i db \<equiv> fetch_schedule_row (project_text U scope) (environment_text U scope) (schedule_text U i) db"

lemma fetch_update:
  assumes "\<And>r. w r \<Longrightarrow> schedule_key (f r) = schedule_key r"
  shows "fetch_schedule_row p e j (db\<lparr>db_schedules := snd (sql_update w f (db_schedules db))\<rparr>) =
    map_option (\<lambda>r. if w r then f r else r) (fetch_schedule_row p e j db)"
  unfolding fetch_schedule_row_def using assms by (simp add: sql_find_update)

lemma fetch_key: "fetch_schedule_row p e i db = Some r \<Longrightarrow> schedule_key r = (p, e, i) \<and> r \<in> set (db_schedules db)"
  unfolding fetch_schedule_row_def by (drule sql_find_Some) simp

lemma claim_one_row:
  assumes "claim_one U p e w now until (rs, x) i = Inr (rs', y)"
  shows "fetch_schedule_row p e j y =
      map_option (\<lambda>r. if j = i then projr (claim_row w now until r) else r) (fetch_schedule_row p e j x)"
    and "fetch_schedule_row p e i x = Some r \<Longrightarrow> \<exists>s. claim_row w now until r = Inr s"
proof -
  from assms obtain rows t where
    u: "sql_update_returning (\<lambda>r. schedule_key r = (p, e, i)) (claim_row w now until) (db_schedules x) = Inr (rows, t)"
    and y: "y = x\<lparr>db_schedules := t\<rparr>" by (rule claim_one_cases)
  have t: "t = snd (sql_update (\<lambda>r. schedule_key r = (p, e, i)) (\<lambda>r. projr (claim_row w now until r)) (db_schedules x))"
    and ex: "\<And>r. r \<in> set (db_schedules x) \<Longrightarrow> schedule_key r = (p, e, i) \<Longrightarrow> \<exists>s. claim_row w now until r = Inr s"
    using u by (simp_all add: sql_update_returning_Inr)
  have "schedule_key (projr (claim_row w now until r)) = schedule_key r"
    if "r \<in> set (db_schedules x)" "schedule_key r = (p, e, i)" for r
    using ex [OF that] claim_row_fields(1) by force
  then have "fetch_schedule_row p e j y =
      map_option (\<lambda>r. if schedule_key r = (p, e, i) then projr (claim_row w now until r) else r) (fetch_schedule_row p e j x)"
    unfolding fetch_schedule_row_def y t by (simp add: sql_find_update)
  then show "fetch_schedule_row p e j y =
      map_option (\<lambda>r. if j = i then projr (claim_row w now until r) else r) (fetch_schedule_row p e j x)"
    by (cases "fetch_schedule_row p e j x") (auto dest: fetch_key)
  show "fetch_schedule_row p e i x = Some r \<Longrightarrow> \<exists>s. claim_row w now until r = Inr s"
    using ex fetch_key by blast
qed

lemma claims_row:
  assumes "foldR (claim_one U p e w now until) (rs, x) ids = Inr (rs', y)" and "distinct ids"
    and "fetch_schedule_row p e j x = Some r"
  shows "if j \<in> set ids then \<exists>s. claim_row w now until r = Inr s \<and> fetch_schedule_row p e j y = Some s
    else fetch_schedule_row p e j y = Some r"
  using assms
proof (induction ids arbitrary: rs x r)
  case (Cons i ids)
  from Cons.prems(1) obtain rs1 x1 where one: "claim_one U p e w now until (rs, x) i = Inr (rs1, x1)"
    and rest: "foldR (claim_one U p e w now until) (rs1, x1) ids = Inr (rs', y)" by auto
  note row = claim_one_row(1) [OF one, of j]
  show ?case
  proof (cases "j = i")
    case True
    then obtain s where s: "claim_row w now until r = Inr s" using claim_one_row(2) [OF one] Cons.prems(3) by blast
    then have "fetch_schedule_row p e j x1 = Some s" using row Cons.prems(3) True by simp
    from Cons.IH [OF rest _ this] s True Cons.prems(2) show ?thesis by simp
  next
    case False
    then have "fetch_schedule_row p e j x1 = Some r" using row Cons.prems(3) by simp
    from Cons.IH [OF rest _ this] False Cons.prems(2) show ?thesis by simp
  qed
qed simp

section \<open>The steps of an invocation\<close>

inductive schedule_row_step :: "ulid_crate \<Rightarrow> store_op \<Rightarrow> schedule_row \<Rightarrow> schedule_row \<Rightarrow> bool" for U where
  unchanged: "schedule_row_step U x r r"
| claimed: "schedule_key r = (project_text U scope, environment_text U scope, i) \<Longrightarrow> claimable (micros now) r \<Longrightarrow>
    claim_row (worker_text U w) (micros now) (micros lease) r = Inr s \<Longrightarrow>
    schedule_row_step U (OpClaimDue fault scope w now lease limit) r s"
| completed: "owns_lease U scope i w (uint g) r \<Longrightarrow>
    schedule_row_step U (OpComplete fault clock scope i w g completion) r (complete_row now completion r)"
| cancelled: "sw_status r = ''pending'' \<Longrightarrow>
    schedule_row_step U (OpCancel fault clock scope i) r (r\<lparr>sw_status := ''cancelled'', sw_updated_at := now\<rparr>)"

inductive_cases schedule_row_stepE [consumes 1, case_names unchanged claimed completed cancelled]: "schedule_row_step U x r s"

lemma commit_keeps_rows:
  assumes "apply_commit U clock b digest db = Inr (v, db')" and "fetch_schedule_row p e i db = Some r"
  shows "fetch_schedule_row p e i db' = Some r"
proof (cases "cr_replayed v")
  case True
  with assms show ?thesis by (auto elim!: apply_commit_cases)
next
  case False
  with assms(1) have "\<exists>xs. db_schedules db' = db_schedules db @ xs" by (rule apply_commit_effect) blast
  then obtain xs where xs: "db_schedules db' = db_schedules db @ xs" by blast
  have "sql_find w t = Some r \<Longrightarrow> sql_find w (t @ xs) = Some r" for w t by (induction t) (auto simp: sql_find_def)
  with assms(2) show ?thesis by (simp add: fetch_schedule_row_def xs)
qed

lemma claim_due_row:
  assumes "db_ok U db" and "claim_due_scheduled_tx U scope w now until limit db = Inr (v, db')"
    and "fetch_schedule_row (project_text U scope) (environment_text U scope) i db = Some r"
  shows "\<exists>s. fetch_schedule_row (project_text U scope) (environment_text U scope) i db' = Some s \<and>
    (s = r \<or> claimable (micros now) r \<and> claim_row (worker_text U w) (micros now) (micros until) r = Inr s)"
proof -
  let ?p = "project_text U scope" and ?e = "environment_text U scope"
  let ?ids = "due_ids ?p ?e (micros now) (unat limit) (db_schedules db)"
  have "claimable (micros now) r" if "i \<in> set ?ids"
    using due_ids_claimable [OF that] fetch_key [OF assms(3)] keyed_inj [OF schedules_keyed [OF assms(1)]] by metis
  with claims_row [OF _ due_ids_distinct [OF schedules_keyed [OF assms(1)]] assms(3)] assms(2) show ?thesis
    unfolding claim_due_scheduled_tx_def Let_def by (cases "i \<in> set ?ids") (fastforce, fastforce)
qed

lemma store_step_schedule_row:
  assumes "db_ok U db" and "\<not> resets U p e x" and "fetch_schedule_row p e i db = Some r"
  shows "\<exists>s. fetch_schedule_row p e i (store_step U sha256 x db) = Some s \<and> schedule_row_step U x r s"
proof (cases "store_step U sha256 x db = db")
  case True
  then show ?thesis using assms(3) schedule_row_step.unchanged by auto
next
  case changed: False
  have same: ?thesis if "fetch_schedule_row p e i (store_step U sha256 x db) = Some r"
    using that schedule_row_step.unchanged by blast
  show ?thesis
  proof (cases "(project_text U (op_scope x), environment_text U (op_scope x)) = (p, e)")
    case False
    have "fetch_schedule_row p e i (scope_view p e y) = fetch_schedule_row p e i y" for y
      unfolding scope_view_def fetch_schedule_row_def by (simp, subst sql_find_filter) (simp_all add: schedule_key_def)
    with store_step_frame [OF False] assms(3) show ?thesis by (intro same) metis
  next
    case here: True
    note key = fetch_key [OF assms(3)]
    from changed show ?thesis
    proof (cases rule: store_step_cases)
      case (1 b fault clock digest v)
      then show ?thesis using commit_keeps_rows assms(3) by (intro same) blast
    next
      case (2 fault scope c w now lease limit v)
      have "db_schedules (store_step U sha256 x db) = db_schedules db"
        using 2(2) by (rule claim_outbox_tx_cases) simp
      with assms(3) show ?thesis by (intro same) (simp add: fetch_schedule_row_def)
    next
      case (3 fault clock scope c w g through v)
      have "db_schedules (store_step U sha256 x db) = db_schedules db"
        using 3(2) unfolding ack_outbox_tx_Inr by auto
      with assms(3) show ?thesis by (intro same) (simp add: fetch_schedule_row_def)
    next
      case (4 fault scope w now lease limit v)
      with here claim_due_row [OF assms(1) 4(2), of i r] assms(3) key show ?thesis
        by (auto intro: schedule_row_step.intros)
    next
      case (5 fault clock scope j w g completion now)
      have "schedule_key (complete_row now completion r) = schedule_key r" for r
        by (cases completion) (simp_all add: schedule_key_def)
      with 5 show ?thesis
        using assms(3) fetch_update [of "owns_lease U scope j w (uint g)" "complete_row now completion" p e i db]
        by (cases "owns_lease U scope j w (uint g) r")
          (auto simp: complete_schedule_update_def split_beta Let_def intro: schedule_row_step.intros)
    next
      case (6 fault clock scope j v)
      let ?w = "\<lambda>r. schedule_key r = (project_text U scope, environment_text U scope, schedule_text U j) \<and> sw_status r = ''pending''"
      have "\<exists>now. store_step U sha256 x db = db\<lparr>db_schedules := snd (sql_update ?w
          (\<lambda>r. r\<lparr>sw_status := ''cancelled'', sw_updated_at := now\<rparr>) (db_schedules db))\<rparr>"
        using 6(2) [symmetric] by (auto simp: cancel_scheduled_tx_def Let_def split_beta bindR_def ok_or_def
            split: if_splits sum.splits option.splits)
      then obtain now where "store_step U sha256 x db = db\<lparr>db_schedules := snd (sql_update ?w
          (\<lambda>r. r\<lparr>sw_status := ''cancelled'', sw_updated_at := now\<rparr>) (db_schedules db))\<rparr>" by blast
      then show ?thesis
        using assms(3) fetch_update [of ?w "\<lambda>r. r\<lparr>sw_status := ''cancelled'', sw_updated_at := now\<rparr>" p e i db] 6(1)
        by (cases "?w r") (auto simp: schedule_key_def intro: schedule_row_step.intros)
    next
      case (7 fault scope confirmation)
      with here assms(2) show ?thesis by (simp add: resets_def)
    qed
  qed
qed

end
