(* ===== verification/Scheduled_Settle.thy ===== *)
theory Scheduled_Settle
  imports Scheduled_Worker Schedule_Steps
begin

text \<open>
  Why a poll of the worker settles every invocation it claims: the lease it takes outlasts the executions of the
  batch, so nobody else can claim an invocation before its own completion is recorded.
\<close>

section \<open>Leases of the worker\<close>

definition leased :: "ulid_crate \<Rightarrow> EnvironmentScope \<Rightarrow> WorkerId \<Rightarrow> int \<Rightarrow> ScheduledInvocationRecord \<Rightarrow> database \<Rightarrow> bool" where
  "leased U scope w until rec db \<longleftrightarrow>
     (\<exists>r. schedule_row_of U scope (si_id rec) db = Some r \<and>
        owns_lease U scope (si_id rec) w (uint (si_lease_generation rec)) r \<and> sw_lease_until r = Some until \<and>
        0 < sw_lease_generation r \<and> sw_lease_generation r \<le> i64_max)"

text \<open>
  What others may do without touching the lease: anything but claiming past its end, completing in the
  name of the worker, or resetting the Environment.
\<close>

fun respects_lease :: "EnvironmentScope \<Rightarrow> ScheduledInvocationId \<Rightarrow> WorkerId \<Rightarrow> int \<Rightarrow> store_op \<Rightarrow> bool" where
  "respects_lease scope i w until (OpClaimDue _ scope' _ now _ _) \<longleftrightarrow> scope' = scope \<longrightarrow> micros now < until"
| "respects_lease scope i w until (OpComplete _ _ scope' i' w' _ _) \<longleftrightarrow> scope' = scope \<longrightarrow> i' = i \<longrightarrow> w' \<noteq> w"
| "respects_lease scope i w until (OpReset _ scope' _) \<longleftrightarrow> scope' \<noteq> scope"
| "respects_lease scope i w until _ \<longleftrightarrow> True"

lemma respects_no_reset:
  "ulid_laws U \<Longrightarrow> respects_lease scope i w until x \<Longrightarrow> \<not> resets U (project_text U scope) (environment_text U scope) x"
  using scope_texts_inject [of U _ scope] by (cases x) (auto simp: resets_def)

lemma leased_step:
  assumes "ulid_laws U" and "db_ok U db" and "respects_lease scope (si_id rec) w until x" and "leased U scope w until rec db"
  shows "leased U scope w until rec (store_step U sha256 x db)"
proof -
  let ?p = "project_text U scope" and ?e = "environment_text U scope"
  from assms(4) obtain r where r: "schedule_row_of U scope (si_id rec) db = Some r"
    and own: "owns_lease U scope (si_id rec) w (uint (si_lease_generation rec)) r" and until: "sw_lease_until r = Some until"
    by (auto simp: leased_def)
  from store_step_schedule_row [OF assms(2) respects_no_reset [OF assms(1,3)] r] obtain s where
    s: "schedule_row_of U scope (si_id rec) (store_step U sha256 x db) = Some s" "schedule_row_step U x r s" by blast
  have key: "schedule_key r = (?p, ?e, schedule_text U (si_id rec))" using fetch_key [OF r] by simp
  from s(2) have "s = r"
  proof (cases rule: schedule_row_stepE)
    case (claimed scope' i now w' lease fault limit)
    then have "scope' = scope" using key scope_texts_inject [OF assms(1), of scope' scope] by simp
    with claimed assms(3) own until show ?thesis by (auto simp: claimable_def owns_lease_def)
  next
    case (completed scope' i w' g fault clock completion now)
    then have "scope' = scope" "i = si_id rec" "w' = w"
      using key own scope_texts_inject [OF assms(1), of scope' scope] id_inject [OF assms(1)]
      by (auto simp: owns_lease_def)
    with completed assms(3) show ?thesis by simp
  qed (use own in \<open>simp_all add: owns_lease_def\<close>)
  with s(1) r assms(4) show ?thesis by (simp add: leased_def)
qed

section \<open>Settled invocations\<close>

text \<open>
  An invocation that is to be retried waits for its time, unless someone claimed it anew since or it was cancelled.
\<close>

fun settled_row :: "int \<Rightarrow> ScheduleCompletion \<Rightarrow> schedule_row \<Rightarrow> bool" where
  "settled_row g CompletionSucceeded r \<longleftrightarrow> sw_status r = ''succeeded''"
| "settled_row g (CompletionFailed code) r \<longleftrightarrow> sw_status r = ''failed'' \<and> sw_last_error_code r = Some code"
| "settled_row g (CompletionRetry at code) r \<longleftrightarrow>
     g < sw_lease_generation r \<or>
     sw_lease_generation r = g \<and> (sw_status r = ''pending'' \<or> sw_status r = ''cancelled'') \<and>
       sw_execute_at r = micros at \<and> sw_last_error_code r = Some code"

definition settled :: "ulid_crate \<Rightarrow> EnvironmentScope \<Rightarrow> ScheduledInvocationRecord \<Rightarrow> ScheduleCompletion \<Rightarrow> database \<Rightarrow> bool" where
  "settled U scope rec completion db \<longleftrightarrow>
     (\<exists>r. schedule_row_of U scope (si_id rec) db = Some r \<and> settled_row (uint (si_lease_generation rec)) completion r)"

lemma settled_row_step:
  assumes "schedule_row_step U x r s" and "settled_row g completion r"
  shows "settled_row g completion s"
  using assms
proof (cases rule: schedule_row_stepE)
  case (claimed scope i now w lease fault limit)
  note fields = claim_row_fields(10) [OF claimed(4)]
  show ?thesis using claimed(3) assms(2) fields by (cases completion) (auto simp: claimable_def)
next
  case (completed scope i w g' fault clock completion' now)
  have "sw_lease_generation (complete_row now completion' r) = sw_lease_generation r" by (cases completion') simp_all
  with completed assms(2) show ?thesis by (cases completion) (auto simp: owns_lease_def)
next
  case (cancelled fault clock scope i now)
  with assms(2) show ?thesis by (cases completion) auto
qed simp

lemma settled_step:
  assumes "db_ok U db" and "\<not> resets U (project_text U scope) (environment_text U scope) x"
    and "settled U scope rec completion db"
  shows "settled U scope rec completion (store_step U sha256 x db)"
proof -
  from assms(3) obtain r where r: "schedule_row_of U scope (si_id rec) db = Some r"
    "settled_row (uint (si_lease_generation rec)) completion r" by (auto simp: settled_def)
  from store_step_schedule_row [OF assms(1,2) r(1)] settled_row_step [OF _ r(2)] show ?thesis
    unfolding settled_def by blast
qed

text \<open>The completion of an invocation whose lease the worker holds takes effect.\<close>

lemma complete_leased:
  assumes "db_ok U db" and "leased U scope w until rec db" and "validate_completion completion = Inr ()"
  shows "\<exists>db'. complete_scheduled U NoFault (Inr now) scope (si_id rec) w (si_lease_generation rec) completion db = (Inr (), db') \<and>
    db' = store_step U sha256 (OpComplete NoFault (Inr now) scope (si_id rec) w (si_lease_generation rec) completion) db \<and>
    settled U scope rec completion db'"
proof -
  let ?g = "si_lease_generation rec" and ?own = "owns_lease U scope (si_id rec) w (uint (si_lease_generation rec))"
  from assms(2) obtain r where r: "schedule_row_of U scope (si_id rec) db = Some r" "?own r"
    "0 < sw_lease_generation r" "sw_lease_generation r \<le> i64_max" by (auto simp: leased_def)
  have gen: "positive_i64 ?g = Inr (uint ?g)" using r(2-4) by (auto simp: positive_i64_Inr owns_lease_def)
  have "filter ?own (db_schedules db) = [r]"
    using filter_keyed [OF schedules_keyed [OF assms(1)], of r ?own] fetch_key [OF r(1)] r(2)
    by (auto simp: owns_lease_def)
  then have one: "fst (sql_update ?own (complete_row now completion) (db_schedules db)) = 1" by (simp add: sql_update_def)
  let ?db = "db\<lparr>db_schedules := snd (sql_update ?own (complete_row now completion) (db_schedules db))\<rparr>"
  have result: "complete_scheduled U NoFault (Inr now) scope (si_id rec) w ?g completion db = (Inr (), ?db)"
    using one by (simp add: complete_scheduled_def assms(3) gen transaction_def complete_schedule_update_def split_beta)
  have "schedule_key (complete_row now completion q) = schedule_key q" for q
    by (cases completion) (simp_all add: schedule_key_def)
  then have "schedule_row_of U scope (si_id rec) ?db = Some (complete_row now completion r)"
    using r(1,2) by (simp add: fetch_update)
  then have "settled U scope rec completion ?db"
    using r(2) unfolding settled_def by (cases completion) (auto simp: owns_lease_def)
  with result show ?thesis by simp
qed

end
