(* ===== verification/Scheduled_Poll.thy ===== *)
theory Scheduled_Poll
  imports Scheduled_Settle
begin

text \<open>
  A poll of the worker from the claim to the last completion: every record it claims is leased until its own
  completion, which records what the policy of the worker decides from the answer of the runner.
\<close>

section \<open>The claim\<close>

lemma claim_generation:
  assumes "db_ok U db" and "claim_due_scheduled_tx U scope w now until limit db = Inr (recs, db')"
    and "list_all2 (runs_for U w)
      (due_ids (project_text U scope) (environment_text U scope) (micros now) (unat limit) (db_schedules db)) recs"
    and "rec \<in> set recs"
  obtains r s where "schedule_row_of U scope (si_id rec) db = Some r"
    and "claim_row (worker_text U w) (micros now) (micros until) r = Inr s" and "schedule_row_of U scope (si_id rec) db' = Some s"
    and "uint (si_lease_generation rec) = sw_lease_generation s" and "0 \<le> sw_lease_generation r"
    and "sw_lease_generation r = sw_attempts r"
proof -
  let ?p = "project_text U scope" and ?e = "environment_text U scope" and ?i = "schedule_text U (si_id rec)"
  let ?ids = "due_ids ?p ?e (micros now) (unat limit) (db_schedules db)"
  note keyed = schedules_keyed [OF assms(1)]
  from assms(3,4) have i: "?i \<in> set ?ids"
    by (induction rule: list_all2_induct) (auto simp: runs_for_def)
  from due_ids_claimable [OF this] obtain r where r: "schedule_row_of U scope (si_id rec) db = Some r"
    using sql_find_key [OF keyed] unfolding fetch_schedule_row_def by blast
  with claims_row [OF _ due_ids_distinct [OF keyed] r] assms(2) i obtain s where
    s: "claim_row (worker_text U w) (micros now) (micros until) r = Inr s" "schedule_row_of U scope (si_id rec) db' = Some s"
    unfolding claim_due_scheduled_tx_def Let_def by fastforce
  have "schedule_row_ok U (sequence_of (db_sequences db)) r"
    using assms(1) fetch_key [OF r] by (simp add: db_ok_def tables_ok_def table_ok_def)
  then have "0 \<le> sw_lease_generation r" "sw_lease_generation r = sw_attempts r"
    by (auto simp: schedule_row_ok_def decode_schedule_row_def positive_or_zero_u64_Inr)
  moreover have "uint (si_lease_generation rec) = sw_lease_generation s"
    using claim_due_leases [OF assms(1,2,4)] r s(2) claim_row_fields(10) [OF s(1)] by (simp add: lease_at_def)
  ultimately show thesis using that r s by blast
qed

lemma claim_leases:
  assumes "db_ok U db" and "claim_due_scheduled_tx U scope w now until limit db = Inr (recs, db')"
    and "list_all2 (runs_for U w)
      (due_ids (project_text U scope) (environment_text U scope) (micros now) (unat limit) (db_schedules db)) recs"
    and "rec \<in> set recs"
  shows "leased U scope w (micros until) rec db'"
  using assms
proof (rule claim_generation)
  fix r s
  assume s: "claim_row (worker_text U w) (micros now) (micros until) r = Inr s" "schedule_row_of U scope (si_id rec) db' = Some s"
    and gen: "uint (si_lease_generation rec) = sw_lease_generation s" "0 \<le> sw_lease_generation r"
  have "sw_lease_generation s \<le> i64_max" using s(1) by (auto simp: claim_row_def sql_succ_def split: if_splits)
  then show ?thesis
    using s(2) gen fetch_key [OF s(2)] claim_row_fields(6-8,10) [OF s(1)] by (simp add: leased_def owns_lease_def)
qed

text \<open>The rows a claim selects and the records it returns for them.\<close>

definition due_rows :: "string \<Rightarrow> string \<Rightarrow> int \<Rightarrow> schedule_row list \<Rightarrow> schedule_row list" where
  "due_rows p e now t =
     sql_select (\<lambda>r. sw_project r = p \<and> sw_environment r = e \<and> claimable now r) (\<lambda>r. (sw_execute_at r, sw_scheduled r)) t"

definition claimed_from :: "ulid_crate \<Rightarrow> schedule_row \<Rightarrow> ScheduledInvocationRecord \<Rightarrow> bool" where
  "claimed_from U r rec \<longleftrightarrow> schedule_text U (si_id rec) = sw_scheduled r \<and> uint (si_attempts rec) = sw_attempts r + 1"

lemma due_ids_rows: "due_ids p e now n t = map sw_scheduled (take n (due_rows p e now t))"
  by (simp add: due_ids_def due_rows_def)

lemma claim_claimed_from:
  assumes "db_ok U db" and "claim_due_scheduled_tx U scope w now until limit db = Inr (recs, db')"
    and runs: "list_all2 (runs_for U w)
      (due_ids (project_text U scope) (environment_text U scope) (micros now) (unat limit) (db_schedules db)) recs"
  shows "list_all2 (claimed_from U)
    (take (unat limit) (due_rows (project_text U scope) (environment_text U scope) (micros now) (db_schedules db))) recs"
  using runs unfolding due_ids_rows list_all2_map1
proof (rule list.rel_mono_strong)
  let ?p = "project_text U scope" and ?e = "environment_text U scope"
  fix q rec
  assume q: "q \<in> set (take (unat limit) (due_rows ?p ?e (micros now) (db_schedules db)))"
    and rec: "rec \<in> set recs" "runs_for U w (sw_scheduled q) rec"
  from assms rec(1) show "claimed_from U q rec"
  proof (rule claim_generation)
    fix r s
    assume r: "schedule_row_of U scope (si_id rec) db = Some r" "sw_lease_generation r = sw_attempts r"
      and s: "claim_row (worker_text U w) (micros now) (micros until) r = Inr s" "uint (si_lease_generation rec) = sw_lease_generation s"
    from q have "q \<in> set (db_schedules db)" "schedule_key q = (?p, ?e, sw_scheduled q)"
      by (auto simp: due_rows_def schedule_key_def dest: in_set_takeD)
    then have "q = r"
      using fetch_key [OF r(1)] rec(2) keyed_inj [OF schedules_keyed [OF assms(1)]] by (simp add: runs_for_def)
    then show ?thesis
      using rec(2) r(2) s(2) claim_row_fields(10) [OF s(1)] by (simp add: claimed_from_def runs_for_def)
  qed
qed

lemma claimed_distinct:
  assumes "db_ok U db" and "list_all2 (runs_for U w) (due_ids p e now limit (db_schedules db)) recs"
  shows "distinct (map si_id recs)" and "length recs \<le> limit"
proof -
  have ids: "map (\<lambda>rec. schedule_text U (si_id rec)) recs = due_ids p e now limit (db_schedules db)"
    using assms(2) by (induction rule: list_all2_induct) (auto simp: runs_for_def)
  then have "distinct (map (schedule_text U) (map si_id recs))"
    using due_ids_distinct [OF schedules_keyed [OF assms(1)]] by (simp add: comp_def)
  then show "distinct (map si_id recs)" by (simp only: distinct_map)
  show "length recs \<le> limit" using arg_cong [OF ids, of length] by (simp add: due_ids_def)
qed

section \<open>What the policy decides\<close>

definition failed_completion ::
    "ScheduledWorkerConfig \<Rightarrow> ScheduledInvocationRecord \<Rightarrow> string \<Rightarrow> bool \<Rightarrow> TimestampMicros \<Rightarrow> ScheduleCompletion" where
  "failed_completion config rec code retryable now =
     (if retryable \<and> si_attempts rec < wc_max_attempts config
      then CompletionRetry (timestamp (micros now +
        int (min (unat (wc_retry_base_micros config) * 2 ^ (unat (si_attempts rec) - 1)) (unat (wc_retry_max_micros config))))) code
      else CompletionFailed code)"

definition completion_for ::
    "ScheduledWorkerConfig \<Rightarrow> (ScheduledRunFailure + unit) option \<Rightarrow> TimestampMicros \<Rightarrow> ScheduledInvocationRecord
     \<Rightarrow> ScheduleCompletion" where
  "completion_for config answer now rec =
     (case answer of
        Some (Inr _) \<Rightarrow> CompletionSucceeded
      | Some (Inl failure) \<Rightarrow> failed_completion config rec (srf_code failure) (srf_retryable failure) now
      | None \<Rightarrow> failed_completion config rec ''SCHEDULE_EXECUTION_TIMEOUT'' True now)"

fun count_outcome :: "ScheduleCompletion \<Rightarrow> ScheduledPollOutcome \<Rightarrow> ScheduledPollOutcome" where
  "count_outcome CompletionSucceeded o1 = o1\<lparr>spo_succeeded := saturating_succ_u32 (spo_succeeded o1)\<rparr>"
| "count_outcome (CompletionRetry _ _) o1 = o1\<lparr>spo_retried := saturating_succ_u32 (spo_retried o1)\<rparr>"
| "count_outcome (CompletionFailed _) o1 = o1\<lparr>spo_failed := saturating_succ_u32 (spo_failed o1)\<rparr>"

lemma unat_less_2_63: "uint (x :: u64) < 2 ^ 63 \<Longrightarrow> unat x < 2 ^ 63"
  by (simp only: nat_int_comparison(2) of_nat_power of_nat_numeral uint_nat)

lemma capped_delay:
  assumes "scheduled_worker_config_validate config = Inr config" and "uint (wc_retry_max_micros config) < 2 ^ 63"
  shows "scheduled_retry_delay config attempts =
    min (unat (wc_retry_base_micros config) * 2 ^ (unat attempts - 1)) (unat (wc_retry_max_micros config))"
proof -
  let ?b = "unat (wc_retry_base_micros config)" and ?m = "unat (wc_retry_max_micros config)" and ?k = "unat attempts - 1"
  have b: "0 < ?b" using assms(1) by (auto simp: scheduled_worker_config_validate_def Let_def unat_gt_0 split: if_splits)
  have m: "?m < 2 ^ 63" by (rule unat_less_2_63 [OF assms(2)])
  show ?thesis
  proof (cases "?k \<le> 63")
    case True
    then show ?thesis using m by (auto simp: scheduled_retry_delay_def Let_def min_def)
  next
    case False
    have "(2 :: nat) ^ 63 \<le> 2 ^ ?k" using False by (intro power_increasing) auto
    with b have "2 ^ 63 \<le> ?b * 2 ^ ?k" "2 ^ 63 \<le> ?b * 2 ^ 63" by (simp_all add: order_trans mult_le_mono)
    with m False show ?thesis by (simp add: scheduled_retry_delay_def min_def)
  qed
qed

lemma retry_or_fail_policy:
  assumes "scheduled_worker_config_validate config = Inr config" and "uint (wc_retry_max_micros config) < 2 ^ 63"
    and "micros now + uint (wc_retry_max_micros config) < 2 ^ 63"
  shows "retry_or_fail config rec code retryable now o1 =
    Inr (failed_completion config rec code retryable now, count_outcome (failed_completion config rec code retryable now) o1)"
proof -
  let ?d = "scheduled_retry_delay config (si_attempts rec)"
  have "?d \<le> unat (wc_retry_max_micros config)" by (simp add: scheduled_retry_delay_def Let_def)
  moreover have "unat (wc_retry_max_micros config) < 2 ^ 63" by (rule unat_less_2_63 [OF assms(2)])
  moreover have "int (unat (wc_retry_max_micros config)) = uint (wc_retry_max_micros config)" by simp
  ultimately have "?d < 2 ^ 63" "micros now + int ?d < 2 ^ 63" using assms(3) by linarith+
  then show ?thesis
    unfolding retry_or_fail_def failed_completion_def capped_delay [OF assms(1,2), symmetric] by simp
qed

lemma execution_policy:
  assumes "scheduled_worker_config_validate config = Inr config" and "uint (wc_retry_max_micros config) < 2 ^ 63"
    and "we_clock env n = Inr now" and "micros now + uint (wc_retry_max_micros config) < 2 ^ 63"
  shows "execution_completion config env n rec o1 =
    Inr (completion_for config (we_execute env n rec) now rec,
         count_outcome (completion_for config (we_execute env n rec) now rec) o1)"
  by (simp add: execution_completion_def completion_for_def assms(3) retry_or_fail_policy [OF assms(1,2,4)] bindR_def
      split: option.split sum.split)

text \<open>The codes of failures that runners can construct are codes the store accepts.\<close>

definition run_failure_ok :: "ScheduledRunFailure \<Rightarrow> bool" where
  "run_failure_ok f \<longleftrightarrow> scheduled_run_failure_new (srf_code f) (srf_retryable f) = Inr f"

lemma completion_valid:
  assumes "\<And>f. answer = Some (Inl f) \<Longrightarrow> run_failure_ok f"
  shows "validate_completion (completion_for config answer now rec) = Inr ()"
proof -
  have code: "validate_completion (failed_completion config rec code retryable now) = Inr ()"
    if "validate_error_code code = Inr ()" for code retryable
    using that by (simp add: failed_completion_def)
  have "validate_error_code ''SCHEDULE_EXECUTION_TIMEOUT'' = Inr ()" by code_simp
  moreover have "validate_error_code (srf_code f) = Inr ()" if "run_failure_ok f" for f
    using that by (auto simp: run_failure_ok_def scheduled_run_failure_new_def validate_error_code_def failR_def split: if_splits)
  ultimately show ?thesis
    using assms by (auto simp: completion_for_def code split: option.split sum.split)
qed

section \<open>The loop over the claimed records\<close>

text \<open>
  What others do during the executions. Their clock at the end of the \<open>n\<close>-th execution is at most the time of the
  claim plus the executions so far, each cut off at its timeout, and less than a second for everything else.
\<close>

definition elapsed_bound :: "ScheduledWorkerConfig \<Rightarrow> TimestampMicros \<Rightarrow> nat \<Rightarrow> int" where
  "elapsed_bound config now n = micros now + int (Suc n * as_micros (wc_invocation_timeout config)) + 1000000"

definition others_within ::
    "ulid_crate \<Rightarrow> ScheduledWorker \<Rightarrow> EnvironmentScope \<Rightarrow> TimestampMicros \<Rightarrow> nat \<Rightarrow> store_op \<Rightarrow> bool" where
  "others_within U self scope now n x \<longleftrightarrow>
     op_typed U x \<and> (\<forall>i. respects_lease scope i (wk_worker_id self) (elapsed_bound (wk_config self) now n) x)"

definition env_in_time :: "ulid_crate \<Rightarrow> ScheduledWorker \<Rightarrow> EnvironmentScope \<Rightarrow> TimestampMicros \<Rightarrow> worker_env \<Rightarrow> nat \<Rightarrow> bool" where
  "env_in_time U self scope now env n \<longleftrightarrow>
     list_all (others_within U self scope now n) (we_others env n) \<and>
     we_complete_fault env n = NoFault \<and> (\<exists>t. we_complete_clock env n = Inr t) \<and>
     (\<exists>t. we_clock env n = Inr t \<and> micros t + uint (wc_retry_max_micros (wk_config self)) < 2 ^ 63) \<and>
     (\<forall>rec f. we_execute env n rec = Some (Inl f) \<longrightarrow> run_failure_ok f)"

lemma respects_later: "respects_lease scope i w until x \<Longrightarrow> until \<le> until' \<Longrightarrow> respects_lease scope i w until' x"
  by (cases x) auto

lemma others_keep_lease:
  assumes "ulid_laws U" and "list_all (others_within U self scope now n) xs"
    and "elapsed_bound (wk_config self) now n \<le> until" and "db_ok U db"
  shows "db_ok U (run (store_step U sha256) xs db)"
    and "leased U scope (wk_worker_id self) until rec db \<Longrightarrow>
      leased U scope (wk_worker_id self) until rec (run (store_step U sha256) xs db)"
    and "settled U scope rec completion db \<Longrightarrow> settled U scope rec completion (run (store_step U sha256) xs db)"
proof -
  have "db_ok U (run (store_step U sha256) xs db) \<and>
    (leased U scope (wk_worker_id self) until rec db \<longrightarrow>
      leased U scope (wk_worker_id self) until rec (run (store_step U sha256) xs db)) \<and>
    (settled U scope rec completion db \<longrightarrow> settled U scope rec completion (run (store_step U sha256) xs db))"
    using assms(2,4)
  proof (induction xs arbitrary: db)
    case (Cons x xs)
    from Cons.prems have x: "op_typed U x" "\<And>i. respects_lease scope i (wk_worker_id self) until x"
      using respects_later [OF _ assms(3)] by (auto simp: others_within_def)
    have xs: "list_all (others_within U self scope now n) xs" using Cons.prems(1) by simp
    note ok = store_step_ok [OF assms(1) x(1) Cons.prems(2)]
    from Cons.IH [OF xs ok] leased_step [OF assms(1) Cons.prems(2) x(2)]
      settled_step [OF Cons.prems(2) respects_no_reset [OF assms(1) x(2)]] show ?case by auto
  qed simp
  then show "db_ok U (run (store_step U sha256) xs db)"
    "leased U scope (wk_worker_id self) until rec db \<Longrightarrow>
      leased U scope (wk_worker_id self) until rec (run (store_step U sha256) xs db)"
    "settled U scope rec completion db \<Longrightarrow> settled U scope rec completion (run (store_step U sha256) xs db)"
    by blast+
qed

definition completion_at :: "ScheduledWorker \<Rightarrow> worker_env \<Rightarrow> nat \<Rightarrow> ScheduledInvocationRecord \<Rightarrow> ScheduleCompletion" where
  "completion_at self env n rec = completion_for (wk_config self) (we_execute env n rec) (projr (we_clock env n)) rec"

definition config_ok :: "ScheduledWorkerConfig \<Rightarrow> bool" where
  "config_ok config \<longleftrightarrow> scheduled_worker_config_validate config = Inr config \<and> uint (wc_retry_max_micros config) < 2 ^ 63"

lemma execute_record_settles:
  assumes laws: "ulid_laws U" and config: "config_ok (wk_config self)" and env: "env_in_time U self scope now env n"
    and until: "elapsed_bound (wk_config self) now n \<le> until" and ok: "db_ok U (ws_database s)"
    and lease: "leased U scope (wk_worker_id self) until rec (ws_database s)"
  shows "\<exists>s'. execute_record U sha256 self env scope n rec o1 s = (Inr (count_outcome (completion_at self env n rec) o1), s') \<and>
    db_ok U (ws_database s') \<and> settled U scope rec (completion_at self env n rec) (ws_database s') \<and>
    (\<forall>rec'. si_id rec' \<noteq> si_id rec \<and> leased U scope (wk_worker_id self) until rec' (ws_database s) \<longrightarrow>
      leased U scope (wk_worker_id self) until rec' (ws_database s')) \<and>
    (\<forall>rec' c. settled U scope rec' c (ws_database s) \<longrightarrow> settled U scope rec' c (ws_database s'))"
proof -
  let ?db = "run (store_step U sha256) (we_others env n) (ws_database s)" and ?c = "completion_at self env n rec"
  from env obtain t u where xs: "list_all (others_within U self scope now n) (we_others env n)"
    and clock: "we_complete_fault env n = NoFault" "we_complete_clock env n = Inr t"
      "we_clock env n = Inr u" "micros u + uint (wc_retry_max_micros (wk_config self)) < 2 ^ 63"
    and codes: "\<And>f. we_execute env n rec = Some (Inl f) \<Longrightarrow> run_failure_ok f"
    unfolding env_in_time_def by blast
  note keep = others_keep_lease [OF laws xs until ok]
  have policy: "execution_completion (wk_config self) env n rec o1 = Inr (?c, count_outcome ?c o1)"
    using execution_policy [of "wk_config self" env n u rec o1] config clock
    by (simp add: config_ok_def completion_at_def)
  have valid: "validate_completion ?c = Inr ()" unfolding completion_at_def by (rule completion_valid) (rule codes)
  let ?x = "OpComplete NoFault (Inr t) scope (si_id rec) (wk_worker_id self) (si_lease_generation rec) ?c"
  let ?db' = "store_step U sha256 ?x ?db"
  from complete_leased [OF keep(1) keep(2) [OF lease] valid, of t sha256] have
    comp: "complete_scheduled U NoFault (Inr t) scope (si_id rec) (wk_worker_id self) (si_lease_generation rec) ?c ?db = (Inr (), ?db')"
    and settled: "settled U scope rec ?c ?db'" by auto
  have step: "db_ok U ?db'" by (rule store_step_ok [OF laws _ keep(1)]) simp
  have others: "leased U scope (wk_worker_id self) until rec' ?db'"
    if "si_id rec' \<noteq> si_id rec" "leased U scope (wk_worker_id self) until rec' (ws_database s)" for rec'
    by (rule leased_step [OF laws keep(1) _ keep(2) [OF that(2)]]) (use that(1) in simp)
  have "settled U scope rec' c ?db'" if "settled U scope rec' c (ws_database s)" for rec' c
    by (rule settled_step [OF keep(1) _ keep(3) [OF that]]) (simp add: resets_def)
  with policy comp clock(1,2) step settled others show ?thesis
    by (simp add: execute_record_def Let_def del: store_step.simps)
qed

lemma execute_records_settle:
  assumes laws: "ulid_laws U" and config: "config_ok (wk_config self)"
    and env: "\<And>m. m < n + length recs \<Longrightarrow> env_in_time U self scope now env m"
    and until: "\<And>m. m < n + length recs \<Longrightarrow> elapsed_bound (wk_config self) now m \<le> until"
    and "db_ok U (ws_database s)" and "distinct (map si_id recs)"
    and "\<And>rec. rec \<in> set recs \<Longrightarrow> leased U scope (wk_worker_id self) until rec (ws_database s)"
  shows "\<exists>s'. execute_records U sha256 self env scope n recs o1 s =
      (Inr (fold (\<lambda>(m, rec). count_outcome (completion_at self env m rec)) (enumerate n recs) o1), s') \<and>
    db_ok U (ws_database s') \<and>
    (\<forall>m < length recs. settled U scope (recs ! m) (completion_at self env (n + m) (recs ! m)) (ws_database s')) \<and>
    (\<forall>rec' c. settled U scope rec' c (ws_database s) \<longrightarrow> settled U scope rec' c (ws_database s'))"
  using env until assms(5-)
proof (induction recs arbitrary: n o1 s)
  case (Cons rec recs)
  have "env_in_time U self scope now env n" "elapsed_bound (wk_config self) now n \<le> until" using Cons.prems(1,2) by simp_all
  from execute_record_settles [OF laws config this Cons.prems(3) Cons.prems(5) [OF list.set_intros(1)], of sha256 o1]
  obtain s1 where s1: "execute_record U sha256 self env scope n rec o1 s = (Inr (count_outcome (completion_at self env n rec) o1), s1)"
    "db_ok U (ws_database s1)" "settled U scope rec (completion_at self env n rec) (ws_database s1)"
    "\<And>rec'. si_id rec' \<noteq> si_id rec \<Longrightarrow> leased U scope (wk_worker_id self) until rec' (ws_database s) \<Longrightarrow>
      leased U scope (wk_worker_id self) until rec' (ws_database s1)"
    "\<And>rec' c. settled U scope rec' c (ws_database s) \<Longrightarrow> settled U scope rec' c (ws_database s1)" by blast
  have "leased U scope (wk_worker_id self) until rec' (ws_database s1)" if "rec' \<in> set recs" for rec'
    using Cons.prems(4) Cons.prems(5) [of rec'] that by (intro s1(4)) (auto simp: image_iff)
  with Cons.IH [of "Suc n" s1 "count_outcome (completion_at self env n rec) o1"] Cons.prems s1(2) obtain s' where
    s': "execute_records U sha256 self env scope (Suc n) recs (count_outcome (completion_at self env n rec) o1) s1 =
        (Inr (fold (\<lambda>(m, rec). count_outcome (completion_at self env m rec)) (enumerate (Suc n) recs)
          (count_outcome (completion_at self env n rec) o1)), s')"
      "db_ok U (ws_database s')"
      "\<And>m. m < length recs \<Longrightarrow> settled U scope (recs ! m) (completion_at self env (Suc n + m) (recs ! m)) (ws_database s')"
      "\<And>rec' c. settled U scope rec' c (ws_database s1) \<Longrightarrow> settled U scope rec' c (ws_database s')" by auto
  have "settled U scope ((rec # recs) ! m) (completion_at self env (n + m) ((rec # recs) ! m)) (ws_database s')"
    if "m < length (rec # recs)" for m
    using that s'(3) s'(4) [OF s1(3)] by (cases m) auto
  with s1(1,5) s'(1,2,4) show ?case by auto
qed simp

section \<open>Counting\<close>

definition is_retry :: "ScheduleCompletion \<Rightarrow> bool" where
  "is_retry c \<longleftrightarrow> (case c of CompletionRetry _ _ \<Rightarrow> True | _ \<Rightarrow> False)"

definition is_failure :: "ScheduleCompletion \<Rightarrow> bool" where
  "is_failure c \<longleftrightarrow> (case c of CompletionFailed _ \<Rightarrow> True | _ \<Rightarrow> False)"

lemma unat_saturating_succ:
  assumes "unat n + 1 < 2 ^ 32"
  shows "unat (saturating_succ_u32 n) = unat n + 1"
proof -
  have "unat (- 1 :: u32) = 2 ^ 32 - 1" by (simp add: unsigned_minus_1_eq_mask mask_eq_exp_minus_1)
  with assms have "n \<noteq> - 1" by auto
  with assms show ?thesis by (simp add: saturating_succ_u32_def unat_word_ariths)
qed

lemma count_outcomes:
  assumes "unat (spo_succeeded o1) + length cs < 2 ^ 32" and "unat (spo_retried o1) + length cs < 2 ^ 32"
    and "unat (spo_failed o1) + length cs < 2 ^ 32"
  shows "spo_claimed (fold count_outcome cs o1) = spo_claimed o1 \<and>
    unat (spo_succeeded (fold count_outcome cs o1)) = unat (spo_succeeded o1) + length (filter ((=) CompletionSucceeded) cs) \<and>
    unat (spo_retried (fold count_outcome cs o1)) = unat (spo_retried o1) + length (filter is_retry cs) \<and>
    unat (spo_failed (fold count_outcome cs o1)) = unat (spo_failed o1) + length (filter is_failure cs)"
  using assms
proof (induction cs arbitrary: o1)
  case (Cons c cs)
  have "unat (spo_succeeded o1) + 1 < 2 ^ 32" "unat (spo_retried o1) + 1 < 2 ^ 32" "unat (spo_failed o1) + 1 < 2 ^ 32"
    using Cons.prems by auto
  note succ = this [THEN unat_saturating_succ]
  show ?case
    using Cons.IH [of "count_outcome c o1"] Cons.prems
    by (cases c) (simp_all add: succ is_retry_def is_failure_def)
qed simp

section \<open>The whole poll\<close>

lemma micros_timestamp: "- (2 ^ 63) \<le> i \<Longrightarrow> i < 2 ^ 63 \<Longrightarrow> micros (timestamp i) = i"
  by (simp add: micros_def timestamp_def sint_sbintrunc' signed_take_bit_int_eq_self)

lemma valid_config:
  assumes "scheduled_worker_config_validate config = Inr config"
  shows "wc_batch_limit config \<noteq> 0" and "wc_batch_limit config \<le> 100" and "0 < uint (wc_lease_micros config)"
    and "as_micros (wc_invocation_timeout config) * unat (wc_batch_limit config) + 1000000 \<le> unat (wc_lease_micros config)"
proof -
  show lease: "as_micros (wc_invocation_timeout config) * unat (wc_batch_limit config) + 1000000 \<le> unat (wc_lease_micros config)"
    using assms by (simp add: scheduled_worker_config_validate_def Let_def split: if_splits)
  then have "int 1000000 \<le> uint (wc_lease_micros config)" unfolding uint_nat by (intro of_nat_mono) simp
  then show "0 < uint (wc_lease_micros config)" by simp
qed (use assms in \<open>auto simp: scheduled_worker_config_validate_def Let_def not_less split: if_splits\<close>)

lemma lease_covers:
  assumes "scheduled_worker_config_validate config = Inr config" and "n < unat (wc_batch_limit config)"
  shows "elapsed_bound config now n \<le> micros now + uint (wc_lease_micros config)"
proof -
  let ?t = "as_micros (wc_invocation_timeout config)"
  have "?t * unat (wc_batch_limit config) + 1000000 \<le> unat (wc_lease_micros config)"
    by (rule valid_config(4) [OF assms(1)])
  moreover have "Suc n * ?t \<le> ?t * unat (wc_batch_limit config)"
    using assms(2) mult_le_mono1 [of "Suc n" "unat (wc_batch_limit config)" ?t] by (simp add: mult.commute)
  ultimately have "Suc n * ?t + 1000000 \<le> unat (wc_lease_micros config)" by linarith
  then have "int (Suc n * ?t + 1000000) \<le> uint (wc_lease_micros config)" unfolding uint_nat by (rule of_nat_mono)
  then show ?thesis by (simp add: elapsed_bound_def)
qed

lemma poll_settles:
  fixes now :: TimestampMicros
  defines "lease_end self \<equiv> micros now + uint (wc_lease_micros (wk_config self))"
  assumes laws: "ulid_laws U" and config: "config_ok (wk_config self)"
    and now: "we_now env = Inr now" "uint (wc_lease_micros (wk_config self)) < 2 ^ 63" "lease_end self < 2 ^ 63"
    and fault: "we_claim_fault env = NoFault"
    and db: "db = run (store_step U sha256) (we_claim_others env) (ws_database s)" "db_ok U db"
      "\<forall>r \<in> set (db_schedules db). sw_attempts r < 2 ^ 32 - 1"
    and env: "\<And>n. n < unat (wc_batch_limit (wk_config self)) \<Longrightarrow> env_in_time U self scope now env n"
  shows "\<exists>recs outcome s'.
    list_all2 (claimed_from U) (take (unat (wc_batch_limit (wk_config self)))
      (due_rows (project_text U scope) (environment_text U scope) (micros now) (db_schedules db))) recs \<and>
    scheduled_poll_once U sha256 self env scope s = (Inr outcome, s') \<and> db_ok U (ws_database s') \<and>
    (\<forall>n < length recs. settled U scope (recs ! n) (completion_at self env n (recs ! n)) (ws_database s')) \<and>
    outcome = fold count_outcome (map (\<lambda>(n, rec). completion_at self env n rec) (enumerate 0 recs))
      \<lparr>spo_claimed = of_nat (length recs), spo_succeeded = 0, spo_retried = 0, spo_failed = 0\<rparr> \<and>
    length recs \<le> 100"
proof -
  let ?limit = "wc_batch_limit (wk_config self)" and ?until = "timestamp (lease_end self)"
  have valid: "scheduled_worker_config_validate (wk_config self) = Inr (wk_config self)" using config by (simp add: config_ok_def)
  note limit = valid_config(1,2) [OF valid] and lease = valid_config(3) [OF valid]
  have "- (2 ^ 63) \<le> micros now" unfolding micros_def using sint_greater_eq [of now] by simp
  then have until: "micros ?until = lease_end self"
    using now(3) lease unfolding lease_end_def by (intro micros_timestamp) simp_all
  have lu: "scheduled_lease_until (wk_config self) now = Inr ?until"
    using now(2,3) unat_less_2_63 [OF now(2)] by (simp add: scheduled_lease_until_def lease_end_def)
  from due_claimed [OF laws db(2,3), of scope "wk_worker_id self" now ?until ?limit] obtain recs db1 where
    claim: "claim_due_scheduled_tx U scope (wk_worker_id self) now ?until ?limit db = Inr (recs, db1)"
    and due: "list_all2 (runs_for U (wk_worker_id self)) (due_ids (project_text U scope) (environment_text U scope)
      (micros now) (unat ?limit) (db_schedules db)) recs" by blast
  have claimed: "claim_due_scheduled U NoFault scope (wk_worker_id self) now ?until ?limit db = (Inr recs, db1)"
    using claim limit lease until by (simp add: claim_due_scheduled_def transaction_def lease_end_def not_less)
  note distinct = claimed_distinct [OF db(2) due]
  have "unat ?limit \<le> 100" using limit(2) by (simp add: word_le_nat_alt)
  with distinct(2) have len: "length recs \<le> 100" by simp
  have ok1: "db_ok U db1"
    using store_step_ok [OF laws _ db(2), of "OpClaimDue NoFault scope (wk_worker_id self) now ?until ?limit" sha256]
    by (simp add: claimed)
  let ?o = "\<lparr>spo_claimed = of_nat (length recs), spo_succeeded = 0, spo_retried = 0, spo_failed = 0\<rparr>"
  define s1 where "s1 = \<lparr>ws_database = db1, ws_telemetry = count_claimed now recs
    ((ws_telemetry s)\<lparr>swt_polls := swt_polls (ws_telemetry s) + 1\<rparr>)\<rparr>"
  have poll: "scheduled_poll_once U sha256 self env scope s = execute_records U sha256 self env scope 0 recs ?o s1"
    using len by (simp add: scheduled_poll_once_def now(1) lu fault claimed flip: db(1) s1_def)
  have "\<exists>s'. execute_records U sha256 self env scope 0 recs ?o s1 =
      (Inr (fold (\<lambda>(m, rec). count_outcome (completion_at self env m rec)) (enumerate 0 recs) ?o), s') \<and>
    db_ok U (ws_database s') \<and>
    (\<forall>m < length recs. settled U scope (recs ! m) (completion_at self env (0 + m) (recs ! m)) (ws_database s')) \<and>
    (\<forall>rec' c. settled U scope rec' c (ws_database s1) \<longrightarrow> settled U scope rec' c (ws_database s'))"
  proof (rule execute_records_settle [OF laws config])
    fix m
    assume "m < 0 + length recs"
    with distinct(2) have m: "m < unat ?limit" by simp
    show "env_in_time U self scope now env m" by (rule env [OF m])
    show "elapsed_bound (wk_config self) now m \<le> micros ?until"
      unfolding until unfolding lease_end_def by (rule lease_covers [OF valid m])
  qed (use ok1 distinct(1) claim_leases [OF db(2) claim due] in \<open>simp_all add: s1_def\<close>)
  then obtain s' where s': "execute_records U sha256 self env scope 0 recs ?o s1 =
      (Inr (fold (\<lambda>(m, rec). count_outcome (completion_at self env m rec)) (enumerate 0 recs) ?o), s')"
    "db_ok U (ws_database s')"
    "\<forall>m < length recs. settled U scope (recs ! m) (completion_at self env (0 + m) (recs ! m)) (ws_database s')"
    by blast
  have "fold (\<lambda>(m, rec). count_outcome (completion_at self env m rec)) xs o1 =
      fold count_outcome (map (\<lambda>(n, rec). completion_at self env n rec) xs) o1" for xs and o1 :: ScheduledPollOutcome
    by (induction xs arbitrary: o1) auto
  note counted = this [of "enumerate 0 recs" ?o]
  from s'(3) have settled: "\<forall>m < length recs. settled U scope (recs ! m) (completion_at self env m (recs ! m)) (ws_database s')"
    by simp
  show ?thesis
    by (intro exI conjI, rule claim_claimed_from [OF db(2) claim due], rule poll [unfolded s'(1) counted], rule s'(2), rule settled, rule refl, rule len)
qed

end
