(* ===== verification/Scheduled_Properties.thy ===== *)
theory Scheduled_Properties
  imports Scheduled_Poll Store_Sample Sql_Order
begin

text \<open>
  The property of the worker for scheduled invocations, with a poll that it applies to.
\<close>





end
