(* ===== verification/Action_Schedule.thy ===== *)
theory Action_Schedule
  imports Mutation_Engine
begin

text \<open>
  Scheduling from Actions (\<open>ActionScheduleBroker\<close> of \<open>runku-execution/src/action.rs\<close>). An Action has no
  transaction: each call of the scheduler commits a batch of its own, under an operation identifier that is derived
  from the idempotency key of the request, or generated when it has none.
\<close>

section \<open>Identities\<close>

definition derived_ulid :: "ulid_crate \<Rightarrow> (bytes \<Rightarrow> bytes) \<Rightarrow> string \<Rightarrow> EnvironmentScope \<Rightarrow> string \<Rightarrow> ulid" where
  "derived_ulid U sha256 domain scope key =
     of_nat (of_be (take 16 (sha256 (as_bytes domain @ as_bytes (project_text U scope) @
       as_bytes (environment_text U scope) @ as_bytes key))))"

definition identities ::
    "ulid_crate \<Rightarrow> (bytes \<Rightarrow> bytes) \<Rightarrow> ulid \<Rightarrow> EnvironmentScope \<Rightarrow> string option \<Rightarrow> OperationId \<times> ScheduledInvocationId" where
  "identities U sha256 generated scope idempotency_key =
     (case idempotency_key of
        None \<Rightarrow> (generated, generated)
      | Some key \<Rightarrow>
          (derived_ulid U sha256 ''RUNKU_ACTION_SCHEDULE_OPERATION_V1'' scope key,
           derived_ulid U sha256 ''RUNKU_ACTION_SCHEDULE_RECORD_V1'' scope key))"

section \<open>Persisting one schedule\<close>

fun map_store :: "StoreError \<Rightarrow> ScheduleError" where
  "map_store LimitExceeded = ScheduleLimitExceeded"
| "map_store Unavailable = ScheduleUnavailable"
| "map_store Busy = ScheduleUnavailable"
| "map_store SerializationFailure = ScheduleUnavailable"
| "map_store ResultUncertain = ScheduleUnavailable"
| "map_store OutboxLeaseLost = ScheduleUnavailable"
| "map_store _ = ScheduleStorage"

definition same_schedule :: "ScheduledInvocationRecord \<Rightarrow> ScheduledInvocationInsert \<Rightarrow> bool" where
  "same_schedule existing requested \<longleftrightarrow>
     si_id existing = sc_id requested \<and> si_pinned_code existing = sc_pinned_code requested \<and>
     si_function existing = sc_function requested \<and> si_args existing = sc_args requested \<and>
     si_idempotency_key existing = sc_idempotency_key requested"

text \<open>What befalls the three calls of the store that read a schedule, besides their answers.\<close>

record read_faults =
  rdf_begin :: "StoreError option"
  rdf_get :: "StoreError option"
  rdf_close :: "StoreError option"

definition read_schedule ::
    "ulid_crate \<Rightarrow> read_faults \<Rightarrow> EnvironmentScope \<Rightarrow> ScheduledInvocationId \<Rightarrow> database
     \<Rightarrow> ScheduleError + ScheduledInvocationRecord option" where
  "read_schedule U faults scope i db =
     bindR (map_errR map_store (case rdf_begin faults of Some e \<Rightarrow> Inl e | None \<Rightarrow> begin_read U scope db)) (\<lambda>_.
       let result = map_errR map_store (case rdf_get faults of Some e \<Rightarrow> Inl e | None \<Rightarrow> get_scheduled U scope i db);
           close = (case rdf_close faults of Some e \<Rightarrow> Inl (map_store e) | None \<Rightarrow> Inr ()) in
       case (result, close) of
         (Inr record, Inr _) \<Rightarrow> Inr record
       | (Inl e, _) \<Rightarrow> Inl e
       | (_, Inl e) \<Rightarrow> Inl e)"

text \<open>
  How the wait for a commit ends: with its answer, or because of the cancellation or the deadline. In the
  latter cases the commit may or may not take place.
\<close>

datatype commit_wait = WaitAnswers | WaitCancels bool | WaitTimesOut bool

record persist_env =
  pse_others :: "store_op list"
  pse_wait :: commit_wait
  pse_fault :: tx_fault
  pse_clock :: clock
  pse_read_others :: "store_op list"
  pse_read :: read_faults

definition MAX_COMMIT_ATTEMPTS :: nat where "MAX_COMMIT_ATTEMPTS = 3"

definition abandoned_commit ::
    "ulid_crate \<Rightarrow> (bytes \<Rightarrow> bytes) \<Rightarrow> persist_env \<Rightarrow> CommitBatch \<Rightarrow> bool \<Rightarrow> database \<Rightarrow> database" where
  "abandoned_commit U sha256 a b takes_place db =
     (if takes_place then snd (store_commit U sha256 (pse_fault a) (pse_clock a) b db) else db)"

text \<open>The loop \<open>for attempt in 0..MAX_COMMIT_ATTEMPTS\<close>; the first argument counts the iterations left.\<close>

fun persist_attempts ::
    "nat \<Rightarrow> ulid_crate \<Rightarrow> (bytes \<Rightarrow> bytes) \<Rightarrow> EnvironmentScope \<Rightarrow> CommitBatch \<Rightarrow> ScheduledInvocationInsert
     \<Rightarrow> (nat \<Rightarrow> persist_env) \<Rightarrow> nat \<Rightarrow> database \<Rightarrow> (ScheduleError + bool) \<times> database" where
  "persist_attempts 0 U sha256 scope b s env attempt db = (Inl ScheduleUnavailable, db)"
| "persist_attempts (Suc n) U sha256 scope b s env attempt db =
     (let a = env attempt;
          db1 = run (store_step U sha256) (pse_others a) db in
      case pse_wait a of
        WaitCancels takes_place \<Rightarrow> (Inl ScheduleCancelled, abandoned_commit U sha256 a b takes_place db1)
      | WaitTimesOut takes_place \<Rightarrow> (Inl ScheduleResultUncertain, abandoned_commit U sha256 a b takes_place db1)
      | WaitAnswers \<Rightarrow>
          (case store_commit U sha256 (pse_fault a) (pse_clock a) b db1 of
             (Inr result, db2) \<Rightarrow> (Inr (cr_replayed result), db2)
           | (Inl err, db2) \<Rightarrow>
               if err \<in> {OperationIdReused, MutationConflict, ResultUncertain} then
                 let db3 = run (store_step U sha256) (pse_read_others a) db2 in
                 (case read_schedule U (pse_read a) scope (sc_id s) db3 of
                    Inl e \<Rightarrow> (Inl e, db3)
                  | Inr (Some existing) \<Rightarrow>
                      (if same_schedule existing s then Inr True else Inl ScheduleInvalidRequest, db3)
                  | Inr None \<Rightarrow> persist_attempts n U sha256 scope b s env (attempt + 1) db3)
               else if store_error_retryable err \<and> attempt + 1 < MAX_COMMIT_ATTEMPTS
                 then persist_attempts n U sha256 scope b s env (attempt + 1) db2
               else (Inl (map_store err), db2)))"

definition schedule_batch :: "EnvironmentScope \<Rightarrow> OperationId \<Rightarrow> ScheduledInvocationInsert \<Rightarrow> CommitBatch" where
  "schedule_batch scope operation s = push_schedule s (commit_batch_new scope operation)"

definition persist_schedule ::
    "ulid_crate \<Rightarrow> (bytes \<Rightarrow> bytes) \<Rightarrow> EnvironmentScope \<Rightarrow> OperationId \<Rightarrow> ScheduledInvocationInsert
     \<Rightarrow> (nat \<Rightarrow> persist_env) \<Rightarrow> database \<Rightarrow> (ScheduleError + bool) \<times> database" where
  "persist_schedule U sha256 scope operation s env db =
     (let b = schedule_batch scope operation s in
      case commit_batch_validate U b of
        Inl err \<Rightarrow> (Inl (map_store err), db)
      | Inr _ \<Rightarrow> persist_attempts MAX_COMMIT_ATTEMPTS U sha256 scope b s env 0 db)"

section \<open>The broker\<close>

record ActionScheduleBroker =
  asb_scope :: EnvironmentScope
  asb_pinned_code :: PinnedCode
  asb_base :: TimestampMicros
  asb_allowed :: "FunctionName list"

definition action_schedule_broker :: "InvocationRequest \<Rightarrow> TimestampMicros \<Rightarrow> ActionScheduleBroker" where
  "action_schedule_broker request base =
     \<lparr>asb_scope = rq_scope request, asb_pinned_code = rq_pinned_code request, asb_base = base,
      asb_allowed = allowed_schedules request\<rparr>"

text \<open>The counters of the broker and of its executor, with the store.\<close>

record action_state =
  acs_created :: u64
  acs_calls :: u64
  acs_schedules_created :: u64
  acs_schedule_replays :: u64
  acs_schedule_failures :: u64
  acs_database :: database

record create_env =
  cre_entry :: io_event
  cre_generated :: ulid
  cre_persist :: "nat \<Rightarrow> persist_env"

definition action_schedule_insert ::
    "ulid_crate \<Rightarrow> (bytes \<Rightarrow> bytes) \<Rightarrow> ActionScheduleBroker \<Rightarrow> create_env \<Rightarrow> ScheduleRequest \<Rightarrow> TimestampMicros
     \<Rightarrow> ScheduledInvocationInsert" where
  "action_schedule_insert U sha256 self env request execute_at =
     \<lparr>sc_id = snd (identities U sha256 (cre_generated env) (asb_scope self) (sreq_idempotency_key request)),
      sc_pinned_code = asb_pinned_code self, sc_function = sreq_function request, sc_args = sreq_arguments request,
      sc_execute_at = execute_at, sc_idempotency_key = sreq_idempotency_key request\<rparr>"

definition action_schedule_create ::
    "ulid_crate \<Rightarrow> (bytes \<Rightarrow> bytes) \<Rightarrow> ActionScheduleBroker \<Rightarrow> create_env \<Rightarrow> ScheduleRequest \<Rightarrow> action_state
     \<Rightarrow> (ScheduleError + ScheduledInvocationId) \<times> action_state" where
  "action_schedule_create U sha256 self env request s =
     (if cre_entry env = Cancels then (Inl ScheduleCancelled, s)
      else if cre_entry env = TimesOut then (Inl ScheduleTimeout, s)
      else if sreq_function request \<notin> set (asb_allowed self) \<or> isl (encode_stored_value U (sreq_arguments request))
          \<or> (case sreq_idempotency_key request of None \<Rightarrow> False | Some key \<Rightarrow> key = [] \<or> length key > 128)
        then (Inl ScheduleInvalidRequest, s)
      else
        let call = acs_calls s; s1 = s\<lparr>acs_calls := call + 1\<rparr> in
        if unat call \<ge> MAX_SCHEDULES then (Inl ScheduleLimitExceeded, s1)
        else case schedule_time (asb_base self) (sreq_time request) of
          Inl err \<Rightarrow> (Inl err, s1)
        | Inr execute_at \<Rightarrow>
            let operation = fst (identities U sha256 (cre_generated env) (asb_scope self) (sreq_idempotency_key request));
                schedule = action_schedule_insert U sha256 self env request execute_at in
            (case persist_schedule U sha256 (asb_scope self) operation schedule (cre_persist env) (acs_database s1) of
               (Inl err, db) \<Rightarrow>
                 (Inl err, s1\<lparr>acs_schedule_failures := acs_schedule_failures s1 + 1, acs_database := db\<rparr>)
             | (Inr True, db) \<Rightarrow>
                 (Inr (sc_id schedule), s1\<lparr>acs_schedule_replays := acs_schedule_replays s1 + 1, acs_database := db\<rparr>)
             | (Inr False, db) \<Rightarrow>
                 (Inr (sc_id schedule), s1\<lparr>acs_created := acs_created s1 + 1,
                    acs_schedules_created := acs_schedules_created s1 + 1, acs_database := db\<rparr>)))"

end
