(* ===== verification/Action_Durable.thy ===== *)
theory Action_Durable
  imports Action_Schedule Sqlite_Roundtrip
begin

text \<open>
  A schedule that an Action was told to have is in the store. When the answer of the store is a replay, the
  operation was committed before, with the same digest: on every history in which the hash has no collision
  with the batch in question, the earlier commit inserted the same schedule.
\<close>

section \<open>Schedules in the store\<close>

definition requested_row :: "ulid_crate \<Rightarrow> EnvironmentScope \<Rightarrow> ScheduledInvocationInsert \<Rightarrow> schedule_row \<Rightarrow> bool" where
  "requested_row U scope s r \<longleftrightarrow>
     schedule_key r = (project_text U scope, environment_text U scope, schedule_text U (sc_id s)) \<and>
     sw_pinned_code r = pinned_code_to_string U (sc_pinned_code s) \<and> sw_function r = sc_function s \<and>
     encode_value U (sc_args s) = Inr (sw_args r) \<and> sw_idempotency_key r = sc_idempotency_key s"

definition holds_schedule :: "ulid_crate \<Rightarrow> EnvironmentScope \<Rightarrow> ScheduledInvocationInsert \<Rightarrow> database \<Rightarrow> bool" where
  "holds_schedule U scope s db \<longleftrightarrow> (\<exists>r \<in> set (db_schedules db). requested_row U scope s r)"

lemma holds_extends:
  assumes "holds_schedule U scope s db" and "extends (project_text U scope) (environment_text U scope) db db'"
  shows "holds_schedule U scope s db'"
proof -
  from assms(1) obtain r where r: "r \<in> set (db_schedules db)" "requested_row U scope s r" by (auto simp: holds_schedule_def)
  with assms(2) obtain q where "q \<in> set (db_schedules db')" "schedule_advances r q"
    unfolding extends_def by (auto simp: requested_row_def schedule_key_def)
  with r(2) show ?thesis by (auto simp: holds_schedule_def requested_row_def schedule_advances_def)
qed

lemma requested_row_decodes:
  assumes "ulid_laws U" and "schedule_insert_ok s" and "requested_row U scope s r" and "decode_schedule_row U r = Inr x"
  shows "same_schedule x s"
proof -
  have "decode_value U (sw_args r) = Inr (sc_args s)"
    using assms(2,3) by (intro decode_value_encode assms(1)) (simp_all add: schedule_insert_ok_def requested_row_def)
  moreover have "pinned_code_from_str U (sw_pinned_code r) = Inr (sc_pinned_code s)"
    using assms(1,3) by (simp add: requested_row_def pinned_code_from_str_Inr)
  moreover have "parse_id U ''sch_'' (sw_scheduled r) = Inr (sc_id s)"
    using assms(1,3) by (simp add: requested_row_def schedule_key_def)
  ultimately show ?thesis
    using assms(2-4) by (auto simp: same_schedule_def decode_schedule_row_def requested_row_def schedule_insert_ok_def)
qed

lemma holds_readable:
  assumes "ulid_laws U" and "schedule_insert_ok s" and "db_ok U db"
  shows "holds_schedule U scope s db \<longleftrightarrow> (\<exists>x. get_scheduled U scope (sc_id s) db = Inr (Some x) \<and> same_schedule x s)"
proof -
  let ?k = "(project_text U scope, environment_text U scope, schedule_text U (sc_id s))"
  have fetch: "fetch_schedule_row (project_text U scope) (environment_text U scope) (schedule_text U (sc_id s)) db = Some r
      \<longleftrightarrow> r \<in> set (db_schedules db) \<and> schedule_key r = ?k" for r
    unfolding fetch_schedule_row_def by (rule sql_find_key [OF schedules_keyed [OF assms(3)]])
  have dec: "\<exists>x. decode_schedule_row U r = Inr x" if "r \<in> set (db_schedules db)" for r
    using that assms(3) by (simp add: db_ok_def tables_ok_def table_ok_def schedule_row_ok_def)
  have row: "requested_row U scope s r"
    if "schedule_key r = ?k" "decode_schedule_row U r = Inr x" "same_schedule x s" for r x
    using that assms(1) by (auto simp: requested_row_def same_schedule_def decode_schedule_row_def decode_value_encoded
        pinned_code_from_str_Inr dest!: function_name_text)
  show ?thesis
  proof
    assume "holds_schedule U scope s db"
    then obtain r where r: "r \<in> set (db_schedules db)" "requested_row U scope s r" by (auto simp: holds_schedule_def)
    with dec obtain x where x: "decode_schedule_row U r = Inr x" by blast
    moreover have "schedule_key r = ?k" using r(2) by (simp add: requested_row_def)
    ultimately show "\<exists>x. get_scheduled U scope (sc_id s) db = Inr (Some x) \<and> same_schedule x s"
      using fetch [of r] r requested_row_decodes [OF assms(1,2) r(2) x] by (auto simp: get_scheduled_def mapR_def)
  next
    assume "\<exists>x. get_scheduled U scope (sc_id s) db = Inr (Some x) \<and> same_schedule x s"
    then obtain x where x: "get_scheduled U scope (sc_id s) db = Inr (Some x)" "same_schedule x s" by blast
    from x(1) obtain r where "fetch_schedule_row (project_text U scope) (environment_text U scope) (schedule_text U (sc_id s)) db = Some r"
      "decode_schedule_row U r = Inr x"
      by (auto simp: get_scheduled_def split: option.splits)
    with fetch [of r] row [of r x] x(2) show "holds_schedule U scope s db" by (auto simp: holds_schedule_def)
  qed
qed

section \<open>Commits insert their schedules\<close>

definition holds_pending :: "ulid_crate \<Rightarrow> EnvironmentScope \<Rightarrow> ScheduledInvocationInsert \<Rightarrow> database \<Rightarrow> bool" where
  "holds_pending U scope s db \<longleftrightarrow>
     (\<exists>r \<in> set (db_schedules db). requested_row U scope s r \<and> sw_status r = ''pending'' \<and> sw_execute_at r = micros (sc_execute_at s))"

lemma pending_holds: "holds_pending U scope s db \<Longrightarrow> holds_schedule U scope s db"
  by (auto simp: holds_pending_def holds_schedule_def)

lemma apply_schedules_insert:
  assumes "foldR (apply_schedule U (project_text U scope) (environment_text U scope) n now) db ms = Inr db'" and "s \<in> set ms"
  shows "holds_pending U scope s db'"
  using assms
proof (induction ms arbitrary: db)
  case (Cons m ms)
  from Cons.prems(1) obtain db1 where one: "apply_schedule U (project_text U scope) (environment_text U scope) n now db m = Inr db1"
    and rest: "foldR (apply_schedule U (project_text U scope) (environment_text U scope) n now) db1 ms = Inr db'" by auto
  from apply_schedules_append [OF rest] have keep: "set (db_schedules db1) \<subseteq> set (db_schedules db')" by auto
  from one have "holds_pending U scope m db1"
    by (auto simp: apply_schedule_def sql_insert_ignore_def holds_pending_def requested_row_def schedule_key_def split: if_splits)
  with keep have "holds_pending U scope m db'" by (auto simp: holds_pending_def)
  with Cons.IH [OF rest] Cons.prems(2) show ?case by auto
qed simp

lemma fresh_commit_pending:
  assumes "apply_commit U clock b digest db = Inr (r, db')" and "\<not> cr_replayed r" and "s \<in> set (cb_schedules b)"
  shows "holds_pending U (cb_scope b) s db'"
  using assms(1)
proof (cases rule: apply_commit_cases)
  case replay
  with assms(2) show ?thesis using load_operation_replayed by blast
next
  case (fresh n sequences now operations documents db1 db2 db3)
  show ?thesis by (rule apply_schedules_insert [OF fresh(8) assms(3)])
qed

lemmas fresh_commit_holds = pending_holds [OF fresh_commit_pending]

lemma pending_readable:
  assumes "ulid_laws U" and "db_ok U db" and "holds_pending U scope s db" and "get_scheduled U scope (sc_id s) db = Inr (Some x)"
  shows "si_status x = Pending" and "si_execute_at x = sc_execute_at s"
proof -
  from assms(3) obtain r where r: "r \<in> set (db_schedules db)" "requested_row U scope s r" "sw_status r = ''pending''"
    "sw_execute_at r = micros (sc_execute_at s)" by (auto simp: holds_pending_def)
  then have "fetch_schedule_row (project_text U scope) (environment_text U scope) (schedule_text U (sc_id s)) db = Some r"
    using sql_find_key [OF schedules_keyed [OF assms(2)]] by (simp add: fetch_schedule_row_def requested_row_def)
  with assms(4) have "decode_schedule_row U r = Inr x" by (auto simp: get_scheduled_def)
  with r(3,4) show "si_status x = Pending" "si_execute_at x = sc_execute_at s"
    by (auto simp: decode_schedule_row_def parse_status_def)
qed

section \<open>The log of operations\<close>

definition committed_as :: "ulid_crate \<Rightarrow> CommitBatch \<Rightarrow> bytes \<Rightarrow> database \<Rightarrow> bool" where
  "committed_as U b digest db \<longleftrightarrow>
     (\<exists>r \<in> set (db_operations db).
        operation_key r = (project_text U (cb_scope b), environment_text U (cb_scope b), operation_text U (cb_operation_id b)) \<and>
        pw_digest r = digest)"

definition log_honest :: "ulid_crate \<Rightarrow> (bytes \<Rightarrow> bytes) \<Rightarrow> CommitBatch \<Rightarrow> database \<Rightarrow> bool" where
  "log_honest U sha256 b db \<longleftrightarrow>
     (committed_as U b (sha256 (batch_bytes U b)) db \<longrightarrow> (\<forall>s \<in> set (cb_schedules b). holds_schedule U (cb_scope b) s db))"

fun collision_free :: "ulid_crate \<Rightarrow> (bytes \<Rightarrow> bytes) \<Rightarrow> CommitBatch \<Rightarrow> store_op \<Rightarrow> bool" where
  "collision_free U sha256 b (OpCommit _ _ c) \<longleftrightarrow>
     sha256 (batch_bytes U c) = sha256 (batch_bytes U b) \<longrightarrow> batch_bytes U c = batch_bytes U b"
| "collision_free U sha256 b _ \<longleftrightarrow> True"

lemma valid_digest:
  assumes "ulid_laws U" and "batch_typed U b" and "commit_batch_digest U sha256 b = Inr digest"
  shows "commit_batch_validate U b = Inr ()" and "digest = sha256 (batch_bytes U b)"
proof -
  show valid: "commit_batch_validate U b = Inr ()"
    using assms(3) by (auto simp: commit_batch_digest_def)
  show "digest = sha256 (batch_bytes U b)" using digest_of_valid [OF assms(1,2) valid] assms(3) by simp
qed

lemma step_operations:
  assumes "r \<in> set (db_operations (store_step U sha256 x db))" and "r \<notin> set (db_operations db)"
  obtains fault clock b digest n now v where "x = OpCommit fault clock b" "commit_batch_digest U sha256 b = Inr digest"
    "r = operation_row_of U b digest n now" "apply_commit U clock b digest db = Inr (v, store_step U sha256 x db)" "\<not> cr_replayed v"
proof -
  from assms have "store_step U sha256 x db \<noteq> db" by auto
  then show thesis
  proof (cases rule: store_step_cases)
    case (1 b fault clock digest v)
    have new: "\<not> cr_replayed v"
    proof
      assume "cr_replayed v"
      with 1(3) have "store_step U sha256 x db = db" by (auto elim!: apply_commit_cases)
      with assms show False by simp
    qed
    from 1(3) new obtain n now where "db_operations (store_step U sha256 x db) = db_operations db @ [operation_row_of U b digest n now]"
      by (rule apply_commit_effect)
    with assms have "r = operation_row_of U b digest n now" by auto
    with 1 new show thesis by (intro that)
  next
    case (2 fault scope c w now lease limit v)
    from 2(2) have "db_operations (store_step U sha256 x db) = db_operations db" by (rule claim_outbox_tx_cases) simp
    with assms show thesis by simp
  next
    case (3 fault clock scope c w g through v)
    then have "db_operations (store_step U sha256 x db) = db_operations db" unfolding ack_outbox_tx_Inr by auto
    with assms show thesis by simp
  next
    case (4 fault scope w now lease limit v)
    have "db_operations y = db_operations db"
      if "foldR (claim_one U p e w' t u) (rs, db) ids = Inr (rs', y)" for p e w' t u rs ids rs' y
      using foldR_invariant [OF that, where P = "\<lambda>z. db_operations (snd z) = db_operations db"]
      by (fastforce elim: claim_one_cases)
    from this [OF 4(2) [unfolded claim_due_scheduled_tx_def Let_def]] assms show thesis by simp
  next
    case (5 fault clock scope i w g completion now)
    with assms show thesis by (simp add: complete_schedule_update_def split_beta)
  next
    case (6 fault clock scope i v)
    have "db_operations y = db_operations db" if "cancel_scheduled_tx U clock scope i db = Inr (v, y)" for y
      using that by (auto simp: cancel_scheduled_tx_def Let_def split_beta split: if_splits)
    from this [OF 6(2)] assms show thesis by simp
  next
    case (7 fault scope confirmation)
    with assms show thesis by (simp add: cascade_delete_def)
  qed
qed

lemma log_honest_empty: "log_honest U sha256 b empty_database"
  by (simp add: log_honest_def committed_as_def empty_database_def)

lemma reset_step:
  assumes "resets U p e x" and "r \<in> set (db_operations (store_step U sha256 x db))" and "operation_key r = (p, e, i)"
  shows "store_step U sha256 x db = db"
proof -
  from assms(1) obtain fault scope confirmation where x: "x = OpReset fault scope confirmation"
    "(project_text U scope, environment_text U scope) = (p, e)" unfolding resets_def by (cases x) auto
  have "store_step U sha256 x db = db \<or> store_step U sha256 x db = cascade_delete p e db"
    using x transaction_state [of fault map_sqlx_error "\<lambda>db. Inr ((), cascade_delete p e db)" db]
    by (auto simp: reset_environment_def)
  moreover have "store_step U sha256 x db \<noteq> cascade_delete p e db"
    using assms(2,3) by (auto simp: cascade_delete_def operation_key_def)
  ultimately show ?thesis by simp
qed

lemma log_honest_step:
  assumes laws: "ulid_laws U" and ok: "db_ok U db" and typed: "op_typed U x" "batch_typed U b"
    and valid: "commit_batch_validate U b = Inr ()"
    and free: "collision_free U sha256 b x" and honest: "log_honest U sha256 b db"
  shows "log_honest U sha256 b (store_step U sha256 x db)"
  unfolding log_honest_def
proof (intro impI ballI)
  fix s
  let ?p = "project_text U (cb_scope b)" and ?e = "environment_text U (cb_scope b)" and ?db = "store_step U sha256 x db"
  assume now: "committed_as U b (sha256 (batch_bytes U b)) ?db" and s: "s \<in> set (cb_schedules b)"
  then obtain r where r: "r \<in> set (db_operations ?db)" "operation_key r = (?p, ?e, operation_text U (cb_operation_id b))"
    "pw_digest r = sha256 (batch_bytes U b)" by (auto simp: committed_as_def)
  show "holds_schedule U (cb_scope b) s ?db"
  proof (cases "r \<in> set (db_operations db)")
    case True
    then have "committed_as U b (sha256 (batch_bytes U b)) db" using r by (auto simp: committed_as_def)
    then have "holds_schedule U (cb_scope b) s db" using honest s by (simp add: log_honest_def)
    moreover have "extends ?p ?e db ?db"
      using store_step_extends [OF ok, of ?p ?e x sha256] reset_step [OF _ r(1,2)] extends_refl
      by (cases "resets U ?p ?e x") simp_all
    ultimately show ?thesis by (rule holds_extends)
  next
    case False
    with r(1) obtain fault clock c digest n t v where c: "x = OpCommit fault clock c"
      "commit_batch_digest U sha256 c = Inr digest" "r = operation_row_of U c digest n t"
      "apply_commit U clock c digest db = Inr (v, ?db)" "\<not> cr_replayed v" by (rule step_operations)
    have ctyped: "batch_typed U c" using typed(1) c(1) by simp
    note cvalid = valid_digest [OF laws ctyped c(2)]
    have "sha256 (batch_bytes U c) = sha256 (batch_bytes U b)"
      using c(3) cvalid(2) r(3) by (simp add: operation_row_of_def)
    then have "batch_bytes U c = batch_bytes U b" using free c(1) by simp
    then have "same_content c b"
      using batch_bytes_inject [OF laws valid_batch_fits [OF cvalid(1) ctyped] valid_batch_fits [OF valid typed(2)]]
        same_content_parts [of c b] by simp
    then have "cb_schedules c = cb_schedules b" "cb_scope c = cb_scope b"
      by (cases b; cases c; simp add: same_content_def)+
    with fresh_commit_holds [OF c(4,5), of s] s show ?thesis by simp
  qed
qed

section \<open>Persisting\<close>

definition quiet_for :: "ulid_crate \<Rightarrow> (bytes \<Rightarrow> bytes) \<Rightarrow> CommitBatch \<Rightarrow> store_op list \<Rightarrow> bool" where
  "quiet_for U sha256 b xs \<longleftrightarrow> list_all (\<lambda>x. op_typed U x \<and> collision_free U sha256 b x) xs"

definition honest_store :: "ulid_crate \<Rightarrow> (bytes \<Rightarrow> bytes) \<Rightarrow> CommitBatch \<Rightarrow> database \<Rightarrow> bool" where
  "honest_store U sha256 b db \<longleftrightarrow> db_ok U db \<and> log_honest U sha256 b db"

lemma honest_store_run:
  assumes "ulid_laws U" and "batch_typed U b" and "commit_batch_validate U b = Inr ()" and "quiet_for U sha256 b xs"
    and "honest_store U sha256 b db"
  shows "honest_store U sha256 b (run (store_step U sha256) xs db)"
  using assms(4,5)
proof (induction xs arbitrary: db)
  case (Cons x xs)
  then have "op_typed U x" "collision_free U sha256 b x" "quiet_for U sha256 b xs" "db_ok U db" "log_honest U sha256 b db"
    by (simp_all add: quiet_for_def honest_store_def)
  with Cons.IH [of "store_step U sha256 x db"] store_step_ok [OF assms(1), of x db sha256]
    log_honest_step [OF assms(1), of db x b sha256] assms(2,3) show ?case by (simp add: honest_store_def)
qed simp

lemma honest_store_commit:
  assumes "ulid_laws U" and "batch_typed U b" and "commit_batch_validate U b = Inr ()" and "honest_store U sha256 b db"
  shows "honest_store U sha256 b (snd (store_commit U sha256 fault clock b db))"
  using honest_store_run [OF assms(1-3), of sha256 "[OpCommit fault clock b]" db] assms(2,4) by (simp add: quiet_for_def)

lemma commit_answer:
  assumes "store_commit U sha256 fault clock b db = (Inr result, db')"
  shows "\<exists>digest. commit_batch_digest U sha256 b = Inr digest \<and> apply_commit U clock b digest db = Inr (result, db')"
proof -
  from assms obtain digest where d: "commit_batch_digest U sha256 b = Inr digest"
    and t: "transaction fault map_commit_error (apply_commit U clock b digest) db = (Inr result, db')"
    by (auto simp: store_commit_def split: sum.splits)
  from t have "apply_commit U clock b digest db = Inr (result, db')"
    by (auto simp: transaction_def split: tx_fault.splits sum.splits)
  with d show ?thesis by blast
qed

lemma commit_answer_holds:
  assumes "ulid_laws U" and "batch_typed U b" and "honest_store U sha256 b db" and "s \<in> set (cb_schedules b)"
    and "store_commit U sha256 fault clock b db = (Inr result, db')"
  shows "holds_schedule U (cb_scope b) s db'"
proof -
  from commit_answer [OF assms(5)] obtain digest where d: "commit_batch_digest U sha256 b = Inr digest"
    and commit: "apply_commit U clock b digest db = Inr (result, db')" by blast
  show ?thesis
  proof (cases "cr_replayed result")
    case False
    show ?thesis by (rule fresh_commit_holds [OF commit False assms(4)])
  next
    case True
    with commit have load: "load_operation U b digest db = Inr (Some result)" "db' = db" by (auto elim!: apply_commit_cases)
    from load(1) have "committed_as U b digest db"
      by (auto simp: load_operation_def committed_as_def Let_def split: option.splits if_splits dest!: sql_find_Some)
    with assms(3,4) valid_digest(2) [OF assms(1,2) d] load(2) show ?thesis by (simp add: honest_store_def log_honest_def)
  qed
qed

lemma read_schedule_Inr: "read_schedule U faults scope i db = Inr (Some x) \<Longrightarrow> get_scheduled U scope i db = Inr (Some x)"
  by (auto simp: read_schedule_def Let_def split: option.splits sum.splits)

lemma persist_durable:
  assumes laws: "ulid_laws U" and s: "schedule_insert_ok s" and typed: "batch_typed U b"
    and valid: "commit_batch_validate U b = Inr ()" and b: "cb_scope b = scope" "s \<in> set (cb_schedules b)"
    and env: "\<And>k. quiet_for U sha256 b (pse_others (env k)) \<and> quiet_for U sha256 b (pse_read_others (env k))"
    and "honest_store U sha256 b db" and "persist_attempts n U sha256 scope b s env attempt db = (Inr replayed, db')"
  shows "honest_store U sha256 b db' \<and> holds_schedule U scope s db'"
  using assms(8-)
proof (induction n arbitrary: attempt db)
  case (Suc n)
  let ?a = "env attempt"
  define db1 where "db1 = run (store_step U sha256) (pse_others ?a) db"
  have honest1: "honest_store U sha256 b db1"
    unfolding db1_def using honest_store_run [OF laws typed valid] env Suc.prems(1) by blast
  obtain r db2 where c: "store_commit U sha256 (pse_fault ?a) (pse_clock ?a) b db1 = (r, db2)" by (rule prod.exhaust)
  have honest2: "honest_store U sha256 b db2"
    using honest_store_commit [OF laws typed valid honest1, of "pse_fault ?a" "pse_clock ?a"] c by simp
  define db3 where "db3 = run (store_step U sha256) (pse_read_others ?a) db2"
  have honest3: "honest_store U sha256 b db3"
    unfolding db3_def using honest_store_run [OF laws typed valid] env honest2 by blast
  have wait: "pse_wait ?a = WaitAnswers"
    using Suc.prems(2) by (cases "pse_wait ?a") (simp_all add: Let_def)
  show ?case
  proof (cases r)
    case (Inr result)
    with Suc.prems(2) wait c have "db' = db2" by (simp add: Let_def flip: db1_def)
    with honest2 commit_answer_holds [OF laws typed honest1 b(2) c [unfolded Inr]] b(1) show ?thesis by simp
  next
    case (Inl err)
    note step = Suc.prems(2) [unfolded persist_attempts.simps Let_def wait commit_wait.case, folded db1_def, unfolded c Inl prod.case sum.case, folded db3_def]
    show ?thesis
    proof (cases "err \<in> {OperationIdReused, MutationConflict, ResultUncertain}")
      case False
      with step have "persist_attempts n U sha256 scope b s env (attempt + 1) db2 = (Inr replayed, db')"
        by (auto split: if_splits)
      with Suc.IH honest2 show ?thesis by blast
    next
      case True
      show ?thesis
      proof (cases "read_schedule U (pse_read ?a) scope (sc_id s) db3")
        case (Inl e)
        with step True show ?thesis by simp
      next
        case (Inr found)
        show ?thesis
        proof (cases found)
          case None
          with step True Inr have "persist_attempts n U sha256 scope b s env (attempt + 1) db3 = (Inr replayed, db')" by simp
          with Suc.IH honest3 show ?thesis by blast
        next
          case (Some x)
          with step True Inr have "same_schedule x s" "db' = db3" by (auto split: if_splits)
          moreover have "get_scheduled U scope (sc_id s) db3 = Inr (Some x)"
            using read_schedule_Inr Inr Some by blast
          moreover have "db_ok U db3" using honest3 by (simp add: honest_store_def)
          ultimately show ?thesis using holds_readable [OF laws s, of db3 scope] honest3 by blast
        qed
      qed
    qed
  qed
qed simp

text \<open>A call that reports a new invocation has just inserted it.\<close>

lemma persist_fresh:
  assumes "persist_attempts n U sha256 scope b s env attempt db = (Inr False, db')"
  shows "\<exists>clock digest db1 r. apply_commit U clock b digest db1 = Inr (r, db') \<and> \<not> cr_replayed r"
  using assms
proof (induction n arbitrary: attempt db)
  case (Suc n)
  let ?a = "env attempt"
  obtain r db2 where c: "store_commit U sha256 (pse_fault ?a) (pse_clock ?a) b (run (store_step U sha256) (pse_others ?a) db) = (r, db2)"
    by (rule prod.exhaust)
  have wait: "pse_wait ?a = WaitAnswers"
    using Suc.prems by (cases "pse_wait ?a") (simp_all add: Let_def)
  show ?case
  proof (cases r)
    case (Inr result)
    with Suc.prems wait c have "db' = db2" "\<not> cr_replayed result" by (simp_all add: Let_def)
    with commit_answer [OF c [unfolded Inr]] show ?thesis by blast
  next
    case (Inl err)
    with Suc.prems wait c obtain attempt' db3 where "persist_attempts n U sha256 scope b s env attempt' db3 = (Inr False, db')"
      by (auto simp: Let_def split: if_splits sum.splits option.splits)
    with Suc.IH show ?thesis by blast
  qed
qed simp

lemma schedule_time_asked:
  assumes "schedule_time base requested = Inr t"
  shows "case requested of AfterMicros delay \<Rightarrow> micros t = micros base + uint delay | AtTime requested_at \<Rightarrow> t = requested_at"
proof (cases requested)
  case (AfterMicros delay)
  with assms have d: "unat delay \<le> MAX_SCHEDULE_DELAY_MICROS" and t: "checked_add_i64 base delay = Some t"
    by (auto simp: schedule_time_def split: if_splits)
  have "uint delay \<le> int MAX_SCHEDULE_DELAY_MICROS" using d unfolding uint_nat by (rule of_nat_mono)
  then have "uint delay < 2 ^ 63" by (simp add: MAX_SCHEDULE_DELAY_MICROS_def)
  then have "sint delay = uint delay" by (simp add: signed_take_bit_eq_if_positive bit_iff_odd sint_uint take_bit_int_eq_self)
  with t have "- (2 ^ 63) \<le> sint base + uint delay" "sint base + uint delay < 2 ^ 63" "t = base + delay"
    by (auto simp: checked_add_i64_def split: if_splits)
  with \<open>sint delay = uint delay\<close> show ?thesis
    by (simp add: AfterMicros micros_def sint_word_ariths(1) signed_take_bit_int_eq_self)
next
  case (AtTime requested_at)
  with assms show ?thesis by (auto simp: schedule_time_def split: if_splits)
qed

end
