(* ===== verification/Action_Properties.thy ===== *)
theory Action_Properties
  imports Action_Durable Store_Sample
begin

text \<open>The property of scheduling from Actions, with a call that it applies to.\<close>

section \<open>Durability\<close>












end
