(* ===== verification/Schema_Properties.thy ===== *)
theory Schema_Properties
  imports Schema_Format Ulid_Instance
begin

text \<open>Properties of the schema catalog of \<open>runku-schema\<close>.\<close>

section \<open>What decoding accepts\<close>

lemma catalog_repeat_all:
  assumes "\<And>c x c'. f c = Inr (x, c') \<Longrightarrow> P x"
  shows "catalog_repeat f n c = Inr (xs, c') \<Longrightarrow> list_all P xs"
  by (induction n arbitrary: c xs) (auto dest: assms)

lemma catalog_path_ok: "catalog_path c = Inr (p, c') \<Longrightarrow> path_ok p"
  by (auto simp: catalog_path_def path_ok_def field_path_new_def split: if_splits)

lemma catalog_definition_ok: "catalog_definition U c = Inr (d, c') \<Longrightarrow> definition_ok d"
  by (auto simp: catalog_definition_def definition_ok_def index_definition_new_def split: if_splits
      intro: catalog_repeat_all [where P = path_ok] catalog_path_ok)

lemma decode_schema_catalog_sound:
  assumes "decode_schema_catalog U sha256 bs = Inr c"
  shows "(\<exists>p ds. list_all definition_ok ds \<and> schema_catalog_new U sha256 p ds = Inr c) \<and> encode_schema_catalog U c = Inr bs"
  using assms
  by (auto simp: decode_schema_catalog_def split: if_splits)
    (metis catalog_repeat_all [where P = definition_ok] catalog_definition_ok)

section \<open>A catalog\<close>

definition sample_definition :: IndexDefinition where
  "sample_definition = \<lparr>def_index_id = 6, def_table_id = 4, def_name = ''by_a'', def_fields = [[''a'']]\<rparr>"

definition second_definition :: IndexDefinition where
  "second_definition = \<lparr>def_index_id = 5, def_table_id = 4, def_name = ''by_b'', def_fields = [[''a'', ''b'']]\<rparr>"

definition catalog_sha :: "bytes \<Rightarrow> bytes" where
  "catalog_sha bs = take 32 bs"

definition sample_catalog_bytes :: bytes where
  "sample_catalog_bytes = catalog_enc crockford_ulid 1 [second_definition, sample_definition]"

definition sample_catalog :: SchemaCatalog where
  "sample_catalog =
     \<lparr>cat_project_id = 1, cat_indexes = [second_definition, sample_definition], cat_by_table = [(4, [0, 1])],
      cat_digest = catalog_sha sample_catalog_bytes\<rparr>"

lemma catalog_id_length: "length (resource_id_to_string crockford_ulid p u) = length p + 26"
  using crockford_laws by (simp add: resource_id_to_string_def ulid_laws_def)

lemma sample_catalog_encodes:
  "encode_schema_catalog crockford_ulid
     (\<lparr>cat_project_id = 1, cat_indexes = [second_definition, sample_definition], cat_by_table = m, cat_digest = d\<rparr>) =
   Inr sample_catalog_bytes"
proof -
  have "\<exists>bs. encode_schema_catalog crockford_ulid
     (\<lparr>cat_project_id = 1, cat_indexes = [second_definition, sample_definition], cat_by_table = m, cat_digest = d\<rparr>) = Inr bs"
    by (simp add: encode_schema_catalog_def push_text_def push_count_def push_definition_def push_path_def Let_def
        catalog_id_length u32_max_def CATALOG_RESOURCE_MAX_BYTES_def CATALOG_RESOURCE_MAGIC_def
        sample_definition_def second_definition_def del: bindR_Inr mapR_Inr)
  with encode_schema_catalog_Inr show ?thesis by (fastforce simp: sample_catalog_bytes_def)
qed

lemma sample_catalog_new:
  "schema_catalog_new crockford_ulid catalog_sha 1 [sample_definition, second_definition] = Inr sample_catalog"
proof -
  have sorted: "sort_key def_index_id [sample_definition, second_definition] = [second_definition, sample_definition]"
    by (simp add: sample_definition_def second_definition_def)
  have "\<exists>ids names. foldR check_definition ([], [], []) (enumerate 0 [second_definition, sample_definition]) =
      Inr (ids, names, [(4, [0, 1])])"
    by (simp add: check_definition_def sample_definition_def second_definition_def)
  then show ?thesis
    using sample_catalog_encodes unfolding schema_catalog_new_def sorted Let_def
    by (auto simp: MAX_INDEXES_def sample_catalog_def)
qed

lemma sample_definitions_ok: "list_all definition_ok [sample_definition, second_definition]"
  by (simp add: definition_ok_def sample_definition_def second_definition_def index_definition_new_def valid_name_def
      MAX_NAME_BYTES_def MAX_FIELDS_def path_ok_def field_path_new_def MAX_PATH_SEGMENTS_def ascii_defs)

section \<open>Properties\<close>

text \<open>
  C29 (the catalog resource): the Release resource of a catalog decodes to exactly this catalog, digest
  included, and no other bytes do: a catalog has one resource, and only catalogs built from valid
  definitions are ever decoded.
\<close>

theorem schema_catalog_roundtrip:
  assumes "ulid_laws U"
  shows "decode_schema_catalog U sha256 bs = Inr c \<longleftrightarrow>
    (\<exists>p ds. list_all definition_ok ds \<and> schema_catalog_new U sha256 p ds = Inr c) \<and> encode_schema_catalog U c = Inr bs"
  using decode_schema_catalog_sound catalog_encode_decode [OF assms] by blast

theorem schema_catalog_roundtrip_witness:
  "decode_schema_catalog crockford_ulid catalog_sha sample_catalog_bytes = Inr sample_catalog"
proof -
  have "encode_schema_catalog crockford_ulid sample_catalog = Inr sample_catalog_bytes"
    unfolding sample_catalog_def by (rule sample_catalog_encodes)
  then show ?thesis
    using schema_catalog_roundtrip [OF crockford_laws] sample_catalog_new sample_definitions_ok by blast
qed

text \<open>
  C30 (canonical catalogs): the order in which the definitions of a catalog are listed does not matter,
  neither for its content and digest nor for the error.
\<close>

theorem schema_catalog_order_irrelevant:
  assumes "mset xs = mset ys"
  shows "schema_catalog_new U sha256 p xs = schema_catalog_new U sha256 p ys"
  using assms by (rule schema_catalog_new_perm)

theorem schema_catalog_order_irrelevant_witness:
  "schema_catalog_new crockford_ulid catalog_sha 1 [second_definition, sample_definition] = Inr sample_catalog"
  using schema_catalog_order_irrelevant [of "[second_definition, sample_definition]" "[sample_definition, second_definition]"
      crockford_ulid catalog_sha 1] sample_catalog_new by simp

end
