(* ===== verification/Query_Session.thy ===== *)
theory Query_Session
  imports Mutation_Engine "HOL-Library.Option_ord"
begin

text \<open>
  Queries, from \<open>runku-execution/src/query.rs\<close>: the read session of a Query with its snapshot, its
  scans and the dependencies it collects, and the execution that returns them with the result. A
  Query is a call tree, as a Mutation is.
\<close>

section \<open>Dependencies\<close>

datatype DependencyBound = DepUnbounded | DepInclusive bytes | DepExclusive bytes

datatype ReadDependency =
  DepPoint TableId DocumentId "u64 option" u64
| DepRange IndexId DependencyBound DependencyBound u64

text \<open>The derived order: constructors in the order they are declared, then their fields.\<close>

fun bound_rank :: "DependencyBound \<Rightarrow> nat \<times> bytes" where
  "bound_rank DepUnbounded = (0, [])"
| "bound_rank (DepInclusive bs) = (1, bs)"
| "bound_rank (DepExclusive bs) = (2, bs)"

fun dependency_rank ::
    "ReadDependency \<Rightarrow> nat \<times> ulid \<times> ulid \<times> u64 option \<times> (nat \<times> bytes) \<times> (nat \<times> bytes) \<times> u64" where
  "dependency_rank (DepPoint t d r s) = (0, t, d, r, (0, []), (0, []), s)"
| "dependency_rank (DepRange i lower upper s) = (1, i, 0, None, bound_rank lower, bound_rank upper, s)"

lemma bound_rank_inject [simp]: "bound_rank a = bound_rank b \<longleftrightarrow> a = b"
  by (cases a; cases b) auto

lemma dependency_rank_inject [simp]: "dependency_rank a = dependency_rank b \<longleftrightarrow> a = b"
  by (cases a; cases b) auto

instantiation ReadDependency :: linorder
begin

definition less_eq_ReadDependency :: "ReadDependency \<Rightarrow> ReadDependency \<Rightarrow> bool" where
  "less_eq_ReadDependency a b \<longleftrightarrow> dependency_rank a \<le> dependency_rank b"

definition less_ReadDependency :: "ReadDependency \<Rightarrow> ReadDependency \<Rightarrow> bool" where
  "less_ReadDependency a b \<longleftrightarrow> dependency_rank a < dependency_rank b"

instance
  by standard (auto simp: less_eq_ReadDependency_def less_ReadDependency_def less_le)

end

section \<open>Requests and results\<close>

datatype DataBoundKind = BoundInclusive | BoundExclusive

record DataKeyBound =
  dkb_kind :: DataBoundKind
  dkb_key :: bytes

record DataScanRequest =
  scan_index_id :: IndexId
  scan_lower :: "DataKeyBound option"
  scan_upper :: "DataKeyBound option"
  scan_limit :: u32

record DataIndexEntry =
  die_index_id :: IndexId
  die_key :: bytes
  die_table_id :: TableId
  die_document_id :: DocumentId
  die_document_revision :: u64
  die_commit_sequence :: u64

record QueryOutcome =
  qo_value :: CanonicalValue
  qo_snapshot_sequence :: "u64 option"
  qo_dependencies :: "ReadDependency list"

datatype ExecutionError = QueryRuntime RuntimeError | QueryStorage StoreError | QueryData DataReadError

datatype QuerySessionFailure = QueryFailStore StoreError | QueryFailData DataReadError

fun into_execution :: "QuerySessionFailure \<Rightarrow> ExecutionError" where
  "into_execution (QueryFailStore e) = QueryStorage e"
| "into_execution (QueryFailData e) = QueryData e"

section \<open>The session\<close>

definition MAX_DEPENDENCIES :: nat where "MAX_DEPENDENCIES = 10000"
definition MAX_SCAN_ROWS :: nat where "MAX_SCAN_ROWS = 10000"

record QueryState =
  qs_snapshot :: "ReadSnapshot option"
  qs_snapshot_sequence :: "u64 option"
  qs_dependencies :: "ReadDependency list"
  qs_scan_rows :: nat
  qs_failure :: "QuerySessionFailure option"
  qs_closed :: bool

definition query_state_new :: QueryState where
  "query_state_new =
     \<lparr>qs_snapshot = None, qs_snapshot_sequence = None, qs_dependencies = [], qs_scan_rows = 0, qs_failure = None,
      qs_closed = False\<rparr>"

abbreviation query_latch :: "QuerySessionFailure \<Rightarrow> QueryState \<Rightarrow> QueryState" where
  "query_latch failure st \<equiv> st\<lparr>qs_failure := Some failure\<rparr>"

definition latch_store :: "StoreError \<Rightarrow> QueryState \<Rightarrow> (DataReadError + 'a) \<times> QueryState" where
  "latch_store err st = (Inl ReadStorage, query_latch (QueryFailStore err) st)"

definition latch_limit :: "QueryState \<Rightarrow> (DataReadError + 'a) \<times> QueryState" where
  "latch_limit st = (Inl ReadLimitExceeded, query_latch (QueryFailData ReadLimitExceeded) st)"

text \<open>An awaited call of the store: it is cancelled, times out, fails or answers.\<close>

definition query_awaited ::
    "io_event \<Rightarrow> StoreError + 'a \<Rightarrow> QueryState \<Rightarrow> (DataReadError + 'a) \<times> QueryState" where
  "query_awaited io answer st =
     (case io of
        Cancels \<Rightarrow> (Inl ReadCancelled, query_latch (QueryFailData ReadCancelled) st)
      | TimesOut \<Rightarrow> (Inl ReadTimeout, query_latch (QueryFailData ReadTimeout) st)
      | StoreFails err \<Rightarrow> latch_store err st
      | Proceeds \<Rightarrow> (case answer of Inl err \<Rightarrow> latch_store err st | Inr x \<Rightarrow> (Inr x, st)))"

definition ensure_query_snapshot ::
    "ulid_crate \<Rightarrow> EnvironmentScope \<Rightarrow> database \<Rightarrow> io_event \<Rightarrow> QueryState \<Rightarrow> (DataReadError + ReadSnapshot) \<times> QueryState" where
  "ensure_query_snapshot U scope db io st =
     (if qs_closed st \<or> qs_failure st \<noteq> None then (Inl ReadUnavailable, st)
      else case qs_snapshot st of
        Some snapshot \<Rightarrow> (Inr snapshot, st)
      | None \<Rightarrow>
          (case query_awaited io (open_snapshot U scope db) st of
             (Inl err, st1) \<Rightarrow> (Inl err, st1)
           | (Inr snapshot, st1) \<Rightarrow>
               (Inr snapshot, st1\<lparr>qs_snapshot_sequence := Some (snap_sequence snapshot), qs_snapshot := Some snapshot\<rparr>)))"

text \<open>\<open>BTreeSet::insert\<close> below the limit on dependencies.\<close>

definition add_dependency :: "ReadDependency \<Rightarrow> 'a \<Rightarrow> QueryState \<Rightarrow> (DataReadError + 'a) \<times> QueryState" where
  "add_dependency dependency answer st =
     (if dependency \<notin> set (qs_dependencies st) \<and> length (qs_dependencies st) \<ge> MAX_DEPENDENCIES then latch_limit st
      else (Inr answer, st\<lparr>qs_dependencies := insort_insert dependency (qs_dependencies st)\<rparr>))"

definition query_get ::
    "ulid_crate \<Rightarrow> EnvironmentScope \<Rightarrow> database \<Rightarrow> io_event \<times> io_event \<Rightarrow> TableId \<Rightarrow> DocumentId \<Rightarrow> QueryState
     \<Rightarrow> (DataReadError + DataDocument option) \<times> QueryState" where
  "query_get U scope db io t d st =
     (case ensure_query_snapshot U scope db (fst io) st of
        (Inl err, st1) \<Rightarrow> (Inl err, st1)
      | (Inr snapshot, st1) \<Rightarrow>
          (case query_awaited (snd io) (get_document U scope t d (snap_database snapshot)) st1 of
             (Inl err, st2) \<Rightarrow> (Inl err, st2)
           | (Inr document, st2) \<Rightarrow>
               (case qs_snapshot_sequence st2 of
                  None \<Rightarrow> (Inl ReadUnavailable, st2)
                | Some sequence \<Rightarrow>
                    if record_corrupt t d sequence document then latch_store Corruption st2
                    else add_dependency (DepPoint t d (map_option dr_revision document) sequence)
                           (map_option data_document document) st2)))"

section \<open>Scans\<close>

definition convert_bound :: "ulid_crate \<Rightarrow> DataKeyBound option \<Rightarrow> DataReadError + KeyBound \<times> DependencyBound" where
  "convert_bound U bound =
     (case bound of
        None \<Rightarrow> Inr (Unbounded, DepUnbounded)
      | Some b \<Rightarrow>
          bindR (map_errR (\<lambda>_. ReadInvalidRequest) (index_key_decode U (dkb_key b))) (\<lambda>canonical.
            Inr (case dkb_kind b of
                   BoundInclusive \<Rightarrow> (Inclusive (encoded canonical), DepInclusive (encoded canonical))
                 | BoundExclusive \<Rightarrow> (Exclusive (encoded canonical), DepExclusive (encoded canonical)))))"

definition key_in_range :: "bytes \<Rightarrow> IndexRange \<Rightarrow> bool" where
  "key_in_range key rng \<longleftrightarrow>
     (case range_lower rng of Unbounded \<Rightarrow> True | Inclusive b \<Rightarrow> key \<ge> b | Exclusive b \<Rightarrow> key > b) \<and>
     (case range_upper rng of Unbounded \<Rightarrow> True | Inclusive b \<Rightarrow> key \<le> b | Exclusive b \<Rightarrow> key < b)"

fun valid_entries_from ::
    "(bytes \<times> DocumentId) option \<Rightarrow> IndexEntry list \<Rightarrow> IndexId \<Rightarrow> IndexRange \<Rightarrow> u64 \<Rightarrow> bool" where
  "valid_entries_from previous [] i rng sequence = True"
| "valid_entries_from previous (e # es) i rng sequence =
     (if ie_index_id e \<noteq> i \<or> ie_document_revision e = 0 \<or> ie_commit_sequence e > sequence
        \<or> \<not> key_in_range (encoded (ie_key e)) rng
        \<or> (case previous of None \<Rightarrow> False | Some p \<Rightarrow> p \<ge> (encoded (ie_key e), ie_document_id e))
      then False
      else valid_entries_from (Some (encoded (ie_key e), ie_document_id e)) es i rng sequence)"

definition valid_entries :: "IndexEntry list \<Rightarrow> IndexId \<Rightarrow> IndexRange \<Rightarrow> u32 \<Rightarrow> u64 \<Rightarrow> bool" where
  "valid_entries es i rng limit sequence =
     (if length es > unat limit then False else valid_entries_from None es i rng sequence)"

definition data_index_entry :: "IndexEntry \<Rightarrow> DataIndexEntry" where
  "data_index_entry e =
     \<lparr>die_index_id = ie_index_id e, die_key = encoded (ie_key e), die_table_id = ie_table_id e,
      die_document_id = ie_document_id e, die_document_revision = ie_document_revision e,
      die_commit_sequence = ie_commit_sequence e\<rparr>"

definition query_scan ::
    "ulid_crate \<Rightarrow> EnvironmentScope \<Rightarrow> database \<Rightarrow> io_event \<times> io_event \<Rightarrow> DataScanRequest \<Rightarrow> QueryState
     \<Rightarrow> (DataReadError + DataIndexEntry list) \<times> QueryState" where
  "query_scan U scope db io request st =
     (case bindR (convert_bound U (scan_lower request)) (\<lambda>(lower, lower_dependency).
           bindR (convert_bound U (scan_upper request)) (\<lambda>(upper, upper_dependency).
           bindR (map_errR (\<lambda>_. ReadInvalidRequest)
               (index_range_validate (index_range_between lower upper) (scan_limit request))) (\<lambda>_.
             Inr (index_range_between lower upper, lower_dependency, upper_dependency)))) of
        Inl err \<Rightarrow> (Inl err, st)
      | Inr (rng, lower_dependency, upper_dependency) \<Rightarrow>
          (case ensure_query_snapshot U scope db (fst io) st of
             (Inl err, st1) \<Rightarrow> (Inl err, st1)
           | (Inr snapshot, st1) \<Rightarrow>
               (case query_awaited (snd io)
                    (scan_index U scope (scan_index_id request) rng (scan_limit request) (snap_database snapshot)) st1 of
                  (Inl err, st2) \<Rightarrow> (Inl err, st2)
                | (Inr entries, st2) \<Rightarrow>
                    (case qs_snapshot_sequence st2 of
                       None \<Rightarrow> (Inl ReadUnavailable, st2)
                     | Some sequence \<Rightarrow>
                         if \<not> valid_entries entries (scan_index_id request) rng (scan_limit request) sequence
                           then latch_store Corruption st2
                         else case checked_add_usize (qs_scan_rows st2) (length entries) of
                           None \<Rightarrow> latch_limit st2
                         | Some next_rows \<Rightarrow>
                             if next_rows > MAX_SCAN_ROWS then latch_limit st2
                             else add_dependency
                               (DepRange (scan_index_id request) lower_dependency upper_dependency sequence)
                               (map data_index_entry entries) (st2\<lparr>qs_scan_rows := next_rows\<rparr>)))))"

section \<open>Execution\<close>

datatype query_program =
  QueryReturn "RuntimeError + CanonicalValue"
| QueryGet TableId DocumentId "DataReadError + DataDocument option \<Rightarrow> query_program"
| QueryScan DataScanRequest "DataReadError + DataIndexEntry list \<Rightarrow> query_program"

primrec run_query ::
    "ulid_crate \<Rightarrow> EnvironmentScope \<Rightarrow> database \<Rightarrow> query_program \<Rightarrow> (io_event \<times> io_event) list \<Rightarrow> QueryState
     \<Rightarrow> (RuntimeError + CanonicalValue) \<times> QueryState" where
  "run_query U scope db (QueryReturn r) = (\<lambda>io st. (r, st))"
| "run_query U scope db (QueryGet t d k) = (\<lambda>io st.
     let (r, st') = query_get U scope db (next_io io) t d st in run_query U scope db (k r) (tl io) st')"
| "run_query U scope db (QueryScan request k) = (\<lambda>io st.
     let (r, st') = query_scan U scope db (next_io io) request st in run_query U scope db (k r) (tl io) st')"

text \<open>
  \<open>abandoned\<close> tells whether a read was still in flight when the runtime gave up, and \<open>close\<close> what happens to
  closing the snapshot.
\<close>

definition query_failure :: "bool \<Rightarrow> RuntimeError option \<Rightarrow> QueryState \<Rightarrow> QuerySessionFailure option" where
  "query_failure abandoned runtime_failure st =
     (case qs_failure st of
        Some failure \<Rightarrow> Some failure
      | None \<Rightarrow>
          if \<not> abandoned then None
          else (case runtime_failure of
              None \<Rightarrow> Some (QueryFailData ReadUnavailable)
            | Some err \<Rightarrow>
                if err = RuntimeDeadlineExceeded then Some (QueryFailData ReadTimeout)
                else if err = RuntimeCancelled then Some (QueryFailData ReadCancelled)
                else None))"

definition close_query :: "io_event \<Rightarrow> QuerySessionFailure + unit" where
  "close_query close =
     (case close of
        StoreFails err \<Rightarrow> Inl (QueryFailStore err)
      | TimesOut \<Rightarrow> Inl (QueryFailData ReadTimeout)
      | _ \<Rightarrow> Inr ())"

definition query_finish ::
    "bool \<Rightarrow> io_event \<Rightarrow> RuntimeError option \<Rightarrow> QueryState
     \<Rightarrow> QuerySessionFailure + u64 option \<times> ReadDependency list" where
  "query_finish abandoned close runtime_failure st =
     bindR (case qs_snapshot st of None \<Rightarrow> Inr () | Some _ \<Rightarrow> close_query close) (\<lambda>_.
       case query_failure abandoned runtime_failure st of
         Some failure \<Rightarrow> Inl failure
       | None \<Rightarrow> Inr (qs_snapshot_sequence st, qs_dependencies st))"

definition selected_query :: "InvocationRequest \<Rightarrow> RuntimeError + FunctionManifest" where
  "selected_query request =
     bindR (ok_or RuntimeInvalidInvocation
         (List.find (\<lambda>f. fm_id f = rq_function_id request) (rq_functions request))) (\<lambda>selected.
       if fm_function_type selected \<noteq> FnQuery then Inl RuntimeInvalidInvocation else Inr selected)"

definition execute_query ::
    "ulid_crate \<Rightarrow> InvocationRequest \<Rightarrow> query_program \<Rightarrow> (io_event \<times> io_event) list \<Rightarrow> bool \<Rightarrow> io_event \<Rightarrow> database
     \<Rightarrow> ExecutionError + QueryOutcome" where
  "execute_query U request program io abandoned close db =
     bindR (map_errR QueryRuntime (selected_query request)) (\<lambda>_.
       let (runtime_result, st) = run_query U (rq_scope request) db program io query_state_new in
       bindR (map_errR into_execution
           (query_finish abandoned close (case runtime_result of Inl err \<Rightarrow> Some err | Inr _ \<Rightarrow> None) st))
         (\<lambda>(snapshot_sequence, dependencies).
           bindR (map_errR QueryRuntime runtime_result) (\<lambda>v.
             Inr \<lparr>qo_value = v, qo_snapshot_sequence = snapshot_sequence, qo_dependencies = dependencies\<rparr>)))"

end
