(* ===== verification/Query_Refinement.thy ===== *)
theory Query_Refinement
  imports Query_Session Mutation_Atomic
begin

text \<open>
  The dependencies of a Query determine its result: on a later database in which what they name is
  unchanged, the Query returns the same value and the same dependencies, at the sequence of the new
  snapshot.
\<close>

section \<open>Dependencies at another snapshot\<close>

fun reseq :: "u64 \<Rightarrow> ReadDependency \<Rightarrow> ReadDependency" where
  "reseq s (DepPoint t d r _) = DepPoint t d r s"
| "reseq s (DepRange i lower upper _) = DepRange i lower upper s"

fun dep_seq :: "ReadDependency \<Rightarrow> u64" where
  "dep_seq (DepPoint _ _ _ s) = s"
| "dep_seq (DepRange _ _ _ s) = s"

lemma dep_seq_reseq [simp]: "dep_seq (reseq s x) = s"
  by (cases x) simp_all

lemma reseq_inject: "dep_seq x = dep_seq y \<Longrightarrow> reseq s x = reseq s y \<longleftrightarrow> x = y"
  by (cases x; cases y) auto

lemma reseq_le: "dep_seq x = dep_seq y \<Longrightarrow> reseq s x \<le> reseq s y \<longleftrightarrow> x \<le> y"
  by (cases x; cases y) (auto simp: less_eq_ReadDependency_def)

lemma insort_reseq:
  "\<forall>y \<in> set ys. dep_seq y = dep_seq x \<Longrightarrow> insort (reseq s x) (map (reseq s) ys) = map (reseq s) (insort x ys)"
  by (induction ys) (auto simp: reseq_le)

lemma insort_insert_reseq:
  assumes "\<forall>y \<in> set ys. dep_seq y = dep_seq x"
  shows "insort_insert (reseq s x) (map (reseq s) ys) = map (reseq s) (insort_insert x ys)"
proof -
  have "reseq s x \<in> set (map (reseq s) ys) \<longleftrightarrow> x \<in> set ys" using assms reseq_inject by fastforce
  then show ?thesis using insort_reseq [OF assms] by (simp add: insort_insert_key_def)
qed

section \<open>Two sessions side by side\<close>

definition same_query :: "ulid_crate \<Rightarrow> EnvironmentScope \<Rightarrow> database \<Rightarrow> database \<Rightarrow> QueryState \<Rightarrow> QueryState \<Rightarrow> bool" where
  "same_query U scope db db' st st' \<longleftrightarrow>
     \<not> qs_closed st \<and> \<not> qs_closed st' \<and> qs_failure st = None \<and> qs_failure st' = None \<and>
     qs_scan_rows st' = qs_scan_rows st \<and>
     (case qs_snapshot st of
        None \<Rightarrow> qs_snapshot st' = None \<and> qs_snapshot_sequence st = None \<and> qs_snapshot_sequence st' = None \<and>
          qs_dependencies st = [] \<and> qs_dependencies st' = []
      | Some snap \<Rightarrow> \<exists>snap'. qs_snapshot st' = Some snap' \<and>
          open_snapshot U scope db = Inr snap \<and> open_snapshot U scope db' = Inr snap' \<and>
          qs_snapshot_sequence st = Some (snap_sequence snap) \<and> qs_snapshot_sequence st' = Some (snap_sequence snap') \<and>
          (\<forall>x \<in> set (qs_dependencies st). dep_seq x = snap_sequence snap) \<and>
          qs_dependencies st' = map (reseq (snap_sequence snap')) (qs_dependencies st))"

definition both_open :: "ulid_crate \<Rightarrow> EnvironmentScope \<Rightarrow> database \<Rightarrow> database \<Rightarrow> ReadSnapshot \<Rightarrow> ReadSnapshot
     \<Rightarrow> QueryState \<Rightarrow> QueryState \<Rightarrow> bool" where
  "both_open U scope db db' snap snap' st st' \<longleftrightarrow>
     same_query U scope db db' st st' \<and> qs_snapshot st = Some snap \<and> qs_snapshot st' = Some snap'"

lemma both_open_facts:
  assumes "both_open U scope db db' snap snap' st st'"
  shows "open_snapshot U scope db = Inr snap" "open_snapshot U scope db' = Inr snap'"
    "snap_database snap = db" "snap_database snap' = db'"
    "qs_snapshot_sequence st = Some (snap_sequence snap)" "qs_snapshot_sequence st' = Some (snap_sequence snap')"
    "\<forall>x \<in> set (qs_dependencies st). dep_seq x = snap_sequence snap"
    "qs_dependencies st' = map (reseq (snap_sequence snap')) (qs_dependencies st)"
    "qs_scan_rows st' = qs_scan_rows st" "qs_failure st = None" "qs_failure st' = None"
  using assms open_snapshot_database by (auto simp: both_open_def same_query_def)

lemma query_awaited_Inr:
  "query_awaited io answer st = (r, st') \<Longrightarrow> qs_failure st' = None \<Longrightarrow> \<exists>x. answer = Inr x \<and> r = Inr x \<and> st' = st"
  by (auto simp: query_awaited_def latch_store_def split: io_event.splits sum.splits)

lemma ensure_again:
  assumes "same_query U scope db db' st st'" and "ensure_query_snapshot U scope db io st = (r, st1)"
    and "qs_failure st1 = None" and "db_ok U db'"
  shows "\<exists>snap snap' st1'. r = Inr snap \<and> ensure_query_snapshot U scope db' Proceeds st' = (Inr snap', st1') \<and>
    both_open U scope db db' snap snap' st1 st1' \<and> qs_dependencies st1 = qs_dependencies st"
proof (cases "qs_snapshot st")
  case (Some snap)
  with assms(1,2) show ?thesis
    by (auto simp: same_query_def ensure_query_snapshot_def both_open_def)
next
  case None
  from open_snapshot_Inr [OF assms(4)] obtain snap' where snap': "open_snapshot U scope db' = Inr snap'" by blast
  obtain q st2 where aw: "query_awaited io (open_snapshot U scope db) st = (q, st2)" by force
  with None assms(1,2) have r: "(case q of Inl err \<Rightarrow> (Inl err, st2) | Inr snapshot \<Rightarrow>
      (Inr snapshot, st2\<lparr>qs_snapshot_sequence := Some (snap_sequence snapshot), qs_snapshot := Some snapshot\<rparr>)) = (r, st1)"
    by (simp add: ensure_query_snapshot_def same_query_def split: sum.splits)
  have "qs_failure st2 = None" using r assms(3) by (cases q) auto
  from query_awaited_Inr [OF aw this] obtain snap where s: "open_snapshot U scope db = Inr snap" "q = Inr snap" "st2 = st"
    by blast
  with r snap' None assms(1) show ?thesis
    by (auto simp: same_query_def ensure_query_snapshot_def both_open_def query_awaited_def)
qed

lemma add_dependency_again:
  assumes "both_open U scope db db' snap snap' st st'" and "add_dependency x a st = (r, st1)"
    and "qs_failure st1 = None" and "dep_seq x = snap_sequence snap"
  shows "r = Inr a \<and> x \<in> set (qs_dependencies st1) \<and> set (qs_dependencies st) \<subseteq> set (qs_dependencies st1) \<and>
    (\<exists>st1'. add_dependency (reseq (snap_sequence snap') x) a st' = (Inr a, st1') \<and> both_open U scope db db' snap snap' st1 st1')"
proof -
  note f = both_open_facts [OF assms(1)]
  have mem: "reseq (snap_sequence snap') x \<in> set (qs_dependencies st') \<longleftrightarrow> x \<in> set (qs_dependencies st)"
    using f(7,8) assms(4) reseq_inject by fastforce
  have ins: "insort_insert (reseq (snap_sequence snap') x) (qs_dependencies st') =
      map (reseq (snap_sequence snap')) (insort_insert x (qs_dependencies st))"
    unfolding f(8) by (rule insort_insert_reseq) (use f(7) assms(4) in simp)
  from assms(2,3) have st1: "r = Inr a" "st1 = st\<lparr>qs_dependencies := insort_insert x (qs_dependencies st)\<rparr>"
    "\<not> (x \<notin> set (qs_dependencies st) \<and> length (qs_dependencies st) \<ge> MAX_DEPENDENCIES)"
    by (auto simp: add_dependency_def latch_limit_def split: if_splits)
  then have "add_dependency (reseq (snap_sequence snap') x) a st' =
      (Inr a, st'\<lparr>qs_dependencies := map (reseq (snap_sequence snap')) (insort_insert x (qs_dependencies st))\<rparr>)"
    using mem ins f(8) by (auto simp: add_dependency_def)
  moreover have "both_open U scope db db' snap snap' st1
      (st'\<lparr>qs_dependencies := map (reseq (snap_sequence snap')) (insort_insert x (qs_dependencies st))\<rparr>)"
    using assms(1,4) by (auto simp: both_open_def same_query_def st1(2) set_insort_insert)
  ultimately show ?thesis using st1 by (auto simp: set_insort_insert)
qed

section \<open>Reads\<close>

fun key_bound :: "DependencyBound \<Rightarrow> KeyBound" where
  "key_bound DepUnbounded = Unbounded"
| "key_bound (DepInclusive bs) = Inclusive bs"
| "key_bound (DepExclusive bs) = Exclusive bs"

fun unchanged :: "ulid_crate \<Rightarrow> EnvironmentScope \<Rightarrow> database \<Rightarrow> database \<Rightarrow> ReadDependency \<Rightarrow> bool" where
  "unchanged U scope db db' (DepPoint t d r s) \<longleftrightarrow> get_document U scope t d db' = get_document U scope t d db"
| "unchanged U scope db db' (DepRange i lower upper s) \<longleftrightarrow>
     (\<forall>limit. scan_index U scope i (index_range_between (key_bound lower) (key_bound upper)) limit db' =
        scan_index U scope i (index_range_between (key_bound lower) (key_bound upper)) limit db)"

lemma unchanged_reseq [simp]: "unchanged U scope db db' (reseq s x) \<longleftrightarrow> unchanged U scope db db' x"
  by (cases x) simp_all

lemma get_again:
  assumes "same_query U scope db db' st st'" and "query_get U scope db io t d st = (r, st1)"
    and "qs_failure st1 = None" and "db_ok U db'" and "\<forall>x \<in> set (qs_dependencies st1). unchanged U scope db db' x"
  shows "\<exists>st1'. query_get U scope db' (Proceeds, Proceeds) t d st' = (r, st1') \<and> same_query U scope db db' st1 st1' \<and>
    set (qs_dependencies st) \<subseteq> set (qs_dependencies st1)"
proof -
  obtain q st2 where e: "ensure_query_snapshot U scope db (fst io) st = (q, st2)" by force
  have "qs_failure (snd (query_get U scope db io t d st)) \<noteq> None" if "qs_failure st2 \<noteq> None"
    using that by (cases q; cases "snd io")
      (simp_all add: query_get_def e query_awaited_def latch_store_def latch_limit_def add_dependency_def
        split: sum.split option.split)
  with assms(2,3) have "qs_failure st2 = None" by (metis snd_conv)
  from ensure_again [OF assms(1) e this assms(4)] obtain snap snap' st2' where s: "q = Inr snap"
    "ensure_query_snapshot U scope db' Proceeds st' = (Inr snap', st2')" "both_open U scope db db' snap snap' st2 st2'"
    "qs_dependencies st2 = qs_dependencies st" by blast
  note f = both_open_facts [OF s(3)]
  obtain p st3 where a: "query_awaited (snd io) (get_document U scope t d (snap_database snap)) st2 = (p, st3)" by force
  have "qs_failure st3 = None"
    using assms(2,3) e s(1) a
    by (auto simp: query_get_def latch_store_def latch_limit_def add_dependency_def
        split: sum.splits prod.splits option.splits if_splits)
  from query_awaited_Inr [OF a this] obtain found where g: "get_document U scope t d db = Inr found" "p = Inr found" "st3 = st2"
    using f(3) by auto
  let ?x = "DepPoint t d (map_option dr_revision found) (snap_sequence snap)"
  have run: "(if record_corrupt t d (snap_sequence snap) found then latch_store Corruption st2
      else add_dependency ?x (map_option data_document found) st2) = (r, st1)"
    using assms(2) e s(1) a g f(5) by (simp add: query_get_def)
  then have ok: "\<not> record_corrupt t d (snap_sequence snap) found"
    and add: "add_dependency ?x (map_option data_document found) st2 = (r, st1)"
    using assms(3) by (auto simp: latch_store_def split: if_splits)
  from add_dependency_again [OF s(3) add assms(3)] obtain st1' where d: "r = Inr (map_option data_document found)"
    "?x \<in> set (qs_dependencies st1)" "set (qs_dependencies st2) \<subseteq> set (qs_dependencies st1)"
    "add_dependency (reseq (snap_sequence snap') ?x) (map_option data_document found) st2' =
      (Inr (map_option data_document found), st1')" "both_open U scope db db' snap snap' st1 st1'" by auto
  from d(2) assms(5) g(1) have g': "get_document U scope t d db' = Inr found" by fastforce
  have "\<not> record_corrupt t d (snap_sequence snap') found"
    using ok record_sequence_bound [OF assms(4) f(2)] g' by (auto simp: record_corrupt_def not_less split: option.splits)
  with s(2) g' d(4) f(4,6) have "query_get U scope db' (Proceeds, Proceeds) t d st' = (r, st1')"
    by (simp add: query_get_def query_awaited_def d(1))
  with d(3,5) s(4) show ?thesis by (auto simp: both_open_def)
qed

lemma traverseR_member: "traverseR f xs = Inr ys \<Longrightarrow> y \<in> set ys \<Longrightarrow> \<exists>x \<in> set xs. f x = Inr y"
  by (induction xs arbitrary: ys) auto

lemma index_sequence_bound:
  assumes "db_ok U db" and "open_snapshot U scope db = Inr snap" and "scan_index U scope i rng limit db = Inr es"
    and "e \<in> set es"
  shows "ie_commit_sequence e \<le> snap_sequence snap"
proof -
  let ?p = "project_text U scope" and ?e = "environment_text U scope"
  let ?rows = "take (unat limit) (sql_select (\<lambda>r. iw_project r = ?p \<and> iw_environment r = ?e \<and>
      iw_index r = index_text U i \<and> above_lower (range_lower rng) (iw_key r) \<and> below_upper (range_upper rng) (iw_key r))
    (\<lambda>r. (iw_key r, iw_document r)) (db_indexes db))"
  from assms(3) have "traverseR (decode_index_row U) ?rows = Inr es" by (auto simp: scan_index_def)
  from traverseR_member [OF this assms(4)] obtain row where row: "row \<in> set ?rows" "decode_index_row U row = Inr e"
    by blast
  from in_set_takeD [OF row(1)] have r: "row \<in> set (db_indexes db)" "iw_project row = ?p" "iw_environment row = ?e"
    by (simp_all add: sql_select_def)
  then have "index_row_ok U (sequence_of (db_sequences db)) row"
    using assms(1) by (auto simp: db_ok_def tables_ok_def table_ok_def)
  then have w: "0 < iw_commit_sequence row" "iw_commit_sequence row \<le> sequence_of (db_sequences db) ?p ?e"
    using r by (simp_all add: index_row_ok_def written_def)
  have b: "sequence_of (db_sequences db) ?p ?e \<le> i64_max"
    using assms(1) by (intro sequence_of_bounds) (simp add: db_ok_def tables_ok_def)
  have "snap_sequence snap = word_of_int (sequence_of (db_sequences db) ?p ?e)"
    using assms(2) w by (auto simp: open_snapshot_def begin_read_def positive_or_zero_u64_Inr sequence_of_def split: option.splits)
  moreover have "ie_commit_sequence e = word_of_int (iw_commit_sequence row)"
    using row(2) by (auto simp: decode_index_row_def positive_u64_Inr)
  ultimately show ?thesis using w b by (simp add: word_le_def uint_of_i64)
qed

lemma valid_entries_again:
  assumes "valid_entries es i rng limit s" and "\<And>e. e \<in> set es \<Longrightarrow> ie_commit_sequence e \<le> s'"
  shows "valid_entries es i rng limit s'"
proof -
  have "valid_entries_from p es i rng s \<Longrightarrow> (\<And>e. e \<in> set es \<Longrightarrow> ie_commit_sequence e \<le> s') \<Longrightarrow> valid_entries_from p es i rng s'"
    for p es by (induction p es i rng s rule: valid_entries_from.induct) (auto simp: not_less split: if_splits)
  with assms show ?thesis by (auto simp: valid_entries_def split: if_splits)
qed

lemma convert_bound_key: "convert_bound U b = Inr (k, x) \<Longrightarrow> k = key_bound x"
  by (cases b; cases "dkb_kind (the b)") (auto simp: convert_bound_def)

lemma scan_again:
  assumes "same_query U scope db db' st st'" and "query_scan U scope db io request st = (r, st1)"
    and "qs_failure st1 = None" and "db_ok U db'" and "\<forall>x \<in> set (qs_dependencies st1). unchanged U scope db db' x"
  shows "\<exists>st1'. query_scan U scope db' (Proceeds, Proceeds) request st' = (r, st1') \<and> same_query U scope db db' st1 st1' \<and>
    set (qs_dependencies st) \<subseteq> set (qs_dependencies st1)"
proof -
  let ?i = "scan_index_id request" and ?n = "scan_limit request"
  define bounds where "bounds = bindR (convert_bound U (scan_lower request)) (\<lambda>(lower, lower_dependency).
       bindR (convert_bound U (scan_upper request)) (\<lambda>(upper, upper_dependency).
       bindR (map_errR (\<lambda>_. ReadInvalidRequest) (index_range_validate (index_range_between lower upper) ?n)) (\<lambda>_.
         Inr (index_range_between lower upper, lower_dependency, upper_dependency))))"
  show ?thesis
  proof (cases bounds)
    case (Inl err)
    with assms(1,2) show ?thesis by (auto simp: query_scan_def bounds_def [symmetric])
  next
    case (Inr b)
    then obtain rng lo up where b: "bounds = Inr (rng, lo, up)" by (cases b) auto
    then have rng: "rng = index_range_between (key_bound lo) (key_bound up)"
      unfolding bounds_def by (auto dest: convert_bound_key)
    obtain q st2 where e: "ensure_query_snapshot U scope db (fst io) st = (q, st2)" by force
    have "qs_failure (snd (query_scan U scope db io request st)) \<noteq> None" if "qs_failure st2 \<noteq> None"
      using that by (cases q; cases "snd io")
        (simp_all add: query_scan_def bounds_def [symmetric] b e query_awaited_def latch_store_def latch_limit_def
          add_dependency_def del: checked_add_usize_Some split: sum.split option.split)
    with assms(2,3) have "qs_failure st2 = None" by (metis snd_conv)
    from ensure_again [OF assms(1) e this assms(4)] obtain snap snap' st2' where s: "q = Inr snap"
      "ensure_query_snapshot U scope db' Proceeds st' = (Inr snap', st2')" "both_open U scope db db' snap snap' st2 st2'"
      "qs_dependencies st2 = qs_dependencies st" by blast
    note f = both_open_facts [OF s(3)]
    obtain p st3 where a: "query_awaited (snd io) (scan_index U scope ?i rng ?n (snap_database snap)) st2 = (p, st3)" by force
    have "qs_failure (snd (query_scan U scope db io request st)) \<noteq> None" if "qs_failure st3 \<noteq> None"
      using that by (simp add: query_scan_def bounds_def [symmetric] b e s(1) a latch_store_def latch_limit_def
          add_dependency_def del: checked_add_usize_Some split: sum.split option.split)
    with assms(2,3) have "qs_failure st3 = None" by (metis snd_conv)
    from query_awaited_Inr [OF a this] obtain es where g: "scan_index U scope ?i rng ?n db = Inr es" "p = Inr es" "st3 = st2"
      using f(3) by auto
    let ?x = "DepRange ?i lo up (snap_sequence snap)"
    have run: "(if \<not> valid_entries es ?i rng ?n (snap_sequence snap) then latch_store Corruption st2
        else case checked_add_usize (qs_scan_rows st2) (length es) of
          None \<Rightarrow> latch_limit st2
        | Some n \<Rightarrow> if n > MAX_SCAN_ROWS then latch_limit st2
            else add_dependency ?x (map data_index_entry es) (st2\<lparr>qs_scan_rows := n\<rparr>)) = (r, st1)"
      using assms(2) by (simp add: query_scan_def bounds_def [symmetric] b e s(1) a g f(5) del: checked_add_usize_Some)
    then have ok: "valid_entries es ?i rng ?n (snap_sequence snap)"
      using assms(3) by (auto simp: latch_store_def split: if_splits)
    with run assms(3) obtain n where n: "checked_add_usize (qs_scan_rows st2) (length es) = Some n"
      by (cases "checked_add_usize (qs_scan_rows st2) (length es)") (auto simp: latch_limit_def)
    with run ok assms(3) have max: "\<not> n > MAX_SCAN_ROWS" by (auto simp: latch_limit_def)
    with run ok n have add: "add_dependency ?x (map data_index_entry es) (st2\<lparr>qs_scan_rows := n\<rparr>) = (r, st1)" by simp
    have open_n: "both_open U scope db db' snap snap' (st2\<lparr>qs_scan_rows := n\<rparr>) (st2'\<lparr>qs_scan_rows := n\<rparr>)"
      using s(3) by (auto simp: both_open_def same_query_def)
    from add_dependency_again [OF open_n add assms(3)] obtain st1' where d: "r = Inr (map data_index_entry es)"
      "?x \<in> set (qs_dependencies st1)" "set (qs_dependencies st2) \<subseteq> set (qs_dependencies st1)"
      "add_dependency (reseq (snap_sequence snap') ?x) (map data_index_entry es) (st2'\<lparr>qs_scan_rows := n\<rparr>) =
        (Inr (map data_index_entry es), st1')" "both_open U scope db db' snap snap' st1 st1'" by auto
    from d(2) assms(5) g(1) have g': "scan_index U scope ?i rng ?n db' = Inr es" unfolding rng by fastforce
    have "valid_entries es ?i rng ?n (snap_sequence snap')"
      using ok index_sequence_bound [OF assms(4) f(2) g'] by (rule valid_entries_again)
    with s(2) g' d(4) f(4,6,9) n max b have "query_scan U scope db' (Proceeds, Proceeds) request st' = (r, st1')"
      by (simp add: query_scan_def bounds_def [symmetric] query_awaited_def d(1) del: checked_add_usize_Some)
    with d(3,5) s(4) show ?thesis by (auto simp: both_open_def)
  qed
qed

section \<open>Queries\<close>

lemma failed_reads:
  assumes "qs_failure st \<noteq> None"
  shows "qs_failure (snd (query_get U scope db io t d st)) \<noteq> None"
    and "qs_failure (snd (query_scan U scope db io request st)) \<noteq> None"
  using assms by (simp_all add: query_get_def query_scan_def ensure_query_snapshot_def split: sum.split)

lemma failed_query: "qs_failure st \<noteq> None \<Longrightarrow> qs_failure (snd (run_query U scope db program io st)) \<noteq> None"
proof (induction program arbitrary: io st)
  case (QueryGet t d k)
  then show ?case using failed_reads(1) [OF QueryGet.prems, of U scope db "next_io io" t d] by (simp add: split_beta)
next
  case (QueryScan request k)
  then show ?case using failed_reads(2) [OF QueryScan.prems, of U scope db "next_io io" request] by (simp add: split_beta)
qed simp

lemma query_awaited_dependencies [simp]: "qs_dependencies (snd (query_awaited io answer st)) = qs_dependencies st"
  by (simp add: query_awaited_def latch_store_def split: io_event.split sum.split)

lemma ensure_dependencies: "ensure_query_snapshot U scope db io st = (r, st1) \<Longrightarrow> qs_dependencies st1 = qs_dependencies st"
  by (auto simp: ensure_query_snapshot_def query_awaited_def latch_store_def split: option.splits io_event.splits sum.splits if_splits)

lemma add_dependency_keeps: "set (qs_dependencies st) \<subseteq> set (qs_dependencies (snd (add_dependency x a st)))"
  by (auto simp: add_dependency_def latch_limit_def set_insort_insert)

lemma query_get_keeps: "set (qs_dependencies st) \<subseteq> set (qs_dependencies (snd (query_get U scope db io t d st)))"
proof -
  obtain q st1 where e: "ensure_query_snapshot U scope db (fst io) st = (q, st1)" by force
  note 1 = ensure_dependencies [OF e]
  show ?thesis
  proof (cases q)
    case (Inr snap)
    obtain p st2 where a: "query_awaited (snd io) (get_document U scope t d (snap_database snap)) st1 = (p, st2)" by force
    with query_awaited_dependencies [of "snd io" "get_document U scope t d (snap_database snap)" st1] 1
    have d: "qs_dependencies st2 = qs_dependencies st" by simp
    have keep: "set (qs_dependencies st) \<subseteq> set (qs_dependencies (snd (add_dependency x y st2)))" for x and y :: "DataDocument option"
      using add_dependency_keeps [of st2 x y] d by simp
    show ?thesis
      by (simp add: query_get_def latch_store_def e a d keep Inr split: sum.split option.split)
  qed (use e 1 in \<open>simp add: query_get_def\<close>)
qed

lemma query_scan_keeps: "set (qs_dependencies st) \<subseteq> set (qs_dependencies (snd (query_scan U scope db io request st)))"
proof -
  let ?i = "scan_index_id request" and ?n = "scan_limit request"
  define bounds where "bounds = bindR (convert_bound U (scan_lower request)) (\<lambda>(lower, lower_dependency).
       bindR (convert_bound U (scan_upper request)) (\<lambda>(upper, upper_dependency).
       bindR (map_errR (\<lambda>_. ReadInvalidRequest) (index_range_validate (index_range_between lower upper) ?n)) (\<lambda>_.
         Inr (index_range_between lower upper, lower_dependency, upper_dependency))))"
  obtain q st1 where e: "ensure_query_snapshot U scope db (fst io) st = (q, st1)" by force
  note 1 = ensure_dependencies [OF e]
  show ?thesis
  proof (cases "\<exists>rng lo up snap. bounds = Inr (rng, lo, up) \<and> q = Inr snap")
    case True
    then obtain rng lo up snap where b: "bounds = Inr (rng, lo, up)" "q = Inr snap" by blast
    obtain p st2 where a: "query_awaited (snd io) (scan_index U scope ?i rng ?n (snap_database snap)) st1 = (p, st2)" by force
    with query_awaited_dependencies [of "snd io" "scan_index U scope ?i rng ?n (snap_database snap)" st1] 1
    have d: "qs_dependencies st2 = qs_dependencies st" by simp
    have keep: "set (qs_dependencies st) \<subseteq> set (qs_dependencies (snd (add_dependency x y (st2\<lparr>qs_scan_rows := n\<rparr>))))"
      for x n and y :: "DataIndexEntry list"
      using add_dependency_keeps [of "st2\<lparr>qs_scan_rows := n\<rparr>" x y] d by simp
    show ?thesis
      by (simp add: query_scan_def bounds_def [symmetric] b e a d keep latch_store_def latch_limit_def
          del: checked_add_usize_Some split: sum.split option.split)
  next
    case False
    then show ?thesis using e 1
      by (cases bounds; cases q) (auto simp: query_scan_def bounds_def [symmetric])
  qed
qed

lemma run_query_keeps:
  "run_query U scope db program io st = (r, st') \<Longrightarrow> set (qs_dependencies st) \<subseteq> set (qs_dependencies st')"
proof (induction program arbitrary: io st)
  case (QueryGet t d k)
  obtain q st2 where g: "query_get U scope db (next_io io) t d st = (q, st2)" by force
  with QueryGet.prems QueryGet.IH [of "k q" "tl io" st2] query_get_keeps [of st U scope db "next_io io" t d] show ?case by auto
next
  case (QueryScan request k)
  obtain q st2 where g: "query_scan U scope db (next_io io) request st = (q, st2)" by force
  with QueryScan.prems QueryScan.IH [of "k q" "tl io" st2] query_scan_keeps [of st U scope db "next_io io" request] show ?case by auto
qed simp

lemma query_again:
  assumes "run_query U scope db program io st = (r, st1)" and "qs_failure st1 = None" and "db_ok U db'"
    and "same_query U scope db db' st st'" and "\<forall>x \<in> set (qs_dependencies st1). unchanged U scope db db' x"
  shows "\<exists>st1'. run_query U scope db' program [] st' = (r, st1') \<and> same_query U scope db db' st1 st1'"
  using assms(1,4)
proof (induction program arbitrary: io st st')
  case (QueryReturn x)
  then show ?case by simp
next
  case (QueryGet t d k)
  obtain q st2 where g: "query_get U scope db (next_io io) t d st = (q, st2)" by force
  with QueryGet.prems(1) have rest: "run_query U scope db (k q) (tl io) st2 = (r, st1)" by simp
  have alive: "qs_failure st2 = None"
    using failed_query [of st2 U scope db "k q" "tl io"] rest assms(2) by (metis snd_conv)
  have "\<forall>x \<in> set (qs_dependencies st2). unchanged U scope db db' x" using run_query_keeps [OF rest] assms(5) by blast
  from get_again [OF QueryGet.prems(2) g alive assms(3) this] obtain st2' where
    "query_get U scope db' (Proceeds, Proceeds) t d st' = (q, st2')" "same_query U scope db db' st2 st2'" by blast
  with QueryGet.IH [OF rangeI rest] show ?case by (simp add: next_io_def)
next
  case (QueryScan request k)
  obtain q st2 where g: "query_scan U scope db (next_io io) request st = (q, st2)" by force
  with QueryScan.prems(1) have rest: "run_query U scope db (k q) (tl io) st2 = (r, st1)" by simp
  have alive: "qs_failure st2 = None"
    using failed_query [of st2 U scope db "k q" "tl io"] rest assms(2) by (metis snd_conv)
  have "\<forall>x \<in> set (qs_dependencies st2). unchanged U scope db db' x" using run_query_keeps [OF rest] assms(5) by blast
  from scan_again [OF QueryScan.prems(2) g alive assms(3) this] obtain st2' where
    "query_scan U scope db' (Proceeds, Proceeds) request st' = (q, st2')" "same_query U scope db db' st2 st2'" by blast
  with QueryScan.IH [OF rangeI rest] show ?case by (simp add: next_io_def)
qed

section \<open>Executions\<close>

lemma execute_query_Inr:
  "execute_query U request program io abandoned close db = Inr out \<longleftrightarrow>
     (\<exists>f st. selected_query request = Inr f \<and>
        run_query U (rq_scope request) db program io query_state_new = (Inr (qo_value out), st) \<and>
        (qs_snapshot st \<noteq> None \<longrightarrow> close_query close = Inr ()) \<and> query_failure abandoned None st = None \<and>
        qo_snapshot_sequence out = qs_snapshot_sequence st \<and> qo_dependencies out = qs_dependencies st)"
  by (cases "run_query U (rq_scope request) db program io query_state_new")
    (auto simp: execute_query_def query_finish_def split: option.splits sum.splits)

lemma query_failure_None: "query_failure abandoned None st = None \<longleftrightarrow> qs_failure st = None \<and> \<not> abandoned"
  by (auto simp: query_failure_def split: option.splits)

lemma same_query_new [simp]: "same_query U scope db db' query_state_new query_state_new"
  by (simp add: same_query_def query_state_new_def)

lemma execute_query_again:
  assumes "execute_query U request program io abandoned close db = Inr out" and "db_ok U db'"
    and "\<forall>x \<in> set (qo_dependencies out). unchanged U (rq_scope request) db db' x"
  shows "\<exists>out'. execute_query U request program [] False Proceeds db' = Inr out' \<and> qo_value out' = qo_value out \<and>
    (case qo_snapshot_sequence out' of None \<Rightarrow> qo_snapshot_sequence out = None \<and> qo_dependencies out' = []
     | Some s \<Rightarrow> qo_dependencies out' = map (reseq s) (qo_dependencies out))"
proof -
  from assms(1) obtain f st where e: "selected_query request = Inr f"
    "run_query U (rq_scope request) db program io query_state_new = (Inr (qo_value out), st)"
    "qs_failure st = None" "qo_snapshot_sequence out = qs_snapshot_sequence st" "qo_dependencies out = qs_dependencies st"
    by (auto simp: execute_query_Inr query_failure_None)
  from query_again [OF e(2,3) assms(2) same_query_new] assms(3) e(5) obtain st' where
    r: "run_query U (rq_scope request) db' program [] query_state_new = (Inr (qo_value out), st')"
      "same_query U (rq_scope request) db db' st st'" by auto
  let ?out = "\<lparr>qo_value = qo_value out, qo_snapshot_sequence = qs_snapshot_sequence st', qo_dependencies = qs_dependencies st'\<rparr>"
  have "execute_query U request program [] False Proceeds db' = Inr ?out"
    using e(1) r by (auto simp: execute_query_Inr query_failure_None close_query_def same_query_def)
  moreover have "case qs_snapshot_sequence st' of None \<Rightarrow> qs_snapshot_sequence st = None \<and> qs_dependencies st' = []
     | Some s \<Rightarrow> qs_dependencies st' = map (reseq s) (qs_dependencies st)"
    using r(2) by (auto simp: same_query_def split: option.splits)
  ultimately show ?thesis using e(4,5) by (intro exI [of _ ?out]) (simp split: option.splits)
qed

end
