(* ===== verification/Realtime_Impact.thy ===== *)
theory Realtime_Impact
  imports Query_Refinement
begin

text \<open>
  Change impacts of \<open>runku-realtime/src/lib.rs\<close>: the durable payload a Mutation leaves in the
  outbox is decoded strictly and matched against the dependencies of live Queries.
\<close>

section \<open>Definitions\<close>

definition MAX_DOCUMENT_IMPACTS :: nat where "MAX_DOCUMENT_IMPACTS = 1000"

definition MAX_INDEX_IMPACTS :: nat where "MAX_INDEX_IMPACTS = 10000"

datatype RealtimeError =
  RtInvalidImpact | RtLimitExceeded | RtInvalidConfiguration | RtInvalidOutcome | RtAlreadyExists | RtNotFound
| RtStaleTicket | RtInternal | RtPendingWork

fun realtime_code :: "RealtimeError \<Rightarrow> string" where
  "realtime_code RtInvalidImpact = ''REALTIME_IMPACT_INVALID''"
| "realtime_code RtLimitExceeded = ''REALTIME_IMPACT_LIMIT_EXCEEDED''"
| "realtime_code RtInvalidConfiguration = ''REALTIME_CONFIGURATION_INVALID''"
| "realtime_code RtInvalidOutcome = ''REALTIME_OUTCOME_INVALID''"
| "realtime_code RtAlreadyExists = ''REALTIME_SUBSCRIPTION_EXISTS''"
| "realtime_code RtNotFound = ''REALTIME_SUBSCRIPTION_NOT_FOUND''"
| "realtime_code RtStaleTicket = ''REALTIME_RERUN_STALE''"
| "realtime_code RtInternal = ''REALTIME_INTERNAL_ERROR''"
| "realtime_code RtPendingWork = ''REALTIME_PENDING_WORK''"

definition realtime_retryable :: "RealtimeError \<Rightarrow> bool" where
  "realtime_retryable e \<longleftrightarrow> e = RtInternal \<or> e = RtPendingWork"

datatype DocumentImpactKind = ImpactInsert | ImpactReplace | ImpactDelete

record DocumentImpact =
  di_table_id :: TableId
  di_document_id :: DocumentId
  di_kind :: DocumentImpactKind

datatype IndexImpactKind = IndexDelete | IndexPut

record IndexImpact =
  ii_index_id :: IndexId
  ii_key :: IndexKey
  ii_document_id :: DocumentId
  ii_kind :: IndexImpactKind

record ChangeImpact =
  ci_documents :: "DocumentImpact list"
  ci_indexes :: "IndexImpact list"

definition parse_impact_id :: "ulid_crate \<Rightarrow> string \<Rightarrow> string \<Rightarrow> RealtimeError + ulid" where
  "parse_impact_id U p s = map_errR (\<lambda>_. RtInvalidImpact) (resource_id_from_str U p s)"

definition exact_object :: "CanonicalValue \<Rightarrow> string list \<Rightarrow> RealtimeError + (string \<times> CanonicalValue) list" where
  "exact_object v ks =
     (case v of
        Object object \<Rightarrow>
          if length object \<noteq> length ks \<or> list_ex (\<lambda>k. map_of object k = None) ks then Inl RtInvalidImpact
          else Inr object
      | _ \<Rightarrow> Inl RtInvalidImpact)"

definition string_field :: "CanonicalValue option \<Rightarrow> RealtimeError + string" where
  "string_field v = (case v of Some (String s) \<Rightarrow> Inr s | _ \<Rightarrow> Inl RtInvalidImpact)"

definition bytes_field :: "CanonicalValue option \<Rightarrow> RealtimeError + bytes" where
  "bytes_field v = (case v of Some (Bytes bs) \<Rightarrow> Inr bs | _ \<Rightarrow> Inl RtInvalidImpact)"

definition array_field :: "CanonicalValue option \<Rightarrow> RealtimeError + CanonicalValue list" where
  "array_field v = (case v of Some (Array vs) \<Rightarrow> Inr vs | _ \<Rightarrow> Inl RtInvalidImpact)"

definition document_impact_kind :: "string \<Rightarrow> RealtimeError + DocumentImpactKind" where
  "document_impact_kind s =
     (if s = ''insert'' then Inr ImpactInsert
      else if s = ''replace'' then Inr ImpactReplace
      else if s = ''delete'' then Inr ImpactDelete
      else Inl RtInvalidImpact)"

definition index_impact_kind :: "string \<Rightarrow> RealtimeError + IndexImpactKind" where
  "index_impact_kind s =
     (if s = ''delete'' then Inr IndexDelete
      else if s = ''put'' then Inr IndexPut
      else Inl RtInvalidImpact)"

text \<open>One iteration of each loop of \<open>decode\<close>: the set of the keys seen so far and the impacts.\<close>

definition decode_document_impact ::
    "ulid_crate \<Rightarrow> (TableId \<times> DocumentId) set \<times> DocumentImpact list \<Rightarrow> CanonicalValue
     \<Rightarrow> RealtimeError + (TableId \<times> DocumentId) set \<times> DocumentImpact list" where
  "decode_document_impact U = (\<lambda>(document_keys, documents) v.
     bindR (exact_object v [''documentId'', ''kind'', ''tableId'']) (\<lambda>raw.
     bindR (string_field (map_of raw ''tableId'')) (\<lambda>table_string.
     bindR (parse_impact_id U ''tbl_'' table_string) (\<lambda>t.
     bindR (string_field (map_of raw ''documentId'')) (\<lambda>document_string.
     bindR (parse_impact_id U ''doc_'' document_string) (\<lambda>d.
     bindR (string_field (map_of raw ''kind'')) (\<lambda>kind_string.
     bindR (document_impact_kind kind_string) (\<lambda>kind.
       if (t, d) \<in> document_keys then Inl RtInvalidImpact
       else Inr (insert (t, d) document_keys,
         documents @ [\<lparr>di_table_id = t, di_document_id = d, di_kind = kind\<rparr>])))))))))"

definition decode_index_impact ::
    "ulid_crate \<Rightarrow> (IndexId \<times> bytes \<times> DocumentId \<times> IndexImpactKind) set \<times> IndexImpact list \<Rightarrow> CanonicalValue
     \<Rightarrow> RealtimeError + (IndexId \<times> bytes \<times> DocumentId \<times> IndexImpactKind) set \<times> IndexImpact list" where
  "decode_index_impact U = (\<lambda>(index_keys, indexes) v.
     bindR (exact_object v [''documentId'', ''indexId'', ''key'', ''kind'']) (\<lambda>raw.
     bindR (string_field (map_of raw ''indexId'')) (\<lambda>index_string.
     bindR (parse_impact_id U ''idx_'' index_string) (\<lambda>i.
     bindR (string_field (map_of raw ''documentId'')) (\<lambda>document_string.
     bindR (parse_impact_id U ''doc_'' document_string) (\<lambda>d.
     bindR (bytes_field (map_of raw ''key'')) (\<lambda>key_bytes.
     bindR (map_errR (\<lambda>_. RtInvalidImpact) (index_key_decode U key_bytes)) (\<lambda>k.
     bindR (string_field (map_of raw ''kind'')) (\<lambda>kind_string.
     bindR (index_impact_kind kind_string) (\<lambda>kind.
       if (i, encoded k, d, kind) \<in> index_keys then Inl RtInvalidImpact
       else Inr (insert (i, encoded k, d, kind) index_keys,
         indexes @ [\<lparr>ii_index_id = i, ii_key = k, ii_document_id = d, ii_kind = kind\<rparr>])))))))))))"

definition change_impact_decode :: "ulid_crate \<Rightarrow> CanonicalValue \<Rightarrow> RealtimeError + ChangeImpact" where
  "change_impact_decode U v =
     bindR (exact_object v [''indexes'', ''type'', ''writes'']) (\<lambda>object.
     bindR (string_field (map_of object ''type'')) (\<lambda>type.
     if type \<noteq> ''document_write_set_v2'' then Inl RtInvalidImpact else
     bindR (array_field (map_of object ''writes'')) (\<lambda>writes.
     bindR (array_field (map_of object ''indexes'')) (\<lambda>index_values.
     if length writes > MAX_DOCUMENT_IMPACTS \<or> length index_values > MAX_INDEX_IMPACTS then Inl RtLimitExceeded else
     bindR (foldR (decode_document_impact U) ({}, []) writes) (\<lambda>(_, documents).
     bindR (foldR (decode_index_impact U) ({}, []) index_values) (\<lambda>(_, indexes).
       Inr \<lparr>ci_documents = documents, ci_indexes = indexes\<rparr>))))))"

definition key_in_bounds :: "bytes \<Rightarrow> DependencyBound \<Rightarrow> DependencyBound \<Rightarrow> bool" where
  "key_in_bounds key lower upper \<longleftrightarrow>
     (case lower of DepUnbounded \<Rightarrow> True | DepInclusive v \<Rightarrow> key \<ge> v | DepExclusive v \<Rightarrow> key > v) \<and>
     (case upper of DepUnbounded \<Rightarrow> True | DepInclusive v \<Rightarrow> key \<le> v | DepExclusive v \<Rightarrow> key < v)"

fun impact_meets :: "ChangeImpact \<Rightarrow> ReadDependency \<Rightarrow> bool" where
  "impact_meets impact (DepPoint t d _ _) \<longleftrightarrow>
     list_ex (\<lambda>x. di_table_id x = t \<and> di_document_id x = d) (ci_documents impact)"
| "impact_meets impact (DepRange i lower upper _) \<longleftrightarrow>
     list_ex (\<lambda>x. ii_index_id x = i \<and> key_in_bounds (encoded (ii_key x)) lower upper) (ci_indexes impact)"

definition invalidates :: "ChangeImpact \<Rightarrow> ReadDependency list \<Rightarrow> bool" where
  "invalidates impact dependencies \<longleftrightarrow> list_ex (impact_meets impact) dependencies"

section \<open>The payload of a batch\<close>

fun document_impact_of :: "DocumentMutation \<Rightarrow> DocumentImpact" where
  "document_impact_of (Upsert t d Absent _) = \<lparr>di_table_id = t, di_document_id = d, di_kind = ImpactInsert\<rparr>"
| "document_impact_of (Upsert t d (Exact _) _) = \<lparr>di_table_id = t, di_document_id = d, di_kind = ImpactReplace\<rparr>"
| "document_impact_of (DeleteDocument t d _) = \<lparr>di_table_id = t, di_document_id = d, di_kind = ImpactDelete\<rparr>"

fun index_impact_of :: "IndexMutation \<Rightarrow> IndexImpact" where
  "index_impact_of (PutIndex i k _ d _) = \<lparr>ii_index_id = i, ii_key = k, ii_document_id = d, ii_kind = IndexPut\<rparr>"
| "index_impact_of (DeleteIndex i k d) = \<lparr>ii_index_id = i, ii_key = k, ii_document_id = d, ii_kind = IndexDelete\<rparr>"

definition batch_impact :: "CommitBatch \<Rightarrow> ChangeImpact" where
  "batch_impact b = \<lparr>ci_documents = map document_impact_of (cb_documents b), ci_indexes = map index_impact_of (cb_indexes b)\<rparr>"

lemma decode_write_impact:
  assumes "ulid_laws U" and "mutation_key m \<notin> S"
  shows "decode_document_impact U (S, xs) (write_impact U m) = Inr (insert (mutation_key m) S, xs @ [document_impact_of m])"
  using assms
  by (cases m rule: document_impact_of.cases)
    (simp_all add: decode_document_impact_def write_impact_def exact_object_def string_field_def document_impact_kind_def
      parse_impact_id_def resource_id_roundtrip mutation_key_def del: bindR_Inr mapR_Inr)

lemma decode_write_impacts:
  assumes "ulid_laws U" and "distinct (map mutation_key ms)" and "mutation_key ` set ms \<inter> S = {}"
  shows "\<exists>S'. foldR (decode_document_impact U) (S, xs) (map (write_impact U) ms) =
    Inr (S', xs @ map document_impact_of ms)"
  using assms(2,3)
proof (induction ms arbitrary: S xs)
  case (Cons m ms)
  then show ?case
    using decode_write_impact [OF assms(1), of m S xs] Cons.IH [of "insert (mutation_key m) S" "xs @ [document_impact_of m]"]
    by auto
qed simp

definition index_impact_key :: "IndexImpact \<Rightarrow> IndexId \<times> bytes \<times> DocumentId \<times> IndexImpactKind" where
  "index_impact_key x = (ii_index_id x, encoded (ii_key x), ii_document_id x, ii_kind x)"

lemma decode_index_mutation:
  assumes "ulid_laws U" and "index_mutation_ok U m" and "index_impact_key (index_impact_of m) \<notin> S"
  shows "decode_index_impact U (S, xs) (index_impact U m) =
    Inr (insert (index_impact_key (index_impact_of m)) S, xs @ [index_impact_of m])"
proof -
  have "index_key_decode U (encoded k) = Inr k" if "index_key_ok U k" for k
    using that index_key_decode_iff [OF assms(1)] by (simp add: index_key_ok_def)
  with assms show ?thesis
    by (cases m)
      (simp_all add: decode_index_impact_def exact_object_def string_field_def bytes_field_def index_impact_kind_def
        parse_impact_id_def resource_id_roundtrip index_impact_key_def del: bindR_Inr mapR_Inr)
qed

lemma decode_index_mutations:
  assumes "ulid_laws U" and "list_all (index_mutation_ok U) ms" and "distinct (map index_mutation_identity ms)"
    and "(index_impact_key \<circ> index_impact_of) ` set ms \<inter> S = {}"
  shows "\<exists>S'. foldR (decode_index_impact U) (S, xs) (map (index_impact U) ms) = Inr (S', xs @ map index_impact_of ms)"
  using assms(2-4)
proof (induction ms arbitrary: S xs)
  case (Cons m ms)
  have "index_impact_key (index_impact_of m) = index_impact_key (index_impact_of n) \<Longrightarrow>
      index_mutation_identity m = index_mutation_identity n" for n
    by (cases m; cases n) (auto simp: index_impact_key_def)
  then have fresh: "index_impact_key (index_impact_of m) \<notin> (index_impact_key \<circ> index_impact_of) ` set ms"
    using Cons.prems(2) by (fastforce simp: image_iff)
  have "decode_index_impact U (S, xs) (index_impact U m) =
      Inr (insert (index_impact_key (index_impact_of m)) S, xs @ [index_impact_of m])"
    using Cons.prems by (intro decode_index_mutation [OF assms(1)]) simp_all
  moreover have "\<exists>S'. foldR (decode_index_impact U) (insert (index_impact_key (index_impact_of m)) S, xs @ [index_impact_of m])
      (map (index_impact U) ms) = Inr (S', (xs @ [index_impact_of m]) @ map index_impact_of ms)"
    using Cons.prems fresh by (intro Cons.IH) auto
  ultimately show ?case by simp
qed simp

lemma decode_batch_payload:
  assumes "ulid_laws U" and "batch_typed U b" and "batch_valid U b"
  shows "change_impact_decode U (document_write_set_payload U (cb_documents b) (cb_indexes b)) = Inr (batch_impact b)"
proof -
  from assms(3) have v: "distinct (map mutation_key (cb_documents b))" "distinct (map index_mutation_identity (cb_indexes b))"
    "length (cb_documents b) \<le> MAX_DOCUMENT_IMPACTS" "length (cb_indexes b) \<le> MAX_INDEX_IMPACTS"
    by (auto simp: batch_valid_def batch_over_limits_def COMMIT_LIMITS_V1_def MAX_DOCUMENT_IMPACTS_def MAX_INDEX_IMPACTS_def)
  from decode_write_impacts [OF assms(1) v(1), of "{}" "[]"] obtain S where
    d: "foldR (decode_document_impact U) ({}, []) (map (write_impact U) (cb_documents b)) =
      Inr (S, map document_impact_of (cb_documents b))" by auto
  from decode_index_mutations [OF assms(1) _ v(2), of "{}" "[]"] assms(2) obtain T where
    i: "foldR (decode_index_impact U) ({}, []) (map (index_impact U) (cb_indexes b)) =
      Inr (T, map index_impact_of (cb_indexes b))" by (auto simp: batch_typed_def)
  show ?thesis using d i v(3,4)
    by (simp add: change_impact_decode_def document_write_set_payload_def exact_object_def string_field_def array_field_def
        batch_impact_def del: bindR_Inr mapR_Inr)
qed

end
