(* ===== verification/Realtime_Registry.thy ===== *)
theory Realtime_Registry
  imports Realtime_Impact
begin

text \<open>
  The registry of live subscriptions of \<open>runku-realtime/src/registry.rs\<close>. An operation returns its
  result and the new registry, also when it fails: the code changes an entry field by field and an
  error leaves the changes made so far. The mutex around the entries makes each operation atomic and
  no code panics while it holds it. The identity kept with a subscription is never inspected, so its
  type is a parameter. \<open>listening\<close> tells whether a receiver of the delivery channel is alive when an
  event is sent.
\<close>

section \<open>Configuration\<close>

record RegistryConfig =
  max_subscriptions :: nat
  max_dependencies :: nat
  max_result_bytes :: nat
  delivery_buffer :: nat
  retry_base_micros :: u64
  retry_max_micros :: u64
  max_consecutive_failures :: u32

definition REGISTRY_PRODUCTION :: RegistryConfig where
  "REGISTRY_PRODUCTION =
     \<lparr>max_subscriptions = 100000, max_dependencies = 10000, max_result_bytes = 4 * 1024 * 1024, delivery_buffer = 64,
      retry_base_micros = 100000, retry_max_micros = 30000000, max_consecutive_failures = 10\<rparr>"

definition registry_config_validate :: "RegistryConfig \<Rightarrow> RealtimeError + RegistryConfig" where
  "registry_config_validate c =
     (if max_subscriptions c = 0 \<or> max_dependencies c = 0 \<or> max_result_bytes c = 0 \<or> delivery_buffer c = 0
        \<or> retry_base_micros c = 0 \<or> retry_base_micros c > retry_max_micros c \<or> max_consecutive_failures c = 0
      then Inl RtInvalidConfiguration else Inr c)"

section \<open>Subscriptions\<close>

type_synonym SubscriptionId = ulid

record 'i SubscriptionSpec =
  ss_id :: SubscriptionId
  ss_scope :: EnvironmentScope
  ss_release_id :: ReleaseId
  ss_pinned_code :: PinnedCode
  ss_function :: FunctionName
  ss_arguments :: CanonicalValue
  ss_identity :: 'i
  ss_authorized_until :: TimestampMicros

record 'i SubscriptionSnapshot =
  sn_spec :: "'i SubscriptionSpec"
  sn_value :: CanonicalValue
  sn_result_hash :: bytes
  sn_snapshot_sequence :: "u64 option"
  sn_dependencies :: "ReadDependency list"
  sn_delivery_revision :: u64
  sn_processed_through :: "OutboxCursor option"
  sn_suspended :: bool

datatype DeliveryEvent =
  DeliverState SubscriptionId u64 CanonicalValue bytes "u64 option"
| DeliverError SubscriptionId u64 string bool bool

record 'i RerunTicket =
  tk_spec :: "'i SubscriptionSpec"
  tk_generation :: u64

record RegistryTelemetry =
  tl_subscriptions :: u64
  tl_matches :: u64
  tl_coalesced :: u64
  tl_reruns_started :: u64
  tl_reruns_succeeded :: u64
  tl_reruns_failed :: u64
  tl_suspensions :: u64
  tl_undelivered_events :: u64

definition registry_telemetry_default :: RegistryTelemetry where
  "registry_telemetry_default =
     \<lparr>tl_subscriptions = 0, tl_matches = 0, tl_coalesced = 0, tl_reruns_started = 0, tl_reruns_succeeded = 0,
      tl_reruns_failed = 0, tl_suspensions = 0, tl_undelivered_events = 0\<rparr>"

text \<open>\<open>en_delivery\<close> is what was sent on the delivery channel, oldest first.\<close>

record 'i Entry =
  en_snapshot :: "'i SubscriptionSnapshot"
  en_delivery :: "DeliveryEvent list"
  en_running_generation :: "u64 option"
  en_next_generation :: u64
  en_running_through :: "OutboxCursor option"
  en_dirty_through :: "OutboxCursor option"
  en_retry_not_before :: "TimestampMicros option"
  en_consecutive_failures :: u32

record 'i SubscriptionRegistry =
  rg_config :: RegistryConfig
  rg_entries :: "(SubscriptionId \<times> 'i Entry) list"
  rg_telemetry :: RegistryTelemetry

definition subscription_registry_new :: "RegistryConfig \<Rightarrow> RealtimeError + 'i SubscriptionRegistry" where
  "subscription_registry_new config =
     bindR (registry_config_validate config) (\<lambda>config.
       Inr \<lparr>rg_config = config, rg_entries = [], rg_telemetry = registry_telemetry_default\<rparr>)"

section \<open>Helpers\<close>

definition cursor_position :: "OutboxCursor \<Rightarrow> u64 \<times> OutboxEventId" where
  "cursor_position c = (cursor_commit_sequence c, cursor_event_id c)"

text \<open>The derived order of a cursor.\<close>

definition cursor_le :: "OutboxCursor \<Rightarrow> OutboxCursor \<Rightarrow> bool" where
  "cursor_le a b \<longleftrightarrow> cursor_position a \<le> cursor_position b"

definition max_cursor :: "OutboxCursor option \<Rightarrow> OutboxCursor \<Rightarrow> OutboxCursor" where
  "max_cursor current candidate =
     (case current of None \<Rightarrow> candidate | Some v \<Rightarrow> if cursor_le v candidate then candidate else v)"

definition retry_delay :: "RegistryConfig \<Rightarrow> u32 \<Rightarrow> nat" where
  "retry_delay config failures =
     (let shift = min (unat failures - 1) 63 in
      min (min (unat (retry_base_micros config) * 2 ^ shift) (2 ^ 64 - 1)) (unat (retry_max_micros config)))"

definition validate_outcome :: "ulid_crate \<Rightarrow> QueryOutcome \<Rightarrow> RegistryConfig \<Rightarrow> RealtimeError + unit" where
  "validate_outcome U outcome config =
     (if length (qo_dependencies outcome) > max_dependencies config then Inl RtLimitExceeded
      else bindR (map_errR (\<lambda>_. RtInvalidOutcome) (encode_stored_value U (qo_value outcome))) (\<lambda>enc.
        if length enc > max_result_bytes config then Inl RtLimitExceeded else Inr ()))"

definition result_hash :: "ulid_crate \<Rightarrow> (bytes \<Rightarrow> bytes) \<Rightarrow> CanonicalValue \<Rightarrow> RealtimeError + bytes" where
  "result_hash U sha256 v = mapR sha256 (map_errR (\<lambda>_. RtInvalidOutcome) (encode_stored_value U v))"

definition send_event :: "bool \<Rightarrow> DeliveryEvent \<Rightarrow> 'i Entry \<Rightarrow> RegistryTelemetry \<Rightarrow> 'i Entry \<times> RegistryTelemetry" where
  "send_event listening event e t =
     (if listening then (e\<lparr>en_delivery := en_delivery e @ [event]\<rparr>, t)
      else (e, t\<lparr>tl_undelivered_events := tl_undelivered_events t + 1\<rparr>))"

definition start_rerun ::
    "'i Entry \<Rightarrow> OutboxCursor \<Rightarrow> RegistryTelemetry \<Rightarrow> (RealtimeError + 'i RerunTicket) \<times> 'i Entry \<times> RegistryTelemetry" where
  "start_rerun e through t =
     (case checked_add_u64 (en_next_generation e) 1 of
        None \<Rightarrow> (Inl RtInternal, e, t)
      | Some generation \<Rightarrow>
          (Inr \<lparr>tk_spec = sn_spec (en_snapshot e), tk_generation = generation\<rparr>,
           e\<lparr>en_next_generation := generation, en_running_generation := Some generation,
             en_running_through := Some through, en_retry_not_before := None\<rparr>,
           t\<lparr>tl_reruns_started := tl_reruns_started t + 1\<rparr>))"

definition require_generation :: "'i Entry \<Rightarrow> u64 \<Rightarrow> RealtimeError + unit" where
  "require_generation e generation =
     (if en_running_generation e = Some generation then Inr () else Inl RtStaleTicket)"

fun set_entry :: "SubscriptionId \<Rightarrow> 'i Entry \<Rightarrow> (SubscriptionId \<times> 'i Entry) list \<Rightarrow> (SubscriptionId \<times> 'i Entry) list" where
  "set_entry i e [] = []"
| "set_entry i e ((j, x) # es) = (if j = i then (j, e) # es else (j, x) # set_entry i e es)"

section \<open>Operations\<close>

definition register ::
    "ulid_crate \<Rightarrow> (bytes \<Rightarrow> bytes) \<Rightarrow> 'i SubscriptionSpec \<Rightarrow> QueryOutcome \<Rightarrow> 'i SubscriptionRegistry
     \<Rightarrow> (RealtimeError + 'i SubscriptionSnapshot) \<times> 'i SubscriptionRegistry" where
  "register U sha256 spec outcome reg =
     (case bindR (validate_outcome U outcome (rg_config reg)) (\<lambda>_. result_hash U sha256 (qo_value outcome)) of
        Inl err \<Rightarrow> (Inl err, reg)
      | Inr hash \<Rightarrow>
          if map_of (rg_entries reg) (ss_id spec) \<noteq> None then (Inl RtAlreadyExists, reg)
          else if length (rg_entries reg) \<ge> max_subscriptions (rg_config reg) then (Inl RtLimitExceeded, reg)
          else
            let snapshot = \<lparr>sn_spec = spec, sn_value = qo_value outcome, sn_result_hash = hash,
                  sn_snapshot_sequence = qo_snapshot_sequence outcome, sn_dependencies = qo_dependencies outcome,
                  sn_delivery_revision = 1, sn_processed_through = None, sn_suspended = False\<rparr>;
                t = rg_telemetry reg;
                (e, t') = send_event True
                  (DeliverState (ss_id spec) 1 (qo_value outcome) hash (qo_snapshot_sequence outcome))
                  \<lparr>en_snapshot = snapshot, en_delivery = [], en_running_generation = None, en_next_generation = 0,
                   en_running_through = None, en_dirty_through = None, en_retry_not_before = None,
                   en_consecutive_failures = 0\<rparr> (t\<lparr>tl_subscriptions := tl_subscriptions t + 1\<rparr>) in
            (Inr snapshot, reg\<lparr>rg_entries := insort_key fst (ss_id spec, e) (rg_entries reg), rg_telemetry := t'\<rparr>))"

definition subscribe :: "SubscriptionId \<Rightarrow> 'i SubscriptionRegistry \<Rightarrow> RealtimeError + 'i SubscriptionSnapshot" where
  "subscribe i reg = mapR en_snapshot (ok_or RtNotFound (map_of (rg_entries reg) i))"

definition remove_subscription ::
    "SubscriptionId \<Rightarrow> 'i SubscriptionRegistry \<Rightarrow> (RealtimeError + unit) \<times> 'i SubscriptionRegistry" where
  "remove_subscription i reg =
     (case map_of (rg_entries reg) i of
        None \<Rightarrow> (Inl RtNotFound, reg)
      | Some _ \<Rightarrow>
          (Inr (), reg\<lparr>rg_entries := filter (\<lambda>(j, _). j \<noteq> i) (rg_entries reg),
             rg_telemetry := (rg_telemetry reg)\<lparr>tl_subscriptions := tl_subscriptions (rg_telemetry reg) - 1\<rparr>\<rparr>))"

definition mark_entry ::
    "EnvironmentScope \<Rightarrow> OutboxCursor \<Rightarrow> ChangeImpact \<Rightarrow> TimestampMicros \<Rightarrow> 'i Entry \<Rightarrow> RegistryTelemetry
     \<Rightarrow> (RealtimeError + 'i RerunTicket list) \<times> 'i Entry \<times> RegistryTelemetry" where
  "mark_entry scope cursor impact now e t =
     (if ss_scope (sn_spec (en_snapshot e)) \<noteq> scope
        \<or> (case sn_processed_through (en_snapshot e) of None \<Rightarrow> False | Some seen \<Rightarrow> cursor_le cursor seen)
        \<or> \<not> invalidates impact (sn_dependencies (en_snapshot e))
      then (Inr [], e, t)
      else
        let t1 = t\<lparr>tl_matches := tl_matches t + 1\<rparr> in
        if en_running_generation e \<noteq> None
        then (Inr [], e\<lparr>en_dirty_through := Some (max_cursor (en_dirty_through e) cursor)\<rparr>,
              t1\<lparr>tl_coalesced := tl_coalesced t1 + 1\<rparr>)
        else if sn_suspended (en_snapshot e)
          \<or> (case en_retry_not_before e of None \<Rightarrow> False | Some deadline \<Rightarrow> micros deadline > micros now)
        then (Inr [], e\<lparr>en_dirty_through := Some (max_cursor (en_dirty_through e) cursor)\<rparr>, t1)
        else (case start_rerun e cursor t1 of (r, e', t2) \<Rightarrow> (mapR (\<lambda>k. [k]) r, e', t2)))"

definition retry_entry ::
    "TimestampMicros \<Rightarrow> 'i Entry \<Rightarrow> RegistryTelemetry
     \<Rightarrow> (RealtimeError + 'i RerunTicket list) \<times> 'i Entry \<times> RegistryTelemetry" where
  "retry_entry now e t =
     (if en_running_generation e = None \<and> \<not> sn_suspended (en_snapshot e)
        \<and> (case en_retry_not_before e of None \<Rightarrow> True | Some deadline \<Rightarrow> micros deadline \<le> micros now)
      then (case en_dirty_through e of
          None \<Rightarrow> (Inr [], e, t)
        | Some cursor \<Rightarrow>
            (case start_rerun (e\<lparr>en_dirty_through := None\<rparr>) cursor t of (r, e', t2) \<Rightarrow> (mapR (\<lambda>k. [k]) r, e', t2)))
      else (Inr [], e, t))"

text \<open>The loop over the entries in the order of the map; the first error ends it.\<close>

fun walk_entries ::
    "('i Entry \<Rightarrow> RegistryTelemetry \<Rightarrow> (RealtimeError + 'i RerunTicket list) \<times> 'i Entry \<times> RegistryTelemetry)
     \<Rightarrow> (SubscriptionId \<times> 'i Entry) list \<Rightarrow> RegistryTelemetry
     \<Rightarrow> (RealtimeError + 'i RerunTicket list) \<times> (SubscriptionId \<times> 'i Entry) list \<times> RegistryTelemetry" where
  "walk_entries f [] t = (Inr [], [], t)"
| "walk_entries f ((i, e) # es) t =
     (case f e t of
        (Inl err, e', t') \<Rightarrow> (Inl err, (i, e') # es, t')
      | (Inr ks, e', t') \<Rightarrow>
          (case walk_entries f es t' of (r, es', t'') \<Rightarrow> (mapR (\<lambda>ks'. ks @ ks') r, (i, e') # es', t'')))"

definition mark_impacted ::
    "EnvironmentScope \<Rightarrow> OutboxCursor \<Rightarrow> ChangeImpact \<Rightarrow> TimestampMicros \<Rightarrow> 'i SubscriptionRegistry
     \<Rightarrow> (RealtimeError + 'i RerunTicket list) \<times> 'i SubscriptionRegistry" where
  "mark_impacted scope cursor impact now reg =
     (case walk_entries (mark_entry scope cursor impact now) (rg_entries reg) (rg_telemetry reg) of
        (r, es, t) \<Rightarrow> (r, reg\<lparr>rg_entries := es, rg_telemetry := t\<rparr>))"

definition ready_retries ::
    "TimestampMicros \<Rightarrow> 'i SubscriptionRegistry \<Rightarrow> (RealtimeError + 'i RerunTicket list) \<times> 'i SubscriptionRegistry" where
  "ready_retries now reg =
     (case walk_entries (retry_entry now) (rg_entries reg) (rg_telemetry reg) of
        (r, es, t) \<Rightarrow> (r, reg\<lparr>rg_entries := es, rg_telemetry := t\<rparr>))"

definition complete_success_entry ::
    "bool \<Rightarrow> SubscriptionId \<Rightarrow> QueryOutcome \<Rightarrow> bytes \<Rightarrow> OutboxCursor \<Rightarrow> 'i Entry \<Rightarrow> RegistryTelemetry
     \<Rightarrow> (RealtimeError + 'i RerunTicket option) \<times> 'i Entry \<times> RegistryTelemetry" where
  "complete_success_entry listening i outcome hash through e t =
     (let s = (en_snapshot e)\<lparr>sn_value := qo_value outcome, sn_result_hash := hash,
           sn_snapshot_sequence := qo_snapshot_sequence outcome, sn_dependencies := qo_dependencies outcome\<rparr> in
      case checked_add_u64 (sn_delivery_revision s) 1 of
        None \<Rightarrow> (Inl RtInternal, e\<lparr>en_snapshot := s\<rparr>, t)
      | Some revision \<Rightarrow>
          let processed = max_cursor (sn_processed_through s) through;
              s' = s\<lparr>sn_delivery_revision := revision, sn_processed_through := Some processed, sn_suspended := False\<rparr>;
              (e2, t2) = send_event listening
                (DeliverState i revision (qo_value outcome) hash (qo_snapshot_sequence outcome))
                (e\<lparr>en_snapshot := s', en_consecutive_failures := 0, en_retry_not_before := None,
                   en_running_generation := None, en_running_through := None\<rparr>)
                (t\<lparr>tl_reruns_succeeded := tl_reruns_succeeded t + 1\<rparr>) in
          case en_dirty_through e2 of
            None \<Rightarrow> (Inr None, e2, t2)
          | Some dirty \<Rightarrow>
              if cursor_le dirty processed then (Inr None, e2\<lparr>en_dirty_through := None\<rparr>, t2)
              else (case start_rerun (e2\<lparr>en_dirty_through := None\<rparr>) dirty t2 of (r, e3, t3) \<Rightarrow> (mapR Some r, e3, t3)))"

definition complete_success ::
    "ulid_crate \<Rightarrow> (bytes \<Rightarrow> bytes) \<Rightarrow> bool \<Rightarrow> 'i RerunTicket \<Rightarrow> QueryOutcome \<Rightarrow> 'i SubscriptionRegistry
     \<Rightarrow> (RealtimeError + 'i RerunTicket option) \<times> 'i SubscriptionRegistry" where
  "complete_success U sha256 listening ticket outcome reg =
     (let i = ss_id (tk_spec ticket) in
      case bindR (validate_outcome U outcome (rg_config reg)) (\<lambda>_.
           bindR (result_hash U sha256 (qo_value outcome)) (\<lambda>hash.
           bindR (ok_or RtNotFound (map_of (rg_entries reg) i)) (\<lambda>e.
           bindR (require_generation e (tk_generation ticket)) (\<lambda>_.
           bindR (ok_or RtStaleTicket (en_running_through e)) (\<lambda>through. Inr (hash, e, through)))))) of
        Inl err \<Rightarrow> (Inl err, reg)
      | Inr (hash, e, through) \<Rightarrow>
          (case complete_success_entry listening i outcome hash through e (rg_telemetry reg) of
             (r, e', t) \<Rightarrow> (r, reg\<lparr>rg_entries := set_entry i e' (rg_entries reg), rg_telemetry := t\<rparr>)))"

definition complete_failure_entry ::
    "RegistryConfig \<Rightarrow> bool \<Rightarrow> SubscriptionId \<Rightarrow> string \<Rightarrow> bool \<Rightarrow> TimestampMicros \<Rightarrow> OutboxCursor \<Rightarrow> 'i Entry \<Rightarrow> RegistryTelemetry
     \<Rightarrow> (RealtimeError + unit) \<times> 'i Entry \<times> RegistryTelemetry" where
  "complete_failure_entry config listening i code retryable now through e t =
     (let failures = (if en_consecutive_failures e = - 1 then - 1 else en_consecutive_failures e + 1);
          exhausted = failures \<ge> max_consecutive_failures config;
          s = (en_snapshot e)\<lparr>sn_suspended := \<not> retryable \<or> exhausted\<rparr>;
          e1 = e\<lparr>en_dirty_through := Some (max_cursor (en_dirty_through e) through), en_running_generation := None,
                 en_running_through := None, en_consecutive_failures := failures, en_snapshot := s\<rparr>;
          deadline = micros now + int (retry_delay config failures) in
      if retryable \<and> \<not> exhausted \<and> (retry_delay config failures \<ge> 2 ^ 63 \<or> deadline \<ge> 2 ^ 63) then (Inl RtInternal, e1, t)
      else
        let (s', retry) = (if retryable \<and> \<not> exhausted then (s, Some (timestamp deadline))
              else (s\<lparr>sn_processed_through := Some (max_cursor (sn_processed_through s) through)\<rparr>, None));
            e2 = e1\<lparr>en_snapshot := s', en_retry_not_before := retry\<rparr> in
        case checked_add_u64 (sn_delivery_revision s') 1 of
          None \<Rightarrow> (Inl RtInternal, e2, t)
        | Some revision \<Rightarrow>
            let t1 = t\<lparr>tl_reruns_failed := tl_reruns_failed t + 1\<rparr>;
                t2 = (if sn_suspended s' then t1\<lparr>tl_suspensions := tl_suspensions t1 + 1\<rparr> else t1);
                (e3, t3) = send_event listening (DeliverError i revision code retryable (sn_suspended s'))
                  (e2\<lparr>en_snapshot := s'\<lparr>sn_delivery_revision := revision\<rparr>\<rparr>) t2 in
            (Inr (), e3, t3))"

definition complete_failure ::
    "bool \<Rightarrow> 'i RerunTicket \<Rightarrow> string \<Rightarrow> bool \<Rightarrow> TimestampMicros \<Rightarrow> 'i SubscriptionRegistry
     \<Rightarrow> (RealtimeError + unit) \<times> 'i SubscriptionRegistry" where
  "complete_failure listening ticket code retryable now reg =
     (let i = ss_id (tk_spec ticket) in
      case bindR (ok_or RtNotFound (map_of (rg_entries reg) i)) (\<lambda>e.
           bindR (require_generation e (tk_generation ticket)) (\<lambda>_.
           bindR (ok_or RtStaleTicket (en_running_through e)) (\<lambda>through. Inr (e, through)))) of
        Inl err \<Rightarrow> (Inl err, reg)
      | Inr (e, through) \<Rightarrow>
          (case complete_failure_entry (rg_config reg) listening i code retryable now through e (rg_telemetry reg) of
             (r, e', t) \<Rightarrow> (r, reg\<lparr>rg_entries := set_entry i e' (rg_entries reg), rg_telemetry := t\<rparr>)))"

definition entry_pending :: "EnvironmentScope \<Rightarrow> OutboxCursor \<Rightarrow> 'i Entry \<Rightarrow> bool" where
  "entry_pending scope through e \<longleftrightarrow>
     ss_scope (sn_spec (en_snapshot e)) = scope \<and> \<not> sn_suspended (en_snapshot e) \<and>
     list_ex (\<lambda>c. case c of None \<Rightarrow> False | Some cursor \<Rightarrow> cursor_le cursor through)
       [en_running_through e, en_dirty_through e]"

definition has_pending_through :: "EnvironmentScope \<Rightarrow> OutboxCursor \<Rightarrow> 'i SubscriptionRegistry \<Rightarrow> bool" where
  "has_pending_through scope through reg \<longleftrightarrow> list_ex (\<lambda>(_, e). entry_pending scope through e) (rg_entries reg)"

definition resume :: "SubscriptionId \<Rightarrow> 'i SubscriptionRegistry \<Rightarrow> (RealtimeError + unit) \<times> 'i SubscriptionRegistry" where
  "resume i reg =
     (case map_of (rg_entries reg) i of
        None \<Rightarrow> (Inl RtNotFound, reg)
      | Some e \<Rightarrow>
          (Inr (), reg\<lparr>rg_entries := set_entry i
             (e\<lparr>en_snapshot := (en_snapshot e)\<lparr>sn_suspended := False\<rparr>, en_consecutive_failures := 0,
                en_retry_not_before := None\<rparr>) (rg_entries reg)\<rparr>))"

end
