(* ===== verification/Realtime_Sound.thy ===== *)
theory Realtime_Sound
  imports Realtime_Impact
begin

text \<open>
  Matching impacts against dependencies is sound: as long as every commit announces its changes in the
  outbox, a Query none of whose dependencies meets an event committed after its snapshot still has the
  same result.
\<close>

section \<open>What a commit leaves unchanged\<close>

definition in_range_row :: "ulid_crate \<Rightarrow> EnvironmentScope \<Rightarrow> IndexId \<Rightarrow> IndexRange \<Rightarrow> index_row \<Rightarrow> bool" where
  "in_range_row U scope i rng r \<longleftrightarrow>
     iw_project r = project_text U scope \<and> iw_environment r = environment_text U scope \<and> iw_index r = index_text U i \<and>
     above_lower (range_lower rng) (iw_key r) \<and> below_upper (range_upper rng) (iw_key r)"

lemma scan_index_rows:
  "filter (in_range_row U scope i rng) (db_indexes db') = filter (in_range_row U scope i rng) (db_indexes db) \<Longrightarrow>
   scan_index U scope i rng limit db' = scan_index U scope i rng limit db"
  by (simp add: scan_index_def sql_select_def in_range_row_def [abs_def])

lemma put_index_frame:
  assumes "\<not> q r" and "\<And>s t v n. q (s\<lparr>iw_table := t, iw_document_revision := v, iw_commit_sequence := n\<rparr>) = q s"
    and "\<And>s. index_entry_key s = index_entry_key r \<Longrightarrow> \<not> q s"
  shows "filter q (put_index_entry r t) = filter q t"
proof -
  have "filter q (map (\<lambda>s. if index_entry_key s = index_entry_key r then
      s\<lparr>iw_table := iw_table r, iw_document_revision := iw_document_revision r, iw_commit_sequence := iw_commit_sequence r\<rparr>
      else s) t) = filter q t"
    using assms(2,3) by (induction t) auto
  with assms(1) show ?thesis by (simp add: put_index_entry_def sql_update_def)
qed

lemma key_in_bounds_range:
  "key_in_bounds k lower upper \<longleftrightarrow>
     above_lower (range_lower (index_range_between (key_bound lower) (key_bound upper))) k \<and>
     below_upper (range_upper (index_range_between (key_bound lower) (key_bound upper))) k"
  by (cases lower; cases upper) (auto simp: key_in_bounds_def index_range_between_def)

lemma outside_range:
  assumes "ulid_laws U" and "\<not> (j = i \<and> key_in_bounds k lower upper)"
    and "index_entry_key s = (project_text U scope, environment_text U scope, index_text U j, k, d)"
  shows "\<not> in_range_row U scope i (index_range_between (key_bound lower) (key_bound upper)) s"
  using assms(2,3) id_inject [OF assms(1)]
  by (auto simp: in_range_row_def index_entry_key_def key_in_bounds_range)

lemma apply_index_range:
  assumes "ulid_laws U" and "apply_index U (project_text U scope) (environment_text U scope) n db m = Inr db'"
    and "\<not> (ii_index_id (index_impact_of m) = i \<and> key_in_bounds (encoded (ii_key (index_impact_of m))) lower upper)"
  shows "filter (in_range_row U scope i (index_range_between (key_bound lower) (key_bound upper))) (db_indexes db') =
    filter (in_range_row U scope i (index_range_between (key_bound lower) (key_bound upper))) (db_indexes db)"
proof (cases m)
  case (PutIndex j k t d x)
  let ?q = "in_range_row U scope i (index_range_between (key_bound lower) (key_bound upper))"
  let ?r = "\<lambda>revision. \<lparr>iw_project = project_text U scope, iw_environment = environment_text U scope, iw_index = index_text U j,
      iw_key = encoded k, iw_table = table_text U t, iw_document = document_text U d, iw_document_revision = revision,
      iw_commit_sequence = n\<rparr>"
  from PutIndex assms(2) obtain revision where db': "db' = db\<lparr>db_indexes := put_index_entry (?r revision) (db_indexes db)\<rparr>"
    by (auto split: option.splits)
  have out: "\<not> ?q s" if "index_entry_key s = index_entry_key (?r revision)" for s
    using that assms(3) PutIndex by (intro outside_range [OF assms(1)]) (auto simp: index_entry_key_def)
  have "filter ?q (put_index_entry (?r revision) (db_indexes db)) = filter ?q (db_indexes db)"
    by (rule put_index_frame, rule out, rule refl, simp add: in_range_row_def, erule out)
  then show ?thesis by (simp add: db')
next
  case (DeleteIndex j k d)
  let ?q = "in_range_row U scope i (index_range_between (key_bound lower) (key_bound upper))"
  let ?w = "\<lambda>r. index_entry_key r = (project_text U scope, environment_text U scope, index_text U j, encoded k, document_text U d)"
  have "\<not> ?q s" if "?w s" for s
    using assms(3) DeleteIndex that by (intro outside_range [OF assms(1)]) auto
  then have "filter ?q (filter (\<lambda>r. \<not> ?w r) (db_indexes db)) = filter ?q (db_indexes db)"
    unfolding filter_filter by (intro filter_cong [OF refl]) blast
  with assms(2) DeleteIndex show ?thesis by (auto simp: sql_delete_def)
qed

lemma apply_indexes_range:
  assumes "ulid_laws U" and "foldR (apply_index U (project_text U scope) (environment_text U scope) n) db ms = Inr db'"
    and "\<forall>m \<in> set ms. \<not> (ii_index_id (index_impact_of m) = i \<and>
      key_in_bounds (encoded (ii_key (index_impact_of m))) lower upper)"
  shows "filter (in_range_row U scope i (index_range_between (key_bound lower) (key_bound upper))) (db_indexes db') =
    filter (in_range_row U scope i (index_range_between (key_bound lower) (key_bound upper))) (db_indexes db)"
  by (rule foldR_invariant [OF assms(2), where P = "\<lambda>x.
        filter (in_range_row U scope i (index_range_between (key_bound lower) (key_bound upper))) (db_indexes x) =
        filter (in_range_row U scope i (index_range_between (key_bound lower) (key_bound upper))) (db_indexes db)"])
    (use apply_index_range [OF assms(1)] assms(3) in auto)

lemma impact_of_keys [simp]:
  "di_table_id (document_impact_of m) = mutation_table_id m" "di_document_id (document_impact_of m) = mutation_document_id m"
  by (cases m rule: document_impact_of.cases; simp)+

lemma unchanged_trans:
  "unchanged U scope db1 db2 x \<Longrightarrow> unchanged U scope db2 db3 x \<Longrightarrow> unchanged U scope db1 db3 x"
  by (cases x) simp_all

lemma unchanged_view:
  assumes "scope_view (project_text U scope) (environment_text U scope) db' =
    scope_view (project_text U scope) (environment_text U scope) db"
  shows "unchanged U scope db db' x"
proof (cases x)
  case (DepPoint t d r s)
  then show ?thesis
    using assms reads_of_view(2) [where U = U and scope = scope and db = db and t = t and d = d]
      reads_of_view(2) [where U = U and scope = scope and db = db' and t = t and d = d] by simp
next
  case (DepRange i lower upper s)
  then show ?thesis
    using assms reads_of_view(3) [where U = U and scope = scope and db = db and i = i]
      reads_of_view(3) [where U = U and scope = scope and db = db' and i = i] by simp
qed

lemma unchanged_data: "same_data db db' \<Longrightarrow> unchanged U scope db db' x"
  by (cases x) (simp_all add: same_data_def get_document_def scan_index_def)

lemma commit_unchanged:
  assumes "ulid_laws U" and "db_ok U db" and "batch_typed U b" and "batch_valid U b"
    and "apply_commit U clock b digest db = Inr (r, db')" and "\<not> cr_replayed r"
    and "\<not> impact_meets (batch_impact b) x"
  shows "unchanged U (cb_scope b) db db' x"
proof (cases x)
  case (DepPoint t d rev s)
  let ?p = "project_text U (cb_scope b)" and ?e = "environment_text U (cb_scope b)"
  have "(t, d) \<notin> mutation_key ` set (cb_documents b)"
    using assms(7) DepPoint by (auto simp: batch_impact_def list_ex_iff mutation_key_def)
  moreover have distinct: "distinct (map mutation_key (cb_documents b))" using assms(4) by (simp add: batch_valid_def)
  have "k \<notin> mutation_key ` set (cb_documents b) \<longrightarrow> document_lookup U ?p ?e k db' = document_lookup U ?p ?e k db" for k
    by (rule commit_lookup [OF assms(1-3) distinct assms(5,6)]) blast
  ultimately have "document_lookup U ?p ?e (t, d) db' = document_lookup U ?p ?e (t, d) db" by blast
  then show ?thesis using get_document_lookup [of U "cb_scope b" "(t, d)"] by (simp add: DepPoint)
next
  case (DepRange i lower upper s)
  let ?p = "project_text U (cb_scope b)" and ?e = "environment_text U (cb_scope b)"
  let ?rng = "index_range_between (key_bound lower) (key_bound upper)"
  have quiet: "\<forall>m \<in> set (cb_indexes b). \<not> (ii_index_id (index_impact_of m) = i \<and>
      key_in_bounds (encoded (ii_key (index_impact_of m))) lower upper)"
    using assms(7) DepRange by (simp add: batch_impact_def list_ex_iff)
  from assms(5) have "filter (in_range_row U (cb_scope b) i ?rng) (db_indexes db') =
      filter (in_range_row U (cb_scope b) i ?rng) (db_indexes db)"
  proof (cases rule: apply_commit_cases)
    case (fresh n sequences now operations documents db1 db2 db3)
    from record_documents [OF fresh(5)] have "db1 = db\<lparr>db_sequences := sequences, db_operations := operations,
        db_documents := db_documents db1, db_results := db_results db1\<rparr>" by blast
    from arg_cong [OF this, of db_indexes] have "db_indexes db1 = db_indexes db" by simp
    moreover from apply_events_append [OF fresh(7)] apply_schedules_append [OF fresh(8)]
    have "db_indexes db' = db_indexes db2" by auto
    ultimately show ?thesis using apply_indexes_range [OF assms(1) fresh(6) quiet] by simp
  qed simp
  then show ?thesis unfolding DepRange unchanged.simps by (blast intro: scan_index_rows)
qed

section \<open>Events of a commit\<close>

text \<open>A batch that changes data carries the payload that names its changes.\<close>

definition announces :: "ulid_crate \<Rightarrow> CommitBatch \<Rightarrow> bool" where
  "announces U b \<longleftrightarrow> cb_documents b = [] \<and> cb_indexes b = [] \<or>
     document_write_set_payload U (cb_documents b) (cb_indexes b) \<in> oa_payload ` set (cb_outbox b)"

lemma plan_nothing: "plan_document_index_mutations U schema [] old = Inr ixs \<Longrightarrow> ixs = []"
  by (simp add: plan_document_index_mutations_def)

lemma mutation_batch_announces:
  assumes "plan_document_index_mutations U schema ms old = Inr ixs" and "mutation_batch U scope op ev as ms ixs ss = Inr b"
  shows "announces U b"
  using mutation_batch_Inr(1) [OF assms(2)] assms(1) plan_nothing by (auto simp: announces_def split: if_splits)

definition event_of :: "ulid_crate \<Rightarrow> EnvironmentScope \<Rightarrow> u64 \<Rightarrow> outbox_row \<Rightarrow> bool" where
  "event_of U scope s r \<longleftrightarrow>
     ow_project r = project_text U scope \<and> ow_environment r = environment_text U scope \<and> uint s < ow_commit_sequence r"

lemma apply_events_rows:
  assumes "foldR (apply_event U p e n now) db as = Inr db'" and "a \<in> set as"
  shows "\<exists>r \<in> set (db_outbox db'). ow_project r = p \<and> ow_environment r = e \<and> ow_commit_sequence r = n \<and>
    encode_value U (oa_payload a) = Inr (ow_payload r)"
  using assms
proof (induction as arbitrary: db)
  case (Cons c as)
  from Cons.prems(1) obtain db1 where 1: "apply_event U p e n now db c = Inr db1"
    and 2: "foldR (apply_event U p e n now) db1 as = Inr db'" by auto
  show ?case
  proof (cases "a = c")
    case True
    from 1 True obtain payload where enc: "encode_value U (oa_payload a) = Inr payload"
      and row: "\<lparr>ow_project = p, ow_environment = e, ow_event = event_text U (oa_event_id c), ow_commit_sequence = n,
        ow_payload = payload, ow_created_at = now\<rparr> \<in> set (db_outbox db1)" (is "?r \<in> _")
      by (auto simp: apply_event_def sql_insert_ignore_def split: if_splits)
    from enc have "ow_project ?r = p \<and> ow_environment ?r = e \<and> ow_commit_sequence ?r = n \<and>
      encode_value U (oa_payload a) = Inr (ow_payload ?r)" by simp
    moreover note row
    moreover from apply_events_append [OF 2] have "set (db_outbox db1) \<subseteq> set (db_outbox db')" by auto
    ultimately show ?thesis by blast
  next
    case False
    with Cons.IH [OF 2] Cons.prems(2) show ?thesis by simp
  qed
qed simp

lemma commit_event:
  assumes "ulid_laws U" and "db_ok U db" and "batch_typed U b" and "batch_valid U b"
    and "apply_commit U clock b digest db = Inr (r, db')" and "\<not> cr_replayed r" and "a \<in> set (cb_outbox b)"
  shows "\<exists>row \<in> set (db_outbox db'). ow_project row = project_text U (cb_scope b) \<and>
    ow_environment row = environment_text U (cb_scope b) \<and>
    ow_commit_sequence row = sequence_of (db_sequences db) (project_text U (cb_scope b)) (environment_text U (cb_scope b)) + 1 \<and>
    decode_value U (ow_payload row) = Inr (oa_payload a)"
  using assms(5)
proof (cases rule: apply_commit_cases)
  case replay
  with assms(6) show ?thesis using load_operation_replayed by blast
next
  case (fresh n sequences now operations documents db1 db2 db3)
  have "table_ok sequence_key sequence_row_ok (db_sequences db)"
    using assms(2) by (simp add: db_ok_def tables_ok_def)
  note spec = bump_sequence_spec [OF this fresh(3)]
  from assms(3,7) have "value_ok (oa_payload a)" by (simp add: batch_typed_def list_all_iff outbox_append_ok_def)
  then have decode: "encode_value U (oa_payload a) = Inr bs \<Longrightarrow> decode_value U bs = Inr (oa_payload a)" for bs
    using decode_value_encode [OF assms(1)] by blast
  from apply_schedules_append [OF fresh(8)] have "db_outbox db' = db_outbox db3" by auto
  with apply_events_rows [OF fresh(7) assms(7)] decode spec(1) show ?thesis by auto
qed

section \<open>Runs\<close>

definition announcing :: "ulid_crate \<Rightarrow> EnvironmentScope \<Rightarrow> store_op \<Rightarrow> bool" where
  "announcing U scope x \<longleftrightarrow> op_typed U x \<and>
     (case x of
        OpCommit _ _ b \<Rightarrow> cb_scope b = scope \<longrightarrow> announces U b
      | OpReset _ scope' _ \<Rightarrow> scope' \<noteq> scope
      | _ \<Rightarrow> True)"

definition untouched :: "ulid_crate \<Rightarrow> EnvironmentScope \<Rightarrow> u64 \<Rightarrow> ReadDependency list \<Rightarrow> database \<Rightarrow> bool" where
  "untouched U scope s dependencies db \<longleftrightarrow>
     (\<forall>r \<in> set (db_outbox db). event_of U scope s r \<longrightarrow>
        (\<forall>v impact. decode_value U (ow_payload r) = Inr v \<longrightarrow> change_impact_decode U v = Inr impact \<longrightarrow>
           \<not> invalidates impact dependencies))"

lemma untouched_before:
  "extends (project_text U scope) (environment_text U scope) db db' \<Longrightarrow> untouched U scope s xs db' \<Longrightarrow> untouched U scope s xs db"
  by (auto simp: untouched_def extends_def event_of_def)

lemma step_unchanged:
  assumes "ulid_laws U" and "db_ok U db" and "announcing U scope op"
    and "uint s \<le> sequence_of (db_sequences db) (project_text U scope) (environment_text U scope)"
    and "untouched U scope s xs (store_step U sha256 op db)" and "x \<in> set xs"
  shows "unchanged U scope db (store_step U sha256 op db) x"
proof (cases "op_scope op = scope \<and> writes_data op \<and> store_step U sha256 op db \<noteq> db")
  case False
  then consider "op_scope op \<noteq> scope" | "\<not> writes_data op" | "store_step U sha256 op db = db" by blast
  then show ?thesis
  proof cases
    case 1
    with scope_texts_inject [OF assms(1)]
    have "(project_text U (op_scope op), environment_text U (op_scope op)) \<noteq> (project_text U scope, environment_text U scope)"
      by blast
    then show ?thesis by (intro unchanged_view store_step_frame)
  next
    case 2
    then show ?thesis by (intro unchanged_data store_step_same_data)
  next
    case 3
    then show ?thesis by (simp add: unchanged_data same_data_def)
  qed
next
  case True
  then have scope: "op_scope op = scope" and change: "store_step U sha256 op db \<noteq> db" by simp_all
  from True assms(3) obtain fault clock b where op: "op = OpCommit fault clock b"
    by (cases op) (auto simp: announcing_def)
  let ?db' = "store_step U sha256 op db"
  from change obtain digest r where d: "commit_batch_digest U sha256 b = Inr digest"
    and c: "apply_commit U clock b digest db = Inr (r, ?db')"
    by (cases rule: store_step_cases) (use op in auto)
  have fresh: "\<not> cr_replayed r" using c change by (auto elim!: apply_commit_cases)
  have valid: "batch_valid U b" using d commit_batch_validate_Inr by (auto simp: commit_batch_digest_def)
  have typed: "batch_typed U b" and ann: "announces U b" and b: "cb_scope b = scope"
    using assms(3) scope by (simp_all add: announcing_def op)
  have "\<not> impact_meets (batch_impact b) x"
  proof (cases "cb_documents b = [] \<and> cb_indexes b = []")
    case True
    then show ?thesis by (cases x) (simp_all add: batch_impact_def)
  next
    case False
    with ann obtain a where a: "a \<in> set (cb_outbox b)"
      "oa_payload a = document_write_set_payload U (cb_documents b) (cb_indexes b)" by (auto simp: announces_def)
    from commit_event [OF assms(1,2) typed valid c fresh a(1)] assms(4) b
    obtain row where row: "row \<in> set (db_outbox ?db')" "event_of U scope s row"
      "decode_value U (ow_payload row) = Inr (oa_payload a)" by (fastforce simp: event_of_def)
    with assms(5) decode_batch_payload [OF assms(1) typed valid] a(2) have "\<not> invalidates (batch_impact b) xs"
      by (auto simp: untouched_def)
    with assms(6) show ?thesis by (simp add: invalidates_def list_ex_iff)
  qed
  with commit_unchanged [OF assms(1,2) typed valid c fresh] b show ?thesis by simp
qed

lemma run_unchanged:
  assumes "ulid_laws U" and "list_all (announcing U scope) ops" and "db_ok U db"
    and "uint s \<le> sequence_of (db_sequences db) (project_text U scope) (environment_text U scope)"
    and "untouched U scope s xs (run (store_step U sha256) ops db)" and "x \<in> set xs"
  shows "unchanged U scope db (run (store_step U sha256) ops db) x"
  using assms(2-5)
proof (induction ops arbitrary: db)
  case Nil
  then show ?case by (simp add: unchanged_data same_data_def)
next
  case (Cons op ops)
  let ?p = "project_text U scope" and ?e = "environment_text U scope" and ?db' = "store_step U sha256 op db"
  have legal: "op_typed U y \<and> \<not> resets U ?p ?e y" if "announcing U scope y" for y
    using that scope_texts_inject [OF assms(1)] by (cases y) (auto simp: announcing_def resets_def)
  then have ok': "db_ok U ?db'" and ext: "extends ?p ?e db ?db'"
    using Cons.prems(1,2) store_step_ok [OF assms(1)] store_step_extends by auto
  have "extends ?p ?e ?db' (run (store_step U sha256) ops ?db')"
    by (rule monotone_machine.le_run [OF store_history_machine [OF assms(1)] _ ok'])
      (use Cons.prems(1) legal in \<open>auto simp: list_all_iff\<close>)
  with Cons.prems(4) have "untouched U scope s xs ?db'" by (auto intro: untouched_before)
  from step_unchanged [OF assms(1) Cons.prems(2) _ Cons.prems(3) this assms(6)] Cons.prems(1)
  have "unchanged U scope db ?db' x" by simp
  moreover have "unchanged U scope ?db' (run (store_step U sha256) ops ?db') x"
    using Cons.prems(1,3,4) ext by (intro Cons.IH ok') (auto simp: extends_def)
  ultimately show ?case using unchanged_trans by simp
qed

end
