(* ===== verification/Realtime_Dispatcher.thy ===== *)
theory Realtime_Dispatcher
  imports Realtime_Registry Realtime_Sound
begin

text \<open>
  The change dispatcher of \<open>runku-realtime/src/dispatcher.rs\<close>: a poll reruns the subscriptions that
  wait for a retry, claims a batch of outbox events, marks the subscriptions they touch, reruns those
  and acknowledges the batch when no subscription owes work for it.

  The runner of a subscription is a trait the product implements; here it is part of the inputs, as
  is everything other clients do to the store and to the registry while the dispatcher awaits.
\<close>

section \<open>Types\<close>

record DispatcherConfig =
  batch_limit :: u32
  lease_micros :: u64

definition DISPATCHER_PRODUCTION :: DispatcherConfig where
  "DISPATCHER_PRODUCTION = \<lparr>batch_limit = 100, lease_micros = 30000000\<rparr>"

definition dispatcher_config_validate :: "DispatcherConfig \<Rightarrow> RealtimeError + DispatcherConfig" where
  "dispatcher_config_validate c =
     (if batch_limit c = 0 \<or> batch_limit c > 1000 \<or> lease_micros c = 0 then Inl RtInvalidConfiguration else Inr c)"

record SubscriptionRunFailure =
  rf_code :: string
  rf_retryable :: bool

definition run_failure_internal :: SubscriptionRunFailure where
  "run_failure_internal = \<lparr>rf_code = ''REALTIME_INTERNAL_ERROR'', rf_retryable = False\<rparr>"

definition authorization_expired :: SubscriptionRunFailure where
  "authorization_expired = \<lparr>rf_code = ''AUTHORIZATION_EXPIRED'', rf_retryable = False\<rparr>"

definition run_failure_new :: "string \<Rightarrow> bool \<Rightarrow> RealtimeError + SubscriptionRunFailure" where
  "run_failure_new code retryable =
     (if code = [] \<or> length code > 64 \<or> \<not> is_ascii_uppercase (hd code)
        \<or> \<not> list_all (\<lambda>b. is_ascii_uppercase b \<or> is_ascii_digit b \<or> b = CHR ''_'') code
      then Inl RtInvalidConfiguration else Inr \<lparr>rf_code = code, rf_retryable = retryable\<rparr>)"

datatype DispatcherError = DispStorage StoreError | DispRealtime RealtimeError | DispRerun SubscriptionRunFailure

record PollOutcome =
  po_lease_busy :: bool
  po_events :: u32
  po_reruns :: u64
  po_acknowledged_through :: "OutboxCursor option"

definition poll_outcome_default :: PollOutcome where
  "poll_outcome_default = \<lparr>po_lease_busy = False, po_events = 0, po_reruns = 0, po_acknowledged_through = None\<rparr>"

record DispatcherTelemetry =
  dt_polls :: u64
  dt_claims :: u64
  dt_lease_busy :: u64
  dt_events :: u64
  dt_acknowledgements :: u64
  dt_reruns :: u64
  dt_rerun_failures :: u64
  dt_invalid_impacts :: u64
  dt_storage_failures :: u64
  dt_max_sequence_lag :: u64

definition dispatcher_telemetry_default :: DispatcherTelemetry where
  "dispatcher_telemetry_default =
     \<lparr>dt_polls = 0, dt_claims = 0, dt_lease_busy = 0, dt_events = 0, dt_acknowledgements = 0, dt_reruns = 0,
      dt_rerun_failures = 0, dt_invalid_impacts = 0, dt_storage_failures = 0, dt_max_sequence_lag = 0\<rparr>"

record ChangeDispatcher =
  cd_consumer :: OutboxConsumerName
  cd_worker_id :: WorkerId
  cd_config :: DispatcherConfig

definition change_dispatcher_new ::
    "OutboxConsumerName \<Rightarrow> WorkerId \<Rightarrow> DispatcherConfig \<Rightarrow> RealtimeError + ChangeDispatcher" where
  "change_dispatcher_new consumer worker_id config =
     bindR (dispatcher_config_validate config) (\<lambda>config.
       Inr \<lparr>cd_consumer = consumer, cd_worker_id = worker_id, cd_config = config\<rparr>)"

section \<open>The surroundings\<close>

text \<open>What the dispatcher shares with others: the registry, the store and its own counters.\<close>

record 'i dispatch_state =
  ds_registry :: "'i SubscriptionRegistry"
  ds_database :: database
  ds_telemetry :: DispatcherTelemetry

text \<open>
  What other tasks do between two steps of a poll. A registration comes with the outcome of its Query, as a
  function of the store at that moment; a constant function is an outcome from any earlier moment, and
  \<open>None\<close> a Query that failed.
\<close>

datatype 'i other_op =
  OtherStore store_op
| OtherRegister "'i SubscriptionSpec" "database \<Rightarrow> QueryOutcome option"
| OtherRemove SubscriptionId
| OtherResume SubscriptionId

fun other_step :: "ulid_crate \<Rightarrow> (bytes \<Rightarrow> bytes) \<Rightarrow> 'i other_op \<Rightarrow> 'i dispatch_state \<Rightarrow> 'i dispatch_state" where
  "other_step U sha256 (OtherStore x) s = s\<lparr>ds_database := store_step U sha256 x (ds_database s)\<rparr>"
| "other_step U sha256 (OtherRegister spec answer) s =
     (case answer (ds_database s) of
        None \<Rightarrow> s
      | Some outcome \<Rightarrow> s\<lparr>ds_registry := snd (register U sha256 spec outcome (ds_registry s))\<rparr>)"
| "other_step U sha256 (OtherRemove i) s = s\<lparr>ds_registry := snd (remove_subscription i (ds_registry s))\<rparr>"
| "other_step U sha256 (OtherResume i) s = s\<lparr>ds_registry := snd (resume i (ds_registry s))\<rparr>"

text \<open>
  The inputs of a poll. The awaits of a poll are numbered: before the \<open>n\<close>-th call of the runner answers,
  the others perform \<open>pe_others n\<close>; likewise around the two calls of the store.
\<close>

record 'i poll_env =
  pe_rerun :: "nat \<Rightarrow> database \<Rightarrow> 'i SubscriptionSpec \<Rightarrow> SubscriptionRunFailure + QueryOutcome"
  pe_others :: "nat \<Rightarrow> 'i other_op list"
  pe_after :: "nat \<Rightarrow> 'i other_op list"
  pe_listening :: "nat \<Rightarrow> bool"
  pe_claim_others :: "'i other_op list"
  pe_claim_fault :: tx_fault
  pe_ack_others :: "'i other_op list"
  pe_ack_fault :: tx_fault
  pe_ack_clock :: clock

section \<open>Tickets\<close>

definition ticket_fails ::
    "bool \<Rightarrow> SubscriptionRunFailure \<Rightarrow> TimestampMicros \<Rightarrow> 'i RerunTicket \<Rightarrow> 'i dispatch_state
     \<Rightarrow> (DispatcherError + 'a) \<times> 'i dispatch_state" where
  "ticket_fails listening err now ticket s =
     (case complete_failure listening ticket (rf_code err) (rf_retryable err) now (ds_registry s) of
        (Inl e, reg) \<Rightarrow> (Inl (DispRealtime e), s\<lparr>ds_registry := reg\<rparr>)
      | (Inr _, reg) \<Rightarrow>
          (Inl (DispRerun err), s\<lparr>ds_registry := reg,
             ds_telemetry := (ds_telemetry s)\<lparr>dt_rerun_failures := dt_rerun_failures (ds_telemetry s) + 1\<rparr>\<rparr>))"

text \<open>
  A rerun that answered: the Query ran on the store as it was at some point of the await; the rest of
  what others did during the await follows before the registry is updated.
\<close>

definition ticket_succeeds ::
    "ulid_crate \<Rightarrow> (bytes \<Rightarrow> bytes) \<Rightarrow> bool \<Rightarrow> 'i RerunTicket \<Rightarrow> u64 \<Rightarrow> QueryOutcome \<Rightarrow> 'i dispatch_state
     \<Rightarrow> (DispatcherError + u64 \<times> 'i RerunTicket option) \<times> 'i dispatch_state" where
  "ticket_succeeds U sha256 listening ticket completed outcome s =
     (case checked_add_u64 completed 1 of
        None \<Rightarrow> (Inl (DispRealtime RtInternal), s)
      | Some completed' \<Rightarrow>
          let t = (ds_telemetry s)\<lparr>dt_reruns := dt_reruns (ds_telemetry s) + 1\<rparr> in
          (case complete_success U sha256 listening ticket outcome (ds_registry s) of
             (Inl e, reg) \<Rightarrow> (Inl (DispRealtime e), s\<lparr>ds_registry := reg, ds_telemetry := t\<rparr>)
           | (Inr following, reg) \<Rightarrow> (Inr (completed', following), s\<lparr>ds_registry := reg, ds_telemetry := t\<rparr>)))"

text \<open>
  The loop on one ticket runs again only with the ticket of a coalesced invalidation, which the
  completion takes off its entry.
\<close>

definition is_dirty :: "'i Entry \<Rightarrow> bool" where
  "is_dirty e \<longleftrightarrow> en_dirty_through e \<noteq> None"

definition dirty_entries :: "'i SubscriptionRegistry \<Rightarrow> nat" where
  "dirty_entries reg = length (filter (is_dirty \<circ> snd) (rg_entries reg))"

lemma set_entry_dirty:
  "map_of es i = Some e \<Longrightarrow>
   length (filter (is_dirty \<circ> snd) (set_entry i e' es)) + (if is_dirty e then 1 else 0) =
   length (filter (is_dirty \<circ> snd) es) + (if is_dirty e' then 1 else 0)"
  by (induction es) auto

lemma complete_success_dirty:
  assumes "complete_success U sha256 listening ticket outcome reg = (Inr (Some following), reg')"
  shows "dirty_entries reg' < dirty_entries reg"
proof -
  let ?i = "ss_id (tk_spec ticket)"
  from assms obtain hash e through e' t where e: "map_of (rg_entries reg) ?i = Some e"
    and c: "complete_success_entry listening ?i outcome hash through e (rg_telemetry reg) = (Inr (Some following), e', t)"
    and reg': "reg' = reg\<lparr>rg_entries := set_entry ?i e' (rg_entries reg), rg_telemetry := t\<rparr>"
    by (auto simp: complete_success_def Let_def split: sum.splits prod.splits)
  from c have "is_dirty e" and "\<not> is_dirty e'"
    by (auto simp: is_dirty_def complete_success_entry_def Let_def send_event_def start_rerun_def
        split: option.splits if_splits prod.splits)
  with set_entry_dirty [OF e, of e'] show ?thesis unfolding reg' dirty_entries_def by simp
qed

lemma other_step_dirty: "dirty_entries (ds_registry (other_step U sha256 x s)) \<le> dirty_entries (ds_registry s)"
proof (cases x)
  case (OtherRegister spec answer)
  have insort: "length (filter (is_dirty \<circ> snd) (insort_key fst (i, e) es)) =
      length (filter (is_dirty \<circ> snd) es)" if "\<not> is_dirty e" for i :: SubscriptionId and e :: "'a Entry" and es
    using that by (induction es) auto
  show ?thesis
    by (simp add: OtherRegister register_def send_event_def dirty_entries_def insort is_dirty_def Let_def
        split: sum.split option.split)
next
  case (OtherRemove i)
  have "length (filter (is_dirty \<circ> snd) (filter Q es)) \<le> length (filter (is_dirty \<circ> snd) es)" for Q
    and es :: "(SubscriptionId \<times> 'a Entry) list"
    by (induction es) auto
  then show ?thesis by (simp add: OtherRemove remove_subscription_def dirty_entries_def del: filter_filter split: option.split)
next
  case (OtherResume i)
  show ?thesis
  proof (cases "map_of (rg_entries (ds_registry s)) i")
    case (Some e)
    show ?thesis
      using set_entry_dirty [OF Some, of "e\<lparr>en_snapshot := (en_snapshot e)\<lparr>sn_suspended := False\<rparr>, en_consecutive_failures := 0,
          en_retry_not_before := None\<rparr>"] Some
      by (simp add: OtherResume resume_def dirty_entries_def is_dirty_def)
  qed (simp add: OtherResume resume_def)
qed simp

lemma others_dirty: "dirty_entries (ds_registry (run (other_step U sha256) xs s)) \<le> dirty_entries (ds_registry s)"
  by (induction xs arbitrary: s) (auto intro: order_trans other_step_dirty)

lemma ticket_succeeds_dirty:
  assumes "ticket_succeeds U sha256 listening ticket completed outcome s = (Inr (completed', Some following), s')"
  shows "dirty_entries (ds_registry s') < dirty_entries (ds_registry s)"
proof -
  obtain c r reg where c: "checked_add_u64 completed 1 = Some c"
    and r: "complete_success U sha256 listening ticket outcome (ds_registry s) = (r, reg)"
    using assms by (cases "checked_add_u64 completed 1"; force simp: ticket_succeeds_def)
  with assms have "r = Inr (Some following)" "ds_registry s' = reg"
    by (auto simp: ticket_succeeds_def Let_def split: sum.splits)
  with r show ?thesis using complete_success_dirty by blast
qed

function run_ticket ::
    "ulid_crate \<Rightarrow> (bytes \<Rightarrow> bytes) \<Rightarrow> 'i poll_env \<Rightarrow> TimestampMicros \<Rightarrow> nat \<Rightarrow> 'i RerunTicket \<Rightarrow> u64 \<Rightarrow> 'i dispatch_state
     \<Rightarrow> (DispatcherError + u64) \<times> nat \<times> 'i dispatch_state" where
  "run_ticket U sha256 env now n ticket completed s =
     (if micros (ss_authorized_until (tk_spec ticket)) \<le> micros now
      then (case ticket_fails (pe_listening env n) authorization_expired now ticket s of (r, s') \<Rightarrow> (r, n, s'))
      else
        let s1 = run (other_step U sha256) (pe_others env n) s;
            result = pe_rerun env n (ds_database s1) (tk_spec ticket);
            s2 = run (other_step U sha256) (pe_after env n) s1 in
        case result of
          Inl err \<Rightarrow> (case ticket_fails (pe_listening env n) err now ticket s2 of (r, s') \<Rightarrow> (r, Suc n, s'))
        | Inr outcome \<Rightarrow>
            (case ticket_succeeds U sha256 (pe_listening env n) ticket completed outcome s2 of
               (Inl err, s3) \<Rightarrow> (Inl err, Suc n, s3)
             | (Inr (completed', None), s3) \<Rightarrow> (Inr completed', Suc n, s3)
             | (Inr (completed', Some following), s3) \<Rightarrow> run_ticket U sha256 env now (Suc n) following completed' s3))"
  by pat_completeness auto
termination
proof (relation "measure (\<lambda>(_, _, _, _, _, _, _, s). dirty_entries (ds_registry s))", goal_cases)
  case (2 U sha256 env now n ticket completed s s1 result s2 outcome r s3 y completed' o' following)
  then have "ticket_succeeds U sha256 (pe_listening env n) ticket completed outcome s2 = (Inr (completed', Some following), s3)"
    by simp
  from ticket_succeeds_dirty [OF this] have "dirty_entries (ds_registry s3) < dirty_entries (ds_registry s2)" .
  also have "\<dots> \<le> dirty_entries (ds_registry s1)" unfolding 2 by (rule others_dirty)
  also have "\<dots> \<le> dirty_entries (ds_registry s)" unfolding 2 by (rule others_dirty)
  finally show ?case by simp
qed simp

declare run_ticket.simps [simp del]

text \<open>An error ends the loop over the tickets: those that are left are dropped.\<close>

fun execute_tickets_from ::
    "ulid_crate \<Rightarrow> (bytes \<Rightarrow> bytes) \<Rightarrow> 'i poll_env \<Rightarrow> TimestampMicros \<Rightarrow> nat \<Rightarrow> 'i RerunTicket list \<Rightarrow> u64 \<Rightarrow> 'i dispatch_state
     \<Rightarrow> (DispatcherError + u64) \<times> nat \<times> 'i dispatch_state" where
  "execute_tickets_from U sha256 env now n [] completed s = (Inr completed, n, s)"
| "execute_tickets_from U sha256 env now n (ticket # tickets) completed s =
     (case run_ticket U sha256 env now n ticket completed s of
        (Inl err, n', s') \<Rightarrow> (Inl err, n', s')
      | (Inr completed', n', s') \<Rightarrow> execute_tickets_from U sha256 env now n' tickets completed' s')"

definition execute_tickets ::
    "ulid_crate \<Rightarrow> (bytes \<Rightarrow> bytes) \<Rightarrow> 'i poll_env \<Rightarrow> TimestampMicros \<Rightarrow> nat \<Rightarrow> 'i RerunTicket list \<Rightarrow> 'i dispatch_state
     \<Rightarrow> (DispatcherError + u64) \<times> nat \<times> 'i dispatch_state" where
  "execute_tickets U sha256 env now n tickets s = execute_tickets_from U sha256 env now n tickets 0 s"

section \<open>Polling\<close>

definition observe_lag :: "DispatcherTelemetry \<Rightarrow> ClaimedOutboxBatch \<Rightarrow> DispatcherTelemetry" where
  "observe_lag t claim =
     (let previous = (case cob_acknowledged_through claim of None \<Rightarrow> 0 | Some cursor \<Rightarrow> cursor_commit_sequence cursor) in
      if cob_events claim = [] then t
      else
        let sequence = oe_commit_sequence (last (cob_events claim));
            lag = (if sequence \<ge> previous then sequence - previous else 0) in
        t\<lparr>dt_max_sequence_lag := max (dt_max_sequence_lag t) lag\<rparr>)"

fun mark_events ::
    "ulid_crate \<Rightarrow> EnvironmentScope \<Rightarrow> TimestampMicros \<Rightarrow> OutboxEventRecord list \<Rightarrow> 'i RerunTicket list \<Rightarrow> 'i dispatch_state
     \<Rightarrow> (DispatcherError + 'i RerunTicket list) \<times> 'i dispatch_state" where
  "mark_events U scope now [] tickets s = (Inr tickets, s)"
| "mark_events U scope now (event # events) tickets s =
     (case change_impact_decode U (oe_payload event) of
        Inl err \<Rightarrow>
          (Inl (DispRealtime err),
           s\<lparr>ds_telemetry := (ds_telemetry s)\<lparr>dt_invalid_impacts := dt_invalid_impacts (ds_telemetry s) + 1\<rparr>\<rparr>)
      | Inr impact \<Rightarrow>
          (case mark_impacted scope (outbox_event_cursor event) impact now (ds_registry s) of
             (Inl err, reg) \<Rightarrow> (Inl (DispRealtime err), s\<lparr>ds_registry := reg\<rparr>)
           | (Inr ks, reg) \<Rightarrow> mark_events U scope now events (tickets @ ks) (s\<lparr>ds_registry := reg\<rparr>)))"

definition lease_deadline :: "DispatcherConfig \<Rightarrow> TimestampMicros \<Rightarrow> DispatcherError + TimestampMicros" where
  "lease_deadline config now =
     (if unat (lease_micros config) \<ge> 2 ^ 63 \<or> micros now + uint (lease_micros config) \<ge> 2 ^ 63
      then Inl (DispRealtime RtInvalidConfiguration)
      else Inr (timestamp (micros now + uint (lease_micros config))))"

text \<open>The part of a poll after the claim of a batch that is not empty.\<close>

definition poll_batch ::
    "ulid_crate \<Rightarrow> (bytes \<Rightarrow> bytes) \<Rightarrow> ChangeDispatcher \<Rightarrow> 'i poll_env \<Rightarrow> EnvironmentScope \<Rightarrow> TimestampMicros \<Rightarrow> nat
     \<Rightarrow> u64 \<Rightarrow> ClaimedOutboxBatch \<Rightarrow> 'i dispatch_state \<Rightarrow> (DispatcherError + PollOutcome) \<times> 'i dispatch_state" where
  "poll_batch U sha256 self env scope now n reruns claim s =
     (case mark_events U scope now (cob_events claim) [] s of
        (Inl err, s1) \<Rightarrow> (Inl err, s1)
      | (Inr tickets, s1) \<Rightarrow>
          (case execute_tickets U sha256 env now n tickets s1 of
             (Inl err, _, s2) \<Rightarrow> (Inl err, s2)
           | (Inr executed, _, s2) \<Rightarrow>
               (case checked_add_u64 reruns executed of
                  None \<Rightarrow> (Inl (DispRealtime RtInternal), s2)
                | Some reruns' \<Rightarrow>
                    let through = outbox_event_cursor (last (cob_events claim)) in
                    if has_pending_through scope through (ds_registry s2) then (Inl (DispRealtime RtPendingWork), s2)
                    else
                      let s3 = run (other_step U sha256) (pe_ack_others env) s2 in
                      (case ack_outbox U (pe_ack_fault env) (pe_ack_clock env) scope (cd_consumer self) (cd_worker_id self)
                           (cob_lease_generation claim) through (ds_database s3) of
                         (Inl err, db) \<Rightarrow>
                           (Inl (DispStorage err), s3\<lparr>ds_database := db,
                              ds_telemetry := (ds_telemetry s3)\<lparr>dt_storage_failures := dt_storage_failures (ds_telemetry s3) + 1\<rparr>\<rparr>)
                       | (Inr _, db) \<Rightarrow>
                           (Inr \<lparr>po_lease_busy = False,
                              po_events = (if length (cob_events claim) < 2 ^ 32 then of_nat (length (cob_events claim)) else - 1),
                              po_reruns = reruns', po_acknowledged_through = Some through\<rparr>,
                            s3\<lparr>ds_database := db,
                              ds_telemetry := (ds_telemetry s3)\<lparr>dt_acknowledgements := dt_acknowledgements (ds_telemetry s3) + 1\<rparr>\<rparr>)))))"

definition poll_claim ::
    "ulid_crate \<Rightarrow> (bytes \<Rightarrow> bytes) \<Rightarrow> ChangeDispatcher \<Rightarrow> 'i poll_env \<Rightarrow> EnvironmentScope \<Rightarrow> TimestampMicros \<Rightarrow> nat
     \<Rightarrow> u64 \<Rightarrow> TimestampMicros \<Rightarrow> 'i dispatch_state \<Rightarrow> (DispatcherError + PollOutcome) \<times> 'i dispatch_state" where
  "poll_claim U sha256 self env scope now n reruns lease_until s =
     (let s1 = run (other_step U sha256) (pe_claim_others env) s in
      case claim_outbox U (pe_claim_fault env) scope (cd_consumer self) (cd_worker_id self) now lease_until
          (batch_limit (cd_config self)) (ds_database s1) of
        (Inl err, db) \<Rightarrow>
          let s2 = s1\<lparr>ds_database := db\<rparr>; t = ds_telemetry s1 in
          if err = Busy
          then (Inr (poll_outcome_default\<lparr>po_lease_busy := True, po_reruns := reruns\<rparr>),
                s2\<lparr>ds_telemetry := t\<lparr>dt_lease_busy := dt_lease_busy t + 1\<rparr>\<rparr>)
          else (Inl (DispStorage err), s2\<lparr>ds_telemetry := t\<lparr>dt_storage_failures := dt_storage_failures t + 1\<rparr>\<rparr>)
      | (Inr claim, db) \<Rightarrow>
          let t = ds_telemetry s1;
              s2 = s1\<lparr>ds_database := db,
                ds_telemetry := observe_lag (t\<lparr>dt_claims := dt_claims t + 1,
                  dt_events := dt_events t + of_nat (length (cob_events claim))\<rparr>) claim\<rparr> in
          if cob_events claim = [] then (Inr (poll_outcome_default\<lparr>po_reruns := reruns\<rparr>), s2)
          else poll_batch U sha256 self env scope now n reruns claim s2)"

definition poll_once ::
    "ulid_crate \<Rightarrow> (bytes \<Rightarrow> bytes) \<Rightarrow> ChangeDispatcher \<Rightarrow> 'i poll_env \<Rightarrow> EnvironmentScope \<Rightarrow> TimestampMicros
     \<Rightarrow> 'i dispatch_state \<Rightarrow> (DispatcherError + PollOutcome) \<times> 'i dispatch_state" where
  "poll_once U sha256 self env scope now s =
     (let t = ds_telemetry s; s0 = s\<lparr>ds_telemetry := t\<lparr>dt_polls := dt_polls t + 1\<rparr>\<rparr> in
      case ready_retries now (ds_registry s0) of
        (Inl err, reg) \<Rightarrow> (Inl (DispRealtime err), s0\<lparr>ds_registry := reg\<rparr>)
      | (Inr tickets, reg) \<Rightarrow>
          (case execute_tickets U sha256 env now 0 tickets (s0\<lparr>ds_registry := reg\<rparr>) of
             (Inl err, _, s1) \<Rightarrow> (Inl err, s1)
           | (Inr reruns, n, s1) \<Rightarrow>
               (case lease_deadline (cd_config self) now of
                  Inl err \<Rightarrow> (Inl err, s1)
                | Inr lease_until \<Rightarrow> poll_claim U sha256 self env scope now n reruns lease_until s1)))"

end
