(* ===== verification/Realtime_Cursor.thy ===== *)
theory Realtime_Cursor
  imports Realtime_Dispatcher Sqlite_Delivery
begin

text \<open>
  The cursor of an outbox consumer: what other clients of the store do leaves it and the events behind
  it alone, a claim hands out the next events after it, and an acknowledgement moves it to the last one.
\<close>

definition delivered :: "ulid_crate \<Rightarrow> EnvironmentScope \<Rightarrow> OutboxConsumerName \<Rightarrow> database \<Rightarrow> outbox_row set" where
  "delivered U scope c db =
     {r \<in> set (db_outbox db). ow_project r = project_text U scope \<and> ow_environment r = environment_text U scope \<and>
        \<not> after_cursor (fst (consumer_cursor U scope c db)) (snd (consumer_cursor U scope c db)) r}"

definition latest :: "ulid_crate \<Rightarrow> EnvironmentScope \<Rightarrow> database \<Rightarrow> int" where
  "latest U scope db = sequence_of (db_sequences db) (project_text U scope) (environment_text U scope)"

definition harmless :: "ulid_crate \<Rightarrow> EnvironmentScope \<Rightarrow> OutboxConsumerName \<Rightarrow> store_op \<Rightarrow> bool" where
  "harmless U scope c x \<longleftrightarrow> announcing U scope x \<and>
     (case x of
        OpClaimOutbox _ scope' c' _ _ _ _ \<Rightarrow> (scope', c') \<noteq> (scope, c)
      | OpAckOutbox _ _ scope' c' _ _ _ \<Rightarrow> (scope', c') \<noteq> (scope, c)
      | _ \<Rightarrow> True)"

section \<open>Sequences\<close>

lemma outbox_row_bound:
  assumes "db_ok U db" and "r \<in> set (db_outbox db)" and "ow_project r = project_text U scope"
    and "ow_environment r = environment_text U scope"
  shows "0 < ow_commit_sequence r" and "ow_commit_sequence r \<le> latest U scope db"
proof -
  have "outbox_row_ok U (sequence_of (db_sequences db)) r"
    using assms(1,2) by (auto simp: db_ok_def tables_ok_def table_ok_def)
  then show "0 < ow_commit_sequence r" and "ow_commit_sequence r \<le> latest U scope db"
    using assms(3,4) by (simp_all add: outbox_row_ok_def written_def latest_def)
qed

lemma latest_bounds: "db_ok U db \<Longrightarrow> 0 \<le> latest U scope db \<and> latest U scope db \<le> i64_max"
  unfolding latest_def using sequence_of_bounds [of "db_sequences db"] by (simp add: db_ok_def tables_ok_def)

lemma cursor_bound:
  assumes "db_ok U db"
  shows "fst (consumer_cursor U scope c db) \<le> latest U scope db"
proof (cases "sql_find (\<lambda>r. consumer_key r = (project_text U scope, environment_text U scope, c)) (db_consumers db)")
  case (Some r)
  from sql_find_Some [OF Some] have r: "r \<in> set (db_consumers db)" "cw_project r = project_text U scope"
    "cw_environment r = environment_text U scope" by (auto simp: consumer_key_def)
  then have "consumer_row_ok U (sequence_of (db_sequences db)) r"
    using assms by (auto simp: db_ok_def tables_ok_def table_ok_def)
  with r Some latest_bounds [OF assms, of scope] show ?thesis
    by (auto simp: consumer_row_ok_def consumer_cursor_def written_def latest_def split: option.splits)
qed (use latest_bounds [OF assms] in \<open>simp add: consumer_cursor_def\<close>)

lemma extends_latest: "extends (project_text U scope) (environment_text U scope) db db' \<Longrightarrow> latest U scope db \<le> latest U scope db'"
  by (simp add: extends_def latest_def)

section \<open>Other clients\<close>

lemma consumer_cursor_filter:
  assumes "filter (\<lambda>r. consumer_key r = (project_text U scope, environment_text U scope, c)) (db_consumers db') =
    filter (\<lambda>r. consumer_key r = (project_text U scope, environment_text U scope, c)) (db_consumers db)"
  shows "consumer_cursor U scope c db' = consumer_cursor U scope c db"
proof -
  have find: "sql_find w t = sql_find w (filter w t)" for w and t :: "consumer_row list"
    unfolding sql_find_def by (induction t) auto
  show ?thesis unfolding consumer_cursor_def by (subst (1 2) find) (simp only: assms)
qed

lemma claim_outbox_tx_consumers:
  assumes "claim_outbox_tx U scope consumer worker now lease_until limit db = Inr (r, db')"
    and "(project_text U scope, environment_text U scope, consumer) \<noteq> k"
  shows "filter (\<lambda>r. consumer_key r = k) (db_consumers db') = filter (\<lambda>r. consumer_key r = k) (db_consumers db)"
proof -
  let ?p = "project_text U scope" and ?e = "environment_text U scope"
  let ?q = "\<lambda>r. consumer_key r = k" and ?here = "\<lambda>r. consumer_key r = (?p, ?e, consumer)"
  let ?consumers = "ensure_consumer ?p ?e consumer (micros now) (db_consumers db)"
  have here: "\<not> ?q r" if "?here r" for r using that assms(2) by auto
  from assms(1) show ?thesis
  proof (rule claim_outbox_tx_cases)
    fix leased row rest cursor acknowledged events f
    assume 1: "sql_update_returning (\<lambda>r. ?here r \<and> lease_free (worker_text U worker) (micros now) r)
        (lease_row (worker_text U worker) (micros now) (micros lease_until)) ?consumers = Inr (row # rest, leased)"
      and 2: "f = (if events = [] then release_row (micros now)
          else claimed_row (micros now) (uint (oe_commit_sequence (last events)))
                 (event_text U (oe_event_id (last events))))"
      and 3: "db' = db\<lparr>db_sequences := ensure_sequence ?p ?e (db_sequences db),
         db_consumers := snd (sql_update ?here f leased)\<rparr>"
    have f: "consumer_key (f r) = consumer_key r" for r by (simp add: 2)
    have "filter ?q (snd (sql_update ?here f leased)) = filter ?q leased"
      by (rule filter_sql_update_frame) (use here f in \<open>blast, metis\<close>)
    also have "\<dots> = filter ?q ?consumers"
      by (rule filter_update_returning_frame [OF 1]) (use here lease_row_key in \<open>blast, metis\<close>)
    also have "\<dots> = filter ?q (db_consumers db)"
      using assms(2) by (auto simp: ensure_consumer_def consumer_key_def intro!: filter_sql_insert_ignore_frame)
    finally show ?thesis by (simp add: 3)
  qed
qed

lemma ack_outbox_tx_consumers:
  assumes "ack_outbox_tx U clock scope consumer worker generation through db = Inr (r, db')"
    and "(project_text U scope, environment_text U scope, consumer) \<noteq> k"
  shows "filter (\<lambda>r. consumer_key r = k) (db_consumers db') = filter (\<lambda>r. consumer_key r = k) (db_consumers db)"
proof -
  from assms(1) obtain now gen seq event where
    "db' = db\<lparr>db_consumers := snd (sql_update (owns_claim U scope consumer worker gen seq event)
       (ack_row now seq event) (db_consumers db))\<rparr>"
    by (auto simp: ack_outbox_tx_Inr)
  then show ?thesis
    using assms(2) by (auto simp: owns_claim_def ack_row_def consumer_key_def intro!: filter_sql_update_frame)
qed

lemma harmless_cursor:
  assumes "ulid_laws U" and "harmless U scope c x"
  shows "consumer_cursor U scope c (store_step U sha256 x db) = consumer_cursor U scope c db"
proof (cases "op_scope x = scope \<and> store_step U sha256 x db \<noteq> db")
  case False
  show ?thesis
  proof (cases "op_scope x = scope")
    case True
    with False show ?thesis by simp
  next
    case other: False
    with scope_texts_inject [OF assms(1)]
    have "(project_text U (op_scope x), environment_text U (op_scope x)) \<noteq> (project_text U scope, environment_text U scope)"
      by blast
    from store_step_frame [OF this] have "filter (\<lambda>r. cw_project r = project_text U scope \<and> cw_environment r = environment_text U scope)
        (db_consumers (store_step U sha256 x db)) =
      filter (\<lambda>r. cw_project r = project_text U scope \<and> cw_environment r = environment_text U scope) (db_consumers db)"
      by (simp add: scope_view_def)
    then have "filter (\<lambda>r. consumer_key r = (project_text U scope, environment_text U scope, c))
        (filter (\<lambda>r. cw_project r = project_text U scope \<and> cw_environment r = environment_text U scope)
          (db_consumers (store_step U sha256 x db))) =
      filter (\<lambda>r. consumer_key r = (project_text U scope, environment_text U scope, c))
        (filter (\<lambda>r. cw_project r = project_text U scope \<and> cw_environment r = environment_text U scope) (db_consumers db))"
      by simp
    then show ?thesis
      by (intro consumer_cursor_filter) (simp add: filter_filter consumer_key_def conj_ac cong: filter_cong)
  qed
next
  case True
  then have scope: "op_scope x = scope" and change: "store_step U sha256 x db \<noteq> db" by simp_all
  let ?k = "(project_text U scope, environment_text U scope, c)"
  from change have "filter (\<lambda>r. consumer_key r = ?k) (db_consumers (store_step U sha256 x db)) =
      filter (\<lambda>r. consumer_key r = ?k) (db_consumers db)"
  proof (cases rule: store_step_cases)
    case (1 b fault clock digest r)
    then have "cr_replayed r \<longrightarrow> store_step U sha256 x db = db" by (auto elim!: apply_commit_cases)
    with change have "\<not> cr_replayed r" by blast
    with 1(3) have "db_consumers (store_step U sha256 x db) = db_consumers db" by (rule apply_commit_effect)
    then show ?thesis by simp
  next
    case (2 fault scope' c' w now lease limit r)
    with assms(2) scope show ?thesis by (intro claim_outbox_tx_consumers [OF 2(2)]) (auto simp: harmless_def)
  next
    case (3 fault clock scope' c' w g through r)
    with assms(2) scope show ?thesis by (intro ack_outbox_tx_consumers [OF 3(2)]) (auto simp: harmless_def)
  next
    case (4 fault scope' w now lease limit r)
    have "db_consumers (snd (r, store_step U sha256 x db)) = db_consumers db"
      by (rule foldR_invariant [OF 4(2) [unfolded claim_due_scheduled_tx_def Let_def],
            where P = "\<lambda>y. db_consumers (snd y) = db_consumers db"]) (auto elim!: claim_one_cases)
    then show ?thesis by simp
  next
    case (5 fault clock scope' i w g completion now)
    then show ?thesis by (simp add: complete_schedule_update_def split_beta)
  next
    case (6 fault clock scope' i r)
    from 6(2) show ?thesis by (rule cancel_scheduled_tx_cases) simp
  next
    case (7 fault scope' confirmation)
    with assms(2) scope show ?thesis by (simp add: harmless_def announcing_def)
  qed
  then show ?thesis by (rule consumer_cursor_filter)
qed

lemma apply_events_new:
  assumes "foldR (apply_event U p e n now) db as = Inr db'" and "r \<in> set (db_outbox db')" and "r \<notin> set (db_outbox db)"
  shows "ow_commit_sequence r = n"
proof -
  have "\<forall>r \<in> set (db_outbox db'). r \<in> set (db_outbox db) \<or> ow_commit_sequence r = n"
    by (rule foldR_invariant [OF assms(1), where P = "\<lambda>x. \<forall>r \<in> set (db_outbox x). r \<in> set (db_outbox db) \<or> ow_commit_sequence r = n"])
      (auto simp: apply_event_def sql_insert_ignore_def split: if_splits)
  with assms(2,3) show ?thesis by blast
qed

lemma new_event:
  assumes "ulid_laws U" and "db_ok U db" and "announcing U scope x" and "r \<in> set (db_outbox (store_step U sha256 x db))"
    and "r \<notin> set (db_outbox db)" and "ow_project r = project_text U scope" and "ow_environment r = environment_text U scope"
  shows "ow_commit_sequence r = latest U scope db + 1"
proof (cases "op_scope x = scope")
  case False
  with scope_texts_inject [OF assms(1)]
  have "(project_text U (op_scope x), environment_text U (op_scope x)) \<noteq> (project_text U scope, environment_text U scope)"
    by blast
  from store_step_frame [OF this]
  have "filter (\<lambda>r. ow_project r = project_text U scope \<and> ow_environment r = environment_text U scope)
      (db_outbox (store_step U sha256 x db)) =
    filter (\<lambda>r. ow_project r = project_text U scope \<and> ow_environment r = environment_text U scope) (db_outbox db)"
    by (simp add: scope_view_def)
  from arg_cong [OF this, of set] assms(4-7) show ?thesis by auto
next
  case True
  have change: "store_step U sha256 x db \<noteq> db" using assms(4,5) by auto
  then show ?thesis
  proof (cases rule: store_step_cases)
    case (1 b fault clock digest res)
    from 1(3) show ?thesis
    proof (cases rule: apply_commit_cases)
      case replay
      with assms(4,5) show ?thesis by simp
    next
      case (fresh n sequences now operations documents db1 db2 db3)
      have "table_ok sequence_key sequence_row_ok (db_sequences db)"
        using assms(2) by (simp add: db_ok_def tables_ok_def)
      from bump_sequence_spec(1) [OF this fresh(3)] True 1(1) have n: "n = latest U scope db + 1" by (simp add: latest_def)
      from record_documents [OF fresh(5)] have "db1 = db\<lparr>db_sequences := sequences, db_operations := operations,
        db_documents := db_documents db1, db_results := db_results db1\<rparr>" by blast
      from arg_cong [OF this, of db_outbox] have "db_outbox db1 = db_outbox db" by simp
      moreover from arg_cong [OF apply_indexes_others [OF fresh(6)], of db_outbox] have "db_outbox db2 = db_outbox db1" by simp
      moreover from apply_schedules_append [OF fresh(8)] have "db_outbox (store_step U sha256 x db) = db_outbox db3" by auto
      ultimately show ?thesis using apply_events_new [OF fresh(7)] assms(4,5) n by auto
    qed
  next
    case (2 fault scope' c' w now lease limit res)
    from 2(2) have "db_outbox (store_step U sha256 x db) = db_outbox db" by (rule claim_outbox_tx_cases) simp
    with assms(4,5) show ?thesis by simp
  next
    case (3 fault clock scope' c' w g through res)
    have "ack_outbox_tx U clock scope' c' w g through db = Inr (res, y) \<Longrightarrow> db_outbox y = db_outbox db" for y
      by (auto simp: ack_outbox_tx_Inr)
    from this [OF 3(2)] assms(4,5) show ?thesis by simp
  next
    case (4 fault scope' w now lease limit res)
    have "db_outbox (snd (res, store_step U sha256 x db)) = db_outbox db"
      by (rule foldR_invariant [OF 4(2) [unfolded claim_due_scheduled_tx_def Let_def],
            where P = "\<lambda>y. db_outbox (snd y) = db_outbox db"]) (auto elim!: claim_one_cases)
    with assms(4,5) show ?thesis by simp
  next
    case (5 fault clock scope' i w g completion now)
    from arg_cong [OF 5(4), of db_outbox] have "db_outbox (store_step U sha256 x db) = db_outbox db"
      by (simp add: complete_schedule_update_def split_beta)
    with assms(4,5) show ?thesis by simp
  next
    case (6 fault clock scope' i res)
    from 6(2) have "db_outbox (store_step U sha256 x db) = db_outbox db" by (rule cancel_scheduled_tx_cases) simp
    with assms(4,5) show ?thesis by simp
  next
    case (7 fault scope' confirmation)
    with assms(3) True show ?thesis by (simp add: announcing_def)
  qed
qed

lemma harmless_delivered:
  assumes "ulid_laws U" and "db_ok U db" and "harmless U scope c x"
  shows "delivered U scope c (store_step U sha256 x db) \<subseteq> delivered U scope c db"
proof
  fix r assume r: "r \<in> delivered U scope c (store_step U sha256 x db)"
  then have in_scope: "ow_project r = project_text U scope" "ow_environment r = environment_text U scope"
    and mem: "r \<in> set (db_outbox (store_step U sha256 x db))"
    and behind: "\<not> after_cursor (fst (consumer_cursor U scope c db)) (snd (consumer_cursor U scope c db)) r"
    unfolding delivered_def harmless_cursor [OF assms(1,3)] by simp_all
  have "r \<in> set (db_outbox db)"
  proof (rule ccontr)
    assume "r \<notin> set (db_outbox db)"
    with new_event [OF assms(1,2) _ mem _ in_scope] assms(3) have "ow_commit_sequence r = latest U scope db + 1"
      by (simp add: harmless_def)
    with cursor_bound [OF assms(2), of scope c] behind show False by (simp add: after_cursor_def)
  qed
  with in_scope behind show "r \<in> delivered U scope c db" by (simp add: delivered_def)
qed

section \<open>Claims and acknowledgements\<close>

lemma claim_leaves_cursor:
  assumes "ulid_laws U" and "db_ok U db" and "claim_outbox_tx U scope c worker now lease_until limit db = Inr (b, db')"
  shows "consumer_cursor U scope c db' = consumer_cursor U scope c db"
  using assms
proof (rule claim_outbox_tx_effect)
  fix row
  assume "(cw_cursor_sequence row, cw_cursor_event row) = consumer_cursor U scope c db"
    and "sql_find (\<lambda>r. consumer_key r = (project_text U scope, environment_text U scope, c)) (db_consumers db') = Some
       (if cob_events b = [] then release_row (micros now) row
        else claimed_row (micros now) (uint (oe_commit_sequence (last (cob_events b))))
               (event_text U (oe_event_id (last (cob_events b)))) row)"
  then show ?thesis by (simp add: consumer_cursor_def release_row_def claimed_row_def split: if_splits)
qed

lemma claim_hands_out:
  assumes "ulid_laws U" and "db_ok U db" and "claim_outbox_tx U scope c worker now lease_until limit db = Inr (b, db')"
  shows "traverseR (decode_outbox_event U) (take (unat limit) (undelivered U scope c db)) = Inr (cob_events b)"
    and "db_outbox db' = db_outbox db" and "delivered U scope c db' = delivered U scope c db"
proof -
  show 1: "traverseR (decode_outbox_event U) (take (unat limit) (undelivered U scope c db)) = Inr (cob_events b)"
    using assms by (rule claim_outbox_tx_effect)
  show 2: "db_outbox db' = db_outbox db" using assms by (rule claim_outbox_tx_effect)
  show "delivered U scope c db' = delivered U scope c db"
    by (simp add: delivered_def 2 claim_leaves_cursor [OF assms])
qed

lemma ack_moves_cursor:
  assumes "db_ok U db" and "ack_outbox_tx U clock scope c worker generation through db = Inr (u, db')"
  shows "consumer_cursor U scope c db' =
      (uint (cursor_commit_sequence through), Some (event_text U (cursor_event_id through)))"
    and "db_outbox db' = db_outbox db"
proof -
  let ?k = "(project_text U scope, environment_text U scope, c)"
  let ?n = "uint (cursor_commit_sequence through)" and ?v = "event_text U (cursor_event_id through)"
  let ?owns = "owns_claim U scope c worker (uint generation) ?n ?v"
  from assms(2) obtain now where one: "fst (sql_update ?owns (ack_row now ?n ?v) (db_consumers db)) = 1"
    and db': "db' = db\<lparr>db_consumers := snd (sql_update ?owns (ack_row now ?n ?v) (db_consumers db))\<rparr>"
    by (auto simp: ack_outbox_tx_Inr)
  from one have "filter ?owns (db_consumers db) \<noteq> []" by (auto simp: sql_update_def)
  then obtain r where r: "r \<in> set (db_consumers db)" "?owns r" by (auto simp: filter_empty_conv)
  then have "consumer_key r = ?k" by (simp add: owns_claim_def)
  with sql_find_key [OF consumers_keyed [OF assms(1)]] r(1)
  have "sql_find (\<lambda>r. consumer_key r = ?k) (db_consumers db) = Some r" by simp
  moreover have "sql_find (\<lambda>r. consumer_key r = ?k) (db_consumers db') =
      map_option (\<lambda>r. if ?owns r then ack_row now ?n ?v r else r) (sql_find (\<lambda>r. consumer_key r = ?k) (db_consumers db))"
    using sql_find_update [of "db_consumers db" ?owns consumer_key "ack_row now ?n ?v"] by (simp add: db')
  ultimately show "consumer_cursor U scope c db' = (?n, Some ?v)"
    using r(2) by (simp add: consumer_cursor_def ack_row_def)
  show "db_outbox db' = db_outbox db" by (simp add: db')
qed

lemma run_new_event:
  assumes "ulid_laws U" and "list_all (announcing U scope) ops" and "db_ok U db"
    and "r \<in> set (db_outbox (run (store_step U sha256) ops db))" and "r \<notin> set (db_outbox db)"
    and "ow_project r = project_text U scope" and "ow_environment r = environment_text U scope"
  shows "latest U scope db < ow_commit_sequence r"
  using assms(2-5)
proof (induction ops arbitrary: db)
  case (Cons x ops)
  let ?db = "store_step U sha256 x db"
  have legal: "op_typed U x" "\<not> resets U (project_text U scope) (environment_text U scope) x"
    using Cons.prems(1) scope_texts_inject [OF assms(1)] by (cases x; auto simp: announcing_def resets_def)+
  have ok: "db_ok U ?db" by (rule store_step_ok [OF assms(1) legal(1) Cons.prems(2)])
  have le: "latest U scope db \<le> latest U scope ?db"
    by (rule extends_latest [OF store_step_extends [OF Cons.prems(2) legal(2)]])
  show ?case
  proof (cases "r \<in> set (db_outbox ?db)")
    case True
    with new_event [OF assms(1) Cons.prems(2) _ True Cons.prems(4) assms(6,7)] Cons.prems(1) show ?thesis by simp
  next
    case False
    with Cons.IH [OF _ ok] Cons.prems(1,3) le show ?thesis by simp
  qed
qed simp

lemma sorted_take_prefix:
  fixes f :: "'a \<Rightarrow> 'b :: linorder"
  assumes "sorted_wrt (<) (map f xs)" and "x \<in> set xs" and "take n xs \<noteq> []" and "f x \<le> f (last (take n xs))"
  shows "x \<in> set (take n xs)"
proof -
  from assms(2) obtain i where i: "i < length xs" "x = xs ! i" by (auto simp: in_set_conv_nth)
  note l = last_taken [OF assms(3)]
  have "i \<le> length (take n xs) - 1"
  proof (rule ccontr)
    assume "\<not> ?thesis"
    then have "f (xs ! (length (take n xs) - 1)) < f x"
      using assms(1) i l(2) by (simp add: sorted_wrt_iff_nth_less)
    with assms(4) l(1) show False by simp
  qed
  moreover have "0 < length (take n xs)" using assms(3) by blast
  ultimately have "i < length (take n xs)" by linarith
  then show ?thesis using i(2) by (metis nth_mem nth_take length_take min_less_iff_conj)
qed

lemma acked_delivered:
  assumes "ulid_laws U" and "db_ok U db" and "claim_outbox_tx U scope c worker now lease_until limit db = Inr (b, db1)"
    and "cob_events b \<noteq> []" and "list_all (announcing U scope) ops" and "db_ok U (run (store_step U sha256) ops db1)"
    and "ack_outbox_tx U clock scope c worker g (outbox_event_cursor (last (cob_events b)))
      (run (store_step U sha256) ops db1) = Inr (u, db2)"
  shows "delivered U scope c db2 \<subseteq> delivered U scope c db \<union> set (take (unat limit) (undelivered U scope c db))"
proof
  fix r
  let ?rows = "take (unat limit) (undelivered U scope c db)" and ?x = "last (cob_events b)"
  note claim = claim_hands_out [OF assms(1-3)]
  note ack = ack_moves_cursor [OF assms(6,7)]
  have db1: "db_ok U db1" by (rule claim_outbox_tx_ok [OF assms(1-3)])
  from traverseR_last [OF claim(1) assms(4)] have ne: "?rows \<noteq> []" and dec: "decode_outbox_event U (last ?rows) = Inr ?x" by blast+
  have "last ?rows \<in> set (undelivered U scope c db)" using ne by (metis last_in_set in_set_takeD)
  then have mem: "last ?rows \<in> set (db_outbox db1)" "ow_project (last ?rows) = project_text U scope"
    "ow_environment (last ?rows) = environment_text U scope" by (simp_all add: undelivered_def claim(2))
  have w: "0 < ow_commit_sequence (last ?rows)" "ow_commit_sequence (last ?rows) \<le> latest U scope db1"
    using outbox_row_bound [OF db1 mem] by simp_all
  then have "ow_commit_sequence (last ?rows) \<le> i64_max" using latest_bounds [OF db1, of scope] by simp
  then have ev: "(uint (oe_commit_sequence ?x), event_text U (oe_event_id ?x)) = event_position (last ?rows)"
    using decode_outbox_event_fields [OF dec] w by (simp add: event_position_def)
  assume "r \<in> delivered U scope c db2"
  then have r: "r \<in> set (db_outbox (run (store_step U sha256) ops db1))" "ow_project r = project_text U scope"
    "ow_environment r = environment_text U scope" "event_position r \<le> event_position (last ?rows)"
    unfolding delivered_def ack after_cursor_position by (simp_all add: ev outbox_event_cursor_def not_less)
  have "r \<in> set (db_outbox db1)"
  proof (rule ccontr)
    assume "r \<notin> set (db_outbox db1)"
    from run_new_event [OF assms(1,5) db1 r(1) this r(2,3)] w(2) r(4) show False by (auto simp: event_position_def)
  qed
  then have "r \<in> set (db_outbox db)" by (simp add: claim(2))
  show "r \<in> delivered U scope c db \<union> set ?rows"
  proof (cases "r \<in> delivered U scope c db")
    case False
    then have u: "r \<in> set (undelivered U scope c db)" using \<open>r \<in> set (db_outbox db)\<close> r(2,3) by (simp add: delivered_def undelivered_def)
    have "sorted_wrt (<) (map event_position (scope_events (project_text U scope) (environment_text U scope) (db_outbox db)))"
      by (rule scope_events_strict) (use assms(2) in \<open>simp add: db_ok_def tables_ok_def table_ok_def\<close>)
    then have "sorted_wrt (<) (map event_position (undelivered U scope c db))"
      unfolding undelivered_filter sorted_wrt_map by (rule sorted_wrt_filter)
    from sorted_take_prefix [OF this u ne r(4)] show ?thesis by simp
  qed simp
qed

end
