(* ===== verification/Realtime_Fresh.thy ===== *)
theory Realtime_Fresh
  imports Realtime_Cursor
begin

text \<open>
  Freshness of the subscriptions: each live entry of the registry shows an answer of its Query, and unless
  it still owes a rerun no event looked at so far that was committed after this answer touches its
  dependencies. Every operation of the registry and of the dispatcher keeps this.
\<close>

section \<open>Later databases\<close>

definition later :: "ulid_crate \<Rightarrow> (bytes \<Rightarrow> bytes) \<Rightarrow> EnvironmentScope \<Rightarrow> database \<Rightarrow> database \<Rightarrow> bool" where
  "later U sha256 scope db db' \<longleftrightarrow> (\<exists>ops. list_all (announcing U scope) ops \<and> db' = run (store_step U sha256) ops db)"

lemma later_refl: "later U sha256 scope db db"
  unfolding later_def by (rule exI [of _ "[]"]) simp

lemma run_app: "run step (xs @ ys) s = run step ys (run step xs s)"
  by (induction xs arbitrary: s) simp_all

lemma later_trans:
  assumes "later U sha256 scope db1 db2" and "later U sha256 scope db2 db3"
  shows "later U sha256 scope db1 db3"
proof -
  from assms obtain xs ys where "list_all (announcing U scope) xs" "db2 = run (store_step U sha256) xs db1"
    "list_all (announcing U scope) ys" "db3 = run (store_step U sha256) ys db2" by (auto simp: later_def)
  then show ?thesis unfolding later_def by (intro exI [of _ "xs @ ys"]) (simp add: run_app)
qed

lemma later_step: "announcing U scope x \<Longrightarrow> later U sha256 scope db (store_step U sha256 x db)"
  unfolding later_def by (rule exI [of _ "[x]"]) simp

lemma announcing_legal:
  "ulid_laws U \<Longrightarrow> announcing U scope x \<Longrightarrow> op_typed U x \<and> \<not> resets U (project_text U scope) (environment_text U scope) x"
  using scope_texts_inject by (cases x) (auto simp: announcing_def resets_def)

lemma later_facts:
  assumes "ulid_laws U" and "db_ok U db" and "later U sha256 scope db db'"
  shows "db_ok U db'" and "latest U scope db \<le> latest U scope db'"
proof -
  let ?p = "project_text U scope" and ?e = "environment_text U scope"
  from assms(3) obtain ops where ops: "list_all (announcing U scope) ops" "db' = run (store_step U sha256) ops db"
    by (auto simp: later_def)
  have legal: "list_all (op_typed U) ops" "list_all (\<lambda>x. op_typed U x \<and> \<not> resets U ?p ?e x) ops"
    using ops(1) announcing_legal [OF assms(1)] by (auto simp: list_all_iff)
  show "db_ok U db'" unfolding ops(2) by (rule invariant_machine.inv_run [OF store_machine [OF assms(1)] legal(1) assms(2)])
  show "latest U scope db \<le> latest U scope db'" unfolding ops(2)
    by (rule extends_latest [OF monotone_machine.le_run [OF store_history_machine [OF assms(1)] legal(2) assms(2)]])
qed

section \<open>Entries\<close>

definition owes :: "'i Entry \<Rightarrow> bool" where
  "owes e \<longleftrightarrow> en_running_through e \<noteq> None \<or> en_dirty_through e \<noteq> None"

definition cursors_of :: "'i Entry \<Rightarrow> OutboxCursor set" where
  "cursors_of e = set_option (en_running_through e) \<union> set_option (en_dirty_through e)
     \<union> set_option (sn_processed_through (en_snapshot e))"

definition touched :: "ulid_crate \<Rightarrow> 'i SubscriptionSnapshot \<Rightarrow> outbox_row \<Rightarrow> bool" where
  "touched U s r \<longleftrightarrow>
     (case sn_snapshot_sequence s of None \<Rightarrow> True | Some n \<Rightarrow> uint n < ow_commit_sequence r) \<and>
     (\<exists>v impact. decode_value U (ow_payload r) = Inr v \<and> change_impact_decode U v = Inr impact \<and>
        invalidates impact (sn_dependencies s))"

definition shows_outcome :: "'i SubscriptionSnapshot \<Rightarrow> QueryOutcome \<Rightarrow> bool" where
  "shows_outcome s out \<longleftrightarrow> sn_value s = qo_value out \<and> sn_snapshot_sequence s = qo_snapshot_sequence out \<and>
     sn_dependencies s = qo_dependencies out"

text \<open>A snapshot that has seen everything committed up to a sequence.\<close>

definition covers :: "'i SubscriptionSnapshot \<Rightarrow> int \<Rightarrow> bool" where
  "covers s n \<longleftrightarrow> sn_dependencies s = [] \<or> (\<exists>m. sn_snapshot_sequence s = Some m \<and> n \<le> uint m)"

definition answered ::
    "ulid_crate \<Rightarrow> (bytes \<Rightarrow> bytes) \<Rightarrow> EnvironmentScope \<Rightarrow> ('i SubscriptionSpec \<Rightarrow> database \<Rightarrow> QueryOutcome \<Rightarrow> bool)
     \<Rightarrow> database \<Rightarrow> 'i SubscriptionSnapshot \<Rightarrow> bool" where
  "answered U sha256 scope answers db s \<longleftrightarrow>
     (\<exists>db0 out. db_ok U db0 \<and> later U sha256 scope db0 db \<and> answers (sn_spec s) db0 out \<and> shows_outcome s out)"

text \<open>\<open>R\<close> is the set of the events looked at.\<close>

definition entry_ok ::
    "ulid_crate \<Rightarrow> (bytes \<Rightarrow> bytes) \<Rightarrow> EnvironmentScope \<Rightarrow> ('i SubscriptionSpec \<Rightarrow> database \<Rightarrow> QueryOutcome \<Rightarrow> bool)
     \<Rightarrow> database \<Rightarrow> outbox_row set \<Rightarrow> 'i Entry \<Rightarrow> bool" where
  "entry_ok U sha256 scope answers db R e \<longleftrightarrow>
     (ss_scope (sn_spec (en_snapshot e)) = scope \<longrightarrow>
        answered U sha256 scope answers db (en_snapshot e) \<and>
        (\<forall>c \<in> cursors_of e. uint (cursor_commit_sequence c) \<le> latest U scope db) \<and>
        (\<forall>p. sn_processed_through (en_snapshot e) = Some p \<longrightarrow>
           owes e \<or> covers (en_snapshot e) (uint (cursor_commit_sequence p))) \<and>
        (owes e \<or> (\<forall>r \<in> R. \<not> touched U (en_snapshot e) r)))"

lemma covers_touched: "covers s (ow_commit_sequence r) \<Longrightarrow> \<not> touched U s r"
  by (auto simp: covers_def touched_def invalidates_def)

lemma covers_mono: "covers s n \<Longrightarrow> m \<le> n \<Longrightarrow> covers s m"
  by (auto simp: covers_def)

lemma entry_ok_later:
  assumes "ulid_laws U" and "db_ok U db" and "later U sha256 scope db db'" and "entry_ok U sha256 scope answers db R e"
    and "R' \<subseteq> R"
  shows "entry_ok U sha256 scope answers db' R' e"
  using assms(4,5) later_facts(2) [OF assms(1-3)] later_trans [OF _ assms(3)]
  unfolding entry_ok_def answered_def by (blast intro: order_trans)

text \<open>The parts of an entry that matter here.\<close>

lemma entry_ok_cong:
  assumes "entry_ok U sha256 scope answers db R e" and "sn_spec (en_snapshot e') = sn_spec (en_snapshot e)"
    and "sn_value (en_snapshot e') = sn_value (en_snapshot e)"
    and "sn_snapshot_sequence (en_snapshot e') = sn_snapshot_sequence (en_snapshot e)"
    and "sn_dependencies (en_snapshot e') = sn_dependencies (en_snapshot e)"
    and "cursors_of e' \<subseteq> cursors_of e"
    and "owes e' \<or> \<not> owes e \<and> sn_processed_through (en_snapshot e') = sn_processed_through (en_snapshot e)"
  shows "entry_ok U sha256 scope answers db R e'"
proof -
  have "answered U sha256 scope answers db (en_snapshot e') = answered U sha256 scope answers db (en_snapshot e)"
    "covers (en_snapshot e') n = covers (en_snapshot e) n" "touched U (en_snapshot e') r = touched U (en_snapshot e) r" for n r
    by (simp_all add: answered_def shows_outcome_def covers_def touched_def assms(2-5))
  with assms(1,6,7) show ?thesis unfolding entry_ok_def assms(2) by (auto dest: subsetD)
qed

section \<open>Operations on one entry\<close>

lemma max_cursor_cases: "max_cursor x c = c \<or> x = Some (max_cursor x c)"
  by (auto simp: max_cursor_def split: option.split)

lemma cursor_le_sequence: "cursor_le a b \<Longrightarrow> uint (cursor_commit_sequence a) \<le> uint (cursor_commit_sequence b)"
  by (auto simp: cursor_le_def cursor_position_def word_le_def word_less_def)

lemma max_cursor_sequence:
  "uint (cursor_commit_sequence c) \<le> n \<Longrightarrow> (\<And>d. x = Some d \<Longrightarrow> uint (cursor_commit_sequence d) \<le> n) \<Longrightarrow>
   uint (cursor_commit_sequence (max_cursor x c)) \<le> n"
  using max_cursor_cases [of x c] by auto

text \<open>An entry that is made to owe a rerun, with its snapshot as it was.\<close>

lemma entry_ok_owes:
  assumes "entry_ok U sha256 scope answers db R e" and "en_snapshot e' = en_snapshot e" and "owes e'"
    and "\<And>c. c \<in> cursors_of e' \<Longrightarrow> c \<in> cursors_of e \<or> uint (cursor_commit_sequence c) \<le> latest U scope db"
  shows "entry_ok U sha256 scope answers db R' e'"
  using assms unfolding entry_ok_def by auto

lemma start_rerun_cases:
  assumes "start_rerun e through t = (r, e', t')"
  obtains "r = Inl RtInternal" "e' = e"
  | generation where "r = Inr \<lparr>tk_spec = sn_spec (en_snapshot e), tk_generation = generation\<rparr>"
      "e' = e\<lparr>en_next_generation := generation, en_running_generation := Some generation,
         en_running_through := Some through, en_retry_not_before := None\<rparr>"
proof (cases "checked_add_u64 (en_next_generation e) 1")
  case None
  with assms show thesis by (intro that(1)) (simp_all add: start_rerun_def)
next
  case (Some generation)
  with assms show thesis by (intro that(2) [of generation]) (simp_all add: start_rerun_def)
qed

lemma mark_entry_ok:
  assumes "entry_ok U sha256 scope answers db R e" and "mark_entry scope cursor impact now e t = (Inr ks, e', t')"
    and "uint (cursor_commit_sequence cursor) = ow_commit_sequence r" and "ow_commit_sequence r \<le> latest U scope db"
    and "decode_value U (ow_payload r) = Inr v" and "change_impact_decode U v = Inr impact"
  shows "entry_ok U sha256 scope answers db (insert r R) e'"
proof (cases "ss_scope (sn_spec (en_snapshot e)) \<noteq> scope
    \<or> (case sn_processed_through (en_snapshot e) of None \<Rightarrow> False | Some seen \<Rightarrow> cursor_le cursor seen)
    \<or> \<not> invalidates impact (sn_dependencies (en_snapshot e))")
  case True
  with assms(2) have e': "e' = e" by (simp add: mark_entry_def)
  from True consider "ss_scope (sn_spec (en_snapshot e)) \<noteq> scope"
    | seen where "sn_processed_through (en_snapshot e) = Some seen" "cursor_le cursor seen"
    | "\<not> invalidates impact (sn_dependencies (en_snapshot e))" by (auto split: option.splits)
  then show ?thesis
  proof cases
    case 1
    then show ?thesis by (simp add: e' entry_ok_def)
  next
    case 2
    from cursor_le_sequence [OF 2(2)] assms(3) have "ow_commit_sequence r \<le> uint (cursor_commit_sequence seen)" by simp
    with 2(1) assms(1) covers_mono covers_touched show ?thesis unfolding e' entry_ok_def by blast
  next
    case 3
    then have "\<not> touched U (en_snapshot e) r" using assms(5,6) by (auto simp: touched_def)
    with assms(1) show ?thesis unfolding e' entry_ok_def by blast
  qed
next
  case False
  from assms(2) False consider "en_snapshot e' = en_snapshot e" "en_running_through e' = en_running_through e"
      "en_dirty_through e' = Some (max_cursor (en_dirty_through e) cursor)"
    | t1 k where "start_rerun e cursor t1 = (Inr k, e', t')"
    by (auto simp: mark_entry_def Let_def split: if_splits prod.splits)
  then show ?thesis
  proof cases
    case 1
    show ?thesis
    proof (rule entry_ok_owes [OF assms(1)])
      fix c assume "c \<in> cursors_of e'"
      then show "c \<in> cursors_of e \<or> uint (cursor_commit_sequence c) \<le> latest U scope db"
        using 1 assms(3,4) max_cursor_cases [of "en_dirty_through e" cursor] by (auto simp: cursors_of_def)
    qed (use 1 in \<open>simp_all add: owes_def\<close>)
  next
    case 2
    then show ?thesis
    proof (cases rule: start_rerun_cases)
      case (2 generation)
      show ?thesis
        by (rule entry_ok_owes [OF assms(1)]) (use 2 assms(3,4) in \<open>auto simp: owes_def cursors_of_def\<close>)
    qed simp
  qed
qed

lemma retry_entry_ok:
  assumes "entry_ok U sha256 scope answers db R e" and "retry_entry now e t = (Inr ks, e', t')"
  shows "entry_ok U sha256 scope answers db R e'"
proof (cases "e' = e")
  case False
  with assms(2) obtain cursor k where c: "en_dirty_through e = Some cursor"
    "start_rerun (e\<lparr>en_dirty_through := None\<rparr>) cursor t = (Inr k, e', t')"
    by (auto simp: retry_entry_def split: if_splits option.splits prod.splits)
  from c(2) show ?thesis
  proof (cases rule: start_rerun_cases)
    case (2 generation)
    show ?thesis
      by (rule entry_ok_owes [OF assms(1)]) (use 2 c(1) in \<open>auto simp: owes_def cursors_of_def\<close>)
  qed simp
qed (use assms(1) in simp)

lemma send_event_entry [simp]:
  "en_snapshot (fst (send_event l ev e t)) = en_snapshot e" "en_running_through (fst (send_event l ev e t)) = en_running_through e"
  "en_dirty_through (fst (send_event l ev e t)) = en_dirty_through e"
  by (simp_all add: send_event_def)

lemma set_option_max_cursor: "max_cursor x c \<in> insert c (set_option x)"
  using max_cursor_cases [of x c] by auto

lemma complete_success_entry_facts:
  assumes "complete_success_entry listening i outcome hash through e t = (r, e', t')"
  shows "sn_spec (en_snapshot e') = sn_spec (en_snapshot e)" and "shows_outcome (en_snapshot e') outcome"
    and "cursors_of e' \<subseteq> insert through (cursors_of e)"
proof -
  let ?s = "(en_snapshot e)\<lparr>sn_value := qo_value outcome, sn_result_hash := hash,
           sn_snapshot_sequence := qo_snapshot_sequence outcome, sn_dependencies := qo_dependencies outcome\<rparr>"
  let ?p = "max_cursor (sn_processed_through (en_snapshot e)) through"
  have "sn_spec (en_snapshot e') = sn_spec (en_snapshot e) \<and> shows_outcome (en_snapshot e') outcome \<and>
    cursors_of e' \<subseteq> insert through (cursors_of e)"
  proof (cases "checked_add_u64 (sn_delivery_revision (en_snapshot e)) 1")
    case None
    with assms have "e' = e\<lparr>en_snapshot := ?s\<rparr>" by (simp add: complete_success_entry_def Let_def)
    then show ?thesis by (auto simp: shows_outcome_def cursors_of_def)
  next
    case (Some revision)
    define s' where "s' = ?s\<lparr>sn_delivery_revision := revision, sn_processed_through := Some ?p, sn_suspended := False\<rparr>"
    define x where "x = send_event listening (DeliverState i revision (qo_value outcome) hash (qo_snapshot_sequence outcome))
        (e\<lparr>en_snapshot := s', en_consecutive_failures := 0, en_retry_not_before := None,
           en_running_generation := None, en_running_through := None\<rparr>)
        (t\<lparr>tl_reruns_succeeded := tl_reruns_succeeded t + 1\<rparr>)"
    have x: "en_snapshot (fst x) = s'" "en_running_through (fst x) = None" "en_dirty_through (fst x) = en_dirty_through e"
      by (simp_all add: x_def)
    have s': "sn_spec s' = sn_spec (en_snapshot e)" "shows_outcome s' outcome" "sn_processed_through s' = Some ?p"
      by (simp_all add: s'_def shows_outcome_def)
    have run: "(case en_dirty_through e of
        None \<Rightarrow> (Inr None, fst x, snd x)
      | Some dirty \<Rightarrow>
          if cursor_le dirty ?p then (Inr None, (fst x)\<lparr>en_dirty_through := None\<rparr>, snd x)
          else (case start_rerun ((fst x)\<lparr>en_dirty_through := None\<rparr>) dirty (snd x) of (r, e3, t3) \<Rightarrow> (mapR Some r, e3, t3))) = (r, e', t')"
      using assms Some unfolding x_def s'_def by (simp add: complete_success_entry_def Let_def case_prod_beta)
    have p: "?p \<in> insert through (cursors_of e)"
      using set_option_max_cursor [of "sn_processed_through (en_snapshot e)" through] by (auto simp: cursors_of_def)
    consider "en_dirty_through e = None" "e' = fst x"
      | dirty where "en_dirty_through e = Some dirty" "e' = (fst x)\<lparr>en_dirty_through := None\<rparr>"
      | dirty r' where "en_dirty_through e = Some dirty"
          "start_rerun ((fst x)\<lparr>en_dirty_through := None\<rparr>) dirty (snd x) = (r', e', t')"
      using run by (cases "en_dirty_through e") (auto split: if_splits prod.splits)
    then show ?thesis
    proof cases
      case 1
      then show ?thesis using x s' p by (simp add: cursors_of_def)
    next
      case 2
      then show ?thesis using x s' p by (simp add: cursors_of_def)
    next
      case 3
      from 3(2) show ?thesis
      proof (cases rule: start_rerun_cases)
        case 1
        then show ?thesis using x s' p by (simp add: cursors_of_def)
      next
        case (2 generation)
        then show ?thesis using x s' p 3(1) by (simp add: cursors_of_def)
      qed
    qed
  qed
  then show "sn_spec (en_snapshot e') = sn_spec (en_snapshot e)" and "shows_outcome (en_snapshot e') outcome"
    and "cursors_of e' \<subseteq> insert through (cursors_of e)" by blast+
qed

lemma complete_failure_entry_facts:
  assumes "complete_failure_entry config listening i code retryable now through e t = (r, e', t')"
  shows "sn_spec (en_snapshot e') = sn_spec (en_snapshot e)" and "sn_value (en_snapshot e') = sn_value (en_snapshot e)"
    and "sn_snapshot_sequence (en_snapshot e') = sn_snapshot_sequence (en_snapshot e)"
    and "sn_dependencies (en_snapshot e') = sn_dependencies (en_snapshot e)" and "owes e'"
    and "cursors_of e' \<subseteq> insert through (cursors_of e)"
proof -
  define failures where "failures = (if en_consecutive_failures e = - 1 then - 1 else en_consecutive_failures e + 1)"
  define exhausted where "exhausted \<longleftrightarrow> failures \<ge> max_consecutive_failures config"
  define s where "s = (en_snapshot e)\<lparr>sn_suspended := \<not> retryable \<or> exhausted\<rparr>"
  define e1 where "e1 = e\<lparr>en_dirty_through := Some (max_cursor (en_dirty_through e) through), en_running_generation := None,
                 en_running_through := None, en_consecutive_failures := failures, en_snapshot := s\<rparr>"
  define s' where "s' = (if retryable \<and> \<not> exhausted then s
      else s\<lparr>sn_processed_through := Some (max_cursor (sn_processed_through s) through)\<rparr>)"
  have fields: "sn_spec s' = sn_spec (en_snapshot e)" "sn_value s' = sn_value (en_snapshot e)"
    "sn_snapshot_sequence s' = sn_snapshot_sequence (en_snapshot e)" "sn_dependencies s' = sn_dependencies (en_snapshot e)"
    "set_option (sn_processed_through s') \<subseteq> insert through (cursors_of e)"
    using set_option_max_cursor [of "sn_processed_through (en_snapshot e)" through]
    by (auto simp: s'_def s_def cursors_of_def)
  have dirty: "max_cursor (en_dirty_through e) through \<in> insert through (cursors_of e)"
    using set_option_max_cursor [of "en_dirty_through e" through] by (auto simp: cursors_of_def)
  have "\<exists>q. en_dirty_through e' = Some (max_cursor (en_dirty_through e) through) \<and> en_running_through e' = None \<and>
      (en_snapshot e' = s \<or> en_snapshot e' = s' \<or> en_snapshot e' = s'\<lparr>sn_delivery_revision := q\<rparr>)"
    using assms
    unfolding complete_failure_entry_def Let_def failures_def [symmetric] exhausted_def [symmetric] s_def [symmetric]
      e1_def [symmetric]
    by (cases "checked_add_u64 (sn_delivery_revision s') 1")
      (auto simp: e1_def s'_def send_event_def split: if_splits option.splits)
  moreover have "sn_processed_through s = sn_processed_through (en_snapshot e)" "sn_spec s = sn_spec (en_snapshot e)"
    "sn_value s = sn_value (en_snapshot e)" "sn_snapshot_sequence s = sn_snapshot_sequence (en_snapshot e)"
    "sn_dependencies s = sn_dependencies (en_snapshot e)" by (simp_all add: s_def)
  ultimately have "sn_spec (en_snapshot e') = sn_spec (en_snapshot e) \<and> sn_value (en_snapshot e') = sn_value (en_snapshot e) \<and>
    sn_snapshot_sequence (en_snapshot e') = sn_snapshot_sequence (en_snapshot e) \<and>
    sn_dependencies (en_snapshot e') = sn_dependencies (en_snapshot e) \<and> owes e' \<and> cursors_of e' \<subseteq> insert through (cursors_of e)"
    using fields dirty by (auto simp: owes_def cursors_of_def)
  then show "sn_spec (en_snapshot e') = sn_spec (en_snapshot e)" and "sn_value (en_snapshot e') = sn_value (en_snapshot e)"
    and "sn_snapshot_sequence (en_snapshot e') = sn_snapshot_sequence (en_snapshot e)"
    and "sn_dependencies (en_snapshot e') = sn_dependencies (en_snapshot e)" and "owes e'"
    and "cursors_of e' \<subseteq> insert through (cursors_of e)" by blast+
qed

end
