(* ===== verification/Realtime_Runner.thy ===== *)
theory Realtime_Runner
  imports Realtime_Fresh
begin

text \<open>
  The contract between the dispatcher and the runner of subscriptions, and what the dispatcher makes of it:
  if the runner answers with results of the Query, every poll keeps all subscriptions fresh.
\<close>

section \<open>The registry\<close>

definition specs :: "'i SubscriptionRegistry \<Rightarrow> (SubscriptionId \<times> 'i SubscriptionSpec) list" where
  "specs reg = map (\<lambda>(i, e). (i, sn_spec (en_snapshot e))) (rg_entries reg)"

definition registry_wf :: "'i SubscriptionRegistry \<Rightarrow> bool" where
  "registry_wf reg \<longleftrightarrow> distinct (map fst (specs reg)) \<and> (\<forall>(i, spec) \<in> set (specs reg). ss_id spec = i)"

text \<open>The reruns that are under way, and tickets that belong to them.\<close>

definition running_specs :: "'i SubscriptionRegistry \<Rightarrow> (SubscriptionId \<times> 'i SubscriptionSpec) set" where
  "running_specs reg =
     {(i, sn_spec (en_snapshot e)) | i e. map_of (rg_entries reg) i = Some e \<and> en_running_through e \<noteq> None}"

definition ticket_ok :: "'i SubscriptionRegistry \<Rightarrow> 'i RerunTicket \<Rightarrow> bool" where
  "ticket_ok reg k \<longleftrightarrow> (\<forall>spec. (ss_id (tk_spec k), spec) \<in> running_specs reg \<longrightarrow> spec = tk_spec k)"

definition spec_ticket :: "'i SubscriptionRegistry \<Rightarrow> 'i RerunTicket \<Rightarrow> bool" where
  "spec_ticket reg k \<longleftrightarrow> (\<forall>spec. map_of (specs reg) (ss_id (tk_spec k)) = Some spec \<longrightarrow> spec = tk_spec k)"

text \<open>The registry loses entries but gains none.\<close>

definition shrinks :: "'i SubscriptionRegistry \<Rightarrow> 'i SubscriptionRegistry \<Rightarrow> bool" where
  "shrinks reg reg' \<longleftrightarrow> (\<exists>P. specs reg' = filter P (specs reg))"

definition entries_all :: "('i Entry \<Rightarrow> bool) \<Rightarrow> 'i SubscriptionRegistry \<Rightarrow> bool" where
  "entries_all P reg \<longleftrightarrow> (\<forall>(i, e) \<in> set (rg_entries reg). P e)"

lemma shrinks_wf: "shrinks reg reg' \<Longrightarrow> registry_wf reg \<Longrightarrow> registry_wf reg'"
  unfolding shrinks_def registry_wf_def by (auto simp: distinct_map_filter)

lemma map_of_entry: "map_of (rg_entries reg) i = Some e \<Longrightarrow> map_of (specs reg) i = Some (sn_spec (en_snapshot e))"
proof -
  have "map_of es i = Some e \<Longrightarrow> map_of (map (\<lambda>(i, e). (i, sn_spec (en_snapshot e))) es) i = Some (sn_spec (en_snapshot e))" for es
    by (induction es) auto
  then show "map_of (rg_entries reg) i = Some e \<Longrightarrow> map_of (specs reg) i = Some (sn_spec (en_snapshot e))"
    by (simp add: specs_def)
qed

lemma spec_ticket_ok: "spec_ticket reg k \<Longrightarrow> ticket_ok reg k"
  unfolding spec_ticket_def ticket_ok_def running_specs_def by (auto dest: map_of_entry)

lemma running_ticket: "running_specs reg' \<subseteq> running_specs reg \<Longrightarrow> ticket_ok reg k \<Longrightarrow> ticket_ok reg' k"
  unfolding ticket_ok_def by blast

lemma set_entry_running:
  assumes "map_of (rg_entries reg) i = Some e" and "sn_spec (en_snapshot e') = sn_spec (en_snapshot e)"
    and "rg_entries reg' = set_entry i e' (rg_entries reg)" and "en_running_through e' \<noteq> None \<Longrightarrow> en_running_through e \<noteq> None"
  shows "running_specs reg' \<subseteq> running_specs reg"
proof -
  have "map_of (set_entry i e' es) j = (if j = i then map_option (\<lambda>_. e') (map_of es i) else map_of es j)" for j es
    by (induction es) auto
  with assms show ?thesis by (auto simp: running_specs_def split: if_splits)
qed

lemma set_entry_specs:
  assumes "map_of (rg_entries reg) i = Some e" and "sn_spec (en_snapshot e') = sn_spec (en_snapshot e)"
    and "rg_entries reg' = set_entry i e' (rg_entries reg)"
  shows "specs reg' = specs reg"
proof -
  have "map_of es i = Some e \<Longrightarrow> map (\<lambda>(i, e). (i, sn_spec (en_snapshot e))) (set_entry i e' es) =
      map (\<lambda>(i, e). (i, sn_spec (en_snapshot e))) es" for es
    using assms(2) by (induction es) auto
  with assms(1,3) show ?thesis by (simp add: specs_def)
qed

lemma set_entry_all:
  assumes "entries_all P reg" and "P e'" and "rg_entries reg' = set_entry i e' (rg_entries reg)"
  shows "entries_all P reg'"
proof -
  have "set (set_entry i e' es) \<subseteq> set es \<union> {(j, e') | j. True}" for es
    by (induction es) (auto split: if_splits)
  with assms show ?thesis unfolding entries_all_def by fastforce
qed

lemma entries_all_lookup: "entries_all P reg \<Longrightarrow> map_of (rg_entries reg) i = Some e \<Longrightarrow> P e"
  unfolding entries_all_def by (auto dest: map_of_SomeD)

lemma walk_entries_facts:
  assumes "walk_entries f es t = (r, es', t')"
    and "\<And>e t r e' t'. f e t = (r, e', t') \<Longrightarrow> sn_spec (en_snapshot e') = sn_spec (en_snapshot e)"
  shows "map (\<lambda>(i, e). (i, sn_spec (en_snapshot e))) es' = map (\<lambda>(i, e). (i, sn_spec (en_snapshot e))) es"
  using assms(1)
proof (induction es arbitrary: t r es' t')
  case (Cons x es)
  obtain i e where x: "x = (i, e)" by force
  obtain r1 e1 t1 where f: "f e t = (r1, e1, t1)" by (cases "f e t") auto
  obtain r2 es2 t2 where w: "walk_entries f es t1 = (r2, es2, t2)" by (cases "walk_entries f es t1") auto
  show ?case using Cons.prems Cons.IH [OF w] assms(2) [OF f] by (cases r1) (auto simp: x f w)
qed simp

lemma walk_entries_all:
  assumes "walk_entries f es t = (Inr ks, es', t')" and "\<And>e t ks e' t'. f e t = (Inr ks, e', t') \<Longrightarrow> P e \<Longrightarrow> Q e'"
    and "\<forall>(i, e) \<in> set es. P e"
  shows "\<forall>(i, e) \<in> set es'. Q e"
  using assms(1,3)
proof (induction es arbitrary: t ks es' t')
  case (Cons x es)
  obtain i e where x: "x = (i, e)" by force
  obtain r1 e1 t1 where f: "f e t = (r1, e1, t1)" by (cases "f e t") auto
  obtain r2 es2 t2 where w: "walk_entries f es t1 = (r2, es2, t2)" by (cases "walk_entries f es t1") auto
  from Cons.prems(1) obtain ks1 ks2 where r: "r1 = Inr ks1" "r2 = Inr ks2" "es' = (i, e1) # es2"
    by (cases r1) (auto simp: x f w)
  from assms(2) [OF f [unfolded r]] Cons.prems(2) have "Q e1" by (simp add: x)
  with Cons.IH [OF w [unfolded r]] Cons.prems(2) show ?case by (simp add: r(3))
qed simp

lemma walk_entries_tickets:
  assumes "walk_entries f es t = (Inr ks, es', t')" and "k \<in> set ks"
    and "\<And>e t ks e' t'. f e t = (Inr ks, e', t') \<Longrightarrow> k \<in> set ks \<Longrightarrow> P e"
  shows "\<exists>(i, e) \<in> set es. P e"
  using assms(1,2)
proof (induction es arbitrary: t ks es' t')
  case (Cons x es)
  obtain i e where x: "x = (i, e)" by force
  obtain r1 e1 t1 where f: "f e t = (r1, e1, t1)" by (cases "f e t") auto
  obtain r2 es2 t2 where w: "walk_entries f es t1 = (r2, es2, t2)" by (cases "walk_entries f es t1") auto
  from Cons.prems(1) obtain ks1 ks2 where r: "r1 = Inr ks1" "r2 = Inr ks2" "ks = ks1 @ ks2"
    by (cases r1) (auto simp: x f w)
  show ?case
  proof (cases "k \<in> set ks1")
    case True
    with assms(3) [OF f [unfolded r]] show ?thesis by (simp add: x)
  next
    case False
    with Cons.prems(2) r(3) have "k \<in> set ks2" by simp
    from Cons.IH [OF w [unfolded r] this] show ?thesis by (simp add: x)
  qed
qed simp

lemma mark_entry_spec:
  assumes "mark_entry scope cursor impact now e t = (r, e', t')"
  shows "sn_spec (en_snapshot e') = sn_spec (en_snapshot e)" and "r = Inr ks \<Longrightarrow> k \<in> set ks \<Longrightarrow> tk_spec k = sn_spec (en_snapshot e)"
  using assms by (auto simp: mark_entry_def start_rerun_def Let_def split: if_splits option.splits prod.splits)

lemma mark_entry_error:
  "mark_entry scope cursor impact now e t = (Inl err, e', t') \<Longrightarrow> e' = e"
  by (auto simp: mark_entry_def start_rerun_def Let_def split: if_splits option.splits prod.splits)

lemma retry_entry_spec:
  assumes "retry_entry now e t = (r, e', t')"
  shows "sn_spec (en_snapshot e') = sn_spec (en_snapshot e)" and "r = Inr ks \<Longrightarrow> k \<in> set ks \<Longrightarrow> tk_spec k = sn_spec (en_snapshot e)"
    and "r = Inl err \<Longrightarrow> err = RtInternal"
  using assms by (auto simp: retry_entry_def start_rerun_def split: if_splits option.splits prod.splits)

lemma walk_entries_error:
  assumes "walk_entries f es t = (Inl err, es', t')" and "\<And>e t r e' t' err. f e t = (r, e', t') \<Longrightarrow> r = Inl err \<Longrightarrow> err = RtInternal"
  shows "err = RtInternal"
  using assms(1)
proof (induction es arbitrary: t es' t')
  case (Cons x es)
  obtain i e where x: "x = (i, e)" by force
  obtain r1 e1 t1 where f: "f e t = (r1, e1, t1)" by (cases "f e t") auto
  obtain r2 es2 t2 where w: "walk_entries f es t1 = (r2, es2, t2)" by (cases "walk_entries f es t1") auto
  have "r2 = Inl err \<Longrightarrow> err = RtInternal" using Cons.IH w by blast
  with Cons.prems assms(2) [OF f] show ?case by (cases r1; cases r2) (auto simp: x f w)
qed simp

lemma tickets_from_entries:
  assumes "registry_wf reg" and "\<exists>(i, e) \<in> set (rg_entries reg). tk_spec k = sn_spec (en_snapshot e)"
  shows "spec_ticket reg k"
proof -
  from assms(2) obtain i e where "(i, e) \<in> set (rg_entries reg)" "tk_spec k = sn_spec (en_snapshot e)" by auto
  then have "(i, tk_spec k) \<in> set (specs reg)" unfolding specs_def by force
  with assms(1) have "ss_id (tk_spec k) = i" "map_of (specs reg) i = Some (tk_spec k)"
    by (auto simp: registry_wf_def)
  then show ?thesis by (simp add: spec_ticket_def)
qed

section \<open>Registering\<close>

lemma specs_ids: "map fst (specs reg) = map fst (rg_entries reg)"
  by (simp add: specs_def case_prod_beta)

lemma distinct_insort_fst:
  "distinct (map fst (insort_key fst x es)) \<longleftrightarrow> fst x \<notin> fst ` set es \<and> distinct (map fst es)"
  by (induction es) (auto simp: set_insort_key)

lemma register_entries:
  assumes "register U sha256 spec out reg = (r, reg')"
  obtains "reg' = reg"
  | e where "rg_entries reg' = insort_key fst (ss_id spec, e) (rg_entries reg)" "map_of (rg_entries reg) (ss_id spec) = None"
    "sn_spec (en_snapshot e) = spec" "shows_outcome (en_snapshot e) out" "\<not> owes e" "cursors_of e = {}"
  using assms
  by (auto simp: register_def Let_def send_event_def shows_outcome_def owes_def cursors_of_def split: sum.splits if_splits)

lemma register_wf:
  assumes "register U sha256 spec out reg = (r, reg')" and "registry_wf reg"
  shows "registry_wf reg'"
  using assms(1)
proof (cases rule: register_entries)
  case (2 e)
  have s: "set (specs reg') = insert (ss_id spec, spec) (set (specs reg))"
    using 2(3) by (auto simp: specs_def 2(1) set_insort_key)
  have "ss_id spec \<notin> fst ` set (rg_entries reg)" using 2(2) by (simp add: map_of_eq_None_iff)
  then show ?thesis using assms(2) s unfolding registry_wf_def specs_ids 2(1) distinct_insort_fst by auto
qed (simp add: assms(2))

lemma register_running:
  assumes "register U sha256 spec out reg = (r, reg')"
  shows "running_specs reg' \<subseteq> running_specs reg"
  using assms
proof (cases rule: register_entries)
  case (2 e)
  have "map_of (insort_key fst (ss_id spec, e) es) i = Some e' \<Longrightarrow> e' = e \<or> map_of es i = Some e'" for es i e'
    by (induction es) (auto split: if_splits)
  with 2(1,5) show ?thesis unfolding running_specs_def by (fastforce simp: owes_def)
qed simp

section \<open>The contract of the runner\<close>

text \<open>
  \<open>answers spec db out\<close> holds when \<open>out\<close> may be the outcome of the subscription's Query on the database. The
  outcome of a Query with dependencies names the sequence of its snapshot, and the Query answers with
  the same value where nothing it depends on changed.
\<close>

locale subscription_runner =
  fixes U :: ulid_crate
    and sha256 :: "bytes \<Rightarrow> bytes"
    and scope :: EnvironmentScope
    and answers :: "'i SubscriptionSpec \<Rightarrow> database \<Rightarrow> QueryOutcome \<Rightarrow> bool"
  assumes laws: "ulid_laws U"
    and sees_snapshot: "answers spec db out \<Longrightarrow> ss_scope spec = scope \<Longrightarrow> db_ok U db \<Longrightarrow>
      qo_dependencies out = [] \<or> (\<exists>s. qo_snapshot_sequence out = Some s \<and> uint s = latest U scope db)"
    and still_answers: "answers spec db out \<Longrightarrow> ss_scope spec = scope \<Longrightarrow> db_ok U db' \<Longrightarrow>
      (\<And>x. x \<in> set (qo_dependencies out) \<Longrightarrow> unchanged U scope db db' x) \<Longrightarrow>
      \<exists>out'. answers spec db' out' \<and> qo_value out' = qo_value out"
begin

lemma fresh_answer_covers:
  assumes "answers spec db out" and "ss_scope spec = scope" and "db_ok U db" and "shows_outcome s out"
    and "n \<le> latest U scope db"
  shows "covers s n"
  using sees_snapshot [OF assms(1-3)] assms(4,5) by (auto simp: covers_def shows_outcome_def)

lemma success_entry_ok:
  assumes "complete_success_entry listening i out hash through e t = (r, e', t')" and "en_running_through e = Some through"
    and "ss_scope (sn_spec (en_snapshot e)) = scope \<longrightarrow> answers (sn_spec (en_snapshot e)) db0 out"
    and "db_ok U db0" and "later U sha256 scope db0 db"
    and "ss_scope (sn_spec (en_snapshot e)) = scope \<longrightarrow> (\<forall>c \<in> cursors_of e. uint (cursor_commit_sequence c) \<le> latest U scope db0)"
    and "\<forall>r \<in> R. ow_commit_sequence r \<le> latest U scope db0"
  shows "entry_ok U sha256 scope answers db R e'"
proof (cases "ss_scope (sn_spec (en_snapshot e)) = scope")
  case True
  note f = complete_success_entry_facts [OF assms(1)]
  have cur: "uint (cursor_commit_sequence c) \<le> latest U scope db0" if "c \<in> cursors_of e'" for c
    using f(3) that assms(2,6) True by (auto simp: cursors_of_def)
  have cov: "covers (en_snapshot e') n" if "n \<le> latest U scope db0" for n
    using fresh_answer_covers [OF _ True assms(4) f(2) that] assms(3) True by blast
  have "latest U scope db0 \<le> latest U scope db" by (rule later_facts(2) [OF laws assms(4,5)])
  with cur have "\<forall>c \<in> cursors_of e'. uint (cursor_commit_sequence c) \<le> latest U scope db" by force
  moreover have "answered U sha256 scope answers db (en_snapshot e')"
    using assms(3-5) True f(1,2) by (auto simp: answered_def)
  moreover have "covers (en_snapshot e') (uint (cursor_commit_sequence p))"
    if "sn_processed_through (en_snapshot e') = Some p" for p
    using that cur by (intro cov) (simp add: cursors_of_def)
  moreover have "\<not> touched U (en_snapshot e') r" if "r \<in> R" for r
    using that assms(7) by (intro covers_touched cov) simp
  ultimately show ?thesis unfolding entry_ok_def by blast
next
  case False
  with complete_success_entry_facts(1) [OF assms(1)] show ?thesis by (simp add: entry_ok_def)
qed

lemma failure_entry_ok:
  assumes "complete_failure_entry config listening i code retryable now through e t = (r, e', t')"
    and "en_running_through e = Some through" and "entry_ok U sha256 scope answers db R e"
  shows "entry_ok U sha256 scope answers db R e'"
  using assms(3) complete_failure_entry_facts [OF assms(1)] assms(2)
  by (intro entry_ok_cong [OF assms(3)]) (auto simp: cursors_of_def)

end

section \<open>States of the dispatcher\<close>

definition dispatch_ok ::
    "ulid_crate \<Rightarrow> (bytes \<Rightarrow> bytes) \<Rightarrow> EnvironmentScope \<Rightarrow> ('i SubscriptionSpec \<Rightarrow> database \<Rightarrow> QueryOutcome \<Rightarrow> bool)
     \<Rightarrow> outbox_row set \<Rightarrow> 'i dispatch_state \<Rightarrow> bool" where
  "dispatch_ok U sha256 scope answers R s \<longleftrightarrow>
     db_ok U (ds_database s) \<and> registry_wf (ds_registry s) \<and>
     entries_all (entry_ok U sha256 scope answers (ds_database s) R) (ds_registry s) \<and>
     (\<forall>r \<in> R. ow_commit_sequence r \<le> latest U scope (ds_database s))"

text \<open>
  What others may do meanwhile: anything but registering with an outcome the Query no longer has, resetting the
  Environment or using this consumer.
\<close>

definition harmless_other ::
    "ulid_crate \<Rightarrow> EnvironmentScope \<Rightarrow> OutboxConsumerName \<Rightarrow> ('i SubscriptionSpec \<Rightarrow> database \<Rightarrow> QueryOutcome \<Rightarrow> bool)
     \<Rightarrow> 'i other_op \<Rightarrow> bool" where
  "harmless_other U scope c answers x \<longleftrightarrow>
     (case x of
        OtherStore y \<Rightarrow> harmless U scope c y
      | OtherRegister spec answer \<Rightarrow> \<forall>db out. answer db = Some out \<longrightarrow> ss_scope spec = scope \<longrightarrow> answers spec db out
      | _ \<Rightarrow> True)"

text \<open>From one state to a later one during a poll, as far as the outcome of a rerun is concerned.\<close>

definition moves ::
    "ulid_crate \<Rightarrow> (bytes \<Rightarrow> bytes) \<Rightarrow> EnvironmentScope \<Rightarrow> OutboxConsumerName \<Rightarrow> 'i dispatch_state \<Rightarrow> 'i dispatch_state \<Rightarrow> bool" where
  "moves U sha256 scope c s s' \<longleftrightarrow>
     (\<exists>ops. list_all (harmless U scope c) ops \<and> ds_database s' = run (store_step U sha256) ops (ds_database s)) \<and>
     running_specs (ds_registry s') \<subseteq> running_specs (ds_registry s)"

lemma moves_refl:
  "ds_database s' = ds_database s \<Longrightarrow> running_specs (ds_registry s') \<subseteq> running_specs (ds_registry s) \<Longrightarrow> moves U sha256 scope c s s'"
  unfolding moves_def by (auto intro!: exI [of _ "[]"])

lemma moves_trans:
  assumes "moves U sha256 scope c s1 s2" and "moves U sha256 scope c s2 s3"
  shows "moves U sha256 scope c s1 s3"
proof -
  from assms obtain xs ys where "list_all (harmless U scope c) xs" "ds_database s2 = run (store_step U sha256) xs (ds_database s1)"
    "list_all (harmless U scope c) ys" "ds_database s3 = run (store_step U sha256) ys (ds_database s2)" by (auto simp: moves_def)
  then have "\<exists>ops. list_all (harmless U scope c) ops \<and> ds_database s3 = run (store_step U sha256) ops (ds_database s1)"
    by (intro exI [of _ "xs @ ys"]) (simp add: run_app)
  with assms show ?thesis unfolding moves_def by blast
qed

lemma moves_later: "moves U sha256 scope c s s' \<Longrightarrow> later U sha256 scope (ds_database s) (ds_database s')"
  unfolding moves_def later_def by (auto simp: harmless_def list_all_iff)

lemma moves_delivered:
  assumes "ulid_laws U" and "db_ok U (ds_database s)" and "moves U sha256 scope c s s'"
  shows "delivered U scope c (ds_database s') \<subseteq> delivered U scope c (ds_database s)"
proof -
  have "db_ok U db \<Longrightarrow> list_all (harmless U scope c) ops \<Longrightarrow>
      delivered U scope c (run (store_step U sha256) ops db) \<subseteq> delivered U scope c db" for ops db
  proof (induction ops arbitrary: db)
    case (Cons x ops)
    then have "db_ok U (store_step U sha256 x db)"
      by (intro store_step_ok [OF assms(1)]) (auto simp: harmless_def announcing_def)
    with Cons harmless_delivered [OF assms(1), of db scope c x sha256] show ?case by (auto dest: subsetD)
  qed simp
  with assms(2,3) show ?thesis unfolding moves_def by metis
qed

lemma remove_specs: "specs (reg\<lparr>rg_entries := filter (\<lambda>(j, _). j \<noteq> i) (rg_entries reg), rg_telemetry := t\<rparr>) =
    filter (\<lambda>(j, _). j \<noteq> i) (specs reg)"
proof -
  have "map (\<lambda>(i, e). (i, sn_spec (en_snapshot e))) (filter (\<lambda>(j, _). j \<noteq> i) es) =
      filter (\<lambda>(j, _). j \<noteq> i) (map (\<lambda>(i, e). (i, sn_spec (en_snapshot e))) es)" for es
    by (induction es) auto
  then show ?thesis by (simp add: specs_def)
qed

text \<open>Others start no rerun and give no live entry a cursor.\<close>

lemma remove_facts:
  "shrinks reg (snd (remove_subscription i reg))" "running_specs (snd (remove_subscription i reg)) \<subseteq> running_specs reg"
  "set (rg_entries (snd (remove_subscription i reg))) \<subseteq> set (rg_entries reg)"
proof -
  have look: "map_of (filter (\<lambda>(j', _). j' \<noteq> i) es) j = Some e \<Longrightarrow> map_of es j = Some e" for es j and e :: "'a Entry"
    by (induction es) (auto split: if_splits dest: map_of_SomeD)
  show "shrinks reg (snd (remove_subscription i reg))" "set (rg_entries (snd (remove_subscription i reg))) \<subseteq> set (rg_entries reg)"
    by (auto simp: remove_subscription_def shrinks_def remove_specs split: option.split intro: exI [of _ "\<lambda>_. True"])
  show "running_specs (snd (remove_subscription i reg)) \<subseteq> running_specs reg"
    by (auto simp: remove_subscription_def running_specs_def split: option.split dest!: look)
qed

definition resumed :: "'i Entry \<Rightarrow> 'i Entry" where
  "resumed e = e\<lparr>en_snapshot := (en_snapshot e)\<lparr>sn_suspended := False\<rparr>, en_consecutive_failures := 0, en_retry_not_before := None\<rparr>"

lemma resume_facts:
  "specs (snd (resume i reg)) = specs reg" "running_specs (snd (resume i reg)) \<subseteq> running_specs reg"
  "(\<And>e. P e \<Longrightarrow> P (resumed e)) \<Longrightarrow> entries_all P reg \<Longrightarrow> entries_all P (snd (resume i reg))"
proof -
  have "specs (snd (resume i reg)) = specs reg \<and> running_specs (snd (resume i reg)) \<subseteq> running_specs reg \<and>
    ((\<forall>e. P e \<longrightarrow> P (resumed e)) \<longrightarrow> entries_all P reg \<longrightarrow> entries_all P (snd (resume i reg)))"
  proof (cases "map_of (rg_entries reg) i")
    case (Some e)
    have reg': "rg_entries (snd (resume i reg)) = set_entry i (resumed e) (rg_entries reg)"
      using Some by (simp add: resume_def resumed_def)
    show ?thesis
      using set_entry_specs [OF Some _ reg'] set_entry_running [OF Some _ reg'] set_entry_all [OF _ _ reg', of P]
        entries_all_lookup [OF _ Some, of P]
      by (simp add: resumed_def)
  qed (simp add: resume_def)
  then show "specs (snd (resume i reg)) = specs reg" "running_specs (snd (resume i reg)) \<subseteq> running_specs reg"
    "(\<And>e. P e \<Longrightarrow> P (resumed e)) \<Longrightarrow> entries_all P reg \<Longrightarrow> entries_all P (snd (resume i reg))" by blast+
qed

lemma other_step_moves:
  assumes "harmless_other U scope c answers x"
  shows "moves U sha256 scope c s (other_step U sha256 x s)"
proof (cases x)
  case (OtherStore y)
  with assms show ?thesis by (auto simp: harmless_other_def moves_def intro!: exI [of _ "[y]"])
next
  case (OtherRegister spec answer)
  show ?thesis
    by (rule moves_refl) (simp_all add: OtherRegister register_running [OF prod.collapse [symmetric]] split: option.split)
next
  case (OtherRemove i)
  show ?thesis by (rule moves_refl) (simp_all add: OtherRemove remove_facts(2))
next
  case (OtherResume i)
  show ?thesis by (rule moves_refl) (simp_all add: OtherResume resume_facts(2))
qed

lemma others_move:
  assumes "list_all (harmless_other U scope c answers) xs"
  shows "moves U sha256 scope c s (run (other_step U sha256) xs s)"
  using assms
proof (induction xs arbitrary: s)
  case (Cons x xs)
  then show ?case using other_step_moves [of U scope c answers x] moves_trans by (auto intro: moves_trans)
qed (simp add: moves_refl)

lemma others_cursors:
  assumes "\<And>e. P e \<Longrightarrow> P (resumed e)" and "\<And>e. cursors_of e = {} \<Longrightarrow> P e" and "entries_all P (ds_registry s)"
  shows "entries_all P (ds_registry (run (other_step U sha256) xs s))"
  using assms(3)
proof (induction xs arbitrary: s)
  case (Cons x xs)
  have "entries_all P (ds_registry (other_step U sha256 x s))"
  proof (cases x)
    case (OtherRegister spec answer)
    have "entries_all P reg" if "register U sha256 spec out (ds_registry s) = (r, reg)" for out r reg
      using that by (cases rule: register_entries) (use Cons.prems assms(2) in \<open>auto simp: entries_all_def set_insort_key\<close>)
    then show ?thesis using Cons.prems by (auto simp: OtherRegister split: option.split) (metis prod.collapse)
  next
    case (OtherRemove i)
    then show ?thesis using Cons.prems remove_facts(3) [of i "ds_registry s"] by (auto simp: entries_all_def)
  qed (use Cons.prems resume_facts(3) [of P, OF assms(1)] in auto)
  with Cons.IH show ?case by simp
qed simp

lemma dispatch_ok_later:
  assumes "ulid_laws U" and "dispatch_ok U sha256 scope answers R s" and "ds_registry s' = ds_registry s"
    and "later U sha256 scope (ds_database s) (ds_database s')"
  shows "dispatch_ok U sha256 scope answers R s'"
proof -
  have ok: "db_ok U (ds_database s)" using assms(2) by (simp add: dispatch_ok_def)
  note f = later_facts [OF assms(1) ok assms(4)]
  have "entry_ok U sha256 scope answers (ds_database s') R e" if "entry_ok U sha256 scope answers (ds_database s) R e" for e
    by (rule entry_ok_later [OF assms(1) ok assms(4) that]) simp
  with assms(2,3) f show ?thesis by (fastforce simp: dispatch_ok_def entries_all_def)
qed

definition runner_env ::
    "ulid_crate \<Rightarrow> EnvironmentScope \<Rightarrow> OutboxConsumerName \<Rightarrow> ('i SubscriptionSpec \<Rightarrow> database \<Rightarrow> QueryOutcome \<Rightarrow> bool)
     \<Rightarrow> 'i poll_env \<Rightarrow> bool" where
  "runner_env U scope c answers env \<longleftrightarrow>
     (\<forall>n. list_all (harmless_other U scope c answers) (pe_others env n) \<and> list_all (harmless_other U scope c answers) (pe_after env n)) \<and>
     list_all (harmless_other U scope c answers) (pe_claim_others env) \<and> list_all (harmless_other U scope c answers) (pe_ack_others env) \<and>
     (\<forall>n db spec out. pe_rerun env n db spec = Inr out \<longrightarrow> ss_scope spec = scope \<longrightarrow> answers spec db out)"

context subscription_runner
begin

lemma register_ok:
  assumes ok: "dispatch_ok U sha256 scope answers R s" and reg: "register U sha256 spec out (ds_registry s) = (r, reg)"
    and out: "ss_scope spec = scope \<longrightarrow> answers spec (ds_database s) out"
  shows "dispatch_ok U sha256 scope answers R (s\<lparr>ds_registry := reg\<rparr>)"
  using reg
proof (cases rule: register_entries)
  case 1
  with ok show ?thesis by simp
next
  case (2 e)
  note es = 2(1) and new = 2(2) and e = 2(3-6)
  let ?db = "ds_database s"
  have db: "db_ok U ?db" using ok by (simp add: dispatch_ok_def)
  have "entry_ok U sha256 scope answers ?db R e"
    unfolding entry_ok_def
  proof (intro impI conjI)
    assume here: "ss_scope (sn_spec (en_snapshot e)) = scope"
    then have a: "answers spec ?db out" "ss_scope spec = scope" using out e(1) by auto
    show "answered U sha256 scope answers ?db (en_snapshot e)"
      unfolding answered_def using a db e(1,2) later_refl by blast
    have "\<not> touched U (en_snapshot e) r" if "r \<in> R" for r
    proof -
      have "ow_commit_sequence r \<le> latest U scope ?db" using that ok by (simp add: dispatch_ok_def)
      from covers_touched [OF fresh_answer_covers [OF a db e(2) this]] show ?thesis .
    qed
    then show "owes e \<or> (\<forall>r \<in> R. \<not> touched U (en_snapshot e) r)" by blast
  qed (use e(4) in \<open>auto simp: cursors_of_def\<close>)
  then have "entries_all (entry_ok U sha256 scope answers ?db R) reg"
    using ok es by (auto simp: dispatch_ok_def entries_all_def set_insort_key)
  moreover have "registry_wf reg" using register_wf [OF reg] ok by (simp add: dispatch_ok_def)
  ultimately show ?thesis using ok by (simp add: dispatch_ok_def)
qed

lemma other_step_ok:
  assumes ok: "dispatch_ok U sha256 scope answers R s" and x: "harmless_other U scope c answers x"
  shows "dispatch_ok U sha256 scope answers R (other_step U sha256 x s)"
proof (cases x)
  case (OtherStore y)
  show ?thesis
    by (rule dispatch_ok_later [OF laws ok _ moves_later [OF other_step_moves [OF x]]]) (simp add: OtherStore)
next
  case (OtherRegister spec answer)
  show ?thesis
  proof (cases "answer (ds_database s)")
    case (Some out)
    have "ss_scope spec = scope \<longrightarrow> answers spec (ds_database s) out" using x Some by (simp add: OtherRegister harmless_other_def)
    from register_ok [OF ok prod.collapse [symmetric] this] show ?thesis by (simp add: OtherRegister Some)
  qed (simp add: OtherRegister ok)
next
  case (OtherRemove i)
  show ?thesis
    using ok shrinks_wf [OF remove_facts(1)] remove_facts(3) [of i "ds_registry s"]
    by (auto simp: OtherRemove dispatch_ok_def entries_all_def)
next
  case (OtherResume i)
  have "entry_ok U sha256 scope answers (ds_database s) R e \<Longrightarrow> entry_ok U sha256 scope answers (ds_database s) R (resumed e)" for e
    by (erule entry_ok_cong) (auto simp: cursors_of_def owes_def resumed_def)
  from resume_facts(3) [of "entry_ok U sha256 scope answers (ds_database s) R", OF this] ok show ?thesis
    by (simp add: OtherResume dispatch_ok_def registry_wf_def resume_facts(1))
qed

lemma others_ok:
  assumes "dispatch_ok U sha256 scope answers R s" and "list_all (harmless_other U scope c answers) xs"
  shows "dispatch_ok U sha256 scope answers R (run (other_step U sha256) xs s)"
    and "moves U sha256 scope c s (run (other_step U sha256) xs s)"
proof -
  show "dispatch_ok U sha256 scope answers R (run (other_step U sha256) xs s)"
    using assms
  proof (induction xs arbitrary: s)
    case (Cons x xs)
    then show ?case using other_step_ok [OF Cons.prems(1), of c x] by simp
  qed simp
  show "moves U sha256 scope c s (run (other_step U sha256) xs s)" by (rule others_move [OF assms(2)])
qed

lemma ticket_fails_ok:
  assumes "dispatch_ok U sha256 scope answers R s" and "ticket_fails listening err now ticket s = (r, s')"
  shows "dispatch_ok U sha256 scope answers R s'" and "moves U sha256 scope c s s'"
proof -
  let ?reg = "ds_registry s" and ?i = "ss_id (tk_spec ticket)"
  obtain q reg where f: "complete_failure listening ticket (rf_code err) (rf_retryable err) now ?reg = (q, reg)" by force
  with assms(2) have s': "ds_database s' = ds_database s" "ds_registry s' = reg"
    by (auto simp: ticket_fails_def split: sum.splits)
  have "specs reg = specs ?reg \<and> running_specs reg \<subseteq> running_specs ?reg \<and>
    entries_all (entry_ok U sha256 scope answers (ds_database s) R) reg"
  proof (cases "reg = ?reg")
    case True
    with assms(1) show ?thesis by (simp add: dispatch_ok_def)
  next
    case False
    obtain e through where e: "map_of (rg_entries ?reg) ?i = Some e" "en_running_through e = Some through"
      using f False by (auto simp: complete_failure_def Let_def split: sum.splits)
    obtain q' e' t where c: "complete_failure_entry (rg_config ?reg) listening ?i (rf_code err) (rf_retryable err) now through e
        (rg_telemetry ?reg) = (q', e', t)" by (metis prod_cases3)
    have reg: "rg_entries reg = set_entry ?i e' (rg_entries ?reg)"
      using f False e c by (auto simp: complete_failure_def Let_def split: sum.splits)
    from assms(1) have all: "entries_all (entry_ok U sha256 scope answers (ds_database s) R) ?reg" by (simp add: dispatch_ok_def)
    have "entry_ok U sha256 scope answers (ds_database s) R e'"
      by (rule failure_entry_ok [OF c e(2) entries_all_lookup [OF all e(1)]])
    with set_entry_specs [OF e(1) complete_failure_entry_facts(1) [OF c] reg] set_entry_all [OF all _ reg]
      set_entry_running [OF e(1) complete_failure_entry_facts(1) [OF c] reg] e(2) show ?thesis by blast
  qed
  with assms(1) s' show "dispatch_ok U sha256 scope answers R s'" "moves U sha256 scope c s s'"
    by (auto simp: dispatch_ok_def registry_wf_def intro: moves_refl)
qed

lemma ticket_succeeds_ok:
  assumes "dispatch_ok U sha256 scope answers R s" and "ticket_succeeds U sha256 listening ticket completed out s = (r, s')"
    and "ticket_ok (ds_registry s) ticket" and "ss_scope (tk_spec ticket) = scope \<longrightarrow> answers (tk_spec ticket) db0 out"
    and "db_ok U db0" and "later U sha256 scope db0 (ds_database s)"
    and "entries_all (\<lambda>e. ss_scope (sn_spec (en_snapshot e)) = scope \<longrightarrow>
      (\<forall>c \<in> cursors_of e. uint (cursor_commit_sequence c) \<le> latest U scope db0)) (ds_registry s)"
    and "\<forall>r \<in> R. ow_commit_sequence r \<le> latest U scope db0"
  shows "dispatch_ok U sha256 scope answers R s'" and "moves U sha256 scope c s s'"
    and "r = Inr (n, Some k) \<Longrightarrow> tk_spec k = tk_spec ticket"
proof -
  let ?reg = "ds_registry s" and ?i = "ss_id (tk_spec ticket)"
  obtain q reg where f: "complete_success U sha256 listening ticket out ?reg = (q, reg)" by force
  have s': "ds_database s' = ds_database s" "ds_registry s' = reg \<or> ds_registry s' = ?reg \<and> (\<forall>n k. r \<noteq> Inr (n, Some k))"
    "r = Inr (n, Some k) \<Longrightarrow> q = Inr (Some k)"
    using assms(2) f by (auto simp: ticket_succeeds_def Let_def split: option.splits sum.splits)
  have reg_ok: "specs reg = specs ?reg \<and> running_specs reg \<subseteq> running_specs ?reg \<and> entries_all (entry_ok U sha256 scope answers (ds_database s) R) reg \<and>
    (q = Inr (Some k) \<longrightarrow> tk_spec k = tk_spec ticket)"
  proof (cases "\<exists>err. q = Inl err \<and> reg = ?reg")
    case True
    with assms(1) show ?thesis by (auto simp: dispatch_ok_def)
  next
    case False
    obtain hash e through where e: "map_of (rg_entries ?reg) ?i = Some e" "en_running_through e = Some through"
      and x: "(case complete_success_entry listening ?i out hash through e (rg_telemetry ?reg) of
             (r, e', t) \<Rightarrow> (r, ?reg\<lparr>rg_entries := set_entry ?i e' (rg_entries ?reg), rg_telemetry := t\<rparr>)) = (q, reg)"
      using f False by (auto simp: complete_success_def Let_def split: sum.splits)
    obtain e' t where c: "complete_success_entry listening ?i out hash through e (rg_telemetry ?reg) = (q, e', t)"
      and reg: "rg_entries reg = set_entry ?i e' (rg_entries ?reg)" using x by (auto split: prod.splits)
    note spec = complete_success_entry_facts(1) [OF c]
    have "(?i, sn_spec (en_snapshot e)) \<in> running_specs ?reg" using e by (auto simp: running_specs_def)
    with assms(3) have tk: "sn_spec (en_snapshot e) = tk_spec ticket" by (simp add: ticket_ok_def)
    from assms(1) have all: "entries_all (entry_ok U sha256 scope answers (ds_database s) R) ?reg" by (simp add: dispatch_ok_def)
    have "entry_ok U sha256 scope answers (ds_database s) R e'"
      by (rule success_entry_ok [OF c e(2) _ assms(5,6) entries_all_lookup [OF assms(7) e(1)] assms(8)]) (use assms(4) tk in simp)
    moreover have "tk_spec k = sn_spec (en_snapshot e)" if "q = Inr (Some k)"
      using c that
      by (auto simp: complete_success_entry_def Let_def send_event_def start_rerun_def split: option.splits if_splits prod.splits)
    ultimately show ?thesis
      using set_entry_specs [OF e(1) spec reg] set_entry_all [OF all _ reg] set_entry_running [OF e(1) spec reg] e(2) tk by simp
  qed
  with assms(1) s' show "dispatch_ok U sha256 scope answers R s'" "moves U sha256 scope c s s'"
    "r = Inr (n, Some k) \<Longrightarrow> tk_spec k = tk_spec ticket"
    by (auto simp: dispatch_ok_def registry_wf_def intro: moves_refl)
qed

lemma resumed_cursors: "cursors_of (resumed e) = cursors_of e" "sn_spec (en_snapshot (resumed e)) = sn_spec (en_snapshot e)"
  by (simp_all add: cursors_of_def resumed_def)

lemma rerun_ok:
  assumes "runner_env U scope c answers env" and "dispatch_ok U sha256 scope answers R s" and "ticket_ok (ds_registry s) ticket"
    and "s1 = run (other_step U sha256) (pe_others env n) s" and "s2 = run (other_step U sha256) (pe_after env n) s1"
    and "pe_rerun env n (ds_database s1) (tk_spec ticket) = Inr out"
    and "ticket_succeeds U sha256 listening ticket completed out s2 = (r, s3)"
  shows "dispatch_ok U sha256 scope answers R s3" and "moves U sha256 scope c s s3"
    and "r = Inr (m, Some k) \<Longrightarrow> ticket_ok (ds_registry s3) k"
proof -
  let ?bound = "\<lambda>e. ss_scope (sn_spec (en_snapshot e)) = scope \<longrightarrow>
      (\<forall>c \<in> cursors_of e. uint (cursor_commit_sequence c) \<le> latest U scope (ds_database s1))"
  have env: "list_all (harmless_other U scope c answers) (pe_others env n)" "list_all (harmless_other U scope c answers) (pe_after env n)"
    "ss_scope (tk_spec ticket) = scope \<longrightarrow> answers (tk_spec ticket) (ds_database s1) out"
    using assms(1,6) by (auto simp: runner_env_def)
  have 1: "dispatch_ok U sha256 scope answers R s1" "moves U sha256 scope c s s1"
    using others_ok [OF assms(2) env(1)] assms(4) by simp_all
  have 2: "dispatch_ok U sha256 scope answers R s2" "moves U sha256 scope c s1 s2"
    using others_ok [OF 1(1) env(2)] assms(5) by simp_all
  have "entries_all ?bound (ds_registry s1)"
    using 1(1) unfolding dispatch_ok_def entries_all_def entry_ok_def by blast
  then have bound: "entries_all ?bound (ds_registry s2)"
    using others_cursors [of ?bound s1] unfolding assms(5) by (simp add: resumed_cursors)
  have wf: "registry_wf (ds_registry s)" "db_ok U (ds_database s1)" "registry_wf (ds_registry s2)"
    "\<forall>r \<in> R. ow_commit_sequence r \<le> latest U scope (ds_database s1)"
    using assms(2) 1(1) 2(1) by (simp_all add: dispatch_ok_def)
  have mv: "moves U sha256 scope c s s2" by (rule moves_trans [OF 1(2) 2(2)])
  then have tk: "ticket_ok (ds_registry s2) ticket" using running_ticket assms(3) unfolding moves_def by blast
  note ok = ticket_succeeds_ok [OF 2(1) assms(7) tk env(3) wf(2) moves_later [OF 2(2)] bound wf(4)]
  show "dispatch_ok U sha256 scope answers R s3" by (rule ok(1))
  show "moves U sha256 scope c s s3" by (rule moves_trans [OF mv ok(2)])
  show "r = Inr (m, Some k) \<Longrightarrow> ticket_ok (ds_registry s3) k"
  proof -
    assume "r = Inr (m, Some k)"
    with ok(3) have "tk_spec k = tk_spec ticket" by blast
    moreover have "ticket_ok (ds_registry s3) ticket"
      using running_ticket [OF _ tk] ok(2) [where c = c] unfolding moves_def by blast
    ultimately show ?thesis by (simp add: ticket_ok_def)
  qed
qed

lemma run_ticket_ok:
  assumes env: "runner_env U scope c answers env"
  shows "run_ticket U sha256 env now n ticket completed s = (r, n', s') \<Longrightarrow> dispatch_ok U sha256 scope answers R s \<Longrightarrow>
    ticket_ok (ds_registry s) ticket \<Longrightarrow>
    dispatch_ok U sha256 scope answers R s' \<and> moves U sha256 scope c s s'"
proof (induction "dirty_entries (ds_registry s)" arbitrary: n ticket completed s rule: less_induct)
  case less
  define s1 where "s1 = run (other_step U sha256) (pe_others env n) s"
  define s2 where "s2 = run (other_step U sha256) (pe_after env n) s1"
  have others: "list_all (harmless_other U scope c answers) (pe_others env n)" "list_all (harmless_other U scope c answers) (pe_after env n)"
    using env by (auto simp: runner_env_def)
  have 1: "dispatch_ok U sha256 scope answers R s1" "moves U sha256 scope c s s1"
    using others_ok [OF less.prems(2) others(1)] by (simp_all add: s1_def)
  have 2: "dispatch_ok U sha256 scope answers R s2" "moves U sha256 scope c s1 s2"
    using others_ok [OF 1(1) others(2)] by (simp_all add: s2_def)
  show ?case
  proof (cases "micros (ss_authorized_until (tk_spec ticket)) \<le> micros now")
    case True
    with less.prems(1) have "ticket_fails (pe_listening env n) authorization_expired now ticket s = (r, s')"
      by (subst (asm) run_ticket.simps) (auto split: prod.splits)
    from ticket_fails_ok [OF less.prems(2) this] show ?thesis by blast
  next
    case False
    show ?thesis
    proof (cases "pe_rerun env n (ds_database s1) (tk_spec ticket)")
      case (Inl err)
      with less.prems(1) False have "ticket_fails (pe_listening env n) err now ticket s2 = (r, s')"
        by (subst (asm) run_ticket.simps) (auto simp: Let_def s1_def s2_def split: prod.splits)
      from ticket_fails_ok [OF 2(1) this] moves_trans [OF moves_trans [OF 1(2) 2(2)]] show ?thesis by blast
    next
      case (Inr out)
      obtain q s3 where q: "ticket_succeeds U sha256 (pe_listening env n) ticket completed out s2 = (q, s3)" by force
      have run: "(case q of Inl err \<Rightarrow> (Inl err, Suc n, s3) | Inr (completed', None) \<Rightarrow> (Inr completed', Suc n, s3)
          | Inr (completed', Some following) \<Rightarrow> run_ticket U sha256 env now (Suc n) following completed' s3) = (r, n', s')"
        using less.prems(1) False Inr q
        by (subst (asm) run_ticket.simps) (simp add: Let_def s1_def [symmetric] s2_def [symmetric])
      note ok = rerun_ok [OF env less.prems(2,3) s1_def s2_def Inr q]
      show ?thesis
      proof (cases "\<exists>m k. q = Inr (m, Some k)")
        case True
        then obtain m k where k: "q = Inr (m, Some k)" by blast
        have "dirty_entries (ds_registry s3) < dirty_entries (ds_registry s2)"
          by (rule ticket_succeeds_dirty [OF q [unfolded k]])
        also have "\<dots> \<le> dirty_entries (ds_registry s)"
          unfolding s2_def s1_def by (rule order_trans [OF others_dirty others_dirty])
        finally have lt: "dirty_entries (ds_registry s3) < dirty_entries (ds_registry s)" .
        from run k have "run_ticket U sha256 env now (Suc n) k m s3 = (r, n', s')" by simp
        from less.hyps [OF lt this ok(1) ok(3) [OF k]] ok(2) moves_trans show ?thesis by blast
      next
        case False
        with run have "s' = s3" by (cases q) (auto split: option.splits)
        with ok(1,2) show ?thesis by blast
      qed
    qed
  qed
qed

lemma execute_tickets_ok:
  assumes env: "runner_env U scope c answers env"
  shows "execute_tickets_from U sha256 env now n tickets completed s = (r, n', s') \<Longrightarrow>
    dispatch_ok U sha256 scope answers R s \<Longrightarrow> list_all (ticket_ok (ds_registry s)) tickets \<Longrightarrow>
    dispatch_ok U sha256 scope answers R s' \<and> moves U sha256 scope c s s'"
proof (induction tickets arbitrary: n completed s)
  case Nil
  then show ?case by (auto intro: moves_refl)
next
  case (Cons k tickets)
  obtain q m s1 where q: "run_ticket U sha256 env now n k completed s = (q, m, s1)" by (metis prod_cases3)
  have 1: "dispatch_ok U sha256 scope answers R s1" "moves U sha256 scope c s s1"
    using run_ticket_ok [OF env q Cons.prems(2)] Cons.prems(3) by auto
  have "ticket_ok (ds_registry s1) k" if "ticket_ok (ds_registry s) k" for k
    using running_ticket 1(2) that unfolding moves_def by blast
  then have tickets: "list_all (ticket_ok (ds_registry s1)) tickets" using Cons.prems(3) by (auto simp: list_all_iff)
  show ?case
  proof (cases q)
    case (Inl err)
    with q Cons.prems(1) 1 show ?thesis by simp
  next
    case (Inr completed')
    with q Cons.prems(1) have "execute_tickets_from U sha256 env now m tickets completed' s1 = (r, n', s')" by simp
    from Cons.IH [OF this 1(1) tickets] 1(2) moves_trans show ?thesis by blast
  qed
qed

end

end
