(* ===== verification/Realtime_Poll.thy ===== *)
theory Realtime_Poll
  imports Realtime_Runner
begin

text \<open>
  A poll keeps the subscriptions fresh: marking looks at the claimed events, the reruns bring the marked
  entries up to date, and what is acknowledged was looked at.
\<close>

lemma dispatch_ok_subset: "dispatch_ok U sha256 scope answers R s \<Longrightarrow> R' \<subseteq> R \<Longrightarrow> dispatch_ok U sha256 scope answers R' s"
  unfolding dispatch_ok_def entries_all_def entry_ok_def by blast

lemma dispatch_ok_telemetry: "dispatch_ok U sha256 scope answers R (s\<lparr>ds_telemetry := t\<rparr>) = dispatch_ok U sha256 scope answers R s"
  by (simp add: dispatch_ok_def)

lemma dispatch_ok_registry:
  assumes "dispatch_ok U sha256 scope answers R s" and "ds_database s' = ds_database s"
    and "specs (ds_registry s') = specs (ds_registry s)"
    and "entries_all (entry_ok U sha256 scope answers (ds_database s) R') (ds_registry s')"
    and "\<forall>r \<in> R'. ow_commit_sequence r \<le> latest U scope (ds_database s)"
  shows "dispatch_ok U sha256 scope answers R' s'"
  using assms by (simp add: dispatch_ok_def registry_wf_def)

text \<open>Marking with an error part way leaves the entries before the error marked and the others alone.\<close>

lemma walk_entries_partly:
  assumes "walk_entries f es t = (r, es', t')" and "\<And>e t r e' t'. f e t = (r, e', t') \<Longrightarrow> P e \<Longrightarrow> P e'"
    and "\<forall>(i, e) \<in> set es. P e"
  shows "\<forall>(i, e) \<in> set es'. P e"
  using assms(1,3)
proof (induction es arbitrary: t r es' t')
  case (Cons x es)
  obtain i e where x: "x = (i, e)" by force
  obtain r1 e1 t1 where f: "f e t = (r1, e1, t1)" by (cases "f e t") auto
  obtain r2 es2 t2 where w: "walk_entries f es t1 = (r2, es2, t2)" by (cases "walk_entries f es t1") auto
  from assms(2) [OF f] Cons.prems(2) have "P e1" by (simp add: x)
  with Cons.IH [OF w] Cons.prems show ?case by (cases r1) (auto simp: x f w)
qed simp

context subscription_runner
begin

lemma ready_retries_ok:
  assumes "dispatch_ok U sha256 scope answers R s" and "ready_retries now (ds_registry s) = (Inr ks, reg)"
    and "s' = s\<lparr>ds_registry := reg\<rparr>"
  shows "dispatch_ok U sha256 scope answers R s'" and "specs reg = specs (ds_registry s)"
    and "list_all (spec_ticket reg) ks"
proof -
  obtain es t where w: "walk_entries (retry_entry now) (rg_entries (ds_registry s)) (rg_telemetry (ds_registry s)) = (Inr ks, es, t)"
    and reg: "reg = (ds_registry s)\<lparr>rg_entries := es, rg_telemetry := t\<rparr>"
    using assms(2) by (auto simp: ready_retries_def split: prod.splits)
  from walk_entries_facts [OF w retry_entry_spec(1)] show sp: "specs reg = specs (ds_registry s)" by (simp add: specs_def reg)
  have all: "\<forall>(i, e) \<in> set (rg_entries (ds_registry s)). entry_ok U sha256 scope answers (ds_database s) R e"
    using assms(1) by (simp add: dispatch_ok_def entries_all_def)
  have "\<forall>(i, e) \<in> set es. entry_ok U sha256 scope answers (ds_database s) R e"
    by (rule walk_entries_all [OF w _ all]) (rule retry_entry_ok)
  then have "entries_all (entry_ok U sha256 scope answers (ds_database s) R) reg" by (simp add: entries_all_def reg)
  with assms(1) sp show "dispatch_ok U sha256 scope answers R s'"
    by (intro dispatch_ok_registry [OF assms(1)]) (simp_all add: assms(3) dispatch_ok_def)
  have wf: "registry_wf (ds_registry s)" "registry_wf reg" using assms(1) sp by (simp_all add: dispatch_ok_def registry_wf_def)
  have "spec_ticket (ds_registry s) k" if "k \<in> set ks" for k
    by (rule tickets_from_entries [OF wf(1) walk_entries_tickets [OF w that]]) (metis retry_entry_spec(2))
  then show "list_all (spec_ticket reg) ks" using sp by (auto simp: list_all_iff spec_ticket_def)
qed

lemma mark_impacted_ok:
  assumes "dispatch_ok U sha256 scope answers R s" and "mark_impacted scope cursor impact now (ds_registry s) = (r, reg)"
    and "s' = s\<lparr>ds_registry := reg\<rparr>" and "uint (cursor_commit_sequence cursor) = ow_commit_sequence row"
    and "ow_commit_sequence row \<le> latest U scope (ds_database s)"
    and "decode_value U (ow_payload row) = Inr v" and "change_impact_decode U v = Inr impact"
  shows "dispatch_ok U sha256 scope answers R s'" and "specs reg = specs (ds_registry s)"
    and "r = Inr ks \<Longrightarrow> dispatch_ok U sha256 scope answers (insert row R) s' \<and> list_all (spec_ticket reg) ks"
proof -
  let ?mark = "mark_entry scope cursor impact now" and ?es = "rg_entries (ds_registry s)"
  obtain es t where w: "walk_entries ?mark ?es (rg_telemetry (ds_registry s)) = (r, es, t)"
    and reg: "reg = (ds_registry s)\<lparr>rg_entries := es, rg_telemetry := t\<rparr>"
    using assms(2) by (auto simp: mark_impacted_def split: prod.splits)
  from walk_entries_facts [OF w mark_entry_spec(1)] show sp: "specs reg = specs (ds_registry s)" by (simp add: specs_def reg)
  have all: "\<forall>(i, e) \<in> set ?es. entry_ok U sha256 scope answers (ds_database s) R e"
    using assms(1) by (simp add: dispatch_ok_def entries_all_def)
  have part: "entry_ok U sha256 scope answers (ds_database s) R e'"
    if m: "?mark e t = (q, e', t')" and e: "entry_ok U sha256 scope answers (ds_database s) R e" for e t q e' t'
  proof (cases q)
    case (Inl err)
    with m mark_entry_error e show ?thesis by blast
  next
    case (Inr ks)
    have "entry_ok U sha256 scope answers (ds_database s) (insert row R) e'"
      by (rule mark_entry_ok [OF e m [unfolded Inr] assms(4-7)])
    then show ?thesis unfolding entry_ok_def by blast
  qed
  have "\<forall>(i, e) \<in> set es. entry_ok U sha256 scope answers (ds_database s) R e"
    by (rule walk_entries_partly [OF w part all])
  then have "entries_all (entry_ok U sha256 scope answers (ds_database s) R) reg" by (simp add: entries_all_def reg)
  with assms(1) sp show "dispatch_ok U sha256 scope answers R s'"
    by (intro dispatch_ok_registry [OF assms(1)]) (simp_all add: assms(3) dispatch_ok_def)
  show "dispatch_ok U sha256 scope answers (insert row R) s' \<and> list_all (spec_ticket reg) ks" if r: "r = Inr ks"
  proof
    have "\<forall>(i, e) \<in> set es. entry_ok U sha256 scope answers (ds_database s) (insert row R) e"
      by (rule walk_entries_all [OF w [unfolded r] mark_entry_ok [OF _ _ assms(4-7)] all])
    then have "entries_all (entry_ok U sha256 scope answers (ds_database s) (insert row R)) reg" by (simp add: entries_all_def reg)
    with assms(1,5) sp show "dispatch_ok U sha256 scope answers (insert row R) s'"
      by (intro dispatch_ok_registry [OF assms(1)]) (simp_all add: assms(3) dispatch_ok_def)
    have wf: "registry_wf (ds_registry s)" using assms(1) by (simp add: dispatch_ok_def)
    have "spec_ticket (ds_registry s) k" if "k \<in> set ks" for k
      by (rule tickets_from_entries [OF wf walk_entries_tickets [OF w [unfolded r] that]]) (metis mark_entry_spec(2))
    then show "list_all (spec_ticket reg) ks" using sp by (auto simp: list_all_iff spec_ticket_def)
  qed
qed

lemma mark_events_ok:
  assumes "mark_events U scope now evs tks s = (r, s')" and "dispatch_ok U sha256 scope answers R s"
    and "list_all2 (\<lambda>row ev. decode_outbox_event U row = Inr ev) rows evs"
    and "\<forall>row \<in> set rows. ow_commit_sequence row \<le> latest U scope (ds_database s)"
    and "list_all (spec_ticket (ds_registry s)) tks"
  shows "ds_database s' = ds_database s \<and> specs (ds_registry s') = specs (ds_registry s) \<and>
    dispatch_ok U sha256 scope answers R s' \<and>
    (\<forall>tks'. r = Inr tks' \<longrightarrow> dispatch_ok U sha256 scope answers (R \<union> set rows) s' \<and> list_all (spec_ticket (ds_registry s')) tks')"
  using assms
proof (induction evs arbitrary: rows tks s R)
  case Nil
  then show ?case by auto
next
  case (Cons ev evs)
  from Cons.prems(3) obtain row rows' where rows: "rows = row # rows'" "decode_outbox_event U row = Inr ev"
    "list_all2 (\<lambda>row ev. decode_outbox_event U row = Inr ev) rows' evs" by (auto simp: list_all2_Cons2)
  show ?case
  proof (cases "change_impact_decode U (oe_payload ev)")
    case (Inl err)
    with Cons.prems show ?thesis by (auto simp: dispatch_ok_telemetry)
  next
    case (Inr impact)
    obtain q reg where m: "mark_impacted scope (outbox_event_cursor ev) impact now (ds_registry s) = (q, reg)" by force
    define s1 where "s1 = s\<lparr>ds_registry := reg\<rparr>"
    have le: "ow_commit_sequence row \<le> latest U scope (ds_database s)" using Cons.prems(4) by (simp add: rows(1))
    moreover have "latest U scope (ds_database s) \<le> i64_max" using Cons.prems(2) latest_bounds by (auto simp: dispatch_ok_def)
    ultimately have "ow_commit_sequence row \<le> i64_max" by linarith
    with decode_outbox_event_fields(2) [OF rows(2)]
    have seq: "uint (cursor_commit_sequence (outbox_event_cursor ev)) = ow_commit_sequence row"
      by (simp add: outbox_event_cursor_def)
    have payload: "decode_value U (ow_payload row) = Inr (oe_payload ev)"
      using rows(2) by (auto simp: decode_outbox_event_def)
    note mark = mark_impacted_ok [OF Cons.prems(2) m s1_def seq le payload Inr]
    show ?thesis
    proof (cases q)
      case (Inl err)
      with Cons.prems(1) Inr m have "s' = s1" "r = Inl (DispRealtime err)" by (simp_all add: s1_def)
      with mark(1,2) show ?thesis by (simp add: s1_def)
    next
      case q: (Inr ks)
      note marked = mark(3) [OF q]
      have rest: "mark_events U scope now evs (tks @ ks) s1 = (r, s')" using Cons.prems(1) Inr m q by (simp add: s1_def)
      have kept: "list_all (spec_ticket (ds_registry s1)) (tks @ ks)"
        using Cons.prems(5) marked mark(2) by (auto simp: s1_def spec_ticket_def list_all_iff)
      have bounds: "\<forall>row \<in> set rows'. ow_commit_sequence row \<le> latest U scope (ds_database s1)"
        using Cons.prems(4) by (simp add: rows(1) s1_def)
      note ih = Cons.IH [OF rest conjunct1 [OF marked] rows(3) bounds kept]
      then have "dispatch_ok U sha256 scope answers R s'" using dispatch_ok_subset by blast
      moreover have "insert row R \<union> set rows' = R \<union> set rows" by (auto simp: rows(1))
      ultimately show ?thesis using ih mark(2) by (simp add: s1_def)
    qed
  qed
qed

end

text \<open>A store operation of the dispatcher itself.\<close>

lemma transaction_result:
  assumes "transaction fault f body db = (r, db')"
  shows "db' = db \<or> (\<exists>x. body db = Inr (x, db'))"
  using assms by (auto simp: transaction_def split: tx_fault.splits sum.splits if_splits)

lemma claim_outbox_state:
  assumes "claim_outbox U fault scope c w now lease limit db = (r, db')"
  shows "db' = db \<or> (\<exists>b. claim_outbox_tx U scope c w now lease limit db = Inr (b, db'))"
    and "r = Inr b \<Longrightarrow> claim_outbox_tx U scope c w now lease limit db = Inr (b, db')"
    and "later U sha256 scope db db'"
proof -
  show "db' = db \<or> (\<exists>b. claim_outbox_tx U scope c w now lease limit db = Inr (b, db'))"
    using assms transaction_result by (fastforce simp: claim_outbox_def split: if_splits)
  show "r = Inr b \<Longrightarrow> claim_outbox_tx U scope c w now lease limit db = Inr (b, db')"
    using assms by (auto simp: claim_outbox_def transaction_def split: if_splits tx_fault.splits sum.splits)
  show "later U sha256 scope db db'"
    using later_step [of U scope "OpClaimOutbox fault scope c w now lease limit" sha256 db] assms by (simp add: announcing_def)
qed

lemma ack_outbox_state:
  assumes "ack_outbox U fault clock scope c w g through db = (r, db')"
  shows "db' = db \<or> (\<exists>u. ack_outbox_tx U clock scope c w g through db = Inr (u, db'))"
    and "later U sha256 scope db db'"
proof -
  show "db' = db \<or> (\<exists>u. ack_outbox_tx U clock scope c w g through db = Inr (u, db'))"
    using assms transaction_result by (fastforce simp: ack_outbox_def split: if_splits)
  show "later U sha256 scope db db'"
    using later_step [of U scope "OpAckOutbox fault clock scope c w g through" sha256 db] assms by (simp add: announcing_def)
qed

text \<open>Every subscription of the Environment accounts for every delivered event.\<close>

definition fresh ::
    "ulid_crate \<Rightarrow> (bytes \<Rightarrow> bytes) \<Rightarrow> EnvironmentScope \<Rightarrow> OutboxConsumerName
     \<Rightarrow> ('i SubscriptionSpec \<Rightarrow> database \<Rightarrow> QueryOutcome \<Rightarrow> bool) \<Rightarrow> 'i dispatch_state \<Rightarrow> bool" where
  "fresh U sha256 scope c answers s \<longleftrightarrow> dispatch_ok U sha256 scope answers (delivered U scope c (ds_database s)) s"

lemma freshI:
  "dispatch_ok U sha256 scope answers R s \<Longrightarrow> delivered U scope c (ds_database s) \<subseteq> R \<Longrightarrow> fresh U sha256 scope c answers s"
  unfolding fresh_def by (rule dispatch_ok_subset)

lemma moved_fresh:
  assumes "ulid_laws U" and "dispatch_ok U sha256 scope answers R s'" and "moves U sha256 scope c s s'"
    and "db_ok U (ds_database s)" and "delivered U scope c (ds_database s) \<subseteq> R"
  shows "fresh U sha256 scope c answers s'"
  using freshI [OF assms(2)] moves_delivered [OF assms(1,4,3)] assms(5) by blast

context subscription_runner
begin

lemma poll_batch_fresh:
  assumes env: "runner_env U scope c answers env" and c: "cd_consumer self = c" and db0: "db_ok U db0"
    and claim: "claim_outbox_tx U scope c (cd_worker_id self) now lease limit db0 = Inr (b, ds_database s)" and ne: "cob_events b \<noteq> []"
    and ok: "dispatch_ok U sha256 scope answers (delivered U scope c db0) s"
    and poll: "poll_batch U sha256 self env scope now n reruns b s = (r, s')"
  shows "fresh U sha256 scope c answers s'"
proof -
  let ?D = "delivered U scope c db0" and ?rows = "take (unat limit) (undelivered U scope c db0)"
  let ?through = "outbox_event_cursor (last (cob_events b))"
  note hands = claim_hands_out [OF laws db0 claim]
  have db1: "db_ok U (ds_database s)" using ok by (simp add: dispatch_ok_def)
  have dec: "list_all2 (\<lambda>row ev. decode_outbox_event U row = Inr ev) ?rows (cob_events b)"
    using hands(1) by (simp add: traverseR_Inr)
  have bounds: "\<forall>row \<in> set ?rows. ow_commit_sequence row \<le> latest U scope (ds_database s)"
    using outbox_row_bound(2) [OF db1] hands(2) by (auto simp: undelivered_def dest!: in_set_takeD)
  obtain q s1 where m: "mark_events U scope now (cob_events b) [] s = (q, s1)" by force
  note marked = mark_events_ok [OF m ok dec bounds]
  have same: "ds_database s1 = ds_database s" using marked by simp
  then have D1: "delivered U scope c (ds_database s1) = ?D" by (simp add: hands(3))
  show ?thesis
  proof (cases q)
    case (Inl err)
    with poll m have "s' = s1" by (simp add: poll_batch_def)
    with marked D1 show ?thesis by (auto intro: freshI)
  next
    case (Inr tickets)
    have ok1: "dispatch_ok U sha256 scope answers (?D \<union> set ?rows) s1" "list_all (ticket_ok (ds_registry s1)) tickets"
      using marked Inr by (auto simp: list_all_iff intro: spec_ticket_ok)
    obtain q2 n2 s2 where x: "execute_tickets U sha256 env now n tickets s1 = (q2, n2, s2)" by (metis prod_cases3)
    note ran = execute_tickets_ok [OF env x [unfolded execute_tickets_def] ok1]
    have s2: "fresh U sha256 scope c answers s2"
      by (rule moved_fresh [OF laws conjunct1 [OF ran] conjunct2 [OF ran]]) (use same db1 D1 in auto)
    define s3 where "s3 = run (other_step U sha256) (pe_ack_others env) s2"
    have "list_all (harmless_other U scope c answers) (pe_ack_others env)" using env by (simp add: runner_env_def)
    note others = others_ok [OF conjunct1 [OF ran] this, folded s3_def]
    have s1s3: "moves U sha256 scope c s1 s3" using ran others(2) moves_trans by blast
    obtain qa db2 where a: "ack_outbox U (pe_ack_fault env) (pe_ack_clock env) scope (cd_consumer self) (cd_worker_id self)
        (cob_lease_generation b) ?through (ds_database s3) = (qa, db2)" by force
    note ack = ack_outbox_state [OF a [unfolded c]]
    consider (stop) "s' = s2" | (acked) t where "s' = s3\<lparr>ds_database := db2, ds_telemetry := t\<rparr>"
      using poll m Inr x a by (auto simp: poll_batch_def s3_def Let_def split: sum.splits option.splits if_splits prod.splits)
    then show ?thesis
    proof cases
      case acked
      have ok2: "dispatch_ok U sha256 scope answers (?D \<union> set ?rows) s'"
        by (rule dispatch_ok_later [OF laws others(1)]) (use ack(2) acked in simp_all)
      have "delivered U scope c db2 \<subseteq> ?D \<union> set ?rows"
        using ack(1)
      proof
        assume "db2 = ds_database s3"
        with moves_delivered [OF laws _ s1s3] same db1 D1 show ?thesis by auto
      next
        assume "\<exists>u. ack_outbox_tx U (pe_ack_clock env) scope c (cd_worker_id self) (cob_lease_generation b) ?through (ds_database s3) = Inr (u, db2)"
        then obtain u where u: "ack_outbox_tx U (pe_ack_clock env) scope c (cd_worker_id self) (cob_lease_generation b) ?through
          (ds_database s3) = Inr (u, db2)" by blast
        from s1s3 same obtain ops where ops: "list_all (announcing U scope) ops"
          "ds_database s3 = run (store_step U sha256) ops (ds_database s)"
          by (auto simp: moves_def harmless_def list_all_iff)
        have "db_ok U (ds_database s3)" using others(1) by (simp add: dispatch_ok_def)
        then show ?thesis using acked_delivered [OF laws db0 claim ne ops(1)] u unfolding ops(2) by blast
      qed
      then show ?thesis using freshI [OF ok2] acked by simp
    qed (simp add: s2)
  qed
qed

lemma poll_claim_fresh:
  assumes env: "runner_env U scope c answers env" and c: "cd_consumer self = c" and ok: "fresh U sha256 scope c answers s"
    and poll: "poll_claim U sha256 self env scope now n reruns lease s = (r, s')"
  shows "fresh U sha256 scope c answers s'"
proof -
  define s1 where "s1 = run (other_step U sha256) (pe_claim_others env) s"
  have "list_all (harmless_other U scope c answers) (pe_claim_others env)" using env by (simp add: runner_env_def)
  note others = others_ok [OF ok [unfolded fresh_def] this, folded s1_def]
  have ok0: "db_ok U (ds_database s)" using ok by (simp add: fresh_def dispatch_ok_def)
  have ok1: "dispatch_ok U sha256 scope answers (delivered U scope c (ds_database s1)) s1" and db1: "db_ok U (ds_database s1)"
    using moved_fresh [OF laws others ok0] others(1) by (simp_all add: fresh_def dispatch_ok_def)
  obtain q db where a: "claim_outbox U (pe_claim_fault env) scope (cd_consumer self) (cd_worker_id self) now lease
      (batch_limit (cd_config self)) (ds_database s1) = (q, db)" by force
  note claim = claim_outbox_state [OF a [unfolded c]]
  have ok2: "dispatch_ok U sha256 scope answers (delivered U scope c (ds_database s1)) (s1\<lparr>ds_database := db, ds_telemetry := t\<rparr>)" for t
    by (rule dispatch_ok_later [OF laws ok1]) (use claim(3) in simp_all)
  have same: "delivered U scope c db = delivered U scope c (ds_database s1)"
    using claim(1) claim_hands_out(3) [OF laws db1] by blast
  have state: "fresh U sha256 scope c answers (s1\<lparr>ds_database := db, ds_telemetry := t\<rparr>)" for t
    by (rule freshI [OF ok2]) (simp add: same)
  show ?thesis
  proof (cases "\<exists>b t. q = Inr b \<and> cob_events b \<noteq> [] \<and>
      poll_batch U sha256 self env scope now n reruns b (s1\<lparr>ds_database := db, ds_telemetry := t\<rparr>) = (r, s')")
    case True
    then obtain b t where b: "q = Inr b" "cob_events b \<noteq> []"
      "poll_batch U sha256 self env scope now n reruns b (s1\<lparr>ds_database := db, ds_telemetry := t\<rparr>) = (r, s')" by blast
    show ?thesis by (rule poll_batch_fresh [OF env c db1 _ b(2) ok2 b(3)]) (use claim(2) [OF b(1)] in simp)
  next
    case False
    with poll a have "\<exists>t. s' = s1\<lparr>ds_database := db, ds_telemetry := t\<rparr>"
      by (auto simp: poll_claim_def Let_def s1_def split: sum.splits if_splits)
    with state show ?thesis by blast
  qed
qed

lemma poll_once_fresh:
  assumes env: "runner_env U scope c answers env" and c: "cd_consumer self = c" and ok: "fresh U sha256 scope c answers s"
    and poll: "poll_once U sha256 self env scope now s = (r, s')" and live: "r \<noteq> Inl (DispRealtime RtInternal)"
  shows "fresh U sha256 scope c answers s'"
proof -
  define s0 where "s0 = s\<lparr>ds_telemetry := (ds_telemetry s)\<lparr>dt_polls := dt_polls (ds_telemetry s) + 1\<rparr>\<rparr>"
  have ok0: "dispatch_ok U sha256 scope answers (delivered U scope c (ds_database s)) s0"
    using ok by (simp add: fresh_def s0_def dispatch_ok_telemetry)
  obtain q reg where rr: "ready_retries now (ds_registry s0) = (q, reg)" by force
  obtain es t where w: "walk_entries (retry_entry now) (rg_entries (ds_registry s0)) (rg_telemetry (ds_registry s0)) = (q, es, t)"
    using rr by (auto simp: ready_retries_def split: prod.splits)
  obtain ks where q: "q = Inr ks"
  proof (cases q)
    case (Inl err)
    have "err = RtInternal" by (rule walk_entries_error [OF w [unfolded Inl]]) (metis retry_entry_spec(3))
    with poll live rr Inl show ?thesis by (simp add: poll_once_def Let_def s0_def)
  qed
  define s1 where "s1 = s0\<lparr>ds_registry := reg\<rparr>"
  note retried = ready_retries_ok [OF ok0 rr [unfolded q] s1_def]
  obtain q2 n2 s2 where x: "execute_tickets U sha256 env now 0 ks s1 = (q2, n2, s2)" by (metis prod_cases3)
  have tickets: "list_all (ticket_ok (ds_registry s1)) ks"
    using retried(3) by (auto simp: s1_def list_all_iff intro: spec_ticket_ok)
  note ran = execute_tickets_ok [OF env x [unfolded execute_tickets_def] retried(1) tickets]
  have db: "ds_database s1 = ds_database s" by (simp add: s1_def s0_def)
  have s2: "fresh U sha256 scope c answers s2"
    by (rule moved_fresh [OF laws conjunct1 [OF ran] conjunct2 [OF ran]])
      (use retried(1) in \<open>simp_all add: db [symmetric] dispatch_ok_def\<close>)
  consider (stop) "s' = s2" | (claim) m reruns lease where "poll_claim U sha256 self env scope now m reruns lease s2 = (r, s')"
    using poll rr q x by (auto simp: poll_once_def Let_def s0_def s1_def split: sum.splits)
  then show ?thesis using s2 poll_claim_fresh [OF env c s2] by cases auto
qed

text \<open>A subscription that owes no rerun when nothing is left to deliver shows the current value of its Query.\<close>

lemma settled_current:
  assumes "fresh U sha256 scope c answers s" and "undelivered U scope c (ds_database s) = []"
    and "(i, e) \<in> set (rg_entries (ds_registry s))" and "ss_scope (sn_spec (en_snapshot e)) = scope" and "\<not> owes e"
  shows "\<exists>out. answers (sn_spec (en_snapshot e)) (ds_database s) out \<and> qo_value out = sn_value (en_snapshot e)"
proof -
  let ?db = "ds_database s" and ?v = "en_snapshot e"
  have e: "entry_ok U sha256 scope answers ?db (delivered U scope c ?db) e" and ok: "db_ok U ?db"
    using assms(1,3) by (auto simp: fresh_def dispatch_ok_def entries_all_def)
  with assms(4,5) have quiet: "\<forall>r \<in> delivered U scope c ?db. \<not> touched U ?v r"
    and "answered U sha256 scope answers ?db ?v" by (auto simp: entry_ok_def)
  then obtain db0 ops out where db0: "db_ok U db0" and ops: "list_all (announcing U scope) ops" "?db = run (store_step U sha256) ops db0"
    and a: "answers (sn_spec ?v) db0 out" and shown: "shows_outcome ?v out"
    by (auto simp: answered_def later_def)
  have "unchanged U scope db0 ?db x" if x: "x \<in> set (qo_dependencies out)" for x
  proof -
    from sees_snapshot [OF a assms(4) db0] x obtain n where n: "qo_snapshot_sequence out = Some n" "uint n = latest U scope db0" by auto
    have "untouched U scope n (qo_dependencies out) ?db"
      unfolding untouched_def
    proof (intro ballI allI impI)
      fix r v impact
      assume r: "r \<in> set (db_outbox ?db)" "event_of U scope n r" "decode_value U (ow_payload r) = Inr v" "change_impact_decode U v = Inr impact"
      then have "r \<in> delivered U scope c ?db"
        using assms(2) by (auto simp: delivered_def undelivered_filter scope_events_def event_of_def sql_select_def filter_empty_conv)
      with quiet r shown n show "\<not> invalidates impact (qo_dependencies out)"
        by (auto simp: touched_def shows_outcome_def event_of_def)
    qed
    then show ?thesis using run_unchanged [OF laws ops(1) db0] n(2) x unfolding ops(2) latest_def by (metis order_refl)
  qed
  from still_answers [OF a assms(4) ok this] shown show ?thesis by (auto simp: shows_outcome_def)
qed

end

end
