(* ===== verification/Realtime_Query.thy ===== *)
theory Realtime_Query
  imports Realtime_Poll
begin

text \<open>
  The runner of the gateway meets the contract of the dispatcher: it answers a subscription by executing
  its Query. \<open>request\<close> and \<open>program\<close> give the pinned request of a subscription and its Function.
\<close>

definition query_answers ::
    "ulid_crate \<Rightarrow> ('i SubscriptionSpec \<Rightarrow> InvocationRequest) \<Rightarrow> ('i SubscriptionSpec \<Rightarrow> query_program)
     \<Rightarrow> 'i SubscriptionSpec \<Rightarrow> database \<Rightarrow> QueryOutcome \<Rightarrow> bool" where
  "query_answers U request program spec db out \<longleftrightarrow>
     rq_scope (request spec) = ss_scope spec \<and>
     (\<exists>io abandoned close. execute_query U (request spec) (program spec) io abandoned close db = Inr out)"

lemma begin_read_latest:
  assumes "db_ok U db" and "begin_read U scope db = Inr n"
  shows "uint n = latest U scope db"
proof -
  have "sequence_of (db_sequences db) (project_text U scope) (environment_text U scope) \<le> i64_max"
    using assms(1) by (intro sequence_of_bounds) (simp add: db_ok_def tables_ok_def)
  with assms(2) show ?thesis
    by (auto simp: begin_read_def positive_or_zero_u64_Inr sequence_of_def latest_def uint_of_i64 split: option.splits)
qed

lemma query_sees_snapshot:
  assumes "execute_query U request program io abandoned close db = Inr out" and "db_ok U db"
  shows "qo_dependencies out = [] \<or> (\<exists>s. qo_snapshot_sequence out = Some s \<and> uint s = latest U (rq_scope request) db)"
proof -
  let ?scope = "rq_scope request"
  from assms(1) obtain st where r: "run_query U ?scope db program io query_state_new = (Inr (qo_value out), st)" "qs_failure st = None"
    and out: "qo_snapshot_sequence out = qs_snapshot_sequence st" "qo_dependencies out = qs_dependencies st"
    by (auto simp: execute_query_Inr query_failure_None)
  have "\<forall>x \<in> set (qs_dependencies st). unchanged U ?scope db db x" by (simp add: unchanged_data same_data_def)
  from query_again [OF r assms(2) same_query_new this] obtain st' where "same_query U ?scope db db st st'" by blast
  then show ?thesis
    using begin_read_latest [OF assms(2)] out
    by (cases "qs_snapshot st") (auto simp: same_query_def open_snapshot_def)
qed

lemma query_runner_laws: "ulid_laws U \<Longrightarrow> subscription_runner U scope (query_answers U request program)"
proof (unfold_locales, goal_cases)
  case (2 spec db out)
  then show ?case using query_sees_snapshot by (fastforce simp: query_answers_def)
next
  case (3 spec db out db')
  then obtain io abandoned close where q: "execute_query U (request spec) (program spec) io abandoned close db = Inr out"
    and scope: "rq_scope (request spec) = scope" by (auto simp: query_answers_def)
  from execute_query_again [OF q 3(4)] 3(5) scope 3(3) show ?case by (auto simp: query_answers_def)
qed

interpretation query_runner: subscription_runner crockford_ulid sha256 scope "query_answers crockford_ulid request program"
  for sha256 scope request program
  by (rule query_runner_laws [OF crockford_laws])

end
