(* ===== verification/Realtime_Service.thy ===== *)
theory Realtime_Service
  imports Realtime_Query
begin

text \<open>
  The states of the realtime service of an Environment: a registry that starts empty, subscriptions registered with
  a fresh answer of their Query, other clients of the store, and polls of the dispatcher.
\<close>

section \<open>Reachable states\<close>

text \<open>
  One dispatcher polls, its polls one after the other, so that only its own reruns take and complete the tickets of the
  registry. A registration may fall anywhere, with the outcome its Query has at that moment; \<open>harmless_other\<close> says what
  else others may do between polls and at the awaits of one.
\<close>

inductive served ::
    "ulid_crate \<Rightarrow> (bytes \<Rightarrow> bytes) \<Rightarrow> EnvironmentScope \<Rightarrow> ChangeDispatcher \<Rightarrow> ('i SubscriptionSpec \<Rightarrow> InvocationRequest)
     \<Rightarrow> ('i SubscriptionSpec \<Rightarrow> query_program) \<Rightarrow> 'i dispatch_state \<Rightarrow> bool"
  for U sha256 scope self request program where
  starts: "db_ok U (ds_database s) \<Longrightarrow> subscription_registry_new config = Inr (ds_registry s) \<Longrightarrow>
    served U sha256 scope self request program s"
| registers: "served U sha256 scope self request program s \<Longrightarrow>
    execute_query U (request spec) (program spec) io abandoned close (ds_database s) = Inr out \<Longrightarrow>
    rq_scope (request spec) = ss_scope spec \<Longrightarrow> register U sha256 spec out (ds_registry s) = (r, reg) \<Longrightarrow>
    served U sha256 scope self request program (s\<lparr>ds_registry := reg\<rparr>)"
| others: "served U sha256 scope self request program s \<Longrightarrow> harmless_other U scope (cd_consumer self) (query_answers U request program) x \<Longrightarrow>
    served U sha256 scope self request program (other_step U sha256 x s)"
| polls: "served U sha256 scope self request program s \<Longrightarrow>
    runner_env U scope (cd_consumer self) (query_answers U request program) env \<Longrightarrow>
    poll_once U sha256 self env scope now s = (r, s') \<Longrightarrow> r \<noteq> Inl (DispRealtime RtInternal) \<Longrightarrow>
    served U sha256 scope self request program s'"

lemma new_registry_empty: "subscription_registry_new config = Inr reg \<Longrightarrow> rg_entries reg = []"
  by (auto simp: subscription_registry_new_def)

lemma served_fresh:
  assumes "ulid_laws U" and "served U sha256 scope self request program s"
  shows "fresh U sha256 scope (cd_consumer self) (query_answers U request program) s"
  using assms(2)
proof induction
  case (starts s config)
  from new_registry_empty [OF starts(2)] have "rg_entries (ds_registry s) = []" .
  with starts(1) show ?case
    using outbox_row_bound(2) [OF starts(1)]
    by (auto simp: fresh_def dispatch_ok_def registry_wf_def specs_def entries_all_def delivered_def)
next
  case (registers s spec io abandoned close out r reg)
  have "query_answers U request program spec (ds_database s) out" using registers by (auto simp: query_answers_def)
  with subscription_runner.register_ok [OF query_runner_laws [OF assms(1)] registers.IH [unfolded fresh_def] registers.hyps(4)]
  show ?case by (simp add: fresh_def)
next
  case (others s x)
  have "list_all (harmless_other U scope (cd_consumer self) (query_answers U request program)) [x]" using others by simp
  from subscription_runner.others_ok [OF query_runner_laws [OF assms(1)] others.IH [unfolded fresh_def] this]
  have "dispatch_ok U sha256 scope (query_answers U request program) (delivered U scope (cd_consumer self) (ds_database s)) (other_step U sha256 x s)"
    "moves U sha256 scope (cd_consumer self) s (other_step U sha256 x s)" by simp_all
  moreover have "db_ok U (ds_database s)" using others.IH by (simp add: fresh_def dispatch_ok_def)
  ultimately show ?case using moved_fresh [OF assms(1)] by blast
next
  case (polls s env now r s')
  from subscription_runner.poll_once_fresh [OF query_runner_laws [OF assms(1)] polls.hyps(2) refl polls.IH polls.hyps(3,4)]
  show ?case .
qed

end
