(* ===== verification/Realtime_Stuck.thy ===== *)
theory Realtime_Stuck
  imports Realtime_Service
begin

text \<open>
  Dropped tickets. When a rerun fails, the loop over the tickets of a poll ends and the tickets that are left are
  never run, while their entries stay marked as running. The lemmas follow such an entry through later polls.
\<close>

definition awaits :: "EnvironmentScope \<Rightarrow> OutboxCursor \<Rightarrow> 'i Entry \<Rightarrow> bool" where
  "awaits scope cursor e \<longleftrightarrow>
     ss_scope (sn_spec (en_snapshot e)) = scope \<and> \<not> sn_suspended (en_snapshot e) \<and>
     en_running_generation e \<noteq> None \<and> en_running_through e = Some cursor"

definition stuck :: "EnvironmentScope \<Rightarrow> SubscriptionId \<Rightarrow> OutboxCursor \<Rightarrow> 'i SubscriptionRegistry \<Rightarrow> bool" where
  "stuck scope i cursor reg \<longleftrightarrow>
     registry_wf reg \<and> (\<exists>e. map_of (rg_entries reg) i = Some e \<and> awaits scope cursor e)"

lemma set_entry_lookup: "i \<noteq> k \<Longrightarrow> map_of (set_entry k e es) i = map_of es i"
  by (induction es) auto

lemma set_entry_found: "map_of es i = Some e0 \<Longrightarrow> map_of (set_entry i e es) i = Some e"
  by (induction es) auto

lemma insort_lookup: "map_of es i = Some e0 \<Longrightarrow> i \<noteq> fst x \<Longrightarrow> map_of (insort_key fst x es) i = Some e0"
  by (induction es) (auto split: if_splits)

lemma stuck_set_entry:
  assumes "stuck scope i cursor reg" and "i \<noteq> k" and "rg_entries reg' = set_entry k e (rg_entries reg)" and "specs reg' = specs reg"
  shows "stuck scope i cursor reg'"
  using assms by (simp add: stuck_def registry_wf_def set_entry_lookup)

text \<open>Only its removal ends the wait.\<close>

lemma other_step_stuck:
  assumes "stuck scope i cursor (ds_registry s)" and "x \<noteq> OtherRemove i"
  shows "stuck scope i cursor (ds_registry (other_step U sha256 x s))"
proof (cases x)
  case (OtherRegister spec answer)
  let ?reg = "ds_registry s"
  have "stuck scope i cursor reg" if r: "register U sha256 spec out ?reg = (r, reg)" for out r reg
    using r
  proof (cases rule: register_entries)
    case (2 e)
    then have "i \<noteq> fst (ss_id spec, e)" using assms(1) by (auto simp: stuck_def)
    with assms(1) insort_lookup register_wf [OF r] show ?thesis by (fastforce simp: stuck_def 2(1))
  qed (use assms(1) in simp)
  from this [OF prod.collapse [symmetric]] assms(1) show ?thesis by (simp add: OtherRegister split: option.split)
next
  case (OtherRemove j)
  obtain r reg where r: "remove_subscription j (ds_registry s) = (r, reg)" by force
  have look: "map_of (filter (\<lambda>(j', _). j' \<noteq> j) es) i = map_of es i" if "i \<noteq> j" for es :: "(SubscriptionId \<times> 'a Entry) list"
    using that by (induction es) auto
  have "stuck scope i cursor reg"
    using assms r look shrinks_wf remove_specs
    by (auto simp: OtherRemove remove_subscription_def stuck_def shrinks_def split: option.splits) blast+
  with r show ?thesis by (simp add: OtherRemove)
next
  case (OtherResume j)
  let ?reg = "ds_registry s"
  show ?thesis
  proof (cases "map_of (rg_entries ?reg) j")
    case (Some e)
    let ?e = "e\<lparr>en_snapshot := (en_snapshot e)\<lparr>sn_suspended := False\<rparr>, en_consecutive_failures := 0, en_retry_not_before := None\<rparr>"
    obtain reg where reg: "resume j ?reg = (Inr (), reg)" "rg_entries reg = set_entry j ?e (rg_entries ?reg)"
      using Some by (simp add: resume_def)
    have specs: "specs reg = specs ?reg" by (rule set_entry_specs [OF Some _ reg(2)]) simp
    show ?thesis
    proof (cases "i = j")
      case True
      with assms(1) Some set_entry_found [OF Some, of ?e] specs show ?thesis
        by (simp add: OtherResume reg stuck_def registry_wf_def awaits_def)
    next
      case False
      from stuck_set_entry [OF assms(1) False reg(2) specs] show ?thesis by (simp add: OtherResume reg(1))
    qed
  qed (use assms(1) OtherResume in \<open>simp add: resume_def\<close>)
qed (use assms(1) in simp)

lemma others_stuck:
  assumes "stuck scope i cursor (ds_registry s)" and "list_all (\<lambda>x. x \<noteq> OtherRemove i) xs"
  shows "stuck scope i cursor (ds_registry (run (other_step U sha256) xs s))"
  using assms by (induction xs arbitrary: s) (simp_all add: other_step_stuck)

lemma ticket_fails_stuck:
  assumes "stuck scope i cursor (ds_registry s)" and "ticket_fails listening err now ticket s = (r, s')" and "ss_id (tk_spec ticket) \<noteq> i"
  shows "stuck scope i cursor (ds_registry s')"
proof -
  let ?reg = "ds_registry s" and ?k = "ss_id (tk_spec ticket)"
  obtain q reg where f: "complete_failure listening ticket (rf_code err) (rf_retryable err) now ?reg = (q, reg)" by force
  with assms(2) have s': "ds_registry s' = reg" by (auto simp: ticket_fails_def split: sum.splits)
  show ?thesis
  proof (cases "reg = ?reg")
    case False
    obtain e through where e: "map_of (rg_entries ?reg) ?k = Some e"
      and x: "(case complete_failure_entry (rg_config ?reg) listening ?k (rf_code err) (rf_retryable err) now through e
          (rg_telemetry ?reg) of (r, e', t) \<Rightarrow> (r, ?reg\<lparr>rg_entries := set_entry ?k e' (rg_entries ?reg), rg_telemetry := t\<rparr>)) = (q, reg)"
      using f False by (auto simp: complete_failure_def Let_def split: sum.splits)
    obtain e' t where c: "complete_failure_entry (rg_config ?reg) listening ?k (rf_code err) (rf_retryable err) now through e
        (rg_telemetry ?reg) = (q, e', t)" and reg: "rg_entries reg = set_entry ?k e' (rg_entries ?reg)"
      using x by (auto split: prod.splits)
    from stuck_set_entry [OF assms(1) _ reg set_entry_specs [OF e complete_failure_entry_facts(1) [OF c] reg]] assms(3)
    show ?thesis by (simp add: s')
  qed (simp add: s' assms(1))
qed

lemma ticket_succeeds_stuck:
  assumes "stuck scope i cursor (ds_registry s)" and "ticket_succeeds U sha256 listening ticket completed out s = (r, s')"
    and "ss_id (tk_spec ticket) \<noteq> i"
  shows "stuck scope i cursor (ds_registry s')" and "r = Inr (n, Some k) \<Longrightarrow> ss_id (tk_spec k) \<noteq> i"
proof -
  let ?reg = "ds_registry s" and ?k = "ss_id (tk_spec ticket)"
  obtain q reg where f: "complete_success U sha256 listening ticket out ?reg = (q, reg)" by force
  have s': "ds_registry s' = reg \<or> ds_registry s' = ?reg" "r = Inr (n, Some k) \<Longrightarrow> q = Inr (Some k)"
    using assms(2) f by (auto simp: ticket_succeeds_def Let_def split: option.splits sum.splits)
  have "stuck scope i cursor reg \<and> (q = Inr (Some k) \<longrightarrow> ss_id (tk_spec k) \<noteq> i)"
  proof (cases "\<exists>err. q = Inl err \<and> reg = ?reg")
    case False
    obtain hash e through where e: "map_of (rg_entries ?reg) ?k = Some e"
      and x: "(case complete_success_entry listening ?k out hash through e (rg_telemetry ?reg) of
             (r, e', t) \<Rightarrow> (r, ?reg\<lparr>rg_entries := set_entry ?k e' (rg_entries ?reg), rg_telemetry := t\<rparr>)) = (q, reg)"
      using f False by (auto simp: complete_success_def Let_def split: sum.splits)
    obtain e' t where c: "complete_success_entry listening ?k out hash through e (rg_telemetry ?reg) = (q, e', t)"
      and reg: "rg_entries reg = set_entry ?k e' (rg_entries ?reg)" using x by (auto split: prod.splits)
    have "tk_spec k = sn_spec (en_snapshot e)" if "q = Inr (Some k)"
      using c that
      by (auto simp: complete_success_entry_def Let_def send_event_def start_rerun_def split: option.splits if_splits prod.splits)
    moreover have "ss_id (sn_spec (en_snapshot e)) = ?k"
      using map_of_SomeD [OF map_of_entry [OF e]] assms(1) by (auto simp: stuck_def registry_wf_def)
    moreover have "stuck scope i cursor reg"
      using stuck_set_entry [OF assms(1) _ reg set_entry_specs [OF e complete_success_entry_facts(1) [OF c] reg]] assms(3) by simp
    ultimately show ?thesis using assms(3) by auto
  qed (use assms(1) in auto)
  with s' assms(1) show "stuck scope i cursor (ds_registry s')" "r = Inr (n, Some k) \<Longrightarrow> ss_id (tk_spec k) \<noteq> i" by auto
qed

definition env_keeps_subscription :: "SubscriptionId \<Rightarrow> 'i poll_env \<Rightarrow> bool" where
  "env_keeps_subscription i env \<longleftrightarrow>
     (\<forall>n. list_all (\<lambda>x. x \<noteq> OtherRemove i) (pe_others env n) \<and> list_all (\<lambda>x. x \<noteq> OtherRemove i) (pe_after env n)) \<and>
     list_all (\<lambda>x. x \<noteq> OtherRemove i) (pe_claim_others env) \<and> list_all (\<lambda>x. x \<noteq> OtherRemove i) (pe_ack_others env)"

lemma run_ticket_stuck:
  assumes env: "env_keeps_subscription i env"
  shows "run_ticket U sha256 env now n ticket completed s = (r, n', s') \<Longrightarrow> stuck scope i cursor (ds_registry s) \<Longrightarrow>
    ss_id (tk_spec ticket) \<noteq> i \<Longrightarrow> stuck scope i cursor (ds_registry s')"
proof (induction "dirty_entries (ds_registry s)" arbitrary: n ticket completed s rule: less_induct)
  case less
  define s1 where "s1 = run (other_step U sha256) (pe_others env n) s"
  define s2 where "s2 = run (other_step U sha256) (pe_after env n) s1"
  have 2: "stuck scope i cursor (ds_registry s2)"
    unfolding s2_def s1_def using env less.prems(2) by (intro others_stuck) (simp_all add: env_keeps_subscription_def)
  consider
    (expired) "ticket_fails (pe_listening env n) authorization_expired now ticket s = (r, s')"
  | (fails) err where "ticket_fails (pe_listening env n) err now ticket s2 = (r, s')"
  | (ends) out q where "ticket_succeeds U sha256 (pe_listening env n) ticket completed out s2 = (q, s')"
  | (again) out m k s3 where "ticket_succeeds U sha256 (pe_listening env n) ticket completed out s2 = (Inr (m, Some k), s3)"
      "run_ticket U sha256 env now (Suc n) k m s3 = (r, n', s')"
    using less.prems(1)
    by (subst (asm) run_ticket.simps)
      (auto simp: Let_def s1_def [symmetric] s2_def [symmetric] split: if_splits prod.splits sum.splits option.splits)
  then show ?case
  proof cases
    case expired
    from ticket_fails_stuck [OF less.prems(2) this less.prems(3)] show ?thesis .
  next
    case fails
    from ticket_fails_stuck [OF 2 this less.prems(3)] show ?thesis .
  next
    case ends
    from ticket_succeeds_stuck(1) [OF 2 this less.prems(3)] show ?thesis .
  next
    case again
    note k = ticket_succeeds_stuck [OF 2 again(1) less.prems(3)]
    have "dirty_entries (ds_registry s3) < dirty_entries (ds_registry s2)" by (rule ticket_succeeds_dirty [OF again(1)])
    also have "\<dots> \<le> dirty_entries (ds_registry s)"
      unfolding s2_def s1_def by (rule order_trans [OF others_dirty others_dirty])
    finally show ?thesis using less.hyps again(2) k by blast
  qed
qed

lemma execute_tickets_stuck:
  assumes env: "env_keeps_subscription i env"
  shows "execute_tickets_from U sha256 env now n tickets completed s = (r, n', s') \<Longrightarrow> stuck scope i cursor (ds_registry s) \<Longrightarrow>
    list_all (\<lambda>k. ss_id (tk_spec k) \<noteq> i) tickets \<Longrightarrow> stuck scope i cursor (ds_registry s')"
proof (induction tickets arbitrary: n completed s)
  case (Cons k tickets)
  obtain q m s1 where q: "run_ticket U sha256 env now n k completed s = (q, m, s1)" by (metis prod_cases3)
  have "stuck scope i cursor (ds_registry s1)" using run_ticket_stuck [OF env q Cons.prems(2)] Cons.prems(3) by simp
  with Cons q show ?case by (cases q) auto
qed simp

section \<open>Marking and retrying\<close>

lemma walk_entries_lookup:
  assumes "walk_entries f es t = (r, es', t')" and "\<And>e t r e' t'. f e t = (r, e', t') \<Longrightarrow> P e \<Longrightarrow> P e'"
    and "map_of es i = Some e" and "P e"
  shows "\<exists>e'. map_of es' i = Some e' \<and> P e'"
  using assms(1,3)
proof (induction es arbitrary: t r es' t')
  case (Cons x es)
  obtain j y where x: "x = (j, y)" by force
  obtain r1 e1 t1 where f: "f y t = (r1, e1, t1)" by (cases "f y t") auto
  obtain r2 es2 t2 where w: "walk_entries f es t1 = (r2, es2, t2)" by (cases "walk_entries f es t1") auto
  show ?case
  proof (cases "i = j")
    case True
    with Cons.prems assms(2) [OF f] assms(4) show ?thesis by (cases r1) (auto simp: x f w)
  next
    case False
    with Cons.prems Cons.IH [OF w] assms(4) show ?thesis by (cases r1) (auto simp: x f w)
  qed
qed simp

lemma walk_stuck:
  assumes w: "walk_entries f (rg_entries reg) t = (r, es, t')" and reg': "rg_entries reg' = es"
    and s: "stuck scope i cursor reg"
    and f: "\<And>e t r e' t'. f e t = (r, e', t') \<Longrightarrow> sn_spec (en_snapshot e') = sn_spec (en_snapshot e)"
      "\<And>e t r e' t'. f e t = (r, e', t') \<Longrightarrow> awaits scope cursor e \<Longrightarrow> awaits scope cursor e'"
      "\<And>e t ks e' t' k. f e t = (Inr ks, e', t') \<Longrightarrow> k \<in> set ks \<Longrightarrow>
        tk_spec k = sn_spec (en_snapshot e) \<and> en_running_generation e = None"
  shows "stuck scope i cursor reg'" and "r = Inr ks \<Longrightarrow> list_all (\<lambda>k. ss_id (tk_spec k) \<noteq> i) ks"
proof -
  from s obtain e where e: "map_of (rg_entries reg) i = Some e" "awaits scope cursor e" and wf: "registry_wf reg"
    by (auto simp: stuck_def)
  have "specs reg' = specs reg" using walk_entries_facts [OF w f(1)] by (simp add: specs_def reg')
  moreover have "\<exists>e'. map_of es i = Some e' \<and> awaits scope cursor e'" by (rule walk_entries_lookup [where P = "awaits scope cursor", OF w f(2) e])
  ultimately show "stuck scope i cursor reg'" using wf by (simp add: stuck_def registry_wf_def reg')
  show "list_all (\<lambda>k. ss_id (tk_spec k) \<noteq> i) ks" if r: "r = Inr ks"
    unfolding list_all_iff
  proof
    fix k assume k: "k \<in> set ks"
    have "\<exists>(j, e) \<in> set (rg_entries reg). tk_spec k = sn_spec (en_snapshot e) \<and> en_running_generation e = None"
      by (rule walk_entries_tickets [OF w [unfolded r] k f(3)])
    then obtain j e' where j: "(j, e') \<in> set (rg_entries reg)" "tk_spec k = sn_spec (en_snapshot e')" "en_running_generation e' = None"
      by blast
    have "(j, sn_spec (en_snapshot e')) \<in> set (specs reg)" using j(1) by (force simp: specs_def)
    then have "ss_id (tk_spec k) = j" using wf j(2) by (auto simp: registry_wf_def)
    moreover have "map_of (rg_entries reg) j = Some e'" using wf j(1) unfolding registry_wf_def specs_ids by simp
    ultimately show "ss_id (tk_spec k) \<noteq> i" using e j(3) by (auto simp: awaits_def)
  qed
qed

lemma awaits_entry:
  assumes "awaits scope cursor e"
  shows "mark_entry scope' c impact now e t = (r, e', t') \<Longrightarrow> awaits scope cursor e'"
    and "retry_entry now e t = (r, e', t') \<Longrightarrow> awaits scope cursor e'"
  using assms by (auto simp: mark_entry_def retry_entry_def awaits_def Let_def split: if_splits)

lemma idle_tickets:
  assumes "k \<in> set ks"
  shows "mark_entry scope' c impact now e t = (Inr ks, e', t') \<Longrightarrow> tk_spec k = sn_spec (en_snapshot e) \<and> en_running_generation e = None"
    and "retry_entry now e t = (Inr ks, e', t') \<Longrightarrow> tk_spec k = sn_spec (en_snapshot e) \<and> en_running_generation e = None"
  using assms by (auto simp: mark_entry_def retry_entry_def start_rerun_def Let_def split: if_splits option.splits prod.splits)

lemma ready_retries_stuck:
  assumes "stuck scope i cursor reg" and "ready_retries now reg = (r, reg')"
  shows "stuck scope i cursor reg'" and "r = Inr ks \<Longrightarrow> list_all (\<lambda>k. ss_id (tk_spec k) \<noteq> i) ks"
proof -
  obtain es t where w: "walk_entries (retry_entry now) (rg_entries reg) (rg_telemetry reg) = (r, es, t)" and reg': "rg_entries reg' = es"
    using assms(2) by (auto simp: ready_retries_def split: prod.splits)
  note f = walk_stuck [OF w reg' assms(1) retry_entry_spec(1) awaits_entry(2) idle_tickets(2)]
  show "stuck scope i cursor reg'" by (rule f(1))
  show "r = Inr ks \<Longrightarrow> list_all (\<lambda>k. ss_id (tk_spec k) \<noteq> i) ks" by (rule f(2))
qed

lemma mark_impacted_stuck:
  assumes "stuck scope i cursor reg" and "mark_impacted scope' c impact now reg = (r, reg')"
  shows "stuck scope i cursor reg'" and "r = Inr ks \<Longrightarrow> list_all (\<lambda>k. ss_id (tk_spec k) \<noteq> i) ks"
proof -
  obtain es t where w: "walk_entries (mark_entry scope' c impact now) (rg_entries reg) (rg_telemetry reg) = (r, es, t)"
    and reg': "rg_entries reg' = es"
    using assms(2) by (auto simp: mark_impacted_def split: prod.splits)
  note f = walk_stuck [OF w reg' assms(1) mark_entry_spec(1) awaits_entry(1) idle_tickets(1)]
  show "stuck scope i cursor reg'" by (rule f(1))
  show "r = Inr ks \<Longrightarrow> list_all (\<lambda>k. ss_id (tk_spec k) \<noteq> i) ks" by (rule f(2))
qed

lemma mark_events_stuck:
  assumes "mark_events U scope' now evs tickets s = (r, s')" and "stuck scope i cursor (ds_registry s)"
    and "list_all (\<lambda>k. ss_id (tk_spec k) \<noteq> i) tickets"
  shows "stuck scope i cursor (ds_registry s') \<and> (\<forall>ks. r = Inr ks \<longrightarrow> list_all (\<lambda>k. ss_id (tk_spec k) \<noteq> i) ks)"
  using assms
proof (induction evs arbitrary: tickets s)
  case (Cons ev evs)
  show ?case
  proof (cases "change_impact_decode U (oe_payload ev)")
    case (Inr impact)
    obtain q reg where m: "mark_impacted scope' (outbox_event_cursor ev) impact now (ds_registry s) = (q, reg)" by force
    note f = mark_impacted_stuck [OF Cons.prems(2) m]
    show ?thesis
    proof (cases q)
      case (Inr ks)
      have "mark_events U scope' now evs (tickets @ ks) (s\<lparr>ds_registry := reg\<rparr>) = (r, s')"
        using Cons.prems(1) \<open>change_impact_decode U (oe_payload ev) = Inr impact\<close> m Inr by simp
      from Cons.IH [OF this] f(1) f(2) [OF Inr] Cons.prems(3) show ?thesis by simp
    qed (use Cons.prems(1) Inr m f(1) in auto)
  qed (use Cons.prems in auto)
qed auto

section \<open>Polls\<close>

lemma stuck_pending:
  assumes "stuck scope i cursor reg" and "cursor_le cursor through"
  shows "has_pending_through scope through reg"
proof -
  from assms(1) obtain e where "(i, e) \<in> set (rg_entries reg)" "awaits scope cursor e" by (auto simp: stuck_def dest: map_of_SomeD)
  moreover from this(2) assms(2) have "entry_pending scope through e" by (simp add: entry_pending_def awaits_def)
  ultimately show ?thesis unfolding has_pending_through_def list_ex_iff by blast
qed

lemma poll_batch_stuck:
  assumes env: "env_keeps_subscription i env" and "stuck scope i cursor (ds_registry s)"
    and "poll_batch U sha256 self env scope now n reruns claim s = (r, s')"
  shows "stuck scope i cursor (ds_registry s')"
    and "r = Inr out \<Longrightarrow> po_acknowledged_through out = Some through \<Longrightarrow> \<not> cursor_le cursor through"
proof -
  obtain q s1 where m: "mark_events U scope now (cob_events claim) [] s = (q, s1)" by force
  note marked = mark_events_stuck [OF m assms(2) list.pred_inject(1)]
  have "stuck scope i cursor (ds_registry s') \<and>
    (r = Inr out \<longrightarrow> po_acknowledged_through out = Some through \<longrightarrow> \<not> cursor_le cursor through)"
  proof (cases q)
    case (Inl err)
    with assms(3) m marked show ?thesis by (auto simp: poll_batch_def)
  next
    case (Inr tickets)
    obtain q2 n2 s2 where x: "execute_tickets U sha256 env now n tickets s1 = (q2, n2, s2)" by (metis prod_cases3)
    have s2: "stuck scope i cursor (ds_registry s2)"
      using execute_tickets_stuck [OF env x [unfolded execute_tickets_def]] marked Inr by blast
    define s3 where "s3 = run (other_step U sha256) (pe_ack_others env) s2"
    have s3: "stuck scope i cursor (ds_registry s3)"
      unfolding s3_def by (rule others_stuck [OF s2]) (use env in \<open>simp add: env_keeps_subscription_def\<close>)
    have "ds_registry s' = ds_registry s2 \<or> ds_registry s' = ds_registry s3"
      using assms(3) m Inr x by (auto simp: poll_batch_def s3_def Let_def split: sum.splits option.splits if_splits prod.splits)
    moreover have "\<not> has_pending_through scope through (ds_registry s2)"
      if "r = Inr out" "po_acknowledged_through out = Some through"
      using that assms(3) m Inr x by (auto simp: poll_batch_def Let_def split: sum.splits option.splits if_splits prod.splits)
    ultimately show ?thesis using s2 s3 stuck_pending [OF s2] by auto
  qed
  then show "stuck scope i cursor (ds_registry s')"
    and "r = Inr out \<Longrightarrow> po_acknowledged_through out = Some through \<Longrightarrow> \<not> cursor_le cursor through" by blast+
qed

lemma poll_claim_stuck:
  assumes env: "env_keeps_subscription i env" and "stuck scope i cursor (ds_registry s)"
    and "poll_claim U sha256 self env scope now n reruns lease s = (r, s')"
  shows "stuck scope i cursor (ds_registry s')"
    and "r = Inr out \<Longrightarrow> po_acknowledged_through out = Some through \<Longrightarrow> \<not> cursor_le cursor through"
proof -
  define s1 where "s1 = run (other_step U sha256) (pe_claim_others env) s"
  have s1: "stuck scope i cursor (ds_registry s1)"
    unfolding s1_def by (rule others_stuck [OF assms(2)]) (use env in \<open>simp add: env_keeps_subscription_def\<close>)
  obtain q db where a: "claim_outbox U (pe_claim_fault env) scope (cd_consumer self) (cd_worker_id self) now lease
      (batch_limit (cd_config self)) (ds_database s1) = (q, db)" by force
  consider (stop) "ds_registry s' = ds_registry s1" "\<forall>out. r = Inr out \<longrightarrow> po_acknowledged_through out = None"
  | (batch) b t where "poll_batch U sha256 self env scope now n reruns b (s1\<lparr>ds_database := db, ds_telemetry := t\<rparr>) = (r, s')"
    using assms(3) a
    by (cases q) (auto simp: poll_claim_def Let_def s1_def [symmetric] poll_outcome_default_def split: if_splits)
  then have "stuck scope i cursor (ds_registry s') \<and>
    (r = Inr out \<longrightarrow> po_acknowledged_through out = Some through \<longrightarrow> \<not> cursor_le cursor through)"
  proof cases
    case stop
    with s1 show ?thesis by auto
  next
    case batch
    from poll_batch_stuck [OF env _ batch] s1 show ?thesis by simp
  qed
  then show "stuck scope i cursor (ds_registry s')"
    and "r = Inr out \<Longrightarrow> po_acknowledged_through out = Some through \<Longrightarrow> \<not> cursor_le cursor through" by blast+
qed

lemma poll_once_stuck:
  assumes env: "env_keeps_subscription i env" and "stuck scope i cursor (ds_registry s)"
    and "poll_once U sha256 self env scope now s = (r, s')"
  shows "stuck scope i cursor (ds_registry s')"
    and "r = Inr out \<Longrightarrow> po_acknowledged_through out = Some through \<Longrightarrow> \<not> cursor_le cursor through"
proof -
  obtain q reg where rr: "ready_retries now (ds_registry s) = (q, reg)" by force
  note retried = ready_retries_stuck [OF assms(2) rr]
  have "stuck scope i cursor (ds_registry s') \<and>
    (r = Inr out \<longrightarrow> po_acknowledged_through out = Some through \<longrightarrow> \<not> cursor_le cursor through)"
  proof (cases q)
    case (Inl err)
    with assms(3) rr retried(1) show ?thesis by (auto simp: poll_once_def Let_def)
  next
    case (Inr ks)
    define t where "t = (ds_telemetry s)\<lparr>dt_polls := dt_polls (ds_telemetry s) + 1\<rparr>"
    have poll: "(case execute_tickets U sha256 env now 0 ks (s\<lparr>ds_telemetry := t, ds_registry := reg\<rparr>) of
          (Inl err, _, s1) \<Rightarrow> (Inl err, s1)
        | (Inr reruns, n, s1) \<Rightarrow> (case lease_deadline (cd_config self) now of Inl err \<Rightarrow> (Inl err, s1)
            | Inr lease_until \<Rightarrow> poll_claim U sha256 self env scope now n reruns lease_until s1)) = (r, s')"
      using assms(3) rr Inr by (simp add: poll_once_def Let_def t_def)
    obtain q2 n2 s2 where x: "execute_tickets U sha256 env now 0 ks (s\<lparr>ds_telemetry := t, ds_registry := reg\<rparr>) = (q2, n2, s2)"
      by (metis prod_cases3)
    have s2: "stuck scope i cursor (ds_registry s2)"
      using execute_tickets_stuck [OF env x [unfolded execute_tickets_def]] retried(1) retried(2) [OF Inr] by simp
    consider (stop) "s' = s2" "\<forall>out. r \<noteq> Inr out" | (claim) m reruns lease where "poll_claim U sha256 self env scope now m reruns lease s2 = (r, s')"
      using poll x by (auto split: sum.splits)
    then show ?thesis
    proof cases
      case claim
      from poll_claim_stuck [OF env s2 claim] show ?thesis by blast
    qed (simp add: s2)
  qed
  then show "stuck scope i cursor (ds_registry s')"
    and "r = Inr out \<Longrightarrow> po_acknowledged_through out = Some through \<Longrightarrow> \<not> cursor_le cursor through" by blast+
qed

end
