(* ===== verification/Realtime_Sample.thy ===== *)
theory Realtime_Sample
  imports Realtime_Stuck Mutation_Sample
begin

text \<open>Concrete parts of a realtime service: a cursor, a Query request, a subscription, an empty registry and a dispatcher.\<close>

definition sample_cursor :: OutboxCursor where
  "sample_cursor = \<lparr>cursor_commit_sequence = 1, cursor_event_id = 7\<rparr>"

definition sample_query_request :: InvocationRequest where
  "sample_query_request = sample_request\<lparr>rq_functions :=
     [\<lparr>fm_id = 20, fm_name = ''run'', fm_function_type = FnQuery, fm_visibility = VisibilityPublic\<rparr>]\<rparr>"

definition sample_spec :: "SubscriptionId \<Rightarrow> unit SubscriptionSpec" where
  "sample_spec i =
     \<lparr>ss_id = i, ss_scope = sample_scope, ss_release_id = 9, ss_pinned_code = PinnedRelease 9, ss_function = ''run'',
      ss_arguments = Null, ss_identity = (), ss_authorized_until = 100\<rparr>"

definition sample_registry :: "unit SubscriptionRegistry" where
  "sample_registry = \<lparr>rg_config = REGISTRY_PRODUCTION, rg_entries = [], rg_telemetry = registry_telemetry_default\<rparr>"

definition sample_dispatcher :: ChangeDispatcher where
  "sample_dispatcher = \<lparr>cd_consumer = ''c'', cd_worker_id = 11, cd_config = DISPATCHER_PRODUCTION\<rparr>"

definition sample_watch_state :: "unit dispatch_state" where
  "sample_watch_state =
     \<lparr>ds_registry = sample_registry, ds_database = sample_database, ds_telemetry = dispatcher_telemetry_default\<rparr>"

end
