(* ===== verification/Realtime_Watch.thy ===== *)
theory Realtime_Watch
  imports Realtime_Sample
begin

text \<open>
  A run of the realtime service: a Query for a document that does not exist is registered, another client inserts
  the document while a poll is under way, and the poll delivers the event, reruns the Query and acknowledges.
\<close>

section \<open>The store\<close>

definition watch_batch :: CommitBatch where
  "watch_batch =
     \<lparr>cb_scope = sample_scope, cb_operation_id = 21, cb_reads = [], cb_documents = [sample_mutation],
      cb_indexes = [], cb_outbox = [\<lparr>oa_event_id = 21, oa_payload = document_write_set_payload sample_U [sample_mutation] []\<rparr>],
      cb_schedules = [], cb_intent_context = None\<rparr>"

definition watch_outbox_row :: outbox_row where
  "watch_outbox_row =
     \<lparr>ow_project = project_text sample_U sample_scope, ow_environment = environment_text sample_U sample_scope,
      ow_event = event_text sample_U 21, ow_commit_sequence = 1, ow_payload = sample_payload_bytes, ow_created_at = 0\<rparr>"

definition watch_database :: database where
  "watch_database =
     \<lparr>db_sequences = [\<lparr>ew_project = project_text sample_U sample_scope,
        ew_environment = environment_text sample_U sample_scope, ew_commit_sequence = 1\<rparr>],
      db_operations = [operation_row_of sample_U watch_batch (batch_bytes sample_U watch_batch) 1 0],
      db_results = [result_row_of sample_U (project_text sample_U sample_scope)
        (environment_text sample_U sample_scope) (operation_text sample_U 21) 0
        \<lparr>drr_table_id = 4, drr_document_id = 6, drr_revision = Some 1\<rparr>],
      db_documents = [new_document_row sample_U (project_text sample_U sample_scope)
        (environment_text sample_U sample_scope) 4 6 1 0 null_bytes],
      db_indexes = [], db_outbox = [watch_outbox_row], db_schedules = [], db_consumers = []\<rparr>"

lemma watch_batch_typed: "batch_typed sample_U watch_batch"
  by (simp add: batch_typed_def watch_batch_def outbox_append_ok_def payload_ok [OF crockford_laws] sample_mutation_def)

lemma watch_batch_valid: "commit_batch_validate sample_U watch_batch = Inr ()"
  by (simp add: commit_batch_validate_def watch_batch_def sample_mutation_def batch_over_limits_def
      COMMIT_LIMITS_V1_def check_document_def check_index_def check_event_def check_schedule_def payload_bytes_def add_value_def
      add_payload_def encode_value_def sample_payload_encodes [unfolded sample_mutation_def] null_encodes checked_add_usize_def
      MAX_INTENT_CONTEXT_BYTES_def sample_payload_bytes_def sample_payload_length [unfolded sample_mutation_def]
      STORED_MAGIC_def)

lemma watch_commit:
  "store_commit sample_U sample_sha NoFault (Inr 0) watch_batch empty_database =
     (Inr \<lparr>cr_commit_sequence = 1, cr_documents = [\<lparr>drr_table_id = 4, drr_document_id = 6, drr_revision = Some 1\<rparr>],
        cr_replayed = False\<rparr>, watch_database)"
proof -
  have "commit_batch_digest sample_U sample_sha watch_batch = Inr (batch_bytes sample_U watch_batch)"
    using digest_of_valid [OF crockford_laws watch_batch_typed watch_batch_valid, of sample_sha] by (simp add: sample_sha_def)
  then show ?thesis
    unfolding store_commit_def
    by (simp add: transaction_def apply_commit_def load_operation_def validate_document_reads_def bump_sequence_def
      empty_database_def sql_find_def Let_def watch_batch_def sample_mutation_def positive_u64_def sql_insert_def
      record_document_def encode_value_def null_encodes positive_i64_def sql_insert_ignore_def
      sample_payload_encodes [unfolded sample_mutation_def] apply_event_def watch_database_def watch_outbox_row_def
      operation_row_of_def result_row_of_def new_document_row_def document_key_def micros_def
      del: bindR_Inr mapR_Inr)
qed

definition watch_consumer :: consumer_row where
  "watch_consumer =
     \<lparr>cw_project = project_text sample_U sample_scope, cw_environment = environment_text sample_U sample_scope,
      cw_consumer = ''c'', cw_cursor_sequence = 0, cw_cursor_event = None,
      cw_lease_owner = Some (worker_text sample_U 11), cw_lease_until = Some 30000000, cw_lease_generation = 1,
      cw_claimed_sequence = Some 1, cw_claimed_event = Some (event_text sample_U 21), cw_updated_at = 0\<rparr>"

definition watch_event :: OutboxEventRecord where
  "watch_event = \<lparr>oe_event_id = 21, oe_commit_sequence = 1, oe_payload = document_write_set_payload sample_U [sample_mutation] []\<rparr>"

lemma watch_event_decodes: "decode_outbox_event sample_U watch_outbox_row = Inr watch_event"
proof -
  have "decode_value sample_U sample_payload_bytes = Inr (document_write_set_payload sample_U [sample_mutation] [])"
    using decode_value_encode [OF crockford_laws, of "document_write_set_payload sample_U [sample_mutation] []"]
      sample_payload_encodes payload_ok [OF crockford_laws] by (simp add: encode_value_def)
  then show ?thesis
    using parse_id_text [OF crockford_laws, of "''evt_''" 21]
    by (simp add: watch_outbox_row_def decode_outbox_event_def positive_u64_def watch_event_def del: bindR_Inr mapR_Inr)
qed

lemma watch_claim:
  "claim_outbox sample_U NoFault sample_scope ''c'' 11 0 30000000 100 watch_database =
     (Inr \<lparr>cob_lease_generation = 1, cob_acknowledged_through = None, cob_events = [watch_event]\<rparr>,
      watch_database\<lparr>db_consumers := [watch_consumer]\<rparr>)"
proof -
  have pending: "pending_events (project_text sample_U sample_scope) (environment_text sample_U sample_scope) 0 None 100
      [watch_outbox_row] = [watch_outbox_row]"
    by (simp add: pending_events_def sql_select_def after_cursor_def watch_outbox_row_def)
  show ?thesis
    using watch_event_decodes pending
    by (simp add: claim_outbox_def claim_outbox_tx_def Let_def micros_def transaction_def watch_database_def
      ensure_consumer_def sql_insert_ignore_def sql_update_returning_def sql_update_def consumer_key_def lease_free_def lease_row_def
      sql_succ_def positive_or_zero_u64_def decode_optional_cursor_def nonnegative_i64_def watch_event_def
      positive_i64_def positive_u64_def watch_consumer_def claimed_row_def ensure_sequence_def sequence_key_def same_key_def
      del: bindR_Inr mapR_Inr)
qed

definition watched_database :: database where
  "watched_database = watch_database\<lparr>db_consumers := [watch_consumer\<lparr>cw_cursor_sequence := 1,
     cw_cursor_event := Some (event_text sample_U 21), cw_lease_owner := None, cw_lease_until := None,
     cw_claimed_sequence := None, cw_claimed_event := None\<rparr>]\<rparr>"

lemma watch_ack:
  "ack_outbox sample_U NoFault (Inr 0) sample_scope ''c'' 11 1 \<lparr>cursor_commit_sequence = 1, cursor_event_id = 21\<rparr>
     (watch_database\<lparr>db_consumers := [watch_consumer]\<rparr>) = (Inr (), watched_database)"
  by (simp add: ack_outbox_def ack_outbox_tx_def transaction_def owns_claim_def ack_row_def watch_consumer_def consumer_key_def
      sql_update_def positive_i64_def watched_database_def Let_def del: bindR_Inr mapR_Inr)

lemma watched_delivered: "undelivered sample_U sample_scope ''c'' watched_database = []"
  by (simp add: watched_database_def undelivered_def sql_select_def consumer_cursor_def sql_find_def consumer_key_def
      watch_consumer_def watch_database_def after_cursor_def watch_outbox_row_def filter_empty_conv)

section \<open>The Query\<close>

definition watch_query :: query_program where
  "watch_query = QueryGet 4 6 (\<lambda>r. QueryReturn (Inr (case r of Inr (Some d) \<Rightarrow> Boolean True | _ \<Rightarrow> Null)))"

definition absent_outcome :: QueryOutcome where
  "absent_outcome = \<lparr>qo_value = Null, qo_snapshot_sequence = Some 0, qo_dependencies = [DepPoint 4 6 None 0]\<rparr>"

definition present_outcome :: QueryOutcome where
  "present_outcome = \<lparr>qo_value = Boolean True, qo_snapshot_sequence = Some 1, qo_dependencies = [DepPoint 4 6 (Some 1) 1]\<rparr>"

lemma watch_query_absent:
  "execute_query sample_U sample_query_request watch_query [] False Proceeds empty_database = Inr absent_outcome"
  by (simp add: execute_query_def selected_query_def sample_query_request_def sample_request_def watch_query_def
        query_get_def ensure_query_snapshot_def query_state_new_def add_dependency_def MAX_DEPENDENCIES_def record_corrupt_def
        data_document_def insort_insert_key_def next_io_def open_snapshot_def begin_read_def get_document_def sql_find_def
        empty_database_def query_awaited_def positive_or_zero_u64_def
        absent_outcome_def query_finish_def query_failure_def close_query_def Let_def del: bindR_Inr mapR_Inr)

lemma watch_query_present:
  "execute_query sample_U sample_query_request watch_query [] False Proceeds (watch_database\<lparr>db_consumers := cs\<rparr>) = Inr present_outcome"
proof -
  have get: "get_document sample_U sample_scope 4 6 (watch_database\<lparr>db_consumers := cs\<rparr>) =
     Inr (Some \<lparr>dr_table_id = 4, dr_document_id = 6, dr_revision = 1, dr_commit_sequence = 1,
       dr_created_at = 0, dr_updated_at = 0, dr_value = Null\<rparr>)"
    using parse_id_text [OF crockford_laws, of "''tbl_''" 4] parse_id_text [OF crockford_laws, of "''doc_''" 6]
    by (simp add: get_document_def watch_database_def new_document_row_def sql_find_def
      document_key_def decode_document_row_def null_decodes positive_u64_def timestamp_def del: bindR_Inr mapR_Inr)
  have snap: "open_snapshot sample_U sample_scope (watch_database\<lparr>db_consumers := cs\<rparr>) =
      Inr \<lparr>snap_sequence = 1, snap_database = watch_database\<lparr>db_consumers := cs\<rparr>\<rparr>"
    by (simp add: open_snapshot_def begin_read_def watch_database_def sql_find_def sequence_key_def
        positive_or_zero_u64_def del: bindR_Inr mapR_Inr)
  show ?thesis
    by (simp add: execute_query_def selected_query_def sample_query_request_def sample_request_def watch_query_def
        query_get_def ensure_query_snapshot_def query_state_new_def add_dependency_def MAX_DEPENDENCIES_def record_corrupt_def
        data_document_def insort_insert_key_def next_io_def snap get query_awaited_def
        present_outcome_def query_finish_def query_failure_def close_query_def Let_def del: bindR_Inr mapR_Inr)
qed

section \<open>The poll\<close>

definition watch_entry :: "unit Entry" where
  "watch_entry =
     \<lparr>en_snapshot = \<lparr>sn_spec = sample_spec 30, sn_value = Null, sn_result_hash = null_bytes,
        sn_snapshot_sequence = Some 0, sn_dependencies = [DepPoint 4 6 None 0], sn_delivery_revision = 1,
        sn_processed_through = None, sn_suspended = False\<rparr>,
      en_delivery = [DeliverState 30 1 Null null_bytes (Some 0)], en_running_generation = None, en_next_generation = 0,
      en_running_through = None, en_dirty_through = None, en_retry_not_before = None, en_consecutive_failures = 0\<rparr>"

definition watch_registry :: "unit SubscriptionRegistry" where
  "watch_registry = sample_registry\<lparr>rg_entries := [(30, watch_entry)],
     rg_telemetry := registry_telemetry_default\<lparr>tl_subscriptions := 1\<rparr>\<rparr>"

lemma watch_register:
  "snd (register sample_U sample_sha (sample_spec 30) absent_outcome sample_registry) = watch_registry"
  by (simp add: register_def validate_outcome_def result_hash_def sample_registry_def absent_outcome_def REGISTRY_PRODUCTION_def
      send_event_def sample_spec_def registry_telemetry_default_def Let_def null_encodes watch_registry_def watch_entry_def sample_sha_def
      del: bindR_Inr mapR_Inr)

definition watch_env :: "unit poll_env" where
  "watch_env =
     \<lparr>pe_rerun = (\<lambda>_ db _. case execute_query sample_U sample_query_request watch_query [] False Proceeds db of
        Inr out \<Rightarrow> Inr out | Inl _ \<Rightarrow> Inl \<lparr>rf_code = ''FAILED'', rf_retryable = True\<rparr>),
      pe_others = (\<lambda>_. []), pe_after = (\<lambda>_. []), pe_listening = (\<lambda>_. True),
      pe_claim_others = [OtherStore (OpCommit NoFault (Inr 0) watch_batch)], pe_claim_fault = NoFault,
      pe_ack_others = [], pe_ack_fault = NoFault, pe_ack_clock = Inr 0\<rparr>"

definition watch_start :: "unit dispatch_state" where
  "watch_start = \<lparr>ds_registry = watch_registry, ds_database = empty_database, ds_telemetry = dispatcher_telemetry_default\<rparr>"

lemma watch_mark:
  "\<exists>reg e k. mark_impacted sample_scope \<lparr>cursor_commit_sequence = 1, cursor_event_id = 21\<rparr>
      \<lparr>ci_documents = [document_impact_of sample_mutation], ci_indexes = []\<rparr> 0 watch_registry = (Inr [k], reg) \<and>
    rg_config reg = REGISTRY_PRODUCTION \<and> rg_entries reg = [(30, e)] \<and> tk_spec k = sample_spec 30 \<and> tk_generation k = 1 \<and>
    en_running_generation e = Some 1 \<and> en_running_through e = Some \<lparr>cursor_commit_sequence = 1, cursor_event_id = 21\<rparr> \<and>
    en_dirty_through e = None \<and> sn_spec (en_snapshot e) = sample_spec 30 \<and> sn_delivery_revision (en_snapshot e) = 1"
  by (simp add: mark_impacted_def watch_registry_def mark_entry_def watch_entry_def sample_spec_def sample_mutation_def
      invalidates_def start_rerun_def checked_add_u64_def sample_registry_def Let_def)

lemma watch_complete:
  assumes "rg_config reg = REGISTRY_PRODUCTION" and "rg_entries reg = [(30, e)]" and "tk_spec k = sample_spec 30" "tk_generation k = 1"
    and "en_running_generation e = Some 1" "en_running_through e = Some cursor" "en_dirty_through e = None"
    and "sn_spec (en_snapshot e) = sample_spec 30" and "sn_delivery_revision (en_snapshot e) = 1"
  shows "\<exists>reg' e'. complete_success sample_U sample_sha True k present_outcome reg = (Inr None, reg') \<and> rg_entries reg' = [(30, e')] \<and>
    en_running_through e' = None \<and> en_dirty_through e' = None \<and> sn_spec (en_snapshot e') = sample_spec 30 \<and>
    sn_value (en_snapshot e') = Boolean True"
proof -
  have "encode_stored_value sample_U (Boolean True) = Inr [0x52, 0x56, 1, 2]"
    by (simp add: encode_stored_value_Inr stored_limits stored_tags STORED_MAGIC_def STORED_VALUE_FORMAT_VERSION_def)
  with assms show ?thesis
    by (simp add: complete_success_def validate_outcome_def result_hash_def present_outcome_def REGISTRY_PRODUCTION_def
        require_generation_def complete_success_entry_def checked_add_u64_def send_event_def sample_spec_def Let_def
        del: bindR_Inr mapR_Inr)
qed

lemma watch_ticket:
  assumes "ds_database s = watch_database\<lparr>db_consumers := cs\<rparr>" and "rg_config (ds_registry s) = REGISTRY_PRODUCTION"
    and "rg_entries (ds_registry s) = [(30, e)]" and "tk_spec k = sample_spec 30" "tk_generation k = 1"
    and "en_running_generation e = Some 1" "en_running_through e = Some cursor" "en_dirty_through e = None"
    and "sn_spec (en_snapshot e) = sample_spec 30" and "sn_delivery_revision (en_snapshot e) = 1"
  shows "\<exists>s' e' n. execute_tickets sample_U sample_sha watch_env 0 0 [k] s = (Inr 1, n, s') \<and> ds_database s' = ds_database s \<and>
    rg_entries (ds_registry s') = [(30, e')] \<and>
    en_running_through e' = None \<and> en_dirty_through e' = None \<and> sn_spec (en_snapshot e') = sample_spec 30 \<and>
    sn_value (en_snapshot e') = Boolean True"
proof -
  from watch_complete [OF assms(2-)] obtain reg' e' where
    c: "complete_success sample_U sample_sha True k present_outcome (ds_registry s) = (Inr None, reg')"
    and e': "rg_entries reg' = [(30, e')]" "en_running_through e' = None" "en_dirty_through e' = None"
      "sn_spec (en_snapshot e') = sample_spec 30" "sn_value (en_snapshot e') = Boolean True" by blast
  have rerun: "pe_rerun watch_env n (ds_database s) spec = Inr present_outcome" for n spec
    by (simp add: watch_env_def assms(1) watch_query_present)
  have "run_ticket sample_U sample_sha watch_env 0 0 k 0 s = (Inr 1, Suc 0, s\<lparr>ds_registry := reg',
      ds_telemetry := (ds_telemetry s)\<lparr>dt_reruns := dt_reruns (ds_telemetry s) + 1\<rparr>\<rparr>)"
    using rerun c assms(4)
    by (subst run_ticket.simps)
      (simp add: watch_env_def sample_spec_def micros_def ticket_succeeds_def checked_add_u64_def Let_def)
  then show ?thesis using e' by (simp add: execute_tickets_def)
qed

lemma watch_poll:
  "\<exists>out s e. poll_once sample_U sample_sha sample_dispatcher watch_env sample_scope 0 watch_start = (Inr out, s) \<and>
    ds_database s = watched_database \<and> rg_entries (ds_registry s) = [(30, e)] \<and>
    en_running_through e = None \<and> en_dirty_through e = None \<and> sn_spec (en_snapshot e) = sample_spec 30 \<and>
    sn_value (en_snapshot e) = Boolean True"
proof -
  let ?cursor = "\<lparr>cursor_commit_sequence = 1, cursor_event_id = 21\<rparr> :: OutboxCursor"
  have retries: "ready_retries 0 watch_registry = (Inr [], watch_registry)"
    by (simp add: ready_retries_def watch_registry_def retry_entry_def watch_entry_def sample_registry_def)
  have impact: "change_impact_decode sample_U (oe_payload watch_event) =
      Inr \<lparr>ci_documents = [document_impact_of sample_mutation], ci_indexes = []\<rparr>"
    using decode_batch_payload [OF crockford_laws watch_batch_typed] watch_batch_valid
    by (simp add: commit_batch_validate_Inr watch_batch_def batch_impact_def watch_event_def)
  have cursor: "outbox_event_cursor watch_event = ?cursor" by (simp add: outbox_event_cursor_def watch_event_def)
  from watch_mark obtain reg e k where
    m: "mark_impacted sample_scope ?cursor \<lparr>ci_documents = [document_impact_of sample_mutation], ci_indexes = []\<rparr> 0 watch_registry =
        (Inr [k], reg)"
    and reg: "rg_config reg = REGISTRY_PRODUCTION" "rg_entries reg = [(30, e)]" "tk_spec k = sample_spec 30" "tk_generation k = 1"
      "en_running_generation e = Some 1" "en_running_through e = Some ?cursor" "en_dirty_through e = None"
      "sn_spec (en_snapshot e) = sample_spec 30" "sn_delivery_revision (en_snapshot e) = 1" by blast
  define s2 where "s2 t = \<lparr>ds_registry = watch_registry, ds_database = watch_database\<lparr>db_consumers := [watch_consumer]\<rparr>, ds_telemetry = t\<rparr>"
    for t :: DispatcherTelemetry
  have mark: "mark_events sample_U sample_scope 0 [watch_event] [] (s2 t) = (Inr [k], (s2 t)\<lparr>ds_registry := reg\<rparr>)" for t
    using m by (simp add: impact s2_def cursor)
  have "\<exists>s' e' n. execute_tickets sample_U sample_sha watch_env 0 0 [k] ((s2 t)\<lparr>ds_registry := reg\<rparr>) = (Inr 1, n, s') \<and>
      ds_database s' = watch_database\<lparr>db_consumers := [watch_consumer]\<rparr> \<and> rg_entries (ds_registry s') = [(30, e')] \<and>
      en_running_through e' = None \<and> en_dirty_through e' = None \<and> sn_spec (en_snapshot e') = sample_spec 30 \<and>
      sn_value (en_snapshot e') = Boolean True" for t
    using watch_ticket [of "(s2 t)\<lparr>ds_registry := reg\<rparr>" "[watch_consumer]" e k ?cursor] reg by (simp add: s2_def)
  then obtain s3 e' n where run: "\<And>t. execute_tickets sample_U sample_sha watch_env 0 0 [k] ((s2 t)\<lparr>ds_registry := reg\<rparr>) = (Inr 1, n t, s3 t)"
    and s3: "\<And>t. ds_database (s3 t) = watch_database\<lparr>db_consumers := [watch_consumer]\<rparr>" "\<And>t. rg_entries (ds_registry (s3 t)) = [(30, e' t)]"
      "\<And>t. en_running_through (e' t) = None" "\<And>t. en_dirty_through (e' t) = None" "\<And>t. sn_spec (en_snapshot (e' t)) = sample_spec 30"
      "\<And>t. sn_value (en_snapshot (e' t)) = Boolean True" by metis
  have acks: "pe_ack_others watch_env = []" "pe_ack_fault watch_env = NoFault" "pe_ack_clock watch_env = Inr 0"
    by (simp_all add: watch_env_def)
  have pending: "\<not> has_pending_through sample_scope ?cursor (ds_registry (s3 t))" for t
    by (simp add: has_pending_through_def entry_pending_def s3)
  have start: "poll_once sample_U sample_sha sample_dispatcher watch_env sample_scope 0 watch_start =
      poll_claim sample_U sample_sha sample_dispatcher watch_env sample_scope 0 0 0 30000000
        (watch_start\<lparr>ds_telemetry := dispatcher_telemetry_default\<lparr>dt_polls := 1\<rparr>\<rparr>)"
    using retries
    by (simp add: poll_once_def watch_start_def execute_tickets_def lease_deadline_def sample_dispatcher_def DISPATCHER_PRODUCTION_def
        micros_def timestamp_def dispatcher_telemetry_default_def Let_def)
  obtain t where batch: "poll_claim sample_U sample_sha sample_dispatcher watch_env sample_scope 0 0 0 30000000
        (watch_start\<lparr>ds_telemetry := dispatcher_telemetry_default\<lparr>dt_polls := 1\<rparr>\<rparr>) =
      poll_batch sample_U sample_sha sample_dispatcher watch_env sample_scope 0 0 0
        \<lparr>cob_lease_generation = 1, cob_acknowledged_through = None, cob_events = [watch_event]\<rparr> (s2 t)"
    by (simp add: poll_claim_def watch_start_def watch_env_def watch_commit sample_dispatcher_def DISPATCHER_PRODUCTION_def watch_claim
        s2_def Let_def)
  have "\<exists>out t'. poll_batch sample_U sample_sha sample_dispatcher watch_env sample_scope 0 0 0
        \<lparr>cob_lease_generation = 1, cob_acknowledged_through = None, cob_events = [watch_event]\<rparr> (s2 t) =
      (Inr out, (s3 t)\<lparr>ds_database := watched_database, ds_telemetry := t'\<rparr>)"
    using watch_ack s3(1) [of t] pending [of t]
    by (simp add: poll_batch_def mark run checked_add_u64_def cursor acks sample_dispatcher_def Let_def
        del: mark_events.simps) (rule exI, rule refl)
  with start batch s3 show ?thesis by fastforce
qed

end
