(* ===== verification/Realtime_Properties.thy ===== *)
theory Realtime_Properties
  imports Realtime_Watch
begin

text \<open>Properties of realtime subscriptions, from the events of a commit to the values that clients see.\<close>

section \<open>Current values\<close>

text \<open>
  C2 (subscriptions show the current value): Start with an empty registry on a legal store. Subscriptions are
  registered with the outcome their Query has on the store at that moment, between polls or during the awaits of a
  poll; the dispatcher polls any number of times, and polls may fail, by storage errors and by failing reruns; other
  clients commit, claim, complete, resume and remove, between polls and during their awaits. Excluded are
  registrations with an outcome the Query had only earlier, resets of the Environment and loaded exports, a second
  dispatcher on the registry, other workers under the dispatcher's consumer name, commits to the Environment that write without the event the mutation engine adds, and
  polls that end because a 64-bit counter overflowed (\<open>RtInternal\<close>). Then, whenever every event has been delivered,
  a subscription that owes no rerun shows the value its Query has on the store now.
\<close>

theorem subscriptions_current:
  assumes "ulid_laws U" and "served U sha256 scope self request program s"
    and "undelivered U scope (cd_consumer self) (ds_database s) = []"
    and "(i, e) \<in> set (rg_entries (ds_registry s))" and "ss_scope (sn_spec (en_snapshot e)) = scope"
    and "en_running_through e = None" and "en_dirty_through e = None"
  shows "\<exists>out. execute_query U (request (sn_spec (en_snapshot e))) (program (sn_spec (en_snapshot e))) [] False Proceeds (ds_database s) =
      Inr out \<and> qo_value out = sn_value (en_snapshot e)"
proof -
  let ?spec = "sn_spec (en_snapshot e)" and ?db = "ds_database s"
  have fresh: "fresh U sha256 scope (cd_consumer self) (query_answers U request program) s" by (rule served_fresh [OF assms(1,2)])
  then have ok: "db_ok U ?db" by (simp add: fresh_def dispatch_ok_def)
  have "\<not> owes e" using assms(6,7) by (simp add: owes_def)
  from subscription_runner.settled_current [OF query_runner_laws [OF assms(1)] fresh assms(3-5) this]
  obtain out io abandoned close where out: "qo_value out = sn_value (en_snapshot e)"
    and q: "execute_query U (request ?spec) (program ?spec) io abandoned close ?db = Inr out" by (auto simp: query_answers_def)
  have "\<forall>x \<in> set (qo_dependencies out). unchanged U (rq_scope (request ?spec)) ?db ?db x" by (simp add: unchanged_data same_data_def)
  with execute_query_again [OF q ok] out show ?thesis by auto
qed

theorem subscriptions_current_witness:
  "\<exists>(s :: unit dispatch_state) out e. served sample_U sample_sha sample_scope sample_dispatcher (\<lambda>_. sample_query_request) (\<lambda>_. watch_query) watch_start \<and>
     poll_once sample_U sample_sha sample_dispatcher watch_env sample_scope 0 watch_start = (Inr out, s) \<and>
     sn_value (en_snapshot watch_entry) = Null \<and> rg_entries (ds_registry watch_start) = [(30, watch_entry)] \<and>
     rg_entries (ds_registry s) = [(30, e)] \<and> sn_value (en_snapshot e) = Boolean True \<and>
     (\<exists>out. execute_query sample_U sample_query_request watch_query [] False Proceeds (ds_database s) = Inr out \<and>
        qo_value out = sn_value (en_snapshot e))"
proof -
  let ?served = "served sample_U sample_sha sample_scope sample_dispatcher (\<lambda>_ :: unit SubscriptionSpec. sample_query_request) (\<lambda>_. watch_query)"
  let ?s = "watch_start\<lparr>ds_registry := sample_registry\<rparr>"
  have "?served ?s"
    by (intro starts [where config = REGISTRY_PRODUCTION])
      (simp_all add: watch_start_def empty_database_ok subscription_registry_new_def registry_config_validate_def REGISTRY_PRODUCTION_def sample_registry_def)
  from registers [OF this, where spec = "sample_spec 30" and out = absent_outcome, OF _ _ prod.collapse [symmetric]] watch_query_absent
  have start: "?served watch_start"
    by (simp add: watch_register) (simp add: watch_start_def sample_spec_def sample_query_request_def sample_request_def)
  from watch_poll obtain out s e where poll: "poll_once sample_U sample_sha sample_dispatcher watch_env sample_scope 0 watch_start = (Inr out, s)"
    and s: "ds_database s = watched_database" "rg_entries (ds_registry s) = [(30, e)]"
    and e: "en_running_through e = None" "en_dirty_through e = None" "sn_spec (en_snapshot e) = sample_spec 30"
      "sn_value (en_snapshot e) = Boolean True" by blast
  have "announces sample_U watch_batch"
    by (simp add: announces_def watch_batch_def)
  then have env: "runner_env sample_U sample_scope ''c'' (query_answers sample_U (\<lambda>_. sample_query_request) (\<lambda>_. watch_query)) watch_env"
    by (auto simp: runner_env_def watch_env_def harmless_other_def harmless_def announcing_def watch_batch_typed query_answers_def
        sample_query_request_def sample_request_def split: sum.splits)
  have served: "?served s"
    by (rule polls [OF start _ poll]) (use env in \<open>simp_all add: sample_dispatcher_def\<close>)
  have "undelivered sample_U sample_scope (cd_consumer sample_dispatcher) (ds_database s) = []"
    by (simp add: s sample_dispatcher_def watched_delivered)
  moreover have "(30, e) \<in> set (rg_entries (ds_registry s))" "ss_scope (sn_spec (en_snapshot e)) = sample_scope"
    using e(3) s(2) by (simp_all add: sample_spec_def)
  ultimately have "\<exists>out. execute_query sample_U sample_query_request watch_query [] False Proceeds (ds_database s) = Inr out \<and>
      qo_value out = sn_value (en_snapshot e)"
    using subscriptions_current [OF crockford_laws served _ _ _ e(1,2)] by blast
  then show ?thesis using start poll s(2) e(4) by (auto simp: watch_start_def watch_registry_def watch_entry_def)
qed

section \<open>Events\<close>

text \<open>
  C26 (commits announce their writes): A committed batch of the mutation engine that writes documents leaves an
  event at its commit sequence whose stored payload decodes to exactly the documents written and the index
  entries put and deleted, which is what the realtime dispatcher matches against the dependencies of Queries.
\<close>

theorem commit_announces_writes:
  assumes "ulid_laws U" and "db_ok U db" and "batch_typed U b"
    and "mutation_batch U scope operation_id event_id read_set documents indexes schedules = Inr b" and "documents \<noteq> []"
    and "store_commit U sha256 NoFault clock b db = (Inr r, db')" and "\<not> cr_replayed r"
  shows "\<exists>row \<in> set (db_outbox db'). ow_project row = project_text U scope \<and> ow_environment row = environment_text U scope \<and>
    ow_commit_sequence row = latest U scope db + 1 \<and>
    bindR (map_errR (\<lambda>_. RtInvalidImpact) (decode_value U (ow_payload row))) (change_impact_decode U) =
      Inr \<lparr>ci_documents = map document_impact_of documents, ci_indexes = map index_impact_of indexes\<rparr>"
proof -
  note b = mutation_batch_Inr [OF assms(4)]
  from assms(6) obtain digest where c: "apply_commit U clock b digest db = Inr (r, db')" by (rule store_commit_Inr)
  let ?a = "\<lparr>oa_event_id = event_id, oa_payload = document_write_set_payload U documents indexes\<rparr>"
  have "?a \<in> set (cb_outbox b)" using b(1) assms(5) by simp
  from commit_event [OF assms(1-3) b(2) c assms(7) this] decode_batch_payload [OF assms(1,3) b(2)] b(1)
  show ?thesis by (auto simp: latest_def batch_impact_def)
qed

theorem commit_announces_writes_witness:
  "\<exists>row \<in> set (db_outbox sample_mutation_database).
    bindR (map_errR (\<lambda>_. RtInvalidImpact) (decode_value sample_U (ow_payload row))) (change_impact_decode sample_U) =
      Inr \<lparr>ci_documents = [document_impact_of sample_mutation], ci_indexes = []\<rparr>"
proof -
  have "mutation_batch sample_U sample_scope 21 21 [sample_read] [sample_mutation] [] [] = Inr sample_mutation_batch"
    using sample_mutation_batch_valid
    by (simp add: mutation_batch_def Let_def commit_batch_new_def push_outbox_def push_read_def push_document_def sample_mutation_batch_def)
  from commit_announces_writes [OF crockford_laws sample_ok sample_mutation_batch_typed this _ sample_mutation_commit] show ?thesis
    by (auto simp: sample_mutation_result_def)
qed

section \<open>Retries\<close>

text \<open>
  C28 (retry delays): Under an accepted configuration the delay after the first failure of a rerun is the configured
  base. After \<open>n\<close> failures in a row it is the base doubled \<open>n - 1\<close> times (at most 63 times), cut off at the configured
  maximum; so it never falls as failures accumulate and never exceeds the maximum.
\<close>

theorem retry_backoff:
  assumes "registry_config_validate config = Inr config'" and "failures \<le> failures'"
  shows "retry_delay config 1 = unat (retry_base_micros config) \<and>
    retry_delay config failures =
      min (unat (retry_base_micros config) * 2 ^ min (unat failures - 1) 63) (unat (retry_max_micros config)) \<and>
    unat (retry_base_micros config) \<le> retry_delay config failures \<and>
    retry_delay config failures \<le> retry_delay config failures' \<and>
    retry_delay config failures' \<le> unat (retry_max_micros config)"
proof -
  let ?base = "unat (retry_base_micros config)" and ?max = "unat (retry_max_micros config)"
  have base: "?base \<le> ?max"
    using assms(1) by (auto simp: registry_config_validate_def word_le_nat_alt not_less split: if_splits)
  have "?max < 2 ^ 64" using unsigned_less [of "retry_max_micros config"] by simp
  then have formula: "retry_delay config n = min (?base * 2 ^ min (unat n - 1) 63) ?max" for n
    by (simp add: retry_delay_def Let_def min_def)
  have "?base * 2 ^ min (unat failures - 1) 63 \<le> ?base * 2 ^ min (unat failures' - 1) 63"
    using assms(2) by (intro mult_left_mono power_increasing min.mono) (auto simp: word_le_nat_alt)
  moreover have "?base * 1 \<le> ?base * 2 ^ min (unat failures - 1) 63" by (intro mult_left_mono) simp_all
  moreover have "b \<le> min x m \<and> min x m \<le> min y m \<and> min y m \<le> m"
    if "b \<le> m" "b \<le> x" "x \<le> y" for b x y m :: nat
    using that by (auto simp: min_def)
  ultimately show ?thesis unfolding formula using base by simp
qed

theorem retry_backoff_witness:
  "registry_config_validate REGISTRY_PRODUCTION = Inr REGISTRY_PRODUCTION \<and>
   retry_delay REGISTRY_PRODUCTION 1 = 100000 \<and> retry_delay REGISTRY_PRODUCTION 4 = 800000 \<and>
   retry_delay REGISTRY_PRODUCTION 4 \<le> retry_delay REGISTRY_PRODUCTION 9 \<and>
   retry_delay REGISTRY_PRODUCTION 9 \<le> 30000000"
  using retry_backoff [of REGISTRY_PRODUCTION REGISTRY_PRODUCTION 4 9]
  by (simp add: registry_config_validate_def REGISTRY_PRODUCTION_def)

section \<open>Failing reruns\<close>

text \<open>One poll of the dispatcher, with its inputs.\<close>

definition poll_step ::
    "ulid_crate \<Rightarrow> (bytes \<Rightarrow> bytes) \<Rightarrow> ChangeDispatcher \<Rightarrow> EnvironmentScope \<Rightarrow> 'i poll_env \<times> TimestampMicros
     \<Rightarrow> 'i dispatch_state \<Rightarrow> 'i dispatch_state" where
  "poll_step U sha256 self scope x s = snd (poll_once U sha256 self (fst x) scope (snd x) s)"

lemma polls_stuck:
  assumes "list_all (\<lambda>x. env_keeps_subscription i (fst x)) polls" and "stuck scope i cursor (ds_registry s)"
  shows "stuck scope i cursor (ds_registry (run (poll_step U sha256 self scope) polls s))"
  using assms
proof (induction polls arbitrary: s)
  case (Cons x polls)
  obtain r s1 where p: "poll_once U sha256 self (fst x) scope (snd x) s = (r, s1)" by force
  have "stuck scope i cursor (ds_registry s1)"
    using poll_once_stuck(1) [OF _ Cons.prems(2) p] Cons.prems(1) by simp
  with Cons.IH Cons.prems(1) p show ?case by (simp add: poll_step_def)
qed simp

text \<open>
  C27 (a failing rerun blocks delivery): When the rerun of one ticket of a poll fails, the tickets behind it are
  dropped, while their subscriptions stay marked as running. No later poll, however often the dispatcher polls,
  starts such a rerun again or acknowledges an event at or after the one that caused it: delivery to the
  Environment's subscriptions stands still until that subscription is removed.
\<close>

theorem failed_rerun_blocks_delivery:
  assumes "stuck scope i cursor (ds_registry s)" and "ss_id (tk_spec ticket) \<noteq> i"
    and "run_ticket U sha256 env now n ticket 0 s = (Inl err, n', s')"
    and "env_keeps_subscription i env" and "list_all (\<lambda>x. env_keeps_subscription i (fst x)) polls"
    and "s'' = run (poll_step U sha256 self scope) polls s'"
    and "poll_once U sha256 self env' scope now' s'' = (r, s3)" and "env_keeps_subscription i env'"
  shows "execute_tickets U sha256 env now n (ticket # tickets) s = (Inl err, n', s') \<and>
    (\<exists>e. map_of (rg_entries (ds_registry s3)) i = Some e \<and> en_running_through e = Some cursor) \<and>
    (\<forall>out through. r = Inr out \<longrightarrow> po_acknowledged_through out = Some through \<longrightarrow> \<not> cursor_le cursor through)"
proof -
  have "stuck scope i cursor (ds_registry s')" by (rule run_ticket_stuck [OF assms(4,3,1,2)])
  then have "stuck scope i cursor (ds_registry s'')" unfolding assms(6) by (rule polls_stuck [OF assms(5)])
  note f = poll_once_stuck [OF assms(8) this assms(7)]
  from f(1) have "\<exists>e. map_of (rg_entries (ds_registry s3)) i = Some e \<and> en_running_through e = Some cursor"
    by (auto simp: stuck_def awaits_def)
  then show ?thesis using f(2) assms(3) by (auto simp: execute_tickets_def)
qed

definition sample_running :: "SubscriptionId \<Rightarrow> unit Entry" where
  "sample_running i =
     \<lparr>en_snapshot = \<lparr>sn_spec = sample_spec i, sn_value = Null, sn_result_hash = [], sn_snapshot_sequence = Some 0,
        sn_dependencies = [DepPoint 4 5 None 0], sn_delivery_revision = 1, sn_processed_through = None, sn_suspended = False\<rparr>,
      en_delivery = [], en_running_generation = Some 1, en_next_generation = 1, en_running_through = Some sample_cursor,
      en_dirty_through = None, en_retry_not_before = None, en_consecutive_failures = 0\<rparr>"

definition sample_two_running :: "unit dispatch_state" where
  "sample_two_running = sample_watch_state\<lparr>ds_registry := sample_registry\<lparr>rg_entries := [(30, sample_running 30), (31, sample_running 31)]\<rparr>\<rparr>"

definition sample_poll_env :: "unit poll_env" where
  "sample_poll_env =
     \<lparr>pe_rerun = (\<lambda>_ _ _. Inl authorization_expired), pe_others = (\<lambda>_. []), pe_after = (\<lambda>_. []), pe_listening = (\<lambda>_. True),
      pe_claim_others = [], pe_claim_fault = NoFault, pe_ack_others = [], pe_ack_fault = NoFault, pe_ack_clock = Inr 0\<rparr>"

theorem failed_rerun_blocks_delivery_witness:
  "\<exists>s r s3. execute_tickets sample_U sample_sha sample_poll_env 0 0
      [\<lparr>tk_spec = sample_spec 30, tk_generation = 1\<rparr>, \<lparr>tk_spec = sample_spec 31, tk_generation = 1\<rparr>] sample_two_running =
      (Inl (DispRerun authorization_expired), 1, s) \<and>
    poll_once sample_U sample_sha sample_dispatcher sample_poll_env sample_scope 200 s = (r, s3) \<and>
    (\<exists>e. map_of (rg_entries (ds_registry s3)) 31 = Some e \<and> en_running_through e = Some sample_cursor)"
proof -
  let ?ticket = "\<lparr>tk_spec = sample_spec 30, tk_generation = 1\<rparr>"
  have st: "stuck sample_scope 31 sample_cursor (ds_registry sample_two_running)"
    by (simp add: stuck_def registry_wf_def specs_def awaits_def sample_two_running_def sample_watch_state_def sample_running_def sample_spec_def)
  have keeps: "env_keeps_subscription 31 sample_poll_env" by (simp add: env_keeps_subscription_def sample_poll_env_def)
  have "\<exists>s. run_ticket sample_U sample_sha sample_poll_env 0 0 ?ticket 0 sample_two_running = (Inl (DispRerun authorization_expired), 1, s)"
    by (subst run_ticket.simps)
      (simp add: sample_spec_def sample_poll_env_def ticket_fails_def complete_failure_def sample_two_running_def sample_watch_state_def
        sample_running_def require_generation_def complete_failure_entry_def authorization_expired_def sample_registry_def send_event_def
        micros_def checked_add_u64_def Let_def REGISTRY_PRODUCTION_def del: bindR_Inr mapR_Inr)
  then obtain s where run: "run_ticket sample_U sample_sha sample_poll_env 0 0 ?ticket 0 sample_two_running = (Inl (DispRerun authorization_expired), 1, s)" ..
  obtain r s3 where p: "poll_once sample_U sample_sha sample_dispatcher sample_poll_env sample_scope 200 s = (r, s3)" by force
  from failed_rerun_blocks_delivery [OF st _ run keeps _ _ p keeps, where polls = "[]"] p show ?thesis
    by (simp add: sample_spec_def)
qed

end
