(* ===== verification/Spec2Isabelle.thy ===== *)
theory Spec2Isabelle
  imports
    Core_Properties
    Value_Properties
    Data_Properties
    Store_Properties
    Export_Properties
    Execution_Properties
    Scheduled_Properties
    Action_Properties
    Schema_Properties
    Realtime_Properties
begin

text \<open>
  \<^bold>\<open>A verification of the Runku backend\<close>

  Runku is a self-hosted backend: Functions written by users (Queries, Mutations, Actions) run against a
  transactional document store that is separated into Projects and Environments; subscriptions to Queries are
  kept up to date from the events that commits leave behind. The development models the part of the system that
  decides what is stored and what clients are told, from the bytes on disk to the value a subscription
  shows, and proves it correct as one stack:

  \<^item> identifiers, names and code selectors (\<open>runku-core\<close>) name everything;
  \<^item> values have one stored form, and index keys have an order-preserving form (\<open>runku-value\<close>);
  \<^item> a commit batch lists reads, writes, index entries, events and schedules (\<open>runku-data\<close>);
  \<^item> the embedded store applies batches and serves reads, outbox consumers and schedulers (\<open>runku-data-sqlite\<close>);
  \<^item> the schema decides which index entries a document has (\<open>runku-schema\<close>);
  \<^item> the coordinators run Mutations and Queries against snapshots of the store (\<open>runku-execution\<close>);
  \<^item> the realtime dispatcher consumes the outbox and reruns the Queries of subscriptions (\<open>runku-realtime\<close>).

  \<^bold>\<open>How the code is modelled\<close>

  Rust's \<open>Result\<close> is a sum type with the error on the left (\<open>Prelude\<close>: \<open>bindR\<close> is the \<open>?\<close> operator, \<open>foldR\<close> and
  \<open>traverseR\<close> are the loops that stop at the first error). Machine integers are words of their width where the
  code computes with them, and SQL integers are \<open>int\<close> with their conversions written out. Strings are character
  lists, byte strings are lists of 8-bit words with the lexicographic order. Structs are records, enums are
  datatypes with the constructors of the source. An operation on shared state takes the state and returns it.
  Everything an operation awaits or draws from outside is an argument: the clock, generated identifiers, the
  outcome of a transaction (\<open>tx_fault\<close>: it may fail to begin, or its commit may report an error and still have
  been applied), what other clients of the store do between two awaits, and cancellation. All definitions
  are total; the loops of the decoders terminate because the cursor moves, the loop on a ticket because it consumes
  a coalesced invalidation. There is no fuel: where the source bounds a loop (attempts, commit retries), so
  does the model.

  Two things outside the repository are parameters. The \<open>ulid\<close> crate is the record \<open>ulid_crate\<close> with its documented
  laws \<open>ulid_laws\<close> (the 26-character text form parses back, and nothing else parses); \<open>Ulid_Instance\<close> implements
  it in Crockford's alphabet and discharges the laws. SHA-256 is the argument \<open>sha256\<close>; no theorem assumes anything of
  it. A user's Function is a call tree (\<open>program\<close>, \<open>query_program\<close>): what it calls next depends on the answers it
  got, and on nothing else.

  \<^bold>\<open>The theories\<close>

  \<^descr> \<open>Prelude\<close>, \<open>Machine\<close>, \<open>Sql_Table\<close>, \<open>Sql_Order\<close>: shared vocabulary; state machines with an invariant or a preorder (locales
  \<open>invariant_machine\<close>, \<open>monotone_machine\<close>); the SQL statements the adapter uses, on tables as lists of rows; what it
  means to return the first rows in an order (\<open>first_rows\<close>).
  \<^descr> \<open>Core\<close>, \<open>Ulid_Instance\<close>, \<open>Core_Properties\<close>: \<open>runku-core/src/id.rs\<close>, \<open>name.rs\<close>, \<open>target.rs\<close>,
  \<open>environment.rs\<close>. Printing and parsing are inverse, resource kinds never mix, and the Environment policy admits
  Workspaces exactly where development is allowed.
  \<^descr> \<open>Byte_Codec\<close>, \<open>Value_Model\<close>, \<open>Stored_Value\<close>, \<open>Index_Key\<close>, \<open>Index_Order\<close>, \<open>Value_Properties\<close>:
  \<open>runku-value/src/value.rs\<close>, \<open>stored.rs\<close>, \<open>index.rs\<close>. Both decoders accept exactly the encodings of valid values
  (locales \<open>self_delimiting\<close>, \<open>ulid_codec\<close>); keys compare as bytes the way their components compare (locale
  \<open>order_preserving\<close>), floats numerically, and a prefix range holds exactly the keys with that prefix.
  \<^descr> \<open>Data_Model\<close>, \<open>Commit_Batch\<close>, \<open>Commit_Validation\<close>, \<open>Commit_Digest\<close>, \<open>Data_Properties\<close>:
  \<open>runku-data/src/model.rs\<close>, \<open>error.rs\<close>, \<open>batch.rs\<close>. Validation accepts exactly the well-formed batches within the limits,
  which \<open>batch_valid\<close> writes out, and the digest's byte stream determines the content of a batch; an index scan returns
  exactly the first entries of its range.
  \<^descr> \<open>Sqlite_Rows\<close>, \<open>Sqlite_Store\<close>: the schema of \<open>runku-data-sqlite/src/migration.rs\<close> and every operation of
  \<open>LogicalStore\<close> and \<open>ReadSnapshot\<close> in \<open>adapter.rs\<close>, as transactions; \<open>store_step\<close> is the machine of the
  operations of the running service. \<open>Sqlite_Snapshot\<close>: the calls of a snapshot with the errors the database library reports.
  \<^descr> \<open>Sqlite_Isolation\<close>, \<open>Sqlite_Invariant\<close>, \<open>Sqlite_History\<close>, \<open>Sqlite_Semantics\<close>, \<open>Sqlite_Delivery\<close>,
  \<open>Store_Sample\<close>, \<open>Store_Properties\<close>: Environments do not influence each other; every reachable database satisfies
  \<open>db_ok\<close>; logs, sequences and cursors only advance; commits take effect exactly once and write exactly their
  batch; errors other than an uncertain result or a busy database leave no effect, those of a reset excepted; reads never
  meet corruption; events are delivered in order without loss; superseded leases are fenced off.
  \<^descr> \<open>Sqlite_Export\<close>, \<open>Sqlite_Roundtrip\<close>, \<open>Sqlite_Export_Reads\<close>, \<open>Export_Properties\<close>: the export of an Environment, its validation, and
  the import and seeding of an empty one (\<open>adapter.rs\<close>). An export of a legal database that is imported reads back as the
  export, and every read of a snapshot answers as in the original database.
  \<^descr> \<open>Schema_Catalog\<close>, \<open>Schema_Format\<close>, \<open>Schema_Properties\<close>: \<open>runku-schema/src/lib.rs\<close>. The catalog resource is
  canonical, and the order of the definitions does not matter.
  \<^descr> \<open>Mutation_Session\<close>, \<open>Mutation_Engine\<close>: \<open>runku-execution/src/mutation.rs\<close>, with the retries of commits and
  attempts. \<open>Mutation_Refinement\<close>, \<open>Mutation_Serial\<close>, \<open>Mutation_Typed\<close>, \<open>Mutation_Atomic\<close>, \<open>Mutation_Recreate\<close>,
  \<open>Mutation_Sample\<close>, \<open>Execution_Properties\<close>: an execution is equivalent to its Function running and committing in
  one atomic step after exactly what the other clients did meanwhile (\<open>interleaved\<close>), unless another client deletes a document it read and creates it again, for which the
  counterexample is carried out; batches are well-formed, and attempts are bounded.
  \<^descr> \<open>Query_Session\<close>, \<open>Query_Refinement\<close>: \<open>runku-execution/src/query.rs\<close>. The dependencies a Query reports determine its
  result.
  \<^descr> \<open>Scheduled_Worker\<close>: \<open>runku-execution/src/scheduler.rs\<close>. \<open>Schedule_Steps\<close>, \<open>Scheduled_Settle\<close>, \<open>Scheduled_Poll\<close>,
  \<open>Scheduled_Properties\<close>: what an operation of the store can do to one invocation (the inductive relation
  \<open>schedule_row_step\<close>), and from it that a poll leases exactly the first due invocations and
  settles every one of them, since its lease outlasts the batch.
  \<^descr> \<open>Action_Schedule\<close>: the scheduler of Actions in \<open>runku-execution/src/action.rs\<close>. \<open>Action_Durable\<close>,
  \<open>Action_Properties\<close>: what the scheduler reports is in the store, also when the store answered with a replay, because
  the log of operations determines which schedules were inserted.
  \<^descr> \<open>Realtime_Impact\<close>, \<open>Realtime_Registry\<close>, \<open>Realtime_Dispatcher\<close>: \<open>runku-realtime/src/lib.rs\<close>, \<open>registry.rs\<close>,
  \<open>dispatcher.rs\<close>. A poll takes what others do during each of its awaits as input (\<open>poll_env\<close>).
  \<^descr> \<open>Realtime_Sound\<close>, \<open>Realtime_Cursor\<close>, \<open>Realtime_Fresh\<close>, \<open>Realtime_Runner\<close>, \<open>Realtime_Poll\<close>, \<open>Realtime_Query\<close>,
  \<open>Realtime_Service\<close>, \<open>Realtime_Stuck\<close>, \<open>Realtime_Sample\<close>, \<open>Realtime_Watch\<close>, \<open>Realtime_Properties\<close>: matching events against
  dependencies is sound; what is acknowledged was looked at; the contract of the runner (locale
  \<open>subscription_runner\<close>) is met by executing the Query; hence subscriptions that owe no rerun show the current
  value (\<open>subscriptions_current\<close>, over the inductive predicate \<open>served\<close>). A failing rerun leaves other
  subscriptions running for ever, which \<open>Realtime_Stuck\<close> follows through later polls.

  \<^bold>\<open>Conditions of the theorems\<close>

  Batches are typed (\<open>batch_typed\<close>): the values in them satisfy what the constructors of the source enforce.
  Where a replay has to mean that the same content was committed before, the digests of the batches
  in question must not collide (\<open>collision_free\<close>). The worker theorem needs that other workers' clocks are not ahead of its timeouts
  and that no store call of the poll fails. Seeding and importing are not steps of the store machine: the checks on an
  export do not imply the invariant, so loaded exports are outside the theorems on histories.
  Serializability needs that other clients delete no document of the Environment during the execution, and do not reset it.
  The realtime theorem needs that commits in the Environment announce their writes, which the batches of the
  engine do, that the Environment is not reset, that one dispatcher serves the registry and its consumer name, that a
  subscription is registered, between polls or during one, with an answer of its Query on the store at that moment, and that no 64-bit counter of the registry overflows.

  \<^bold>\<open>Not modelled\<close>

  The JavaScript engine and its workers, the network and process layers (gateway, server, local control plane,
  management service, command line, OTLP export, S3, containers and microVMs) are input and output around the
  modelled parts: what they compute is text and requests. The control plane (Release, serving, Environment, cron and
  identity registries, compatibility and contracts) decides which code runs and keeps records of its own in other
  databases; a modelled invocation starts where it ends, with code that is pinned and a caller that is authorised. Of the Action
  coordinator the scheduler is modelled; its nested calls run the modelled coordinators, under requests whose
  derivation (identity, configuration) is not. The PostgreSQL adapter states the same contract in another SQL
  dialect. Opening a database file, its PRAGMAs and the migration runner depend on the file system. Telemetry counters are
  modelled where an operation returns them. Cryptography (tokens, encrypted configuration) consists of calls to libraries.
\<close>

end
